(* ===== verification/Py_Prelude.thy ===== *)
theory Py_Prelude
  imports Main "HOL-Library.Word" "HOL-Library.AList" "HOL-Library.Char_ord"
    "HOL-Library.List_Lexorder"
begin

text \<open>
  The Python values and primitives the modelled modules share.

  Text is a list of code points below 256 (Latin-1), for which \<open>str.lower\<close>, \<open>str.strip\<close> and
  \<open>int(str)\<close> are modelled exactly. Integers are unbounded. A dynamically typed value that comes
  out of JSON (a request body, an RPC answer, a metadata dictionary) is a \<open>pyval\<close>; dictionaries
  are association lists in insertion order. A finite float is a dyadic rational \<open>m / 2 ^ k\<close>
  together with the text Python prints for it, because the modelled code only truncates, tests
  and prints floats. An exception is the left summand of \<open>'a res\<close>.
\<close>

named_theorems py_simps \<open>equations that evaluate the Python primitives\<close>

section \<open>Results and errors\<close>

datatype pyerr =
    TypeError | ValueError | OverflowError | KeyError | IndexError | AttributeError
  | AssertionError | OSError | RuntimeError | ZeroDivisionError | ArithmeticError
  | SqliteError

type_synonym 'a res = "pyerr + 'a"

definition rbind :: "'a res \<Rightarrow> ('a \<Rightarrow> 'b res) \<Rightarrow> 'b res" where
  "rbind m f = (case m of Inl e \<Rightarrow> Inl e | Inr x \<Rightarrow> f x)"

lemma rbind_Inl [simp]: "rbind (Inl e) f = Inl e"
  by (simp add: rbind_def)

lemma rbind_Inr [simp]: "rbind (Inr x) f = f x"
  by (simp add: rbind_def)

lemma rbind_eq_Inr: "rbind m f = Inr y \<longleftrightarrow> (\<exists>x. m = Inr x \<and> f x = Inr y)"
  by (cases m) auto

lemma rbind_eq_Inl: "rbind m f = Inl e \<longleftrightarrow> m = Inl e \<or> (\<exists>x. m = Inr x \<and> f x = Inl e)"
  by (cases m) auto

lemma rbind_split: "P (rbind m f) \<longleftrightarrow> (\<forall>e. m = Inl e \<longrightarrow> P (Inl e)) \<and> (\<forall>x. m = Inr x \<longrightarrow> P (f x))"
  by (cases m) auto

text \<open>\<open>[f(x) for x in xs]\<close> where \<open>f\<close> may raise: the first exception wins.\<close>

fun mapr :: "('a \<Rightarrow> 'b res) \<Rightarrow> 'a list \<Rightarrow> 'b list res" where
  "mapr f [] = Inr []"
| "mapr f (x # xs) = rbind (f x) (\<lambda>y. rbind (mapr f xs) (\<lambda>ys. Inr (y # ys)))"

lemma mapr_length: "mapr f xs = Inr ys \<Longrightarrow> length ys = length xs"
  by (induction xs arbitrary: ys) (auto simp: rbind_eq_Inr)

lemma mapr_nth: "mapr f xs = Inr ys \<Longrightarrow> i < length xs \<Longrightarrow> f (xs ! i) = Inr (ys ! i)"
proof (induction xs arbitrary: ys i)
  case Nil
  then show ?case by simp
next
  case (Cons x xs)
  then show ?case by (cases i) (auto simp: rbind_eq_Inr)
qed

lemma mapr_Inr_map: "(\<And>x. x \<in> set xs \<Longrightarrow> f x = Inr (g x)) \<Longrightarrow> mapr f xs = Inr (map g xs)"
  by (induction xs) auto

section \<open>Text\<close>

text \<open>\<open>str.isspace\<close> of a Latin-1 code point; \<open>bytes.fromhex\<close> skips the ASCII ones only.\<close>

definition is_space :: "char \<Rightarrow> bool" where
  "is_space c = (let n = of_char c :: nat in
     9 \<le> n \<and> n \<le> 13 \<or> 28 \<le> n \<and> n \<le> 32 \<or> n = 133 \<or> n = 160)"

definition is_ascii_space :: "char \<Rightarrow> bool" where
  "is_ascii_space c = (let n = of_char c :: nat in 9 \<le> n \<and> n \<le> 13 \<or> n = 32)"

definition lower_char :: "char \<Rightarrow> char" where
  "lower_char c = (let n = of_char c :: nat in
     if 65 \<le> n \<and> n \<le> 90 \<or> 192 \<le> n \<and> n \<le> 222 \<and> n \<noteq> 215 then char_of (n + 32) else c)"

definition lower :: "string \<Rightarrow> string" where
  "lower s = map lower_char s"

definition strip :: "string \<Rightarrow> string" where
  "strip s = rev (dropWhile is_space (rev (dropWhile is_space s)))"

definition starts_with :: "string \<Rightarrow> string \<Rightarrow> bool" where
  "starts_with p s = (take (length p) s = p)"

fun contains :: "string \<Rightarrow> string \<Rightarrow> bool" where
  "contains p [] = (p = [])"
| "contains p (c # cs) = (starts_with p (c # cs) \<or> contains p cs)"

definition rjust :: "nat \<Rightarrow> 'a \<Rightarrow> 'a list \<Rightarrow> 'a list" where
  "rjust n x s = replicate (n - length s) x @ s"

fun join :: "string \<Rightarrow> string list \<Rightarrow> string" where
  "join sep [] = []"
| "join sep [s] = s"
| "join sep (s # t # ts) = s @ sep @ join sep (t # ts)"

lemma lower_append [simp]: "lower (s @ t) = lower s @ lower t"
  by (simp add: lower_def)

lemma lower_Nil [simp]: "lower [] = []"
  by (simp add: lower_def)

lemma lower_Cons [simp]: "lower (c # s) = lower_char c # lower s"
  by (simp add: lower_def)

lemma length_lower [simp]: "length (lower s) = length s"
  by (simp add: lower_def)

lemma starts_with_append [simp]: "starts_with p (p @ s)"
  by (simp add: starts_with_def)

lemma starts_with_iff: "starts_with p s \<longleftrightarrow> (\<exists>t. s = p @ t)"
  by (metis append_eq_conv_conj append_take_drop_id starts_with_def)

lemma length_rjust [simp]: "length (rjust n x s) = max n (length s)"
  by (simp add: rjust_def)

lemma rjust_id: "n \<le> length s \<Longrightarrow> rjust n x s = s"
  by (simp add: rjust_def)

lemma dropWhile_hd_id: "xs = [] \<or> \<not> P (hd xs) \<Longrightarrow> dropWhile P xs = xs"
  by (cases xs) auto

lemma strip_id:
  assumes "s \<noteq> [] \<Longrightarrow> \<not> is_space (hd s) \<and> \<not> is_space (last s)"
  shows "strip s = s"
proof (cases "s = []")
  case True
  then show ?thesis by (simp add: strip_def)
next
  case False
  with assms have "dropWhile is_space s = s" "dropWhile is_space (rev s) = rev s"
    by (simp_all add: dropWhile_hd_id hd_rev)
  then show ?thesis by (simp add: strip_def)
qed

lemma strip_no_space: "(\<forall>c \<in> set s. \<not> is_space c) \<Longrightarrow> strip s = s"
  by (rule strip_id) simp

lemma is_space_lower_char [simp]: "is_space (lower_char c) = is_space c"
  by (simp add: lower_char_def is_space_def Let_def)

lemma hd_strip: "strip s \<noteq> [] \<Longrightarrow> \<not> is_space (hd (strip s)) \<and> \<not> is_space (last (strip s))"
proof -
  assume ne: "strip s \<noteq> []"
  let ?t = "dropWhile is_space s" and ?u = "dropWhile is_space (rev (dropWhile is_space s))"
  have u: "?u \<noteq> []" using ne by (simp add: strip_def)
  then have "\<not> is_space (hd ?u)" by (simp add: hd_dropWhile)
  moreover have "last (strip s) = hd ?u" using u by (simp add: strip_def last_rev)
  moreover have "\<not> is_space (hd (strip s))"
  proof -
    obtain v where v: "rev ?t = v @ ?u" by (metis takeWhile_dropWhile_id)
    then have t: "?t = rev ?u @ rev v" by (metis rev_append rev_rev_ident)
    with u have "hd ?t = hd (rev ?u)" by (metis hd_append2 rev_is_Nil_conv)
    moreover have "?t \<noteq> []" using u by (metis dropWhile.simps(1) rev.simps(1))
    then have "\<not> is_space (hd ?t)" by (rule hd_dropWhile)
    ultimately show ?thesis by (simp add: strip_def)
  qed
  ultimately show ?thesis by simp
qed

lemma strip_lower_strip [simp]: "strip (lower (strip s)) = lower (strip s)"
  using hd_strip[of s] by (intro strip_id) (auto simp: lower_def hd_map last_map)

lemma lower_char_idem [simp]: "lower_char (lower_char c) = lower_char c"
  by (simp add: lower_char_def Let_def)

lemma lower_lower [simp]: "lower (lower s) = lower s"
  by (simp add: lower_def)

lemma strip_strip [simp]: "strip (strip s) = strip s"
  using hd_strip[of s] by (intro strip_id) auto

section \<open>Numerals\<close>

text \<open>\<open>str(n)\<close> for an integer, \<open>f"{n:x}"\<close>, and zero-padded hexadecimal.\<close>

definition digit_char :: "nat \<Rightarrow> char" where
  "digit_char d = char_of (if d < 10 then 48 + d else 87 + d)"

fun show_base :: "nat \<Rightarrow> nat \<Rightarrow> string" where
  "show_base b n =
     (if b < 2 then [] else if n < b then [digit_char n]
      else show_base b (n div b) @ [digit_char (n mod b)])"

declare show_base.simps [simp del]

definition show_nat :: "nat \<Rightarrow> string" where
  "show_nat n = show_base 10 n"

definition show_int :: "int \<Rightarrow> string" where
  "show_int i = (if i < 0 then CHR ''-'' # show_nat (nat (- i)) else show_nat (nat i))"

definition show_hex :: "nat \<Rightarrow> string" where
  "show_hex n = show_base 16 n"

text \<open>\<open>hex(n)\<close>\<close>

definition py_hex :: "int \<Rightarrow> string" where
  "py_hex i = (if i < 0 then ''-0x'' @ show_hex (nat (- i)) else ''0x'' @ show_hex (nat i))"

definition digit_val :: "nat \<Rightarrow> char \<Rightarrow> nat option" where
  "digit_val b c = (let n = of_char c :: nat;
       v = (if 48 \<le> n \<and> n \<le> 57 then n - 48 else if 97 \<le> n \<and> n \<le> 122 then n - 87
            else if 65 \<le> n \<and> n \<le> 90 then n - 55 else 99)
     in if v < b then Some v else None)"

text \<open>Digits with single underscores between them, as \<open>int(str)\<close> accepts them.\<close>

fun digits_from :: "nat \<Rightarrow> nat \<Rightarrow> string \<Rightarrow> nat option" where
  "digits_from b acc [] = Some acc"
| "digits_from b acc (c # cs) =
     (if c = CHR ''_'' then
        (case cs of [] \<Rightarrow> None
         | d # ds \<Rightarrow> (case digit_val b d of None \<Rightarrow> None
                     | Some v \<Rightarrow> digits_from b (acc * b + v) ds))
      else (case digit_val b c of None \<Rightarrow> None | Some v \<Rightarrow> digits_from b (acc * b + v) cs))"

definition parse_nat :: "nat \<Rightarrow> string \<Rightarrow> nat option" where
  "parse_nat b s = (case s of [] \<Rightarrow> None
     | c # cs \<Rightarrow> (case digit_val b c of None \<Rightarrow> None | Some v \<Rightarrow> digits_from b v cs))"

fun split_sign :: "string \<Rightarrow> int \<times> string" where
  "split_sign (c # cs) =
     (if c = CHR ''-'' then (- 1, cs) else if c = CHR ''+'' then (1, cs) else (1, c # cs))"
| "split_sign [] = (1, [])"

text \<open>
  \<open>int(s, 10)\<close> and \<open>int(s, 16)\<close>. CPython 3.11 refuses a decimal text of more than 4300
  digits with a ValueError; base 16 has no such limit and accepts one \<open>0x\<close> prefix, after which
  one underscore may stand.
\<close>

definition int_of_str :: "string \<Rightarrow> int res" where
  "int_of_str s = (let (sg, ds) = split_sign (strip s) in
     if 4300 < length (filter (\<lambda>c. c \<noteq> CHR ''_'') ds) then Inl ValueError
     else (case parse_nat 10 ds of None \<Rightarrow> Inl ValueError | Some n \<Rightarrow> Inr (sg * int n)))"

definition int_of_str16 :: "string \<Rightarrow> int res" where
  "int_of_str16 s = (let (sg, ds) = split_sign (strip s);
       es = (if starts_with ''0x'' ds \<or> starts_with ''0X'' ds
             then (let r = drop 2 ds in if starts_with ''_'' r then drop 1 r else r) else ds)
     in case parse_nat 16 es of None \<Rightarrow> Inl ValueError | Some n \<Rightarrow> Inr (sg * int n))"

section \<open>Dynamically typed values\<close>

datatype pyfloat = FFin int nat string | FInf bool | FNan

datatype pyval =
    PNone
  | PBool bool
  | PInt int
  | PFloat pyfloat
  | PStr string
  | PList "pyval list"
  | PDict "(string \<times> pyval) list"

type_synonym pydict = "(string \<times> pyval) list"

fun truthy :: "pyval \<Rightarrow> bool" where
  "truthy PNone = False"
| "truthy (PBool b) = b"
| "truthy (PInt i) = (i \<noteq> 0)"
| "truthy (PFloat (FFin m k r)) = (m \<noteq> 0)"
| "truthy (PFloat (FInf neg)) = True"
| "truthy (PFloat FNan) = True"
| "truthy (PStr s) = (s \<noteq> [])"
| "truthy (PList xs) = (xs \<noteq> [])"
| "truthy (PDict d) = (d \<noteq> [])"

text \<open>\<open>a or b\<close>\<close>

definition por :: "pyval \<Rightarrow> pyval \<Rightarrow> pyval" where
  "por a b = (if truthy a then a else b)"

text \<open>\<open>d.get(k)\<close>, \<open>d.get(k, default)\<close>, \<open>d[k] = v\<close>, \<open>d.update(e)\<close>\<close>

definition dget_or :: "pydict \<Rightarrow> string \<Rightarrow> pyval \<Rightarrow> pyval" where
  "dget_or d k v = (case map_of d k of None \<Rightarrow> v | Some x \<Rightarrow> x)"

definition dget :: "pydict \<Rightarrow> string \<Rightarrow> pyval" where
  "dget d k = dget_or d k PNone"

definition dset :: "pydict \<Rightarrow> string \<Rightarrow> pyval \<Rightarrow> pydict" where
  "dset d k v = AList.update k v d"

definition dupdate :: "pydict \<Rightarrow> pydict \<Rightarrow> pydict" where
  "dupdate d e = fold (\<lambda>(k, v) acc. dset acc k v) e d"

lemma dget_Cons [simp]: "dget ((k, v) # d) j = (if j = k then v else dget d j)"
  by (simp add: dget_def dget_or_def)

lemma dget_Nil [simp]: "dget [] j = PNone"
  by (simp add: dget_def dget_or_def)

lemma map_of_dset: "map_of (dset d k v) = (map_of d)(k \<mapsto> v)"
  by (simp add: dset_def update_conv')

lemma dget_dset [simp]: "dget (dset d k v) j = (if j = k then v else dget d j)"
  by (simp add: dget_def dget_or_def map_of_dset)

lemma dget_or_dset [simp]: "dget_or (dset d k v) j w = (if j = k then v else dget_or d j w)"
  by (simp add: dget_or_def map_of_dset)

lemma map_of_dset_eq [simp]: "map_of (dset d k v) j = (if j = k then Some v else map_of d j)"
  by (simp add: map_of_dset)

lemma dset_nonempty [simp]: "dset d k v \<noteq> []"
  by (cases d) (auto simp: dset_def split: prod.splits)

lemma map_of_dupdate: "distinct (map fst e) \<Longrightarrow> map_of (dupdate d e) = map_of d ++ map_of e"
proof (induction e arbitrary: d)
  case Nil
  then show ?case by (simp add: dupdate_def)
next
  case (Cons p e)
  obtain k v where p: "p = (k, v)" by (cases p)
  from Cons.prems p have k: "map_of e k = None" and d: "distinct (map fst e)"
    by (auto simp: map_of_eq_None_iff image_iff)
  have "map_of (dupdate (dset d k v) e) = map_of (dset d k v) ++ map_of e"
    using Cons.IH d by simp
  then have "map_of (dupdate d (p # e)) = (map_of d)(k \<mapsto> v) ++ map_of e"
    by (simp add: dupdate_def p map_of_dset)
  also have "\<dots> = map_of d ++ map_of (p # e)"
    using k by (auto simp: p map_add_def fun_eq_iff split: option.splits)
  finally show ?case .
qed

lemma dget_dupdate: "distinct (map fst e) \<Longrightarrow> dget (dupdate d e) k = (case map_of e k of None \<Rightarrow> dget d k | Some v \<Rightarrow> v)"
  by (simp add: dget_def dget_or_def map_of_dupdate map_add_def split: option.split)

lemma distinct_dupdate: "distinct (map fst d) \<Longrightarrow> distinct (map fst (dupdate d e))"
  unfolding dupdate_def by (induction e arbitrary: d) (auto simp: dset_def distinct_update)

text \<open>\<open>repr\<close> of a text value: quotes, escapes and the unprintable code points below 256.\<close>

definition two_hex :: "nat \<Rightarrow> string" where
  "two_hex n = [digit_char (n div 16 mod 16), digit_char (n mod 16)]"

definition escape_char :: "char \<Rightarrow> char \<Rightarrow> string" where
  "escape_char q c = (let n = of_char c :: nat in
     if c = q \<or> n = 92 then [CHR 0x5C, c]
     else if n = 9 then [CHR 0x5C, CHR ''t''] else if n = 10 then [CHR 0x5C, CHR ''n'']
     else if n = 13 then [CHR 0x5C, CHR ''r'']
     else if n < 32 \<or> 127 \<le> n \<and> n \<le> 160 \<or> n = 173 then [CHR 0x5C, CHR ''x''] @ two_hex n
     else [c])"

definition repr_str :: "string \<Rightarrow> string" where
  "repr_str s = (let q = (if CHR 0x27 \<in> set s \<and> CHR 0x22 \<notin> set s then CHR 0x22 else CHR 0x27)
     in [q] @ concat (map (escape_char q) s) @ [q])"

fun repr_float :: "pyfloat \<Rightarrow> string" where
  "repr_float (FFin m k r) = r"
| "repr_float (FInf neg) = (if neg then ''-inf'' else ''inf'')"
| "repr_float FNan = ''nan''"

fun py_repr :: "pyval \<Rightarrow> string" where
  "py_repr PNone = ''None''"
| "py_repr (PBool b) = (if b then ''True'' else ''False'')"
| "py_repr (PInt i) = show_int i"
| "py_repr (PFloat f) = repr_float f"
| "py_repr (PStr s) = repr_str s"
| "py_repr (PList xs) = ''['' @ join '', '' (map py_repr xs) @ '']''"
| "py_repr (PDict d) = ''{'' @ join '', '' (map (\<lambda>(k, v). repr_str k @ '': '' @ py_repr v) d) @ ''}''"

text \<open>\<open>str(v)\<close> and the ubiquitous \<open>str(v or "")\<close>\<close>

fun py_str :: "pyval \<Rightarrow> string" where
  "py_str (PStr s) = s"
| "py_str v = py_repr v"

definition str_or_empty :: "pyval \<Rightarrow> string" where
  "str_or_empty v = (if truthy v then py_str v else [])"

text \<open>\<open>int(v)\<close>\<close>

fun py_int :: "pyval \<Rightarrow> int res" where
  "py_int PNone = Inl TypeError"
| "py_int (PBool b) = Inr (if b then 1 else 0)"
| "py_int (PInt i) = Inr i"
| "py_int (PFloat (FFin m k r)) = Inr (sgn m * (\<bar>m\<bar> div 2 ^ k))"
| "py_int (PFloat (FInf neg)) = Inl OverflowError"
| "py_int (PFloat FNan) = Inl ValueError"
| "py_int (PStr s) = int_of_str s"
| "py_int (PList xs) = Inl TypeError"
| "py_int (PDict d) = Inl TypeError"

definition as_dict :: "pyval \<Rightarrow> pydict" where
  "as_dict v = (case v of PDict d \<Rightarrow> d | _ \<Rightarrow> [])"

definition is_mapping :: "pyval \<Rightarrow> bool" where
  "is_mapping v = (case v of PDict d \<Rightarrow> True | _ \<Rightarrow> False)"

definition is_str :: "pyval \<Rightarrow> bool" where
  "is_str v = (case v of PStr s \<Rightarrow> True | _ \<Rightarrow> False)"

text \<open>\<open>v in (None, "")\<close>\<close>

definition none_or_empty :: "pyval \<Rightarrow> bool" where
  "none_or_empty v = (v = PNone \<or> v = PStr [])"

text \<open>\<open>x is True\<close>\<close>

definition is_true :: "pyval \<Rightarrow> bool" where
  "is_true v = (v = PBool True)"

lemma is_mapping_PDict [simp]: "is_mapping (PDict d)"
  by (simp add: is_mapping_def)

lemma as_dict_PDict [simp]: "as_dict (PDict d) = d"
  by (simp add: as_dict_def)

lemma is_mappingE: "is_mapping v \<Longrightarrow> (\<And>d. v = PDict d \<Longrightarrow> P) \<Longrightarrow> P"
  by (cases v) (auto simp: is_mapping_def)

lemma str_or_empty_PStr [simp]: "str_or_empty (PStr s) = s"
  by (simp add: str_or_empty_def)

lemma str_or_empty_PNone [simp]: "str_or_empty PNone = []"
  by (simp add: str_or_empty_def)

section \<open>Decimal round trip\<close>

lemma of_char_digit_char: "d < 16 \<Longrightarrow> of_char (digit_char d) = (if d < 10 then 48 + d else 87 + d)"
  by (simp add: digit_char_def)

lemma digit_val_char: "d < b \<Longrightarrow> b \<le> 16 \<Longrightarrow> digit_val b (digit_char d) = Some d"
  by (simp add: digit_val_def of_char_digit_char Let_def)

lemma digit_char_neq:
  assumes "d < 16" and "of_char c < (48 :: nat) \<or> of_char c = (95 :: nat)"
  shows "digit_char d \<noteq> c"
proof
  assume "digit_char d = c"
  then have "of_char c = (if d < 10 then 48 + d else 87 + d)"
    using of_char_digit_char[OF assms(1)] by simp
  with assms show False by (simp split: if_splits)
qed

lemma digit_char_no_underscore: "d < 16 \<Longrightarrow> digit_char d \<noteq> CHR ''_''"
  by (rule digit_char_neq) simp_all

lemma digits_from_snoc:
  assumes "digits_from b acc s = Some m" and "d < b" and "b \<le> 16"
  shows "digits_from b acc (s @ [digit_char d]) = Some (m * b + d)"
  using assms
proof (induction b acc s rule: digits_from.induct)
  case (1 b acc)
  then show ?case by (simp add: digit_val_char digit_char_no_underscore)
next
  case (2 b acc c cs)
  show ?case
  proof (cases "c = CHR ''_''")
    case True
    with "2.prems"(1) obtain e es v where cs: "cs = e # es" and v: "digit_val b e = Some v"
      and r: "digits_from b (acc * b + v) es = Some m"
      by (cases cs) (auto split: option.splits)
    have "digits_from b (acc * b + v) (es @ [digit_char d]) = Some (m * b + d)"
      by (rule "2.IH"(1)[OF True cs v r "2.prems"(2,3)])
    with True cs v show ?thesis by simp
  next
    case False
    with "2.prems"(1) obtain v where v: "digit_val b c = Some v"
      and r: "digits_from b (acc * b + v) cs = Some m"
      by (auto split: option.splits)
    have "digits_from b (acc * b + v) (cs @ [digit_char d]) = Some (m * b + d)"
      by (rule "2.IH"(2)[OF False v r "2.prems"(2,3)])
    with False v show ?thesis by simp
  qed
qed

lemma show_base_nonempty: "2 \<le> b \<Longrightarrow> show_base b n \<noteq> []"
  by (subst show_base.simps) simp

lemma show_base_small [simp]: "2 \<le> b \<Longrightarrow> n < b \<Longrightarrow> show_base b n = [digit_char n]"
  by (subst show_base.simps) simp

lemma show_base_step: "2 \<le> b \<Longrightarrow> b \<le> n \<Longrightarrow> show_base b n = show_base b (n div b) @ [digit_char (n mod b)]"
  by (subst show_base.simps) simp

lemma parse_show_base:
  assumes "2 \<le> b" and "b \<le> 16"
  shows "parse_nat b (show_base b n) = Some n"
  using assms
proof (induction b n rule: show_base.induct)
  case (1 b n)
  show ?case
  proof (cases "n < b")
    case True
    with "1.prems" show ?thesis by (simp add: parse_nat_def digit_val_char)
  next
    case False
    with "1.prems" have IH: "parse_nat b (show_base b (n div b)) = Some (n div b)"
      by (intro "1.IH") auto
    obtain c cs where s: "show_base b (n div b) = c # cs"
      using show_base_nonempty[of b] "1.prems" by (meson neq_Nil_conv)
    with IH obtain v where v: "digit_val b c = Some v" "digits_from b v cs = Some (n div b)"
      by (auto simp: parse_nat_def split: option.splits)
    have "digits_from b v (cs @ [digit_char (n mod b)]) = Some (n div b * b + n mod b)"
      using v(2) "1.prems" by (intro digits_from_snoc) auto
    with False "1.prems" s v(1) show ?thesis by (simp add: show_base_step parse_nat_def)
  qed
qed

lemma set_show_base: "2 \<le> b \<Longrightarrow> c \<in> set (show_base b n) \<Longrightarrow> \<exists>d < b. c = digit_char d"
proof (induction b n rule: show_base.induct)
  case (1 b n)
  show ?case
  proof (cases "n < b")
    case True
    with 1 show ?thesis by auto
  next
    case False
    with "1.prems" have "c \<in> set (show_base b (n div b)) \<or> c = digit_char (n mod b)"
      by (auto simp: show_base_step)
    then show ?thesis
    proof
      assume "c \<in> set (show_base b (n div b))"
      then show ?thesis using "1.IH" "1.prems" False by simp
    next
      assume "c = digit_char (n mod b)"
      moreover have "n mod b < b" using "1.prems" by simp
      ultimately show ?thesis by blast
    qed
  qed
qed

lemma digit_char_plain:
  assumes "d < 16"
  shows "\<not> is_space (digit_char d)" and "\<not> is_ascii_space (digit_char d)"
    and "digit_char d \<noteq> CHR ''-''" and "digit_char d \<noteq> CHR ''+''"
    and "lower_char (digit_char d) = digit_char d"
  using assms of_char_digit_char[OF assms] digit_char_neq[OF assms]
  by (simp_all add: is_space_def is_ascii_space_def lower_char_def Let_def)

lemma show_nat_plain:
  assumes "c \<in> set (show_nat n)"
  shows "\<not> is_space c" and "c \<noteq> CHR ''-''" and "c \<noteq> CHR ''+''" and "c \<noteq> CHR ''_''"
proof -
  from assms obtain d where "d < 10" "c = digit_char d"
    using set_show_base[of 10 c n] by (auto simp: show_nat_def)
  then show "\<not> is_space c" and "c \<noteq> CHR ''-''" and "c \<noteq> CHR ''+''" and "c \<noteq> CHR ''_''"
    by (simp_all add: digit_char_plain digit_char_no_underscore)
qed

lemma length_show_base:
  assumes "2 \<le> b" and "n < b ^ k" and "0 < k"
  shows "length (show_base b n) \<le> k"
  using assms
proof (induction k arbitrary: n)
  case 0
  then show ?case by simp
next
  case (Suc k)
  show ?case
  proof (cases "n < b")
    case True
    with Suc.prems show ?thesis by simp
  next
    case False
    with Suc.prems have "n div b < b ^ k" and "0 < k"
      by (simp_all add: less_mult_imp_div_less mult.commute) (cases k, simp_all)
    with Suc.IH[of "n div b"] Suc.prems False show ?thesis by (simp add: show_base_step)
  qed
qed

text \<open>
  \<open>int(str(n)) == n\<close> below the 4300-digit limit, which every integer the code prints and
  parses again (256-bit words) respects.
\<close>

lemma int_of_str_show_nat:
  assumes "n < 10 ^ 4300"
  shows "int_of_str (show_nat n) = Inr (int n)"
proof -
  have strip: "strip (show_nat n) = show_nat n"
    by (intro strip_no_space ballI show_nat_plain(1))
  obtain c cs where s: "show_nat n = c # cs"
    using show_base_nonempty[of 10 n] by (cases "show_nat n") (auto simp: show_nat_def)
  have "c \<in> set (show_nat n)" by (simp add: s)
  then have "split_sign (show_nat n) = (1, show_nat n)"
    using show_nat_plain[of c n] by (simp add: s)
  moreover have "length (filter (\<lambda>c. c \<noteq> CHR ''_'') (show_nat n)) \<le> 4300"
  proof -
    have "length (show_base 10 n) \<le> 4300"
      by (rule length_show_base[OF _ assms]) simp_all
    then show ?thesis
      using length_filter_le[of "\<lambda>c. c \<noteq> CHR ''_''" "show_nat n"]
      unfolding show_nat_def by linarith
  qed
  moreover have "parse_nat 10 (show_nat n) = Some n"
    unfolding show_nat_def by (rule parse_show_base) simp_all
  ultimately show ?thesis by (simp add: int_of_str_def strip)
qed

lemma parse_show_nat: "parse_nat 10 (show_nat n) = Some n"
  unfolding show_nat_def by (rule parse_show_base) simp_all

lemma show_nat_inj: "show_nat m = show_nat n \<Longrightarrow> m = n"
  by (metis parse_show_nat option.inject)

end
