(* ===== verification/Byte_Codec.thy ===== *)
theory Byte_Codec
  imports Py_Prelude
begin

text \<open>
  Byte strings: \<open>int.to_bytes\<close>/\<open>int.from_bytes\<close> (big and little endian), \<open>bytes.hex\<close> and
  \<open>bytes.fromhex\<close>, and the laws the calldata and receipt codecs rest on: both round trips, the
  widths, and reading the i-th 32-byte word out of a concatenation of words.
\<close>

type_synonym byte = "8 word"
type_synonym bytes = "byte list"

named_theorems bytes_simps \<open>round trips and widths of the byte codecs\<close>

section \<open>Big-endian and little-endian integers\<close>

fun to_be :: "nat \<Rightarrow> nat \<Rightarrow> bytes" where
  "to_be 0 n = []"
| "to_be (Suc k) n = to_be k (n div 256) @ [of_nat n]"

definition from_be :: "bytes \<Rightarrow> nat" where
  "from_be bs = foldl (\<lambda>acc b. 256 * acc + unat b) 0 bs"

definition to_le :: "nat \<Rightarrow> nat \<Rightarrow> bytes" where
  "to_le k n = rev (to_be k n)"

definition from_le :: "bytes \<Rightarrow> nat" where
  "from_le bs = from_be (rev bs)"

text \<open>\<open>n.to_bytes(k, "big")\<close> raises OverflowError when \<open>n\<close> is negative or does not fit.\<close>

definition int_to_bytes :: "nat \<Rightarrow> int \<Rightarrow> bytes res" where
  "int_to_bytes k n = (if n < 0 \<or> 256 ^ k \<le> nat n then Inl OverflowError else Inr (to_be k (nat n)))"

lemma length_to_be [simp]: "length (to_be k n) = k"
  by (induction k arbitrary: n) auto

lemma from_be_Nil [simp]: "from_be [] = 0"
  by (simp add: from_be_def)

lemma from_be_snoc [simp]: "from_be (bs @ [b]) = 256 * from_be bs + unat b"
  by (simp add: from_be_def)

lemma unat_byte_lt: "unat (b :: byte) < 256"
  using unsigned_less[of b, where ?'a = nat] by simp

lemma unat_of_nat_byte: "unat (of_nat n :: byte) = n mod 256"
  by (simp add: unat_of_nat)

lemma from_be_to_be_mod: "from_be (to_be k n) = n mod 256 ^ k"
proof (induction k arbitrary: n)
  case 0
  then show ?case by simp
next
  case (Suc k)
  have "n mod 256 ^ Suc k = 256 * (n div 256 mod 256 ^ k) + n mod 256"
    by (simp add: mod_mult2_eq)
  with Suc show ?case by (simp add: unat_of_nat_byte)
qed

lemma from_be_to_be [bytes_simps]: "n < 256 ^ k \<Longrightarrow> from_be (to_be k n) = n"
  by (simp add: from_be_to_be_mod)

lemma from_be_bound: "from_be bs < 256 ^ length bs"
proof (induction bs rule: rev_induct)
  case Nil
  then show ?case by simp
next
  case (snoc b bs)
  have "256 * from_be bs + unat b < 256 * (from_be bs + 1)"
    using unat_byte_lt[of b] by simp
  also have "\<dots> \<le> 256 * 256 ^ length bs"
    using snoc by (intro mult_le_mono2) simp
  finally show ?case by simp
qed

lemma to_be_from_be [bytes_simps]: "length bs = k \<Longrightarrow> to_be k (from_be bs) = bs"
proof (induction bs arbitrary: k rule: rev_induct)
  case Nil
  then show ?case by simp
next
  case (snoc b bs)
  then obtain j where k: "k = Suc j" and j: "length bs = j" by (cases k) auto
  have "(256 * from_be bs + unat b) div 256 = from_be bs"
    using unat_byte_lt[of b] by simp
  moreover have "(of_nat (256 * from_be bs + unat b) :: byte) = b"
    by (rule word_unat_eq_iff[THEN iffD2]) (use unat_byte_lt[of b] in \<open>simp only: unat_of_nat_byte\<close>, simp)
  ultimately show ?case using snoc.IH[OF j] by (simp add: k)
qed

lemma from_be_inj: "length as = length bs \<Longrightarrow> from_be as = from_be bs \<Longrightarrow> as = bs"
  by (metis to_be_from_be)

lemma to_be_inj: "m < 256 ^ k \<Longrightarrow> n < 256 ^ k \<Longrightarrow> to_be k m = to_be k n \<Longrightarrow> m = n"
  by (metis from_be_to_be)

lemma from_be_replicate0: "from_be (replicate k 0 @ bs) = from_be bs"
proof (induction bs rule: rev_induct)
  case Nil
  have "from_be (replicate k (0 :: byte)) = 0"
  proof (induction k)
    case (Suc k)
    have "replicate (Suc k) (0 :: byte) = replicate k 0 @ [0]"
      by (simp add: replicate_append_same)
    with Suc show ?case by (simp del: replicate_Suc)
  qed simp
  then show ?case by simp
next
  case (snoc b bs)
  have "replicate k 0 @ bs @ [b] = (replicate k 0 @ bs) @ [b]" by simp
  then show ?case using snoc by (simp only: from_be_snoc)
qed

lemma to_be_add: "to_be (j + k) n = to_be j (n div 256 ^ k) @ to_be k n"
proof (induction k arbitrary: n)
  case 0
  then show ?case by simp
next
  case (Suc k)
  then show ?case by (simp add: div_mult2_eq mult.commute)
qed

lemma to_be_zero: "to_be k 0 = replicate k 0"
  by (induction k) (simp_all add: replicate_append_same flip: replicate_Suc)

lemma to_be_pad: "n < 256 ^ k \<Longrightarrow> to_be (j + k) n = replicate j 0 @ to_be k n"
  by (simp add: to_be_add to_be_zero)

section \<open>Hexadecimal text\<close>

definition hex_of_byte :: "byte \<Rightarrow> string" where
  "hex_of_byte b = two_hex (unat b)"

definition hex_of :: "bytes \<Rightarrow> string" where
  "hex_of bs = concat (map hex_of_byte bs)"

text \<open>
  \<open>bytes.fromhex\<close>: ASCII white space is skipped between byte pairs, never inside one; anything
  else that is not a hexadecimal pair raises ValueError.
\<close>

fun fromhex :: "string \<Rightarrow> bytes option" where
  "fromhex [] = Some []"
| "fromhex [c] = (if is_ascii_space c then Some [] else None)"
| "fromhex (c # d # ds) =
     (if is_ascii_space c then fromhex (d # ds)
      else (case digit_val 16 c of None \<Rightarrow> None
            | Some h \<Rightarrow> (case digit_val 16 d of None \<Rightarrow> None
                       | Some l \<Rightarrow> map_option ((#) (of_nat (16 * h + l))) (fromhex ds))))"

definition fromhex_res :: "string \<Rightarrow> bytes res" where
  "fromhex_res s = (case fromhex s of None \<Rightarrow> Inl ValueError | Some b \<Rightarrow> Inr b)"

lemma hex_of_Nil [simp]: "hex_of [] = []"
  by (simp add: hex_of_def)

lemma hex_of_Cons [simp]: "hex_of (b # bs) = hex_of_byte b @ hex_of bs"
  by (simp add: hex_of_def)

lemma hex_of_append [simp]: "hex_of (as @ bs) = hex_of as @ hex_of bs"
  by (simp add: hex_of_def)

lemma length_hex_of_byte [simp]: "length (hex_of_byte b) = 2"
  by (simp add: hex_of_byte_def two_hex_def)

lemma length_hex_of [simp]: "length (hex_of bs) = 2 * length bs"
  by (induction bs) auto

lemma hex_of_byte_eq: "hex_of_byte b = [digit_char (unat b div 16), digit_char (unat b mod 16)]"
  using unat_byte_lt[of b] by (simp add: hex_of_byte_def two_hex_def)

lemma set_hex_of: "c \<in> set (hex_of bs) \<Longrightarrow> \<exists>d < 16. c = digit_char d"
proof (induction bs)
  case (Cons b bs)
  have "\<exists>d < 16. digit_char (unat b div 16) = digit_char d"
    using unat_byte_lt[of b] by (intro exI[of _ "unat b div 16"]) simp
  moreover have "\<exists>d < 16. digit_char (unat b mod 16) = digit_char d"
    by (intro exI[of _ "unat b mod 16"]) simp
  ultimately show ?case using Cons by (auto simp: hex_of_byte_eq)
qed simp

lemma hex_of_plain:
  assumes "c \<in> set (hex_of bs)"
  shows "\<not> is_space c" and "\<not> is_ascii_space c" and "lower_char c = c"
  using set_hex_of[OF assms] by (auto simp: digit_char_plain)

lemma lower_hex_of [simp]: "lower (hex_of bs) = hex_of bs"
  unfolding lower_def by (rule map_idI) (simp add: hex_of_plain)

lemma strip_hex_of [simp]: "strip (hex_of bs) = hex_of bs"
  by (intro strip_no_space ballI hex_of_plain(1))

lemma fromhex_hex_of [bytes_simps]: "fromhex (hex_of bs) = Some bs"
proof (induction bs)
  case (Cons b bs)
  let ?h = "unat b div 16" and ?l = "unat b mod 16"
  have hl: "?h < 16" "?l < 16" using unat_byte_lt[of b] by simp_all
  have "of_nat (16 * ?h + ?l) = b" by (simp add: mult.commute)
  with Cons hl show ?case
    by (simp add: hex_of_byte_eq digit_val_char digit_char_plain)
qed simp

lemma fromhex_res_hex_of [bytes_simps]: "fromhex_res (hex_of bs) = Inr bs"
  by (simp add: fromhex_res_def bytes_simps)

lemma hex_of_inj: "hex_of as = hex_of bs \<longleftrightarrow> as = bs"
  by (metis fromhex_hex_of option.inject)

lemma digit_char_0: "digit_char 0 = CHR ''0''"
  by (simp add: digit_char_def char_of_def bit_0)

lemma hex_of_zeros: "hex_of (replicate k 0) = replicate (2 * k) (CHR ''0'')"
  by (induction k) (simp_all add: hex_of_byte_eq digit_char_0)

text \<open>Text made of hexadecimal digits only decodes, and its lower case is the hex text of the bytes.\<close>

definition all_hex :: "string \<Rightarrow> bool" where
  "all_hex s = list_all (\<lambda>c. digit_val 16 c \<noteq> None) s"

lemma of_char_inj: "of_char c = (of_char d :: nat) \<Longrightarrow> c = d"
  using arg_cong[of "of_char c" "of_char d :: nat" char_of] by simp

lemma of_char_lt: "of_char c < (256 :: nat)"
  by (cases c) (simp add: of_char_def)

lemma digit_val_lower:
  assumes "digit_val 16 c = Some d"
  shows "d < 16" and "lower_char c = digit_char d" and "\<not> is_ascii_space c" and "\<not> is_space c"
proof -
  let ?n = "of_char c :: nat"
  from assms have d: "d < 16" and cs: "48 \<le> ?n \<and> ?n \<le> 57 \<and> d = ?n - 48
      \<or> 97 \<le> ?n \<and> ?n \<le> 102 \<and> d = ?n - 87 \<or> 65 \<le> ?n \<and> ?n \<le> 70 \<and> d = ?n - 55"
    by (auto simp: digit_val_def Let_def split: if_splits)
  show "d < 16" by (rule d)
  show "\<not> is_ascii_space c" "\<not> is_space c"
    using cs by (auto simp: is_ascii_space_def is_space_def Let_def)
  have "of_char (lower_char c) = (of_char (digit_char d) :: nat)"
    using cs of_char_digit_char[OF d] by (auto simp: lower_char_def Let_def)
  then show "lower_char c = digit_char d" by (rule of_char_inj)
qed

lemma fromhex_all_hex:
  assumes "all_hex s" and "even (length s)"
  shows "\<exists>bs. fromhex s = Some bs \<and> length s = 2 * length bs \<and> lower s = hex_of bs"
  using assms
proof (induction s rule: fromhex.induct)
  case 1
  then show ?case by simp
next
  case (2 c)
  then show ?case by simp
next
  case (3 c d ds)
  from 3 obtain h l where h: "digit_val 16 c = Some h" and l: "digit_val 16 d = Some l"
    by (auto simp: all_hex_def)
  from 3 h l obtain bs where bs: "fromhex ds = Some bs" "length ds = 2 * length bs" "lower ds = hex_of bs"
    by (auto simp: all_hex_def digit_val_lower(3))
  have hl: "h < 16" "l < 16" using h l by (simp_all add: digit_val_lower(1))
  then have "unat (of_nat (16 * h + l) :: byte) = 16 * h + l"
    by (simp only: unat_of_nat_byte) simp
  then have "hex_of_byte (of_nat (16 * h + l)) = [digit_char h, digit_char l]"
    using hl by (simp add: hex_of_byte_eq del: of_nat_add of_nat_mult)
  with bs h l show ?case
    by (intro exI[of _ "of_nat (16 * h + l) # bs"])
       (simp add: digit_val_lower(2,3) del: of_nat_add of_nat_mult)
qed

lemma all_hex_hex_of [simp]: "all_hex (hex_of bs)"
proof -
  have "digit_val 16 c \<noteq> None" if "c \<in> set (hex_of bs)" for c
    using set_hex_of[OF that] by (auto simp: digit_val_char)
  then show ?thesis by (simp add: all_hex_def list_all_iff)
qed

end
