(* ===== verification/Keccak.thy ===== *)
theory Keccak
  imports Byte_Codec
begin

unbundle bit_operations_syntax

text \<open>
  The dependency-free Keccak-256 of \<open>ethabi.py\<close> (\<open>_keccak256_pure\<close>): rotation, the
  24-round permutation, padding, absorption and squeezing, written with the loops of the code.
  A lane is a 64-bit word: every value the Python code stores in the state is masked to 64 bits
  or is the exclusive or of such values. The section ends with the interface \<open>hash32\<close>, the only
  law the encoders need of a hash, and its interpretation on this function.
\<close>

type_synonym lane = "64 word"

definition keccak_RC :: "lane list" where
  "keccak_RC =
    [0x0000000000000001, 0x0000000000008082, 0x800000000000808A, 0x8000000080008000,
     0x000000000000808B, 0x0000000080000001, 0x8000000080008081, 0x8000000000008009,
     0x000000000000008A, 0x0000000000000088, 0x0000000080008009, 0x000000008000000A,
     0x000000008000808B, 0x800000000000008B, 0x8000000000008089, 0x8000000000008003,
     0x8000000000008002, 0x8000000000000080, 0x000000000000800A, 0x800000008000000A,
     0x8000000080008081, 0x8000000000008080, 0x0000000080000001, 0x8000000080008008]"

definition keccak_rot :: "nat list list" where
  "keccak_rot =
    [[0, 36, 3, 41, 18], [1, 44, 10, 45, 2], [62, 6, 43, 15, 61], [28, 55, 25, 21, 56],
     [27, 20, 39, 8, 14]]"

definition rol :: "lane \<Rightarrow> nat \<Rightarrow> lane" where
  "rol x n = (let m = n mod 64 in push_bit m x OR drop_bit (64 - m) x)"

definition keccak_theta :: "lane list \<Rightarrow> lane list" where
  "keccak_theta s =
     (let C = map (\<lambda>x. s ! x XOR s ! (x + 5) XOR s ! (x + 10) XOR s ! (x + 15) XOR s ! (x + 20)) [0..<5];
          D = map (\<lambda>x. C ! ((x + 4) mod 5) XOR rol (C ! ((x + 1) mod 5)) 1) [0..<5]
      in map (\<lambda>i. s ! i XOR D ! (i mod 5)) [0..<25])"

definition keccak_rho_pi :: "lane list \<Rightarrow> lane list" where
  "keccak_rho_pi s =
     fold (\<lambda>(x, y) B. B[y + 5 * ((2 * x + 3 * y) mod 5) := rol (s ! (x + 5 * y)) (keccak_rot ! x ! y)])
       (List.product [0..<5] [0..<5]) (replicate 25 0)"

definition keccak_chi :: "lane list \<Rightarrow> lane list" where
  "keccak_chi B =
     map (\<lambda>i. let x = i mod 5; y = i div 5 in
            B ! (x + 5 * y) XOR (NOT (B ! ((x + 1) mod 5 + 5 * y)) AND B ! ((x + 2) mod 5 + 5 * y)))
       [0..<25]"

definition keccak_round :: "lane list \<Rightarrow> lane \<Rightarrow> lane list" where
  "keccak_round s rc = (let t = keccak_chi (keccak_rho_pi (keccak_theta s)) in t[0 := t ! 0 XOR rc])"

definition keccak_f :: "lane list \<Rightarrow> lane list" where
  "keccak_f s = foldl keccak_round s keccak_RC"

text \<open>Padding: domain byte \<open>0x01\<close>, zeros up to one byte before the rate, then \<open>0x80\<close>.\<close>

function pad_zeros :: "bytes \<Rightarrow> bytes" where
  "pad_zeros p = (if length p mod 136 \<noteq> 135 then pad_zeros (p @ [0]) else p)"
  by pat_completeness auto
termination
proof (relation "measure (\<lambda>p. 135 - length p mod 136)", simp)
  fix p :: bytes
  assume "length p mod 136 \<noteq> 135"
  moreover have "length p mod 136 < 136" by simp
  ultimately have "Suc (length p) mod 136 = Suc (length p mod 136)" "length p mod 136 < 135"
    by (simp_all add: mod_Suc)
  then show "(p @ [0], p) \<in> measure (\<lambda>p. 135 - length p mod 136)" by simp
qed

declare pad_zeros.simps [simp del]

definition keccak_pad :: "bytes \<Rightarrow> bytes" where
  "keccak_pad d = pad_zeros (d @ [0x01]) @ [0x80]"

definition xor_block :: "lane list \<Rightarrow> bytes \<Rightarrow> lane list" where
  "xor_block s block =
     fold (\<lambda>i t. t[i := t ! i XOR of_nat (from_le (take 8 (drop (i * 8) block)))]) [0..<17] s"

function absorb :: "lane list \<Rightarrow> bytes \<Rightarrow> lane list" where
  "absorb s p = (if p = [] then s else absorb (keccak_f (xor_block s (take 136 p))) (drop 136 p))"
  by pat_completeness auto
termination by (relation "measure (\<lambda>(s, p). length p)") auto

declare absorb.simps [simp del]

text \<open>
  The inner loop of the squeeze: lane after lane until 32 bytes are out or the rate is used. The
  outer loop's guard \<open>s = []\<close> only makes the recursion total: a state has 25 lanes.
\<close>

fun squeeze_lanes :: "lane list \<Rightarrow> bytes \<Rightarrow> bytes" where
  "squeeze_lanes [] out = out"
| "squeeze_lanes (w # ws) out =
     (let out' = out @ to_le 8 (unat w) in if 32 \<le> length out' then out' else squeeze_lanes ws out')"

lemma squeeze_lanes_grows: "length out \<le> length (squeeze_lanes ws out)"
proof (induction ws out rule: squeeze_lanes.induct)
  case (2 w ws out)
  then show ?case by (simp add: Let_def) linarith
qed simp

lemma squeeze_lanes_grows_Cons: "length out < length (squeeze_lanes (w # ws) out)"
  using squeeze_lanes_grows[of "out @ to_le 8 (unat w)" ws] by (simp add: Let_def to_le_def)

function squeeze :: "lane list \<Rightarrow> bytes \<Rightarrow> bytes" where
  "squeeze s out =
     (if 32 \<le> length out \<or> s = [] then out
      else (let out' = squeeze_lanes (take 17 s) out in
            if 32 \<le> length out' then out' else squeeze (keccak_f s) out'))"
  by pat_completeness auto
termination
proof (relation "measure (\<lambda>(s, out). 32 - length out)", simp)
  fix s :: "lane list" and out x :: bytes
  assume "\<not> (32 \<le> length out \<or> s = [])" and x: "x = squeeze_lanes (take 17 s) out" and "\<not> 32 \<le> length x"
  moreover from this obtain w ws where "s = w # ws" by (cases s) auto
  ultimately show "((keccak_f s, x), s, out) \<in> measure (\<lambda>(s, out). 32 - length out)"
    using squeeze_lanes_grows_Cons[of out w "take 16 ws"] by simp
qed

declare squeeze.simps [simp del]

definition keccak256_pure :: "bytes \<Rightarrow> bytes" where
  "keccak256_pure d = take 32 (squeeze (absorb (replicate 25 0) (keccak_pad d)) [])"

text \<open>
  \<open>keccak256\<close> takes the first implementation that imports: \<open>eth_hash\<close>, then \<open>pycryptodome\<close>,
  then the function above. The two packages are not under \<open>src/\<close>: each is an optional
  parameter, \<open>None\<close> standing for ImportError.
\<close>

definition keccak256 :: "(bytes \<Rightarrow> bytes) option \<Rightarrow> (bytes \<Rightarrow> bytes) option \<Rightarrow> bytes \<Rightarrow> bytes" where
  "keccak256 eth_hash pycrypto d =
     (case eth_hash of Some k \<Rightarrow> k d
      | None \<Rightarrow> (case pycrypto of Some k \<Rightarrow> k d | None \<Rightarrow> keccak256_pure d))"

section \<open>Widths\<close>

lemma length_keccak_round [simp]: "length (keccak_round s rc) = 25"
  by (simp add: keccak_round_def keccak_chi_def Let_def)

lemma length_foldl_round: "length s = 25 \<Longrightarrow> length (foldl keccak_round s rcs) = 25"
  by (induction rcs arbitrary: s) auto

lemma length_keccak_f [simp]: "length s = 25 \<Longrightarrow> length (keccak_f s) = 25"
  by (simp add: keccak_f_def length_foldl_round)

lemma length_fold_update: "(\<And>i t. length (g i t) = length t) \<Longrightarrow> length (fold g is s) = length s"
  by (induction "is" arbitrary: s) auto

lemma length_xor_block [simp]: "length (xor_block s block) = length s"
  unfolding xor_block_def by (rule length_fold_update) simp

lemma length_absorb: "length s = 25 \<Longrightarrow> length (absorb s p) = 25"
proof (induction s p rule: absorb.induct)
  case (1 s p)
  then show ?case by (subst absorb.simps) simp
qed

lemma length_to_le [simp]: "length (to_le k n) = k"
  by (simp add: to_le_def)

text \<open>The squeeze of a 25-lane state stops inside its first block, after four lanes.\<close>

lemma squeeze_four_lanes:
  assumes "length s = 25"
  shows "squeeze s [] = concat (map (\<lambda>w. to_le 8 (unat w)) (take 4 s))"
proof -
  have "length (drop 4 s) = 21" using assms by simp
  then obtain a b c d r where s: "s = a # b # c # d # r"
    using assms by (cases s; cases "tl s"; cases "tl (tl s)"; cases "tl (tl (tl s))") auto
  show ?thesis
    by (subst squeeze.simps) (simp add: s Let_def)
qed

lemma keccak256_pure_lanes:
  "keccak256_pure d =
     concat (map (\<lambda>w. to_le 8 (unat w)) (take 4 (absorb (replicate 25 0) (keccak_pad d))))"
proof -
  let ?s = "absorb (replicate 25 0) (keccak_pad d)"
  have len: "length ?s = 25" by (rule length_absorb) simp
  then have "length (concat (map (\<lambda>w. to_le 8 (unat w)) (take 4 ?s))) = 32"
    by (simp add: length_concat sum_list_triv o_def)
  with len show ?thesis by (simp add: keccak256_pure_def squeeze_four_lanes)
qed

lemma length_keccak256_pure [simp]: "length (keccak256_pure d) = 32"
  unfolding keccak256_pure_lanes
  by (simp add: length_concat sum_list_triv o_def length_absorb)

section \<open>Padding\<close>

lemma pad_zeros_shape: "\<exists>k. pad_zeros p = p @ replicate k 0 \<and> length (pad_zeros p) mod 136 = 135"
proof (induction p rule: pad_zeros.induct)
  case (1 p)
  show ?case
  proof (cases "length p mod 136 = 135")
    case True
    then show ?thesis by (intro exI[of _ 0]) (simp add: pad_zeros.simps[of p])
  next
    case False
    with 1 obtain k where k: "pad_zeros (p @ [0]) = (p @ [0]) @ replicate k 0"
      and m: "length (pad_zeros (p @ [0])) mod 136 = 135" by blast
    show ?thesis
      by (rule exI[of _ "Suc k"]) (use False k m in \<open>simp add: pad_zeros.simps[of p]\<close>)
  qed
qed

lemma keccak_pad_shape:
  obtains k where "keccak_pad d = d @ [0x01] @ replicate k 0 @ [0x80]"
    and "length (keccak_pad d) mod 136 = 0"
proof -
  obtain k where k: "pad_zeros (d @ [0x01]) = (d @ [0x01]) @ replicate k 0"
    and m: "length (pad_zeros (d @ [0x01])) mod 136 = 135"
    using pad_zeros_shape by blast
  have "length (keccak_pad d) mod 136 = 0"
    using m by (simp add: keccak_pad_def mod_Suc)
  then show thesis using that k by (simp add: keccak_pad_def)
qed

lemma strip_pad:
  "dropWhile (\<lambda>b. b = 0) (rev (d @ [0x01] @ replicate k 0)) = 0x01 # rev (d :: bytes)"
  by (simp, subst dropWhile_append2) auto

text \<open>Padding loses nothing: two messages with the same padded blocks are the same message.\<close>

lemma keccak_pad_inj:
  assumes "keccak_pad a = keccak_pad b"
  shows "a = b"
proof -
  obtain i where i: "keccak_pad a = a @ [0x01] @ replicate i 0 @ [0x80]" by (rule keccak_pad_shape)
  obtain j where j: "keccak_pad b = b @ [0x01] @ replicate j 0 @ [0x80]" by (rule keccak_pad_shape)
  from assms i j have "a @ [0x01] @ replicate i 0 = b @ [0x01] @ replicate j 0" by simp
  then have "0x01 # rev a = 0x01 # rev b" using strip_pad[of a i] strip_pad[of b j] by metis
  then show ?thesis by simp
qed

section \<open>The interface of a 32-byte hash\<close>

locale hash32 =
  fixes kec :: "bytes \<Rightarrow> bytes"
  assumes hash_length: "length (kec d) = 32"
begin

lemma hash_take4: "length (take 4 (kec d)) = 4"
  by (simp add: hash_length)

lemma hash_hex_length: "length (hex_of (kec d)) = 64"
  by (simp add: hash_length)

end

interpretation keccak_fallback: hash32 keccak256_pure
  by unfold_locales simp

text \<open>With neither package installed \<open>keccak256\<close> is the fallback.\<close>

lemma keccak256_none: "keccak256 None None = keccak256_pure"
  by (simp add: keccak256_def fun_eq_iff)

end
