(* ===== verification/Eth_Abi.thy ===== *)
theory Eth_Abi
  imports Keccak
begin

text \<open>
  The ABI primitives of \<open>ethabi.py\<close>: function selectors, the 32-byte words for unsigned and
  signed integers, addresses, booleans and fixed bytes, dynamic bytes, and the decoder of an
  \<open>int256[]\<close> return value. Every encoder that can raise returns a \<open>res\<close>.

  \<open>abi_word\<close> is the interface the calldata builders rely on: an encoder whose results are
  32 bytes wide and which a reader of the word inverts on a stated domain.
\<close>

section \<open>Encoders\<close>

text \<open>\<open>str.encode("utf-8")\<close> of Latin-1 text.\<close>

definition utf8_char :: "char \<Rightarrow> bytes" where
  "utf8_char c = (let n = of_char c :: nat in
     if n < 128 then [of_nat n] else [of_nat (192 + n div 64), of_nat (128 + n mod 64)])"

definition utf8 :: "string \<Rightarrow> bytes" where
  "utf8 s = concat (map utf8_char s)"

definition selector :: "(bytes \<Rightarrow> bytes) \<Rightarrow> string \<Rightarrow> bytes" where
  "selector kec sig = take 4 (kec (utf8 sig))"

definition zpad32 :: "bytes \<Rightarrow> bytes" where
  "zpad32 b = rjust 32 0 b"

definition enc_uint :: "int \<Rightarrow> bytes res" where
  "enc_uint n = (if n < 0 then Inl ValueError else int_to_bytes 32 n)"

definition enc_int :: "int \<Rightarrow> bytes res" where
  "enc_int n = (if 0 \<le> n then int_to_bytes 32 n else int_to_bytes 32 (2 ^ 256 + n))"

definition strip_0x_lower :: "string \<Rightarrow> string" where
  "strip_0x_lower a = (if starts_with ''0x'' a then drop 2 a else a)"

definition enc_address :: "string \<Rightarrow> bytes res" where
  "enc_address addr =
     (let a = strip_0x_lower (lower addr)
      in rbind (fromhex_res (rjust 40 (CHR ''0'') a)) (\<lambda>raw. Inr (zpad32 raw)))"

definition enc_bool :: "bool \<Rightarrow> bytes res" where
  "enc_bool v = enc_uint (if v then 1 else 0)"

definition enc_bytes32 :: "bytes \<Rightarrow> bytes res" where
  "enc_bytes32 b32 = (if length b32 \<noteq> 32 then Inl ValueError else Inr b32)"

definition pad32 :: "bytes \<Rightarrow> bytes" where
  "pad32 b = b @ replicate ((32 - length b mod 32) mod 32) 0"

definition enc_bytes_dyn :: "bytes \<Rightarrow> bytes res" where
  "enc_bytes_dyn b = rbind (enc_uint (int (length b))) (\<lambda>w. Inr (w @ pad32 b))"

text \<open>A big-endian read of a slice: a slice past the end is shorter, possibly empty, and reads as such.\<close>

definition word_at_off :: "bytes \<Rightarrow> nat \<Rightarrow> nat" where
  "word_at_off data off = from_be (take 32 (drop off data))"

definition to_signed :: "nat \<Rightarrow> int" where
  "to_signed w = (if 2 ^ 255 \<le> w then int w - 2 ^ 256 else int w)"

fun decode_words :: "bytes \<Rightarrow> nat \<Rightarrow> nat \<Rightarrow> int list" where
  "decode_words data p 0 = []"
| "decode_words data p (Suc n) = to_signed (word_at_off data p) # decode_words data (p + 32) n"

definition decode_int256_array :: "bytes \<Rightarrow> int list" where
  "decode_int256_array data =
     (if length data < 32 then []
      else (let off = from_be (take 32 data) in
        if length data < off + 32 then []
        else decode_words data (off + 32) (word_at_off data off)))"

section \<open>The interface of a word encoder\<close>

locale abi_word =
  fixes enc :: "'a \<Rightarrow> bytes res"
    and dec :: "nat \<Rightarrow> 'b"
    and view :: "'a \<Rightarrow> 'b"
    and valid :: "'a \<Rightarrow> bool"
  assumes enc_valid: "valid x \<Longrightarrow> \<exists>w. enc x = Inr w \<and> length w = 32 \<and> dec (from_be w) = view x"
begin

definition word_of :: "'a \<Rightarrow> bytes" where
  "word_of x = (case enc x of Inr w \<Rightarrow> w | Inl e \<Rightarrow> [])"

lemma enc_word_of: "valid x \<Longrightarrow> enc x = Inr (word_of x)"
  using enc_valid[of x] by (auto simp: word_of_def)

lemma length_word_of: "valid x \<Longrightarrow> length (word_of x) = 32"
  using enc_valid[of x] by (auto simp: word_of_def)

lemma dec_word_of: "valid x \<Longrightarrow> dec (from_be (word_of x)) = view x"
  using enc_valid[of x] by (auto simp: word_of_def)

lemma enc_inj_view:
  assumes "valid x" and "valid y" and "enc x = enc y"
  shows "view x = view y"
  using assms dec_word_of[of x] dec_word_of[of y] by (simp add: word_of_def)

lemma word_after:
  assumes "valid x"
  shows "dec (word_at_off (pre @ word_of x @ post) (length pre)) = view x"
  using assms by (simp add: word_at_off_def length_word_of dec_word_of)

lemma mapr_enc: "(\<forall>x \<in> set xs. valid x) \<Longrightarrow> mapr enc xs = Inr (map word_of xs)"
  by (rule mapr_Inr_map) (simp add: enc_word_of)

lemma length_words: "(\<forall>x \<in> set xs. valid x) \<Longrightarrow> length (concat (map word_of xs)) = 32 * length xs"
  by (induction xs) (simp_all add: length_word_of)

end

section \<open>The code's encoders provide it\<close>

definition uint256 :: "int \<Rightarrow> bool" where
  "uint256 n \<longleftrightarrow> 0 \<le> n \<and> n < 2 ^ 256"

definition int256 :: "int \<Rightarrow> bool" where
  "int256 n \<longleftrightarrow> - (2 ^ 255) \<le> n \<and> n < 2 ^ 255"

text \<open>A 20-byte address text: \<open>0x\<close> (either case) and forty hexadecimal digits.\<close>

definition is_addr :: "string \<Rightarrow> bool" where
  "is_addr a \<longleftrightarrow> length a = 42 \<and> starts_with ''0x'' (lower a) \<and> all_hex (drop 2 a)"

definition addr_bytes :: "string \<Rightarrow> bytes" where
  "addr_bytes a = (case fromhex (drop 2 a) of None \<Rightarrow> [] | Some b \<Rightarrow> b)"

lemma pow_256_32: "(256 :: nat) ^ 32 = 2 ^ 256"
  by simp

lemma from_be_word: "from_be (take 32 bs) < 2 ^ 256"
proof -
  have "from_be (take 32 bs) < 256 ^ length (take 32 bs)" by (rule from_be_bound)
  also have "(256 :: nat) ^ length (take 32 bs) \<le> 256 ^ 32" by (rule power_increasing) simp_all
  finally show ?thesis by (simp add: pow_256_32)
qed

lemma enc_uint_ok: "uint256 n \<Longrightarrow> enc_uint n = Inr (to_be 32 (nat n))"
  unfolding uint256_def enc_uint_def int_to_bytes_def pow_256_32
  by (auto simp: nat_less_iff not_le[symmetric] simp del: numeral_pow)

lemma uint256_nat: "uint256 n \<Longrightarrow> nat n < 256 ^ 32"
  unfolding uint256_def pow_256_32 by (simp add: nat_less_iff del: numeral_pow)

lemma from_be_uint: "uint256 n \<Longrightarrow> from_be (to_be 32 (nat n)) = nat n"
  by (rule from_be_to_be) (rule uint256_nat)

interpretation uint_word: abi_word enc_uint int "\<lambda>n. n" uint256
proof
  fix n assume "uint256 n"
  then show "\<exists>w. enc_uint n = Inr w \<and> length w = 32 \<and> int (from_be w) = n"
    by (simp add: enc_uint_ok from_be_uint) (simp add: uint256_def)
qed

lemma uint_word_of: "uint256 n \<Longrightarrow> uint_word.word_of n = to_be 32 (nat n)"
  by (simp add: uint_word.word_of_def enc_uint_ok)

definition twos :: "int \<Rightarrow> int" where
  "twos n = (if 0 \<le> n then n else 2 ^ 256 + n)"

lemma twos_uint256: "int256 n \<Longrightarrow> uint256 (twos n)"
  by (simp add: int256_def uint256_def twos_def)

lemma enc_int_ok:
  assumes "int256 n"
  shows "enc_int n = Inr (to_be 32 (nat (twos n)))"
proof -
  have "enc_int n = int_to_bytes 32 (twos n)" by (simp add: enc_int_def twos_def)
  also have "\<dots> = enc_uint (twos n)"
    using twos_uint256[OF assms] by (simp add: enc_uint_def uint256_def)
  also have "\<dots> = Inr (to_be 32 (nat (twos n)))"
    by (rule enc_uint_ok) (rule twos_uint256[OF assms])
  finally show ?thesis .
qed

lemma to_signed_twos: "int256 n \<Longrightarrow> to_signed (nat (twos n)) = n"
  by (simp add: to_signed_def int256_def twos_def nat_le_iff le_nat_iff)

interpretation sint_word: abi_word enc_int to_signed "\<lambda>n. n" int256
proof
  fix n assume n: "int256 n"
  have "from_be (to_be 32 (nat (twos n))) = nat (twos n)"
    by (rule from_be_uint) (rule twos_uint256[OF n])
  with n show "\<exists>w. enc_int n = Inr w \<and> length w = 32 \<and> to_signed (from_be w) = n"
    by (simp add: enc_int_ok to_signed_twos)
qed

interpretation bool_word: abi_word enc_bool "\<lambda>w. w = 1" "\<lambda>v. v" "\<lambda>v. True"
proof
  fix v :: bool
  have u: "uint256 0" "uint256 1" by (simp_all add: uint256_def)
  then have "from_be (to_be 32 1) = 1" "from_be (to_be 32 0) = 0"
    using from_be_uint[OF u(1)] from_be_uint[OF u(2)] by simp_all
  with u show "\<exists>w. enc_bool v = Inr w \<and> length w = 32 \<and> (from_be w = 1) = v"
    by (cases v) (simp_all add: enc_bool_def enc_uint_ok)
qed

lemma is_addr_bytes:
  assumes "is_addr a"
  shows "length (addr_bytes a) = 20" and "lower a = ''0x'' @ hex_of (addr_bytes a)"
    and "fromhex (drop 2 a) = Some (addr_bytes a)"
proof -
  have len: "length (drop 2 a) = 40" and hex: "all_hex (drop 2 a)" and pre: "starts_with ''0x'' (lower a)"
    using assms by (simp_all add: is_addr_def)
  have "even (length (drop 2 a))" unfolding len by simp
  from fromhex_all_hex[OF hex this] len obtain bs where bs: "fromhex (drop 2 a) = Some bs"
      "40 = 2 * length bs" "lower (drop 2 a) = hex_of bs" by metis
  then show "length (addr_bytes a) = 20" "fromhex (drop 2 a) = Some (addr_bytes a)"
    by (simp_all add: addr_bytes_def)
  have "lower a = take 2 (lower a) @ drop 2 (lower a)" by simp
  also have "take 2 (lower a) = ''0x''" using pre by (simp add: starts_with_def numeral_2_eq_2)
  also have "drop 2 (lower a) = hex_of bs" using bs(3) by (simp add: lower_def drop_map)
  finally show "lower a = ''0x'' @ hex_of (addr_bytes a)" using bs(1) by (simp add: addr_bytes_def)
qed

lemma enc_address_ok:
  assumes "is_addr a"
  shows "enc_address a = Inr (replicate 12 0 @ addr_bytes a)"
proof -
  have "strip_0x_lower (lower a) = hex_of (addr_bytes a)"
    by (simp add: strip_0x_lower_def is_addr_bytes(2)[OF assms] starts_with_def)
  then show ?thesis
    by (simp add: enc_address_def rjust_id is_addr_bytes(1)[OF assms] bytes_simps zpad32_def rjust_def)
qed

interpretation addr_word: abi_word enc_address "to_be 20" addr_bytes is_addr
proof
  fix a assume a: "is_addr a"
  then have "to_be 20 (from_be (addr_bytes a)) = addr_bytes a"
    by (intro to_be_from_be is_addr_bytes)
  with a show "\<exists>w. enc_address a = Inr w \<and> length w = 32 \<and> to_be 20 (from_be w) = addr_bytes a"
    by (intro exI[of _ "replicate 12 0 @ addr_bytes a"])
       (simp only: enc_address_ok from_be_replicate0, simp add: is_addr_bytes)
qed

lemma addr_word_of: "is_addr a \<Longrightarrow> addr_word.word_of a = replicate 12 0 @ addr_bytes a"
  by (simp add: addr_word.word_of_def enc_address_ok)

lemma addr_bytes_inj: "is_addr a \<Longrightarrow> is_addr b \<Longrightarrow> addr_bytes a = addr_bytes b \<longleftrightarrow> lower a = lower b"
  by (metis is_addr_bytes(2) append_same_eq hex_of_inj same_append_eq)

lemma is_addr_hex_of: "length bs = 20 \<Longrightarrow> is_addr (''0x'' @ hex_of bs)"
  by (simp add: is_addr_def starts_with_def lower_char_def)

lemma addr_bytes_hex_of: "addr_bytes (''0x'' @ hex_of bs) = bs"
  by (simp add: addr_bytes_def bytes_simps)

section \<open>Reading words back\<close>

lemma word_at_off_append: "length pre = off \<Longrightarrow> length w = 32 \<Longrightarrow> word_at_off (pre @ w @ post) off = from_be w"
  by (simp add: word_at_off_def)

text \<open>The i-th word of a run of 32-byte words, whatever precedes and follows the run.\<close>

lemma word_at_concat:
  assumes "\<forall>w \<in> set ws. length w = 32" and "i < length ws" and "off = length pre + 32 * i"
  shows "word_at_off (pre @ concat ws @ post) off = from_be (ws ! i)"
  using assms
proof (induction ws arbitrary: i pre off)
  case Nil
  then show ?case by simp
next
  case (Cons w ws)
  show ?case
  proof (cases i)
    case 0
    with Cons.prems show ?thesis using word_at_off_append[of pre off w "concat ws @ post"] by simp
  next
    case (Suc j)
    with Cons.prems show ?thesis using Cons.IH[of j off "pre @ w"] by simp
  qed
qed

lemma decode_words_concat:
  assumes "\<forall>x \<in> set xs. int256 x" and "length pre = p"
  shows "decode_words (pre @ concat (map sint_word.word_of xs) @ post) p (length xs) = xs"
  using assms
proof (induction xs arbitrary: pre p)
  case Nil
  then show ?case by simp
next
  case (Cons x xs)
  let ?w = "sint_word.word_of x"
  have x: "int256 x" using Cons.prems by simp
  have "decode_words ((pre @ ?w) @ concat (map sint_word.word_of xs) @ post) (p + 32) (length xs) = xs"
    using Cons.prems sint_word.length_word_of[OF x] by (intro Cons.IH) simp_all
  moreover have "to_signed (word_at_off (pre @ ?w @ concat (map sint_word.word_of xs) @ post) p) = x"
    using sint_word.word_after[OF x, of pre] Cons.prems(2) by simp
  ultimately show ?case by simp
qed

lemma decode_words_length [simp]: "length (decode_words data p n) = n"
  by (induction n arbitrary: p) auto

lemma length_uint_word: "uint256 n \<Longrightarrow> length (uint_word.word_of n) = 32"
  by (rule uint_word.length_word_of)

section \<open>Properties\<close>

text \<open>The decoder of an \<open>int256[]\<close> return value inverts the ABI encoding built from this
  module's own encoders: an offset word of 32, the element count, then one word per signed
  element, whatever bytes follow.\<close>

theorem decode_int256_array_roundtrip:
  assumes "\<forall>x \<in> set xs. int256 x" and "uint256 (int (length xs))"
  shows "\<exists>h n ws. enc_uint 32 = Inr h \<and> enc_uint (int (length xs)) = Inr n \<and> mapr enc_int xs = Inr ws \<and>
           decode_int256_array (h @ n @ concat ws @ post) = xs"
proof -
  let ?h = "uint_word.word_of 32" and ?n = "uint_word.word_of (int (length xs))"
    and ?ws = "concat (map sint_word.word_of xs)"
  have u32: "uint256 32" by (simp add: uint256_def)
  have h: "from_be ?h = 32" "length ?h = 32" and n: "from_be ?n = length xs" "length ?n = 32"
    using uint_word.dec_word_of[OF u32] uint_word.dec_word_of[OF assms(2)]
    by (simp_all add: length_uint_word u32 assms(2))
  let ?d = "?h @ ?n @ ?ws @ post"
  have "word_at_off ?d 32 = length xs"
    using word_at_off_append[of ?h 32 ?n "?ws @ post"] h n by simp
  moreover have "decode_words ?d 64 (length xs) = xs"
    using decode_words_concat[OF assms(1), of "?h @ ?n" 64 post] h n by simp
  ultimately have "decode_int256_array ?d = xs"
    using h n by (simp add: decode_int256_array_def Let_def)
  then show ?thesis
    using uint_word.enc_word_of[OF u32] uint_word.enc_word_of[OF assms(2)] sint_word.mapr_enc[OF assms(1)]
    by blast
qed

theorem decode_int256_array_roundtrip_witness:
  "\<exists>h n ws. enc_uint 32 = Inr h \<and> enc_uint (int (length [5, - 7 :: int])) = Inr n \<and> mapr enc_int [5, - 7] = Inr ws \<and>
     decode_int256_array (h @ n @ concat ws @ [1, 2]) = [5, - 7]"
  by (rule decode_int256_array_roundtrip) (simp_all add: int256_def uint256_def)

text \<open>The decoder trusts the element count it reads: once the offset is inside the data, it
  returns exactly as many elements as the count word says, however few bytes follow, so a
  64-byte answer can ask for any 256-bit number of elements.\<close>

theorem decode_int256_array_count_unchecked:
  assumes "32 \<le> length data" and "from_be (take 32 data) + 32 \<le> length data"
  shows "length (decode_int256_array data) = word_at_off data (from_be (take 32 data))"
  using assms by (simp add: decode_int256_array_def Let_def)

theorem decode_int256_array_count_unchecked_witness:
  "length (decode_int256_array (to_be 32 32 @ to_be 32 (2 ^ 20))) = 2 ^ 20"
proof -
  let ?d = "to_be 32 32 @ to_be 32 (2 ^ 20) :: bytes"
  have a: "from_be (take 32 ?d) = 32" by (simp add: from_be_to_be_mod)
  have "word_at_off ?d 32 = 2 ^ 20"
    using word_at_off_append[of "to_be 32 32" 32 "to_be 32 (2 ^ 20)" "[]"]
    by (simp add: from_be_to_be_mod)
  with decode_int256_array_count_unchecked[of ?d] a show ?thesis by simp
qed

end
