(* ===== verification/Abi_Utils.thy ===== *)
theory Abi_Utils
  imports Eth_Abi
begin

text \<open>
  \<open>abi_utils.py\<close> (selectors and topics as text, decoding of EVM revert payloads, extraction of
  a payload from a JSON-RPC error) and \<open>executor_events.py\<close> (the \<open>ArbExecuted\<close> event the
  realised profit is read from). A decoded message is a list of code points, because
  \<open>bytes.decode("utf-8", errors="replace")\<close> can produce any of them.
\<close>

section \<open>UTF-8 with replacement\<close>

text \<open>
  The continuation bytes after a lead byte: the first must lie between \<open>lo\<close> and \<open>hi\<close>, the others
  between \<open>0x80\<close> and \<open>0xBF\<close>. On the first bad or missing byte the bytes read so far are one
  replacement character.
\<close>

fun u8_conts :: "nat \<Rightarrow> nat \<Rightarrow> nat \<Rightarrow> nat \<Rightarrow> nat \<Rightarrow> nat list \<Rightarrow> nat \<times> nat" where
  "u8_conts 0 lo hi acc k bs = (acc, k)"
| "u8_conts (Suc n) lo hi acc k [] = (0xFFFD, k)"
| "u8_conts (Suc n) lo hi acc k (c # cs) =
     (if lo \<le> c \<and> c \<le> hi then u8_conts n 0x80 0xBF (acc * 64 + (c - 128)) (Suc k) cs else (0xFFFD, k))"

definition u8_step :: "nat \<Rightarrow> nat list \<Rightarrow> nat \<times> nat" where
  "u8_step b bs =
     (if b < 0x80 then (b, 0)
      else if 0xC2 \<le> b \<and> b \<le> 0xDF then u8_conts 1 0x80 0xBF (b - 0xC0) 0 bs
      else if 0xE0 \<le> b \<and> b \<le> 0xEF then
        u8_conts 2 (if b = 0xE0 then 0xA0 else 0x80) (if b = 0xED then 0x9F else 0xBF) (b - 0xE0) 0 bs
      else if 0xF0 \<le> b \<and> b \<le> 0xF4 then
        u8_conts 3 (if b = 0xF0 then 0x90 else 0x80) (if b = 0xF4 then 0x8F else 0xBF) (b - 0xF0) 0 bs
      else (0xFFFD, 0))"

function u8_decode :: "nat list \<Rightarrow> nat list" where
  "u8_decode [] = []"
| "u8_decode (b # bs) = fst (u8_step b bs) # u8_decode (drop (snd (u8_step b bs)) bs)"
  by pat_completeness auto
termination by (relation "measure length") auto

definition utf8_replace :: "bytes \<Rightarrow> nat list" where
  "utf8_replace bs = u8_decode (map unat bs)"

definition code_points :: "string \<Rightarrow> nat list" where
  "code_points s = map of_char s"

section \<open>Revert data\<close>

definition selector_hex :: "(bytes \<Rightarrow> bytes) \<Rightarrow> string \<Rightarrow> string" where
  "selector_hex kec sig = ''0x'' @ hex_of (selector kec sig)"

definition topic0 :: "(bytes \<Rightarrow> bytes) \<Rightarrow> string \<Rightarrow> string" where
  "topic0 kec sig = ''0x'' @ hex_of (kec (utf8 sig))"

definition abi_strip_0x :: "string \<Rightarrow> string" where
  "abi_strip_0x h = (if starts_with ''0x'' h then drop 2 h else h)"

definition read_word :: "bytes \<Rightarrow> nat \<Rightarrow> nat" where
  "read_word data i = from_be (take 32 (drop (i * 32) data))"

definition decode_string :: "bytes \<Rightarrow> nat \<Rightarrow> nat list" where
  "decode_string data off =
     (if length data < off + 32 then []
      else (let strlen = from_be (take 32 (drop off data)); start = off + 32;
                end = min (start + strlen) (length data)
            in utf8_replace (take (end - start) (drop start data))))"

record revert_decoded =
  rd_kind :: string
  rd_message :: "nat list"
  rd_selector :: string

definition ERROR_STRING_SELECTOR :: bytes where
  "ERROR_STRING_SELECTOR = [0x08, 0xc3, 0x79, 0xa0]"

definition PANIC_SELECTOR :: bytes where
  "PANIC_SELECTOR = [0x4e, 0x48, 0x7b, 0x71]"

definition decode_revert_data :: "pyval \<Rightarrow> revert_decoded" where
  "decode_revert_data revert_data_hex =
     (let unknown = \<lparr>rd_kind = ''Unknown'', rd_message = [], rd_selector = []\<rparr> in
      case revert_data_hex of
        PStr s \<Rightarrow>
          (if s = [] then unknown
           else case fromhex (abi_strip_0x s) of
             None \<Rightarrow> unknown
           | Some b \<Rightarrow>
               if length b < 4 then unknown
               else let sel = take 4 b; payload = drop 4 b; hex_sel = ''0x'' @ hex_of sel in
                 if sel = ERROR_STRING_SELECTOR then
                   (if length payload < 64 then \<lparr>rd_kind = ''Error'', rd_message = [], rd_selector = []\<rparr>
                    else \<lparr>rd_kind = ''Error'', rd_message = decode_string payload (read_word payload 0),
                          rd_selector = hex_sel\<rparr>)
                 else if sel = PANIC_SELECTOR then
                   (if length payload < 32 then \<lparr>rd_kind = ''Panic'', rd_message = [], rd_selector = []\<rparr>
                    else \<lparr>rd_kind = ''Panic'',
                          rd_message = code_points (''0x'' @ show_hex (from_be (take 32 payload))),
                          rd_selector = hex_sel\<rparr>)
                 else \<lparr>rd_kind = ''Custom'', rd_message = [], rd_selector = hex_sel\<rparr>)
      | _ \<Rightarrow> unknown)"

text \<open>\<open>s[s.find(p):]\<close> where \<open>p in s\<close>.\<close>

fun find_from :: "string \<Rightarrow> string \<Rightarrow> string" where
  "find_from p [] = []"
| "find_from p (c # cs) = (if starts_with p (c # cs) then c # cs else find_from p cs)"

definition hex_tail :: "string \<Rightarrow> string option" where
  "hex_tail s = (if contains ''0x'' s then Some (find_from ''0x'' s) else None)"

definition extract_revert_data :: "pyval \<Rightarrow> string option" where
  "extract_revert_data err =
     (if \<not> truthy err then None
      else case err of
        PDict d \<Rightarrow> (case dget d ''data'' of
            PStr s \<Rightarrow> (if starts_with ''0x'' s then Some s else hex_tail s)
          | PDict inner \<Rightarrow> (case dget inner ''data'' of
                PStr s \<Rightarrow> (if starts_with ''0x'' s then Some s else None)
              | _ \<Rightarrow> None)
          | _ \<Rightarrow> None)
      | PStr s \<Rightarrow> hex_tail s
      | _ \<Rightarrow> None)"

section \<open>The executor's event\<close>

definition ARB_EXECUTED_SIG :: string where
  "ARB_EXECUTED_SIG = ''ArbExecuted(bytes32,address,uint256,uint256,uint8)''"

definition addr_from_topic :: "string \<Rightarrow> string" where
  "addr_from_topic t =
     (let h = abi_strip_0x t; h = (if length h \<noteq> 64 then rjust 64 (CHR ''0'') h else h)
      in ''0x'' @ drop (length h - 40) h)"

record arb_executed =
  ae_route_id :: string
  ae_token :: string
  ae_amount_borrowed :: nat
  ae_profit :: nat
  ae_provider :: nat

text \<open>Every exception of the body is one the code catches, so each of them is \<open>None\<close>.\<close>

definition decode_arb_executed :: "(bytes \<Rightarrow> bytes) \<Rightarrow> pyval \<Rightarrow> arb_executed option" where
  "decode_arb_executed kec log =
     (case log of PDict d \<Rightarrow>
       (case dget d ''topics'' of PList topics \<Rightarrow>
         (if length topics < 3 then None
          else if lower (py_str (topics ! 0)) \<noteq> lower (topic0 kec ARB_EXECUTED_SIG) then None
          else let rid = ''0x'' @ rjust 64 (CHR ''0'') (abi_strip_0x (py_str (topics ! 1)));
                   token = addr_from_topic (py_str (topics ! 2));
                   data_hex = py_str (por (dget d ''data'') (PStr ''0x'')) in
            case fromhex (abi_strip_0x data_hex) of
              None \<Rightarrow> None
            | Some data \<Rightarrow>
                if length data < 32 * 3 then None
                else Some \<lparr>ae_route_id = rid, ae_token = token,
                           ae_amount_borrowed = from_be (take 32 data),
                           ae_profit = from_be (take 32 (drop 32 data)),
                           ae_provider = from_be (take 32 (drop 64 data)) mod 256\<rparr>)
        | _ \<Rightarrow> None)
      | _ \<Rightarrow> None)"

section \<open>Properties\<close>

lemma u8_conts_1:
  "u8_conts 1 lo hi acc k (c # cs) = (if lo \<le> c \<and> c \<le> hi then (acc * 64 + (c - 128), Suc k) else (0xFFFD, k))"
  by simp

lemma u8_step_two:
  fixes n :: nat
  assumes "128 \<le> n" and "n < 256"
  shows "u8_step (192 + n div 64) ((128 + n mod 64) # rest) = (n, 1)"
proof -
  obtain q r where q: "n div 64 = q" and r: "n mod 64 = r" by blast
  have n: "n = q * 64 + r" and m: "r < 64" using q r by auto
  have "q = 2 \<or> q = 3" using n m assms by linarith
  then show ?thesis using m unfolding q r n u8_step_def u8_conts_1 by auto
qed

lemma utf8_char_bytes:
  "map unat (utf8_char c) = (let n = of_char c in if n < 128 then [n] else [192 + n div 64, 128 + n mod 64])"
proof -
  obtain n :: nat where n: "of_char c = n" and lt: "n < 256" using of_char_lt[of c] by blast
  have "unat (of_nat (192 + n div 64) :: byte) = 192 + n div 64"
    using lt by (subst unat_of_nat_byte) simp
  moreover have "unat (of_nat (128 + n mod 64) :: byte) = 128 + n mod 64"
    by (subst unat_of_nat_byte) simp
  moreover have "n < 128 \<Longrightarrow> unat (of_nat n :: byte) = n"
    by (subst unat_of_nat_byte) simp
  ultimately show ?thesis by (simp add: utf8_char_def n Let_def del: of_nat_add)
qed

lemma u8_decode_latin1: "u8_decode (map unat (utf8_char c) @ rest) = of_char c # u8_decode rest"
proof -
  obtain n :: nat where n: "of_char c = n" and lt: "n < 256" using of_char_lt[of c] by blast
  show ?thesis
  proof (cases "n < 128")
    case True
    then show ?thesis by (simp add: utf8_char_bytes n u8_step_def)
  next
    case False
    with lt show ?thesis by (simp add: utf8_char_bytes n u8_step_two)
  qed
qed

lemma utf8_replace_utf8: "utf8_replace (utf8 s) = code_points s"
  by (induction s) (simp_all add: utf8_replace_def utf8_def code_points_def u8_decode_latin1)

lemma strip_0x_hex [simp]: "abi_strip_0x (''0x'' @ hex_of bs) = hex_of bs"
  by (simp add: abi_strip_0x_def starts_with_def)

lemma payload_parts:
  assumes "length a = 32" and "length b = 32"
  shows "take 32 (a @ b @ c) = a" and "take 32 (drop 32 (a @ b @ c)) = b"
  using assms by simp_all

text \<open>Reading a reverted call inverts the ABI encoding of \<open>Error(string)\<close>: for every Latin-1
  message the payload selector, offset 32, byte length, padded UTF-8 bytes decodes to kind Error
  with exactly the message's code points.\<close>

theorem decode_revert_error_roundtrip:
  assumes "enc_bytes_dyn (utf8 msg) = Inr tail"
  shows "decode_revert_data (PStr (''0x'' @ hex_of (ERROR_STRING_SELECTOR @ to_be 32 32 @ tail))) =
    \<lparr>rd_kind = ''Error'', rd_message = code_points msg, rd_selector = ''0x08c379a0''\<rparr>"
proof -
  let ?b = "utf8 msg"
  from assms obtain lt: "length ?b < 256 ^ 32" and tail: "tail = to_be 32 (length ?b) @ pad32 ?b"
    by (auto simp: enc_bytes_dyn_def enc_uint_def int_to_bytes_def rbind_eq_Inr split: if_splits)
  have pre: "take (length ?b) (pad32 ?b) = ?b" by (simp add: pad32_def)
  have pl: "length ?b \<le> length (pad32 ?b)" by (simp add: pad32_def)
  have off: "read_word (to_be 32 32 @ tail) 0 = 32"
    unfolding read_word_def by (simp add: from_be_to_be)
  have len: "from_be (to_be 32 (length ?b)) = length ?b" using lt by (rule from_be_to_be)
  have str: "decode_string (to_be 32 32 @ tail) 32 = utf8_replace ?b"
    using pl by (simp add: decode_string_def tail payload_parts len pre)
  have sel: "take 4 (ERROR_STRING_SELECTOR @ x) = ERROR_STRING_SELECTOR"
    "drop 4 (ERROR_STRING_SELECTOR @ x) = x" "length ERROR_STRING_SELECTOR = 4" for x
    by (simp_all add: ERROR_STRING_SELECTOR_def)
  have hex: "''0x'' @ hex_of ERROR_STRING_SELECTOR = ''0x08c379a0''"
    by (simp add: ERROR_STRING_SELECTOR_def hex_of_byte_eq digit_char_def char_of_def bit_0)
  show ?thesis
    unfolding decode_revert_data_def Let_def pyval.case strip_0x_hex fromhex_hex_of option.case sel hex off str
    by (simp add: sel(3) utf8_replace_utf8 tail)
qed

theorem decode_revert_error_roundtrip_witness:
  "decode_revert_data (PStr (''0x'' @ hex_of (ERROR_STRING_SELECTOR @ to_be 32 32 @
      (to_be 32 2 @ pad32 (utf8 ''OK''))))) =
    \<lparr>rd_kind = ''Error'', rd_message = [79, 75], rd_selector = ''0x08c379a0''\<rparr>"
proof -
  have "enc_bytes_dyn (utf8 ''OK'') = Inr (to_be 32 2 @ pad32 (utf8 ''OK''))"
    by (simp add: enc_bytes_dyn_def utf8_def utf8_char_def enc_uint_def int_to_bytes_def)
  from decode_revert_error_roundtrip[OF this] show ?thesis by (simp add: code_points_def)
qed

lemma find_from_starts: "contains p s \<Longrightarrow> p \<noteq> [] \<Longrightarrow> starts_with p (find_from p s)"
  by (induction p s rule: find_from.induct) auto

text \<open>Whatever JSON-RPC error object it is given, the extraction yields nothing or a text that
  begins with the hexadecimal prefix, and it yields the data field itself when that field already
  is such a text.\<close>

theorem extract_revert_data_prefixed:
  "(case extract_revert_data err of None \<Rightarrow> True | Some s \<Rightarrow> starts_with ''0x'' s) \<and>
   extract_revert_data (PDict [(''code'', c), (''message'', m), (''data'', PStr (''0x'' @ h))]) = Some (''0x'' @ h)"
proof
  have "contains ''0x'' s \<Longrightarrow> starts_with ''0x'' (find_from ''0x'' s)" for s
    by (rule find_from_starts) simp_all
  then show "case extract_revert_data err of None \<Rightarrow> True | Some s \<Rightarrow> starts_with ''0x'' s"
    by (auto simp: extract_revert_data_def hex_tail_def split: pyval.splits option.splits if_splits)
qed (simp add: extract_revert_data_def dget_def dget_or_def starts_with_def)

text \<open>The profit booked from a receipt is what the executor emitted: a log with the event's
  topic, the route id, the padded token and three data words decodes to exactly these values, the
  provider reduced to its low byte.\<close>

theorem decode_arb_executed_roundtrip:
  assumes "length rid = 32" and "length token = 20" and "amount < 2 ^ 256" and "profit < 2 ^ 256"
    and "provider < 2 ^ 256"
  shows "decode_arb_executed kec (PDict
      [(''topics'', PList [PStr (topic0 kec ARB_EXECUTED_SIG), PStr (''0x'' @ hex_of rid),
          PStr (''0x'' @ hex_of (replicate 12 0 @ token))]),
       (''data'', PStr (''0x'' @ hex_of (to_be 32 amount @ to_be 32 profit @ to_be 32 provider)))]) =
    Some \<lparr>ae_route_id = ''0x'' @ hex_of rid, ae_token = ''0x'' @ hex_of token,
      ae_amount_borrowed = amount, ae_profit = profit, ae_provider = provider mod 256\<rparr>"
proof -
  have addr: "addr_from_topic (''0x'' @ hex_of (replicate 12 0 @ token)) = ''0x'' @ hex_of token"
    unfolding addr_from_topic_def Let_def strip_0x_hex using assms(2) by simp
  have rid: "rjust 64 (CHR ''0'') (hex_of rid) = hex_of rid" using assms(1) by (simp add: rjust_id)
  have w: "from_be (to_be 32 n) = n" if "n < 2 ^ 256" for n
    using that by (intro from_be_to_be) (simp add: pow_256_32)
  have por: "por (PStr (''0x'' @ s)) (PStr ''0x'') = PStr (''0x'' @ s)" for s
    by (simp add: por_def)
  show ?thesis
    using assms(3-5)
    by (simp add: decode_arb_executed_def dget_def dget_or_def por rid addr fromhex_hex_of w del: append_Cons hex_of_append)
qed

theorem decode_arb_executed_roundtrip_witness:
  "decode_arb_executed keccak256_pure (PDict
      [(''topics'', PList [PStr (topic0 keccak256_pure ARB_EXECUTED_SIG), PStr (''0x'' @ hex_of (replicate 32 7)),
          PStr (''0x'' @ hex_of (replicate 12 0 @ replicate 20 1))]),
       (''data'', PStr (''0x'' @ hex_of (to_be 32 1000 @ to_be 32 9 @ to_be 32 258)))]) =
    Some \<lparr>ae_route_id = ''0x'' @ hex_of (replicate 32 7), ae_token = ''0x'' @ hex_of (replicate 20 1),
      ae_amount_borrowed = 1000, ae_profit = 9, ae_provider = 2\<rparr>"
  using decode_arb_executed_roundtrip[of "replicate 32 7" "replicate 20 1" 1000 9 258 keccak256_pure]
  by (simp del: append_Cons)

end
