(* ===== verification/Flashloan.thy ===== *)
theory Flashloan
  imports Eth_Abi
begin

text \<open>
  \<open>flashloan_providers.py\<close>: the registry of providers the executor can run, label
  normalisation, and the on-chain observation of the flash-loan premium. \<open>rpc.eth_call\<close> is a
  parameter: a function from address, calldata and block to a reply, or the exception it raises
  (with its class name, which the code reports).
\<close>

section \<open>Remote calls\<close>

record rpc_result =
  rr_ok :: bool
  rr_result :: pyval
  rr_error :: pyval

datatype rpc_reply = Reply rpc_result | Raised pyerr string

type_synonym eth_call = "string \<Rightarrow> string \<Rightarrow> string \<Rightarrow> rpc_reply"

text \<open>\<open>except (AttributeError, OSError, RuntimeError, TypeError, ValueError)\<close>\<close>

definition rpc_caught :: "pyerr \<Rightarrow> bool" where
  "rpc_caught e = (e \<in> {AttributeError, OSError, RuntimeError, TypeError, ValueError})"

section \<open>Provider labels\<close>

definition EXECUTABLE_FLASHLOAN_PROVIDERS :: "string list" where
  "EXECUTABLE_FLASHLOAN_PROVIDERS = [''aave'', ''balancer'']"

definition normalize_flashloan_provider :: "pyval \<Rightarrow> string" where
  "normalize_flashloan_provider provider = lower (strip (str_or_empty provider))"

definition is_executable_flashloan_provider :: "pyval \<Rightarrow> bool" where
  "is_executable_flashloan_provider provider =
     (normalize_flashloan_provider provider \<in> set EXECUTABLE_FLASHLOAN_PROVIDERS)"

text \<open>The loop carries the result list and the set of labels already seen.\<close>

fun filter_providers_loop :: "pyval list \<Rightarrow> string list \<Rightarrow> string list \<Rightarrow> string list" where
  "filter_providers_loop [] result seen = result"
| "filter_providers_loop (p # ps) result seen =
     (let n = normalize_flashloan_provider p in
      if n \<in> set EXECUTABLE_FLASHLOAN_PROVIDERS \<and> n \<notin> set seen
      then filter_providers_loop ps (result @ [n]) (n # seen)
      else filter_providers_loop ps result seen)"

definition filter_executable_flashloan_providers :: "pyval list \<Rightarrow> string list" where
  "filter_executable_flashloan_providers ps = filter_providers_loop ps [] []"

section \<open>Decoding a reply\<close>

definition strip_0x :: "string \<Rightarrow> string" where
  "strip_0x h = (if starts_with ''0x'' h then drop 2 h else h)"

definition decode_uint256_result :: "rpc_result \<Rightarrow> nat option" where
  "decode_uint256_result r = (case rr_result r of
     PStr raw \<Rightarrow> (case fromhex (strip_0x raw) of None \<Rightarrow> None
       | Some payload \<Rightarrow> if length payload < 32 then None else Some (from_be (take 32 payload)))
   | _ \<Rightarrow> None)"

text \<open>\<open>f"0x{value & ((1 << 160) - 1):040x}"\<close>\<close>

definition address_of_nat :: "nat \<Rightarrow> string" where
  "address_of_nat v = ''0x'' @ rjust 40 (CHR ''0'') (show_hex (v mod 2 ^ 160))"

definition decode_address_result :: "rpc_result \<Rightarrow> string option" where
  "decode_address_result r = map_option address_of_nat (decode_uint256_result r)"

section \<open>Observing the premium\<close>

definition premium_error :: "string \<Rightarrow> pydict \<Rightarrow> string \<Rightarrow> pydict \<Rightarrow> pydict" where
  "premium_error provider pre reason post =
     [(''ok'', PBool False), (''provider'', PStr provider)] @ pre @ [(''reason'', PStr reason)] @ post"

definition selector_hex_call :: "(bytes \<Rightarrow> bytes) \<Rightarrow> string \<Rightarrow> string" where
  "selector_hex_call kec sig = ''0x'' @ hex_of (selector kec sig)"

definition observe_aave :: "(bytes \<Rightarrow> bytes) \<Rightarrow> eth_call \<Rightarrow> string \<Rightarrow> string \<Rightarrow> pydict res" where
  "observe_aave kec call pool block =
     (if pool = [] then Inr (premium_error ''aave'' [] ''provider_address_missing'' [])
      else let at = [(''provider_address'', PStr pool)] in
      case call pool (selector_hex_call kec ''FLASHLOAN_PREMIUM_TOTAL()'') block of
        Raised e cls \<Rightarrow> (if rpc_caught e
          then Inr (premium_error ''aave'' at ''flashloan_premium_rpc_unavailable'' [(''error'', PStr cls)])
          else Inl e)
      | Reply r \<Rightarrow>
          (if \<not> rr_ok r
           then Inr (premium_error ''aave'' at ''flashloan_premium_rpc_unavailable'' [(''error'', rr_error r)])
           else case decode_uint256_result r of
             None \<Rightarrow> Inr (premium_error ''aave'' at ''flashloan_premium_malformed'' [])
           | Some bps \<Rightarrow> Inr ([(''ok'', PBool True), (''provider'', PStr ''aave'')] @ at @
               [(''fee_bps'', PInt (int bps)), (''source'', PStr ''aave_pool_FLASHLOAN_PREMIUM_TOTAL''),
                (''block'', PStr block)])))"

text \<open>\<open>(scaled + 10**14 - 1) // 10**14\<close>\<close>

definition balancer_fee_bps :: "int \<Rightarrow> int" where
  "balancer_fee_bps scaled = (scaled + 10 ^ 14 - 1) div 10 ^ 14"

definition observe_balancer_fee :: "(bytes \<Rightarrow> bytes) \<Rightarrow> eth_call \<Rightarrow> string \<Rightarrow> string \<Rightarrow> string \<Rightarrow> pydict res" where
  "observe_balancer_fee kec call vault collector block =
     (let at = [(''provider_address'', PStr vault)]; fc = [(''fee_collector'', PStr collector)] in
      case call collector (selector_hex_call kec ''getFlashLoanFeePercentage()'') block of
        Raised e cls \<Rightarrow> (if rpc_caught e
          then Inr (premium_error ''balancer'' (at @ fc) ''flashloan_premium_rpc_unavailable'' [(''error'', PStr cls)])
          else Inl e)
      | Reply r \<Rightarrow>
          (if \<not> rr_ok r
           then Inr (premium_error ''balancer'' (at @ fc) ''flashloan_premium_rpc_unavailable'' [(''error'', rr_error r)])
           else case decode_uint256_result r of
             None \<Rightarrow> Inr (premium_error ''balancer'' (at @ fc) ''flashloan_premium_malformed'' [])
           | Some scaled \<Rightarrow> Inr ([(''ok'', PBool True), (''provider'', PStr ''balancer'')] @ at @ fc @
               [(''fee_percentage_scaled'', PStr (show_int (int scaled))),
                (''fee_bps'', PInt (balancer_fee_bps (int scaled))),
                (''source'', PStr ''balancer_protocol_fees_collector_getFlashLoanFeePercentage''),
                (''block'', PStr block)])))"

definition zero_address :: "string" where
  "zero_address = ''0x'' @ replicate 40 (CHR ''0'')"

definition observe_balancer :: "(bytes \<Rightarrow> bytes) \<Rightarrow> eth_call \<Rightarrow> string \<Rightarrow> string \<Rightarrow> pydict res" where
  "observe_balancer kec call vault block =
     (if vault = [] then Inr (premium_error ''balancer'' [] ''provider_address_missing'' [])
      else let at = [(''provider_address'', PStr vault)] in
      case call vault (selector_hex_call kec ''getProtocolFeesCollector()'') block of
        Raised e cls \<Rightarrow> (if rpc_caught e
          then Inr (premium_error ''balancer'' at ''flashloan_premium_rpc_unavailable'' [(''error'', PStr cls)])
          else Inl e)
      | Reply r \<Rightarrow>
          (if \<not> rr_ok r
           then Inr (premium_error ''balancer'' at ''flashloan_premium_rpc_unavailable'' [(''error'', rr_error r)])
           else case decode_address_result r of
             None \<Rightarrow> Inr (premium_error ''balancer'' at ''flashloan_fee_collector_unavailable'' [])
           | Some collector \<Rightarrow>
               if collector = [] \<or> collector = zero_address
               then Inr (premium_error ''balancer'' at ''flashloan_fee_collector_unavailable'' [])
               else observe_balancer_fee kec call vault collector block))"

text \<open>
  \<open>observe_flashloan_fee_bps\<close>; the two configured addresses (\<open>getattr(chain, ..., "")\<close>) are
  arguments.
\<close>

definition observe_flashloan_fee_bps ::
    "(bytes \<Rightarrow> bytes) \<Rightarrow> eth_call \<Rightarrow> pyval \<Rightarrow> pyval \<Rightarrow> pyval \<Rightarrow> string \<Rightarrow> pydict res" where
  "observe_flashloan_fee_bps kec call aave_v3_pool balancer_vault provider block =
     (let normalized = normalize_flashloan_provider provider in
      if normalized = ''aave'' then observe_aave kec call (str_or_empty aave_v3_pool) block
      else if normalized = ''balancer'' then observe_balancer kec call (str_or_empty balancer_vault) block
      else Inr (premium_error normalized [] (''unsupported_flashloan_provider:'' @
             (if normalized = [] then ''missing'' else normalized)) []))"

section \<open>Properties\<close>

definition executable_labels :: "pyval list \<Rightarrow> string list" where
  "executable_labels ps = filter (\<lambda>n. n \<in> set EXECUTABLE_FLASHLOAN_PROVIDERS) (map normalize_flashloan_provider ps)"

lemma filter_loop_spec:
  "set seen = set result \<Longrightarrow> distinct result \<Longrightarrow>
   filter_providers_loop ps result seen = result @ rev (remdups (rev (filter (\<lambda>n. n \<notin> set result) (executable_labels ps))))"
proof (induction ps result seen rule: filter_providers_loop.induct)
  case (1 result seen)
  then show ?case by (simp add: executable_labels_def)
next
  case (2 p ps result seen)
  let ?n = "normalize_flashloan_provider p"
  have dup: "rev (remdups (rev xs @ [x])) = x # rev (remdups (rev (filter (\<lambda>y. y \<noteq> x) xs)))" for x :: string and xs
  proof (induction xs rule: rev_induct)
    case (snoc y xs)
    then show ?case by (auto simp: remdups_append)
  qed simp
  show ?case
  proof (cases "?n \<in> set EXECUTABLE_FLASHLOAN_PROVIDERS \<and> ?n \<notin> set seen")
    case True
    then have IH: "filter_providers_loop ps (result @ [?n]) (?n # seen)
        = (result @ [?n]) @ rev (remdups (rev (filter (\<lambda>m. m \<notin> set (result @ [?n])) (executable_labels ps))))"
      using "2.prems" by (intro "2.IH"(1)) auto
    have f: "filter (\<lambda>m. m \<notin> set (result @ [?n])) xs = filter (\<lambda>m. m \<noteq> ?n) (filter (\<lambda>m. m \<notin> set result) xs)" for xs
      by (simp add: conj_commute)
    have "filter (\<lambda>m. m \<notin> set result) (executable_labels (p # ps)) = ?n # filter (\<lambda>m. m \<notin> set result) (executable_labels ps)"
      using True "2.prems"(1) by (simp add: executable_labels_def)
    moreover have "filter_providers_loop (p # ps) result seen = filter_providers_loop ps (result @ [?n]) (?n # seen)"
      using True by (simp add: Let_def)
    ultimately show ?thesis unfolding IH f by (simp add: dup)
  next
    case False
    then have "filter (\<lambda>m. m \<notin> set result) (executable_labels (p # ps)) = filter (\<lambda>m. m \<notin> set result) (executable_labels ps)"
      using "2.prems"(1) by (auto simp: executable_labels_def)
    moreover have "filter_providers_loop (p # ps) result seen = filter_providers_loop ps result seen"
      using False by (auto simp: Let_def)
    ultimately show ?thesis using "2.IH"(2)[OF refl False "2.prems"] by simp
  qed
qed

text \<open>Filtering keeps exactly the executable providers, each once, in the order of first appearance:
  the accumulating loop equals removing later duplicates from the normalised executable labels.\<close>

theorem filter_executable_providers_spec:
  "filter_executable_flashloan_providers ps = rev (remdups (rev (executable_labels ps))) \<and>
   distinct (filter_executable_flashloan_providers ps) \<and>
   set (filter_executable_flashloan_providers ps) = set (map normalize_flashloan_provider ps) \<inter> set EXECUTABLE_FLASHLOAN_PROVIDERS"
proof -
  have "filter_executable_flashloan_providers ps = rev (remdups (rev (executable_labels ps)))"
    using filter_loop_spec[of "[]" "[]" ps] by (simp add: filter_executable_flashloan_providers_def)
  then show ?thesis by (auto simp: executable_labels_def)
qed

text \<open>The Balancer premium is rounded against the borrower: the basis points are the least integer at
  or above the on-chain percentage, so the fee budgeted is never below the fee charged, and at most one
  basis point above it.\<close>

theorem balancer_fee_rounds_up:
  "scaled \<le> balancer_fee_bps scaled * 10 ^ 14 \<and> balancer_fee_bps scaled * 10 ^ 14 < scaled + 10 ^ 14"
proof -
  obtain r where r: "(scaled + 10 ^ 14 - 1) mod 10 ^ 14 = r" by blast
  have "balancer_fee_bps scaled * 10 ^ 14 + r = scaled + 10 ^ 14 - 1"
    unfolding balancer_fee_bps_def r[symmetric] by (rule div_mult_mod_eq)
  moreover have "0 \<le> r" "r < 10 ^ 14"
    using r pos_mod_bound[of "10 ^ 14" "scaled + 10 ^ 14 - 1"] pos_mod_sign[of "10 ^ 14" "scaled + 10 ^ 14 - 1"] by simp_all
  ultimately show ?thesis by simp
qed

lemma zero_address_nonempty [simp]: "zero_address \<noteq> []" "[] \<noteq> zero_address"
  by (simp_all add: zero_address_def)

lemma premium_error_not_ok: "dget (premium_error p pre reason post) ''ok'' = PBool False"
  by (simp add: premium_error_def)

text \<open>A premium is only ever reported for an executable provider and from a chain read: an ok
  observation means the label is aave or balancer, an address was configured, the call to it answered,
  and (for aave) the basis points are the 32-byte word the pool returned.\<close>

theorem premium_observed_from_chain:
  assumes "observe_flashloan_fee_bps kec call pool vault provider block = Inr obs"
    and "dget obs ''ok'' = PBool True"
  shows "normalize_flashloan_provider provider \<in> set EXECUTABLE_FLASHLOAN_PROVIDERS \<and>
    (normalize_flashloan_provider provider = ''aave'' \<longrightarrow> str_or_empty pool \<noteq> [] \<and>
      (\<exists>r bps. call (str_or_empty pool) (selector_hex_call kec ''FLASHLOAN_PREMIUM_TOTAL()'') block = Reply r \<and> rr_ok r \<and>
        decode_uint256_result r = Some bps \<and> dget obs ''fee_bps'' = PInt (int bps))) \<and>
    (normalize_flashloan_provider provider = ''balancer'' \<longrightarrow> str_or_empty vault \<noteq> [] \<and>
      (\<exists>r collector q scaled. call (str_or_empty vault) (selector_hex_call kec ''getProtocolFeesCollector()'') block = Reply r \<and> rr_ok r \<and>
        decode_address_result r = Some collector \<and> collector \<noteq> zero_address \<and>
        call collector (selector_hex_call kec ''getFlashLoanFeePercentage()'') block = Reply q \<and> rr_ok q \<and>
        decode_uint256_result q = Some scaled \<and> dget obs ''fee_bps'' = PInt (balancer_fee_bps (int scaled))))"
proof -
  let ?n = "normalize_flashloan_provider provider"
  consider (aave) "?n = ''aave''" | (balancer) "?n = ''balancer''" | (other) "?n \<noteq> ''aave''" "?n \<noteq> ''balancer''" by blast
  then show ?thesis
  proof cases
    case aave
    with assms have "observe_aave kec call (str_or_empty pool) block = Inr obs" by (simp add: observe_flashloan_fee_bps_def)
    with aave assms(2) show ?thesis
      by (auto simp: observe_aave_def premium_error_not_ok EXECUTABLE_FLASHLOAN_PROVIDERS_def Let_def
          split: if_splits rpc_reply.splits option.splits)
  next
    case balancer
    with assms have "observe_balancer kec call (str_or_empty vault) block = Inr obs" by (simp add: observe_flashloan_fee_bps_def)
    with balancer assms(2) show ?thesis
      by (auto simp: observe_balancer_def observe_balancer_fee_def premium_error_not_ok EXECUTABLE_FLASHLOAN_PROVIDERS_def Let_def
          split: if_splits rpc_reply.splits option.splits)
  next
    case other
    with assms show ?thesis by (auto simp: observe_flashloan_fee_bps_def premium_error_not_ok Let_def)
  qed
qed

lemma decode_uint256_word:
  "n < 2 ^ 256 \<Longrightarrow> decode_uint256_result \<lparr>rr_ok = ok, rr_result = PStr (''0x'' @ hex_of (to_be 32 n)), rr_error = e\<rparr> = Some n"
  using from_be_to_be[of n 32]
  by (simp add: decode_uint256_result_def strip_0x_def starts_with_def fromhex_hex_of)

theorem premium_observed_from_chain_witness:
  "\<exists>obs. observe_flashloan_fee_bps keccak256_pure
      (\<lambda>a d b. Reply \<lparr>rr_ok = True, rr_result = PStr (''0x'' @ hex_of (to_be 32 9)), rr_error = PNone\<rparr>)
      (PStr ''0xpool'') PNone (PStr ''aave'') ''latest'' = Inr obs \<and> dget obs ''fee_bps'' = PInt 9"
proof -
  let ?call = "\<lambda>a d b. Reply \<lparr>rr_ok = True, rr_result = PStr (''0x'' @ hex_of (to_be 32 9)), rr_error = PNone\<rparr>"
  have n: "normalize_flashloan_provider (PStr ''aave'') = ''aave''"
    by (simp add: normalize_flashloan_provider_def strip_def is_space_def lower_char_def)
  obtain obs where o: "observe_flashloan_fee_bps keccak256_pure ?call (PStr ''0xpool'') PNone (PStr ''aave'') ''latest'' = Inr obs"
    and ok: "dget obs ''ok'' = PBool True"
    using decode_uint256_word[of 9 True PNone]
    by (simp add: observe_flashloan_fee_bps_def n observe_aave_def del: to_be.simps)
  from premium_observed_from_chain[OF o ok] n decode_uint256_word[of 9 True PNone] o show ?thesis
    by auto
qed

end
