(* ===== verification/Balancer_Quote.thy ===== *)
theory Balancer_Quote
  imports Abi_Utils Flashloan
begin

text \<open>
  \<open>quote_balancer.py\<close> and \<open>quote_diagnostics.py\<close>: a Balancer quote is a simulated swap whose deltas
  come back either as return data or, by design, inside a revert. The request encoder, the two strict
  decoders, the bounded search of an RPC error for revert data, the classification of failures and the
  batch form are modelled. Diagnostics are counters passed along; \<open>None\<close> when the caller keeps none.
  The RPC client is a parameter.
\<close>

section \<open>Diagnostics\<close>

record quote_diag =
  qd_failures :: "(string \<times> nat) list"
  qd_decoded :: nat

definition record_quote_failure :: "string \<Rightarrow> 'a quote_diag_scheme option \<Rightarrow> 'a quote_diag_scheme option" where
  "record_quote_failure reason diag =
     map_option (\<lambda>d. d\<lparr>qd_failures := AList.map_default reason 1 Suc (qd_failures d)\<rparr>) diag"

definition record_quote_parse_failure :: "string \<Rightarrow> 'a quote_diag_scheme option \<Rightarrow> 'a quote_diag_scheme option" where
  "record_quote_parse_failure reason diag =
     map_option (\<lambda>d. d\<lparr>qd_failures := AList.map_default reason 1 Suc (qd_failures d)\<rparr>) diag"

definition record_query_revert_decoded :: "quote_diag option \<Rightarrow> quote_diag option" where
  "record_query_revert_decoded diag = map_option (\<lambda>d. d\<lparr>qd_decoded := qd_decoded d + 1\<rparr>) diag"

text \<open>\<open>v == n\<close> for an integer \<open>n\<close>.\<close>

definition py_eq_int :: "pyval \<Rightarrow> int \<Rightarrow> bool" where
  "py_eq_int v n = (case v of PInt i \<Rightarrow> i = n | PBool b \<Rightarrow> n = (if b then 1 else 0)
     | PFloat (FFin m k r) \<Rightarrow> m = n * 2 ^ k | _ \<Rightarrow> False)"

definition classify_quote_error :: "pyval \<Rightarrow> string" where
  "classify_quote_error error =
     (case error of
        PDict d \<Rightarrow>
          (let code = dget d ''code''; message = lower (str_or_empty (dget d ''message'')) in
           if py_eq_int code (- 32000) \<or> py_eq_int code (- 32005) \<or> contains ''execution reverted'' message \<or> contains ''revert'' message
           then ''rpc_revert''
           else if contains ''timeout'' message \<or> contains ''timed out'' message then ''rpc_timeout''
           else if contains ''rate limit'' message \<or> contains ''too many requests'' message \<or> py_eq_int code 429 \<or> py_eq_int code (- 32016)
           then ''rpc_rate_limited''
           else if contains ''method not found'' message \<or> py_eq_int code (- 32601) then ''rpc_method_unsupported''
           else if code \<noteq> PNone then ''rpc_error_'' @ py_str code
           else ''rpc_error'')
      | _ \<Rightarrow>
          (let message = lower (str_or_empty error) in
           if contains ''timeout'' message \<or> contains ''timed out'' message then ''rpc_timeout''
           else if contains ''rate limit'' message \<or> contains ''too many requests'' message then ''rpc_rate_limited''
           else if message = [] then ''rpc_error_unknown''
           else ''rpc_transport_or_provider_error''))"

section \<open>Revert data inside an RPC error\<close>

definition is_hex_char :: "char \<Rightarrow> bool" where
  "is_hex_char c = (digit_val 16 c \<noteq> None)"

definition is_hex_payload :: "string \<Rightarrow> bool" where
  "is_hex_payload v = (10 \<le> length v \<and> list_all is_hex_char (drop 2 v))"

definition rstrip_of :: "string \<Rightarrow> string \<Rightarrow> string" where
  "rstrip_of chars s = rev (dropWhile (\<lambda>c. c \<in> set chars) (rev s))"

definition leading_hex_payload :: "string \<Rightarrow> string option" where
  "leading_hex_payload stripped =
     (if \<not> starts_with ''0x'' stripped then None
      else let candidate = rstrip_of '',;'' (takeWhile (\<lambda>c. \<not> is_space c) stripped)
           in if is_hex_payload candidate then Some candidate else None)"

text \<open>\<open>re.finditer(r"0x[0-9a-fA-F]{8,}", text)\<close>: leftmost, greedy, not overlapping.\<close>

function find_hex_runs :: "string \<Rightarrow> string list" where
  "find_hex_runs [] = []"
| "find_hex_runs (c # cs) =
     (let run = takeWhile is_hex_char (drop 2 (c # cs)) in
      if starts_with ''0x'' (c # cs) \<and> 8 \<le> length run
      then (''0x'' @ run) # find_hex_runs (drop (length run) (drop 2 (c # cs)))
      else find_hex_runs cs)"
  by pat_completeness auto
termination by (relation "measure length") auto

definition EDGE_CHARS :: string where
  "EDGE_CHARS = [CHR 0x5C, CHR 0x27, CHR 0x22, CHR '' '', CHR '','', CHR '';'']"

definition iter_text_hex_payloads :: "string \<Rightarrow> string list" where
  "iter_text_hex_payloads v =
     (let txt = take 8192 v;
          stripped = rstrip_of EDGE_CHARS (dropWhile (\<lambda>c. c \<in> set EDGE_CHARS) (strip txt)) in
      (case leading_hex_payload stripped of None \<Rightarrow> [] | Some c \<Rightarrow> [c])
      @ take 8 (filter (\<lambda>m. m \<noteq> stripped) (find_hex_runs txt)))"

definition PREFERRED_KEYS :: "string list" where
  "PREFERRED_KEYS = [''data'', ''return'', ''result'', ''originalError'', ''error'', ''cause'', ''message'']"

definition preferred_error_children :: "pydict \<Rightarrow> pyval list" where
  "preferred_error_children d = map (dget d) (filter (\<lambda>k. map_of d k \<noteq> None) PREFERRED_KEYS)"

definition additional_error_children :: "pydict \<Rightarrow> pyval list" where
  "additional_error_children d = map snd (filter (\<lambda>(k, v). k \<notin> set PREFERRED_KEYS) (take 12 d))"

definition iter_error_children :: "pyval \<Rightarrow> pyval list" where
  "iter_error_children v = (case v of
     PDict d \<Rightarrow> preferred_error_children d @ additional_error_children d
   | PList xs \<Rightarrow> take 8 xs
   | _ \<Rightarrow> [])"

text \<open>Depths 0 to 5: the first argument counts the levels that are left.\<close>

fun error_hex_payloads :: "nat \<Rightarrow> pyval \<Rightarrow> string list" where
  "error_hex_payloads 0 v = []"
| "error_hex_payloads (Suc d) v = (case v of PStr s \<Rightarrow> iter_text_hex_payloads s
     | _ \<Rightarrow> concat (map (error_hex_payloads d) (iter_error_children v)))"

definition iter_error_hex_payloads :: "pyval \<Rightarrow> string list" where
  "iter_error_hex_payloads v = error_hex_payloads 6 v"

section \<open>Known Vault reverts\<close>

text \<open>
  Text from a decoded revert may hold any code point, so it is a list of code points from here on.
  Above 255 only two tables matter: the white space \<open>str.strip\<close> removes, listed here, and the word
  characters of a regular expression, an argument.
\<close>

definition is_space_point :: "nat \<Rightarrow> bool" where
  "is_space_point n =
     (if n < 256 then is_space (char_of n)
      else n = 0x1680 \<or> 0x2000 \<le> n \<and> n \<le> 0x200A \<or> n \<in> {0x2028, 0x2029, 0x202F, 0x205F, 0x3000})"

definition strip_points :: "nat list \<Rightarrow> nat list" where
  "strip_points s = rev (dropWhile is_space_point (rev (dropWhile is_space_point s)))"

definition decode_balancer_error_string :: "string \<Rightarrow> nat list" where
  "decode_balancer_error_string v =
     (let payload = abi_strip_0x v in
      if length payload < 8 + 64 \<or> odd (length payload) then []
      else case fromhex payload of None \<Rightarrow> []
      | Some raw \<Rightarrow>
          if take 4 raw \<noteq> ERROR_STRING_SELECTOR \<or> length raw < 4 + 64 then []
          else let body = drop 4 raw; offset = from_be (take 32 body) in
            if offset \<noteq> 32 \<or> length body < offset + 32 then []
            else let size = from_be (take 32 (drop offset body)) in
              if size > 512 \<or> length body < offset + 32 + size then []
              else utf8_replace (take size (drop (offset + 32) body)))"

definition join_points :: "nat list list \<Rightarrow> nat list" where
  "join_points ts = (case ts of [] \<Rightarrow> [] | t # ts \<Rightarrow> foldl (\<lambda>acc u. acc @ [32] @ u) t ts)"

fun error_text :: "nat \<Rightarrow> pyval \<Rightarrow> nat list" where
  "error_text 0 v = []"
| "error_text (Suc d) v = (case v of
     PStr s \<Rightarrow> strip_points (join_points [code_points (take 512 s), take 512 (decode_balancer_error_string s)])
   | PDict e \<Rightarrow> take 2048 (join_points (filter (\<lambda>f. f \<noteq> [])
       (map (\<lambda>k. error_text d (dget e k))
         (filter (\<lambda>k. is_str (dget e k) \<or> is_mapping (dget e k)) [''message'', ''data'', ''originalError'', ''error'', ''cause'']))))
   | PList xs \<Rightarrow> take 2048 (join_points (map (error_text d) (take 3 xs)))
   | _ \<Rightarrow> [])"

definition balancer_error_text :: "pyval \<Rightarrow> nat list" where
  "balancer_error_text error = error_text 4 error"

definition is_word_point :: "(nat \<Rightarrow> bool) \<Rightarrow> nat \<Rightarrow> bool" where
  "is_word_point uni n =
     (if n < 128 then 48 \<le> n \<and> n \<le> 57 \<or> 65 \<le> n \<and> n \<le> 90 \<or> 97 \<le> n \<and> n \<le> 122 \<or> n = 95
      else if n < 256 then n \<in> {170, 178, 179, 181, 185, 186, 188, 189, 190} \<or> 192 \<le> n \<and> n \<noteq> 215 \<and> n \<noteq> 247
      else uni n)"

definition is_digit_point :: "nat \<Rightarrow> bool" where
  "is_digit_point n = (48 \<le> n \<and> n \<le> 57)"

text \<open>\<open>re.search(r"\\bBAL#([0-9]{3})\\b", text, IGNORECASE)\<close>; the flag tells whether a word character precedes.\<close>

fun search_bal :: "(nat \<Rightarrow> bool) \<Rightarrow> bool \<Rightarrow> nat list \<Rightarrow> nat option" where
  "search_bal uni before [] = None"
| "search_bal uni before (c # cs) =
     (case c # cs of
        b # a # l # h # x # y # z # rest \<Rightarrow>
          if \<not> before \<and> b \<in> {66, 98} \<and> a \<in> {65, 97} \<and> l \<in> {76, 108} \<and> h = 35 \<and>
             is_digit_point x \<and> is_digit_point y \<and> is_digit_point z \<and>
             (case rest of [] \<Rightarrow> True | r # rs \<Rightarrow> \<not> is_word_point uni r)
          then Some (100 * (x - 48) + 10 * (y - 48) + (z - 48))
          else search_bal uni (is_word_point uni c) cs
      | _ \<Rightarrow> search_bal uni (is_word_point uni c) cs)"

definition BALANCER_REVERT_LABELS :: "nat \<Rightarrow> string option" where
  "BALANCER_REVERT_LABELS = map_of [(500, ''balancer_invalid_pool_id''), (520, ''balancer_tokens_mismatch''),
     (521, ''balancer_token_not_registered''), (527, ''balancer_pool_no_tokens'')]"

definition classify_balancer_quote_error :: "(nat \<Rightarrow> bool) \<Rightarrow> pyval \<Rightarrow> string" where
  "classify_balancer_quote_error uni error =
     (case search_bal uni False (balancer_error_text error) of
        Some code \<Rightarrow> (case BALANCER_REVERT_LABELS code of Some label \<Rightarrow> label
          | None \<Rightarrow> ''balancer_revert_code_'' @ rjust 3 (CHR ''0'') (show_nat code))
      | None \<Rightarrow> classify_quote_error error)"

section \<open>Decoding the deltas\<close>

definition QUERY_ERROR_SELECTOR :: bytes where
  "QUERY_ERROR_SELECTOR = [0xfa, 0x61, 0xcc, 0x12]"

definition MAX_QUERY_ERROR_BYTES :: nat where
  "MAX_QUERY_ERROR_BYTES = 4096"

text \<open>The loop over the word starts: \<open>n\<close> signed words from byte \<open>p\<close> on.\<close>

definition signed_words :: "bytes \<Rightarrow> nat \<Rightarrow> nat \<Rightarrow> int list" where
  "signed_words body p n = map (\<lambda>i. to_signed (from_be (take 32 (drop (p + 32 * i) body)))) [0..<n]"

definition decode_query_error_body :: "bytes \<Rightarrow> int list option" where
  "decode_query_error_body body =
     (if length body < 32 \<or> length body > MAX_QUERY_ERROR_BYTES \<or> (length body - 32) mod 32 \<noteq> 0 then None
      else let count = from_be (take 32 body) in
        if count < 2 \<or> count > 64 \<or> length body \<noteq> 32 + count * 32 then None
        else Some (signed_words body 32 count))"

definition decode_query_error_candidate :: "string \<Rightarrow> int list option \<times> bool" where
  "decode_query_error_candidate candidate =
     (let payload = abi_strip_0x candidate in
      if length payload < 8 \<or> odd (length payload) then (None, False)
      else case fromhex payload of None \<Rightarrow> (None, False)
      | Some raw \<Rightarrow> if take 4 raw \<noteq> QUERY_ERROR_SELECTOR then (None, False)
          else (decode_query_error_body (drop 4 raw), True))"

fun scan_candidates :: "string list \<Rightarrow> bool \<Rightarrow> int list option \<times> bool" where
  "scan_candidates [] saw = (None, saw)"
| "scan_candidates (c # cs) saw =
     (case decode_query_error_candidate c of
        (Some deltas, recognized) \<Rightarrow> (Some deltas, True)
      | (None, recognized) \<Rightarrow> scan_candidates cs (saw \<or> recognized))"

definition decode_query_batch_swap_error :: "pyval \<Rightarrow> int list option \<times> bool" where
  "decode_query_batch_swap_error error = scan_candidates (iter_error_hex_payloads error) False"

definition decode_balancer_swap_deltas :: "string \<Rightarrow> int list res" where
  "decode_balancer_swap_deltas hex_result =
     (case fromhex (abi_strip_0x hex_result) of None \<Rightarrow> Inl ValueError
      | Some raw \<Rightarrow>
          if length raw < 64 \<or> length raw mod 32 \<noteq> 0 then Inl ValueError
          else if from_be (take 32 raw) \<noteq> 32 then Inl ValueError
          else let count = from_be (take 32 (drop 32 raw)) in
            if length raw \<noteq> 64 + count * 32 then Inl ValueError
            else Inr (signed_words raw 64 count))"

text \<open>A quote is the amount out.\<close>

definition quote_from_deltas :: "int list \<Rightarrow> int \<Rightarrow> quote_diag option \<Rightarrow> int option \<times> quote_diag option" where
  "quote_from_deltas deltas requested diag =
     (if length deltas \<noteq> 2 then (None, record_quote_parse_failure ''unexpected_swap_delta_count'' diag)
      else if requested \<le> 0 \<or> deltas ! 0 \<noteq> requested then (None, record_quote_parse_failure ''unexpected_input_delta'' diag)
      else if - (deltas ! 1) \<le> 0 then (None, record_quote_parse_failure ''non_positive_quote_output'' diag)
      else (Some (- (deltas ! 1)), diag))"

definition decode_balancer_rpc_result :: "(nat \<Rightarrow> bool) \<Rightarrow> rpc_result \<Rightarrow> int \<Rightarrow> quote_diag option \<Rightarrow> int option \<times> quote_diag option" where
  "decode_balancer_rpc_result uni r expected diag =
     (if \<not> rr_ok r then
        (case decode_query_batch_swap_error (rr_error r) of
           (None, recognized) \<Rightarrow>
             (None, if recognized then record_quote_parse_failure ''invalid_query_batch_swap_revert_data'' diag
                else record_quote_failure (classify_balancer_quote_error uni (rr_error r)) diag)
         | (Some deltas, recognized) \<Rightarrow>
             (case quote_from_deltas deltas expected diag of
                (None, diag') \<Rightarrow> (None, diag')
              | (Some q, diag') \<Rightarrow> (Some q, record_query_revert_decoded diag')))
      else (case rr_result r of
          PStr v \<Rightarrow> (case decode_balancer_swap_deltas v of
              Inl e \<Rightarrow> (None, record_quote_parse_failure ''invalid_quote_result'' diag)
            | Inr deltas \<Rightarrow> quote_from_deltas deltas expected diag)
        | _ \<Rightarrow> (None, record_quote_parse_failure ''invalid_rpc_result'' diag)))"

definition parse_balancer_query_result :: "string \<Rightarrow> int \<Rightarrow> quote_diag option \<Rightarrow> int option \<times> quote_diag option" where
  "parse_balancer_query_result hex_result expected diag =
     (case decode_balancer_swap_deltas hex_result of
        Inl e \<Rightarrow> (None, record_quote_parse_failure ''invalid_quote_result'' diag)
      | Inr deltas \<Rightarrow> quote_from_deltas deltas expected diag)"

section \<open>The request\<close>

definition QUERY_SIG :: string where
  "QUERY_SIG = ''queryBatchSwap(uint8,(bytes32,uint256,uint256,uint256,bytes)[],address[],(address,bool,address,bool))''"

definition swap_step :: "bytes \<Rightarrow> int \<Rightarrow> bytes res" where
  "swap_step raw_pool_id amount_in =
     rbind (enc_bytes32 raw_pool_id) (\<lambda>w0. rbind (enc_uint 0) (\<lambda>w1. rbind (enc_uint 1) (\<lambda>w2.
     rbind (enc_uint amount_in) (\<lambda>w3. rbind (enc_uint (32 * 5)) (\<lambda>w4. rbind (enc_bytes_dyn []) (\<lambda>u.
     Inr (w0 @ w1 @ w2 @ w3 @ w4 @ u)))))))"

definition build_balancer_query_batchswap_calldata ::
    "(bytes \<Rightarrow> bytes) \<Rightarrow> string \<Rightarrow> string \<Rightarrow> string \<Rightarrow> int \<Rightarrow> string res" where
  "build_balancer_query_batchswap_calldata kec pool_id token_in token_out amount_in =
     rbind (fromhex_res (abi_strip_0x pool_id)) (\<lambda>raw_pool_id.
     if length raw_pool_id \<noteq> 32 then Inl ValueError
     else if amount_in \<le> 0 then Inl ValueError
     else
       rbind (swap_step raw_pool_id amount_in) (\<lambda>step.
       rbind (enc_uint 1) (\<lambda>one. rbind (enc_uint 32) (\<lambda>off.
       rbind (enc_uint 2) (\<lambda>two. rbind (enc_address token_in) (\<lambda>ti. rbind (enc_address token_out) (\<lambda>tou.
       rbind (enc_address zero_address) (\<lambda>z. rbind (enc_bool False) (\<lambda>f.
       let swaps = one @ off @ step; assets = two @ ti @ tou; funds = z @ f @ z @ f; head_size = 32 * 7 in
       rbind (enc_uint 0) (\<lambda>kind. rbind (enc_uint head_size) (\<lambda>so. rbind (enc_uint (head_size + int (length swaps))) (\<lambda>ao.
       Inr (''0x'' @ hex_of (selector kec QUERY_SIG @ (kind @ so @ ao @ funds) @ swaps @ assets))))))))))))))"

text \<open>Every exception the builder raises is a ValueError or an OverflowError, which the callers catch.\<close>

definition quote_balancer_given_in ::
    "(bytes \<Rightarrow> bytes) \<Rightarrow> (nat \<Rightarrow> bool) \<Rightarrow> (string \<Rightarrow> string \<Rightarrow> rpc_result) \<Rightarrow> string \<Rightarrow> string \<Rightarrow> string \<Rightarrow> string \<Rightarrow> int
     \<Rightarrow> quote_diag option \<Rightarrow> int option \<times> quote_diag option" where
  "quote_balancer_given_in kec uni eth_call vault pool_id token_in token_out amount_in diag =
     (case build_balancer_query_batchswap_calldata kec pool_id token_in token_out amount_in of
        Inl e \<Rightarrow> (None, record_quote_parse_failure ''invalid_balancer_request'' diag)
      | Inr data \<Rightarrow> decode_balancer_rpc_result uni (eth_call vault data) amount_in diag)"

type_synonym quote_req = "string \<times> string \<times> string \<times> int"

definition req_amount :: "quote_req \<Rightarrow> int" where
  "req_amount r = snd (snd (snd r))"

definition req_calldata :: "(bytes \<Rightarrow> bytes) \<Rightarrow> quote_req \<Rightarrow> string res" where
  "req_calldata kec r = (case r of (pool_id, token_in, token_out, amount_in) \<Rightarrow>
     build_balancer_query_batchswap_calldata kec pool_id token_in token_out amount_in)"

text \<open>The calls of the requests that encode, with the index each came from.\<close>

fun encode_requests :: "(bytes \<Rightarrow> bytes) \<Rightarrow> nat \<Rightarrow> quote_req list \<Rightarrow> quote_diag option \<Rightarrow> (nat \<times> string) list \<times> quote_diag option" where
  "encode_requests kec i [] diag = ([], diag)"
| "encode_requests kec i (r # rs) diag =
     (case req_calldata kec r of
        Inl e \<Rightarrow> encode_requests kec (Suc i) rs (record_quote_parse_failure ''invalid_balancer_request'' diag)
      | Inr data \<Rightarrow> (case encode_requests kec (Suc i) rs diag of (calls, diag') \<Rightarrow> ((i, data) # calls, diag')))"

fun place_results :: "(nat \<Rightarrow> bool) \<Rightarrow> quote_req list \<Rightarrow> nat list \<Rightarrow> rpc_result list \<Rightarrow> int option list \<Rightarrow> quote_diag option
     \<Rightarrow> int option list \<times> quote_diag option" where
  "place_results uni reqs [] results out diag = (out, diag)"
| "place_results uni reqs (i # ix) [] out diag =
     place_results uni reqs ix [] out (record_quote_parse_failure ''missing_rpc_batch_result'' diag)"
| "place_results uni reqs (i # ix) (r # rs) out diag =
     (case decode_balancer_rpc_result uni r (req_amount (reqs ! i)) diag of
        (q, diag') \<Rightarrow> place_results uni reqs ix rs (out[i := q]) diag')"

definition quote_balancer_given_in_many ::
    "(bytes \<Rightarrow> bytes) \<Rightarrow> (nat \<Rightarrow> bool) \<Rightarrow> ((string \<times> string) list \<Rightarrow> rpc_result list) \<Rightarrow> string \<Rightarrow> quote_req list
     \<Rightarrow> quote_diag option \<Rightarrow> int option list \<times> quote_diag option" where
  "quote_balancer_given_in_many kec uni eth_call_batch vault reqs diag =
     (if reqs = [] then ([], diag)
      else let out = replicate (length reqs) None in
        case encode_requests kec 0 reqs diag of (calls, diag1) \<Rightarrow>
          if calls = [] then (out, diag1)
          else let results = eth_call_batch (map (\<lambda>(i, data). (vault, data)) calls) in
            case place_results uni reqs (map fst calls) results out diag1 of (out', diag2) \<Rightarrow>
              (out', if length results > length calls then record_quote_parse_failure ''unexpected_rpc_batch_result'' diag2 else diag2))"

section \<open>The strict decoder\<close>

text \<open>The only return data the decoder takes for the deltas \<open>ds\<close>.\<close>

definition balancer_return :: "int list \<Rightarrow> bytes" where
  "balancer_return ds = to_be 32 32 @ to_be 32 (length ds) @ concat (map (\<lambda>d. to_be 32 (nat (twos d))) ds)"

lemma to_signed_int256: "w < 2 ^ 256 \<Longrightarrow> int256 (to_signed w) \<and> nat (twos (to_signed w)) = w"
  by (auto simp: to_signed_def int256_def twos_def nat_less_iff)

lemma concat_chunks:
  "length b = 32 * n \<Longrightarrow> concat (map (\<lambda>i. take 32 (drop (32 * i) b)) [0..<n]) = b"
proof (induction n arbitrary: b)
  case 0
  then show ?case by simp
next
  case (Suc n)
  have "map (\<lambda>i. take 32 (drop (32 * i) b)) [0..<Suc n] =
      take 32 b # map (\<lambda>i. take 32 (drop (32 * i) (drop 32 b))) [0..<n]"
    by (simp add: upt_conv_Cons map_Suc_upt[symmetric] add.commute del: upt_Suc)
  then show ?case using Suc.IH[of "drop 32 b"] Suc.prems by simp
qed

lemma length_signed_words [simp]: "length (signed_words b p n) = n"
  by (simp add: signed_words_def)

lemma signed_words_canonical:
  assumes "length body = p + 32 * n"
  shows "concat (map (\<lambda>d. to_be 32 (nat (twos d))) (signed_words body p n)) = drop p body"
    and "list_all int256 (signed_words body p n)"
proof -
  have w: "length (take 32 (drop (p + 32 * i) body)) = 32" if "i < n" for i
    using assms that by simp
  then have s: "int256 (to_signed (from_be (take 32 (drop (p + 32 * i) body)))) \<and>
      nat (twos (to_signed (from_be (take 32 (drop (p + 32 * i) body))))) = from_be (take 32 (drop (p + 32 * i) body))"
    if "i < n" for i using that by (intro to_signed_int256 from_be_word)
  then have e: "to_be 32 (nat (twos (to_signed (from_be (take 32 (drop (p + 32 * i) body)))))) =
      take 32 (drop (32 * i) (drop p body))" if "i < n" for i
    using that w[OF that] by (simp add: to_be_from_be add.commute)
  have "map (\<lambda>d. to_be 32 (nat (twos d))) (signed_words body p n) = map (\<lambda>i. take 32 (drop (32 * i) (drop p body))) [0..<n]"
    using e by (simp add: signed_words_def)
  then show "concat (map (\<lambda>d. to_be 32 (nat (twos d))) (signed_words body p n)) = drop p body"
    using concat_chunks[of "drop p body" n] assms by simp
  show "list_all int256 (signed_words body p n)"
    using s by (auto simp: signed_words_def list_all_iff)
qed

lemma signed_words_encoded:
  assumes "list_all int256 ds" and "length pre = p"
  shows "signed_words (pre @ concat (map (\<lambda>d. to_be 32 (nat (twos d))) ds)) p (length ds) = ds"
proof (rule nth_equalityI)
  fix i assume "i < length (signed_words (pre @ concat (map (\<lambda>d. to_be 32 (nat (twos d))) ds)) p (length ds))"
  then have i: "i < length ds" by simp
  then have d: "int256 (ds ! i)" using assms(1) by (simp add: list_all_length)
  have "word_at_off (pre @ concat (map (\<lambda>d. to_be 32 (nat (twos d))) ds) @ []) (p + 32 * i) =
      from_be (map (\<lambda>d. to_be 32 (nat (twos d))) ds ! i)"
    using i assms(2) by (intro word_at_concat) auto
  then have "word_at_off (pre @ concat (map (\<lambda>d. to_be 32 (nat (twos d))) ds)) (p + 32 * i) = nat (twos (ds ! i))"
    using i from_be_uint[OF twos_uint256[OF d]] by simp
  then show "signed_words (pre @ concat (map (\<lambda>d. to_be 32 (nat (twos d))) ds)) p (length ds) ! i = ds ! i"
    using i d by (simp add: signed_words_def word_at_off_def to_signed_twos)
qed simp

lemma guard_Inr: "(if b then Inl e else x) = Inr y \<longleftrightarrow> \<not> b \<and> x = Inr y"
  by simp

lemma length_words_const: "length (concat (map (\<lambda>d. to_be 32 (f d)) ds)) = 32 * length ds"
  by (induction ds) simp_all

lemma decode_deltas_sound:
  assumes a: "decode_balancer_swap_deltas s = Inr ds"
  shows "fromhex (abi_strip_0x s) = Some (balancer_return ds) \<and> list_all int256 ds \<and> length ds < 2 ^ 256"
proof -
  obtain raw where raw: "fromhex (abi_strip_0x s) = Some raw"
    using a by (cases "fromhex (abi_strip_0x s)") (simp_all add: decode_balancer_swap_deltas_def)
  note g = a[unfolded decode_balancer_swap_deltas_def raw Let_def option.case guard_Inr not_le not_less de_Morgan_disj not_not sum.inject]
  have l: "64 \<le> length raw" and o: "from_be (take 32 raw) = 32"
      and n: "length raw = 64 + from_be (take 32 (drop 32 raw)) * 32"
      and ds': "signed_words raw 64 (from_be (take 32 (drop 32 raw))) = ds"
    by (insert g) (elim conjE, assumption)+
  note ds = ds'[symmetric]
  let ?n = "from_be (take 32 (drop 32 raw))"
  have len: "length raw = 64 + 32 * ?n" unfolding n by (rule arg_cong[OF mult.commute])
  have "take 32 raw = to_be 32 32" "take 32 (drop 32 raw) = to_be 32 (length ds)"
    using to_be_from_be[of "take 32 raw" 32] to_be_from_be[of "take 32 (drop 32 raw)" 32] l o ds by simp_all
  moreover have "raw = take 32 raw @ take 32 (drop 32 raw) @ drop 64 raw"
    using append_take_drop_id[of 32 raw] append_take_drop_id[of 32 "drop 32 raw"] by simp
  moreover have "concat (map (\<lambda>d. to_be 32 (nat (twos d))) ds) = drop 64 raw"
    unfolding ds by (rule signed_words_canonical) (rule len)
  ultimately have "raw = balancer_return ds" by (simp add: balancer_return_def)
  moreover have "list_all int256 ds" unfolding ds by (rule signed_words_canonical) (rule len)
  moreover have "length ds < 2 ^ 256" using from_be_word[of "drop 32 raw"] l ds by simp
  ultimately show "fromhex (abi_strip_0x s) = Some (balancer_return ds) \<and> list_all int256 ds \<and> length ds < 2 ^ 256"
    using raw by simp
qed

lemma decode_deltas_complete:
  assumes a: "fromhex (abi_strip_0x s) = Some (balancer_return ds) \<and> list_all int256 ds \<and> length ds < 2 ^ 256"
  shows "decode_balancer_swap_deltas s = Inr ds"
proof -
  let ?b = "balancer_return ds" and ?c = "concat (map (\<lambda>d. to_be 32 (nat (twos d))) ds)"
  have t: "take 32 ?b = to_be 32 32" "take 32 (drop 32 ?b) = to_be 32 (length ds)"
    "length ?b = 64 + length ds * 32" "?b = (to_be 32 32 @ to_be 32 (length ds)) @ ?c"
    by (simp_all add: balancer_return_def length_words_const)
  have f: "from_be (to_be 32 32) = 32" "from_be (to_be 32 (length ds)) = length ds"
    using a from_be_to_be[of 32 32] from_be_to_be[of "length ds" 32] unfolding pow_256_32 by simp_all
  have "signed_words ?b 64 (length ds) = ds"
    unfolding t(4) using a by (intro signed_words_encoded) simp_all
  with a show "decode_balancer_swap_deltas s = Inr ds"
    by (simp add: decode_balancer_swap_deltas_def t(1-3) f)
qed

text \<open>The strict decoder accepts exactly the canonical ABI return data: text that is the hexadecimal
  of an offset word of 32, the element count, and that many signed words with nothing after them decodes to
  those elements, and every other text (another offset, a truncated or trailing word, a count that does
  not match) is refused.\<close>

theorem decode_balancer_swap_deltas_exact:
  "decode_balancer_swap_deltas s = Inr ds \<longleftrightarrow>
     fromhex (abi_strip_0x s) = Some (balancer_return ds) \<and> list_all int256 ds \<and> length ds < 2 ^ 256"
  using decode_deltas_sound decode_deltas_complete by blast

section \<open>What a quote proves\<close>

text \<open>The only revert data, after its selector, the decoder takes for the deltas \<open>ds\<close>.\<close>

definition query_error_body :: "int list \<Rightarrow> bytes" where
  "query_error_body ds = to_be 32 (length ds) @ concat (map (\<lambda>d. to_be 32 (nat (twos d))) ds)"

lemma decode_query_error_body_sound:
  assumes a: "decode_query_error_body body = Some ds"
  shows "body = query_error_body ds \<and> list_all int256 ds"
proof -
  have l: "32 \<le> length body" and n: "length body = 32 + from_be (take 32 body) * 32"
    and ds: "signed_words body 32 (from_be (take 32 body)) = ds"
    using a unfolding decode_query_error_body_def Let_def by (metis not_less option.discI option.inject)+
  have len: "length body = 32 + 32 * from_be (take 32 body)" unfolding n by (rule arg_cong[OF mult.commute])
  have "concat (map (\<lambda>d. to_be 32 (nat (twos d))) ds) = drop 32 body"
    unfolding ds[symmetric] by (rule signed_words_canonical) (rule len)
  moreover have "to_be 32 (length ds) = take 32 body"
    using to_be_from_be[of "take 32 body" 32] l ds by auto
  moreover have "list_all int256 ds"
    unfolding ds[symmetric] by (rule signed_words_canonical) (rule len)
  ultimately show ?thesis by (simp add: query_error_body_def)
qed

lemma decode_query_error_body_complete:
  assumes "list_all int256 ds" and "2 \<le> length ds" and "length ds \<le> 64"
  shows "decode_query_error_body (query_error_body ds) = Some ds"
proof -
  have t: "take 32 (query_error_body ds) = to_be 32 (length ds)" "length (query_error_body ds) = 32 + 32 * length ds"
    by (simp_all add: query_error_body_def length_words_const)
  have "from_be (to_be 32 (length ds)) = length ds"
    using assms(3) by (intro from_be_to_be) (simp only: pow_256_32, simp)
  moreover have "signed_words (query_error_body ds) 32 (length ds) = ds"
    unfolding query_error_body_def using assms(1) by (intro signed_words_encoded) simp_all
  ultimately show ?thesis
    using assms by (simp add: decode_query_error_body_def t MAX_QUERY_ERROR_BYTES_def)
qed

lemma decode_query_error_candidate_sound:
  assumes "decode_query_error_candidate c = (Some ds, rec)"
  shows "fromhex (abi_strip_0x c) = Some (QUERY_ERROR_SELECTOR @ query_error_body ds) \<and> list_all int256 ds"
proof -
  from assms obtain raw where r: "fromhex (abi_strip_0x c) = Some raw" "take 4 raw = QUERY_ERROR_SELECTOR"
      "decode_query_error_body (drop 4 raw) = Some ds"
    by (auto simp: decode_query_error_candidate_def Let_def split: option.splits if_splits)
  have "raw = take 4 raw @ drop 4 raw" by simp
  then show ?thesis using r decode_query_error_body_sound[OF r(3)] by simp
qed

lemma scan_candidates_sound:
  "scan_candidates cs saw = (Some ds, rec) \<Longrightarrow>
     \<exists>c \<in> set cs. fromhex (abi_strip_0x c) = Some (QUERY_ERROR_SELECTOR @ query_error_body ds)"
  by (induction cs arbitrary: saw)
     (auto dest: decode_query_error_candidate_sound split: prod.splits option.splits)

lemma quote_from_deltas_sound:
  "quote_from_deltas ds n diag = (Some q, diag') \<Longrightarrow> ds = [n, - q] \<and> 0 < n \<and> 0 < q"
  by (auto simp: quote_from_deltas_def length_Suc_conv numeral_2_eq_2 split: if_splits)

text \<open>The answer carries the deltas \<open>ds\<close>: as return data, or inside the deliberate revert.\<close>

definition answer_carries :: "rpc_result \<Rightarrow> int list \<Rightarrow> bool" where
  "answer_carries r ds =
     (if rr_ok r then (case rr_result r of PStr v \<Rightarrow> fromhex (abi_strip_0x v) = Some (balancer_return ds) | _ \<Rightarrow> False)
      else \<exists>c \<in> set (iter_error_hex_payloads (rr_error r)). fromhex (abi_strip_0x c) = Some (QUERY_ERROR_SELECTOR @ query_error_body ds))"

lemma decode_rpc_result_sound:
  assumes "decode_balancer_rpc_result uni r n diag = (Some q, diag')"
  shows "answer_carries r [n, - q] \<and> 0 < n \<and> 0 < q"
proof (cases "rr_ok r")
  case True
  then obtain v ds where "rr_result r = PStr v" "decode_balancer_swap_deltas v = Inr ds"
      "quote_from_deltas ds n diag = (Some q, diag')"
    using assms by (auto simp: decode_balancer_rpc_result_def split: pyval.splits sum.splits)
  then show ?thesis
    using True decode_deltas_sound[of v ds] quote_from_deltas_sound[of ds n diag q diag'] by (simp add: answer_carries_def)
next
  case False
  then obtain ds rec d1 where "decode_query_batch_swap_error (rr_error r) = (Some ds, rec)"
      "quote_from_deltas ds n diag = (Some q, d1)"
    using assms by (auto simp: decode_balancer_rpc_result_def split: prod.splits option.splits)
  then show ?thesis
    using False scan_candidates_sound[of "iter_error_hex_payloads (rr_error r)" False ds rec] quote_from_deltas_sound[of ds n diag q d1]
    by (simp add: answer_carries_def decode_query_batch_swap_error_def)
qed

text \<open>C18: no quote without evidence: when a quote of \<open>q\<close> is returned, the request encoded, and the
  node's answer to exactly that call carried, canonically encoded as return data or inside Balancer's
  \<open>QueryError\<close> revert, the two deltas: the requested amount in and minus the quoted amount out, both positive.\<close>

theorem balancer_quote_sound:
  assumes "quote_balancer_given_in kec uni eth_call vault pool tin tout amount diag = (Some q, diag')"
  shows "0 < amount \<and> 0 < q \<and>
    (\<exists>data. build_balancer_query_batchswap_calldata kec pool tin tout amount = Inr data \<and>
       answer_carries (eth_call vault data) [amount, - q])"
  using assms decode_rpc_result_sound[of uni _ amount diag q diag']
  by (auto simp: quote_balancer_given_in_def split: sum.splits)

section \<open>Telemetry\<close>

definition failures :: "quote_diag \<Rightarrow> nat" where
  "failures d = sum_list (map snd (qd_failures d))"

definition nones :: "int option list \<Rightarrow> nat" where
  "nones qs = length (filter (\<lambda>q. q = None) qs)"

lemma sum_map_default: "sum_list (map snd (AList.map_default k (Suc 0) Suc xs)) = Suc (sum_list (map snd xs))"
  by (induction xs) auto

lemma record_failure_counts:
  "\<exists>e. record_quote_failure reason (Some d) = Some e \<and> failures e = Suc (failures d)"
  "\<exists>e. record_quote_parse_failure reason (Some d) = Some e \<and> failures e = Suc (failures d)"
  by (simp_all add: record_quote_failure_def record_quote_parse_failure_def failures_def sum_map_default del: AList.map_default.simps)

definition counted :: "quote_diag \<Rightarrow> int option \<times> quote_diag option \<Rightarrow> bool" where
  "counted d res = (case res of (q, dg) \<Rightarrow> (case dg of None \<Rightarrow> False
     | Some e \<Rightarrow> failures e = failures d + (if q = None then 1 else 0)))"

lemma counted_failure:
  "counted d (None, record_quote_failure reason (Some d))"
  "counted d (None, record_quote_parse_failure reason (Some d))"
  using record_failure_counts[of reason d] by (auto simp: counted_def)

lemma counted_quote_from_deltas: "counted d (quote_from_deltas ds n (Some d))"
  by (simp add: quote_from_deltas_def counted_failure) (simp add: counted_def)

lemma counted_revert_decoded: "counted d (Some q, dg) \<Longrightarrow> counted d (Some q, record_query_revert_decoded dg)"
  by (auto simp: counted_def record_query_revert_decoded_def failures_def split: option.splits)

lemma counted_rpc_result: "counted d (decode_balancer_rpc_result uni r n (Some d))"
proof -
  have "counted d (case quote_from_deltas ds n (Some d) of (None, diag') \<Rightarrow> (None, diag')
      | (Some q, diag') \<Rightarrow> (Some q, record_query_revert_decoded diag'))" for ds
    using counted_quote_from_deltas[of d ds n] by (auto intro: counted_revert_decoded split: prod.splits option.splits)
  then show ?thesis
    by (auto simp: decode_balancer_rpc_result_def counted_failure counted_quote_from_deltas
        split: prod.split option.split pyval.split sum.split)
qed

lemma nones_update: "i < length out \<Longrightarrow> out ! i = None \<Longrightarrow> nones out = nones (out[i := q]) + (if q = None then 0 else 1)"
  unfolding nones_def by (induction out arbitrary: i) (auto split: nat.splits)

lemma place_results_counts:
  assumes "distinct ix" and "\<forall>i \<in> set ix. i < length out \<and> out ! i = None"
  shows "\<exists>out' e. place_results uni reqs ix results out (Some d) = (out', Some e) \<and> length out' = length out \<and>
    failures e + nones out = failures d + length ix + nones out'"
  using assms
proof (induction uni reqs ix results out "Some d" arbitrary: d rule: place_results.induct)
  case (1 uni reqs results out)
  then show ?case by simp
next
  case (2 uni reqs i ix out)
  obtain e where e: "record_quote_parse_failure ''missing_rpc_batch_result'' (Some d) = Some e" "failures e = Suc (failures d)"
    using record_failure_counts(2) by blast
  from 2(1)[OF e(1)] 2(2,3) e show ?case by auto
next
  case (3 uni reqs i ix r rs out)
  obtain q dg where q: "decode_balancer_rpc_result uni r (req_amount (reqs ! i)) (Some d) = (q, dg)" by (metis surj_pair)
  then obtain e where e: "dg = Some e" "failures e = failures d + (if q = None then 1 else 0)"
    using counted_rpc_result[of d uni r "req_amount (reqs ! i)"] by (auto simp: counted_def split: option.splits)
  have i: "i < length out" "out ! i = None" "i \<notin> set ix" using 3(2,3) by auto
  have "\<forall>j \<in> set ix. j < length (out[i := q]) \<and> out[i := q] ! j = None"
    using 3(3) i by (metis length_list_update list.set_intros(2) nth_list_update_neq)
  from 3(1)[OF q[symmetric, unfolded e(1)] _ this] 3(2) q e nones_update[OF i(1,2), of q]
  show ?case by (auto split: if_splits)
qed

lemma encode_requests_shape:
  "\<exists>calls e. encode_requests kec k rs (Some d) = (calls, Some e) \<and> failures e + length calls = failures d + length rs \<and>
     distinct (map fst calls) \<and> (\<forall>i \<in> set (map fst calls). k \<le> i \<and> i < k + length rs)"
proof (induction rs arbitrary: k d)
  case Nil
  then show ?case by simp
next
  case (Cons r rs)
  show ?case
  proof (cases "req_calldata kec r")
    case (Inl err)
    obtain e where e: "record_quote_parse_failure ''invalid_balancer_request'' (Some d) = Some e" "failures e = Suc (failures d)"
      using record_failure_counts(2) by blast
    from Cons.IH[of "Suc k" e] obtain calls e' where "encode_requests kec (Suc k) rs (Some e) = (calls, Some e')"
        "failures e' + length calls = failures e + length rs" "distinct (map fst calls)"
        "\<forall>i \<in> set (map fst calls). Suc k \<le> i \<and> i < Suc k + length rs" by blast
    with Inl e show ?thesis by force
  next
    case (Inr data)
    from Cons.IH[of "Suc k" d] obtain calls e where "encode_requests kec (Suc k) rs (Some d) = (calls, Some e)"
        "failures e + length calls = failures d + length rs" "distinct (map fst calls)"
        "\<forall>i \<in> set (map fst calls). Suc k \<le> i \<and> i < Suc k + length rs" by blast
    with Inr show ?thesis by force
  qed
qed

text \<open>The node sent more answers than it was asked for.\<close>

definition surplus_answers ::
    "(bytes \<Rightarrow> bytes) \<Rightarrow> ((string \<times> string) list \<Rightarrow> rpc_result list) \<Rightarrow> string \<Rightarrow> quote_req list \<Rightarrow> quote_diag option \<Rightarrow> bool" where
  "surplus_answers kec eth_call_batch vault reqs diag =
     (let calls = fst (encode_requests kec 0 reqs diag) in
      calls \<noteq> [] \<and> length calls < length (eth_call_batch (map (\<lambda>(i, data). (vault, data)) calls)))"

text \<open>Every empty slot of a batch is explained exactly once: however short, long or malformed the
  node's batch answer is, the result has one slot per request, and the failure counters grow by the number
  of empty slots, plus one when there were surplus answers.\<close>

theorem batch_failures_explained:
  "\<exists>out e. quote_balancer_given_in_many kec uni eth_call_batch vault reqs (Some d) = (out, Some e) \<and>
     length out = length reqs \<and>
     failures e = failures d + nones out + (if surplus_answers kec eth_call_batch vault reqs (Some d) then 1 else 0)"
proof -
  obtain calls d1 where c: "encode_requests kec 0 reqs (Some d) = (calls, Some d1)"
      "failures d1 + length calls = failures d + length reqs" "distinct (map fst calls)"
      "\<forall>i \<in> set (map fst calls). 0 \<le> i \<and> i < 0 + length reqs"
    using encode_requests_shape[of kec 0 reqs d] by blast
  let ?out = "replicate (length reqs) (None :: int option)"
  let ?rs = "eth_call_batch (map (\<lambda>(i, data). (vault, data)) calls)"
  have n: "nones ?out = length reqs" by (simp add: nones_def)
  have "\<forall>i \<in> set (map fst calls). i < length ?out \<and> ?out ! i = None" using c(4) by simp
  from place_results_counts[OF c(3) this, of uni reqs ?rs d1]
  obtain out' d2 where p: "place_results uni reqs (map fst calls) ?rs ?out (Some d1) = (out', Some d2)"
      "length out' = length reqs" "failures d2 + length reqs = failures d1 + length calls + nones out'"
    using n by auto
  obtain d3 where d3: "record_quote_parse_failure ''unexpected_rpc_batch_result'' (Some d2) = Some d3" "failures d3 = Suc (failures d2)"
    using record_failure_counts(2) by blast
  show ?thesis
  proof (cases "reqs = [] \<or> calls = []")
    case True
    then show ?thesis using c n
      by (auto simp: quote_balancer_given_in_many_def surplus_answers_def nones_def)
  next
    case False
    then show ?thesis using c p d3
      by (auto simp: quote_balancer_given_in_many_def surplus_answers_def)
  qed
qed

section \<open>A batch is its single quotes\<close>

lemma fst_quote_from_deltas: "fst (quote_from_deltas ds n diag) = fst (quote_from_deltas ds n None)"
  by (simp add: quote_from_deltas_def)

lemma fst_rpc_result: "fst (decode_balancer_rpc_result uni r n diag) = fst (decode_balancer_rpc_result uni r n None)"
  using fst_quote_from_deltas[of _ n diag]
  by (auto simp: decode_balancer_rpc_result_def split: prod.splits option.splits pyval.splits sum.splits)
     (metis fst_conv option.distinct option.inject)+

lemma fst_encode_requests: "fst (encode_requests kec k rs diag) = fst (encode_requests kec k rs None)"
  by (induction rs arbitrary: k diag) (auto split: sum.splits prod.splits, (metis fst_conv)+)

definition single_quote :: "(bytes \<Rightarrow> bytes) \<Rightarrow> (nat \<Rightarrow> bool) \<Rightarrow> (string \<Rightarrow> string \<Rightarrow> rpc_result) \<Rightarrow> string \<Rightarrow> quote_req \<Rightarrow> int option" where
  "single_quote kec uni eth_call vault r = (case r of (pool, tin, tout, amount) \<Rightarrow>
     fst (quote_balancer_given_in kec uni eth_call vault pool tin tout amount None))"

lemma single_quote_calldata:
  "single_quote kec uni eth_call vault r = (case req_calldata kec r of Inl e \<Rightarrow> None
     | Inr data \<Rightarrow> fst (decode_balancer_rpc_result uni (eth_call vault data) (req_amount r) None))"
  by (auto simp: single_quote_def req_calldata_def req_amount_def quote_balancer_given_in_def split: prod.splits sum.splits)

lemma place_results_singles:
  assumes "calls = fst (encode_requests kec (length pre) rs dg)" and "length qs = length pre"
  shows "fst (place_results uni (pre @ rs) (map fst calls) (map (\<lambda>(i, data). eth_call vault data) calls)
      (qs @ replicate (length rs) None) diag) = qs @ map (single_quote kec uni eth_call vault) rs"
  using assms
proof (induction rs arbitrary: pre qs calls dg diag)
  case Nil
  then show ?case by simp
next
  case (Cons r rs)
  show ?case
  proof (cases "req_calldata kec r")
    case (Inl err)
    then obtain dg' where c: "calls = fst (encode_requests kec (length (pre @ [r])) rs dg')"
      using Cons.prems by simp
    from Cons.IH[OF c, of "qs @ [None]" diag] Cons.prems Inl show ?thesis
      by (simp add: single_quote_calldata)
  next
    case (Inr data)
    obtain calls' where c: "calls' = fst (encode_requests kec (length (pre @ [r])) rs dg)" "calls = (length pre, data) # calls'"
      using Cons.prems Inr by (simp split: prod.splits)
    obtain q dg' where q: "decode_balancer_rpc_result uni (eth_call vault data) (req_amount r) diag = (q, dg')" by (metis surj_pair)
    then have "q = single_quote kec uni eth_call vault r"
      using fst_rpc_result[of uni "eth_call vault data" "req_amount r" diag] Inr by (simp add: single_quote_calldata)
    then show ?thesis unfolding c(2)
      using Cons.IH[OF c(1), of "qs @ [q]" dg'] Cons.prems(2) q by (simp add: list_update_append)
  qed
qed

text \<open>When the node answers a batch call by call, the batch gives every request exactly what a
  request of its own would: a malformed request leaves only its own slot empty and shifts no other answer.\<close>

theorem batch_is_single_quotes:
  assumes "\<And>cs. eth_call_batch cs = map (\<lambda>(v, data). eth_call v data) cs"
  shows "fst (quote_balancer_given_in_many kec uni eth_call_batch vault reqs diag) =
    map (single_quote kec uni eth_call vault) reqs"
proof -
  obtain calls dg where c: "encode_requests kec 0 reqs diag = (calls, dg)" by (metis surj_pair)
  have r: "eth_call_batch (map (\<lambda>(i, data). (vault, data)) calls) = map (\<lambda>(i, data). eth_call vault data) calls"
    using assms by (auto simp: comp_def)
  have "fst (place_results uni ([] @ reqs) (map fst calls) (map (\<lambda>(i, data). eth_call vault data) calls)
      ([] @ replicate (length reqs) None) dg) = [] @ map (single_quote kec uni eth_call vault) reqs"
    by (rule place_results_singles[where dg = diag]) (simp_all add: c)
  then show ?thesis
    using c by (auto simp: quote_balancer_given_in_many_def Let_def r split: prod.splits)
qed

section \<open>The call data of a quote\<close>

definition query_words :: "bytes \<Rightarrow> string \<Rightarrow> string \<Rightarrow> int \<Rightarrow> bytes list" where
  "query_words pid tin tout amount =
     map (to_be 32) [0, 224, 480, 0, 0, 0, 0, 1, 32] @ [pid] @ map (to_be 32) [0, 1, nat amount, 160, 0, 2]
     @ map (\<lambda>a. replicate 12 0 @ addr_bytes a) [tin, tout]"

lemma enc_small: "n < 1000 \<Longrightarrow> enc_uint (int n) = Inr (to_be 32 n)"
  using enc_uint_ok[of "int n"] by (simp add: uint256_def)

lemma enc_consts:
  "enc_uint 0 = Inr (to_be 32 0)" "enc_uint 1 = Inr (to_be 32 1)" "enc_uint 2 = Inr (to_be 32 2)"
  "enc_uint 32 = Inr (to_be 32 32)" "enc_uint 160 = Inr (to_be 32 160)" "enc_uint 224 = Inr (to_be 32 224)"
  "enc_uint 480 = Inr (to_be 32 480)"
  using enc_small[of 0] enc_small[of 1] enc_small[of 2] enc_small[of 32] enc_small[of 160] enc_small[of 224] enc_small[of 480]
  by simp_all

lemma zero_address_word: "is_addr zero_address" "enc_address zero_address = Inr (to_be 32 0)"
proof -
  have z: "zero_address = ''0x'' @ hex_of (replicate 20 0)"
    by (simp only: hex_of_zeros zero_address_def) simp
  show a: "is_addr zero_address" unfolding z by (rule is_addr_hex_of) simp
  have "addr_bytes zero_address = replicate 20 0" unfolding z by (rule addr_bytes_hex_of)
  then show "enc_address zero_address = Inr (to_be 32 0)"
    using enc_address_ok[OF a] by (simp add: to_be_zero replicate_add[symmetric])
qed

lemma swap_step_ok:
  assumes "length pid = 32" and "uint256 amount"
  shows "swap_step pid amount = Inr (pid @ concat (map (to_be 32) [0, 1, nat amount, 160, 0]))"
  using assms by (simp add: swap_step_def enc_bytes32_def enc_bytes_dyn_def pad32_def enc_consts enc_uint_ok)

lemma build_query_ok:
  assumes "length pid = 32" and "is_addr tin" and "is_addr tout" and "0 < amount" and "uint256 amount"
  shows "build_balancer_query_batchswap_calldata kec (''0x'' @ hex_of pid) tin tout amount =
      Inr (''0x'' @ hex_of (selector kec QUERY_SIG @ concat (query_words pid tin tout amount)))"
  using assms
  by (simp add: build_balancer_query_batchswap_calldata_def bytes_simps Let_def swap_step_ok enc_consts zero_address_word
      enc_bool_def enc_address_ok query_words_def is_addr_bytes del: append_Cons)

text \<open>The call data of a quote is the selector and exactly eighteen words: the swap kind, the two
  offsets (224 to the swaps, 480 to the assets), the four words of the zero fund management, one step whose
  offset is 32 holding the pool id, asset indices 0 and 1, the amount, an offset of 160 to empty user data,
  and the two token addresses.\<close>

theorem query_calldata_layout:
  assumes "length pid = 32" and "is_addr tin" and "is_addr tout" and "0 < amount" and "uint256 amount"
  shows "build_balancer_query_batchswap_calldata kec (''0x'' @ hex_of pid) tin tout amount =
      Inr (''0x'' @ hex_of (selector kec QUERY_SIG @ concat (query_words pid tin tout amount))) \<and>
    length (concat (query_words pid tin tout amount)) = 32 * 18"
  using build_query_ok[OF assms] assms by (simp add: query_words_def is_addr_bytes)

theorem query_calldata_layout_witness:
  "build_balancer_query_batchswap_calldata (\<lambda>d. replicate 32 7) (''0x'' @ hex_of (replicate 32 9))
      (''0x'' @ hex_of (replicate 20 1)) (''0x'' @ hex_of (replicate 20 2)) 5 =
    Inr (''0x'' @ hex_of (selector (\<lambda>d. replicate 32 7) QUERY_SIG @
      concat (query_words (replicate 32 9) (''0x'' @ hex_of (replicate 20 1)) (''0x'' @ hex_of (replicate 20 2)) 5)))"
  using query_calldata_layout[of "replicate 32 9" "''0x'' @ hex_of (replicate 20 1)" "''0x'' @ hex_of (replicate 20 2)" 5]
  by (simp add: is_addr_hex_of uint256_def del: append_Cons)

section \<open>Quotes that arrive inside a revert\<close>

lemma is_hex_char_plain:
  assumes "is_hex_char c"
  shows "\<not> is_space c" and "c \<notin> set EDGE_CHARS" and "c \<notin> {CHR '','', CHR '';''}"
proof -
  let ?n = "of_char c :: nat"
  have n: "48 \<le> ?n \<and> ?n \<le> 57 \<or> 97 \<le> ?n \<and> ?n \<le> 122 \<or> 65 \<le> ?n \<and> ?n \<le> 90"
    using assms by (auto simp: is_hex_char_def digit_val_def Let_def split: if_splits)
  then show "\<not> is_space c" by (auto simp: is_space_def Let_def)
  show "c \<notin> set EDGE_CHARS" "c \<notin> {CHR '','', CHR '';''}" using n by (auto simp: EDGE_CHARS_def)
qed

lemma is_hex_char_hex_of: "c \<in> set (hex_of bs) \<Longrightarrow> is_hex_char c"
  using all_hex_hex_of[of bs] by (simp add: all_hex_def is_hex_char_def list_all_iff)

lemma drop_none: "(\<And>c. c \<in> set s \<Longrightarrow> \<not> P c) \<Longrightarrow> dropWhile P s = s"
  by (cases s) auto

lemma rstrip_none: "(\<And>c. c \<in> set s \<Longrightarrow> c \<notin> set cs) \<Longrightarrow> rstrip_of cs s = s"
  using drop_none[of "rev s" "\<lambda>c. c \<in> set cs"] by (simp add: rstrip_of_def)

lemma iter_text_payload:
  assumes "4 \<le> length bs" and "length bs \<le> 4000"
  shows "\<exists>rest. iter_text_hex_payloads (''0x'' @ hex_of bs) = (''0x'' @ hex_of bs) # rest"
proof -
  let ?s = "''0x'' @ hex_of bs"
  have x: "\<not> is_space c \<and> c \<notin> set EDGE_CHARS \<and> c \<notin> set '',;''" if "c \<in> set ?s" for c
  proof -
    from that have "c = CHR ''x'' \<or> is_hex_char c"
      using is_hex_char_hex_of[of c bs] by (auto simp: is_hex_char_def digit_val_def)
    then show ?thesis using is_hex_char_plain[of c] by (auto simp: is_space_def EDGE_CHARS_def)
  qed
  have "take 8192 ?s = ?s" using assms by simp
  moreover have "strip ?s = ?s" using x by (intro strip_no_space) blast
  moreover have "dropWhile (\<lambda>c. c \<in> set EDGE_CHARS) ?s = ?s" using x by (intro drop_none) blast
  moreover have "rstrip_of EDGE_CHARS ?s = ?s" using x by (intro rstrip_none) blast
  moreover have "takeWhile (\<lambda>c. \<not> is_space c) ?s = ?s" using x by (simp only: takeWhile_eq_all_conv) blast
  moreover have "rstrip_of '',;'' ?s = ?s" using x by (intro rstrip_none) blast
  moreover have "is_hex_payload ?s"
    using assms is_hex_char_hex_of by (simp add: is_hex_payload_def list_all_iff)
  moreover have "starts_with ''0x'' ?s" by (simp add: starts_with_def)
  ultimately show ?thesis by (simp only: iter_text_hex_payloads_def leading_hex_payload_def Let_def) simp
qed

lemma error_hex_head:
  "iter_error_children (PDict e) = PStr s # cs \<Longrightarrow> iter_text_hex_payloads s = s # rest \<Longrightarrow>
     \<exists>rest'. iter_error_hex_payloads (PDict e) = s # rest'"
  by (simp add: iter_error_hex_payloads_def numeral_eq_Suc)

lemma length_query_error: "length (QUERY_ERROR_SELECTOR @ query_error_body ds) = 36 + 32 * length ds"
  by (simp add: QUERY_ERROR_SELECTOR_def query_error_body_def length_words_const)

lemma decode_query_error_encoded:
  assumes "list_all int256 ds" and "2 \<le> length ds" and "length ds \<le> 64"
  shows "decode_query_error_candidate (''0x'' @ hex_of (QUERY_ERROR_SELECTOR @ query_error_body ds)) = (Some ds, True)"
proof -
  have "take 4 (QUERY_ERROR_SELECTOR @ x) = QUERY_ERROR_SELECTOR" "drop 4 (QUERY_ERROR_SELECTOR @ x) = x" for x
    by (simp_all add: QUERY_ERROR_SELECTOR_def)
  then show ?thesis
    unfolding decode_query_error_candidate_def Let_def strip_0x_hex fromhex_hex_of option.case
    using length_query_error[of ds] decode_query_error_body_complete[OF assms] by simp
qed

text \<open>A simulated swap that reverts with \<open>QueryError\<close> still quotes: when the \<open>data\<close> field of the
  JSON-RPC error is the hexadecimal of the selector, the count and the deltas \<open>[amount, -q]\<close>, the result is
  a quote of \<open>q\<close>, counted as a decoded revert and not as a failure, whatever else the error object holds.\<close>

theorem query_revert_roundtrip:
  assumes "\<not> rr_ok r" and "rr_error r = PDict e"
    and "map_of e ''data'' = Some (PStr (''0x'' @ hex_of (QUERY_ERROR_SELECTOR @ query_error_body [amount, - q])))"
    and "0 < amount" and "amount < 2 ^ 255" and "0 < q" and "q \<le> 2 ^ 255"
  shows "decode_balancer_rpc_result uni r amount diag = (Some q, record_query_revert_decoded diag)"
proof -
  let ?s = "''0x'' @ hex_of (QUERY_ERROR_SELECTOR @ query_error_body [amount, - q])"
  have l: "length (QUERY_ERROR_SELECTOR @ query_error_body [amount, - q]) = 100" by (simp only: length_query_error) simp
  then obtain rest where i: "iter_text_hex_payloads ?s = ?s # rest"
    using iter_text_payload[of "QUERY_ERROR_SELECTOR @ query_error_body [amount, - q]"] by auto
  have "iter_error_children (PDict e) = PStr ?s # tl (iter_error_children (PDict e))"
    using assms(3) by (simp add: iter_error_children_def preferred_error_children_def PREFERRED_KEYS_def dget_def dget_or_def)
  then obtain rest' where p: "iter_error_hex_payloads (rr_error r) = ?s # rest'"
    unfolding assms(2) using error_hex_head[OF _ i] by blast
  have "decode_query_error_candidate ?s = (Some [amount, - q], True)"
    using assms(4-7) by (intro decode_query_error_encoded) (simp_all add: int256_def)
  then have "decode_query_batch_swap_error (rr_error r) = (Some [amount, - q], True)"
    unfolding decode_query_batch_swap_error_def p scan_candidates.simps by simp
  moreover have "quote_from_deltas [amount, - q] amount diag = (Some q, diag)"
    using assms(4,6) by (simp add: quote_from_deltas_def)
  ultimately show ?thesis using assms(1) by (simp add: decode_balancer_rpc_result_def)
qed

theorem query_revert_roundtrip_witness:
  "decode_balancer_rpc_result (\<lambda>n. False)
      \<lparr>rr_ok = False, rr_result = PNone, rr_error = PDict [(''code'', PInt 3), (''data'',
        PStr (''0x'' @ hex_of (QUERY_ERROR_SELECTOR @ query_error_body [5, - 7])))]\<rparr>
      5 (Some \<lparr>qd_failures = [], qd_decoded = 0\<rparr>) = (Some 7, Some \<lparr>qd_failures = [], qd_decoded = 1\<rparr>)"
  by (subst query_revert_roundtrip[where q = 7 and e = "[(''code'', PInt 3), (''data'',
        PStr (''0x'' @ hex_of (QUERY_ERROR_SELECTOR @ query_error_body [5, - 7])))]"])
     (simp_all add: record_query_revert_decoded_def)

section \<open>Concrete quotes\<close>

definition demo_request :: quote_req where
  "demo_request = (''0x'' @ hex_of (replicate 32 9), ''0x'' @ hex_of (replicate 20 1), ''0x'' @ hex_of (replicate 20 2), 5)"

definition demo_node :: "string \<Rightarrow> string \<Rightarrow> rpc_result" where
  "demo_node vault data = \<lparr>rr_ok = True, rr_result = PStr (''0x'' @ hex_of (balancer_return [5, - 7])), rr_error = PNone\<rparr>"

lemma demo_answer: "decode_balancer_rpc_result uni (demo_node vault data) 5 diag = (Some 7, diag)"
proof -
  have "decode_balancer_swap_deltas (''0x'' @ hex_of (balancer_return [5, - 7])) = Inr [5, - 7]"
    by (rule decode_deltas_complete) (simp only: strip_0x_hex fromhex_hex_of, simp add: int256_def)
  then show ?thesis
    by (simp add: decode_balancer_rpc_result_def demo_node_def quote_from_deltas_def del: append_Cons)
qed

lemma demo_request_quote:
  "quote_balancer_given_in kec uni demo_node vault (''0x'' @ hex_of (replicate 32 9)) (''0x'' @ hex_of (replicate 20 1))
     (''0x'' @ hex_of (replicate 20 2)) 5 diag = (Some 7, diag)"
  by (simp add: quote_balancer_given_in_def build_query_ok is_addr_hex_of uint256_def demo_answer del: append_Cons)

theorem balancer_quote_sound_witness:
  "\<exists>data. build_balancer_query_batchswap_calldata keccak256_pure (''0x'' @ hex_of (replicate 32 9)) (''0x'' @ hex_of (replicate 20 1))
       (''0x'' @ hex_of (replicate 20 2)) 5 = Inr data \<and> answer_carries (demo_node ''0xba12'' data) [5, - 7]"
  using balancer_quote_sound[OF demo_request_quote] by blast

lemma malformed_pool_id: "build_balancer_query_batchswap_calldata kec ''0xzz'' tin tout amount = Inl ValueError"
  by (simp add: build_balancer_query_batchswap_calldata_def abi_strip_0x_def starts_with_def fromhex_res_def digit_val_def is_ascii_space_def)

lemma malformed_single: "single_quote kec uni call vault (''0xzz'', tin, tout, amount) = None"
  by (simp add: single_quote_def quote_balancer_given_in_def malformed_pool_id)

lemma demo_request_single: "single_quote kec uni demo_node vault demo_request = Some 7"
  by (simp add: single_quote_def demo_request_def demo_request_quote del: append_Cons)

theorem batch_is_single_quotes_witness:
  "fst (quote_balancer_given_in_many keccak256_pure (\<lambda>n. False) (map (\<lambda>(v, data). demo_node v data)) ''0xba12'' [(''0xzz'', [], [], 5), demo_request] None) =
    [None, Some 7]"
  by (subst batch_is_single_quotes[where eth_call = demo_node])
     (simp_all add: demo_request_single malformed_single del: append_Cons)

end
