(* ===== verification/Route_Encoding.thy ===== *)
theory Route_Encoding
  imports Eth_Abi
begin

text \<open>
  \<open>route_encoding.py\<close>: the versioned byte encoding of a route and the route id, its hash. The
  encoding is shown to be injective up to the letter case of addresses and the width of the
  auxiliary word, so two routes with one id either collide in the hash or are the same route.
\<close>

section \<open>Encoding\<close>

definition DEX_ID :: "string \<Rightarrow> nat option" where
  "DEX_ID = map_of [(''constant_product'', 8), (''univ3'', 1), (''curve'', 2), (''balancer'', 3),
     (''aerodrome'', 4), (''slipstream'', 5), (''camelot_algebra'', 6), (''camelot_v2'', 7)]"

record enc_leg =
  el_dex :: string
  el_venue :: string
  el_token_in :: string
  el_token_out :: string
  el_aux :: string

definition addr20 :: "string \<Rightarrow> bytes res" where
  "addr20 addr =
     (let a = strip_0x_lower (lower addr); b = (if length a \<noteq> 40 then rjust 40 (CHR ''0'') a else a)
      in fromhex_res b)"

definition fit32 :: "bytes \<Rightarrow> bytes" where
  "fit32 raw = (if length raw = 32 then raw
     else if 32 < length raw then drop (length raw - 32) raw else rjust 32 0 raw)"

definition b32 :: "string \<Rightarrow> bytes res" where
  "b32 aux_hex =
     (let h = strip_0x_lower (lower aux_hex) in
      if h = [] then Inr (replicate 32 0) else rbind (fromhex_res h) (\<lambda>raw. Inr (fit32 raw)))"

definition encode_leg :: "enc_leg \<Rightarrow> bytes res" where
  "encode_leg leg =
     (case DEX_ID (el_dex leg) of
        None \<Rightarrow> Inl ValueError
      | Some dex_id \<Rightarrow>
          if dex_id = 0 then Inl ValueError
          else rbind (addr20 (el_venue leg)) (\<lambda>v.
               rbind (addr20 (el_token_in leg)) (\<lambda>ti.
               rbind (addr20 (el_token_out leg)) (\<lambda>to.
               rbind (b32 (el_aux leg)) (\<lambda>a.
               Inr ([of_nat dex_id] @ v @ ti @ to @ a))))))"

definition encode_route :: "enc_leg list \<Rightarrow> bytes res" where
  "encode_route legs =
     (if 255 < length legs then Inl ValueError
      else rbind (mapr encode_leg legs) (\<lambda>ls. Inr ([0x01, of_nat (length legs)] @ concat ls)))"

definition route_id_hex :: "(bytes \<Rightarrow> bytes) \<Rightarrow> enc_leg list \<Rightarrow> string res" where
  "route_id_hex kec legs = rbind (encode_route legs) (\<lambda>b. Inr (''0x'' @ hex_of (kec b)))"

section \<open>Valid legs\<close>

text \<open>A leg whose encoding is defined and 93 bytes wide, and what of it the encoding keeps.\<close>

definition is_aux :: "string \<Rightarrow> bool" where
  "is_aux h \<longleftrightarrow> all_hex (strip_0x_lower (lower h)) \<and> even (length (strip_0x_lower (lower h)))"

definition valid_leg :: "enc_leg \<Rightarrow> bool" where
  "valid_leg leg \<longleftrightarrow> DEX_ID (el_dex leg) \<noteq> None \<and> is_addr (el_venue leg) \<and> is_addr (el_token_in leg)
     \<and> is_addr (el_token_out leg) \<and> is_aux (el_aux leg)"

definition aux_word :: "string \<Rightarrow> bytes" where
  "aux_word h = (case b32 h of Inr w \<Rightarrow> w | Inl e \<Rightarrow> [])"

definition canon_leg :: "enc_leg \<Rightarrow> string \<times> string \<times> string \<times> string \<times> bytes" where
  "canon_leg leg = (el_dex leg, lower (el_venue leg), lower (el_token_in leg),
     lower (el_token_out leg), aux_word (el_aux leg))"

lemma DEX_ID_cases:
  assumes "DEX_ID d = Some n"
  shows "d \<in> {''constant_product'', ''univ3'', ''curve'', ''balancer'', ''aerodrome'', ''slipstream'',
     ''camelot_algebra'', ''camelot_v2''}" and "0 < n" and "n < 9"
  using assms by (auto simp: DEX_ID_def split: if_splits)

lemma DEX_ID_inj: "DEX_ID d = Some n \<Longrightarrow> DEX_ID e = Some n \<Longrightarrow> d = e"
  by (auto simp: DEX_ID_def split: if_splits)

lemma strip_0x_lower_addr: "is_addr a \<Longrightarrow> strip_0x_lower (lower a) = hex_of (addr_bytes a)"
  by (simp add: strip_0x_lower_def is_addr_bytes(2) starts_with_def)

lemma addr20_ok: "is_addr a \<Longrightarrow> addr20 a = Inr (addr_bytes a)"
  by (simp add: addr20_def strip_0x_lower_addr is_addr_bytes(1) bytes_simps)

lemma length_fit32 [simp]: "length (fit32 raw) = 32"
  by (simp add: fit32_def)

lemma b32_ok:
  assumes "is_aux h"
  shows "b32 h = Inr (aux_word h)" and "length (aux_word h) = 32"
proof -
  let ?s = "strip_0x_lower (lower h)"
  obtain raw where "fromhex ?s = Some raw"
    using fromhex_all_hex[of ?s] assms by (auto simp: is_aux_def)
  then show "b32 h = Inr (aux_word h)" "length (aux_word h) = 32"
    by (simp_all add: aux_word_def b32_def fromhex_res_def Let_def)
qed

definition leg_bytes :: "enc_leg \<Rightarrow> bytes" where
  "leg_bytes leg = [of_nat (the (DEX_ID (el_dex leg)))] @ addr_bytes (el_venue leg) @
     addr_bytes (el_token_in leg) @ addr_bytes (el_token_out leg) @ aux_word (el_aux leg)"

lemma encode_leg_ok: "valid_leg leg \<Longrightarrow> encode_leg leg = Inr (leg_bytes leg)"
  by (auto simp: valid_leg_def encode_leg_def leg_bytes_def addr20_ok b32_ok dest: DEX_ID_cases(2))

lemma length_leg_bytes: "valid_leg leg \<Longrightarrow> length (leg_bytes leg) = 93"
  by (simp add: leg_bytes_def valid_leg_def is_addr_bytes b32_ok)

lemma dex_byte_inj:
  assumes "DEX_ID d = Some m" and "DEX_ID e = Some n" and "(of_nat m :: byte) = of_nat n"
  shows "d = e"
proof -
  have "m < 256" "n < 256" using DEX_ID_cases(3)[OF assms(1)] DEX_ID_cases(3)[OF assms(2)] by simp_all
  with assms(3) have "m = n" by (metis mod_less unat_of_nat_byte)
  with assms show ?thesis by (simp add: DEX_ID_inj)
qed

lemma leg_bytes_inj:
  assumes "valid_leg a" and "valid_leg b"
  shows "leg_bytes a = leg_bytes b \<longleftrightarrow> canon_leg a = canon_leg b"
proof
  assume eq: "leg_bytes a = leg_bytes b"
  obtain m n where m: "DEX_ID (el_dex a) = Some m" and n: "DEX_ID (el_dex b) = Some n"
    using assms by (auto simp: valid_leg_def)
  from assms have l: "length (addr_bytes (el_venue a)) = length (addr_bytes (el_venue b))"
      "length (addr_bytes (el_token_in a)) = length (addr_bytes (el_token_in b))"
      "length (addr_bytes (el_token_out a)) = length (addr_bytes (el_token_out b))"
    by (simp_all add: valid_leg_def is_addr_bytes)
  with eq m n have "(of_nat m :: byte) = of_nat n" "addr_bytes (el_venue a) = addr_bytes (el_venue b)"
      "addr_bytes (el_token_in a) = addr_bytes (el_token_in b)"
      "addr_bytes (el_token_out a) = addr_bytes (el_token_out b)"
      "aux_word (el_aux a) = aux_word (el_aux b)"
    by (simp_all add: leg_bytes_def)
  with assms m n show "canon_leg a = canon_leg b"
    by (simp add: canon_leg_def valid_leg_def addr_bytes_inj dex_byte_inj)
next
  assume "canon_leg a = canon_leg b"
  with assms show "leg_bytes a = leg_bytes b"
    by (simp add: canon_leg_def leg_bytes_def valid_leg_def flip: addr_bytes_inj)
qed

lemma encode_route_ok:
  assumes "\<forall>l \<in> set legs. valid_leg l" and "length legs \<le> 255"
  shows "encode_route legs = Inr ([0x01, of_nat (length legs)] @ concat (map leg_bytes legs))"
proof -
  have "mapr encode_leg legs = Inr (map leg_bytes legs)"
    using assms(1) by (intro mapr_Inr_map) (simp add: encode_leg_ok)
  with assms(2) show ?thesis by (simp add: encode_route_def)
qed

lemma concat_fixed_inj:
  assumes "\<forall>x \<in> set xs \<union> set ys. length (f x) = k" and "0 < k"
    and "concat (map f xs) = concat (map f ys)"
  shows "map f xs = map f ys"
  using assms
proof (induction xs arbitrary: ys)
  case Nil
  then show ?case by (cases ys) auto
next
  case (Cons x xs)
  then obtain y ys' where ys: "ys = y # ys'" by (cases ys) auto
  with Cons.prems have "f x = f y" "concat (map f xs) = concat (map f ys')" by auto
  with Cons ys show ?case by auto
qed

section \<open>Properties\<close>

text \<open>C23: the route encoding is injective up to address letter case: two valid routes of at most
  255 legs have the same bytes exactly when they have the same legs, in the same order, with the
  same DEX, addresses equal ignoring case and the same 32-byte auxiliary word.\<close>

theorem encode_route_injective:
  assumes "\<forall>l \<in> set as. valid_leg l" and "\<forall>l \<in> set bs. valid_leg l"
    and "length as \<le> 255" and "length bs \<le> 255"
  shows "encode_route as = encode_route bs \<longleftrightarrow> map canon_leg as = map canon_leg bs"
proof
  assume "encode_route as = encode_route bs"
  then have "concat (map leg_bytes as) = concat (map leg_bytes bs)"
    using assms by (simp add: encode_route_ok)
  then have eq: "map leg_bytes as = map leg_bytes bs"
    using assms by (intro concat_fixed_inj[where k = 93]) (auto simp: length_leg_bytes)
  then have len: "length as = length bs" by (metis length_map)
  show "map canon_leg as = map canon_leg bs"
  proof (rule nth_equalityI)
    fix i assume "i < length (map canon_leg as)"
    with len have i: "i < length as" "i < length bs" by simp_all
    with eq have "leg_bytes (as ! i) = leg_bytes (bs ! i)" by (metis nth_map)
    with assms i show "map canon_leg as ! i = map canon_leg bs ! i" by (simp add: leg_bytes_inj)
  qed (simp add: len)
next
  assume eq: "map canon_leg as = map canon_leg bs"
  then have len: "length as = length bs" by (metis length_map)
  have "map leg_bytes as = map leg_bytes bs"
  proof (rule nth_equalityI)
    fix i assume "i < length (map leg_bytes as)"
    with len have i: "i < length as" "i < length bs" by simp_all
    with eq have "canon_leg (as ! i) = canon_leg (bs ! i)" by (metis nth_map)
    with assms i show "map leg_bytes as ! i = map leg_bytes bs ! i" by (simp add: leg_bytes_inj)
  qed (simp add: len)
  with len show "encode_route as = encode_route bs"
    using assms by (simp add: encode_route_ok)
qed

definition demo_leg :: "byte \<Rightarrow> enc_leg" where
  "demo_leg v = \<lparr>el_dex = ''curve'', el_venue = ''0x'' @ hex_of (replicate 20 v),
     el_token_in = ''0x'' @ hex_of (replicate 20 1),
     el_token_out = ''0x'' @ hex_of (replicate 20 2), el_aux = ''0x''\<rparr>"

lemma valid_demo_leg: "valid_leg (demo_leg v)"
  unfolding valid_leg_def demo_leg_def enc_leg.simps
  by (intro conjI is_addr_hex_of)
     (simp_all add: DEX_ID_def is_aux_def all_hex_def strip_0x_lower_def starts_with_def lower_char_def)

theorem encode_route_injective_witness:
  "encode_route [demo_leg 7, demo_leg 8] = encode_route [demo_leg 7, demo_leg 9] \<longleftrightarrow>
     map canon_leg [demo_leg 7, demo_leg 8] = map canon_leg [demo_leg 7, demo_leg 9]"
  by (rule encode_route_injective) (simp_all add: valid_demo_leg)

text \<open>A valid route of n legs, n at most 255, encodes without error to 2 + 93 n bytes that
  start with the version byte and n; a longer route and a route with an unknown DEX are errors.\<close>

theorem encode_route_shape:
  "((\<forall>l \<in> set legs. valid_leg l) \<and> length legs \<le> 255 \<longrightarrow>
      (\<exists>b. encode_route legs = Inr ([0x01, of_nat (length legs)] @ b) \<and> length b = 93 * length legs))
   \<and> (255 < length legs \<longrightarrow> encode_route legs = Inl ValueError)
   \<and> (\<forall>b l. encode_route legs = Inr b \<and> l \<in> set legs \<longrightarrow> DEX_ID (el_dex l) \<noteq> None)"
proof (intro conjI impI allI)
  assume v: "(\<forall>l \<in> set legs. valid_leg l) \<and> length legs \<le> 255"
  have "length (concat (map leg_bytes legs)) = 93 * length legs"
    using v by (induction legs) (simp_all add: length_leg_bytes)
  with v show "\<exists>b. encode_route legs = Inr ([0x01, of_nat (length legs)] @ b) \<and> length b = 93 * length legs"
    by (auto simp: encode_route_ok)
next
  fix b l assume a: "encode_route legs = Inr b \<and> l \<in> set legs"
  then obtain ls where "mapr encode_leg legs = Inr ls"
    by (auto simp: encode_route_def rbind_eq_Inr split: if_splits)
  with a obtain w where "encode_leg l = Inr w"
    by (metis in_set_conv_nth mapr_nth)
  then show "DEX_ID (el_dex l) \<noteq> None" by (auto simp: encode_leg_def split: option.splits)
qed (simp add: encode_route_def)

theorem encode_route_shape_witness:
  "\<exists>b. encode_route [demo_leg 7] = Inr ([0x01, of_nat (length [demo_leg 7])] @ b)
     \<and> length b = 93 * length [demo_leg 7]"
  using encode_route_shape[of "[demo_leg 7]"] valid_demo_leg by simp

context hash32
begin

lemma route_id_hex_length: "route_id_hex kec legs = Inr rid \<Longrightarrow> length rid = 66"
  by (auto simp: route_id_hex_def rbind_eq_Inr hash_length)

lemma route_id_hex_bytes: "route_id_hex kec legs = Inr rid \<Longrightarrow> \<exists>h. rid = ''0x'' @ hex_of h \<and> length h = 32"
  by (auto simp: route_id_hex_def rbind_eq_Inr hash_length)

end

end
