(* ===== verification/Calldata.thy ===== *)
theory Calldata
  imports Route_Encoding Flashloan
begin

text \<open>
  \<open>calldata_builder.py\<close> (the executor's \<open>execute\<close> call) and \<open>withdraw_builder.py\<close> (its three
  withdrawal calls). A leg arrives as a dictionary, so a missing key, an unknown DEX, an amount
  that is no integer and a malformed address are all branches that raise.
\<close>

section \<open>The execute call\<close>

definition PROVIDER_ID :: "string \<Rightarrow> nat option" where
  "PROVIDER_ID = map_of [(''aave'', 1), (''balancer'', 2)]"

definition b32_from_hex :: "string \<Rightarrow> bytes res" where
  "b32_from_hex aux_hex =
     (let h = strip_0x aux_hex in
      if h = [] then Inr (replicate 32 0) else rbind (fromhex_res h) (\<lambda>raw. Inr (fit32 raw)))"

definition enc_uint8 :: "int \<Rightarrow> bytes res" where
  "enc_uint8 n = enc_uint (n mod 256)"

definition encode_leg_tuple :: "string \<Rightarrow> string \<Rightarrow> string \<Rightarrow> string \<Rightarrow> int \<Rightarrow> string \<Rightarrow> bytes res" where
  "encode_leg_tuple dex venue token_in token_out min_out aux_hex =
     (case DEX_ID dex of None \<Rightarrow> Inl KeyError
      | Some d \<Rightarrow>
          rbind (enc_uint8 (int d)) (\<lambda>w0. rbind (enc_address venue) (\<lambda>w1.
          rbind (enc_address token_in) (\<lambda>w2. rbind (enc_address token_out) (\<lambda>w3.
          rbind (enc_uint min_out) (\<lambda>w4. rbind (rbind (b32_from_hex aux_hex) enc_bytes32) (\<lambda>w5.
          Inr (w0 @ w1 @ w2 @ w3 @ w4 @ w5))))))))"

text \<open>\<open>leg[k]\<close>: a missing key raises KeyError.\<close>

definition leg_field :: "pydict \<Rightarrow> string \<Rightarrow> pyval res" where
  "leg_field leg k = (case map_of leg k of None \<Rightarrow> Inl KeyError | Some v \<Rightarrow> Inr v)"

definition leg_aux :: "pydict \<Rightarrow> string" where
  "leg_aux leg = py_str (por (dget leg ''aux'') (PStr ''0x''))"

definition encode_leg_dict :: "pydict \<Rightarrow> bytes res" where
  "encode_leg_dict leg =
     rbind (leg_field leg ''dex'') (\<lambda>dex. rbind (leg_field leg ''venue'') (\<lambda>venue.
     rbind (leg_field leg ''token_in'') (\<lambda>ti. rbind (leg_field leg ''token_out'') (\<lambda>to.
     rbind (leg_field leg ''min_out'') (\<lambda>mo. rbind (py_int mo) (\<lambda>m.
     encode_leg_tuple (py_str dex) (py_str venue) (py_str ti) (py_str to) m (leg_aux leg)))))))"

definition encode_dynamic_leg_array :: "pydict list \<Rightarrow> bytes res" where
  "encode_dynamic_leg_array legs =
     rbind (enc_uint (int (length legs))) (\<lambda>n. rbind (mapr encode_leg_dict legs) (\<lambda>ls.
     Inr (n @ concat ls)))"

definition enc_leg_of_dict :: "pydict \<Rightarrow> enc_leg res" where
  "enc_leg_of_dict l =
     rbind (leg_field l ''dex'') (\<lambda>dex. rbind (leg_field l ''venue'') (\<lambda>venue.
     rbind (leg_field l ''token_in'') (\<lambda>ti. rbind (leg_field l ''token_out'') (\<lambda>to.
     Inr \<lparr>el_dex = py_str dex, el_venue = py_str venue, el_token_in = py_str ti,
          el_token_out = py_str to, el_aux = leg_aux l\<rparr>))))"

definition EXECUTE_SIG :: "string" where
  "EXECUTE_SIG = ''execute(uint8,address,uint256,uint256,address,uint256,bytes32,(uint8,address,address,address,uint256,bytes32)[])''"

definition execute_head :: "nat \<Rightarrow> string \<Rightarrow> int \<Rightarrow> int \<Rightarrow> string \<Rightarrow> int \<Rightarrow> string \<Rightarrow> bytes res" where
  "execute_head prov_id borrow_token amount_borrow min_profit profit_to deadline rid =
     rbind (enc_uint8 (int prov_id)) (\<lambda>h0. rbind (enc_address borrow_token) (\<lambda>h1.
     rbind (enc_uint amount_borrow) (\<lambda>h2. rbind (enc_uint min_profit) (\<lambda>h3.
     rbind (enc_address profit_to) (\<lambda>h4. rbind (enc_uint deadline) (\<lambda>h5.
     rbind (rbind (fromhex_res (strip_0x rid)) enc_bytes32) (\<lambda>h6.
     rbind (enc_uint (8 * 32)) (\<lambda>h7.
     Inr (h0 @ h1 @ h2 @ h3 @ h4 @ h5 @ h6 @ h7)))))))))"

definition build_execute_calldata ::
    "(bytes \<Rightarrow> bytes) \<Rightarrow> pyval \<Rightarrow> string \<Rightarrow> int \<Rightarrow> int \<Rightarrow> string \<Rightarrow> int \<Rightarrow> pydict list \<Rightarrow> (string \<times> string) res" where
  "build_execute_calldata kec provider borrow_token amount_borrow min_profit profit_to deadline legs =
     (let normalized_provider = normalize_flashloan_provider provider in
      if \<not> is_executable_flashloan_provider (PStr normalized_provider) then Inl ValueError
      else (case PROVIDER_ID normalized_provider of None \<Rightarrow> Inl KeyError
       | Some prov_id \<Rightarrow>
           rbind (mapr enc_leg_of_dict legs) (\<lambda>enc_legs_for_id.
           rbind (route_id_hex kec enc_legs_for_id) (\<lambda>rid.
           rbind (encode_dynamic_leg_array legs) (\<lambda>legs_blob.
           rbind (execute_head prov_id borrow_token amount_borrow min_profit profit_to deadline rid) (\<lambda>head.
           Inr (''0x'' @ hex_of (selector kec EXECUTE_SIG @ head @ legs_blob), rid)))))))"

section \<open>The withdrawal calls\<close>

definition build_set_withdrawal_allowed_calldata :: "(bytes \<Rightarrow> bytes) \<Rightarrow> string \<Rightarrow> bool \<Rightarrow> string res" where
  "build_set_withdrawal_allowed_calldata kec to allowed =
     rbind (enc_address to) (\<lambda>w0. rbind (enc_uint (if allowed then 1 else 0)) (\<lambda>w1.
     Inr (''0x'' @ hex_of (selector kec ''setWithdrawalAllowed(address,bool)'' @ w0 @ w1))))"

definition WITHDRAW_SIG :: "string" where
  "WITHDRAW_SIG = ''withdraw(address,address,uint256)''"

definition CONVERT_WITHDRAW_SIG :: "string" where
  "CONVERT_WITHDRAW_SIG =
     ''convertAndWithdraw(address,address,uint256,uint256,address,uint24,uint256)''"

definition build_withdraw_calldata :: "(bytes \<Rightarrow> bytes) \<Rightarrow> string \<Rightarrow> string \<Rightarrow> int \<Rightarrow> string res" where
  "build_withdraw_calldata kec token to amount =
     rbind (enc_address token) (\<lambda>w0. rbind (enc_address to) (\<lambda>w1. rbind (enc_uint amount) (\<lambda>w2.
     Inr (''0x'' @ hex_of (selector kec WITHDRAW_SIG @ w0 @ w1 @ w2)))))"

definition build_convert_and_withdraw_calldata ::
    "(bytes \<Rightarrow> bytes) \<Rightarrow> string \<Rightarrow> string \<Rightarrow> int \<Rightarrow> int \<Rightarrow> string \<Rightarrow> int \<Rightarrow> int \<Rightarrow> string res" where
  "build_convert_and_withdraw_calldata kec token_in token_out amount_in min_out to fee deadline =
     rbind (enc_address token_in) (\<lambda>w0. rbind (enc_address token_out) (\<lambda>w1.
     rbind (enc_uint amount_in) (\<lambda>w2. rbind (enc_uint min_out) (\<lambda>w3.
     rbind (enc_address to) (\<lambda>w4. rbind (enc_uint fee) (\<lambda>w5. rbind (enc_uint deadline) (\<lambda>w6.
     Inr (''0x'' @ hex_of (selector kec CONVERT_WITHDRAW_SIG @ w0 @ w1 @ w2 @ w3 @ w4 @ w5 @ w6)))))))))"

section \<open>Well-formed requests\<close>

definition is_aux_strict :: "string \<Rightarrow> bool" where
  "is_aux_strict h \<longleftrightarrow> all_hex (strip_0x h) \<and> even (length (strip_0x h))"

definition leg_dict_ok :: "pydict \<Rightarrow> bool" where
  "leg_dict_ok l \<longleftrightarrow>
     (case enc_leg_of_dict l of Inl e \<Rightarrow> False | Inr e \<Rightarrow> valid_leg e \<and> is_aux_strict (el_aux e)) \<and>
     (case leg_field l ''min_out'' of Inl e \<Rightarrow> False
      | Inr v \<Rightarrow> (case py_int v of Inl e \<Rightarrow> False | Inr m \<Rightarrow> uint256 m))"

lemma strip_0x_lower_strict:
  assumes "is_aux_strict h"
  shows "strip_0x_lower (lower h) = lower (strip_0x h)"
proof (cases "starts_with ''0x'' h")
  case True
  then obtain t where "h = ''0x'' @ t" by (auto simp: starts_with_iff)
  then show ?thesis by (simp add: strip_0x_def strip_0x_lower_def starts_with_def lower_char_def)
next
  case False
  have "\<not> starts_with ''0x'' (lower h)"
  proof
    assume "starts_with ''0x'' (lower h)"
    then obtain c d t where h: "h = c # d # t" and "lower_char d = CHR ''x''"
      by (cases h; cases "tl h") (auto simp: starts_with_def)
    moreover have "digit_val 16 d \<noteq> None"
      using assms False h by (simp add: is_aux_strict_def strip_0x_def all_hex_def)
    then obtain v where "digit_val 16 d = Some v" by blast
    then have "v < 16" "lower_char d = digit_char v" by (rule digit_val_lower)+
    ultimately have "digit_char v = CHR ''x''" "v < 16" by simp_all
    then have "of_char (CHR ''x'') = (if v < 10 then 48 + v else 87 + v)"
      using of_char_digit_char[of v] by simp
    with \<open>v < 16\<close> show False by (simp split: if_splits)
  qed
  with False show ?thesis by (simp add: strip_0x_def strip_0x_lower_def)
qed

text \<open>The calldata and the route id see the same auxiliary word.\<close>

lemma b32_from_hex_ok:
  assumes "is_aux_strict h"
  shows "b32_from_hex h = Inr (aux_word h)" and "length (aux_word h) = 32" and "is_aux h"
proof -
  obtain raw where raw: "fromhex (strip_0x h) = Some raw" "lower (strip_0x h) = hex_of raw"
    using fromhex_all_hex[of "strip_0x h"] assms by (auto simp: is_aux_strict_def)
  have aux: "is_aux h"
    unfolding is_aux_def strip_0x_lower_strict[OF assms] raw(2) by simp
  then show "is_aux h" and "length (aux_word h) = 32" by (simp_all add: b32_ok)
  have "strip_0x h = [] \<longleftrightarrow> hex_of raw = []" using raw(2) by (metis length_0_conv length_lower)
  then have "b32 h = b32_from_hex h"
    unfolding b32_def strip_0x_lower_strict[OF assms] raw(2) b32_from_hex_def Let_def
    by (simp add: fromhex_res_def raw(1) bytes_simps)
  with aux show "b32_from_hex h = Inr (aux_word h)" by (simp add: b32_ok)
qed

lemma enc_uint8_dex: "DEX_ID d = Some n \<Longrightarrow> enc_uint8 (int n) = Inr (to_be 32 n)"
  using DEX_ID_cases(3)[of d n] by (simp add: enc_uint8_def enc_uint_ok uint256_def)

definition leg_min_out :: "pydict \<Rightarrow> int" where
  "leg_min_out l = (case leg_field l ''min_out'' of Inl e \<Rightarrow> 0
     | Inr v \<Rightarrow> (case py_int v of Inl e \<Rightarrow> 0 | Inr m \<Rightarrow> m))"

definition leg_words :: "enc_leg \<Rightarrow> int \<Rightarrow> bytes list" where
  "leg_words e m = [to_be 32 (the (DEX_ID (el_dex e))), addr_word.word_of (el_venue e),
     addr_word.word_of (el_token_in e), addr_word.word_of (el_token_out e),
     uint_word.word_of m, aux_word (el_aux e)]"

lemma leg_dict_okE:
  assumes "leg_dict_ok l"
  obtains e where "enc_leg_of_dict l = Inr e" and "valid_leg e" and "is_aux_strict (el_aux e)"
    and "uint256 (leg_min_out l)" and "encode_leg_dict l = Inr (concat (leg_words e (leg_min_out l)))"
proof -
  obtain e v where e: "enc_leg_of_dict l = Inr e" "valid_leg e" "is_aux_strict (el_aux e)"
    and v: "leg_field l ''min_out'' = Inr v" "py_int v = Inr (leg_min_out l)" "uint256 (leg_min_out l)"
    using assms by (auto simp: leg_dict_ok_def leg_min_out_def split: sum.splits)
  obtain d where d: "DEX_ID (el_dex e) = Some d" using e(2) by (auto simp: valid_leg_def)
  have "encode_leg_tuple (el_dex e) (el_venue e) (el_token_in e) (el_token_out e) (leg_min_out l) (el_aux e)
      = Inr (concat (leg_words e (leg_min_out l)))"
    using e(2,3) v(3) d
    by (simp add: encode_leg_tuple_def leg_words_def valid_leg_def enc_uint8_dex addr_word.enc_word_of
        uint_word.enc_word_of b32_from_hex_ok enc_bytes32_def)
  then have "encode_leg_dict l = Inr (concat (leg_words e (leg_min_out l)))"
    using e(1) v by (auto simp: encode_leg_dict_def enc_leg_of_dict_def rbind_eq_Inr)
  with that e v show thesis by blast
qed

lemma length_leg_words:
  assumes "valid_leg e" and "is_aux_strict (el_aux e)" and "uint256 m"
  shows "\<forall>w \<in> set (leg_words e m). length w = 32"
  using assms by (simp add: leg_words_def valid_leg_def addr_word.length_word_of
      uint_word.length_word_of b32_from_hex_ok)

lemma encode_dynamic_leg_array_ok:
  assumes "\<forall>l \<in> set legs. leg_dict_ok l" and "length legs \<le> 255"
  shows "\<exists>ls. encode_dynamic_leg_array legs = Inr (to_be 32 (length legs) @ concat ls)
           \<and> length (concat ls) = 192 * length legs"
proof -
  have leg: "\<exists>w. encode_leg_dict l = Inr w \<and> length w = 192" if "l \<in> set legs" for l
  proof -
    from that assms(1) obtain e where "valid_leg e" "is_aux_strict (el_aux e)"
      "uint256 (leg_min_out l)" "encode_leg_dict l = Inr (concat (leg_words e (leg_min_out l)))"
      by (meson leg_dict_okE)
    moreover from this have "\<forall>w \<in> set (leg_words e (leg_min_out l)). length w = 32"
      by (simp add: length_leg_words)
    then have "length (concat (leg_words e (leg_min_out l))) = 192"
      by (simp add: leg_words_def)
    ultimately show ?thesis by blast
  qed
  define g where "g l = (case encode_leg_dict l of Inr w \<Rightarrow> w | Inl e \<Rightarrow> [])" for l
  have g: "encode_leg_dict l = Inr (g l) \<and> length (g l) = 192" if "l \<in> set legs" for l
    using leg[OF that] by (auto simp: g_def)
  have "mapr encode_leg_dict legs = Inr (map g legs)"
    using g by (intro mapr_Inr_map) simp
  moreover have "length (concat (map g legs)) = 192 * length legs"
    using g by (induction legs) simp_all
  moreover have "enc_uint (int (length legs)) = Inr (to_be 32 (length legs))"
    using assms(2) by (simp add: enc_uint_ok uint256_def)
  ultimately show ?thesis by (auto simp: encode_dynamic_leg_array_def)
qed

lemma mapr_enc_leg_ok:
  assumes "\<forall>l \<in> set legs. leg_dict_ok l"
  shows "\<exists>es. mapr enc_leg_of_dict legs = Inr es \<and> length es = length legs \<and> (\<forall>e \<in> set es. valid_leg e)"
  using assms
proof (induction legs)
  case (Cons l legs)
  then obtain es where "mapr enc_leg_of_dict legs = Inr es" "length es = length legs" "\<forall>e \<in> set es. valid_leg e"
    by auto
  moreover obtain e where "enc_leg_of_dict l = Inr e" "valid_leg e"
    using Cons.prems by (auto elim: leg_dict_okE)
  ultimately show ?case by simp
qed simp

text \<open>The eight head words, in order.\<close>

definition head_words :: "nat \<Rightarrow> string \<Rightarrow> int \<Rightarrow> int \<Rightarrow> string \<Rightarrow> int \<Rightarrow> bytes \<Rightarrow> bytes list" where
  "head_words prov_id borrow_token amount_borrow min_profit profit_to deadline rid =
     [to_be 32 prov_id, addr_word.word_of borrow_token, uint_word.word_of amount_borrow,
      uint_word.word_of min_profit, addr_word.word_of profit_to, uint_word.word_of deadline,
      rid, to_be 32 256]"

lemma execute_head_ok:
  assumes "prov_id < 256" and "is_addr borrow_token" and "uint256 amount_borrow" and "uint256 min_profit"
    and "is_addr profit_to" and "uint256 deadline" and "length h = 32"
  shows "execute_head prov_id borrow_token amount_borrow min_profit profit_to deadline (''0x'' @ hex_of h)
      = Inr (concat (head_words prov_id borrow_token amount_borrow min_profit profit_to deadline h))"
proof -
  have "strip_0x (''0x'' @ hex_of h) = hex_of h" by (simp add: strip_0x_def starts_with_def)
  moreover have "enc_uint8 (int prov_id) = Inr (to_be 32 prov_id)"
    using assms(1) by (simp add: enc_uint8_def enc_uint_ok uint256_def)
  moreover have "enc_uint (8 * 32) = Inr (to_be 32 256)"
    by (simp add: enc_uint_ok uint256_def)
  ultimately show ?thesis using assms(2-)
    by (simp add: execute_head_def head_words_def addr_word.enc_word_of uint_word.enc_word_of
        bytes_simps enc_bytes32_def del: append_Cons append.append_Nil)
qed

lemma length_head_words:
  assumes "is_addr borrow_token" and "uint256 amount_borrow" and "uint256 min_profit"
    and "is_addr profit_to" and "uint256 deadline" and "length h = 32"
  shows "\<forall>w \<in> set (head_words p borrow_token amount_borrow min_profit profit_to deadline h). length w = 32"
  using assms by (simp add: head_words_def addr_word.length_word_of uint_word.length_word_of)

text \<open>What an executor reads back: selector, eight head words, then the leg count.\<close>

definition execute_args_at :: "bytes \<Rightarrow> nat \<Rightarrow> string \<Rightarrow> int \<Rightarrow> int \<Rightarrow> string \<Rightarrow> int \<Rightarrow> bytes \<Rightarrow> nat \<Rightarrow> bool" where
  "execute_args_at raw prov_id borrow_token amount_borrow min_profit profit_to deadline rid n \<longleftrightarrow>
     word_at_off raw 4 = prov_id \<and>
     ''0x'' @ hex_of (to_be 20 (word_at_off raw 36)) = lower borrow_token \<and>
     int (word_at_off raw 68) = amount_borrow \<and>
     int (word_at_off raw 100) = min_profit \<and>
     ''0x'' @ hex_of (to_be 20 (word_at_off raw 132)) = lower profit_to \<and>
     int (word_at_off raw 164) = deadline \<and>
     to_be 32 (word_at_off raw 196) = rid \<and>
     word_at_off raw 228 = 8 * 32 \<and>
     word_at_off raw (4 + word_at_off raw 228) = n"

lemma execute_args_read:
  assumes "prov_id < 256" and "is_addr borrow_token" and "uint256 amount_borrow" and "uint256 min_profit"
    and "is_addr profit_to" and "uint256 deadline" and "length h = 32" and "n \<le> 255" and "length sel = 4"
  shows "execute_args_at (sel @ concat (head_words prov_id borrow_token amount_borrow min_profit
      profit_to deadline h) @ to_be 32 n @ tail) prov_id borrow_token amount_borrow min_profit profit_to deadline h n"
proof -
  let ?ws = "head_words prov_id borrow_token amount_borrow min_profit profit_to deadline h"
  let ?raw = "sel @ concat ?ws @ to_be 32 n @ tail"
  have len: "\<forall>w \<in> set ?ws. length w = 32" using assms by (intro length_head_words) simp_all
  have at: "word_at_off ?raw (4 + 32 * i) = from_be (?ws ! i)" if "i < 8" for i
    using that assms(9) by (intro word_at_concat[OF len]) (simp_all add: head_words_def)
  have "length (concat ?ws) = 256" using len by (simp add: head_words_def)
  then have cnt: "word_at_off ?raw 260 = n"
    using word_at_off_append[of "sel @ concat ?ws" 260 "to_be 32 n" tail] assms(8,9)
    by (simp add: from_be_to_be_mod)
  have off: "word_at_off ?raw 228 = 256"
    using at[of 7] by (simp add: head_words_def from_be_to_be_mod)
  from at[of 0] at[of 1] at[of 2] at[of 3] at[of 4] at[of 5] at[of 6] off cnt assms show ?thesis
    by (simp add: execute_args_at_def head_words_def from_be_to_be_mod addr_word.dec_word_of
        is_addr_bytes(2) uint_word.dec_word_of to_be_from_be del: append_Cons)
qed

lemma provider_id_executable:
  assumes "PROVIDER_ID n = Some pid"
  shows "n \<in> set EXECUTABLE_FLASHLOAN_PROVIDERS" and "pid < 256"
  using assms by (auto simp: PROVIDER_ID_def EXECUTABLE_FLASHLOAN_PROVIDERS_def split: if_splits)

lemma normalize_idem [simp]:
  "normalize_flashloan_provider (PStr (normalize_flashloan_provider p)) = normalize_flashloan_provider p"
  by (simp add: normalize_flashloan_provider_def)

lemma build_execute_calldata_ok:
  assumes "\<forall>d. length (kec d) = 32"
    and "PROVIDER_ID (normalize_flashloan_provider provider) = Some pid"
    and "is_addr borrow_token" and "uint256 amount_borrow" and "uint256 min_profit"
    and "is_addr profit_to" and "uint256 deadline"
    and "\<forall>l \<in> set legs. leg_dict_ok l" and "length legs \<le> 255"
  obtains h ls where "length h = 32" and "length (concat ls) = 192 * length legs"
    and "build_execute_calldata kec provider borrow_token amount_borrow min_profit profit_to deadline legs
      = Inr (''0x'' @ hex_of (selector kec EXECUTE_SIG @ concat (head_words pid borrow_token amount_borrow
          min_profit profit_to deadline h) @ to_be 32 (length legs) @ concat ls), ''0x'' @ hex_of h)"
proof -
  obtain es where es: "mapr enc_leg_of_dict legs = Inr es" "length es = length legs" "\<forall>e \<in> set es. valid_leg e"
    using mapr_enc_leg_ok[OF assms(8)] by blast
  then obtain b where b: "encode_route es = Inr b" using assms(9) by (simp add: encode_route_ok)
  obtain ls where ls: "encode_dynamic_leg_array legs = Inr (to_be 32 (length legs) @ concat ls)"
      "length (concat ls) = 192 * length legs"
    using encode_dynamic_leg_array_ok[OF assms(8,9)] by blast
  let ?ws = "head_words pid borrow_token amount_borrow min_profit profit_to deadline (kec b)"
  have exec: "is_executable_flashloan_provider (PStr (normalize_flashloan_provider provider))" and pid: "pid < 256"
    using provider_id_executable[OF assms(2)] by (simp_all add: is_executable_flashloan_provider_def)
  have head: "execute_head pid borrow_token amount_borrow min_profit profit_to deadline (''0x'' @ hex_of (kec b))
      = Inr (concat ?ws)"
    using assms pid by (intro execute_head_ok) simp_all
  show thesis
  proof (rule that)
    show "build_execute_calldata kec provider borrow_token amount_borrow min_profit profit_to deadline legs
      = Inr (''0x'' @ hex_of (selector kec EXECUTE_SIG @ concat ?ws @ to_be 32 (length legs) @ concat ls),
          ''0x'' @ hex_of (kec b))"
      unfolding build_execute_calldata_def Let_def
      using exec assms(2) es(1) b ls(1) head by (simp only: route_id_hex_def rbind_Inr) simp
  qed (simp_all add: ls assms(1))
qed

section \<open>Properties\<close>

text \<open>C22: for a supported provider and well-formed arguments and legs, \<open>build_execute_calldata\<close>
  succeeds with a payload of 4 + 8 * 32 + 32 + 192 n bytes in which an ABI reader finds every
  argument at its offset: provider id, borrow token, amount, minimum profit, profit recipient,
  deadline, the returned route id, the offset of the legs, and at that offset the leg count.\<close>

theorem build_execute_calldata_layout:
  assumes "\<forall>d. length (kec d) = 32"
    and "PROVIDER_ID (normalize_flashloan_provider provider) = Some pid"
    and "is_addr borrow_token" and "uint256 amount_borrow" and "uint256 min_profit"
    and "is_addr profit_to" and "uint256 deadline"
    and "\<forall>l \<in> set legs. leg_dict_ok l" and "length legs \<le> 255"
  shows "\<exists>raw h. build_execute_calldata kec provider borrow_token amount_borrow min_profit profit_to deadline legs
             = Inr (''0x'' @ hex_of raw, ''0x'' @ hex_of h)
           \<and> length raw = 4 + 8 * 32 + 32 + 192 * length legs
           \<and> take 4 raw = selector kec EXECUTE_SIG
           \<and> execute_args_at raw pid borrow_token amount_borrow min_profit profit_to deadline h (length legs)"
proof -
  obtain h ls where h: "length h = 32" and ls: "length (concat ls) = 192 * length legs"
    and b: "build_execute_calldata kec provider borrow_token amount_borrow min_profit profit_to deadline legs
      = Inr (''0x'' @ hex_of (selector kec EXECUTE_SIG @ concat (head_words pid borrow_token amount_borrow
          min_profit profit_to deadline h) @ to_be 32 (length legs) @ concat ls), ''0x'' @ hex_of h)"
    using build_execute_calldata_ok[OF assms] by blast
  let ?ws = "head_words pid borrow_token amount_borrow min_profit profit_to deadline h"
  let ?raw = "selector kec EXECUTE_SIG @ concat ?ws @ to_be 32 (length legs) @ concat ls"
  have sel: "length (selector kec EXECUTE_SIG) = 4" by (simp add: selector_def assms(1))
  have "length (concat ?ws) = 256"
    using length_head_words[of borrow_token amount_borrow min_profit profit_to deadline h pid] assms h
    by (simp add: head_words_def)
  then have "length ?raw = 4 + 8 * 32 + 32 + 192 * length legs" using sel ls by simp
  moreover have "execute_args_at ?raw pid borrow_token amount_borrow min_profit profit_to deadline h (length legs)"
    using assms provider_id_executable(2) sel h by (intro execute_args_read) simp_all
  moreover have "take 4 ?raw = selector kec EXECUTE_SIG" using sel by simp
  ultimately show ?thesis using b by blast
qed

definition demo_leg_dict :: "pydict" where
  "demo_leg_dict = [(''dex'', PStr ''curve''), (''venue'', PStr (''0x'' @ hex_of (replicate 20 7))),
     (''token_in'', PStr (''0x'' @ hex_of (replicate 20 1))),
     (''token_out'', PStr (''0x'' @ hex_of (replicate 20 2))), (''min_out'', PInt 9)]"

lemma demo_leg_dict_ok: "leg_dict_ok demo_leg_dict"
proof -
  have e: "enc_leg_of_dict demo_leg_dict = Inr (demo_leg 7)"
    by (simp add: enc_leg_of_dict_def leg_field_def demo_leg_dict_def demo_leg_def leg_aux_def
        dget_def dget_or_def por_def)
  have "is_aux_strict (el_aux (demo_leg 7))"
    by (simp add: demo_leg_def is_aux_strict_def strip_0x_def starts_with_def all_hex_def)
  moreover have "leg_field demo_leg_dict ''min_out'' = Inr (PInt 9)"
    by (simp add: leg_field_def demo_leg_dict_def)
  ultimately show ?thesis
    by (simp add: leg_dict_ok_def e valid_demo_leg uint256_def)
qed

theorem build_execute_calldata_layout_witness:
  "\<exists>raw h. build_execute_calldata keccak256_pure (PStr ''aave'') (''0x'' @ hex_of (replicate 20 1)) 1000 1
        (''0x'' @ hex_of (replicate 20 3)) 77 [demo_leg_dict]
      = Inr (''0x'' @ hex_of raw, ''0x'' @ hex_of h)
    \<and> length raw = 4 + 8 * 32 + 32 + 192 * length [demo_leg_dict]
    \<and> take 4 raw = selector keccak256_pure EXECUTE_SIG
    \<and> execute_args_at raw 1 (''0x'' @ hex_of (replicate 20 1)) 1000 1
        (''0x'' @ hex_of (replicate 20 3)) 77 h (length [demo_leg_dict])"
proof (rule build_execute_calldata_layout)
  show "PROVIDER_ID (normalize_flashloan_provider (PStr ''aave'')) = Some 1"
    by (simp add: PROVIDER_ID_def normalize_flashloan_provider_def strip_def is_space_def lower_char_def)
qed (simp_all add: demo_leg_dict_ok uint256_def is_addr_hex_of del: append_Cons)

text \<open>The builder fails closed on the provider: whenever the normalised label is not one of
  the executable providers it raises ValueError, whatever the other arguments are, and a payload
  that is produced carries the id of the provider that was asked for.\<close>

theorem build_execute_calldata_fails_closed:
  "(normalize_flashloan_provider provider \<notin> set EXECUTABLE_FLASHLOAN_PROVIDERS \<longrightarrow>
     build_execute_calldata kec provider bt amt mp pt dl legs = Inl ValueError) \<and>
   (\<forall>cd rid. build_execute_calldata kec provider bt amt mp pt dl legs = Inr (cd, rid) \<longrightarrow>
     normalize_flashloan_provider provider \<in> set EXECUTABLE_FLASHLOAN_PROVIDERS \<and>
     (\<exists>raw. cd = ''0x'' @ hex_of raw \<and> take 32 (drop (length (selector kec EXECUTE_SIG)) raw)
        = to_be 32 (the (PROVIDER_ID (normalize_flashloan_provider provider)))))"
proof (intro conjI impI allI)
  assume "normalize_flashloan_provider provider \<notin> set EXECUTABLE_FLASHLOAN_PROVIDERS"
  then show "build_execute_calldata kec provider bt amt mp pt dl legs = Inl ValueError"
    by (simp add: build_execute_calldata_def is_executable_flashloan_provider_def)
next
  fix cd rid
  assume b: "build_execute_calldata kec provider bt amt mp pt dl legs = Inr (cd, rid)"
  then show "normalize_flashloan_provider provider \<in> set EXECUTABLE_FLASHLOAN_PROVIDERS"
    by (auto simp: build_execute_calldata_def Let_def is_executable_flashloan_provider_def split: if_splits)
  from b obtain pid head blob where p: "PROVIDER_ID (normalize_flashloan_provider provider) = Some pid"
    and h: "execute_head pid bt amt mp pt dl rid = Inr head"
    and cd: "cd = ''0x'' @ hex_of (selector kec EXECUTE_SIG @ head @ blob)"
    by (auto simp: build_execute_calldata_def rbind_eq_Inr Let_def split: if_splits option.splits)
  have "enc_uint8 (int pid) = Inr (to_be 32 pid)"
    using provider_id_executable(2)[OF p] by (simp add: enc_uint8_def enc_uint_ok uint256_def)
  with h obtain r where "head = to_be 32 pid @ r" by (auto simp: execute_head_def rbind_eq_Inr)
  then show "\<exists>raw. cd = ''0x'' @ hex_of raw \<and> take 32 (drop (length (selector kec EXECUTE_SIG)) raw)
        = to_be 32 (the (PROVIDER_ID (normalize_flashloan_provider provider)))"
    using cd p by (intro exI[of _ "selector kec EXECUTE_SIG @ head @ blob"]) simp
qed

theorem build_execute_calldata_fails_closed_witness:
  "build_execute_calldata keccak256_pure (PStr ''dydx'') [] 0 0 [] 0 [] = Inl ValueError"
  using build_execute_calldata_fails_closed[of "PStr ''dydx''" keccak256_pure "[]" 0 0 "[]" 0 "[]"]
  by (simp add: normalize_flashloan_provider_def EXECUTABLE_FLASHLOAN_PROVIDERS_def strip_def
      is_space_def lower_char_def)

text \<open>The route id identifies the route and nothing else: two successful builds whose legs
  agree in DEX, venue, tokens and auxiliary word return the same route id, whatever their
  provider, amounts, minimum outputs, recipient and deadline.\<close>

theorem route_id_ignores_economics:
  assumes "build_execute_calldata kec p1 bt1 a1 m1 t1 d1 legs1 = Inr (cd1, rid1)"
    and "build_execute_calldata kec p2 bt2 a2 m2 t2 d2 legs2 = Inr (cd2, rid2)"
    and "mapr enc_leg_of_dict legs1 = mapr enc_leg_of_dict legs2"
  shows "rid1 = rid2"
  using assms by (auto simp: build_execute_calldata_def rbind_eq_Inr Let_def split: if_splits option.splits)

theorem route_id_ignores_economics_witness:
  "\<exists>cd1 cd2 rid1 rid2. build_execute_calldata keccak256_pure (PStr ''aave'') (''0x'' @ hex_of (replicate 20 1)) 1000 1
        (''0x'' @ hex_of (replicate 20 3)) 77 [demo_leg_dict] = Inr (cd1, rid1)
    \<and> build_execute_calldata keccak256_pure (PStr ''aave'') (''0x'' @ hex_of (replicate 20 1)) 5 6
        (''0x'' @ hex_of (replicate 20 4)) 78 [dset demo_leg_dict ''min_out'' (PInt 3)] = Inr (cd2, rid2)
    \<and> rid1 = rid2"
proof -
  let ?l = "dset demo_leg_dict ''min_out'' (PInt 3)"
  have same: "enc_leg_of_dict ?l = enc_leg_of_dict demo_leg_dict"
    by (simp add: enc_leg_of_dict_def leg_field_def leg_aux_def)
  then have ok: "leg_dict_ok ?l"
    using demo_leg_dict_ok by (simp add: leg_dict_ok_def leg_field_def uint256_def)
  have pid: "PROVIDER_ID (normalize_flashloan_provider (PStr ''aave'')) = Some 1"
    by (simp add: PROVIDER_ID_def normalize_flashloan_provider_def strip_def is_space_def lower_char_def)
  have ad: "is_addr (''0x'' @ hex_of (replicate 20 v))" for v by (rule is_addr_hex_of) simp
  have u: "uint256 1000" "uint256 1" "uint256 77" "uint256 5" "uint256 6" "uint256 78"
    by (simp_all add: uint256_def)
  obtain cd1 rid1 where b1: "build_execute_calldata keccak256_pure (PStr ''aave'') (''0x'' @ hex_of (replicate 20 1))
      1000 1 (''0x'' @ hex_of (replicate 20 3)) 77 [demo_leg_dict] = Inr (cd1, rid1)"
    using build_execute_calldata_ok[OF _ pid ad u(1,2) ad u(3), of keccak256_pure "[demo_leg_dict]" 1 3]
      demo_leg_dict_ok by (metis length_keccak256_pure empty_iff empty_set set_ConsD length_Cons list.size(3)
        le_numeral_extra(3) One_nat_def numeral_One one_le_numeral)
  obtain cd2 rid2 where b2: "build_execute_calldata keccak256_pure (PStr ''aave'') (''0x'' @ hex_of (replicate 20 1))
      5 6 (''0x'' @ hex_of (replicate 20 4)) 78 [?l] = Inr (cd2, rid2)"
    using build_execute_calldata_ok[OF _ pid ad u(4,5) ad u(6), of keccak256_pure "[?l]" 1 4]
      ok by (metis length_keccak256_pure empty_iff empty_set set_ConsD length_Cons list.size(3)
        le_numeral_extra(3) One_nat_def numeral_One one_le_numeral)
  have "rid1 = rid2" by (rule route_id_ignores_economics[OF b1 b2]) (simp add: same)
  with b1 b2 show ?thesis by blast
qed

end
