(* ===== verification/Withdrawal_Settlement.thy ===== *)
theory Withdrawal_Settlement
  imports Calldata Abi_Utils
begin

text \<open>
  \<open>external_withdrawal_settlement.py\<close>: what a mined receipt proves about an external withdrawal.
  The calldata says what was asked for, the single matching executor log what happened; only when
  both agree does an effect result, and only an effect becomes a ledger transaction.
\<close>

section \<open>Reading calldata and logs\<close>

definition WITHDRAWAL_EVENT_SIG :: string where
  "WITHDRAWAL_EVENT_SIG = ''Withdrawal(address,address,uint256)''"

definition CONVERTED_EVENT_SIG :: string where
  "CONVERTED_EVENT_SIG = ''ConvertedAndWithdrawn(address,address,uint256,uint256,address)''"

definition hex_bytes :: "pyval \<Rightarrow> bytes option" where
  "hex_bytes value =
     (let txt = strip (str_or_empty value) in
      if \<not> starts_with ''0x'' txt \<or> odd (length txt) then None else fromhex (drop 2 txt))"

definition address_of :: "pyval \<Rightarrow> string" where
  "address_of value =
     (let txt = lower (strip (str_or_empty value)) in
      if starts_with ''0x'' txt \<and> length txt = 42 \<and> fromhex (drop 2 txt) \<noteq> None then txt else [])"

definition topic_address :: "pyval \<Rightarrow> string" where
  "topic_address value =
     (let raw = abi_strip_0x (lower (strip (str_or_empty value))) in
      if length raw \<noteq> 64 \<or> fromhex raw = None then [] else ''0x'' @ drop (length raw - 40) raw)"

definition uint_word :: "bytes \<Rightarrow> nat \<Rightarrow> nat option" where
  "uint_word data index =
     (if length data < index * 32 + 32 then None else Some (from_be (take 32 (drop (index * 32) data))))"

definition calldata_words :: "string \<Rightarrow> nat \<Rightarrow> nat list option" where
  "calldata_words data count =
     (case hex_bytes (PStr data) of None \<Rightarrow> None
      | Some raw \<Rightarrow> if length raw < 4 + 32 * count then None
          else Some (map (\<lambda>i. from_be (take 32 (drop (4 + i * 32) raw))) [0..<count]))"

definition word_address :: "nat \<Rightarrow> string" where
  "word_address word = (let h = rjust 64 (CHR ''0'') (show_hex word) in ''0x'' @ drop (length h - 40) h)"

definition external_withdrawal_recipient :: "(bytes \<Rightarrow> bytes) \<Rightarrow> string \<Rightarrow> string" where
  "external_withdrawal_recipient kec calldata =
     (case hex_bytes (PStr calldata) of None \<Rightarrow> []
      | Some raw \<Rightarrow>
          if length raw < 4 then []
          else if hex_of (take 4 raw) = hex_of (selector kec WITHDRAW_SIG) then
            (case calldata_words calldata 3 of Some words \<Rightarrow> word_address (words ! 1) | None \<Rightarrow> [])
          else if hex_of (take 4 raw) = hex_of (selector kec CONVERT_WITHDRAW_SIG) then
            (case calldata_words calldata 7 of Some words \<Rightarrow> word_address (words ! 4) | None \<Rightarrow> [])
          else [])"

text \<open>In the dictionary of topics the later key wins, should both be equal.\<close>

definition destination_topic_index :: "(bytes \<Rightarrow> bytes) \<Rightarrow> string \<Rightarrow> nat option" where
  "destination_topic_index kec topic =
     (if topic = lower (topic0 kec CONVERTED_EVENT_SIG) then Some 3
      else if topic = lower (topic0 kec WITHDRAWAL_EVENT_SIG) then Some 2 else None)"

definition log_matches_withdrawal_destination :: "(bytes \<Rightarrow> bytes) \<Rightarrow> pyval \<Rightarrow> string \<Rightarrow> string \<Rightarrow> bool" where
  "log_matches_withdrawal_destination kec log executor destination =
     (case log of PDict d \<Rightarrow>
        address_of (dget d ''address'') = executor \<and>
        (case dget d ''topics'' of
           PList topics \<Rightarrow> topics \<noteq> [] \<and>
             (case destination_topic_index kec (lower (str_or_empty (topics ! 0))) of
                None \<Rightarrow> False
              | Some i \<Rightarrow> i < length topics \<and> topic_address (topics ! i) = destination)
         | _ \<Rightarrow> False)
      | _ \<Rightarrow> False)"

definition matching_logs :: "(bytes \<Rightarrow> bytes) \<Rightarrow> pydict \<Rightarrow> string \<Rightarrow> string \<Rightarrow> pyval list" where
  "matching_logs kec receipt executor destination =
     (case dget receipt ''logs'' of
        PList logs \<Rightarrow> filter (\<lambda>log. log_matches_withdrawal_destination kec log
            (address_of (PStr executor)) (address_of (PStr destination))) logs
      | _ \<Rightarrow> [])"

text \<open>
  The topics of a log, and the text of its first one; \<open>matching_logs\<close> only returns dictionaries
  whose topics are a non-empty list.
\<close>

definition log_topics :: "pyval \<Rightarrow> pyval list" where
  "log_topics log = (case dget (as_dict log) ''topics'' of PList ts \<Rightarrow> ts | _ \<Rightarrow> [])"

definition first_topic :: "pyval \<Rightarrow> string" where
  "first_topic log = (case log_topics log of [] \<Rightarrow> [] | t # ts \<Rightarrow> lower (py_str t))"

definition log_data :: "pyval \<Rightarrow> bytes" where
  "log_data log =
     (case hex_bytes (PStr (py_str (por (dget (as_dict log) ''data'') (PStr ''0x'')))) of
        None \<Rightarrow> [] | Some b \<Rightarrow> b)"

definition event_log ::
    "(bytes \<Rightarrow> bytes) \<Rightarrow> pydict \<Rightarrow> string \<Rightarrow> string \<Rightarrow> string \<Rightarrow> nat \<Rightarrow> string \<Rightarrow> string
     \<Rightarrow> string + (pyval list \<times> bytes)" where
  "event_log kec receipt executor destination event_topic topic_index missing_reason ambiguous_reason =
     (let hits = filter (\<lambda>log. first_topic log = lower event_topic)
                   (matching_logs kec receipt executor destination) in
      if length hits \<noteq> 1 then Inl (if hits \<noteq> [] then ambiguous_reason else missing_reason)
      else let topics = log_topics (hits ! 0) in
        if length topics \<le> topic_index then Inl missing_reason
        else Inr (topics, log_data (hits ! 0)))"

section \<open>What was asked for and what happened\<close>

datatype withdrawal_inputs =
    WithdrawIn (wi_token: string) (wi_destination: string) (wi_amount: nat)
  | ConvertIn (wi_token_in: string) (wi_token_out: string) (wi_amount: nat) (wi_min_out: nat)
      (wi_destination: string)

datatype withdrawal_event =
    WithdrawEv (we_token: string) (we_amount: "nat option")
  | ConvertEv (we_token_in: string) (we_token_out: string) (we_amount: "nat option")
      (we_amount_out: "nat option")

definition expected_inputs :: "nat list \<Rightarrow> bool \<Rightarrow> withdrawal_inputs" where
  "expected_inputs words converted =
     (if converted
      then ConvertIn (word_address (words ! 0)) (word_address (words ! 1)) (words ! 2) (words ! 3)
             (word_address (words ! 4))
      else WithdrawIn (word_address (words ! 0)) (word_address (words ! 1)) (words ! 2))"

definition withdrawal_inputs :: "string \<Rightarrow> string \<Rightarrow> bool \<Rightarrow> string + withdrawal_inputs" where
  "withdrawal_inputs calldata destination converted =
     (case calldata_words calldata (if converted then 7 else 3) of
        None \<Rightarrow> Inl (if converted then ''invalid_convert_withdraw_calldata'' else ''invalid_withdraw_calldata'')
      | Some words \<Rightarrow>
          let expected = expected_inputs words converted in
          if wi_destination expected \<noteq> destination then Inl ''calldata_destination_mismatch''
          else if wi_amount expected = 0
          then Inl (if converted then ''invalid_convert_amount_in'' else ''invalid_withdraw_amount'')
          else Inr expected)"

definition withdrawal_event ::
    "(bytes \<Rightarrow> bytes) \<Rightarrow> pydict \<Rightarrow> string \<Rightarrow> string \<Rightarrow> bool \<Rightarrow> string + withdrawal_event" where
  "withdrawal_event kec receipt executor destination converted =
     (case event_log kec receipt executor destination
        (topic0 kec (if converted then CONVERTED_EVENT_SIG else WITHDRAWAL_EVENT_SIG))
        (if converted then 3 else 2)
        (if converted then ''convert_receipt_event_missing'' else ''withdrawal_receipt_event_missing'')
        (if converted then ''ambiguous_convert_receipt_event'' else ''ambiguous_withdrawal_receipt_event'') of
        Inl reason \<Rightarrow> Inl reason
      | Inr (topics, data) \<Rightarrow>
          if converted
          then Inr (ConvertEv (topic_address (topics ! 1)) (topic_address (topics ! 2))
                 (uint_word data 0) (uint_word data 1))
          else Inr (WithdrawEv (topic_address (topics ! 1)) (uint_word data 0)))"

section \<open>The proved effect\<close>

definition reason_code :: "string \<Rightarrow> pydict" where
  "reason_code reason = [(''ok'', PBool False), (''reason_code'', PStr reason)]"

definition str_opt :: "nat option \<Rightarrow> string" where
  "str_opt n = (case n of None \<Rightarrow> ''None'' | Some k \<Rightarrow> show_nat k)"

definition convert_valid :: "string \<Rightarrow> string \<Rightarrow> nat \<Rightarrow> nat \<Rightarrow> string \<Rightarrow> string \<Rightarrow> nat option \<Rightarrow> nat option \<Rightarrow> bool" where
  "convert_valid xti xto xin xmin eti eto ein eout =
     (eti = xti \<and> eto = xto \<and> ein = Some xin \<and>
      (case eout of None \<Rightarrow> False | Some out \<Rightarrow> xmin \<le> out \<and> 0 < out))"

fun build_convert_effect :: "withdrawal_inputs \<Rightarrow> withdrawal_event \<Rightarrow> pydict res" where
  "build_convert_effect (ConvertIn xti xto xin xmin xd) (ConvertEv eti eto ein eout) =
     Inr (if \<not> convert_valid xti xto xin xmin eti eto ein eout then reason_code ''convert_event_mismatch''
      else [(''ok'', PBool True), (''kind'', PStr ''convert_and_withdraw''), (''token'', PStr eto),
            (''amount'', PStr (str_opt eout)), (''amount_unit'', PStr ''token_base_units''),
            (''token_in'', PStr eti), (''token_out'', PStr eto), (''amount_in'', PStr (str_opt ein)),
            (''amount_out'', PStr (str_opt eout)), (''min_out'', PStr (show_nat xmin))])"
| "build_convert_effect _ _ = Inl KeyError"

fun build_withdraw_effect :: "withdrawal_inputs \<Rightarrow> withdrawal_event \<Rightarrow> pydict res" where
  "build_withdraw_effect (WithdrawIn xt xd xa) (WithdrawEv et ea) =
     Inr (if et \<noteq> xt \<or> ea \<noteq> Some xa then reason_code ''withdrawal_event_mismatch''
      else [(''ok'', PBool True), (''kind'', PStr ''withdraw''), (''token'', PStr et),
            (''amount'', PStr (str_opt ea)), (''amount_unit'', PStr ''token_base_units''),
            (''token_in'', PStr et), (''token_out'', PStr et), (''amount_in'', PStr (str_opt ea)),
            (''amount_out'', PStr (str_opt ea))])"
| "build_withdraw_effect _ _ = Inl KeyError"

definition build_effect :: "withdrawal_inputs \<Rightarrow> withdrawal_event \<Rightarrow> bool \<Rightarrow> pydict res" where
  "build_effect expected event converted =
     (if converted then build_convert_effect expected event else build_withdraw_effect expected event)"

definition withdrawal_calldata_kind :: "(bytes \<Rightarrow> bytes) \<Rightarrow> string \<Rightarrow> string + bool" where
  "withdrawal_calldata_kind kec calldata =
     (case hex_bytes (PStr calldata) of None \<Rightarrow> Inl ''invalid_settlement_calldata''
      | Some raw \<Rightarrow>
          if length raw < 4 then Inl ''invalid_settlement_calldata''
          else if hex_of (take 4 raw) = hex_of (selector kec WITHDRAW_SIG) then Inr False
          else if hex_of (take 4 raw) = hex_of (selector kec CONVERT_WITHDRAW_SIG) then Inr True
          else Inl ''unsupported_withdrawal_calldata'')"

definition decode_withdrawal_components ::
    "(bytes \<Rightarrow> bytes) \<Rightarrow> pydict \<Rightarrow> string \<Rightarrow> string \<Rightarrow> string \<Rightarrow> bool
     \<Rightarrow> string + (withdrawal_inputs \<times> withdrawal_event)" where
  "decode_withdrawal_components kec receipt executor calldata destination converted =
     (case withdrawal_inputs calldata destination converted of Inl r \<Rightarrow> Inl r
      | Inr expected \<Rightarrow> (case withdrawal_event kec receipt executor destination converted of
          Inl r \<Rightarrow> Inl r | Inr event \<Rightarrow> Inr (expected, event)))"

definition decode_external_withdrawal_effect ::
    "(bytes \<Rightarrow> bytes) \<Rightarrow> pydict \<Rightarrow> string \<Rightarrow> string \<Rightarrow> string \<Rightarrow> pydict res" where
  "decode_external_withdrawal_effect kec receipt executor calldata destination =
     (let executor_s = address_of (PStr executor); destination_s = address_of (PStr destination) in
      if executor_s = [] \<or> destination_s = [] then Inr (reason_code ''invalid_settlement_identity'')
      else case withdrawal_calldata_kind kec calldata of
        Inl r \<Rightarrow> Inr (reason_code r)
      | Inr converted \<Rightarrow>
          (case decode_withdrawal_components kec receipt executor_s calldata destination_s converted of
             Inl r \<Rightarrow> Inr (reason_code r)
           | Inr (expected, event) \<Rightarrow> build_effect expected event converted))"

section \<open>The ledger transaction\<close>

definition external_withdrawal_lines :: "string \<Rightarrow> int \<Rightarrow> pyval list" where
  "external_withdrawal_lines token amount =
     [PDict [(''account'', PStr (''asset:'' @ token)), (''asset'', PStr token), (''amount'', PInt (- amount)),
        (''family'', PStr []), (''venue'', PStr ''WITHDRAW''),
        (''note'', PStr ''external_withdrawal_settlement''), (''amount_raw'', PStr (show_int (- amount)))],
      PDict [(''account'', PStr ''equity:external_withdrawal''), (''asset'', PStr token), (''amount'', PInt amount),
        (''family'', PStr []), (''venue'', PStr ''WITHDRAW''),
        (''note'', PStr ''external_withdrawal_offset''), (''amount_raw'', PStr (show_int amount))]]"

definition external_withdrawal_metadata ::
    "string \<Rightarrow> string \<Rightarrow> string \<Rightarrow> string \<Rightarrow> string \<Rightarrow> string \<Rightarrow> pydict \<Rightarrow> int \<Rightarrow> pydict" where
  "external_withdrawal_metadata intent_id receipt_id from_address destination calldata token effect amount =
     [(''settlement_kind'', PStr ''external_withdrawal''), (''settlement_status'', PStr ''settled''),
      (''intent_id'', PStr intent_id), (''tx_hash'', PStr receipt_id),
      (''from_address'', PStr (lower from_address)), (''destination'', PStr (lower destination)),
      (''calldata'', PStr (lower calldata)),
      (''token_in'', PStr (lower (str_or_empty (dget effect ''token_in'')))),
      (''token_out'', PStr token),
      (''amount_in_base_units'', PStr (str_or_empty (dget effect ''amount_in''))),
      (''amount_out_base_units'', PStr (py_str (por (dget effect ''amount_out'') (PInt amount)))),
      (''amount_unit'', PStr ''token_base_units''), (''usd_value'', PNone),
      (''usd_value_status'', PStr ''unvalued'')]"

definition canonical_external_withdrawal_transaction ::
    "string \<Rightarrow> string \<Rightarrow> string \<Rightarrow> string \<Rightarrow> string \<Rightarrow> string \<Rightarrow> pydict \<Rightarrow> int \<Rightarrow> pydict res" where
  "canonical_external_withdrawal_transaction chain receipt_id intent_id from_address destination
     calldata effect ts_ms =
     (let token = address_of (dget effect ''token_out'') in
      rbind (int_of_str (py_str (por (por (dget effect ''amount_out'') (dget effect ''amount'')) (PStr ''0''))))
        (\<lambda>amount.
         if token = [] \<or> amount \<le> 0 then Inl ValueError
         else Inr
           [(''transaction_id'', PStr (''external-withdrawal-'' @ lower receipt_id)),
            (''ts_ms'', PInt ts_ms), (''tx_type'', PStr ''external_withdrawal_settlement''),
            (''chain'', PStr chain), (''receipt_id'', PStr receipt_id),
            (''lines'', PList (external_withdrawal_lines token amount)),
            (''metadata'', PDict (external_withdrawal_metadata intent_id receipt_id from_address
               destination calldata token effect amount))]))"

section \<open>Lemmas on texts and words\<close>

lemma not_space_0x [simp]: "\<not> is_space (CHR ''0'')" "\<not> is_space (CHR ''x'')"
  by (simp_all add: is_space_def)

lemma strip_0x_hex_text [simp]: "strip (''0x'' @ hex_of b) = ''0x'' @ hex_of b"
  by (rule strip_no_space) (auto dest: hex_of_plain(1))

lemma strip_Nil [simp]: "strip [] = []"
  by (simp add: strip_def)

lemma hex_bytes_hex [simp]: "hex_bytes (PStr (''0x'' @ hex_of b)) = Some b"
  unfolding hex_bytes_def Let_def str_or_empty_PStr strip_0x_hex_text
  by (simp add: starts_with_def fromhex_hex_of)

lemma hex_of_byte_nat: "n < 256 \<Longrightarrow> hex_of_byte (of_nat n) = [digit_char (n div 16), digit_char (n mod 16)]"
  unfolding hex_of_byte_eq unat_of_nat_byte by simp

lemma rjust_snoc: "rjust (n + length t) x (s @ t) = rjust n x s @ t"
  by (simp add: rjust_def)

lemma show_hex_ge_256:
  assumes "256 \<le> n"
  shows "show_hex n = show_hex (n div 256) @ [digit_char (n mod 256 div 16), digit_char (n mod 16)]"
proof -
  have "n div 16 mod 16 = n mod 256 div 16" using mod_mult2_eq[of n 16 16] by simp
  moreover have "n div 16 div 16 = n div 256" using div_mult2_eq[of n 16 16] by simp
  moreover have "16 \<le> n div 16" using assms by simp
  ultimately show ?thesis
    using assms by (simp add: show_hex_def show_base_step[of 16 n] show_base_step[of 16 "n div 16"])
qed

lemma rjust_show_hex: "n < 256 ^ k \<Longrightarrow> 0 < k \<Longrightarrow> rjust (2 * k) (CHR ''0'') (show_hex n) = hex_of (to_be k n)"
proof (induction k arbitrary: n)
  case 0
  then show ?case by simp
next
  case (Suc k)
  have m: "hex_of_byte (of_nat n) = [digit_char (n mod 256 div 16), digit_char (n mod 16)]"
    unfolding hex_of_byte_eq unat_of_nat_byte by (simp add: mod_mod_cancel)
  show ?case
  proof (cases "256 \<le> n")
    case True
    with Suc.prems have "n div 256 < 256 ^ k" and "0 < k"
      by (simp add: less_mult_imp_div_less mult.commute) (use Suc.prems True in \<open>cases k; simp\<close>)
    then have IH: "rjust (2 * k) (CHR ''0'') (show_hex (n div 256)) = hex_of (to_be k (n div 256))"
      by (rule Suc.IH)
    have "rjust (2 * Suc k) (CHR ''0'') (show_hex n)
        = rjust (2 * k + length [digit_char (n mod 256 div 16), digit_char (n mod 16)]) (CHR ''0'') (show_hex n)"
      by simp
    also have "\<dots> = rjust (2 * k) (CHR ''0'') (show_hex (n div 256)) @ [digit_char (n mod 256 div 16), digit_char (n mod 16)]"
      unfolding show_hex_ge_256[OF True] by (rule rjust_snoc)
    finally show ?thesis by (simp add: IH m)
  next
    case False
    then have lt: "n < 256" by simp
    have "hex_of (to_be (Suc k) n) = replicate (2 * k) (CHR ''0'') @ [digit_char (n div 16), digit_char (n mod 16)]"
      using lt m by (simp add: to_be_zero hex_of_zeros)
    moreover have "rjust (2 * Suc k) (CHR ''0'') (show_hex n)
        = replicate (2 * k) (CHR ''0'') @ [digit_char (n div 16), digit_char (n mod 16)]"
    proof (cases "n < 16")
      case True
      have "replicate (Suc (2 * k)) (CHR ''0'') = replicate (2 * k) (CHR ''0'') @ [CHR ''0'']"
        by (simp add: replicate_append_same)
      with True show ?thesis by (simp add: show_hex_def rjust_def digit_char_0 del: replicate_Suc)
    next
      case False
      with lt show ?thesis by (simp add: show_hex_def rjust_def show_base_step[of 16 n])
    qed
    ultimately show ?thesis by simp
  qed
qed

lemma hex_of_drop: "hex_of (drop k bs) = drop (2 * k) (hex_of bs)"
proof (induction k arbitrary: bs)
  case (Suc k)
  then show ?case by (cases bs) (simp_all add: hex_of_byte_eq)
qed simp

lemma word_address_word: "length w = 32 \<Longrightarrow> word_address (from_be w) = ''0x'' @ hex_of (drop 12 w)"
proof -
  assume w: "length w = 32"
  then have "from_be w < 256 ^ 32" using from_be_bound[of w] by simp
  then have "rjust 64 (CHR ''0'') (show_hex (from_be w)) = hex_of (to_be 32 (from_be w))"
    using rjust_show_hex[of "from_be w" 32] by simp
  with w show ?thesis by (simp add: word_address_def bytes_simps hex_of_drop)
qed

lemma word_address_addr: "is_addr a \<Longrightarrow> word_address (from_be (replicate 12 0 @ addr_bytes a)) = lower a"
  by (simp add: word_address_word is_addr_bytes)

lemma strip_addr: "is_addr a \<Longrightarrow> strip a = a"
proof -
  assume a: "is_addr a"
  have "\<forall>c \<in> set (lower a). \<not> is_space c"
    unfolding is_addr_bytes(2)[OF a] by (auto dest: hex_of_plain(1))
  then show ?thesis by (intro strip_no_space) (auto simp: lower_def)
qed

lemma address_of_addr: "is_addr a \<Longrightarrow> address_of (PStr a) = lower a"
proof -
  assume a: "is_addr a"
  let ?h = "hex_of (addr_bytes a)"
  have "length (''0x'' @ ?h) = 42" using is_addr_bytes(1)[OF a] by simp
  moreover have "fromhex (drop 2 (''0x'' @ ?h)) = Some (addr_bytes a)" by (simp add: fromhex_hex_of)
  moreover have "starts_with ''0x'' (''0x'' @ ?h)" by (rule starts_with_append)
  ultimately show ?thesis
    unfolding address_of_def Let_def str_or_empty_PStr strip_addr[OF a] is_addr_bytes(2)[OF a] by (simp del: append_Cons)
qed

lemma address_of_hex: "length b = 20 \<Longrightarrow> address_of (PStr (''0x'' @ hex_of b)) = ''0x'' @ hex_of b"
  using address_of_addr[OF is_addr_hex_of[of b]] by (simp add: lower_char_def)

lemma address_of_idem [simp]: "address_of (PStr (address_of v)) = address_of v"
  by (simp add: address_of_def Let_def lower_Nil)

lemma topic_address_hex: "length w = 32 \<Longrightarrow> topic_address (PStr (''0x'' @ hex_of w)) = ''0x'' @ hex_of (drop 12 w)"
proof -
  assume w: "length w = 32"
  have "lower (''0x'' @ hex_of w) = ''0x'' @ hex_of w" by (simp add: lower_char_def)
  with w show ?thesis
    unfolding topic_address_def Let_def str_or_empty_PStr strip_0x_hex_text
    by (simp add: fromhex_hex_of hex_of_drop del: append_Cons)
qed

lemma calldata_words_concat:
  assumes "length sel = 4" and "\<forall>w \<in> set ws. length w = 32" and "n = length ws"
  shows "calldata_words (''0x'' @ hex_of (sel @ concat ws)) n = Some (map from_be ws)"
proof -
  have len: "length (concat ws) = 32 * length ws" using assms(2) by (induction ws) auto
  have "from_be (take 32 (drop (4 + i * 32) (sel @ concat ws))) = from_be (ws ! i)" if "i < length ws" for i
    using word_at_concat[OF assms(2) that, of "4 + i * 32" sel "[]"] assms(1)
    by (simp add: word_at_off_def)
  then have "map (\<lambda>i. from_be (take 32 (drop (4 + i * 32) (sel @ concat ws)))) [0..<n] = map from_be ws"
    unfolding assms(3) by (intro nth_equalityI) simp_all
  then show ?thesis
    unfolding calldata_words_def hex_bytes_hex by (simp add: len assms(1,3))
qed

section \<open>From calldata to effect\<close>

abbreviation addr_w :: "string \<Rightarrow> bytes" where
  "addr_w a \<equiv> replicate 12 0 @ addr_bytes a"

lemma build_withdraw_ok:
  assumes "is_addr token" and "is_addr to" and "uint256 amount"
  shows "build_withdraw_calldata kec token to amount =
    Inr (''0x'' @ hex_of (selector kec WITHDRAW_SIG @ concat [addr_w token, addr_w to, to_be 32 (nat amount)]))"
  using assms by (simp add: build_withdraw_calldata_def enc_address_ok enc_uint_ok)

lemma build_convert_ok:
  assumes "is_addr ti" and "is_addr to" and "is_addr dst" and "list_all uint256 [ain, mo, fee, dl]"
  shows "build_convert_and_withdraw_calldata kec ti to ain mo dst fee dl =
    Inr (''0x'' @ hex_of (selector kec CONVERT_WITHDRAW_SIG @ concat [addr_w ti, addr_w to,
      to_be 32 (nat ain), to_be 32 (nat mo), addr_w dst, to_be 32 (nat fee), to_be 32 (nat dl)]))"
  using assms by (simp add: build_convert_and_withdraw_calldata_def enc_address_ok enc_uint_ok)

lemma length_selector: "hash32 kec \<Longrightarrow> length (selector kec s) = 4"
  by (simp add: selector_def hash32.hash_length)

lemma withdraw_words:
  assumes "hash32 kec" and "is_addr token" and "is_addr to" and "uint256 amount"
  shows "calldata_words (''0x'' @ hex_of (selector kec WITHDRAW_SIG @
      concat [addr_w token, addr_w to, to_be 32 (nat amount)])) 3
    = Some [from_be (addr_w token), from_be (addr_w to), nat amount]"
  using calldata_words_concat[of "selector kec WITHDRAW_SIG" "[addr_w token, addr_w to, to_be 32 (nat amount)]" 3]
    assms by (simp add: length_selector is_addr_bytes from_be_uint del: append_Cons)

lemma convert_words:
  assumes "hash32 kec" and "is_addr ti" and "is_addr to" and "is_addr dst" and "list_all uint256 [ain, mo, fee, dl]"
  shows "calldata_words (''0x'' @ hex_of (selector kec CONVERT_WITHDRAW_SIG @ concat [addr_w ti, addr_w to,
      to_be 32 (nat ain), to_be 32 (nat mo), addr_w dst, to_be 32 (nat fee), to_be 32 (nat dl)])) 7
    = Some [from_be (addr_w ti), from_be (addr_w to), nat ain, nat mo, from_be (addr_w dst), nat fee, nat dl]"
  using calldata_words_concat[of "selector kec CONVERT_WITHDRAW_SIG" "[addr_w ti, addr_w to,
      to_be 32 (nat ain), to_be 32 (nat mo), addr_w dst, to_be 32 (nat fee), to_be 32 (nat dl)]" 7]
    assms by (simp add: length_selector is_addr_bytes from_be_uint del: append_Cons)

lemma kind_of_hex:
  assumes "hash32 kec"
  shows "withdrawal_calldata_kind kec (''0x'' @ hex_of (selector kec WITHDRAW_SIG @ rest)) = Inr False"
    and "selector kec WITHDRAW_SIG \<noteq> selector kec CONVERT_WITHDRAW_SIG \<Longrightarrow>
      withdrawal_calldata_kind kec (''0x'' @ hex_of (selector kec CONVERT_WITHDRAW_SIG @ rest)) = Inr True"
  unfolding withdrawal_calldata_kind_def hex_bytes_hex
  using length_selector[OF assms] by (simp_all add: hex_of_inj del: append_Cons)

text \<open>The payload the builders produce for the wallet is read back as paying the address that
  was asked for: the recipient of a built withdrawal, and of a built conversion, is the requested
  recipient in lower case.\<close>

theorem withdrawal_recipient_roundtrip:
  assumes "hash32 kec" and "selector kec WITHDRAW_SIG \<noteq> selector kec CONVERT_WITHDRAW_SIG"
    and "is_addr token" and "is_addr token_out" and "is_addr to" and "list_all uint256 [amount, mo, fee, dl]"
  shows "rbind (build_withdraw_calldata kec token to amount) (\<lambda>cd. Inr (external_withdrawal_recipient kec cd))
      = Inr (lower to) \<and>
    rbind (build_convert_and_withdraw_calldata kec token token_out amount mo to fee dl)
      (\<lambda>cd. Inr (external_withdrawal_recipient kec cd)) = Inr (lower to)"
proof
  have am: "uint256 amount" using assms(6) by simp
  show "rbind (build_withdraw_calldata kec token to amount) (\<lambda>cd. Inr (external_withdrawal_recipient kec cd))
      = Inr (lower to)"
    unfolding build_withdraw_ok[OF assms(3,5) am] rbind_Inr external_withdrawal_recipient_def hex_bytes_hex
      withdraw_words[OF assms(1,3,5) am]
    using length_selector[OF assms(1)] by (simp add: word_address_addr assms(5))
  show "rbind (build_convert_and_withdraw_calldata kec token token_out amount mo to fee dl)
      (\<lambda>cd. Inr (external_withdrawal_recipient kec cd)) = Inr (lower to)"
    unfolding build_convert_ok[OF assms(3,4,5,6)] rbind_Inr external_withdrawal_recipient_def hex_bytes_hex
      convert_words[OF assms(1,3,4,5,6)]
    using length_selector[OF assms(1)] assms(2) by (simp add: word_address_addr assms(5) hex_of_inj)
qed

text \<open>A hash for concrete inputs: 32 copies of the input's length.\<close>

definition demo_kec :: "bytes \<Rightarrow> bytes" where
  "demo_kec d = replicate 32 (of_nat (length d))"

lemma demo_kec_hash32: "hash32 demo_kec"
  by unfold_locales (simp add: demo_kec_def)

lemma demo_kec_distinct:
  "selector demo_kec WITHDRAW_SIG \<noteq> selector demo_kec CONVERT_WITHDRAW_SIG"
  "topic0 demo_kec WITHDRAWAL_EVENT_SIG \<noteq> topic0 demo_kec CONVERTED_EVENT_SIG"
proof -
  have l: "length (utf8 WITHDRAW_SIG) = 33" "length (utf8 CONVERT_WITHDRAW_SIG) = 74"
    "length (utf8 WITHDRAWAL_EVENT_SIG) = 35" "length (utf8 CONVERTED_EVENT_SIG) = 62"
    by (simp_all add: WITHDRAW_SIG_def CONVERT_WITHDRAW_SIG_def WITHDRAWAL_EVENT_SIG_def
      CONVERTED_EVENT_SIG_def utf8_def utf8_char_def)
  have "replicate 4 (33 :: byte) \<noteq> replicate 4 74" "replicate 32 (35 :: byte) \<noteq> replicate 32 62"
    by (auto simp: replicate_eq_replicate)
  then show "selector demo_kec WITHDRAW_SIG \<noteq> selector demo_kec CONVERT_WITHDRAW_SIG"
    "topic0 demo_kec WITHDRAWAL_EVENT_SIG \<noteq> topic0 demo_kec CONVERTED_EVENT_SIG"
    unfolding selector_def topic0_def demo_kec_def l take_replicate append_same_eq same_append_eq hex_of_inj
    by simp_all
qed

definition demo_addr :: "byte \<Rightarrow> string" where
  "demo_addr b = ''0x'' @ hex_of (replicate 20 b)"

lemma is_addr_demo [simp]: "is_addr (demo_addr b)"
  unfolding demo_addr_def by (rule is_addr_hex_of) simp

theorem withdrawal_recipient_roundtrip_witness:
  "rbind (build_withdraw_calldata demo_kec (demo_addr 1) (demo_addr 3) 7)
     (\<lambda>cd. Inr (external_withdrawal_recipient demo_kec cd)) = Inr (lower (demo_addr 3))"
  using withdrawal_recipient_roundtrip[OF demo_kec_hash32 demo_kec_distinct(1),
      of "demo_addr 1" "demo_addr 2" "demo_addr 3" 7 0 0 0]
  by (simp add: uint256_def)

text \<open>The log the executor emits for a plain withdrawal.\<close>

definition withdrawal_log :: "(bytes \<Rightarrow> bytes) \<Rightarrow> string \<Rightarrow> string \<Rightarrow> string \<Rightarrow> int \<Rightarrow> pyval" where
  "withdrawal_log kec executor token to amount = PDict
     [(''address'', PStr executor),
      (''topics'', PList [PStr (topic0 kec WITHDRAWAL_EVENT_SIG), PStr (''0x'' @ hex_of (addr_w token)),
         PStr (''0x'' @ hex_of (addr_w to))]),
      (''data'', PStr (''0x'' @ hex_of (to_be 32 (nat amount))))]"

lemma lower_topic0 [simp]: "lower (topic0 kec s) = topic0 kec s"
  unfolding topic0_def by (simp add: lower_char_def)

lemma topic0_nonempty [simp]: "topic0 kec s \<noteq> []"
  by (simp add: topic0_def)

lemma withdrawal_log_facts:
  assumes "topic0 kec WITHDRAWAL_EVENT_SIG \<noteq> topic0 kec CONVERTED_EVENT_SIG"
    and "is_addr executor" and "is_addr token" and "is_addr to" and "uint256 amount"
  shows "log_matches_withdrawal_destination kec (withdrawal_log kec executor token to amount) (lower executor) (lower to)"
    and "first_topic (withdrawal_log kec executor token to amount) = topic0 kec WITHDRAWAL_EVENT_SIG"
    and "length (log_topics (withdrawal_log kec executor token to amount)) = 3"
    and "topic_address (log_topics (withdrawal_log kec executor token to amount) ! 1) = lower token"
    and "uint_word (log_data (withdrawal_log kec executor token to amount)) 0 = Some (nat amount)"
proof -
  have t: "topic_address (PStr (''0x'' @ hex_of (addr_w a))) = lower a" if "is_addr a" for a
    using topic_address_hex[of "addr_w a"] that by (simp add: is_addr_bytes(1) is_addr_bytes(2)[OF that] del: append_Cons hex_of_append)
  have i: "destination_topic_index kec (topic0 kec WITHDRAWAL_EVENT_SIG) = Some 2"
    using assms(1) by (simp add: destination_topic_index_def)
  let ?log = "withdrawal_log kec executor token to amount"
  have d: "dget (as_dict ?log) ''topics'' = PList [PStr (topic0 kec WITHDRAWAL_EVENT_SIG),
      PStr (''0x'' @ hex_of (addr_w token)), PStr (''0x'' @ hex_of (addr_w to))]"
    "dget (as_dict ?log) ''address'' = PStr executor"
    "dget (as_dict ?log) ''data'' = PStr (''0x'' @ hex_of (to_be 32 (nat amount)))"
    by (simp_all add: withdrawal_log_def dget_def dget_or_def)
  show "length (log_topics ?log) = 3" "topic_address (log_topics ?log ! 1) = lower token"
    "first_topic ?log = topic0 kec WITHDRAWAL_EVENT_SIG"
    unfolding first_topic_def log_topics_def d by (simp_all add: t assms(3) del: append_Cons hex_of_append)
  show "log_matches_withdrawal_destination kec ?log (lower executor) (lower to)"
    using d(1,2) i t[OF assms(4)] address_of_addr[OF assms(2)]
    by (simp add: log_matches_withdrawal_destination_def withdrawal_log_def del: append_Cons hex_of_append)
  have "por (PStr (''0x'' @ s)) (PStr ''0x'') = PStr (''0x'' @ s)" for s by (simp add: por_def)
  then have "log_data ?log = to_be 32 (nat amount)"
    unfolding log_data_def d(3) by (simp del: append_Cons)
  then show "uint_word (log_data ?log) 0 = Some (nat amount)"
    using assms(5) by (simp add: uint_word_def from_be_uint)
qed

lemma withdraw_effect_decodes:
  assumes "hash32 kec" and "topic0 kec WITHDRAWAL_EVENT_SIG \<noteq> topic0 kec CONVERTED_EVENT_SIG"
    and "is_addr executor" and "is_addr token" and "is_addr to" and "uint256 amount" and "0 < amount"
    and "build_withdraw_calldata kec token to amount = Inr cd"
    and "dget receipt ''logs'' = PList (pre @ [withdrawal_log kec executor token to amount] @ post)"
    and "\<forall>l \<in> set (pre @ post). \<not> log_matches_withdrawal_destination kec l (lower executor) (lower to)"
  shows "decode_external_withdrawal_effect kec receipt executor cd to = Inr
    [(''ok'', PBool True), (''kind'', PStr ''withdraw''), (''token'', PStr (lower token)),
     (''amount'', PStr (show_nat (nat amount))), (''amount_unit'', PStr ''token_base_units''),
     (''token_in'', PStr (lower token)), (''token_out'', PStr (lower token)),
     (''amount_in'', PStr (show_nat (nat amount))), (''amount_out'', PStr (show_nat (nat amount)))]"
proof -
  let ?log = "withdrawal_log kec executor token to amount"
  note lf = withdrawal_log_facts[OF assms(2-6)]
  have cd: "cd = ''0x'' @ hex_of (selector kec WITHDRAW_SIG @ concat [addr_w token, addr_w to, to_be 32 (nat amount)])"
    using assms(8) unfolding build_withdraw_ok[OF assms(4-6)] by simp
  have words: "calldata_words cd 3 = Some [from_be (addr_w token), from_be (addr_w to), nat amount]"
    unfolding cd by (rule withdraw_words[OF assms(1,4-6)])
  have kind: "withdrawal_calldata_kind kec cd = Inr False"
    unfolding cd by (rule kind_of_hex(1)[OF assms(1)])
  have adr: "address_of (PStr executor) = lower executor" "address_of (PStr to) = lower to"
    using assms(3,5) by (simp_all add: address_of_addr)
  have adr': "address_of (PStr (lower executor)) = lower executor" "address_of (PStr (lower to)) = lower to"
    using address_of_idem[of "PStr executor"] address_of_idem[of "PStr to"] unfolding adr by simp_all
  have ne: "lower executor \<noteq> []" "lower to \<noteq> []"
    using assms(3,5) by (auto simp: is_addr_def lower_def)
  have "filter (\<lambda>l. log_matches_withdrawal_destination kec l (lower executor) (lower to)) pre = []"
    "filter (\<lambda>l. log_matches_withdrawal_destination kec l (lower executor) (lower to)) post = []"
    using assms(10) by (simp_all add: filter_empty_conv)
  then have ml: "matching_logs kec receipt (lower executor) (lower to) = [?log]"
    unfolding matching_logs_def assms(9) by (simp add: adr' lf(1))
  have ev: "withdrawal_event kec receipt (lower executor) (lower to) False = Inr (WithdrawEv (lower token) (Some (nat amount)))"
    unfolding withdrawal_event_def event_log_def Let_def ml
    using lf by simp
  have inp: "withdrawal_inputs cd (lower to) False = Inr (WithdrawIn (lower token) (lower to) (nat amount))"
    unfolding withdrawal_inputs_def using assms(4,5,7)
    by (simp add: words expected_inputs_def word_address_addr)
  show ?thesis
    unfolding decode_external_withdrawal_effect_def Let_def adr kind
    by (simp add: ne decode_withdrawal_components_def inp ev build_effect_def str_opt_def)
qed

text \<open>C32: an executed withdrawal settles: when the receipt holds the executor's withdrawal log for the
  built calldata and no other log that pays this recipient, the decoded effect is ok and names the
  token and the amount in base units.\<close>

theorem withdraw_effect_complete:
  assumes "hash32 kec" and "topic0 kec WITHDRAWAL_EVENT_SIG \<noteq> topic0 kec CONVERTED_EVENT_SIG"
    and "is_addr executor" and "is_addr token" and "is_addr to" and "uint256 amount" and "0 < amount"
    and "build_withdraw_calldata kec token to amount = Inr cd"
    and "dget receipt ''logs'' = PList (pre @ [withdrawal_log kec executor token to amount] @ post)"
    and "\<forall>l \<in> set (pre @ post). \<not> log_matches_withdrawal_destination kec l (lower executor) (lower to)"
  shows "decode_external_withdrawal_effect kec receipt executor cd to = Inr
    [(''ok'', PBool True), (''kind'', PStr ''withdraw''), (''token'', PStr (lower token)),
     (''amount'', PStr (show_nat (nat amount))), (''amount_unit'', PStr ''token_base_units''),
     (''token_in'', PStr (lower token)), (''token_out'', PStr (lower token)),
     (''amount_in'', PStr (show_nat (nat amount))), (''amount_out'', PStr (show_nat (nat amount)))]"
  using assms by (rule withdraw_effect_decodes)

definition demo_receipt :: pydict where
  "demo_receipt = [(''logs'', PList [withdrawal_log demo_kec (demo_addr 9) (demo_addr 1) (demo_addr 3) 7])]"

definition demo_calldata :: string where
  "demo_calldata = ''0x'' @ hex_of (selector demo_kec WITHDRAW_SIG @
     concat [addr_w (demo_addr 1), addr_w (demo_addr 3), to_be 32 7])"

lemma demo_calldata_built: "build_withdraw_calldata demo_kec (demo_addr 1) (demo_addr 3) 7 = Inr demo_calldata"
  unfolding demo_calldata_def by (subst build_withdraw_ok) (simp_all add: uint256_def)

definition demo_effect :: pydict where
  "demo_effect = [(''ok'', PBool True), (''kind'', PStr ''withdraw''), (''token'', PStr (lower (demo_addr 1))),
     (''amount'', PStr (show_nat 7)), (''amount_unit'', PStr ''token_base_units''),
     (''token_in'', PStr (lower (demo_addr 1))), (''token_out'', PStr (lower (demo_addr 1))),
     (''amount_in'', PStr (show_nat 7)), (''amount_out'', PStr (show_nat 7))]"

lemma demo_decodes:
  "decode_external_withdrawal_effect demo_kec demo_receipt (demo_addr 9) demo_calldata (demo_addr 3) = Inr demo_effect"
proof -
  have u: "uint256 7" by (simp add: uint256_def)
  show ?thesis
    using withdraw_effect_decodes[OF demo_kec_hash32 demo_kec_distinct(2) is_addr_demo[of 9] is_addr_demo[of 1]
        is_addr_demo[of 3] u _ demo_calldata_built, of demo_receipt "[]" "[]"]
    by (simp add: demo_receipt_def demo_effect_def dget_def dget_or_def)
qed

theorem withdraw_effect_complete_witness:
  "decode_external_withdrawal_effect demo_kec demo_receipt (demo_addr 9) demo_calldata (demo_addr 3) = Inr demo_effect"
proof -
  have u: "uint256 7" by (simp add: uint256_def)
  show ?thesis
    using withdraw_effect_complete[OF demo_kec_hash32 demo_kec_distinct(2) is_addr_demo[of 9] is_addr_demo[of 1]
        is_addr_demo[of 3] u _ demo_calldata_built, of demo_receipt "[]" "[]"]
    by (simp add: demo_receipt_def demo_effect_def dget_def dget_or_def)
qed

text \<open>
  What an ok effect rests on: one log of the executor, the calldata words, and their agreement.
\<close>

definition withdraw_report :: "string \<Rightarrow> nat \<Rightarrow> pydict" where
  "withdraw_report token amount =
     [(''ok'', PBool True), (''kind'', PStr ''withdraw''), (''token'', PStr token), (''amount'', PStr (show_nat amount)),
      (''amount_unit'', PStr ''token_base_units''), (''token_in'', PStr token), (''token_out'', PStr token),
      (''amount_in'', PStr (show_nat amount)), (''amount_out'', PStr (show_nat amount))]"

definition convert_report :: "string \<Rightarrow> string \<Rightarrow> nat \<Rightarrow> nat \<Rightarrow> nat \<Rightarrow> pydict" where
  "convert_report token_in token_out amount_in amount_out min_out =
     [(''ok'', PBool True), (''kind'', PStr ''convert_and_withdraw''), (''token'', PStr token_out),
      (''amount'', PStr (show_nat amount_out)), (''amount_unit'', PStr ''token_base_units''),
      (''token_in'', PStr token_in), (''token_out'', PStr token_out), (''amount_in'', PStr (show_nat amount_in)),
      (''amount_out'', PStr (show_nat amount_out)), (''min_out'', PStr (show_nat min_out))]"

definition withdraw_evidence :: "(bytes \<Rightarrow> bytes) \<Rightarrow> pydict \<Rightarrow> string \<Rightarrow> string \<Rightarrow> string \<Rightarrow> pydict \<Rightarrow> nat list \<Rightarrow> pyval \<Rightarrow> bool" where
  "withdraw_evidence kec receipt executor calldata destination eff words log \<longleftrightarrow>
     address_of (PStr executor) \<noteq> [] \<and> withdrawal_calldata_kind kec calldata = Inr False \<and>
     calldata_words calldata 3 = Some words \<and>
     filter (\<lambda>l. first_topic l = topic0 kec WITHDRAWAL_EVENT_SIG) (matching_logs kec receipt executor destination) = [log] \<and>
     word_address (words ! 1) = address_of (PStr destination) \<and> 0 < words ! 2 \<and>
     topic_address (log_topics log ! 1) = word_address (words ! 0) \<and>
     uint_word (log_data log) 0 = Some (words ! 2) \<and>
     eff = withdraw_report (word_address (words ! 0)) (words ! 2)"

definition convert_evidence :: "(bytes \<Rightarrow> bytes) \<Rightarrow> pydict \<Rightarrow> string \<Rightarrow> string \<Rightarrow> string \<Rightarrow> pydict \<Rightarrow> nat list \<Rightarrow> pyval \<Rightarrow> bool" where
  "convert_evidence kec receipt executor calldata destination eff words log \<longleftrightarrow>
     address_of (PStr executor) \<noteq> [] \<and> withdrawal_calldata_kind kec calldata = Inr True \<and>
     calldata_words calldata 7 = Some words \<and>
     filter (\<lambda>l. first_topic l = topic0 kec CONVERTED_EVENT_SIG) (matching_logs kec receipt executor destination) = [log] \<and>
     word_address (words ! 4) = address_of (PStr destination) \<and> 0 < words ! 2 \<and>
     topic_address (log_topics log ! 1) = word_address (words ! 0) \<and>
     topic_address (log_topics log ! 2) = word_address (words ! 1) \<and>
     uint_word (log_data log) 0 = Some (words ! 2) \<and>
     (\<exists>out. uint_word (log_data log) 1 = Some out \<and> words ! 3 \<le> out \<and> 0 < out \<and>
       eff = convert_report (word_address (words ! 0)) (word_address (words ! 1)) (words ! 2) out (words ! 3))"

lemma event_log_InrD:
  assumes "event_log kec receipt executor destination topic k mr ar = Inr (topics, data)"
  shows "\<exists>log. filter (\<lambda>l. first_topic l = lower topic) (matching_logs kec receipt executor destination) = [log] \<and>
     topics = log_topics log \<and> data = log_data log \<and> k < length topics"
proof -
  let ?h = "filter (\<lambda>l. first_topic l = lower topic) (matching_logs kec receipt executor destination)"
  have "length ?h = 1" "topics = log_topics (?h ! 0)" "data = log_data (?h ! 0)" "k < length topics"
    using assms by (auto simp: event_log_def Let_def split: if_splits)
  then show ?thesis by (auto simp: length_Suc_conv)
qed

lemma matching_logs_norm:
  "matching_logs kec receipt (address_of (PStr e)) (address_of (PStr d)) = matching_logs kec receipt e d"
  unfolding matching_logs_def address_of_idem ..

lemma decode_effect_cases:
  assumes "decode_external_withdrawal_effect kec receipt executor calldata destination = r"
  obtains (refused) reason where "r = Inr (reason_code reason)"
  | (withdraw) words topics data where "calldata_words calldata 3 = Some words"
      "address_of (PStr executor) \<noteq> []" "withdrawal_calldata_kind kec calldata = Inr False"
      "event_log kec receipt executor destination (topic0 kec WITHDRAWAL_EVENT_SIG) 2
         ''withdrawal_receipt_event_missing'' ''ambiguous_withdrawal_receipt_event'' = Inr (topics, data)"
      "word_address (words ! 1) = address_of (PStr destination)" "0 < words ! 2"
      "r = build_withdraw_effect (expected_inputs words False) (WithdrawEv (topic_address (topics ! 1)) (uint_word data 0))"
  | (convert) words topics data where "calldata_words calldata 7 = Some words"
      "address_of (PStr executor) \<noteq> []" "withdrawal_calldata_kind kec calldata = Inr True"
      "event_log kec receipt executor destination (topic0 kec CONVERTED_EVENT_SIG) 3
         ''convert_receipt_event_missing'' ''ambiguous_convert_receipt_event'' = Inr (topics, data)"
      "word_address (words ! 4) = address_of (PStr destination)" "0 < words ! 2"
      "r = build_convert_effect (expected_inputs words True)
         (ConvertEv (topic_address (topics ! 1)) (topic_address (topics ! 2)) (uint_word data 0) (uint_word data 1))"
proof -
  let ?E = "address_of (PStr executor)" and ?D = "address_of (PStr destination)"
  have ev: "event_log kec receipt ?E ?D t k m a = event_log kec receipt executor destination t k m a" for t k m a
    by (simp add: event_log_def matching_logs_norm)
  show thesis
  proof (cases "?E = [] \<or> ?D = []")
    case True
    then have "decode_external_withdrawal_effect kec receipt executor calldata destination
        = Inr (reason_code ''invalid_settlement_identity'')"
      by (simp add: decode_external_withdrawal_effect_def Let_def)
    with assms show thesis by (intro refused[of "''invalid_settlement_identity''"]) simp
  next
    case ids: False
    show thesis
    proof (cases "withdrawal_calldata_kind kec calldata")
      case (Inl r')
      then have "decode_external_withdrawal_effect kec receipt executor calldata destination = Inr (reason_code r')"
        using ids by (simp add: decode_external_withdrawal_effect_def Let_def)
      with assms show thesis by (intro refused[of r']) simp
    next
      case (Inr c)
      show thesis
      proof (cases "decode_withdrawal_components kec receipt ?E calldata ?D c")
        case (Inl r')
        then have "decode_external_withdrawal_effect kec receipt executor calldata destination = Inr (reason_code r')"
          using ids Inr by (simp add: decode_external_withdrawal_effect_def Let_def)
        with assms show thesis by (intro refused[of r']) simp
      next
        case comp: (Inr p)
        obtain x e where p: "p = (x, e)" by (cases p)
        have r: "r = build_effect x e c"
          using ids Inr comp p assms by (simp add: decode_external_withdrawal_effect_def Let_def)
        from comp p have inp: "withdrawal_inputs calldata ?D c = Inr x"
          and event: "withdrawal_event kec receipt ?E ?D c = Inr e"
          by (auto simp: decode_withdrawal_components_def split: sum.splits)
        show thesis
        proof (cases c)
          case True
          from event True obtain topics data where
              l: "event_log kec receipt executor destination (topic0 kec CONVERTED_EVENT_SIG) 3
                ''convert_receipt_event_missing'' ''ambiguous_convert_receipt_event'' = Inr (topics, data)"
            and e: "e = ConvertEv (topic_address (topics ! 1)) (topic_address (topics ! 2)) (uint_word data 0) (uint_word data 1)"
            by (auto simp: withdrawal_event_def ev split: sum.splits)
          from inp True obtain words where "calldata_words calldata 7 = Some words"
              "x = expected_inputs words True" "word_address (words ! 4) = ?D" "0 < words ! 2"
            by (auto simp: withdrawal_inputs_def Let_def expected_inputs_def split: option.splits if_splits)
          with l e r True ids Inr show thesis by (intro convert) (simp_all add: build_effect_def)
        next
          case False
          from event False obtain topics data where
              l: "event_log kec receipt executor destination (topic0 kec WITHDRAWAL_EVENT_SIG) 2
                ''withdrawal_receipt_event_missing'' ''ambiguous_withdrawal_receipt_event'' = Inr (topics, data)"
            and e: "e = WithdrawEv (topic_address (topics ! 1)) (uint_word data 0)"
            by (auto simp: withdrawal_event_def ev split: sum.splits)
          from inp False obtain words where "calldata_words calldata 3 = Some words"
              "x = expected_inputs words False" "word_address (words ! 1) = ?D" "0 < words ! 2"
            by (auto simp: withdrawal_inputs_def Let_def expected_inputs_def split: option.splits if_splits)
          with l e r False ids Inr show thesis by (intro withdraw) (simp_all add: build_effect_def)
        qed
      qed
    qed
  qed
qed

lemma effect_ok_evidence:
  assumes d: "decode_external_withdrawal_effect kec receipt executor calldata destination = Inr eff"
    and ok: "dget eff ''ok'' = PBool True"
  shows "\<exists>words log. withdraw_evidence kec receipt executor calldata destination eff words log \<or>
     convert_evidence kec receipt executor calldata destination eff words log"
  using d
proof (cases rule: decode_effect_cases)
  case (refused reason)
  then have "eff = reason_code reason" by simp
  with ok have False by (simp add: reason_code_def)
  then show ?thesis ..
next
  case (withdraw words topics data)
  from event_log_InrD[OF withdraw(4)] obtain log where
      log: "filter (\<lambda>l. first_topic l = topic0 kec WITHDRAWAL_EVENT_SIG) (matching_logs kec receipt executor destination) = [log]"
      "topics = log_topics log" "data = log_data log" by auto
  have "withdraw_evidence kec receipt executor calldata destination eff words log"
    using withdraw log ok
    by (auto simp: withdraw_evidence_def withdraw_report_def expected_inputs_def reason_code_def str_opt_def split: if_splits)
  then show ?thesis by blast
next
  case (convert words topics data)
  from event_log_InrD[OF convert(4)] obtain log where
      log: "filter (\<lambda>l. first_topic l = topic0 kec CONVERTED_EVENT_SIG) (matching_logs kec receipt executor destination) = [log]"
      "topics = log_topics log" "data = log_data log" by auto
  have "convert_evidence kec receipt executor calldata destination eff words log"
    using convert log ok
    by (auto simp: convert_evidence_def convert_report_def convert_valid_def expected_inputs_def reason_code_def str_opt_def
        split: if_splits option.splits)
  then show ?thesis by blast
qed

text \<open>
  The evidence read off the chain, byte by byte: the address a topic shows is its last forty of
  sixty-four digits; an event is a log of the executor whose first topic is the signature's and
  whose recipient topic shows the destination; the arguments of the calldata stand behind its
  four-byte selector, one per thirty-two bytes.
\<close>

definition topic_shows :: "pyval \<Rightarrow> string \<Rightarrow> bool" where
  "topic_shows topic a \<longleftrightarrow>
     (let digits = abi_strip_0x (lower (strip (str_or_empty topic))) in
      length digits = 64 \<and> fromhex digits \<noteq> None \<and> a = ''0x'' @ drop 24 digits)"

definition pays_by :: "(bytes \<Rightarrow> bytes) \<Rightarrow> string \<Rightarrow> nat \<Rightarrow> string \<Rightarrow> string \<Rightarrow> pyval \<Rightarrow> bool" where
  "pays_by kec sig i executor destination log \<longleftrightarrow>
     (\<exists>d ts. log = PDict d \<and> lower (strip (str_or_empty (dget d ''address''))) = lower (strip executor) \<and>
        dget d ''topics'' = PList ts \<and> i < length ts \<and> lower (str_or_empty (ts ! 0)) = topic0 kec sig \<and>
        topic_shows (ts ! i) (lower (strip destination)))"

definition arg_address :: "bytes \<Rightarrow> nat \<Rightarrow> string" where
  "arg_address raw i = ''0x'' @ hex_of (take 20 (drop (16 + 32 * i) raw))"

definition arg_uint :: "bytes \<Rightarrow> nat \<Rightarrow> nat" where
  "arg_uint raw i = from_be (take 32 (drop (4 + 32 * i) raw))"

lemma calldata_words_args:
  assumes "calldata_words calldata n = Some words"
  shows "\<exists>raw. fromhex (drop 2 (strip calldata)) = Some raw \<and> hex_bytes (PStr calldata) = Some raw \<and> 4 + 32 * n \<le> length raw \<and>
    (\<forall>i < n. words ! i = arg_uint raw i \<and> word_address (words ! i) = arg_address raw i)"
proof -
  from assms obtain raw where raw: "hex_bytes (PStr calldata) = Some raw" "4 + 32 * n \<le> length raw"
    "words = map (\<lambda>i. from_be (take 32 (drop (4 + i * 32) raw))) [0..<n]"
    by (auto simp: calldata_words_def split: option.splits if_splits)
  have "word_address (words ! i) = arg_address raw i" if "i < n" for i
  proof -
    from that have "32 * Suc i \<le> 32 * n" by (intro mult_le_mono2) simp
    with raw(2) have len: "length (take 32 (drop (4 + i * 32) raw)) = 32" by simp
    have "drop 12 (take 32 (drop (4 + i * 32) raw)) = take 20 (drop (16 + 32 * i) raw)" by (simp add: drop_take mult.commute add.commute)
    with word_address_word[OF len] that raw(3) show ?thesis by (simp add: arg_address_def)
  qed
  with raw show ?thesis
    by (intro exI[of _ raw]) (auto simp: hex_bytes_def Let_def arg_uint_def mult.commute split: if_splits)
qed

lemma address_of_shape: "address_of v \<noteq> [] \<Longrightarrow> address_of v = lower (strip (str_or_empty v)) \<and> length (address_of v) = 42"
  by (auto simp: address_of_def Let_def split: if_splits)

lemma topic_address_shows: "a \<noteq> [] \<Longrightarrow> topic_address v = a \<longleftrightarrow> topic_shows v a"
  by (auto simp: topic_address_def topic_shows_def Let_def)

lemma matches_pays_by:
  assumes "address_of (PStr executor) \<noteq> []" "address_of (PStr destination) \<noteq> []" "lower (topic0 kec sig) = topic0 kec sig"
    and "destination_topic_index kec (topic0 kec sig) = Some i"
  shows "first_topic log = topic0 kec sig \<and>
      log_matches_withdrawal_destination kec log (address_of (PStr executor)) (address_of (PStr destination))
    \<longleftrightarrow> pays_by kec sig i executor destination log"
proof (cases log)
  case (PDict d)
  let ?E = "address_of (PStr executor)" and ?D = "address_of (PStr destination)"
  have ids: "?E = lower (strip executor)" "?D = lower (strip destination)"
    using address_of_shape[OF assms(1)] address_of_shape[OF assms(2)] by simp_all
  have adr: "address_of (dget d ''address'') = ?E \<longleftrightarrow> lower (strip (str_or_empty (dget d ''address''))) = lower (strip executor)"
  proof
    assume "address_of (dget d ''address'') = ?E"
    with assms(1) ids(1) address_of_shape[of "dget d ''address''"] show "lower (strip (str_or_empty (dget d ''address''))) = lower (strip executor)"
      by simp
  next
    assume "lower (strip (str_or_empty (dget d ''address''))) = lower (strip executor)"
    then show "address_of (dget d ''address'') = ?E" by (simp only: address_of_def str_or_empty_PStr)
  qed
  show ?thesis
  proof (cases "\<exists>t ts. dget d ''topics'' = PList (t # ts)")
    case True
    then obtain t ts where ts: "dget d ''topics'' = PList (t # ts)" by blast
    have ft: "first_topic log = lower (py_str t)" by (simp add: first_topic_def log_topics_def PDict ts)
    have truth: "str_or_empty t = py_str t" if "lower (str_or_empty t) = topic0 kec s" for s
      using that topic0_nonempty[of kec s, symmetric] by (auto simp: str_or_empty_def lower_Nil simp del: topic0_nonempty split: if_splits)
    have known: "lower (str_or_empty t) = topic0 kec CONVERTED_EVENT_SIG \<or> lower (str_or_empty t) = topic0 kec WITHDRAWAL_EVENT_SIG"
      if "destination_topic_index kec (lower (str_or_empty t)) \<noteq> None"
      using that by (auto simp: destination_topic_index_def split: if_splits)
    have D: "?D \<noteq> []" by (rule assms(2))
    show ?thesis
    proof
      assume l: "first_topic log = topic0 kec sig \<and> log_matches_withdrawal_destination kec log ?E ?D"
      then obtain j where j: "destination_topic_index kec (lower (str_or_empty t)) = Some j" "j < length (t # ts)"
          "topic_address ((t # ts) ! j) = ?D" "address_of (dget d ''address'') = ?E"
        by (auto simp: log_matches_withdrawal_destination_def PDict ts split: option.splits)
      from j(1) known truth have "str_or_empty t = py_str t" by blast
      with l ft j(1) assms(4) have "lower (str_or_empty t) = topic0 kec sig" "j = i" by simp_all
      then show "pays_by kec sig i executor destination log"
        using j(2-4) adr topic_address_shows[OF D, of "(t # ts) ! i"] ids(2) PDict ts unfolding pays_by_def
        by (intro exI[of _ d] exI[of _ "t # ts"]) simp
    next
      assume "pays_by kec sig i executor destination log"
      then have p: "lower (strip (str_or_empty (dget d ''address''))) = lower (strip executor)" "i < length (t # ts)"
          "lower (str_or_empty t) = topic0 kec sig" "topic_shows ((t # ts) ! i) ?D"
        by (auto simp: pays_by_def PDict ts ids(2))
      from p(4) have "topic_address ((t # ts) ! i) = ?D" using topic_address_shows[OF D] by simp
      with p truth[OF p(3)] show "first_topic log = topic0 kec sig \<and> log_matches_withdrawal_destination kec log ?E ?D"
        using ft adr assms(4) by (simp add: log_matches_withdrawal_destination_def PDict ts)
    qed
  next
    case False
    then have "ts = []" if "dget d ''topics'' = PList ts" for ts using that by (cases ts) auto
    then show ?thesis
      by (auto simp: pays_by_def log_matches_withdrawal_destination_def PDict split: pyval.splits)
  qed
qed (simp_all add: pays_by_def log_matches_withdrawal_destination_def)

lemma matching_pays_by:
  assumes "address_of (PStr executor) \<noteq> []" "address_of (PStr destination) \<noteq> []"
    and "destination_topic_index kec (topic0 kec sig) = Some i"
    and "filter (\<lambda>l. first_topic l = topic0 kec sig) (matching_logs kec receipt executor destination) = [log]"
  shows "\<exists>logs. dget receipt ''logs'' = PList logs \<and> filter (pays_by kec sig i executor destination) logs = [log] \<and>
    pays_by kec sig i executor destination log"
proof -
  from assms(4) obtain logs where l: "dget receipt ''logs'' = PList logs"
    by (auto simp: matching_logs_def split: pyval.splits)
  have "filter (\<lambda>l. first_topic l = topic0 kec sig) (matching_logs kec receipt executor destination)
      = filter (pays_by kec sig i executor destination) logs"
    unfolding matching_logs_def l pyval.case filter_filter
    using matches_pays_by[OF assms(1,2) lower_topic0 assms(3)] by (intro filter_cong refl) blast
  with assms(4) have f: "filter (pays_by kec sig i executor destination) logs = [log]" by simp
  have "log \<in> set (filter (pays_by kec sig i executor destination) logs)" unfolding f by simp
  then have "pays_by kec sig i executor destination log" by simp
  with l f show ?thesis by blast
qed

lemma log_data_word:
  assumes "log = PDict d" "uint_word (log_data log) k = Some n"
  shows "\<exists>b. fromhex (drop 2 (strip (py_str (dget d ''data'')))) = Some b \<and> 32 * k + 32 \<le> length b \<and> n = from_be (take 32 (drop (32 * k) b))"
proof (cases "truthy (dget d ''data'')")
  case True
  with assms show ?thesis
    by (auto simp: log_data_def por_def uint_word_def hex_bytes_def Let_def mult.commute split: option.splits if_splits)
next
  case False
  then have "log_data log = []" by (simp add: log_data_def por_def assms(1) hex_bytes_def Let_def split: option.split)
      (simp add: strip_no_space starts_with_def)
  with assms(2) show ?thesis by (simp add: uint_word_def)
qed

text \<open>The two ways the money can be shown to have left: the calldata of a plain withdrawal and the log that repeats it,
  and those of a conversion.\<close>

definition withdrawal_shown :: "(bytes \<Rightarrow> bytes) \<Rightarrow> bytes \<Rightarrow> string \<Rightarrow> pyval \<Rightarrow> pydict \<Rightarrow> bool" where
  "withdrawal_shown kec raw destination log eff \<longleftrightarrow>
     take 4 raw = selector kec WITHDRAW_SIG \<and> 100 \<le> length raw \<and> arg_address raw 1 = lower (strip destination) \<and>
     0 < arg_uint raw 2 \<and>
     (\<exists>d ts b. log = PDict d \<and> dget d ''topics'' = PList ts \<and> topic_shows (ts ! 1) (arg_address raw 0) \<and>
        fromhex (drop 2 (strip (py_str (dget d ''data'')))) = Some b \<and> 32 \<le> length b \<and>
        from_be (take 32 b) = arg_uint raw 2) \<and>
     eff = withdraw_report (arg_address raw 0) (arg_uint raw 2)"

definition conversion_shown :: "(bytes \<Rightarrow> bytes) \<Rightarrow> bytes \<Rightarrow> string \<Rightarrow> pyval \<Rightarrow> pydict \<Rightarrow> bool" where
  "conversion_shown kec raw destination log eff \<longleftrightarrow>
     take 4 raw = selector kec CONVERT_WITHDRAW_SIG \<and> 228 \<le> length raw \<and> arg_address raw 4 = lower (strip destination) \<and>
     0 < arg_uint raw 2 \<and>
     (\<exists>d ts b out. log = PDict d \<and> dget d ''topics'' = PList ts \<and> topic_shows (ts ! 1) (arg_address raw 0) \<and>
        topic_shows (ts ! 2) (arg_address raw 1) \<and> fromhex (drop 2 (strip (py_str (dget d ''data'')))) = Some b \<and>
        64 \<le> length b \<and> from_be (take 32 b) = arg_uint raw 2 \<and> out = from_be (take 32 (drop 32 b)) \<and>
        arg_uint raw 3 \<le> out \<and> 0 < out \<and>
        eff = convert_report (arg_address raw 0) (arg_address raw 1) (arg_uint raw 2) out (arg_uint raw 3))"

lemma selector_of_kind:
  assumes "withdrawal_calldata_kind kec calldata = Inr c" "hex_bytes (PStr calldata) = Some raw"
  shows "take 4 raw = selector kec (if c then CONVERT_WITHDRAW_SIG else WITHDRAW_SIG)"
  using assms by (auto simp: withdrawal_calldata_kind_def hex_of_inj split: if_splits)

lemma arg_address_shown: "topic_address v = arg_address raw i \<Longrightarrow> topic_shows v (arg_address raw i)"
  using topic_address_shows[of "arg_address raw i" v] by (simp add: arg_address_def)

lemma evidence_withdrawal_shown:
  assumes "withdraw_evidence kec receipt executor calldata destination eff words log"
    and "topic0 kec WITHDRAWAL_EVENT_SIG \<noteq> topic0 kec CONVERTED_EVENT_SIG"
  shows "\<exists>raw logs. fromhex (drop 2 (strip calldata)) = Some raw \<and> dget receipt ''logs'' = PList logs \<and>
    filter (pays_by kec WITHDRAWAL_EVENT_SIG 2 executor destination) logs = [log] \<and> withdrawal_shown kec raw destination log eff"
proof -
  note e = assms(1)[unfolded withdraw_evidence_def]
  from e obtain raw where raw: "fromhex (drop 2 (strip calldata)) = Some raw" "hex_bytes (PStr calldata) = Some raw"
      "100 \<le> length raw" "\<forall>i < 3. words ! i = arg_uint raw i \<and> word_address (words ! i) = arg_address raw i"
    using calldata_words_args[of calldata 3 words] by auto
  have at: "words ! i = arg_uint raw i" "word_address (words ! i) = arg_address raw i" if "i < 3" for i using raw(4) that by blast+
  have w: "words ! 2 = arg_uint raw 2" "word_address (words ! 0) = arg_address raw 0" "word_address (words ! 1) = arg_address raw 1"
    by (rule at; simp)+
  have D: "address_of (PStr destination) \<noteq> []" using e w(3) by (auto simp: arg_address_def)
  from e D assms(2) obtain logs where l: "dget receipt ''logs'' = PList logs"
      "filter (pays_by kec WITHDRAWAL_EVENT_SIG 2 executor destination) logs = [log]" "pays_by kec WITHDRAWAL_EVENT_SIG 2 executor destination log"
    using matching_pays_by[of executor destination kec WITHDRAWAL_EVENT_SIG 2 receipt log] by (auto simp: destination_topic_index_def)
  from l(3) obtain d ts where d: "log = PDict d" "dget d ''topics'' = PList ts" by (auto simp: pays_by_def)
  have lt: "log_topics log = ts" by (simp add: log_topics_def d)
  from e w lt have "topic_shows (ts ! 1) (arg_address raw 0)" by (intro arg_address_shown) simp
  moreover from log_data_word[OF d(1), of 0 "arg_uint raw 2"] e w obtain b where
      "fromhex (drop 2 (strip (py_str (dget d ''data'')))) = Some b" "32 \<le> length b" "from_be (take 32 b) = arg_uint raw 2" by auto
  moreover have "arg_address raw 1 = lower (strip destination)" using e w(3) address_of_shape[OF D] by simp
  moreover have "take 4 raw = selector kec WITHDRAW_SIG" using selector_of_kind[of kec calldata False raw] e raw(2) by simp
  ultimately have "withdrawal_shown kec raw destination log eff"
    using e w raw(3) d by (auto simp: withdrawal_shown_def)
  with raw(1) l show ?thesis by blast
qed

lemma evidence_conversion_shown:
  assumes "convert_evidence kec receipt executor calldata destination eff words log"
  shows "\<exists>raw logs. fromhex (drop 2 (strip calldata)) = Some raw \<and> dget receipt ''logs'' = PList logs \<and>
    filter (pays_by kec CONVERTED_EVENT_SIG 3 executor destination) logs = [log] \<and> conversion_shown kec raw destination log eff"
proof -
  note e = assms(1)[unfolded convert_evidence_def]
  from e obtain raw where raw: "fromhex (drop 2 (strip calldata)) = Some raw" "hex_bytes (PStr calldata) = Some raw"
      "228 \<le> length raw" "\<forall>i < 7. words ! i = arg_uint raw i \<and> word_address (words ! i) = arg_address raw i"
    using calldata_words_args[of calldata 7 words] by auto
  have at: "words ! i = arg_uint raw i" "word_address (words ! i) = arg_address raw i" if "i < 7" for i using raw(4) that by blast+
  have w: "words ! 2 = arg_uint raw 2" "words ! 3 = arg_uint raw 3" "word_address (words ! 0) = arg_address raw 0"
      "word_address (words ! 1) = arg_address raw 1" "word_address (words ! 4) = arg_address raw 4"
    by (rule at; simp)+
  have D: "address_of (PStr destination) \<noteq> []" using e w(5) by (auto simp: arg_address_def)
  from e D obtain logs where l: "dget receipt ''logs'' = PList logs"
      "filter (pays_by kec CONVERTED_EVENT_SIG 3 executor destination) logs = [log]" "pays_by kec CONVERTED_EVENT_SIG 3 executor destination log"
    using matching_pays_by[of executor destination kec CONVERTED_EVENT_SIG 3 receipt log] by (auto simp: destination_topic_index_def)
  from l(3) obtain d ts where d: "log = PDict d" "dget d ''topics'' = PList ts" by (auto simp: pays_by_def)
  have lt: "log_topics log = ts" by (simp add: log_topics_def d)
  from e w lt have t: "topic_shows (ts ! 1) (arg_address raw 0)" "topic_shows (ts ! 2) (arg_address raw 1)"
    by (intro arg_address_shown; simp)+
  from e w obtain out where out: "uint_word (log_data log) 1 = Some out" "arg_uint raw 3 \<le> out" "0 < out"
      "eff = convert_report (arg_address raw 0) (arg_address raw 1) (arg_uint raw 2) out (arg_uint raw 3)" by auto
  from log_data_word[OF d(1) out(1)] obtain b where
      b: "fromhex (drop 2 (strip (py_str (dget d ''data'')))) = Some b" "64 \<le> length b" "out = from_be (take 32 (drop 32 b))" by auto
  from log_data_word[OF d(1), of 0 "arg_uint raw 2"] e w b(1) have "from_be (take 32 b) = arg_uint raw 2" by auto
  moreover have "arg_address raw 4 = lower (strip destination)" using e w(5) address_of_shape[OF D] by simp
  moreover have "take 4 raw = selector kec CONVERT_WITHDRAW_SIG" using selector_of_kind[of kec calldata True raw] e raw(2) by simp
  moreover have "0 < arg_uint raw 2" using e w(1) by simp
  ultimately have "conversion_shown kec raw destination log eff"
    using t out b raw(3) d unfolding conversion_shown_def by blast
  with raw(1) l show ?thesis by blast
qed

text \<open>C33: an ok effect is never inferred. Behind each stands calldata of a plain withdrawal or of a conversion that names
  the destination as its recipient and an amount above zero, and exactly one log of the receipt that is the executor's
  event for it and pays the destination; that log shows the token and the amount the calldata asks for (for a
  conversion both tokens, the amount put in and an output above zero of at least the requested minimum), and the effect
  reports these figures and no others.\<close>

theorem withdraw_effect_sound:
  assumes "decode_external_withdrawal_effect kec receipt executor calldata destination = Inr eff"
    and "dget eff ''ok'' = PBool True" and "topic0 kec WITHDRAWAL_EVENT_SIG \<noteq> topic0 kec CONVERTED_EVENT_SIG"
  shows "\<exists>raw logs log. fromhex (drop 2 (strip calldata)) = Some raw \<and> dget receipt ''logs'' = PList logs \<and>
     (filter (pays_by kec WITHDRAWAL_EVENT_SIG 2 executor destination) logs = [log] \<and> withdrawal_shown kec raw destination log eff \<or>
      filter (pays_by kec CONVERTED_EVENT_SIG 3 executor destination) logs = [log] \<and> conversion_shown kec raw destination log eff)"
  using effect_ok_evidence[OF assms(1,2)] evidence_withdrawal_shown[OF _ assms(3)] evidence_conversion_shown by meson

theorem withdraw_effect_sound_witness:
  "\<exists>raw logs log. fromhex (drop 2 (strip demo_calldata)) = Some raw \<and> dget demo_receipt ''logs'' = PList logs \<and>
     (filter (pays_by demo_kec WITHDRAWAL_EVENT_SIG 2 (demo_addr 9) (demo_addr 3)) logs = [log] \<and>
        withdrawal_shown demo_kec raw (demo_addr 3) log demo_effect \<or>
      filter (pays_by demo_kec CONVERTED_EVENT_SIG 3 (demo_addr 9) (demo_addr 3)) logs = [log] \<and>
        conversion_shown demo_kec raw (demo_addr 3) log demo_effect)"
  by (rule withdraw_effect_sound[OF demo_decodes _ demo_kec_distinct(2)]) (simp add: demo_effect_def)

text \<open>The log the executor emits for a conversion: the tokens are indexed, the amounts and the recipient are data.\<close>

definition conversion_log :: "(bytes \<Rightarrow> bytes) \<Rightarrow> string \<Rightarrow> string \<Rightarrow> string \<Rightarrow> nat \<Rightarrow> nat \<Rightarrow> string \<Rightarrow> pyval" where
  "conversion_log kec executor token_in token_out amount_in amount_out to = PDict
     [(''address'', PStr executor),
      (''topics'', PList [PStr (topic0 kec CONVERTED_EVENT_SIG), PStr (''0x'' @ hex_of (addr_w token_in)),
         PStr (''0x'' @ hex_of (addr_w token_out))]),
      (''data'', PStr (''0x'' @ hex_of (to_be 32 amount_in @ to_be 32 amount_out @ addr_w to)))]"

text \<open>C34: a conversion never settles. The executor contract does not index the recipient of its conversion event, so
  the event has three topics and carries the recipient as data, while the decoder looks for it in a fourth topic: for
  calldata of a conversion and a receipt whose conversion events are as the contract emits them, however well they
  agree with the calldata, the answer is that the event is missing.\<close>

theorem contract_conversion_unsettled:
  assumes "hash32 kec" and "selector kec WITHDRAW_SIG \<noteq> selector kec CONVERT_WITHDRAW_SIG"
    and "is_addr executor" and "is_addr ti" and "is_addr to" and "is_addr dst" and "list_all uint256 [ain, mo, fee, dl]" and "0 < ain"
    and "build_convert_and_withdraw_calldata kec ti to ain mo dst fee dl = Inr cd"
    and "dget receipt ''logs'' = PList logs"
    and "\<forall>log \<in> set logs. first_topic log = topic0 kec CONVERTED_EVENT_SIG \<longrightarrow>
      (\<exists>e a b i out r. log = conversion_log kec e a b i out r)"
  shows "decode_external_withdrawal_effect kec receipt executor cd dst = Inr (reason_code ''convert_receipt_event_missing'')"
proof -
  have cd: "cd = ''0x'' @ hex_of (selector kec CONVERT_WITHDRAW_SIG @ concat [addr_w ti, addr_w to,
      to_be 32 (nat ain), to_be 32 (nat mo), addr_w dst, to_be 32 (nat fee), to_be 32 (nat dl)])"
    using assms(9) unfolding build_convert_ok[OF assms(4-7)] by simp
  note words = convert_words[OF assms(1,4-7), folded cd]
  have kind: "withdrawal_calldata_kind kec cd = Inr True" unfolding cd by (rule kind_of_hex(2)[OF assms(1,2)])
  have adr: "address_of (PStr executor) = lower executor" "address_of (PStr dst) = lower dst"
    using assms(3,6) by (simp_all add: address_of_addr)
  have ne: "lower executor \<noteq> []" "lower dst \<noteq> []" using assms(3,6) by (auto simp: is_addr_def lower_def)
  have three: "\<not> log_matches_withdrawal_destination kec (conversion_log kec e a b i out r) E D" for e a b i out r E D
    by (simp add: log_matches_withdrawal_destination_def conversion_log_def dget_def dget_or_def destination_topic_index_def)
  have "filter (\<lambda>l. first_topic l = topic0 kec CONVERTED_EVENT_SIG) (matching_logs kec receipt E D) = []" for E D
    using assms(11) three by (auto simp: matching_logs_def assms(10) filter_empty_conv)
  then have "withdrawal_event kec receipt E D True = Inl ''convert_receipt_event_missing''" for E D
    by (simp add: withdrawal_event_def event_log_def Let_def)
  moreover have "withdrawal_inputs cd (lower dst) True \<noteq> Inl r" for r
    unfolding withdrawal_inputs_def using assms(6,8) by (simp add: words expected_inputs_def word_address_addr Let_def)
  ultimately show ?thesis
    unfolding decode_external_withdrawal_effect_def Let_def adr kind
    by (cases "withdrawal_inputs cd (lower dst) True") (auto simp: ne decode_withdrawal_components_def)
qed

theorem contract_conversion_unsettled_witness:
  "\<exists>cd. build_convert_and_withdraw_calldata demo_kec (demo_addr 1) (demo_addr 2) 7 5 (demo_addr 3) 500 0 = Inr cd \<and>
     decode_external_withdrawal_effect demo_kec
       [(''logs'', PList [conversion_log demo_kec (demo_addr 9) (demo_addr 1) (demo_addr 2) 7 6 (demo_addr 3)])] (demo_addr 9) cd
       (demo_addr 3) = Inr (reason_code ''convert_receipt_event_missing'')"
proof -
  have u: "list_all uint256 [7, 5, 500, 0]" by (simp add: uint256_def)
  let ?l = "conversion_log demo_kec (demo_addr 9) (demo_addr 1) (demo_addr 2) 7 6 (demo_addr 3)"
  have l: "dget [(''logs'', PList [?l])] ''logs'' = PList [?l]" by (simp add: dget_def dget_or_def)
  obtain cd where cd: "build_convert_and_withdraw_calldata demo_kec (demo_addr 1) (demo_addr 2) 7 5 (demo_addr 3) 500 0 = Inr cd"
    using build_convert_ok[OF is_addr_demo is_addr_demo is_addr_demo u] by blast
  have "decode_external_withdrawal_effect demo_kec [(''logs'', PList [?l])] (demo_addr 9) cd (demo_addr 3)
      = Inr (reason_code ''convert_receipt_event_missing'')"
    by (rule contract_conversion_unsettled[OF demo_kec_hash32 demo_kec_distinct(1) is_addr_demo is_addr_demo is_addr_demo
          is_addr_demo u _ cd l]) (simp, metis set_ConsD empty_iff empty_set)
  with cd show ?thesis by blast
qed

lemma withdraw_effect_total_aux:
  "\<exists>eff. decode_external_withdrawal_effect kec receipt executor calldata destination = Inr eff \<and>
     (dget eff ''ok'' = PBool True \<or> (\<exists>reason. eff = reason_code reason))"
proof -
  obtain r where r: "decode_external_withdrawal_effect kec receipt executor calldata destination = r" by simp
  then have "\<exists>eff. r = Inr eff \<and> (dget eff ''ok'' = PBool True \<or> (\<exists>reason. eff = reason_code reason))"
  proof (cases rule: decode_effect_cases)
    case (refused reason)
    then show ?thesis by auto
  next
    case (withdraw words topics data)
    then show ?thesis by (auto simp: expected_inputs_def)
  next
    case (convert words topics data)
    then show ?thesis by (auto simp: expected_inputs_def)
  qed
  with r show ?thesis by simp
qed

text \<open>Decoding an effect never raises, and it answers ok or a reason code, whatever the receipt,
  the calldata and the addresses are.\<close>

theorem withdraw_effect_total:
  "\<exists>eff. decode_external_withdrawal_effect kec receipt executor calldata destination = Inr eff \<and>
     (dget eff ''ok'' = PBool True \<or> (\<exists>reason. eff = reason_code reason))"
  by (rule withdraw_effect_total_aux)

section \<open>Posting the effect\<close>

definition line_amount :: "pyval \<Rightarrow> int" where
  "line_amount l = (case dget (as_dict l) ''amount'' of PInt i \<Rightarrow> i | _ \<Rightarrow> 0)"

definition tx_lines :: "pydict \<Rightarrow> pyval list" where
  "tx_lines tx = (case dget tx ''lines'' of PList ls \<Rightarrow> ls | _ \<Rightarrow> [])"

lemma word_below_parse_limit:
  fixes n :: nat
  assumes n: "n < 2 ^ 256"
  shows "n < 10 ^ 4300"
proof -
  have "(2 :: nat) ^ 256 \<le> 2 ^ 4300" by (rule power_increasing) simp_all
  also have "(2 :: nat) ^ 4300 \<le> 10 ^ 4300" by (rule power_mono) simp_all
  finally show ?thesis using n by (rule less_le_trans[rotated])
qed

lemma uint_word_bound: "uint_word data i = Some n \<Longrightarrow> n < 2 ^ 256"
  using from_be_word[of "drop (i * 32) data"] by (auto simp: uint_word_def split: if_splits)

lemma calldata_words_bound: "calldata_words cd n = Some ws \<Longrightarrow> w \<in> set ws \<Longrightarrow> w < 2 ^ 256"
proof -
  assume "calldata_words cd n = Some ws" and "w \<in> set ws"
  then obtain i raw where "w = from_be (take 32 (drop (4 + i * 32) raw))"
    by (auto simp: calldata_words_def split: option.splits if_splits)
  then show "w < 2 ^ 256" using from_be_word[of "drop (4 + i * 32) raw"] by simp
qed

lemma calldata_words_length: "calldata_words cd n = Some ws \<Longrightarrow> length ws = n"
  by (auto simp: calldata_words_def split: option.splits if_splits)

lemma address_of_word_address: "n < 2 ^ 256 \<Longrightarrow> address_of (PStr (word_address n)) = word_address n"
proof -
  assume "n < 2 ^ 256"
  then have "from_be (to_be 32 n) = n" by (intro from_be_to_be) (simp add: pow_256_32)
  then have "word_address n = ''0x'' @ hex_of (drop 12 (to_be 32 n))"
    using word_address_word[of "to_be 32 n"] by simp
  then show ?thesis by (simp only: address_of_hex length_drop length_to_be)
qed

lemma canonical_of_amount:
  assumes "dget eff ''token_out'' = PStr (word_address w)" and "w < 2 ^ 256"
    and "dget eff ''amount_out'' = PStr (show_nat n)" and "n < 2 ^ 256" and "0 < n"
  shows "\<exists>tx. canonical_external_withdrawal_transaction chain rid intent frm dest cd eff ts = Inr tx \<and>
     map line_amount (tx_lines tx) = [- int n, int n] \<and> dget tx ''receipt_id'' = PStr rid \<and>
     (\<forall>l \<in> set (tx_lines tx). dget (as_dict l) ''asset'' = PStr (word_address w))"
proof -
  have "show_nat n \<noteq> []" using show_base_nonempty[of 10 n] by (simp add: show_nat_def)
  then have "por (por (PStr (show_nat n)) (dget eff ''amount'')) (PStr ''0'') = PStr (show_nat n)"
    by (simp add: por_def)
  moreover have "int_of_str (show_nat n) = Inr (int n)"
    by (rule int_of_str_show_nat) (rule word_below_parse_limit[OF assms(4)])
  moreover have "word_address w \<noteq> []" by (simp add: word_address_def Let_def)
  ultimately show ?thesis
    using assms by (simp add: canonical_external_withdrawal_transaction_def address_of_word_address
        external_withdrawal_lines_def tx_lines_def line_amount_def Let_def)
qed

lemma effect_posts:
  assumes "decode_external_withdrawal_effect kec receipt executor calldata destination = Inr eff"
    and "dget eff ''ok'' = PBool True"
  shows "\<exists>tx n token. canonical_external_withdrawal_transaction chain rid intent frm dest cd eff ts = Inr tx \<and>
     0 < n \<and> dget eff ''amount_out'' = PStr (show_nat n) \<and> dget eff ''token_out'' = PStr token \<and>
     map line_amount (tx_lines tx) = [- int n, int n] \<and> sum_list (map line_amount (tx_lines tx)) = 0 \<and>
     dget tx ''receipt_id'' = PStr rid \<and> (\<forall>l \<in> set (tx_lines tx). dget (as_dict l) ''asset'' = PStr token)"
proof -
  from effect_ok_evidence[OF assms] obtain words log where
    "withdraw_evidence kec receipt executor calldata destination eff words log \<or>
     convert_evidence kec receipt executor calldata destination eff words log" by blast
  then obtain w n where "dget eff ''token_out'' = PStr (word_address w)" "w < 2 ^ 256"
      "dget eff ''amount_out'' = PStr (show_nat n)" "n < 2 ^ 256" "0 < n"
  proof
    assume "withdraw_evidence kec receipt executor calldata destination eff words log"
    then have c: "calldata_words calldata 3 = Some words" and "0 < words ! 2"
      and "dget eff ''token_out'' = PStr (word_address (words ! 0))" "dget eff ''amount_out'' = PStr (show_nat (words ! 2))"
      by (auto simp: withdraw_evidence_def withdraw_report_def)
    moreover from calldata_words_length[OF c] have "words ! 0 \<in> set words" "words ! 2 \<in> set words" by simp_all
    ultimately show thesis using calldata_words_bound[OF c] that[of "words ! 0" "words ! 2"] by blast
  next
    assume "convert_evidence kec receipt executor calldata destination eff words log"
    then obtain out where c: "calldata_words calldata 7 = Some words" and "0 < out"
      and u: "uint_word (log_data log) 1 = Some out"
      and "dget eff ''token_out'' = PStr (word_address (words ! 1))" "dget eff ''amount_out'' = PStr (show_nat out)"
      by (auto simp: convert_evidence_def convert_report_def)
    moreover from calldata_words_length[OF c] have "words ! 1 \<in> set words" by simp
    ultimately show thesis using calldata_words_bound[OF c] uint_word_bound[OF u] that[of "words ! 1" out] by blast
  qed
  from canonical_of_amount[OF this, of chain rid intent frm dest cd ts] obtain tx where
    "canonical_external_withdrawal_transaction chain rid intent frm dest cd eff ts = Inr tx"
    "map line_amount (tx_lines tx) = [- int n, int n]" "dget tx ''receipt_id'' = PStr rid"
    "\<forall>l \<in> set (tx_lines tx). dget (as_dict l) ''asset'' = PStr (word_address w)" by (elim exE conjE) (rule that)
  then show ?thesis using \<open>dget eff ''token_out'' = _\<close> \<open>dget eff ''amount_out'' = _\<close> \<open>0 < n\<close>
    by (intro exI[of _ tx] exI[of _ n] exI[of _ "word_address w"]) simp
qed

lemma effect_canonical_ok:
  assumes "decode_external_withdrawal_effect kec receipt executor calldata destination = Inr eff"
    and "dget eff ''ok'' = PBool True"
  shows "\<exists>tx. canonical_external_withdrawal_transaction chain rid intent frm dest cd eff ts = Inr tx"
  using effect_posts[OF assms, of chain rid intent frm dest cd ts] by (elim exE conjE) (rule exI)

text \<open>A proved effect always becomes a balanced ledger transaction for exactly the amount on chain:
  building it never raises, it carries the receipt id, both lines name the token paid out, and their
  amounts are minus and plus the amount the executor's log (or, for a conversion, its output) shows.\<close>

theorem effect_posts_balanced:
  assumes "decode_external_withdrawal_effect kec receipt executor calldata destination = Inr eff"
    and "dget eff ''ok'' = PBool True"
  shows "\<exists>tx n token. canonical_external_withdrawal_transaction chain rid intent frm dest cd eff ts = Inr tx \<and>
     0 < n \<and> dget eff ''amount_out'' = PStr (show_nat n) \<and> dget eff ''token_out'' = PStr token \<and>
     map line_amount (tx_lines tx) = [- int n, int n] \<and> sum_list (map line_amount (tx_lines tx)) = 0 \<and>
     dget tx ''receipt_id'' = PStr rid \<and> (\<forall>l \<in> set (tx_lines tx). dget (as_dict l) ''asset'' = PStr token)"
  using assms by (rule effect_posts)

theorem effect_posts_balanced_witness:
  "\<exists>tx n token. canonical_external_withdrawal_transaction ''base'' ''0xAB'' ''i'' [] [] [] demo_effect 5 = Inr tx \<and>
     0 < n \<and> dget demo_effect ''amount_out'' = PStr (show_nat n) \<and> dget demo_effect ''token_out'' = PStr token \<and>
     map line_amount (tx_lines tx) = [- int n, int n] \<and> sum_list (map line_amount (tx_lines tx)) = 0 \<and>
     dget tx ''receipt_id'' = PStr ''0xAB'' \<and> (\<forall>l \<in> set (tx_lines tx). dget (as_dict l) ''asset'' = PStr token)"
  by (rule effect_posts_balanced[OF demo_decodes]) (simp add: demo_effect_def)

end
