(* ===== verification/Tx_Status.thy ===== *)
theory Tx_Status
  imports Flashloan
begin

text \<open>
  \<open>tx_confirmation.py\<close> (what a submitted transaction's receipt proves) and
  \<open>offramp_tx_status.py\<close> (the same as an API payload, and the one proof reason several
  submissions share). The RPC client is a parameter: either of its two methods may be absent, and
  either may raise.
\<close>

section \<open>Classifying a submission\<close>

record submitted_tx =
  st_hash :: string
  st_status :: string
  st_receipt_status :: "int option"
  st_block :: "int option"
  st_receipt :: "pydict option"
  st_proof :: string

record tx_rpc =
  rpc_call :: "(string \<Rightarrow> rpc_result res) option"
  rpc_get_tx :: "(string \<Rightarrow> pyval res) option"

definition decode_hex_int :: "pyval \<Rightarrow> int option" where
  "decode_hex_int raw = (case raw of
     PInt n \<Rightarrow> Some n
   | PStr s \<Rightarrow>
       (let txt = strip s in
        if txt = [] then None
        else case (if starts_with ''0x'' txt then int_of_str16 txt else int_of_str txt) of
          Inl e \<Rightarrow> None | Inr n \<Rightarrow> Some n)
   | _ \<Rightarrow> None)"

definition plain_status :: "string \<Rightarrow> string \<Rightarrow> string \<Rightarrow> submitted_tx" where
  "plain_status tx_hash status reason =
     \<lparr>st_hash = tx_hash, st_status = status, st_receipt_status = None, st_block = None,
      st_receipt = None, st_proof = reason\<rparr>"

definition receipt_verdict :: "string \<Rightarrow> pydict \<Rightarrow> submitted_tx" where
  "receipt_verdict tx_hash receipt =
     (let status = decode_hex_int (dget receipt ''status''); block = decode_hex_int (dget receipt ''blockNumber'') in
      if status = Some 1 then
        \<lparr>st_hash = tx_hash, st_status = ''mined_success'', st_receipt_status = Some 1, st_block = block,
         st_receipt = Some receipt, st_proof = ''receipt_mined''\<rparr>
      else if status = Some 0 then
        \<lparr>st_hash = tx_hash, st_status = ''mined_reverted'', st_receipt_status = Some 0, st_block = block,
         st_receipt = Some receipt, st_proof = ''receipt_mined''\<rparr>
      else
        \<lparr>st_hash = tx_hash, st_status = ''receipt_unavailable'', st_receipt_status = None, st_block = block,
         st_receipt = Some receipt, st_proof = ''receipt_observed''\<rparr>)"

definition private_mode :: "string \<Rightarrow> bool" where
  "private_mode mode \<longleftrightarrow> mode \<in> {''private'', ''protected_rpc''}"

definition degraded_lookup :: "string \<Rightarrow> string \<Rightarrow> submitted_tx" where
  "degraded_lookup mode tx_hash =
     plain_status tx_hash (if private_mode mode then ''sent'' else ''receipt_unavailable'') ''receipt_lookup_degraded''"

text \<open>Without a receipt: a private send stays sent, a public one is looked up by hash.\<close>

definition without_receipt :: "tx_rpc \<Rightarrow> string \<Rightarrow> string \<Rightarrow> submitted_tx res" where
  "without_receipt rpc mode tx_hash =
     (if private_mode mode then Inr (plain_status tx_hash ''sent'' ''private_no_public_receipt'')
      else case rpc_get_tx rpc of
        None \<Rightarrow> Inr (plain_status tx_hash ''receipt_unavailable'' ''tx_not_visible'')
      | Some get \<Rightarrow> rbind (get tx_hash) (\<lambda>tx.
          Inr (if is_mapping tx then plain_status tx_hash ''pending'' ''tx_visible''
               else plain_status tx_hash ''receipt_unavailable'' ''tx_not_visible'')))"

text \<open>
  \<open>receipt not in {None, ""}\<close> hashes the receipt, which raises TypeError for a list.
\<close>

definition assess_submitted_tx :: "tx_rpc \<Rightarrow> string \<Rightarrow> pyval \<Rightarrow> submitted_tx res" where
  "assess_submitted_tx rpc tx_hash send_mode =
     (let mode = lower (strip (py_str (por send_mode (PStr ''public'')))) in
      case rpc_call rpc of
        None \<Rightarrow> without_receipt rpc mode tx_hash
      | Some call \<Rightarrow> rbind (call tx_hash) (\<lambda>r.
          if rr_ok r then
            (case rr_result r of
               PDict receipt \<Rightarrow> Inr (receipt_verdict tx_hash receipt)
             | PList xs \<Rightarrow> Inl TypeError
             | receipt \<Rightarrow>
                 if \<not> none_or_empty receipt then Inr (degraded_lookup mode tx_hash)
                 else without_receipt rpc mode tx_hash)
          else Inr (degraded_lookup mode tx_hash)))"

section \<open>Payloads\<close>

definition submitted_tx_status_payload :: "submitted_tx \<Rightarrow> pydict" where
  "submitted_tx_status_payload r =
     [(''tx_status'', PStr (st_status r))]
     @ (if st_proof r \<noteq> [] then [(''tx_proof_reason'', PStr (st_proof r))] else [])
     @ (case st_receipt_status r of None \<Rightarrow> [] | Some n \<Rightarrow> [(''receipt_status'', PInt n)])
     @ (case st_block r of None \<Rightarrow> [] | Some n \<Rightarrow> [(''block_number'', PInt n)])
     @ (case st_receipt r of None \<Rightarrow> [] | Some d \<Rightarrow> [(''receipt'', PDict d)])"

definition distinct_texts :: "string list \<Rightarrow> string list" where
  "distinct_texts xs = filter (\<lambda>s. s \<noteq> []) (remdups xs)"

definition item_proof :: "pydict \<Rightarrow> string" where
  "item_proof item = str_or_empty (por (dget item ''tx_proof_reason'') (dget item ''proof_reason''))"

definition aggregate_submission_proof_reason :: "pyval list \<Rightarrow> string" where
  "aggregate_submission_proof_reason items =
     (let normalized = map as_dict (filter is_mapping items) in
      if normalized = [] then []
      else if length (distinct_texts (map (\<lambda>i. str_or_empty (dget i ''tx_status'')) normalized)) \<noteq> 1 then []
      else let proofs = distinct_texts (map item_proof normalized) in
        if length proofs \<noteq> 1 then [] else hd proofs)"

section \<open>Properties\<close>

text \<open>A transaction is reported mined only on a receipt: whenever the assessment says mined_success
  (or mined_reverted), the RPC answered the receipt query with a dictionary whose status field
  decodes to 1 (to 0), and that receipt is attached.\<close>

theorem mined_needs_receipt:
  assumes "assess_submitted_tx rpc tx_hash send_mode = Inr st"
    and "st_status st = ''mined_success'' \<or> st_status st = ''mined_reverted''"
  shows "\<exists>call r receipt. rpc_call rpc = Some call \<and> call tx_hash = Inr r \<and> rr_ok r \<and> rr_result r = PDict receipt \<and>
     st_receipt st = Some receipt \<and>
     decode_hex_int (dget receipt ''status'') = Some (if st_status st = ''mined_success'' then 1 else 0)"
proof -
  have no: "without_receipt rpc m tx_hash \<noteq> Inr st" "degraded_lookup m tx_hash \<noteq> st" for m
    using assms(2) by (auto simp: without_receipt_def degraded_lookup_def plain_status_def rbind_eq_Inr
        split: if_splits option.splits)
  from assms(1) no(1) obtain call where call: "rpc_call rpc = Some call"
    by (auto simp: assess_submitted_tx_def Let_def split: option.splits)
  with assms(1) obtain r where r: "call tx_hash = Inr r"
    by (auto simp: assess_submitted_tx_def Let_def rbind_eq_Inr)
  with assms(1) call no obtain receipt where rec: "rr_ok r" "rr_result r = PDict receipt" "receipt_verdict tx_hash receipt = st"
    by (auto simp: assess_submitted_tx_def Let_def rbind_eq_Inr split: pyval.splits if_splits)
  then show ?thesis
    using call r assms(2) by (auto simp: receipt_verdict_def Let_def split: if_splits)
qed

definition demo_rpc :: "pyval \<Rightarrow> tx_rpc" where
  "demo_rpc result = \<lparr>rpc_call = Some (\<lambda>h. Inr \<lparr>rr_ok = True, rr_result = result, rr_error = PNone\<rparr>), rpc_get_tx = None\<rparr>"

theorem mined_needs_receipt_witness:
  "\<exists>call r receipt. rpc_call (demo_rpc (PDict [(''status'', PInt 1)])) = Some call \<and> call ''0xab'' = Inr r \<and> rr_ok r \<and>
     rr_result r = PDict receipt \<and> decode_hex_int (dget receipt ''status'') = Some 1"
  using mined_needs_receipt[of "demo_rpc (PDict [(''status'', PInt 1)])" "''0xab''" PNone
      "receipt_verdict ''0xab'' [(''status'', PInt 1)]"]
  by (auto simp: demo_rpc_def assess_submitted_tx_def receipt_verdict_def decode_hex_int_def dget_def dget_or_def)

text \<open>With a client whose calls return, the assessment raises in exactly one case: the node
  answers the receipt query with a JSON list, which the membership test cannot hash.\<close>

theorem assess_raises_only_on_list:
  assumes "rpc_call rpc = Some call" and "call tx_hash = Inr r"
    and "case rpc_get_tx rpc of None \<Rightarrow> True | Some get \<Rightarrow> \<exists>tx. get tx_hash = Inr tx"
  shows "(\<exists>e. assess_submitted_tx rpc tx_hash send_mode = Inl e) \<longleftrightarrow> rr_ok r \<and> (\<exists>xs. rr_result r = PList xs)"
proof -
  have "\<exists>st. without_receipt rpc m tx_hash = Inr st" for m
    using assms(3) by (cases "rpc_get_tx rpc") (auto simp: without_receipt_def)
  then have n: "without_receipt rpc m tx_hash \<noteq> Inl e" for m e by (metis sum.distinct(1))
  show ?thesis
    using n by (cases "rr_result r") (auto simp: assess_submitted_tx_def assms(1,2) Let_def split: if_splits)
qed

theorem assess_raises_only_on_list_witness:
  "\<exists>e. assess_submitted_tx (demo_rpc (PList [])) ''0xab'' PNone = Inl e"
  using assess_raises_only_on_list[of "demo_rpc (PList [])" "\<lambda>h. Inr \<lparr>rr_ok = True, rr_result = PList [], rr_error = PNone\<rparr>"
      "''0xab''" "\<lparr>rr_ok = True, rr_result = PList [], rr_error = PNone\<rparr>" PNone]
  by (simp add: demo_rpc_def)

lemma set_distinct_texts: "set (distinct_texts xs) = set xs - {[]}"
  by (auto simp: distinct_texts_def)

lemma distinct_distinct_texts: "distinct (distinct_texts xs)"
  by (simp add: distinct_texts_def)

text \<open>The aggregate reports a reason only when it is unanimous: a non-empty answer is the one
  non-empty reason every item that states one gives, and all items that state a status state the
  same.\<close>

theorem aggregate_reason_unanimous:
  assumes "aggregate_submission_proof_reason items = reason" and "reason \<noteq> []"
  shows "(\<forall>i \<in> set items. is_mapping i \<longrightarrow> item_proof (as_dict i) \<in> {[], reason}) \<and>
     (\<exists>status. \<forall>i \<in> set items. is_mapping i \<longrightarrow> str_or_empty (dget (as_dict i) ''tx_status'') \<in> {[], status})"
proof -
  let ?n = "map as_dict (filter is_mapping items)"
  let ?s = "distinct_texts (map (\<lambda>i. str_or_empty (dget i ''tx_status'')) ?n)" and ?p = "distinct_texts (map item_proof ?n)"
  from assms have l: "length ?s = 1" "length ?p = 1" and r: "reason = hd ?p"
    by (auto simp: aggregate_submission_proof_reason_def Let_def split: if_splits)
  then obtain s where s: "?s = [s]" and p: "?p = [reason]" by (auto simp: length_Suc_conv)
  have "item_proof (as_dict i) \<in> {[], reason}" if "i \<in> set items" "is_mapping i" for i
    using that set_distinct_texts[of "map item_proof ?n"] unfolding p by auto
  moreover have "str_or_empty (dget (as_dict i) ''tx_status'') \<in> {[], s}" if "i \<in> set items" "is_mapping i" for i
    using that set_distinct_texts[of "map (\<lambda>i. str_or_empty (dget i ''tx_status'')) ?n"] unfolding s by auto
  ultimately show ?thesis by blast
qed

theorem aggregate_reason_unanimous_witness:
  "item_proof [(''tx_status'', PStr ''sent''), (''proof_reason'', PStr ''r'')] \<in> {[], ''r''}"
  using aggregate_reason_unanimous[of "[PDict [(''tx_status'', PStr ''sent''), (''proof_reason'', PStr ''r'')]]" "''r''"]
  by (simp add: aggregate_submission_proof_reason_def distinct_texts_def item_proof_def por_def)

end
