(* ===== verification/Ledger_Journal.thy ===== *)
theory Ledger_Journal
  imports Byte_Codec
begin

text \<open>
  \<open>persistence/repositories/ledger_repository.py\<close> and \<open>capital_event_repository.py\<close>: the
  transaction journal and the capital event bus, two SQLite tables in insertion order. A statement
  that raises inside \<open>with db.connect()\<close> is not committed; an operation therefore returns the
  tables it leaves behind beside its result. \<open>idempotent_journal\<close> is the contract the settlement
  code relies on.
\<close>

section \<open>Tables\<close>

record ledger_row =
  lr_chain :: string
  lr_transaction_id :: string
  lr_ts_ms :: int
  lr_tx_type :: string
  lr_receipt_id :: string
  lr_payload :: pyval

record capital_row =
  ce_chain :: string
  ce_ts_ms :: int
  ce_domain :: string
  ce_event_type :: string
  ce_source :: string
  ce_transaction_id :: string
  ce_receipt_id :: string
  ce_entity_id :: string
  ce_payload :: pyval

record ledger_db =
  db_transactions :: "ledger_row list"
  db_capital_events :: "capital_row list"

text \<open>The repository object: the event bus it publishes to (its chain), and the default chain.\<close>

record ledger_repo =
  lg_capital :: "string option"
  lg_default_chain :: string

definition set_capital_event_repo :: "string option \<Rightarrow> string option \<Rightarrow> ledger_repo \<Rightarrow> ledger_repo" where
  "set_capital_event_repo repo chain lg =
     (case chain of None \<Rightarrow> lg\<lparr>lg_capital := repo\<rparr>
      | Some c \<Rightarrow> lg\<lparr>lg_capital := repo, lg_default_chain := c\<rparr>)"

text \<open>SQLite stores 64-bit integers; Python refuses a larger one with OverflowError.\<close>

definition sql_int :: "int \<Rightarrow> int res" where
  "sql_int n = (if - (2 ^ 63) \<le> n \<and> n < 2 ^ 63 then Inr n else Inl OverflowError)"

text \<open>\<open>json.loads(json.dumps(v, sort_keys=True))\<close>: the same value, keys sorted at every level.\<close>

fun json_sorted :: "pyval \<Rightarrow> pyval" where
  "json_sorted (PDict d) = PDict (sort_key fst (map (\<lambda>(k, v). (k, json_sorted v)) d))"
| "json_sorted (PList xs) = PList (map json_sorted xs)"
| "json_sorted v = v"

lemma map_of_sorted:
  assumes "distinct (map fst d)"
  shows "map_of (sort_key fst d) = map_of d"
proof -
  have "distinct (map fst (sort_key fst d)) = distinct (map fst d)"
    by (simp add: distinct_map)
  with assms show ?thesis by (subst map_of_inject_set) simp_all
qed

lemma dget_json_sorted:
  assumes "distinct (map fst d)"
  shows "dget (as_dict (json_sorted (PDict d))) k = (if map_of d k = None then PNone else json_sorted (dget d k))"
proof -
  let ?d = "map (\<lambda>(k, v). (k, json_sorted v)) d"
  have "map_of ?d k = map_option json_sorted (map_of d k)" by (induction d) auto
  moreover have "distinct (map fst ?d)" using assms by (simp add: comp_def case_prod_unfold)
  ultimately show ?thesis by (simp add: dget_def dget_or_def map_of_sorted split: option.split)
qed

text \<open>
  \<open>dict(v or {})\<close>; texts and lists, whose elements would have to be pairs, are taken to raise.
\<close>

definition dict_or_empty :: "pyval \<Rightarrow> pydict res" where
  "dict_or_empty v =
     (if \<not> truthy v then Inr []
      else case v of PDict d \<Rightarrow> Inr d | PStr s \<Rightarrow> Inl ValueError | PList xs \<Rightarrow> Inl ValueError
      | _ \<Rightarrow> Inl TypeError)"

text \<open>\<open>[dict(line) for line in list(v or []) if isinstance(line, dict)]\<close>\<close>

definition dict_lines :: "pyval \<Rightarrow> pydict list res" where
  "dict_lines v =
     (if \<not> truthy v then Inr []
      else case v of PList xs \<Rightarrow> Inr (map as_dict (filter is_mapping xs))
      | PStr s \<Rightarrow> Inr [] | PDict d \<Rightarrow> Inr [] | _ \<Rightarrow> Inl TypeError)"

definition str_get :: "pydict \<Rightarrow> string \<Rightarrow> string" where
  "str_get d k = str_or_empty (dget d k)"

definition str_get_or :: "pydict \<Rightarrow> string \<Rightarrow> string \<Rightarrow> string" where
  "str_get_or d k dflt = py_str (por (dget d k) (PStr dflt))"

definition or_text :: "string \<Rightarrow> string \<Rightarrow> string" where
  "or_text a b = (if a = [] then b else a)"

section \<open>Capital events\<close>

definition append_event ::
    "string \<Rightarrow> int \<Rightarrow> string \<Rightarrow> string \<Rightarrow> string \<Rightarrow> pydict \<Rightarrow> string \<Rightarrow> string \<Rightarrow> string
     \<Rightarrow> ledger_db \<Rightarrow> ledger_db res" where
  "append_event chain ts domain event_type source payload transaction_id receipt_id entity_id db =
     (let d = or_text domain ''unknown''; e = or_text event_type ''unknown''; s = or_text source ''unknown'';
          event_payload = [(''ts_ms'', PInt ts), (''domain'', PStr d), (''event_type'', PStr e),
            (''source'', PStr s), (''transaction_id'', PStr transaction_id),
            (''receipt_id'', PStr receipt_id), (''entity_id'', PStr entity_id), (''payload'', PDict payload)] in
      rbind (sql_int ts) (\<lambda>t.
      Inr (db\<lparr>db_capital_events := db_capital_events db @
        [\<lparr>ce_chain = chain, ce_ts_ms = t, ce_domain = d, ce_event_type = e, ce_source = s,
          ce_transaction_id = transaction_id, ce_receipt_id = receipt_id, ce_entity_id = entity_id,
          ce_payload = json_sorted (PDict event_payload)\<rparr>]\<rparr>)))"

definition event_selected :: "string \<Rightarrow> string option \<Rightarrow> string option \<Rightarrow> string option \<Rightarrow> capital_row \<Rightarrow> bool" where
  "event_selected chain domain event_type source r =
     (ce_chain r = chain \<and>
      (case domain of None \<Rightarrow> True | Some d \<Rightarrow> d = [] \<or> ce_domain r = d) \<and>
      (case event_type of None \<Rightarrow> True | Some e \<Rightarrow> e = [] \<or> ce_event_type r = e) \<and>
      (case source of None \<Rightarrow> True | Some s \<Rightarrow> s = [] \<or> ce_source r = s))"

text \<open>\<open>ORDER BY ts_ms DESC, id DESC\<close>, and \<open>LIMIT\<close>, where a negative number is no limit.\<close>

definition newest_first :: "('r \<Rightarrow> int) \<Rightarrow> 'r list \<Rightarrow> 'r list" where
  "newest_first ts rows = rev (sort_key ts rows)"

definition sql_limit :: "int \<Rightarrow> 'r list \<Rightarrow> 'r list" where
  "sql_limit n rows = (if n < 0 then rows else take (nat n) rows)"

definition latest_event :: "string \<Rightarrow> string option \<Rightarrow> string option \<Rightarrow> string option \<Rightarrow> ledger_db \<Rightarrow> pydict" where
  "latest_event chain domain event_type source db =
     (case newest_first ce_ts_ms (filter (event_selected chain domain event_type source) (db_capital_events db)) of
        [] \<Rightarrow> [] | r # rs \<Rightarrow> as_dict (ce_payload r))"

definition event_tail :: "string \<Rightarrow> string option \<Rightarrow> int \<Rightarrow> ledger_db \<Rightarrow> pydict list" where
  "event_tail chain domain limit db =
     map as_dict (filter is_mapping (map ce_payload (sql_limit limit
       (newest_first ce_ts_ms (filter (event_selected chain domain None None) (db_capital_events db))))))"

section \<open>The journal\<close>

text \<open>\<open>except (OSError, RuntimeError, TypeError, ValueError): return\<close> around the publication.\<close>

definition publish_caught :: "pyerr \<Rightarrow> bool" where
  "publish_caught e = (e \<in> {OSError, RuntimeError, TypeError, ValueError})"

definition ledger_event :: "string \<Rightarrow> string \<Rightarrow> pydict \<Rightarrow> pydict \<Rightarrow> pydict list \<Rightarrow> ledger_db \<Rightarrow> ledger_db res" where
  "ledger_event bus entity payload metadata lines db =
     (let tx_type = str_get_or payload ''tx_type'' ''transaction'' in
      rbind (py_int (por (dget payload ''ts_ms'') (PInt 0))) (\<lambda>ts.
      append_event bus ts ''ledger'' tx_type ''ledger_repository''
        [(''chain'', PStr entity), (''tx_type'', PStr tx_type), (''line_count'', PInt (int (length lines))),
         (''accounts'', PList (map (\<lambda>l. PStr (str_get l ''account'')) lines)), (''metadata'', PDict metadata)]
        (str_get payload ''transaction_id'') (str_get payload ''receipt_id'') entity db))"

definition publish_capital_event :: "ledger_repo \<Rightarrow> string \<Rightarrow> pydict \<Rightarrow> ledger_db \<Rightarrow> ledger_db res" where
  "publish_capital_event lg chain payload db =
     (case lg_capital lg of None \<Rightarrow> Inr db
      | Some bus \<Rightarrow>
          rbind (dict_or_empty (dget payload ''metadata'')) (\<lambda>metadata.
          rbind (dict_lines (dget payload ''lines'')) (\<lambda>lines.
          case ledger_event bus (or_text chain (lg_default_chain lg)) payload metadata lines db of
            Inl e \<Rightarrow> if publish_caught e then Inr db else Inl e
          | Inr db' \<Rightarrow> Inr db')))"

text \<open>The row a payload becomes; evaluating it may raise (\<open>int(ts_ms)\<close>, the 64-bit column).\<close>

definition journal_row :: "string \<Rightarrow> string \<Rightarrow> string \<Rightarrow> pydict \<Rightarrow> ledger_row res" where
  "journal_row chain_name tx_type receipt_id payload =
     rbind (py_int (por (dget payload ''ts_ms'') (PInt 0))) (\<lambda>ts. rbind (sql_int ts) (\<lambda>t.
     Inr \<lparr>lr_chain = chain_name, lr_transaction_id = str_get payload ''transaction_id'', lr_ts_ms = t,
          lr_tx_type = tx_type, lr_receipt_id = receipt_id, lr_payload = json_sorted (PDict payload)\<rparr>))"

text \<open>With its own connection the row is committed before the event is published.\<close>

definition append_transaction :: "ledger_repo \<Rightarrow> string \<Rightarrow> pydict \<Rightarrow> bool \<Rightarrow> ledger_db \<Rightarrow> ledger_db \<times> unit res" where
  "append_transaction lg chain payload publish db =
     (let chain_name = or_text chain (lg_default_chain lg) in
      case journal_row chain_name (str_get payload ''tx_type'') (str_get payload ''receipt_id'') payload of
        Inl e \<Rightarrow> (db, Inl e)
      | Inr row \<Rightarrow>
          let db1 = db\<lparr>db_transactions := db_transactions db @ [row]\<rparr> in
          if publish then
            (case publish_capital_event lg chain_name payload db1 of Inl e \<Rightarrow> (db1, Inl e) | Inr db2 \<Rightarrow> (db2, Inr ()))
          else (db1, Inr ()))"

definition same_receipt :: "string \<Rightarrow> string \<Rightarrow> string \<Rightarrow> ledger_row \<Rightarrow> bool" where
  "same_receipt chain receipt tx_type r = (lr_chain r = chain \<and> lr_receipt_id r = receipt \<and> lr_tx_type r = tx_type)"

definition append_receipt_idempotent :: "ledger_repo \<Rightarrow> string \<Rightarrow> pydict \<Rightarrow> ledger_db \<Rightarrow> ledger_db \<times> bool res" where
  "append_receipt_idempotent lg chain payload db =
     (let receipt_id = str_get payload ''receipt_id''; tx_type = str_get payload ''tx_type'';
          chain_name = or_text chain (lg_default_chain lg) in
      if receipt_id = [] \<or> tx_type = [] then (db, Inl ValueError)
      else case journal_row chain_name tx_type receipt_id payload of
        Inl e \<Rightarrow> (db, Inl e)
      | Inr row \<Rightarrow>
          if list_ex (same_receipt chain_name receipt_id tx_type) (db_transactions db) then (db, Inr False)
          else (case publish_capital_event lg chain_name payload (db\<lparr>db_transactions := db_transactions db @ [row]\<rparr>) of
                  Inl e \<Rightarrow> (db, Inl e) | Inr db' \<Rightarrow> (db', Inr True)))"

definition chain_rows :: "string \<Rightarrow> ledger_db \<Rightarrow> ledger_row list" where
  "chain_rows chain db = filter (\<lambda>r. lr_chain r = chain) (db_transactions db)"

definition all_transactions :: "string \<Rightarrow> ledger_db \<Rightarrow> pyval list" where
  "all_transactions chain db = map lr_payload (sort_key lr_ts_ms (chain_rows chain db))"

definition prime_transactions :: "string \<Rightarrow> ledger_db \<Rightarrow> pydict list" where
  "prime_transactions chain db =
     filter (\<lambda>d. starts_with ''prime_loan_'' (str_get d ''tx_type''))
       (map as_dict (filter is_mapping (all_transactions chain db)))"

definition has_receipt_transaction :: "string \<Rightarrow> string \<Rightarrow> string \<Rightarrow> ledger_db \<Rightarrow> bool" where
  "has_receipt_transaction chain receipt_id tx_type db =
     (receipt_id \<noteq> [] \<and>
      list_ex (same_receipt chain receipt_id (or_text tx_type ''receipt_settlement'')) (db_transactions db))"

definition delete_transaction :: "string \<Rightarrow> string \<Rightarrow> ledger_db \<Rightarrow> ledger_db" where
  "delete_transaction chain transaction_id db =
     db\<lparr>db_transactions := filter (\<lambda>r. \<not> (lr_chain r = chain \<and> lr_transaction_id r = transaction_id)) (db_transactions db)\<rparr>"

definition transactions_tail :: "string \<Rightarrow> int \<Rightarrow> ledger_db \<Rightarrow> pyval list" where
  "transactions_tail chain limit db = map lr_payload (sql_limit limit (newest_first lr_ts_ms (chain_rows chain db)))"

section \<open>The contract\<close>

text \<open>
  A journal that records a keyed entry at most once: \<open>post\<close> answers whether it recorded the entry,
  and \<open>entries\<close> lists what is recorded under a key.
\<close>

locale idempotent_journal =
  fixes post :: "'tx \<Rightarrow> 'db \<Rightarrow> 'db \<times> bool res"
    and entries :: "'k \<Rightarrow> 'db \<Rightarrow> 'row list"
    and key :: "'tx \<Rightarrow> 'k"
  assumes post_new: "post tx db = (db', Inr True) \<Longrightarrow> entries (key tx) db = [] \<and> length (entries (key tx) db') = 1"
    and post_frame: "post tx db = (db', r) \<Longrightarrow> k \<noteq> key tx \<or> r \<noteq> Inr True \<Longrightarrow> entries k db' = entries k db"
    and post_old: "post tx db = (db', Inr False) \<Longrightarrow> entries (key tx) db \<noteq> []"
begin

fun post_all :: "'tx list \<Rightarrow> 'db \<Rightarrow> 'db" where
  "post_all [] db = db"
| "post_all (tx # txs) db = post_all txs (fst (post tx db))"

lemma post_records: "post tx db = (db', Inr b) \<Longrightarrow> entries (key tx) db' \<noteq> []"
proof (cases b)
  case True
  assume "post tx db = (db', Inr b)"
  with True post_new[of tx db db'] show ?thesis by auto
next
  case False
  assume p: "post tx db = (db', Inr b)"
  with False have "entries (key tx) db \<noteq> []" by (simp add: post_old)
  with p False post_frame[of tx db db' "Inr False" "key tx"] show ?thesis by simp
qed

lemma post_stable: "entries k db \<noteq> [] \<Longrightarrow> entries k (fst (post tx db)) = entries k db"
proof -
  assume ne: "entries k db \<noteq> []"
  obtain db' r where p: "post tx db = (db', r)" by (cases "post tx db")
  show ?thesis
  proof (cases "k = key tx \<and> r = Inr True")
    case True
    with p ne post_new[of tx db db'] show ?thesis by auto
  next
    case False
    then have "k \<noteq> key tx \<or> r \<noteq> Inr True" by blast
    with p post_frame[of tx db db' r k] show ?thesis by simp
  qed
qed

lemma post_all_stable: "entries k db \<noteq> [] \<Longrightarrow> entries k (post_all txs db) = entries k db"
  by (induction txs arbitrary: db) (simp_all add: post_stable)

lemma post_once: "post tx db = (db', Inr b) \<Longrightarrow>
   (b \<longleftrightarrow> entries (key tx) db = []) \<and>
   (if b then length (entries (key tx) db') = 1 else entries (key tx) db' = entries (key tx) db)"
  using post_new[of tx db db'] post_frame[of tx db db' "Inr b" "key tx"] post_old[of tx db db'] by (cases b) auto

lemma post_twice: "post tx db = (db1, Inr b) \<Longrightarrow> post tx db1 = (db2, Inr c) \<Longrightarrow> c = False"
  using post_records[of tx db db1 b] post_new[of tx db1 db2] by (cases c) auto

end

section \<open>The repository provides it\<close>

definition receipt_key :: "ledger_repo \<Rightarrow> string \<times> pydict \<Rightarrow> string \<times> string \<times> string" where
  "receipt_key lg p = (or_text (fst p) (lg_default_chain lg), str_get (snd p) ''receipt_id'', str_get (snd p) ''tx_type'')"

definition receipt_rows :: "string \<times> string \<times> string \<Rightarrow> ledger_db \<Rightarrow> ledger_row list" where
  "receipt_rows k db = filter (case k of (c, r, t) \<Rightarrow> same_receipt c r t) (db_transactions db)"

lemma append_event_rows: "append_event c ts d e s p t r i db = Inr db' \<Longrightarrow> db_transactions db' = db_transactions db"
  by (auto simp: append_event_def Let_def rbind_eq_Inr)

lemma ledger_event_rows: "ledger_event b e p m l db = Inr db' \<Longrightarrow> db_transactions db' = db_transactions db"
  by (auto simp: ledger_event_def rbind_eq_Inr Let_def dest: append_event_rows)

lemma publish_rows:
  assumes "publish_capital_event lg chain payload db = Inr db'"
  shows "db_transactions db' = db_transactions db"
proof (cases "lg_capital lg")
  case None
  with assms show ?thesis by (simp add: publish_capital_event_def)
next
  case (Some bus)
  with assms obtain m l where
    e: "(case ledger_event bus (or_text chain (lg_default_chain lg)) payload m l db of
        Inl e \<Rightarrow> if publish_caught e then Inr db else Inl e | Inr db1 \<Rightarrow> Inr db1) = Inr db'"
    by (auto simp: publish_capital_event_def rbind_eq_Inr)
  show ?thesis
  proof (cases "ledger_event bus (or_text chain (lg_default_chain lg)) payload m l db")
    case (Inl err)
    with e show ?thesis by (simp split: if_splits)
  next
    case (Inr db1)
    with e ledger_event_rows[OF Inr] show ?thesis by simp
  qed
qed

lemma append_receipt_cases:
  assumes "append_receipt_idempotent lg chain payload db = (db', r)"
  obtains (new) row where "r = Inr True" "db_transactions db' = db_transactions db @ [row]"
      "receipt_rows (receipt_key lg (chain, payload)) db = []"
      "journal_row (or_text chain (lg_default_chain lg)) (str_get payload ''tx_type'') (str_get payload ''receipt_id'') payload = Inr row"
  | (old) "r = Inr False" "db' = db" "receipt_rows (receipt_key lg (chain, payload)) db \<noteq> []"
  | (failed) e where "r = Inl e" "db' = db"
proof -
  let ?c = "or_text chain (lg_default_chain lg)" and ?r = "str_get payload ''receipt_id''" and ?t = "str_get payload ''tx_type''"
  have k: "list_ex (same_receipt ?c ?r ?t) (db_transactions db) \<longleftrightarrow> receipt_rows (receipt_key lg (chain, payload)) db \<noteq> []"
    by (auto simp: receipt_rows_def receipt_key_def list_ex_iff filter_empty_conv)
  show thesis
    using assms new old failed
    by (auto simp: append_receipt_idempotent_def Let_def k split: if_splits sum.splits dest!: publish_rows)
qed

lemma journal_row_key:
  "journal_row c t r payload = Inr row \<Longrightarrow> lr_chain row = c \<and> lr_tx_type row = t \<and> lr_receipt_id row = r \<and>
     lr_transaction_id row = str_get payload ''transaction_id'' \<and> lr_payload row = json_sorted (PDict payload)"
  by (auto simp: journal_row_def rbind_eq_Inr)

interpretation receipts: idempotent_journal "\<lambda>(chain, payload) db. append_receipt_idempotent lg chain payload db"
  receipt_rows "receipt_key lg" for lg
proof
  fix tx db db'
  assume "(case tx of (chain, payload) \<Rightarrow> \<lambda>db. append_receipt_idempotent lg chain payload db) db = (db', Inr True)"
  then have a: "append_receipt_idempotent lg (fst tx) (snd tx) db = (db', Inr True)" by (simp add: case_prod_beta)
  then show "receipt_rows (receipt_key lg tx) db = [] \<and> length (receipt_rows (receipt_key lg tx) db') = 1"
  proof (cases rule: append_receipt_cases)
    case (new row)
    with journal_row_key[OF new(4)] show ?thesis
      by (simp add: receipt_rows_def receipt_key_def same_receipt_def)
  qed simp_all
next
  fix tx db db' r k
  assume "(case tx of (chain, payload) \<Rightarrow> \<lambda>db. append_receipt_idempotent lg chain payload db) db = (db', r)"
    and k: "k \<noteq> receipt_key lg tx \<or> r \<noteq> Inr True"
  then have a: "append_receipt_idempotent lg (fst tx) (snd tx) db = (db', r)" by (simp add: case_prod_beta)
  then show "receipt_rows k db' = receipt_rows k db"
  proof (cases rule: append_receipt_cases)
    case (new row)
    with journal_row_key[OF new(4)] k show ?thesis
      by (cases k) (auto simp: receipt_rows_def receipt_key_def same_receipt_def)
  qed simp_all
next
  fix tx db db'
  assume "(case tx of (chain, payload) \<Rightarrow> \<lambda>db. append_receipt_idempotent lg chain payload db) db = (db', Inr False)"
  then have a: "append_receipt_idempotent lg (fst tx) (snd tx) db = (db', Inr False)" by (simp add: case_prod_beta)
  then show "receipt_rows (receipt_key lg tx) db \<noteq> []"
    by (cases rule: append_receipt_cases) simp_all
qed

section \<open>Properties\<close>

text \<open>A run of settlement postings, in the order SQLite serialises them.\<close>

fun post_receipts :: "ledger_repo \<Rightarrow> (string \<times> pydict) list \<Rightarrow> ledger_db \<Rightarrow> ledger_db" where
  "post_receipts lg [] db = db"
| "post_receipts lg ((chain, payload) # txs) db = post_receipts lg txs (fst (append_receipt_idempotent lg chain payload db))"

lemma post_receipts_post_all: "post_receipts lg txs db = receipts.post_all lg txs db"
  by (induction lg txs db rule: post_receipts.induct) simp_all

lemma receipt_recorded_once:
  assumes "append_receipt_idempotent lg chain payload db = (db', Inr inserted)"
  defines "k \<equiv> receipt_key lg (chain, payload)"
  shows "(inserted \<longleftrightarrow> receipt_rows k db = []) \<and>
     length (receipt_rows k db') = (if inserted then 1 else length (receipt_rows k db)) \<and>
     (\<not> inserted \<longrightarrow> receipt_rows k db' = receipt_rows k db) \<and> receipt_rows k (post_receipts lg' txs db') = receipt_rows k db'"
proof -
  have p: "(case (chain, payload) of (c, p) \<Rightarrow> \<lambda>db. append_receipt_idempotent lg c p db) db = (db', Inr inserted)"
    using assms(1) by simp
  note o1 = receipts.post_once[OF p, folded k_def]
  have "receipt_rows k db' \<noteq> []" using receipts.post_records[OF p] by (simp add: k_def)
  from receipts.post_all_stable[OF this, of lg' txs] show ?thesis
    using o1 by (auto simp: post_receipts_post_all)
qed

text \<open>C24: receipts are booked once: a posting of a receipt (\<open>append_receipt_idempotent\<close>) that returns reports
  an insertion exactly when the journal held no row of its chain, receipt id and transaction type, and then holds
  one; otherwise these rows are as before. No later run of postings of receipts, of any kind and by any
  repository, adds, removes or changes a row of that key. (A plain \<open>append_transaction\<close> looks for nothing and may
  add a second one; it is not a posting of a receipt.)\<close>

theorem receipt_booked_exactly_once:
  assumes "append_receipt_idempotent lg chain payload db = (db', Inr inserted)"
  defines "k \<equiv> receipt_key lg (chain, payload)"
  shows "(inserted \<longleftrightarrow> receipt_rows k db = []) \<and>
     length (receipt_rows k db') = (if inserted then 1 else length (receipt_rows k db)) \<and>
     (\<not> inserted \<longrightarrow> receipt_rows k db' = receipt_rows k db) \<and> receipt_rows k (post_receipts lg' txs db') = receipt_rows k db'"
  unfolding k_def using assms(1) by (rule receipt_recorded_once)

definition empty_ledger :: ledger_db where
  "empty_ledger = \<lparr>db_transactions = [], db_capital_events = []\<rparr>"

definition demo_repo :: ledger_repo where
  "demo_repo = \<lparr>lg_capital = None, lg_default_chain = ''base''\<rparr>"

definition demo_payload :: "string \<Rightarrow> pydict" where
  "demo_payload rid = [(''transaction_id'', PStr ''t''), (''ts_ms'', PInt 5), (''tx_type'', PStr ''settle''),
     (''receipt_id'', PStr rid)]"

lemma demo_post:
  "append_receipt_idempotent demo_repo [] (demo_payload ''r'') empty_ledger =
     (\<lparr>db_transactions = [\<lparr>lr_chain = ''base'', lr_transaction_id = ''t'', lr_ts_ms = 5, lr_tx_type = ''settle'',
        lr_receipt_id = ''r'', lr_payload = json_sorted (PDict (demo_payload ''r''))\<rparr>], db_capital_events = []\<rparr>, Inr True)"
  by (simp add: append_receipt_idempotent_def demo_repo_def demo_payload_def empty_ledger_def journal_row_def str_get_def
      or_text_def por_def sql_int_def publish_capital_event_def Let_def del: json_sorted.simps)

theorem receipt_booked_exactly_once_witness:
  "length (receipt_rows (''base'', ''r'', ''settle'') (post_receipts demo_repo
      [([], demo_payload ''r''), (''base'', demo_payload ''r''), (''eth'', demo_payload ''r'')]
      (fst (append_receipt_idempotent demo_repo [] (demo_payload ''r'') empty_ledger)))) = 1"
proof -
  have k: "receipt_key demo_repo ([], demo_payload ''r'') = (''base'', ''r'', ''settle'')"
    by (simp add: receipt_key_def or_text_def demo_repo_def demo_payload_def str_get_def)
  have e: "receipt_rows (''base'', ''r'', ''settle'') empty_ledger = []" by (simp add: receipt_rows_def empty_ledger_def)
  from receipt_booked_exactly_once[OF demo_post, of demo_repo
      "[([], demo_payload ''r''), (''base'', demo_payload ''r''), (''eth'', demo_payload ''r'')]"] e
  show ?thesis unfolding k demo_post fst_conv by simp
qed

text \<open>A settlement posting is all or nothing: when it raises, both tables are as before; when it
  reports an insertion, exactly one journal row was appended, and no other row was touched.\<close>

theorem receipt_posting_atomic:
  "case append_receipt_idempotent lg chain payload db of
     (db', Inl e) \<Rightarrow> db' = db
   | (db', Inr False) \<Rightarrow> db' = db
   | (db', Inr True) \<Rightarrow> (\<exists>row. db_transactions db' = db_transactions db @ [row] \<and>
       lr_receipt_id row = str_get payload ''receipt_id'' \<and> lr_payload row = json_sorted (PDict payload))"
proof -
  obtain db' r where p: "append_receipt_idempotent lg chain payload db = (db', r)"
    by (cases "append_receipt_idempotent lg chain payload db")
  then show ?thesis
  proof (cases rule: append_receipt_cases)
    case (new row)
    then show ?thesis using p journal_row_key[OF new(4)] by auto
  qed (use p in auto)
qed

text \<open>The plain append is not: with an event bus attached and metadata that is a text, the row is
  committed first and the publication then raises ValueError to the caller.\<close>

theorem append_transaction_commits_then_raises:
  assumes "lg_capital lg = Some bus" and "c \<noteq> []" and "m \<noteq> []" and "- (2 ^ 63) \<le> ts \<and> ts < 2 ^ 63" and "ts \<noteq> 0"
  shows "\<exists>row. append_transaction lg c [(''ts_ms'', PInt ts), (''metadata'', PStr m)] True db =
     (db\<lparr>db_transactions := db_transactions db @ [row]\<rparr>, Inl ValueError) \<and> lr_chain row = c"
  using assms by (simp add: append_transaction_def Let_def journal_row_def por_def sql_int_def str_get_def or_text_def
      publish_capital_event_def dict_or_empty_def) (intro exI conjI, rule refl, simp)

theorem append_transaction_commits_then_raises_witness:
  "\<exists>row. append_transaction \<lparr>lg_capital = Some ''b'', lg_default_chain = []\<rparr> ''base'' [(''ts_ms'', PInt 1), (''metadata'', PStr ''x'')] True empty_ledger =
     (empty_ledger\<lparr>db_transactions := db_transactions empty_ledger @ [row]\<rparr>, Inl ValueError) \<and> lr_chain row = ''base''"
  by (rule append_transaction_commits_then_raises[of _ "''b''"]) simp_all

text \<open>The journal answers newest first what it answers oldest first: the tail of length \<open>n\<close> is the
  first \<open>n\<close> entries of the reversed full listing.\<close>

theorem transactions_tail_newest:
  "transactions_tail chain (int n) db = take n (rev (all_transactions chain db))"
  by (simp add: transactions_tail_def sql_limit_def newest_first_def all_transactions_def take_map rev_map)

text \<open>A settlement booked under the repository's default chain (called with an empty chain) is not
  found again by a look-up with the same empty chain; only the default chain's name finds it.\<close>

theorem receipt_lookup_misses_default_chain:
  assumes "append_receipt_idempotent lg [] payload db = (db', Inr True)" and "lg_default_chain lg \<noteq> []"
    and "list_all (\<lambda>r. lr_chain r \<noteq> []) (db_transactions db)"
  shows "\<not> has_receipt_transaction [] (str_get payload ''receipt_id'') (str_get payload ''tx_type'') db' \<and>
     has_receipt_transaction (lg_default_chain lg) (str_get payload ''receipt_id'') (str_get payload ''tx_type'') db'"
  using assms(1)
proof (cases rule: append_receipt_cases)
  case (new row)
  have ne: "str_get payload ''receipt_id'' \<noteq> []" "str_get payload ''tx_type'' \<noteq> []"
    using assms(1) by (auto simp: append_receipt_idempotent_def Let_def split: if_splits)
  from journal_row_key[OF new(4)] have row: "lr_chain row = lg_default_chain lg"
      "lr_tx_type row = str_get payload ''tx_type''" "lr_receipt_id row = str_get payload ''receipt_id''"
    by (simp_all add: or_text_def)
  show ?thesis
    using assms(2,3) ne row new(2)
    by (auto simp: has_receipt_transaction_def or_text_def same_receipt_def list_ex_iff list_all_iff)
qed simp_all

theorem receipt_lookup_misses_default_chain_witness:
  "\<not> has_receipt_transaction [] ''r'' ''settle'' (fst (append_receipt_idempotent demo_repo [] (demo_payload ''r'') empty_ledger)) \<and>
   has_receipt_transaction ''base'' ''r'' ''settle'' (fst (append_receipt_idempotent demo_repo [] (demo_payload ''r'') empty_ledger))"
proof -
  have "lg_default_chain demo_repo \<noteq> []" "list_all (\<lambda>r. lr_chain r \<noteq> []) (db_transactions empty_ledger)"
    by (simp_all add: demo_repo_def empty_ledger_def)
  from receipt_lookup_misses_default_chain[OF demo_post this] show ?thesis
    by (simp add: demo_post del: json_sorted.simps) (simp add: demo_repo_def demo_payload_def str_get_def)
qed

end
