(* ===== verification/Json_Safe.thy ===== *)
theory Json_Safe
  imports Byte_Codec
begin

text \<open>
  \<open>jsonsafe.py\<close>: what an API response becomes before it is sent. Integers JavaScript cannot hold,
  and integers under a key that names an amount, become text; floats that are not finite become
  null. A \<open>pyval\<close> is a tree, so the guard against cyclic containers never fires on it.
\<close>

definition JS_SAFE_MAX :: int where
  "JS_SAFE_MAX = 2 ^ 53 - 1"

definition JS_SAFE_MIN :: int where
  "JS_SAFE_MIN = - (2 ^ 53 - 1)"

definition BIGINT_KEY_HINTS :: "string list" where
  "BIGINT_KEY_HINTS = [''wei'', ''amount'', ''reserve'', ''profit'', ''gas'', ''fee'', ''minout'',
     ''min_out'', ''liquidity'', ''sqrt'', ''price'', ''balance'', ''nonce'', ''value'', ''delta'', ''cap'']"

definition should_stringify_int :: "string option \<Rightarrow> int \<Rightarrow> bool" where
  "should_stringify_int key n =
     (if JS_SAFE_MAX < n \<or> n < JS_SAFE_MIN then True
      else case key of None \<Rightarrow> False
      | Some k \<Rightarrow> if k = [] then False else list_ex (\<lambda>h. contains h (lower k)) BIGINT_KEY_HINTS)"

fun to_json_safe :: "string option \<Rightarrow> pyval \<Rightarrow> pyval" where
  "to_json_safe key (PDict d) = PDict (map (\<lambda>(k, v). (k, to_json_safe (Some k) v)) d)"
| "to_json_safe key (PList xs) = PList (map (to_json_safe key) xs)"
| "to_json_safe key (PInt n) = (if should_stringify_int key n then PStr (show_int n) else PInt n)"
| "to_json_safe key (PFloat f) = (case f of FFin m k r \<Rightarrow> PFloat f | _ \<Rightarrow> PNone)"
| "to_json_safe key PNone = PNone"
| "to_json_safe key (PBool b) = PBool b"
| "to_json_safe key (PStr s) = PStr s"

definition json_safe :: "pyval \<Rightarrow> pyval" where
  "json_safe obj = to_json_safe None obj"

text \<open>Values a JavaScript client reads exactly.\<close>

fun js_exact :: "pyval \<Rightarrow> bool" where
  "js_exact (PDict d) = list_all (\<lambda>(k, v). js_exact v) d"
| "js_exact (PList xs) = list_all js_exact xs"
| "js_exact (PInt n) = (JS_SAFE_MIN \<le> n \<and> n \<le> JS_SAFE_MAX)"
| "js_exact (PFloat f) = (case f of FFin m k r \<Rightarrow> True | _ \<Rightarrow> False)"
| "js_exact v = True"

section \<open>Properties\<close>

lemma js_exact_to_json_safe: "js_exact (to_json_safe key v)"
proof (induction key v rule: to_json_safe.induct)
  case (1 key d)
  then show ?case by (auto simp: list_all_iff)
next
  case (2 key xs)
  then show ?case by (auto simp: list_all_iff)
next
  case (3 key n)
  then show ?case by (auto simp: should_stringify_int_def)
next
  case (4 key f)
  then show ?case by (cases f) auto
qed simp_all

lemma to_json_safe_idem: "to_json_safe key (to_json_safe key v) = to_json_safe key v"
proof (induction key v rule: to_json_safe.induct)
  case (4 key f)
  then show ?case by (cases f) auto
qed auto

text \<open>What the API sends holds no integer outside JavaScript's exact range and no infinite or
  undefined float, at any depth, and sanitising twice changes nothing more.\<close>

theorem json_safe_exact:
  "js_exact (json_safe obj) \<and> json_safe (json_safe obj) = json_safe obj"
  unfolding json_safe_def by (simp add: js_exact_to_json_safe to_json_safe_idem)

end
