(* ===== verification/Withdraw_Reconcile.thy ===== *)
theory Withdraw_Reconcile
  imports Withdrawal_Settlement Tx_Status Ledger_Journal Json_Safe
begin

text \<open>
  \<open>withdraw_external.py\<close>: the endpoint that reconciles an externally submitted withdrawal. It
  validates the request, checks the intent digest, compares the transaction the node reports with
  the request field by field, assesses the receipt, and posts a proved effect to the journal. The
  runtime (configuration, RPC client, repository, clock), SHA-256 and the summary contract other
  subsystems build are arguments; the journal is state.
\<close>

section \<open>Request fields\<close>

definition is_hex_text :: "nat \<Rightarrow> pyval \<Rightarrow> bool" where
  "is_hex_text n value =
     (let txt = strip (str_or_empty value) in
      if length txt \<noteq> n \<or> \<not> starts_with ''0x'' txt then False else fromhex (drop 2 txt) \<noteq> None)"

definition is_evm_address :: "pyval \<Rightarrow> bool" where
  "is_evm_address value = is_hex_text 42 value"

definition is_tx_hash :: "pyval \<Rightarrow> bool" where
  "is_tx_hash value = is_hex_text 66 value"

definition quantity :: "pyval \<Rightarrow> string" where
  "quantity value =
     (let txt = strip (if value \<noteq> PNone then py_str value else []) in
      if txt = [] then []
      else case (if starts_with ''0x'' txt \<or> starts_with ''0X'' txt then int_of_str16 txt else int_of_str txt) of
        Inl e \<Rightarrow> [] | Inr n \<Rightarrow> py_hex n)"

text \<open>\<open>json.dumps\<close> of a text: everything outside printable ASCII is escaped.\<close>

definition json_char :: "char \<Rightarrow> string" where
  "json_char c = (let n = of_char c :: nat in
     if n = 34 \<or> n = 92 then [CHR 0x5C, c]
     else if n = 10 then [CHR 0x5C, CHR ''n''] else if n = 13 then [CHR 0x5C, CHR ''r'']
     else if n = 9 then [CHR 0x5C, CHR ''t''] else if n = 12 then [CHR 0x5C, CHR ''f'']
     else if n = 8 then [CHR 0x5C, CHR ''b'']
     else if n < 32 \<or> 126 < n then CHR 0x5C # ''u00'' @ two_hex n else [c])"

definition json_text :: "string \<Rightarrow> string" where
  "json_text s = CHR 0x22 # concat (map json_char s) @ [CHR 0x22]"

definition json_flat :: "(string \<times> string) list \<Rightarrow> string" where
  "json_flat d = ''{'' @ join '','' (map (\<lambda>(k, v). json_text k @ '':'' @ json_text v) d) @ ''}''"

text \<open>The canonical object with its keys in sorted order.\<close>

definition intent_canonical :: "pyval \<Rightarrow> string \<Rightarrow> string \<Rightarrow> string \<Rightarrow> pyval \<Rightarrow> (string \<times> string) list" where
  "intent_canonical chain_id from_address to data value =
     [(''chainId'', quantity chain_id), (''data'', lower data), (''from'', lower from_address),
      (''to'', lower to), (''value'', quantity value)]"

definition intent_digest :: "(bytes \<Rightarrow> bytes) \<Rightarrow> pyval \<Rightarrow> string \<Rightarrow> string \<Rightarrow> string \<Rightarrow> pyval \<Rightarrow> string" where
  "intent_digest sha chain_id from_address to data value =
     hex_of (sha (utf8 (json_flat (intent_canonical chain_id from_address to data value))))"

definition ends_with :: "string \<Rightarrow> string \<Rightarrow> bool" where
  "ends_with p s = starts_with (rev p) (rev s)"

definition reject :: "string \<Rightarrow> pydict \<Rightarrow> pydict" where
  "reject reason extra =
     [(''ok'', PBool False),
      (''status'', PStr (if starts_with ''invalid_'' reason \<or> ends_with ''_mismatch'' reason then ''invalid'' else ''degraded'')),
      (''reason_code'', PStr reason), (''reason'', PStr reason), (''error'', PStr reason)] @ extra"

section \<open>Persisting a settlement\<close>

definition settle_caught :: "pyerr \<Rightarrow> bool" where
  "settle_caught e = (e \<in> {OSError, RuntimeError, TypeError, ValueError})"

definition persist_settlement ::
    "(bytes \<Rightarrow> bytes) \<Rightarrow> ledger_repo option \<Rightarrow> int \<Rightarrow> string \<Rightarrow> string \<Rightarrow> string \<Rightarrow> string \<Rightarrow> string \<Rightarrow> string
     \<Rightarrow> pydict \<Rightarrow> ledger_db \<Rightarrow> ledger_db \<times> pydict res" where
  "persist_settlement kec repo now chain tx_hash intent_id from_address executor calldata receipt db =
     (case repo of None \<Rightarrow> (db, Inr (reason_code ''settlement_ledger_unavailable''))
      | Some lg \<Rightarrow>
          let destination = external_withdrawal_recipient kec calldata in
          if destination = [] then (db, Inr (reason_code ''invalid_settlement_recipient''))
          else case decode_external_withdrawal_effect kec receipt executor calldata destination of
            Inl e \<Rightarrow> (db, Inl e)
          | Inr effect \<Rightarrow>
              if \<not> truthy (dget effect ''ok'')
              then (db, Inr (reason_code (py_str (por (dget effect ''reason_code'') (PStr ''settlement_effect_unverified'')))))
              else case canonical_external_withdrawal_transaction chain tx_hash intent_id from_address
                     destination calldata effect now of
                Inl e \<Rightarrow> (db, Inl e)
              | Inr tx \<Rightarrow>
                  (case append_receipt_idempotent lg chain tx db of
                     (db', Inl e) \<Rightarrow>
                       (db', if settle_caught e then Inr (reason_code ''settlement_ledger_persist_failed'') else Inl e)
                   | (db', Inr inserted) \<Rightarrow>
                       (db', Inr [(''ok'', PBool True), (''settled'', PBool True), (''already_settled'', PBool (\<not> inserted)),
                          (''transaction_id'', PStr (py_str (dget tx ''transaction_id''))), (''effect'', PDict effect)])))"

section \<open>The endpoint\<close>

record reconcile_env =
  re_chain_id :: pyval
  re_chain_name :: pyval
  re_executor :: pyval
  re_read_url :: string
  re_get_tx :: "string \<Rightarrow> pyval"
  re_rpc :: tx_rpc
  re_repo :: "ledger_repo option"
  re_now_ms :: int
  re_contract :: "pydict \<Rightarrow> pyval"

definition ALLOWED_FIELDS :: "string list" where
  "ALLOWED_FIELDS = [''intent_id'', ''tx_hash'', ''chain_id'', ''from_address'', ''to'', ''data'', ''value'']"

definition unexpected_fields :: "pydict \<Rightarrow> string list" where
  "unexpected_fields payload = sort (filter (\<lambda>k. k \<notin> set ALLOWED_FIELDS) (remdups (map fst payload)))"

definition req_text :: "pydict \<Rightarrow> string \<Rightarrow> string" where
  "req_text payload k = strip (str_or_empty (dget payload k))"

definition req_intent :: "pydict \<Rightarrow> string" where
  "req_intent payload = lower (req_text payload ''intent_id'')"

definition req_digest :: "(bytes \<Rightarrow> bytes) \<Rightarrow> pydict \<Rightarrow> string" where
  "req_digest sha payload =
     intent_digest sha (dget payload ''chain_id'') (req_text payload ''from_address'') (req_text payload ''to'')
       (req_text payload ''data'') (dget payload ''value'')"

definition env_executor :: "reconcile_env \<Rightarrow> string" where
  "env_executor env = lower (str_or_empty (re_executor env))"

text \<open>The guards before the node is asked, in the code's order: the first that fails is the answer.\<close>

definition request_rejected :: "(bytes \<Rightarrow> bytes) \<Rightarrow> reconcile_env \<Rightarrow> pydict \<Rightarrow> pydict option" where
  "request_rejected sha env payload =
     (let to = req_text payload ''to''; data = req_text payload ''data''; chain_id = dget payload ''chain_id'' in
      if unexpected_fields payload \<noteq> []
      then Some (reject ''invalid_unknown_request_fields'' [(''fields'', PList (map PStr (unexpected_fields payload)))])
      else if \<not> is_tx_hash (PStr (req_text payload ''tx_hash'')) then Some (reject ''invalid_tx_hash'' [])
      else if \<not> is_evm_address (PStr (req_text payload ''from_address'')) then Some (reject ''invalid_from_address'' [])
      else if \<not> is_evm_address (PStr to) then Some (reject ''invalid_destination'' [])
      else if \<not> starts_with ''0x'' data \<or> length data < 4 \<or> odd (length data) then Some (reject ''invalid_tx_data'' [])
      else if quantity chain_id = [] then Some (reject ''invalid_chain_id'' [])
      else if quantity (dget payload ''value'') = [] then Some (reject ''invalid_tx_value'' [])
      else if length (req_intent payload) \<noteq> 64 then Some (reject ''invalid_intent_id'' [])
      else if req_intent payload \<noteq> req_digest sha payload then Some (reject ''intent_mismatch'' [])
      else if quantity (re_chain_id env) \<noteq> quantity chain_id
      then Some (reject ''chain_mismatch'' [(''expected_chain_id'', PStr (quantity (re_chain_id env)))])
      else if \<not> is_evm_address (PStr (env_executor env)) then Some (reject ''invalid_executor_address'' [])
      else if lower to \<noteq> env_executor env
      then Some (reject ''submitted_executor_mismatch'' [(''expected'', PStr (env_executor env)), (''actual'', PStr to)])
      else if re_read_url env = [] then Some (reject ''no_rpc_endpoints'' [])
      else None)"

text \<open>The node's transaction against the request.\<close>

definition submitted_rejected :: "pydict \<Rightarrow> pydict \<Rightarrow> pydict option" where
  "submitted_rejected payload tx =
     (let from = req_text payload ''from_address''; to = req_text payload ''to'';
          chain_id = dget payload ''chain_id'';
          actual_from = lower (str_or_empty (dget tx ''from'')); actual_to = lower (str_or_empty (dget tx ''to''));
          actual_data = lower (str_or_empty (dget_or tx ''input'' (dget tx ''data'')));
          actual_chain = quantity (dget_or tx ''chainId'' chain_id) in
      if actual_from \<noteq> lower from
      then Some (reject ''submitted_sender_mismatch'' [(''expected'', PStr from), (''actual'', PStr actual_from)])
      else if actual_to \<noteq> lower to
      then Some (reject ''submitted_destination_mismatch'' [(''expected'', PStr to), (''actual'', PStr actual_to)])
      else if actual_data \<noteq> lower (req_text payload ''data'') then Some (reject ''submitted_calldata_mismatch'' [])
      else if quantity (dget tx ''value'') \<noteq> quantity (dget payload ''value'') then Some (reject ''submitted_value_mismatch'' [])
      else if actual_chain \<noteq> quantity chain_id
      then Some (reject ''submitted_chain_mismatch'' [(''expected'', chain_id), (''actual'', PStr actual_chain)])
      else None)"

definition opt_int :: "int option \<Rightarrow> pyval" where
  "opt_int n = (case n of None \<Rightarrow> PNone | Some k \<Rightarrow> PInt k)"

definition receipt_of :: "submitted_tx \<Rightarrow> pydict" where
  "receipt_of st = (case st_receipt st of None \<Rightarrow> [] | Some d \<Rightarrow> d)"

definition receipt_truth :: "submitted_tx \<Rightarrow> bool" where
  "receipt_truth st = (st_status st \<in> {''mined_success'', ''mined_reverted''})"

definition base_response :: "pydict \<Rightarrow> submitted_tx \<Rightarrow> pydict" where
  "base_response payload st =
     [(''ok'', PBool True), (''status'', PStr (st_status st)), (''tx_hash'', PStr (req_text payload ''tx_hash'')),
      (''intent_id'', PStr (req_intent payload)), (''settled'', PBool False), (''submission_evidence'', PBool True),
      (''settlement_truth'', PBool (receipt_truth st)), (''receipt_status'', opt_int (st_receipt_status st)),
      (''block_number'', opt_int (st_block st)), (''proof_reason'', PStr (st_proof st)),
      (''canonical_receipt'', if receipt_truth st then PDict (receipt_of st) else PNone)]"

definition settled_update :: "pydict \<Rightarrow> pydict" where
  "settled_update settlement =
     [(''settled'', PBool True), (''settlement_truth'', PBool True), (''settlement_status'', PStr ''settled''),
      (''settlement_transaction_id'', dget settlement ''transaction_id''),
      (''already_settled'', PBool (truthy (dget_or settlement ''already_settled'' (PBool False)))),
      (''settlement_effect'', dget settlement ''effect'')]"

definition env_settle ::
    "(bytes \<Rightarrow> bytes) \<Rightarrow> reconcile_env \<Rightarrow> pydict \<Rightarrow> submitted_tx \<Rightarrow> ledger_db \<Rightarrow> ledger_db \<times> pydict res" where
  "env_settle kec env payload st db =
     persist_settlement kec (re_repo env) (re_now_ms env)
       (or_text (str_or_empty (re_chain_name env)) ''default'') (req_text payload ''tx_hash'') (req_intent payload)
       (req_text payload ''from_address'') (env_executor env) (req_text payload ''data'') (receipt_of st) db"

definition reconcile_receipt ::
    "(bytes \<Rightarrow> bytes) \<Rightarrow> reconcile_env \<Rightarrow> pydict \<Rightarrow> submitted_tx \<Rightarrow> ledger_db \<Rightarrow> ledger_db \<times> pydict res" where
  "reconcile_receipt kec env payload st db =
     (let response = base_response payload st in
      if st_status st = ''mined_success'' then
        (case env_settle kec env payload st db of
           (db', Inl e) \<Rightarrow> (db', Inl e)
         | (db', Inr settlement) \<Rightarrow>
             (db', Inr (dupdate response
                (if truthy (dget settlement ''ok'') then settled_update settlement
                 else [(''settlement_status'', PStr ''unverified''),
                       (''settlement_reason_code'', dget settlement ''reason_code'')]))))
      else if st_status st = ''mined_reverted'' then
        (db, Inr (dset (dset response ''settlement_status'' (PStr ''reverted'')) ''settlement_truth'' (PBool True)))
      else (db, Inr response))"

definition invisible_response :: "pydict \<Rightarrow> submitted_tx \<Rightarrow> pydict" where
  "invisible_response payload st =
     [(''ok'', PBool True), (''status'', PStr (st_status st)), (''tx_hash'', PStr (req_text payload ''tx_hash'')),
      (''intent_id'', PStr (req_intent payload)), (''settled'', PBool False), (''submission_evidence'', PBool True),
      (''settlement_truth'', PBool False), (''proof_reason'', PStr (st_proof st))]"

definition sent_json :: "pydict \<Rightarrow> pyval" where
  "sent_json d = json_safe (PDict d)"

definition reconcile_external_withdraw ::
    "(bytes \<Rightarrow> bytes) \<Rightarrow> (bytes \<Rightarrow> bytes) \<Rightarrow> reconcile_env \<Rightarrow> pydict \<Rightarrow> ledger_db \<Rightarrow> ledger_db \<times> pyval res" where
  "reconcile_external_withdraw kec sha env payload db =
     (case request_rejected sha env payload of Some r \<Rightarrow> (db, Inr (sent_json r))
      | None \<Rightarrow>
          let tx_hash = req_text payload ''tx_hash''; assessed = assess_submitted_tx (re_rpc env) tx_hash (PStr ''public'') in
          case re_get_tx env tx_hash of
            PDict tx \<Rightarrow>
              (case submitted_rejected payload tx of Some r \<Rightarrow> (db, Inr (sent_json r))
               | None \<Rightarrow>
                   (case assessed of Inl e \<Rightarrow> (db, Inl e)
                    | Inr st \<Rightarrow>
                        (case reconcile_receipt kec env payload st db of
                           (db', Inl e) \<Rightarrow> (db', Inl e)
                         | (db', Inr response) \<Rightarrow>
                             (db', Inr (sent_json (dset response ''summaryContract'' (re_contract env response)))))))
          | _ \<Rightarrow> (case assessed of Inl e \<Rightarrow> (db, Inl e) | Inr st \<Rightarrow> (db, Inr (sent_json (invisible_response payload st)))))"

section \<open>What settles\<close>

lemma truthy_PBool_True [simp]: "truthy (PBool True)"
  by simp

lemma truthy_ok: "truthy (dget eff ''ok'') \<Longrightarrow> decode_external_withdrawal_effect kec receipt executor cd dest = Inr eff \<Longrightarrow>
    dget eff ''ok'' = PBool True"
  using withdraw_effect_total_aux[of kec receipt executor cd dest] by (auto simp: reason_code_def)

lemma canonical_fields:
  assumes "canonical_external_withdrawal_transaction chain rid intent frm dest cd eff ts = Inr tx"
  shows "str_get tx ''receipt_id'' = rid" and "str_get tx ''tx_type'' = ''external_withdrawal_settlement''"
    and "str_get tx ''transaction_id'' = ''external-withdrawal-'' @ lower rid"
    and "py_str (dget tx ''transaction_id'') = ''external-withdrawal-'' @ lower rid"
  using assms
  by (auto simp: canonical_external_withdrawal_transaction_def Let_def rbind_eq_Inr str_get_def split: if_splits)

text \<open>What a posting rests on: a proved effect for the destination in the calldata, and its canonical transaction.\<close>

definition settlement_proof ::
    "(bytes \<Rightarrow> bytes) \<Rightarrow> int \<Rightarrow> string \<Rightarrow> string \<Rightarrow> string \<Rightarrow> string \<Rightarrow> string \<Rightarrow> string \<Rightarrow> pydict \<Rightarrow> pydict \<Rightarrow> pydict \<Rightarrow> bool" where
  "settlement_proof kec now chain tx_hash intent from_address executor calldata receipt effect tx \<longleftrightarrow>
     (let dest = external_withdrawal_recipient kec calldata in
      dest \<noteq> [] \<and> decode_external_withdrawal_effect kec receipt executor calldata dest = Inr effect \<and>
      dget effect ''ok'' = PBool True \<and>
      canonical_external_withdrawal_transaction chain tx_hash intent from_address dest calldata effect now = Inr tx)"

lemma persist_cases:
  assumes "persist_settlement kec repo now chain tx_hash intent frm executor cd receipt db = (db', r)"
  obtains (posted) lg effect tx inserted where "repo = Some lg"
      "settlement_proof kec now chain tx_hash intent frm executor cd receipt effect tx"
      "append_receipt_idempotent lg chain tx db = (db', Inr inserted)"
      "r = Inr [(''ok'', PBool True), (''settled'', PBool True), (''already_settled'', PBool (\<not> inserted)),
         (''transaction_id'', PStr (''external-withdrawal-'' @ lower tx_hash)), (''effect'', PDict effect)]"
  | (refused) reason where "db' = db" "r = Inr (reason_code reason)"
  | (raised) e where "db' = db" "r = Inl e" "\<not> settle_caught e"
proof -
  let ?dest = "external_withdrawal_recipient kec cd"
  show thesis
  proof (cases repo)
    case None
    with assms show thesis by (intro refused[of "''settlement_ledger_unavailable''"]) (simp_all add: persist_settlement_def)
  next
    case (Some lg)
    show thesis
    proof (cases "?dest = []")
      case True
      with Some assms show thesis
        by (intro refused[of "''invalid_settlement_recipient''"]) (simp_all add: persist_settlement_def)
    next
      case dest: False
      obtain eff where eff: "decode_external_withdrawal_effect kec receipt executor cd ?dest = Inr eff"
        using withdraw_effect_total_aux by blast
      show thesis
      proof (cases "truthy (dget eff ''ok'')")
        case False
        with Some dest eff assms show thesis
          by (intro refused[of "py_str (por (dget eff ''reason_code'') (PStr ''settlement_effect_unverified''))"])
             (simp_all add: persist_settlement_def Let_def)
      next
        case True
        then have ok: "dget eff ''ok'' = PBool True" using eff by (rule truthy_ok)
        obtain tx where tx: "canonical_external_withdrawal_transaction chain tx_hash intent frm ?dest cd eff now = Inr tx"
          using effect_canonical_ok[OF eff ok] by blast
        have proof_ok: "settlement_proof kec now chain tx_hash intent frm executor cd receipt eff tx"
          using dest eff ok tx by (simp add: settlement_proof_def Let_def)
        obtain db1 q where a: "append_receipt_idempotent lg chain tx db = (db1, q)"
          by (cases "append_receipt_idempotent lg chain tx db")
        show thesis
        proof (cases q)
          case (Inr inserted)
          then show thesis
            using assms Some dest eff ok tx a canonical_fields(4)[OF tx]
            by (intro posted[OF Some proof_ok, of inserted]) (simp_all add: persist_settlement_def Let_def del: append_Cons)
        next
          case (Inl e)
          with a have db1: "db1 = db" using append_receipt_cases[OF a] by blast
          show thesis
          proof (cases "settle_caught e")
            case True
            with Inl assms Some dest eff ok tx a db1 show thesis
              by (intro refused[of "''settlement_ledger_persist_failed''"]) (simp_all add: persist_settlement_def Let_def)
          next
            case False
            with Inl assms Some dest eff ok tx a db1 show thesis
              by (intro raised[of e]) (simp_all add: persist_settlement_def Let_def)
          qed
        qed
      qed
    qed
  qed
qed

lemma dget_sent_json: "dget (as_dict (sent_json d)) k = to_json_safe (Some k) (dget d k)"
  by (induction d) (auto simp: sent_json_def json_safe_def)

lemma dget_reject: "dget (reject reason extra) ''settled'' = dget extra ''settled''"
  by (simp add: reject_def)

lemma request_rejected_unsettled: "request_rejected sha env payload = Some r \<Longrightarrow> dget r ''settled'' = PNone"
  unfolding request_rejected_def Let_def
  by (auto simp: dget_reject split: if_splits)

lemma submitted_rejected_unsettled: "submitted_rejected payload tx = Some r \<Longrightarrow> dget r ''settled'' = PNone"
  unfolding submitted_rejected_def Let_def
  by (auto simp: dget_reject split: if_splits)

abbreviation env_chain :: "reconcile_env \<Rightarrow> string" where
  "env_chain env \<equiv> or_text (str_or_empty (re_chain_name env)) ''default''"

text \<open>Everything the handler has established when it posts.\<close>

definition settles ::
    "(bytes \<Rightarrow> bytes) \<Rightarrow> (bytes \<Rightarrow> bytes) \<Rightarrow> reconcile_env \<Rightarrow> pydict \<Rightarrow> ledger_db \<Rightarrow> ledger_db \<Rightarrow> pydict \<Rightarrow> pydict \<Rightarrow> bool" where
  "settles kec sha env payload db db' effect posted \<longleftrightarrow>
     request_rejected sha env payload = None \<and>
     (\<exists>tx st lg inserted. re_get_tx env (req_text payload ''tx_hash'') = PDict tx \<and> submitted_rejected payload tx = None \<and>
       assess_submitted_tx (re_rpc env) (req_text payload ''tx_hash'') (PStr ''public'') = Inr st \<and>
       st_status st = ''mined_success'' \<and> re_repo env = Some lg \<and>
       settlement_proof kec (re_now_ms env) (env_chain env) (req_text payload ''tx_hash'') (req_intent payload)
         (req_text payload ''from_address'') (env_executor env) (req_text payload ''data'') (receipt_of st) effect posted \<and>
       append_receipt_idempotent lg (env_chain env) posted db = (db', Inr inserted))"

lemma reconcile_receipt_settles:
  assumes "reconcile_receipt kec env payload st db = (db', r)"
    and "db' \<noteq> db \<or> (\<exists>out. r = Inr out \<and> dget out ''settled'' = PBool True)"
  shows "st_status st = ''mined_success'' \<and> (\<exists>lg effect posted inserted. re_repo env = Some lg \<and>
     settlement_proof kec (re_now_ms env) (env_chain env) (req_text payload ''tx_hash'') (req_intent payload)
       (req_text payload ''from_address'') (env_executor env) (req_text payload ''data'') (receipt_of st) effect posted \<and>
     append_receipt_idempotent lg (env_chain env) posted db = (db', Inr inserted))"
proof -
  have base: "dget (base_response payload st) ''settled'' = PBool False" by (simp add: base_response_def)
  have m: "st_status st = ''mined_success''"
  proof (rule ccontr)
    assume "st_status st \<noteq> ''mined_success''"
    with assms base show False by (auto simp: reconcile_receipt_def Let_def split: if_splits)
  qed
  obtain db1 q where p: "env_settle kec env payload st db = (db1, q)" by (cases "env_settle kec env payload st db")
  note p' = p[unfolded env_settle_def]
  from p' show ?thesis
  proof (cases rule: persist_cases)
    case (posted lg effect tx inserted)
    with assms(1) m p have "db' = db1" by (simp add: reconcile_receipt_def Let_def)
    with posted m show ?thesis by blast
  next
    case (refused reason)
    with assms m p base have False
      by (auto simp: reconcile_receipt_def Let_def reason_code_def dupdate_def)
    then show ?thesis ..
  next
    case (raised e)
    with assms m p have False by (auto simp: reconcile_receipt_def Let_def)
    then show ?thesis ..
  qed
qed

lemma reconcile_settles:
  assumes "reconcile_external_withdraw kec sha env payload db = (db', r)"
    and "db' \<noteq> db \<or> (\<exists>out. r = Inr out \<and> dget (as_dict out) ''settled'' = PBool True)"
  shows "\<exists>effect posted. settles kec sha env payload db db' effect posted"
proof -
  let ?h = "req_text payload ''tx_hash''"
  let ?a = "assess_submitted_tx (re_rpc env) ?h (PStr ''public'')"
  have js: "to_json_safe (Some ''settled'') v = PBool True \<longleftrightarrow> v = PBool True" for v
    by (cases v) (auto split: pyfloat.splits)
  show ?thesis
  proof (cases "request_rejected sha env payload")
    case (Some q)
    with assms request_rejected_unsettled[OF Some] have False
      by (auto simp: reconcile_external_withdraw_def dget_sent_json)
    then show ?thesis ..
  next
    case None
    show ?thesis
    proof (cases "\<exists>tx. re_get_tx env ?h = PDict tx")
      case False
      with assms None have False
        by (cases ?a; cases "re_get_tx env ?h") (auto simp: reconcile_external_withdraw_def Let_def dget_sent_json invisible_response_def)
      then show ?thesis ..
    next
      case True
      then obtain tx where tx: "re_get_tx env ?h = PDict tx" by blast
      show ?thesis
      proof (cases "submitted_rejected payload tx")
        case (Some q)
        with assms None tx submitted_rejected_unsettled[OF Some] have False
          by (auto simp: reconcile_external_withdraw_def dget_sent_json)
        then show ?thesis ..
      next
        case sub: None
        show ?thesis
        proof (cases ?a)
          case (Inl e)
          with assms None tx sub have False by (auto simp: reconcile_external_withdraw_def)
          then show ?thesis ..
        next
          case (Inr st)
          obtain db1 q where q: "reconcile_receipt kec env payload st db = (db1, q)"
            by (cases "reconcile_receipt kec env payload st db")
          have "db1 = db'" using assms(1) None tx sub Inr q
            by (cases q) (simp_all add: reconcile_external_withdraw_def)
          moreover have "db' \<noteq> db \<or> (\<exists>out. q = Inr out \<and> dget out ''settled'' = PBool True)"
            using assms None tx sub Inr q
            by (cases q) (auto simp: reconcile_external_withdraw_def dget_sent_json js)
          ultimately have "st_status st = ''mined_success'' \<and> (\<exists>lg effect posted inserted. re_repo env = Some lg \<and>
             settlement_proof kec (re_now_ms env) (env_chain env) ?h (req_intent payload)
               (req_text payload ''from_address'') (env_executor env) (req_text payload ''data'') (receipt_of st) effect posted \<and>
             append_receipt_idempotent lg (env_chain env) posted db = (db', Inr inserted))"
            using reconcile_receipt_settles[OF q] by simp
          then show ?thesis using None tx sub Inr unfolding settles_def by blast
        qed
      qed
    qed
  qed
qed

section \<open>A request that settles\<close>

lemma lower_0x_hex: "lower (''0x'' @ hex_of b) = ''0x'' @ hex_of b"
  by (simp add: lower_char_def)

lemma is_hex_text_hex: "is_hex_text n (PStr (''0x'' @ hex_of b)) \<longleftrightarrow> n = 2 + 2 * length b"
  unfolding is_hex_text_def Let_def str_or_empty_PStr strip_0x_hex_text
  by (auto simp: starts_with_def fromhex_hex_of)

definition demo_hash :: "byte \<Rightarrow> string" where
  "demo_hash b = ''0x'' @ hex_of (replicate 32 b)"

definition demo_sha :: "bytes \<Rightarrow> bytes" where
  "demo_sha b = replicate 32 0"

definition demo_tx :: pydict where
  "demo_tx = [(''from'', PStr (demo_addr 3)), (''to'', PStr (demo_addr 9)), (''input'', PStr demo_calldata),
     (''value'', PStr ''0x0''), (''chainId'', PStr ''0x1'')]"

definition demo_mined :: pydict where
  "demo_mined = demo_receipt @ [(''status'', PStr ''0x1'')]"

definition demo_env :: reconcile_env where
  "demo_env = \<lparr>re_chain_id = PStr ''1'', re_chain_name = PStr ''base'', re_executor = PStr (demo_addr 9), re_read_url = ''rpc'',
     re_get_tx = (\<lambda>h. PDict demo_tx), re_rpc = demo_rpc (PDict demo_mined), re_repo = Some demo_repo, re_now_ms = 5,
     re_contract = (\<lambda>r. PNone)\<rparr>"

definition demo_request :: "string \<Rightarrow> pydict" where
  "demo_request h = [(''intent_id'', PStr (hex_of (replicate 32 0))), (''tx_hash'', PStr h), (''chain_id'', PStr ''1''),
     (''from_address'', PStr (demo_addr 3)), (''to'', PStr (demo_addr 9)), (''data'', PStr demo_calldata), (''value'', PStr ''0'')]"

lemma demo_quantities: "quantity (PStr ''1'') = ''0x1''" "quantity (PStr ''0x1'') = ''0x1''"
    "quantity (PStr ''0'') = ''0x0''" "quantity (PStr ''0x0'') = ''0x0''"
  by (simp_all add: quantity_def strip_def is_space_def starts_with_def int_of_str_def int_of_str16_def parse_nat_def
      digit_val_def py_hex_def show_hex_def digit_char_def char_of_def bit_0)

lemma demo_texts:
  "strip (demo_addr b) = demo_addr b" "lower (demo_addr b) = demo_addr b"
  "strip (demo_hash b) = demo_hash b" "strip demo_calldata = demo_calldata" "lower demo_calldata = demo_calldata"
  "is_evm_address (PStr (demo_addr b))" "is_tx_hash (PStr (demo_hash b))"
  unfolding demo_addr_def demo_hash_def demo_calldata_def is_evm_address_def is_tx_hash_def strip_0x_hex_text lower_0x_hex is_hex_text_hex
  by simp_all

lemma demo_nonempty: "demo_addr b \<noteq> []" "demo_calldata \<noteq> []" "starts_with ''0x'' demo_calldata"
    "\<not> length demo_calldata < 4" "even (length demo_calldata)"
proof -
  have "length (selector demo_kec WITHDRAW_SIG) = 4" using demo_kec_hash32 by (rule length_selector)
  then show "demo_addr b \<noteq> []" "demo_calldata \<noteq> []" "starts_with ''0x'' demo_calldata"
      "\<not> length demo_calldata < 4" "even (length demo_calldata)"
    by (simp_all add: demo_addr_def demo_calldata_def starts_with_def)
qed

lemma demo_accepted: "request_rejected demo_sha demo_env (demo_request (demo_hash b)) = None"
proof -
  let ?p = "demo_request (demo_hash b)"
  have t: "req_text ?p ''to'' = demo_addr 9" "req_text ?p ''from_address'' = demo_addr 3"
    "req_text ?p ''data'' = demo_calldata" "req_text ?p ''tx_hash'' = demo_hash b"
    "req_intent ?p = hex_of (replicate 32 0)" "req_digest demo_sha ?p = hex_of (replicate 32 0)"
    by (simp_all add: req_text_def req_intent_def demo_request_def demo_texts req_digest_def intent_digest_def demo_sha_def
       )
  have d: "dget ?p ''chain_id'' = PStr ''1''" "dget ?p ''value'' = PStr ''0''" by (simp_all add: demo_request_def)
  have u: "unexpected_fields ?p = []" by (simp add: unexpected_fields_def demo_request_def ALLOWED_FIELDS_def)
  have e: "env_executor demo_env = demo_addr 9" "re_chain_id demo_env = PStr ''1''" "re_read_url demo_env \<noteq> []"
    by (simp_all add: env_executor_def demo_env_def demo_texts)
  show ?thesis
    unfolding request_rejected_def Let_def t d u e(1,2)
    using demo_nonempty e(3) by (simp add: demo_texts demo_quantities)
qed

lemma demo_submitted: "submitted_rejected (demo_request h) demo_tx = None"
  by (simp add: submitted_rejected_def demo_request_def demo_tx_def req_text_def demo_texts demo_quantities dget_or_def
     )

lemma demo_assessed:
  "assess_submitted_tx (re_rpc demo_env) h (PStr ''public'') = Inr (receipt_verdict h demo_mined)"
  by (simp add: assess_submitted_tx_def demo_env_def demo_rpc_def)

lemma demo_status: "decode_hex_int (dget demo_mined ''status'') = Some 1"
  by (simp add: demo_mined_def demo_receipt_def decode_hex_int_def strip_def is_space_def starts_with_def
      int_of_str16_def parse_nat_def digit_val_def)

lemma demo_verdict: "st_status (receipt_verdict h demo_mined) = ''mined_success''" "receipt_of (receipt_verdict h demo_mined) = demo_mined"
  by (simp_all add: receipt_verdict_def receipt_of_def demo_status)

definition settle_key :: "ledger_repo \<Rightarrow> string \<Rightarrow> string \<Rightarrow> string \<times> string \<times> string" where
  "settle_key lg chain tx_hash = (or_text chain (lg_default_chain lg), tx_hash, ''external_withdrawal_settlement'')"

lemma canonical_key:
  "canonical_external_withdrawal_transaction chain rid intent frm dest cd eff ts = Inr tx \<Longrightarrow>
   receipt_key lg (c, tx) = settle_key lg c rid"
  using canonical_fields(1,2)[of chain rid intent frm dest cd eff ts tx] by (simp add: receipt_key_def settle_key_def)

lemma canonical_ts:
  "canonical_external_withdrawal_transaction chain rid intent frm dest cd eff ts = Inr tx \<Longrightarrow> dget tx ''ts_ms'' = PInt ts"
  by (auto simp: canonical_external_withdrawal_transaction_def Let_def rbind_eq_Inr split: if_splits)

lemma append_receipt_fresh:
  assumes "canonical_external_withdrawal_transaction chain rid intent frm dest cd eff ts = Inr tx"
    and "lg_capital lg = None" and "- (2 ^ 63) \<le> ts" and "ts < 2 ^ 63" and "rid \<noteq> []"
    and "receipt_rows (settle_key lg c rid) db = []"
  shows "\<exists>row. append_receipt_idempotent lg c tx db = (db\<lparr>db_transactions := db_transactions db @ [row]\<rparr>, Inr True)"
proof -
  have "\<not> list_ex (same_receipt (or_text c (lg_default_chain lg)) rid ''external_withdrawal_settlement'') (db_transactions db)"
    using assms(6) by (auto simp: receipt_rows_def settle_key_def list_ex_iff filter_empty_conv)
  moreover have "rbind (py_int (por (PInt ts) (PInt 0))) sql_int = Inr ts"
    using assms(3,4) by (simp add: por_def sql_int_def)
  ultimately show ?thesis
    using assms(2,5) canonical_fields(1,2)[OF assms(1)] canonical_ts[OF assms(1)]
    by (cases "py_int (por (PInt ts) (PInt 0))")
       (auto simp: append_receipt_idempotent_def journal_row_def publish_capital_event_def Let_def)
qed

lemma demo_recipient: "external_withdrawal_recipient demo_kec demo_calldata = demo_addr 3"
proof -
  have u: "uint256 7" by (simp add: uint256_def)
  have "calldata_words demo_calldata 3 = Some [from_be (addr_w (demo_addr 1)), from_be (addr_w (demo_addr 3)), 7]"
    using withdraw_words[OF demo_kec_hash32 is_addr_demo[of 1] is_addr_demo[of 3] u]
    unfolding demo_calldata_def by simp
  moreover have "hex_bytes (PStr demo_calldata) = Some (selector demo_kec WITHDRAW_SIG @
      concat [addr_w (demo_addr 1), addr_w (demo_addr 3), to_be 32 7])"
    unfolding demo_calldata_def by (rule hex_bytes_hex)
  ultimately show ?thesis
    using length_selector[OF demo_kec_hash32] word_address_addr[OF is_addr_demo[of 3]]
    by (simp add: external_withdrawal_recipient_def demo_texts)
qed

lemma demo_mined_decodes:
  "decode_external_withdrawal_effect demo_kec demo_mined (demo_addr 9) demo_calldata (demo_addr 3) = Inr demo_effect"
proof -
  have u: "uint256 7" by (simp add: uint256_def)
  show ?thesis
    using withdraw_effect_decodes[OF demo_kec_hash32 demo_kec_distinct(2) is_addr_demo[of 9] is_addr_demo[of 1]
        is_addr_demo[of 3] u _ demo_calldata_built, of demo_mined "[]" "[]"]
    by (simp add: demo_mined_def demo_receipt_def demo_effect_def)
qed

lemma demo_proof:
  "\<exists>tx. settlement_proof demo_kec 5 chain h intent frm (demo_addr 9) demo_calldata demo_mined demo_effect tx"
proof -
  have ok: "dget demo_effect ''ok'' = PBool True" by (simp add: demo_effect_def)
  show ?thesis
    using effect_canonical_ok[OF demo_mined_decodes ok] demo_mined_decodes ok
    by (auto simp: settlement_proof_def Let_def demo_recipient demo_nonempty)
qed

lemma persist_posts:
  assumes "settlement_proof kec now chain h intent frm executor cd receipt effect tx"
    and "append_receipt_idempotent lg chain tx db = (db', Inr inserted)"
  shows "persist_settlement kec (Some lg) now chain h intent frm executor cd receipt db = (db',
     Inr [(''ok'', PBool True), (''settled'', PBool True), (''already_settled'', PBool (\<not> inserted)),
       (''transaction_id'', PStr (''external-withdrawal-'' @ lower h)), (''effect'', PDict effect)])"
proof -
  have c: "canonical_external_withdrawal_transaction chain h intent frm (external_withdrawal_recipient kec cd) cd effect now = Inr tx"
    using assms(1) by (simp add: settlement_proof_def Let_def)
  show ?thesis
    using assms canonical_fields(4)[OF c]
    by (simp add: persist_settlement_def settlement_proof_def Let_def del: append_Cons)
qed

lemma demo_post_fresh:
  assumes "receipt_rows (settle_key demo_repo ''base'' h) db = []" and "h \<noteq> []"
  shows "\<exists>row. persist_settlement demo_kec (Some demo_repo) 5 ''base'' h intent frm (demo_addr 9) demo_calldata demo_mined db
     = (db\<lparr>db_transactions := db_transactions db @ [row]\<rparr>,
        Inr [(''ok'', PBool True), (''settled'', PBool True), (''already_settled'', PBool False),
         (''transaction_id'', PStr (''external-withdrawal-'' @ lower h)), (''effect'', PDict demo_effect)])"
proof -
  obtain tx where tx: "settlement_proof demo_kec 5 ''base'' h intent frm (demo_addr 9) demo_calldata demo_mined demo_effect tx"
    using demo_proof by blast
  then have c: "canonical_external_withdrawal_transaction ''base'' h intent frm (demo_addr 3) demo_calldata demo_effect 5 = Inr tx"
    by (simp add: settlement_proof_def demo_recipient Let_def)
  have n: "lg_capital demo_repo = None" by (simp add: demo_repo_def)
  from append_receipt_fresh[OF c n _ _ assms(2,1)] obtain row where
    "append_receipt_idempotent demo_repo ''base'' tx db = (db\<lparr>db_transactions := db_transactions db @ [row]\<rparr>, Inr True)"
    by auto
  from persist_posts[OF tx this] show ?thesis by (intro exI[of _ row]) (simp del: append_Cons)
qed

lemma demo_settles:
  "\<exists>row out. reconcile_external_withdraw demo_kec demo_sha demo_env (demo_request (demo_hash 7)) empty_ledger =
     (empty_ledger\<lparr>db_transactions := [row]\<rparr>, Inr out) \<and> dget (as_dict out) ''settled'' = PBool True"
proof -
  let ?p = "demo_request (demo_hash 7)"
  have t: "req_text ?p ''tx_hash'' = demo_hash 7" "req_text ?p ''data'' = demo_calldata"
    by (simp_all add: req_text_def demo_request_def demo_texts)
  have e: "re_repo demo_env = Some demo_repo" "re_now_ms demo_env = 5" "env_chain demo_env = ''base''" "env_executor demo_env = demo_addr 9"
    "re_get_tx demo_env h = PDict demo_tx" for h
    by (simp_all add: demo_env_def or_text_def env_executor_def demo_texts)
  have f: "receipt_rows (settle_key demo_repo ''base'' (demo_hash 7)) empty_ledger = []" and "demo_hash 7 \<noteq> []"
    by (simp_all add: receipt_rows_def empty_ledger_def demo_hash_def)
  from demo_post_fresh[OF this] obtain row where
    s: "env_settle demo_kec demo_env ?p (receipt_verdict (demo_hash 7) demo_mined) empty_ledger =
     (empty_ledger\<lparr>db_transactions := db_transactions empty_ledger @ [row]\<rparr>,
        Inr [(''ok'', PBool True), (''settled'', PBool True), (''already_settled'', PBool False),
         (''transaction_id'', PStr (''external-withdrawal-'' @ lower (demo_hash 7))), (''effect'', PDict demo_effect)])"
    unfolding env_settle_def t e demo_verdict by blast
  then show ?thesis
    using demo_accepted demo_submitted
    by (simp add: reconcile_external_withdraw_def t e demo_assessed reconcile_receipt_def demo_verdict
        dget_sent_json settled_update_def dupdate_def Let_def empty_ledger_def del: append_Cons)
qed

section \<open>Properties\<close>

lemma settles_row:
  assumes "settles kec sha env payload db db' effect posted"
  shows "(db' = db \<or> (\<exists>row. db_transactions db' = db_transactions db @ [row] \<and>
       lr_receipt_id row = req_text payload ''tx_hash'' \<and> lr_payload row = json_sorted (PDict posted))) \<and>
     sum_list (map line_amount (tx_lines posted)) = 0 \<and>
     (\<exists>lg. re_repo env = Some lg \<and> receipt_rows (settle_key lg (env_chain env) (req_text payload ''tx_hash'')) db' \<noteq> [])"
proof -
  let ?h = "req_text payload ''tx_hash''"
  from assms obtain st lg inserted where lg: "re_repo env = Some lg"
    and pr: "settlement_proof kec (re_now_ms env) (env_chain env) ?h (req_intent payload)
         (req_text payload ''from_address'') (env_executor env) (req_text payload ''data'') (receipt_of st) effect posted"
    and a: "append_receipt_idempotent lg (env_chain env) posted db = (db', Inr inserted)"
    unfolding settles_def by blast
  from pr obtain dest where
    d: "decode_external_withdrawal_effect kec (receipt_of st) (env_executor env) (req_text payload ''data'') dest = Inr effect"
      "dget effect ''ok'' = PBool True"
    and c: "canonical_external_withdrawal_transaction (env_chain env) ?h (req_intent payload) (req_text payload ''from_address'')
      dest (req_text payload ''data'') effect (re_now_ms env) = Inr posted"
    unfolding settlement_proof_def Let_def by blast
  from effect_posts[OF d, of "env_chain env" ?h "req_intent payload" "req_text payload ''from_address''" dest
      "req_text payload ''data''" "re_now_ms env"] c
  have bal: "sum_list (map line_amount (tx_lines posted)) = 0" by auto
  have key: "receipt_key lg (env_chain env, posted) = settle_key lg (env_chain env) ?h" by (rule canonical_key[OF c])
  have "receipt_rows (settle_key lg (env_chain env) ?h) db' \<noteq> []"
    using receipts.post_records[of lg "(env_chain env, posted)" db db' inserted] a key by simp
  moreover have "db' = db \<or> (\<exists>row. db_transactions db' = db_transactions db @ [row] \<and>
       lr_receipt_id row = ?h \<and> lr_payload row = json_sorted (PDict posted))"
    using a
  proof (cases rule: append_receipt_cases)
    case (new row)
    with journal_row_key[OF new(4)] canonical_fields(1)[OF c] show ?thesis by auto
  qed simp_all
  ultimately show ?thesis using bal lg by blast
qed

lemma request_accepted:
  assumes "request_rejected sha env payload = None"
  shows "req_intent payload = req_digest sha payload" and "env_executor env = lower (req_text payload ''to'')"
    and "quantity (re_chain_id env) = quantity (dget payload ''chain_id'')"
  using assms unfolding request_rejected_def Let_def by (auto split: if_splits)

lemma submitted_accepted:
  assumes "submitted_rejected payload tx = None"
  shows "lower (str_or_empty (dget tx ''from'')) = lower (req_text payload ''from_address'')"
    and "lower (str_or_empty (dget tx ''to'')) = lower (req_text payload ''to'')"
    and "lower (str_or_empty (dget_or tx ''input'' (dget tx ''data''))) = lower (req_text payload ''data'')"
    and "quantity (dget tx ''value'') = quantity (dget payload ''value'')"
  using assms unfolding submitted_rejected_def Let_def by (auto split: if_splits)

text \<open>What the node's transaction shares with the request.\<close>

definition same_call :: "pydict \<Rightarrow> pydict \<Rightarrow> bool" where
  "same_call payload tx \<longleftrightarrow>
     lower (str_or_empty (dget tx ''from'')) = lower (req_text payload ''from_address'') \<and>
     lower (str_or_empty (dget tx ''to'')) = lower (req_text payload ''to'') \<and>
     lower (str_or_empty (dget_or tx ''input'' (dget tx ''data''))) = lower (req_text payload ''data'') \<and>
     quantity (dget tx ''value'') = quantity (dget payload ''value'')"

lemma settles_request:
  assumes "settles kec sha env payload db db' effect posted"
  shows "req_intent payload = req_digest sha payload" and "env_executor env = lower (req_text payload ''to'')"
    and "quantity (re_chain_id env) = quantity (dget payload ''chain_id'')"
    and "\<exists>tx. re_get_tx env (req_text payload ''tx_hash'') = PDict tx \<and> same_call payload tx"
proof -
  from assms have a: "request_rejected sha env payload = None" unfolding settles_def by blast
  from request_accepted[OF a] show "req_intent payload = req_digest sha payload"
    "env_executor env = lower (req_text payload ''to'')"
    "quantity (re_chain_id env) = quantity (dget payload ''chain_id'')" by blast+
  from assms obtain tx where "re_get_tx env (req_text payload ''tx_hash'') = PDict tx" "submitted_rejected payload tx = None"
    unfolding settles_def by blast
  with submitted_accepted[of payload tx] show "\<exists>tx. re_get_tx env (req_text payload ''tx_hash'') = PDict tx \<and> same_call payload tx"
    by (auto simp: same_call_def)
qed

text \<open>C4: the journal changes only on proof: if a reconciliation call leaves other tables behind, then the
  request's intent id is the digest of its fields, its destination is the executor and its chain the
  server's, the node's transaction agrees with it in sender, destination, calldata and value, the
  receipt has status 1 and proves an effect for the recipient in the calldata, and the change is one
  appended balanced transaction that carries the submitted transaction's hash.\<close>

theorem journal_changes_only_on_proof:
  assumes "reconcile_external_withdraw kec sha env payload db = (db', r)" and "db' \<noteq> db"
  shows "req_intent payload = req_digest sha payload \<and> env_executor env = lower (req_text payload ''to'') \<and>
     quantity (re_chain_id env) = quantity (dget payload ''chain_id'') \<and>
     (\<exists>tx. re_get_tx env (req_text payload ''tx_hash'') = PDict tx \<and> same_call payload tx) \<and>
     (\<exists>effect posted row. settles kec sha env payload db db' effect posted \<and>
       db_transactions db' = db_transactions db @ [row] \<and> lr_receipt_id row = req_text payload ''tx_hash'' \<and>
       lr_payload row = json_sorted (PDict posted) \<and> sum_list (map line_amount (tx_lines posted)) = 0)"
proof -
  from reconcile_settles[OF assms(1)] assms(2) obtain effect posted where
    s: "settles kec sha env payload db db' effect posted" by blast
  with settles_row[OF s] assms(2) settles_request[OF s] show ?thesis by blast
qed

theorem journal_changes_only_on_proof_witness:
  "req_intent (demo_request (demo_hash 7)) = req_digest demo_sha (demo_request (demo_hash 7)) \<and>
   (\<exists>db' effect posted row. settles demo_kec demo_sha demo_env (demo_request (demo_hash 7)) empty_ledger db' effect posted \<and>
     db_transactions db' = db_transactions empty_ledger @ [row] \<and> sum_list (map line_amount (tx_lines posted)) = 0)"
proof -
  obtain row out where r: "reconcile_external_withdraw demo_kec demo_sha demo_env (demo_request (demo_hash 7)) empty_ledger =
     (empty_ledger\<lparr>db_transactions := [row]\<rparr>, Inr out)" using demo_settles by blast
  have "empty_ledger\<lparr>db_transactions := [row]\<rparr> \<noteq> empty_ledger" by (simp add: empty_ledger_def)
  from journal_changes_only_on_proof[OF r this] show ?thesis by blast
qed

text \<open>C5: an answer that says settled means booked, and booked once: where the journal held no settlement row for the
  submitted hash it then holds exactly one, where it held some they are unchanged, and no later run of postings
  of receipts (\<open>append_receipt_idempotent\<close>), this one included and by whatever repository, adds, removes or
  changes a row for that hash.\<close>

theorem settled_answer_booked_once:
  assumes "reconcile_external_withdraw kec sha env payload db = (db', Inr out)"
    and "dget (as_dict out) ''settled'' = PBool True" and "re_repo env = Some lg"
  defines "k \<equiv> settle_key lg (env_chain env) (req_text payload ''tx_hash'')"
  shows "(if receipt_rows k db = [] then length (receipt_rows k db') = 1 else receipt_rows k db' = receipt_rows k db) \<and>
     receipt_rows k (post_receipts lg' txs db') = receipt_rows k db'"
proof -
  from reconcile_settles[OF assms(1)] assms(2) obtain effect posted where
    s: "settles kec sha env payload db db' effect posted" by blast
  from s obtain lg2 st inserted where lg: "re_repo env = Some lg2"
    and pr: "settlement_proof kec (re_now_ms env) (env_chain env) (req_text payload ''tx_hash'') (req_intent payload)
         (req_text payload ''from_address'') (env_executor env) (req_text payload ''data'') (receipt_of st) effect posted"
    and a: "append_receipt_idempotent lg2 (env_chain env) posted db = (db', Inr inserted)"
    unfolding settles_def by blast
  from pr obtain dest where
    c: "canonical_external_withdrawal_transaction (env_chain env) (req_text payload ''tx_hash'') (req_intent payload) (req_text payload ''from_address'')
      dest (req_text payload ''data'') effect (re_now_ms env) = Inr posted"
    unfolding settlement_proof_def Let_def by blast
  have "receipt_key lg2 (env_chain env, posted) = k" using canonical_key[OF c] lg assms(3) by (simp add: k_def)
  with receipt_recorded_once[OF a, of lg' txs] show ?thesis by (auto split: if_splits)
qed

theorem settled_answer_booked_once_witness:
  "\<exists>db' out. reconcile_external_withdraw demo_kec demo_sha demo_env (demo_request (demo_hash 7)) empty_ledger = (db', Inr out) \<and>
     length (receipt_rows (settle_key demo_repo (env_chain demo_env) (req_text (demo_request (demo_hash 7)) ''tx_hash''))
       (post_receipts demo_repo [(''base'', demo_payload ''r'')] db')) = 1"
proof -
  obtain db' out where r: "reconcile_external_withdraw demo_kec demo_sha demo_env (demo_request (demo_hash 7)) empty_ledger = (db', Inr out)"
    and s: "dget (as_dict out) ''settled'' = PBool True" using demo_settles by blast
  have "re_repo demo_env = Some demo_repo" by (simp add: demo_env_def)
  moreover have "receipt_rows k empty_ledger = []" for k by (simp add: receipt_rows_def empty_ledger_def)
  ultimately show ?thesis using settled_answer_booked_once[OF r s, of demo_repo demo_repo "[(''base'', demo_payload ''r'')]"] r by simp
qed

text \<open>C39: the deduplication key is the hash as submitted, not the transaction: when one proved effect is
  persisted under two spellings of the same hash (the code's own transaction id, which lower-cases,
  is the same), neither yet booked, both postings insert and the journal holds the withdrawal twice.\<close>

theorem hash_case_settles_twice:
  assumes "h1 \<noteq> h2" and "lower h1 = lower h2"
    and "persist_settlement kec (Some lg) now chain h1 intent frm executor cd receipt db = (db1, Inr s1)"
    and "persist_settlement kec (Some lg) now chain h2 intent frm executor cd receipt db1 = (db2, Inr s2)"
    and "dget s1 ''ok'' = PBool True" and "dget s2 ''ok'' = PBool True"
    and "receipt_rows (settle_key lg chain h1) db = []" and "receipt_rows (settle_key lg chain h2) db = []"
  shows "\<exists>row1 row2. db_transactions db2 = db_transactions db @ [row1, row2] \<and>
     lr_transaction_id row1 = lr_transaction_id row2 \<and> dget s2 ''already_settled'' = PBool False"
proof -
  have one: "\<exists>row. db_transactions db' = db_transactions db @ [row] \<and> lr_transaction_id row = ''external-withdrawal-'' @ lower h \<and>
      lr_receipt_id row = h \<and> dget s ''already_settled'' = PBool False"
    if p: "persist_settlement kec (Some lg) now chain h intent frm executor cd receipt db = (db', Inr s)"
      and ok: "dget s ''ok'' = PBool True" and fresh: "receipt_rows (settle_key lg chain h) db = []" for h db db' s
    using p
  proof (cases rule: persist_cases)
    case (posted lg2 effect tx inserted)
    from posted(2) have c: "canonical_external_withdrawal_transaction chain h intent frm
        (external_withdrawal_recipient kec cd) cd effect now = Inr tx"
      by (simp add: settlement_proof_def Let_def)
    from posted(1,3) have a: "append_receipt_idempotent lg chain tx db = (db', Inr inserted)" by simp
    then show ?thesis
    proof (cases rule: append_receipt_cases)
      case (new row)
      with journal_row_key[OF new(4)] canonical_fields[OF c] posted(4) show ?thesis by auto
    next
      case old
      with fresh canonical_key[OF c, of lg chain] show ?thesis by simp
    qed simp
  next
    case (refused reason)
    with ok show ?thesis by (simp add: reason_code_def)
  next
    case (raised e)
    then show ?thesis by simp
  qed
  from one[OF assms(3,5,7)] obtain row1 where r1: "db_transactions db1 = db_transactions db @ [row1]"
    "lr_transaction_id row1 = ''external-withdrawal-'' @ lower h1" "lr_receipt_id row1 = h1" by blast
  have "receipt_rows (settle_key lg chain h2) db1 = []"
    using assms(1,8) r1 by (auto simp: receipt_rows_def settle_key_def same_receipt_def)
  from one[OF assms(4,6) this] r1 assms(2) show ?thesis by auto
qed

definition spelled_hash :: "char \<Rightarrow> string" where
  "spelled_hash c = ''0x'' @ replicate 64 c"

theorem hash_case_settles_twice_witness:
  "\<exists>db1 db2 s1 s2 row1 row2.
     persist_settlement demo_kec (Some demo_repo) 5 ''base'' (spelled_hash (CHR ''a'')) ''i'' [] (demo_addr 9) demo_calldata demo_mined empty_ledger = (db1, Inr s1) \<and>
     persist_settlement demo_kec (Some demo_repo) 5 ''base'' (spelled_hash (CHR ''A'')) ''i'' [] (demo_addr 9) demo_calldata demo_mined db1 = (db2, Inr s2) \<and>
     db_transactions db2 = db_transactions empty_ledger @ [row1, row2] \<and> lr_transaction_id row1 = lr_transaction_id row2"
proof -
  let ?a = "spelled_hash (CHR ''a'')" and ?A = "spelled_hash (CHR ''A'')"
  have ne: "?a \<noteq> []" "?A \<noteq> []" and d: "?a \<noteq> ?A" by (simp_all add: spelled_hash_def)
  have l: "lower ?a = lower ?A" by (simp add: spelled_hash_def lower_def lower_char_def char_of_def bit_0)
  have e: "receipt_rows (settle_key demo_repo ''base'' h) empty_ledger = []" for h
    by (simp add: receipt_rows_def empty_ledger_def)
  from demo_post_fresh[OF e ne(1), of "''i''" "[]"] obtain db1 s1 where
    p1: "persist_settlement demo_kec (Some demo_repo) 5 ''base'' ?a ''i'' [] (demo_addr 9) demo_calldata demo_mined empty_ledger = (db1, Inr s1)"
    and o1: "dget s1 ''ok'' = PBool True" by fastforce
  obtain tx where tx: "settlement_proof demo_kec 5 ''base'' ?A ''i'' [] (demo_addr 9) demo_calldata demo_mined demo_effect tx"
    using demo_proof by blast
  have "receipt_rows (settle_key demo_repo ''base'' ?A) db1 = []"
    using p1
  proof (cases rule: persist_cases)
    case (posted lg effect tx inserted)
    from posted(2) have c: "canonical_external_withdrawal_transaction ''base'' ?a ''i'' [] (external_withdrawal_recipient demo_kec demo_calldata)
        demo_calldata effect 5 = Inr tx" by (simp add: settlement_proof_def Let_def)
    have "settle_key demo_repo ''base'' ?A \<noteq> receipt_key lg (''base'', tx)"
      unfolding canonical_key[OF c] using d by (simp add: settle_key_def)
    with receipts.post_frame[of lg "(''base'', tx)" empty_ledger db1 "Inr inserted" "settle_key demo_repo ''base'' ?A"] posted(3) e
    show ?thesis by simp
  qed (use e in auto)
  from demo_post_fresh[OF this ne(2), of "''i''" "[]"] obtain db2 s2 where
    p2: "persist_settlement demo_kec (Some demo_repo) 5 ''base'' ?A ''i'' [] (demo_addr 9) demo_calldata demo_mined db1 = (db2, Inr s2)"
    and o2: "dget s2 ''ok'' = PBool True" by fastforce
  from hash_case_settles_twice[OF d l p1 p2 o1 o2 e e] p1 p2 show ?thesis by blast
qed

section \<open>The intent digest\<close>

text \<open>A reader of one escaped character: what \<open>json_char\<close> writes comes back, whatever follows.\<close>

fun json_read :: "string \<Rightarrow> (nat \<times> string) option" where
  "json_read [] = None"
| "json_read (c # cs) =
     (if c = CHR 0x22 then None
      else if c \<noteq> CHR 0x5C then Some (of_char c, cs)
      else case cs of [] \<Rightarrow> None
      | d # ds \<Rightarrow>
          if d = CHR 0x22 \<or> d = CHR 0x5C then Some (of_char d, ds)
          else if d = CHR ''n'' then Some (10, ds) else if d = CHR ''r'' then Some (13, ds)
          else if d = CHR ''t'' then Some (9, ds) else if d = CHR ''f'' then Some (12, ds)
          else if d = CHR ''b'' then Some (8, ds)
          else (case ds of z # y # h # l # es \<Rightarrow>
            (case (digit_val 16 h, digit_val 16 l) of (Some a, Some b) \<Rightarrow> Some (16 * a + b, es) | _ \<Rightarrow> None)
          | _ \<Rightarrow> None))"

lemma of_char_eq_iff: "c = d \<longleftrightarrow> of_char c = (of_char d :: nat)"
  using of_char_inj by auto

lemma json_read_char: "json_read (json_char c @ x) = Some (of_char c, x)"
proof -
  obtain n :: nat where n: "of_char c = n" and lt: "n < 256" using of_char_lt[of c] by blast
  have hx: "digit_val 16 (digit_char (n div 16 mod 16)) = Some (n div 16)" "digit_val 16 (digit_char (n mod 16)) = Some (n mod 16)"
    using lt by (simp_all add: digit_val_char)
  show ?thesis
    using hx by (simp add: json_char_def n Let_def two_hex_def of_char_eq_iff[of c])
qed

lemma json_char_nonempty: "json_char c \<noteq> []"
  by (simp add: json_char_def Let_def)

lemma json_chars_inj:
  "concat (map json_char s) @ CHR 0x22 # x = concat (map json_char t) @ CHR 0x22 # y \<Longrightarrow> s = t \<and> x = y"
proof (induction s arbitrary: t)
  case Nil
  show ?case
  proof (cases t)
    case (Cons d t')
    with Nil have "json_read (CHR 0x22 # x) = json_read (json_char d @ concat (map json_char t') @ CHR 0x22 # y)" by simp
    then show ?thesis by (simp add: json_read_char)
  qed (use Nil in simp)
next
  case (Cons c s)
  show ?case
  proof (cases t)
    case Nil
    with Cons.prems have "json_read (json_char c @ concat (map json_char s) @ CHR 0x22 # x) = json_read (CHR 0x22 # y)" by simp
    then show ?thesis by (simp add: json_read_char)
  next
    case t: (Cons d t')
    with Cons.prems have "json_read (json_char c @ concat (map json_char s) @ CHR 0x22 # x)
        = json_read (json_char d @ concat (map json_char t') @ CHR 0x22 # y)" by simp
    then have "c = d" "concat (map json_char s) @ CHR 0x22 # x = concat (map json_char t') @ CHR 0x22 # y"
      unfolding json_read_char by (auto dest: of_char_inj)
    with Cons.IH t show ?thesis by simp
  qed
qed

lemma json_text_inj: "json_text s @ x = json_text t @ y \<Longrightarrow> s = t \<and> x = y"
  using json_chars_inj[of s x t y] by (simp add: json_text_def)

lemma json_flat_values_inj:
  assumes "json_flat [(k1, a1), (k2, a2), (k3, a3), (k4, a4), (k5, a5)] = json_flat [(k1, b1), (k2, b2), (k3, b3), (k4, b4), (k5, b5)]"
  shows "[a1, a2, a3, a4, a5] = [b1, b2, b3, b4, b5]"
proof -
  have one: "json_text s @ x = json_text t @ y \<longleftrightarrow> s = t \<and> x = y" for s t x y
    using json_text_inj by blast
  have two: "json_text s = json_text t \<longleftrightarrow> s = t" for s t
    using one[of s "[]" t "[]"] by simp
  from assms show ?thesis
    by (simp add: json_flat_def one two)
qed

lemma utf8_inj: "utf8 s = utf8 t \<Longrightarrow> s = t"
proof -
  assume "utf8 s = utf8 t"
  then have "code_points s = code_points t" by (metis utf8_replace_utf8)
  then show "s = t" unfolding code_points_def by (rule map_injective) (simp add: inj_def of_char_inj)
qed

text \<open>The intent digest binds every field: two intents have the same digest under every hash exactly
  when chain id and value agree as quantities and addresses and calldata agree up to letter case; no
  field can be shifted into another by quotes, escapes or separators.\<close>

theorem intent_digest_binds:
  "(\<forall>sha. intent_digest sha c f t d v = intent_digest sha c' f' t' d' v') \<longleftrightarrow>
     quantity c = quantity c' \<and> lower f = lower f' \<and> lower t = lower t' \<and> lower d = lower d' \<and> quantity v = quantity v'"
proof
  assume "\<forall>sha. intent_digest sha c f t d v = intent_digest sha c' f' t' d' v'"
  then have "intent_digest (\<lambda>b. b) c f t d v = intent_digest (\<lambda>b. b) c' f' t' d' v'" by blast
  then have "json_flat (intent_canonical c f t d v) = json_flat (intent_canonical c' f' t' d' v')"
    by (simp add: intent_digest_def hex_of_inj utf8_inj)
  from json_flat_values_inj[OF this[unfolded intent_canonical_def]]
  show "quantity c = quantity c' \<and> lower f = lower f' \<and> lower t = lower t' \<and> lower d = lower d' \<and> quantity v = quantity v'"
    by simp
qed (simp add: intent_digest_def intent_canonical_def)

end
