(* ===== verification/Split_Identity.thy ===== *)
theory Split_Identity
  imports Py_Prelude Complex_Main "HOL-Library.Product_Lexorder"
begin

text \<open>
  \<open>gas_adjusted_split_identity.py\<close>: from a quoted route candidate, a dictionary, to evidence the
  split search may use. A candidate survives only with all its integers, a valid repayment, gas
  totals that add up, and legs that form a closed cycle over distinct physical pools.
\<close>

section \<open>Pool identity\<close>

definition SHARED_EXECUTION_OVERHEAD_GAS_UNITS :: int where
  "SHARED_EXECUTION_OVERHEAD_GAS_UNITS = 180000 + 90000"

definition EXACT_BASE_L1_STATUSES :: "string set" where
  "EXACT_BASE_L1_STATUSES = {''exact_calldata'', ''exact_calldata_cached''}"

definition is_bool :: "pyval \<Rightarrow> bool" where
  "is_bool v = (case v of PBool b \<Rightarrow> True | _ \<Rightarrow> False)"

text \<open>\<open>_int\<close>: TypeError, ValueError and OverflowError, all that \<open>int()\<close> raises here, become None.\<close>

definition int_value :: "pyval \<Rightarrow> int option" where
  "int_value v = (if none_or_empty v \<or> is_bool v then None
     else case py_int v of Inl e \<Rightarrow> None | Inr n \<Rightarrow> Some n)"

definition curve_pool_key :: "string \<Rightarrow> string option" where
  "curve_pool_key venue = (if venue \<noteq> [] then Some (''curve|'' @ venue) else None)"

definition balancer_pool_key :: "string \<Rightarrow> string option" where
  "balancer_pool_key aux = (if aux \<noteq> [] \<and> aux \<noteq> ''0x'' then Some (''balancer|'' @ aux) else None)"

definition router_pair_pool_key :: "string \<Rightarrow> string \<Rightarrow> string \<Rightarrow> string \<Rightarrow> string option" where
  "router_pair_pool_key protocol venue pair aux =
     (if venue = [] then None
      else if protocol \<in> {''camelot_algebra'', ''camelot_v2'', ''constant_product''}
      then Some (protocol @ ''|'' @ venue @ ''|'' @ pair)
      else if aux = [] \<or> aux = ''0x'' then None
      else Some (protocol @ ''|'' @ venue @ ''|'' @ pair @ ''|'' @ aux))"

definition normalized_leg_text :: "pydict \<Rightarrow> string \<Rightarrow> string" where
  "normalized_leg_text leg k = lower (strip (str_or_empty (dget leg k)))"

definition normalized_leg_aux :: "pydict \<Rightarrow> string" where
  "normalized_leg_aux leg =
     (let v = dget leg ''data''; v = (if none_or_empty v then dget leg ''aux'' else v);
          v = (if none_or_empty v then PStr ''0x'' else v)
      in lower (strip (py_str v)))"

definition pool_tokens_are_valid :: "string \<Rightarrow> string \<Rightarrow> string \<Rightarrow> bool" where
  "pool_tokens_are_valid protocol token_in token_out =
     (protocol \<noteq> [] \<and> token_in \<noteq> [] \<and> token_out \<noteq> [] \<and> token_in \<noteq> token_out)"

definition pool_key_inputs :: "pydict \<Rightarrow> (string \<times> string \<times> string \<times> string) option" where
  "pool_key_inputs leg =
     (let protocol = normalized_leg_text leg ''dex''; token_in = normalized_leg_text leg ''token_in'';
          token_out = normalized_leg_text leg ''token_out''; venue = normalized_leg_text leg ''venue'';
          aux = normalized_leg_aux leg in
      if \<not> pool_tokens_are_valid protocol token_in token_out then None
      else Some (protocol, venue, join ''|'' (sort [token_in, token_out]), aux))"

definition generic_pool_key :: "string \<Rightarrow> string \<Rightarrow> string \<Rightarrow> string \<Rightarrow> string option" where
  "generic_pool_key protocol venue pair aux =
     (if venue \<noteq> [] then Some (protocol @ ''|'' @ venue @ ''|'' @ pair @ ''|'' @ aux) else None)"

text \<open>The dictionary of resolvers, one per protocol; \<open>univ3\<close> names the fee-tier routers.\<close>

definition resolve_pool_key :: "string \<Rightarrow> string \<Rightarrow> string \<Rightarrow> string \<Rightarrow> string option" where
  "resolve_pool_key protocol venue pair aux =
     (if protocol = ''curve'' then curve_pool_key venue
      else if protocol = ''balancer'' then balancer_pool_key aux
      else if protocol \<in> {''univ3'', ''slipstream'', ''aerodrome'', ''camelot_algebra'', ''camelot_v2'', ''constant_product''}
      then router_pair_pool_key protocol venue pair aux
      else generic_pool_key protocol venue pair aux)"

definition leg_pool_key :: "pydict \<Rightarrow> string option" where
  "leg_pool_key leg = (case pool_key_inputs leg of None \<Rightarrow> None
     | Some (protocol, venue, pair, aux) \<Rightarrow> resolve_pool_key protocol venue pair aux)"

section \<open>Cost evidence\<close>

record numeric_values =
  nv_amount :: int
  nv_gross :: int
  nv_fee :: int
  nv_gas_token :: int
  nv_native_cost :: int
  nv_l2_gas :: int
  nv_gas_units :: int
  nv_l1_fee :: int

definition candidate_numeric_values :: "pydict \<Rightarrow> numeric_values option" where
  "candidate_numeric_values c =
     (case map (\<lambda>k. int_value (dget c k)) [''amount_in'', ''gross_profit_wei'', ''flashloan_fee_wei'',
        ''gas_cost_profit_token_wei'', ''gas_cost_wei'', ''gas_cost_l2_wei'', ''gas_units_estimate'', ''base_l1_fee_wei''] of
        [Some a, Some g, Some f, Some t, Some n, Some l, Some u, Some d] \<Rightarrow>
          Some \<lparr>nv_amount = a, nv_gross = g, nv_fee = f, nv_gas_token = t, nv_native_cost = n, nv_l2_gas = l,
                nv_gas_units = u, nv_l1_fee = d\<rparr>
      | _ \<Rightarrow> None)"

definition positive_amount_and_gross :: "numeric_values \<Rightarrow> bool" where
  "positive_amount_and_gross v = (nv_amount v > 0 \<and> nv_gross v > 0)"

definition fee_and_repayment_are_valid :: "pydict \<Rightarrow> numeric_values \<Rightarrow> bool" where
  "fee_and_repayment_are_valid c v = (nv_fee v \<ge> 0 \<and> is_true (dget c ''repayment_valid''))"

definition candidate_has_repay_and_gross_evidence :: "pydict \<Rightarrow> numeric_values \<Rightarrow> bool" where
  "candidate_has_repay_and_gross_evidence c v = (positive_amount_and_gross v \<and> fee_and_repayment_are_valid c v)"

definition native_gas_totals_are_consistent :: "numeric_values \<Rightarrow> bool" where
  "native_gas_totals_are_consistent v =
     (if nv_native_cost v \<le> 0 then False else if nv_l2_gas v \<le> 0 then False
      else if nv_l1_fee v < 0 then False else nv_native_cost v = nv_l2_gas v + nv_l1_fee v)"

definition gas_units_are_estimable :: "numeric_values \<Rightarrow> bool" where
  "gas_units_are_estimable v = (nv_gas_units v > SHARED_EXECUTION_OVERHEAD_GAS_UNITS)"

definition candidate_has_converted_gas_evidence :: "numeric_values \<Rightarrow> bool" where
  "candidate_has_converted_gas_evidence v =
     (if \<not> native_gas_totals_are_consistent v then False
      else if \<not> gas_units_are_estimable v then False else nv_gas_token v > 0)"

definition base_l1_fee_is_exact :: "pydict \<Rightarrow> int \<Rightarrow> bool" where
  "base_l1_fee_is_exact c chain_id =
     (chain_id \<noteq> 8453 \<or> str_or_empty (dget c ''base_l1_fee_status'') \<in> EXACT_BASE_L1_STATUSES)"

definition candidate_costs_are_admissible :: "pydict \<Rightarrow> numeric_values \<Rightarrow> int \<Rightarrow> bool" where
  "candidate_costs_are_admissible c v chain_id =
     (if \<not> candidate_has_repay_and_gross_evidence c v then False
      else if \<not> candidate_has_converted_gas_evidence v then False
      else base_l1_fee_is_exact c chain_id)"

section \<open>Cycle identity\<close>

definition route_token_pair_is_valid :: "string \<Rightarrow> string \<Rightarrow> string \<Rightarrow> bool" where
  "route_token_pair_is_valid token_in token_out expected =
     (if token_in = [] then False else if token_out = [] then False
      else if token_in = token_out then False else token_in = expected)"

definition route_protocol_has_pool :: "string \<Rightarrow> string option \<Rightarrow> bool" where
  "route_protocol_has_pool protocol pool_key =
     (protocol \<noteq> [] \<and> (case pool_key of None \<Rightarrow> False | Some k \<Rightarrow> k \<noteq> []))"

record leg_identity =
  li_token_in :: string
  li_token_out :: string
  li_protocol :: string
  li_pool_key :: string
  li_venue :: string
  li_directed_pair :: string

definition route_leg_identity :: "pydict \<Rightarrow> string \<Rightarrow> leg_identity option" where
  "route_leg_identity leg expected =
     (let token_in = normalized_leg_text leg ''token_in''; token_out = normalized_leg_text leg ''token_out'';
          protocol = normalized_leg_text leg ''dex''; pool_key = leg_pool_key leg in
      if \<not> route_token_pair_is_valid token_in token_out expected then None
      else if \<not> route_protocol_has_pool protocol pool_key then None
      else Some \<lparr>li_token_in = token_in, li_token_out = token_out, li_protocol = protocol,
        li_pool_key = the pool_key, li_venue = normalized_leg_text leg ''venue'',
        li_directed_pair = token_in @ ''->'' @ token_out\<rparr>)"

text \<open>The loop's accumulators: the token expected next and the identities collected so far.\<close>

fun leg_identities :: "string \<Rightarrow> pydict list \<Rightarrow> (string \<times> leg_identity list) option" where
  "leg_identities prior [] = Some (prior, [])"
| "leg_identities prior (leg # legs) =
     (case route_leg_identity leg prior of None \<Rightarrow> None
      | Some i \<Rightarrow> (case leg_identities (li_token_out i) legs of None \<Rightarrow> None
          | Some (last_token, is) \<Rightarrow> Some (last_token, i # is)))"

record cycle_identity =
  ci_borrow_token :: string
  ci_pool_keys :: "string set"
  ci_protocols :: "string set"
  ci_routers :: "string set"
  ci_directed_pairs :: "string set"

definition router_ids :: "leg_identity list \<Rightarrow> string set" where
  "router_ids is = set (map li_venue (filter (\<lambda>i. li_venue i \<noteq> [] \<and> li_protocol i \<noteq> ''curve'') is))"

definition collect_cycle_leg_identities :: "pydict list \<Rightarrow> string \<Rightarrow> cycle_identity option" where
  "collect_cycle_leg_identities legs borrow_token =
     (case leg_identities borrow_token legs of None \<Rightarrow> None
      | Some (last_token, is) \<Rightarrow>
          let pool_keys = map li_pool_key is in
          if last_token \<noteq> borrow_token \<or> length pool_keys \<noteq> length (remdups pool_keys) then None
          else Some \<lparr>ci_borrow_token = borrow_token, ci_pool_keys = set pool_keys,
            ci_protocols = set (map li_protocol is), ci_routers = router_ids is,
            ci_directed_pairs = set (map li_directed_pair is)\<rparr>)"

definition cycle_identity_of :: "pydict list \<Rightarrow> int \<Rightarrow> cycle_identity option" where
  "cycle_identity_of legs amount_in =
     (if length legs \<noteq> 2 \<and> length legs \<noteq> 3 then None
      else if int_value (dget (legs ! 0) ''amount_in'') \<noteq> Some amount_in then None
      else let borrow_token = normalized_leg_text (legs ! 0) ''token_in'' in
        if borrow_token = [] then None else collect_cycle_leg_identities legs borrow_token)"

section \<open>The normalised candidate\<close>

record split_candidate =
  sc_route_id :: string
  sc_amount_in :: int
  sc_gross :: int
  sc_fee :: int
  sc_gas_token :: int
  sc_gas_cost :: int
  sc_gas_cost_l2 :: int
  sc_gas_units :: int
  sc_gas_price :: int
  sc_l1_fee :: int
  sc_l1_status :: string
  sc_borrow_token :: string
  sc_legs :: "pydict list"
  sc_pool_keys :: "string set"
  sc_protocols :: "string set"
  sc_routers :: "string set"
  sc_directed_pairs :: "string set"
  sc_net :: int
  sc_conversion :: rat
  sc_revalidated :: bool
  sc_authoritative :: bool
  sc_valid :: bool
  sc_repayment_valid :: bool

definition flag_int :: "bool \<Rightarrow> int" where
  "flag_int b = (if b then 1 else 0)"

text \<open>Tuples are compared lexicographically, as lists of integers are.\<close>

definition candidate_evidence_rank :: "split_candidate \<Rightarrow> int list" where
  "candidate_evidence_rank c =
     [flag_int (sc_revalidated c \<and> sc_authoritative c \<and> sc_valid c \<and> sc_repayment_valid c),
      flag_int (sc_authoritative c), flag_int (sc_revalidated c), sc_net c, sc_gross c]"

text \<open>\<open>candidate.get("legs", [])\<close>: iterating over a number or null raises TypeError.\<close>

definition candidate_legs :: "pydict \<Rightarrow> pydict list res" where
  "candidate_legs c =
     (case dget_or c ''legs'' (PList []) of
        PList xs \<Rightarrow> Inr (map as_dict (filter is_mapping xs))
      | PStr s \<Rightarrow> Inr [] | PDict d \<Rightarrow> Inr [] | _ \<Rightarrow> Inl TypeError)"

definition l2_price :: "numeric_values \<Rightarrow> int" where
  "l2_price v = max 1 ((nv_l2_gas v + nv_gas_units v - 1) div nv_gas_units v)"

definition build_candidate :: "pydict \<Rightarrow> string \<Rightarrow> numeric_values \<Rightarrow> pydict list \<Rightarrow> cycle_identity \<Rightarrow> split_candidate" where
  "build_candidate c route_id v legs i =
     \<lparr>sc_route_id = route_id, sc_amount_in = nv_amount v, sc_gross = nv_gross v, sc_fee = nv_fee v,
      sc_gas_token = nv_gas_token v, sc_gas_cost = nv_native_cost v, sc_gas_cost_l2 = nv_l2_gas v,
      sc_gas_units = nv_gas_units v, sc_gas_price = l2_price v, sc_l1_fee = nv_l1_fee v,
      sc_l1_status = str_or_empty (dget c ''base_l1_fee_status''), sc_borrow_token = ci_borrow_token i,
      sc_legs = legs, sc_pool_keys = ci_pool_keys i, sc_protocols = ci_protocols i, sc_routers = ci_routers i,
      sc_directed_pairs = ci_directed_pairs i, sc_net = nv_gross v - nv_fee v - nv_gas_token v,
      sc_conversion = Fract (nv_gas_token v) (nv_native_cost v), sc_revalidated = is_true (dget c ''revalidated''),
      sc_authoritative = is_true (dget c ''authoritative''), sc_valid = is_true (dget c ''valid''),
      sc_repayment_valid = is_true (dget c ''repayment_valid'')\<rparr>"

definition normalize_candidate :: "pydict \<Rightarrow> int \<Rightarrow> split_candidate option res" where
  "normalize_candidate c chain_id =
     (let route_id = str_or_empty (dget c ''route_id'') in
      case candidate_numeric_values c of None \<Rightarrow> Inr None
      | Some v \<Rightarrow>
          if route_id = [] then Inr None
          else if \<not> candidate_costs_are_admissible c v chain_id then Inr None
          else rbind (candidate_legs c) (\<lambda>legs.
            Inr (map_option (build_candidate c route_id v legs) (cycle_identity_of legs (nv_amount v)))))"

section \<open>Properties\<close>

text \<open>A pool's identity does not depend on the direction of the swap: exchanging the two tokens of a
  leg, everything else unchanged, gives the same pool key.\<close>

theorem pool_key_direction_free:
  assumes "normalized_leg_text leg ''token_in'' = normalized_leg_text leg' ''token_out''"
    and "normalized_leg_text leg ''token_out'' = normalized_leg_text leg' ''token_in''"
    and "normalized_leg_text leg ''dex'' = normalized_leg_text leg' ''dex''"
    and "normalized_leg_text leg ''venue'' = normalized_leg_text leg' ''venue''"
    and "normalized_leg_aux leg = normalized_leg_aux leg'"
  shows "leg_pool_key leg = leg_pool_key leg'"
proof -
  have "sort [a, b] = sort [b, a]" for a b :: string
    by (cases "a \<le> b"; cases "b \<le> a") auto
  then show ?thesis
    using assms by (auto simp: leg_pool_key_def pool_key_inputs_def pool_tokens_are_valid_def Let_def)
qed

theorem pool_key_direction_free_witness:
  "leg_pool_key [(''dex'', PStr ''curve''), (''venue'', PStr ''0xp''), (''token_in'', PStr ''a''), (''token_out'', PStr ''b'')] =
   leg_pool_key [(''dex'', PStr ''curve''), (''venue'', PStr ''0xp''), (''token_in'', PStr ''b''), (''token_out'', PStr ''a'')]"
  by (rule pool_key_direction_free) (simp_all add: normalized_leg_text_def normalized_leg_aux_def none_or_empty_def)

lemma leg_identities_chain:
  "leg_identities prior legs = Some (final, is) \<Longrightarrow>
   length is = length legs \<and> map li_token_in is @ [final] = prior # map li_token_out is \<and>
   list_all (\<lambda>i. li_token_in i \<noteq> li_token_out i \<and> li_protocol i \<noteq> [] \<and> li_pool_key i \<noteq> []) is \<and>
   list_all2 (\<lambda>leg i. leg_pool_key leg = Some (li_pool_key i) \<and> li_token_in i = normalized_leg_text leg ''token_in'') legs is"
proof (induction prior legs arbitrary: final "is" rule: leg_identities.induct)
  case (2 prior leg legs)
  from "2.prems" obtain i js where i: "route_leg_identity leg prior = Some i"
    and r: "leg_identities (li_token_out i) legs = Some (final, js)" and e: "is = i # js"
    by (auto split: option.splits)
  from i have "li_token_in i = prior" "li_token_in i \<noteq> li_token_out i" "li_protocol i \<noteq> []" "li_pool_key i \<noteq> []"
      "leg_pool_key leg = Some (li_pool_key i)" "li_token_in i = normalized_leg_text leg ''token_in''"
    by (auto simp: route_leg_identity_def route_token_pair_is_valid_def route_protocol_has_pool_def Let_def
        split: if_splits option.splits)
  with "2.IH"[OF i r] e show ?case by simp
qed auto

text \<open>What the search may rely on in a candidate.\<close>

definition candidate_ok :: "split_candidate \<Rightarrow> bool" where
  "candidate_ok c \<longleftrightarrow> sc_route_id c \<noteq> [] \<and> 0 < sc_amount_in c \<and> 0 < sc_gross c \<and> 0 \<le> sc_fee c \<and> 0 < sc_gas_token c \<and>
     0 < sc_gas_cost_l2 c \<and> 0 \<le> sc_l1_fee c \<and> sc_gas_cost c = sc_gas_cost_l2 c + sc_l1_fee c \<and>
     SHARED_EXECUTION_OVERHEAD_GAS_UNITS < sc_gas_units c \<and> sc_gas_cost_l2 c \<le> sc_gas_units c * sc_gas_price c \<and>
     sc_repayment_valid c \<and> sc_borrow_token c \<noteq> [] \<and> length (sc_legs c) \<in> {2, 3} \<and>
     card (sc_pool_keys c) = length (sc_legs c) \<and> finite (sc_pool_keys c) \<and>
     sc_net c = sc_gross c - sc_fee c - sc_gas_token c \<and>
     sc_conversion c * of_int (sc_gas_cost c) = of_int (sc_gas_token c)"

lemma l2_price_covers: "0 < nv_gas_units v \<Longrightarrow> nv_l2_gas v \<le> nv_gas_units v * l2_price v"
proof -
  assume u: "0 < nv_gas_units v"
  let ?q = "(nv_l2_gas v + nv_gas_units v - 1) div nv_gas_units v"
  have "nv_l2_gas v + nv_gas_units v - 1 = nv_gas_units v * ?q + (nv_l2_gas v + nv_gas_units v - 1) mod nv_gas_units v"
    by simp
  with pos_mod_bound[OF u, of "nv_l2_gas v + nv_gas_units v - 1"] have "nv_l2_gas v \<le> nv_gas_units v * ?q" by linarith
  also have "\<dots> \<le> nv_gas_units v * l2_price v" using u by (simp add: l2_price_def)
  finally show ?thesis .
qed

lemma cycle_identity_facts:
  assumes "cycle_identity_of legs amount = Some i"
  shows "length legs \<in> {2, 3}" and "ci_borrow_token i \<noteq> []" and "card (ci_pool_keys i) = length legs" and "finite (ci_pool_keys i)"
proof -
  from assms obtain final "is" where l: "leg_identities (ci_borrow_token i) legs = Some (final, is)"
    and d: "length (map li_pool_key is) = length (remdups (map li_pool_key is))"
    and p: "ci_pool_keys i = set (map li_pool_key is)" and b: "ci_borrow_token i \<noteq> []"
    and n: "length legs = 2 \<or> length legs = 3"
    by (auto simp: cycle_identity_of_def collect_cycle_leg_identities_def Let_def split: if_splits option.splits)
  show "length legs \<in> {2, 3}" "ci_borrow_token i \<noteq> []" "finite (ci_pool_keys i)" using n b p by auto
  have "card (set (map li_pool_key is)) = length (map li_pool_key is)"
    using d by (metis length_remdups_card_conv)
  then show "card (ci_pool_keys i) = length legs" using leg_identities_chain[OF l] p by simp
qed

lemma normalized_ok:
  assumes "normalize_candidate c chain_id = Inr (Some cand)"
  shows "candidate_ok cand"
proof -
  from assms obtain v legs i where adm: "candidate_costs_are_admissible c v chain_id"
    and i: "cycle_identity_of legs (nv_amount v) = Some i" and r: "str_or_empty (dget c ''route_id'') \<noteq> []"
    and cand: "cand = build_candidate c (str_or_empty (dget c ''route_id'')) v legs i"
    by (auto simp: normalize_candidate_def Let_def rbind_eq_Inr split: if_splits option.splits)
  from adm have v: "0 < nv_amount v" "0 < nv_gross v" "0 \<le> nv_fee v" "is_true (dget c ''repayment_valid'')"
      "0 < nv_gas_token v" "0 < nv_l2_gas v" "0 \<le> nv_l1_fee v" "nv_native_cost v = nv_l2_gas v + nv_l1_fee v"
      "SHARED_EXECUTION_OVERHEAD_GAS_UNITS < nv_gas_units v" "0 < nv_native_cost v"
    by (auto simp: candidate_costs_are_admissible_def candidate_has_repay_and_gross_evidence_def positive_amount_and_gross_def
        fee_and_repayment_are_valid_def candidate_has_converted_gas_evidence_def native_gas_totals_are_consistent_def
        gas_units_are_estimable_def split: if_splits)
  have u: "0 < nv_gas_units v" using v(9) by (simp add: SHARED_EXECUTION_OVERHEAD_GAS_UNITS_def)
  have "Fract (nv_gas_token v) (nv_native_cost v) * of_int (nv_native_cost v) = of_int (nv_gas_token v)"
    using v(10) by (simp add: Fract_of_int_quotient)
  then show ?thesis
    using v cycle_identity_facts[OF i] r l2_price_covers[OF u]
    by (simp add: candidate_ok_def cand build_candidate_def)
qed

text \<open>Evidence is complete or absent: a candidate that normalises has positive amount and gross
  profit, a valid repayment, native gas that is the sum of its two parts, a gas price that covers the
  observed L2 cost, an exact conversion ratio, and two or three legs over as many distinct pools.\<close>

theorem normalized_candidate_ok:
  assumes "normalize_candidate c chain_id = Inr (Some cand)"
  shows "candidate_ok cand"
  using assms by (rule normalized_ok)

definition demo_candidate :: "string \<Rightarrow> string \<Rightarrow> int \<Rightarrow> int \<Rightarrow> pydict" where
  "demo_candidate rid pool amount gross =
     [(''route_id'', PStr rid), (''amount_in'', PInt amount), (''gross_profit_wei'', PInt gross), (''flashloan_fee_wei'', PInt 1),
      (''gas_cost_profit_token_wei'', PInt 2), (''gas_cost_wei'', PInt 400000), (''gas_cost_l2_wei'', PInt 300000),
      (''gas_units_estimate'', PInt 300000), (''base_l1_fee_wei'', PInt 100000), (''repayment_valid'', PBool True),
      (''legs'', PList [PDict [(''dex'', PStr ''curve''), (''venue'', PStr pool), (''token_in'', PStr ''a''), (''token_out'', PStr ''b''), (''amount_in'', PInt amount)],
        PDict [(''dex'', PStr ''curve''), (''venue'', PStr (pool @ ''2'')), (''token_in'', PStr ''b''), (''token_out'', PStr ''a'')]])]"

lemma demo_leg_identity:
  assumes "strip p = p" and "lower p = p" and "p \<noteq> []"
  shows "route_leg_identity [(''dex'', PStr ''curve''), (''venue'', PStr p), (''token_in'', PStr ''a''), (''token_out'', PStr ''b''), x] ''a''
      = Some \<lparr>li_token_in = ''a'', li_token_out = ''b'', li_protocol = ''curve'', li_pool_key = ''curve|'' @ p, li_venue = p, li_directed_pair = ''a->b''\<rparr>"
    and "route_leg_identity [(''dex'', PStr ''curve''), (''venue'', PStr p), (''token_in'', PStr ''b''), (''token_out'', PStr ''a'')] ''b''
      = Some \<lparr>li_token_in = ''b'', li_token_out = ''a'', li_protocol = ''curve'', li_pool_key = ''curve|'' @ p, li_venue = p, li_directed_pair = ''b->a''\<rparr>"
  using assms by (simp_all add: route_leg_identity_def normalized_leg_text_def strip_def[of "''a''"] strip_def[of "''b''"] strip_def[of "''curve''"]
      is_space_def lower_char_def leg_pool_key_def pool_key_inputs_def pool_tokens_are_valid_def resolve_pool_key_def
      curve_pool_key_def route_token_pair_is_valid_def route_protocol_has_pool_def Let_def)

lemma demo_normalizes:
  assumes "strip p = p" "lower p = p" "p \<noteq> []" "strip (p @ ''2'') = p @ ''2''" and "rid \<noteq> []" and "0 < amount" "0 < gross"
  shows "normalize_candidate (demo_candidate rid p amount gross) 1 = Inr (Some (build_candidate (demo_candidate rid p amount gross) rid
     \<lparr>nv_amount = amount, nv_gross = gross, nv_fee = 1, nv_gas_token = 2, nv_native_cost = 400000, nv_l2_gas = 300000,
      nv_gas_units = 300000, nv_l1_fee = 100000\<rparr>
     [[(''dex'', PStr ''curve''), (''venue'', PStr p), (''token_in'', PStr ''a''), (''token_out'', PStr ''b''), (''amount_in'', PInt amount)],
      [(''dex'', PStr ''curve''), (''venue'', PStr (p @ ''2'')), (''token_in'', PStr ''b''), (''token_out'', PStr ''a'')]]
     \<lparr>ci_borrow_token = ''a'', ci_pool_keys = {''curve|'' @ p, ''curve|'' @ p @ ''2''}, ci_protocols = {''curve''}, ci_routers = {},
      ci_directed_pairs = {''a->b'', ''b->a''}\<rparr>))"
proof -
  let ?c = "demo_candidate rid p amount gross"
  let ?legs = "[[(''dex'', PStr ''curve''), (''venue'', PStr p), (''token_in'', PStr ''a''), (''token_out'', PStr ''b''), (''amount_in'', PInt amount)],
      [(''dex'', PStr ''curve''), (''venue'', PStr (p @ ''2'')), (''token_in'', PStr ''b''), (''token_out'', PStr ''a'')]]"
  have ne: "p @ ''2'' \<noteq> []" by simp
  have l2: "lower (p @ ''2'') = p @ ''2''" using assms(2) by (simp add: lower_char_def)
  have v: "candidate_numeric_values ?c = Some \<lparr>nv_amount = amount, nv_gross = gross, nv_fee = 1, nv_gas_token = 2,
      nv_native_cost = 400000, nv_l2_gas = 300000, nv_gas_units = 300000, nv_l1_fee = 100000\<rparr>" (is "_ = Some ?v")
    by (simp add: candidate_numeric_values_def demo_candidate_def int_value_def none_or_empty_def is_bool_def)
  have adm: "candidate_costs_are_admissible ?c ?v 1"
    using assms(6,7) by (simp add: candidate_costs_are_admissible_def candidate_has_repay_and_gross_evidence_def positive_amount_and_gross_def
        fee_and_repayment_are_valid_def candidate_has_converted_gas_evidence_def native_gas_totals_are_consistent_def is_true_def
        gas_units_are_estimable_def SHARED_EXECUTION_OVERHEAD_GAS_UNITS_def base_l1_fee_is_exact_def demo_candidate_def)
  have legs: "candidate_legs ?c = Inr ?legs"
    by (simp add: candidate_legs_def demo_candidate_def dget_or_def)
  note li = demo_leg_identity(1)[OF assms(1-3), of "(''amount_in'', PInt amount)"] demo_leg_identity(2)[OF assms(4) l2 ne]
  have "leg_identities ''a'' ?legs = Some (''a'',
      [\<lparr>li_token_in = ''a'', li_token_out = ''b'', li_protocol = ''curve'', li_pool_key = ''curve|'' @ p, li_venue = p, li_directed_pair = ''a->b''\<rparr>,
       \<lparr>li_token_in = ''b'', li_token_out = ''a'', li_protocol = ''curve'', li_pool_key = ''curve|'' @ p @ ''2'', li_venue = p @ ''2'', li_directed_pair = ''b->a''\<rparr>])"
    using li by simp
  moreover have "normalized_leg_text (?legs ! 0) ''token_in'' = ''a''"
    by (simp add: normalized_leg_text_def strip_def is_space_def lower_char_def)
  moreover have "int_value (dget (?legs ! 0) ''amount_in'') = Some amount"
    by (simp add: int_value_def none_or_empty_def is_bool_def)
  ultimately have "cycle_identity_of ?legs amount = Some \<lparr>ci_borrow_token = ''a'', ci_pool_keys = {''curve|'' @ p, ''curve|'' @ p @ ''2''},
      ci_protocols = {''curve''}, ci_routers = {}, ci_directed_pairs = {''a->b'', ''b->a''}\<rparr>"
    unfolding cycle_identity_of_def collect_cycle_leg_identities_def by (simp add: router_ids_def insert_commute Let_def)
  moreover have "str_or_empty (dget ?c ''route_id'') = rid" by (simp add: demo_candidate_def)
  ultimately show ?thesis
    using assms(5) by (simp add: normalize_candidate_def v adm legs)
qed

theorem normalized_candidate_ok_witness:
  "\<exists>cand. normalize_candidate (demo_candidate ''r'' ''p'' 1000 50) 1 = Inr (Some cand) \<and> candidate_ok cand"
proof -
  have "strip ''p'' = ''p''" "strip (''p'' @ ''2'') = ''p'' @ ''2''" "lower ''p'' = ''p''"
    by (simp_all add: strip_def is_space_def lower_char_def)
  from demo_normalizes[OF this(1,3) _ this(2), of "''r''" 1000 50] show ?thesis
    using normalized_candidate_ok by simp
qed

end
