(* ===== verification/Split_Router.thy ===== *)
theory Split_Router
  imports Split_Identity "HOL-Library.Sublist" "HOL-Library.Multiset"
begin

text \<open>
  \<open>gas_adjusted_split_router.py\<close>: which partition of one flash loan over independent arbitrage
  cycles would earn most after gas. Candidates are deduplicated and shortlisted per token and
  amount; a depth-first search, bounded by a budget of states, tries the ways to fill each target
  amount; the best plans per token are interleaved. A plan is a record here and becomes the
  dictionary the code builds in \<open>plan_dict\<close>; integers are assumed below Python's 4300-digit limit
  for printing. Where the code carries a start index into the candidate list, the model carries the
  rest of the list.
\<close>

section \<open>Collecting candidates\<close>

definition size_row_has_quote_success :: "pydict \<Rightarrow> bool" where
  "size_row_has_quote_success row =
     (let get = (\<lambda>k. case int_value (dget row k) of None \<Rightarrow> 0 | Some n \<Rightarrow> n)
      in get ''quote_requests'' > 0 \<and> get ''quote_successes'' > 0)"

definition is_quote_backed_size_row :: "pyval \<Rightarrow> bool" where
  "is_quote_backed_size_row row = (is_mapping row \<and> size_row_has_quote_success (as_dict row))"

definition iter_mapping_rows :: "pyval \<Rightarrow> pydict list res" where
  "iter_mapping_rows rows =
     (if \<not> truthy rows then Inr []
      else case rows of PList xs \<Rightarrow> Inr (map as_dict (filter is_mapping xs))
      | PStr s \<Rightarrow> Inr [] | PDict d \<Rightarrow> Inr [] | _ \<Rightarrow> Inl TypeError)"

definition candidate_rows :: "pydict \<Rightarrow> pyval" where
  "candidate_rows row = dget_or row ''candidates'' (PList [])"

definition iter_quote_backed_candidates :: "pyval list \<Rightarrow> pydict list res" where
  "iter_quote_backed_candidates size_matrix =
     rbind (mapr (\<lambda>row. iter_mapping_rows (candidate_rows (as_dict row))) (filter is_quote_backed_size_row size_matrix))
       (\<lambda>rows. Inr (concat rows))"

type_synonym cand_key = "string \<times> int \<times> string"

definition candidate_key :: "split_candidate \<Rightarrow> cand_key" where
  "candidate_key c = (sc_borrow_token c, sc_amount_in c, sc_route_id c)"

definition keep_best :: "(cand_key \<times> split_candidate) list \<Rightarrow> split_candidate \<Rightarrow> (cand_key \<times> split_candidate) list" where
  "keep_best unique c =
     (case map_of unique (candidate_key c) of None \<Rightarrow> AList.update (candidate_key c) c unique
      | Some prior \<Rightarrow> if candidate_evidence_rank prior < candidate_evidence_rank c
          then AList.update (candidate_key c) c unique else unique)"

definition deduplicate_candidates :: "pydict list \<Rightarrow> int \<Rightarrow> (cand_key \<times> split_candidate) list res" where
  "deduplicate_candidates raw chain_id =
     rbind (mapr (\<lambda>c. normalize_candidate c chain_id) raw)
       (\<lambda>cs. Inr (foldl keep_best [] (List.map_filter (\<lambda>c. c) cs)))"

definition al_append :: "'k \<Rightarrow> 'v \<Rightarrow> ('k \<times> 'v list) list \<Rightarrow> ('k \<times> 'v list) list" where
  "al_append k v al = AList.map_default k [v] (\<lambda>vs. vs @ [v]) al"

definition group_candidates_by_token_and_amount ::
    "split_candidate list \<Rightarrow> (string \<times> (int \<times> split_candidate list) list) list" where
  "group_candidates_by_token_and_amount cs =
     foldl (\<lambda>grouped c. AList.map_default (sc_borrow_token c) [(sc_amount_in c, [c])] (al_append (sc_amount_in c) c) grouped) [] cs"

section \<open>The shortlist\<close>

text \<open>\<open>max(xs, key=f)\<close>: the first of the greatest.\<close>

definition max_by :: "('a \<Rightarrow> 'k :: linorder) \<Rightarrow> 'a \<Rightarrow> 'a list \<Rightarrow> 'a" where
  "max_by f x xs = foldl (\<lambda>best y. if f best < f y then y else best) x xs"

definition union_of :: "(split_candidate \<Rightarrow> string set) \<Rightarrow> split_candidate list \<Rightarrow> string set" where
  "union_of f cs = foldl (\<lambda>s c. s \<union> f c) {} cs"

definition diversity_key :: "split_candidate list \<Rightarrow> split_candidate \<Rightarrow> int list" where
  "diversity_key chosen c =
     [int (card (sc_protocols c - union_of sc_protocols chosen)),
      int (card (sc_pool_keys c - union_of sc_pool_keys chosen)), sc_net c, sc_gross c]"

definition best_diverse_candidate_index :: "split_candidate list \<Rightarrow> split_candidate list \<Rightarrow> int \<Rightarrow> int \<Rightarrow> nat" where
  "best_diverse_candidate_index pending chosen best_net tolerance =
     (case filter (\<lambda>i. best_net - sc_net (pending ! i) \<le> tolerance) [0..<length pending] of
        [] \<Rightarrow> 0
      | i # is \<Rightarrow> max_by (\<lambda>i. diversity_key chosen (pending ! i)) i is)"

definition pop_at :: "nat \<Rightarrow> 'a list \<Rightarrow> 'a list" where
  "pop_at i xs = take i xs @ drop (Suc i) xs"

definition DIVERSITY_TOLERANCE_BPS :: int where
  "DIVERSITY_TOLERANCE_BPS = 50"

text \<open>The while loop, by the slots \<open>max_candidates - len(chosen)\<close> that are left.\<close>

fun diversify :: "nat \<Rightarrow> int \<Rightarrow> int \<Rightarrow> split_candidate list \<Rightarrow> split_candidate list \<Rightarrow> split_candidate list" where
  "diversify 0 best_net tolerance pending chosen = chosen"
| "diversify (Suc slots) best_net tolerance pending chosen =
     (if pending = [] then chosen
      else let i = best_diverse_candidate_index pending chosen best_net tolerance
           in diversify slots best_net tolerance (pop_at i pending) (chosen @ [pending ! i]))"

text \<open>\<open>sorted(xs, key=f, reverse=True)\<close> keeps equal elements in their order.\<close>

definition sort_desc :: "('a \<Rightarrow> 'k :: linorder) \<Rightarrow> 'a list \<Rightarrow> 'a list" where
  "sort_desc f xs = rev (sort_key f (rev xs))"

definition shortlist_amount_bucket :: "split_candidate list \<Rightarrow> nat \<Rightarrow> split_candidate list" where
  "shortlist_amount_bucket rows max_candidates =
     (case sort_desc (\<lambda>c. (sc_net c, sc_gross c, sc_route_id c)) rows of
        [] \<Rightarrow> []
      | best # pending \<Rightarrow>
          if max_candidates = 0 then []
          else diversify (max_candidates - 1) (sc_net best)
                 (max 1 (\<bar>sc_net best\<bar> * DIVERSITY_TOLERANCE_BPS div 10000)) pending [best])"

definition prepare_candidate_buckets :: "pyval list \<Rightarrow> int \<Rightarrow> nat \<Rightarrow> (string \<times> split_candidate list) list res" where
  "prepare_candidate_buckets size_matrix chain_id max_per_amount =
     rbind (iter_quote_backed_candidates size_matrix) (\<lambda>raw.
     rbind (deduplicate_candidates raw chain_id) (\<lambda>unique.
     let grouped = group_candidates_by_token_and_amount (map snd unique); cap = max 1 (min max_per_amount 12) in
     Inr (map (\<lambda>(token, buckets). (token,
       concat (map (\<lambda>a. shortlist_amount_bucket (the (map_of buckets a)) cap) (sort (map fst buckets))))) grouped)))"

section \<open>Evaluating a split\<close>

definition EXTRA_SPLIT_ROUTE_GAS_UNITS :: int where
  "EXTRA_SPLIT_ROUTE_GAS_UNITS = 75000"

record split_totals =
  tt_amount :: int
  tt_gross :: int
  tt_fee :: int
  tt_l2_units :: int
  tt_l2_cost :: int
  tt_l1_cost :: int
  tt_native_cost :: int
  tt_gas_token_cost :: int
  tt_net :: int

definition ceil_ratio :: "int \<Rightarrow> rat \<Rightarrow> int" where
  "ceil_ratio n r = (let (p, q) = quotient_of r in (n * p + q - 1) div q)"

text \<open>The maxima are over the parts, of which there are at least two.\<close>

definition split_cost_totals :: "split_candidate list \<Rightarrow> split_totals" where
  "split_cost_totals parts =
     (let gross = sum_list (map sc_gross parts);
          fee = sum_list (map sc_fee parts) + max 0 (int (length parts) - 1);
          route_units = sum_list (map (\<lambda>c. max 0 (sc_gas_units c - SHARED_EXECUTION_OVERHEAD_GAS_UNITS)) parts);
          extra_units = max 0 (int (length parts) - 1) * EXTRA_SPLIT_ROUTE_GAS_UNITS;
          l2_units = SHARED_EXECUTION_OVERHEAD_GAS_UNITS + route_units + extra_units;
          gas_price = Max (set (map sc_gas_price parts));
          l2_cost = l2_units * gas_price;
          l1_cost = sum_list (map sc_l1_fee parts);
          native_cost = l2_cost + l1_cost;
          conversion = Max (set (map sc_conversion parts));
          gas_token_cost = ceil_ratio native_cost conversion in
      \<lparr>tt_amount = sum_list (map sc_amount_in parts), tt_gross = gross, tt_fee = fee, tt_l2_units = l2_units,
       tt_l2_cost = l2_cost, tt_l1_cost = l1_cost, tt_native_cost = native_cost, tt_gas_token_cost = gas_token_cost,
       tt_net = gross - fee - gas_token_cost\<rparr>)"

definition pint_str :: "int \<Rightarrow> pyval" where
  "pint_str n = PStr (show_int n)"

definition pset :: "string set \<Rightarrow> pyval" where
  "pset s = PList (map PStr (sorted_list_of_set s))"

definition identity_coverage :: "split_candidate list \<Rightarrow> pydict" where
  "identity_coverage parts =
     [(''unique_protocols'', PInt (int (card (union_of sc_protocols parts)))),
      (''unique_pool_keys'', PInt (int (card (union_of sc_pool_keys parts)))),
      (''unique_router_ids'', PInt (int (card (union_of sc_routers parts)))),
      (''unique_directed_pairs'', PInt (int (card (union_of sc_directed_pairs parts)))),
      (''router_identity_is_not_a_profit_score'', PBool True)]"

definition allocation_leg :: "pydict \<Rightarrow> pydict" where
  "allocation_leg leg = map (\<lambda>k. (k, PStr (str_or_empty (dget leg k))))
     [''dex'', ''venue'', ''token_in'', ''token_out'', ''amount_in'', ''min_out'', ''data'']"

definition allocation_row :: "split_candidate \<Rightarrow> pydict" where
  "allocation_row c =
     [(''route_id'', PStr (sc_route_id c)), (''amount_in'', pint_str (sc_amount_in c)),
      (''gross_profit_wei'', pint_str (sc_gross c)), (''flashloan_fee_wei'', pint_str (sc_fee c)),
      (''gas_cost_profit_token_wei_observed'', pint_str (sc_gas_token c)), (''protocols'', pset (sc_protocols c)),
      (''pool_keys'', pset (sc_pool_keys c)), (''router_ids'', pset (sc_routers c)),
      (''directed_pairs'', pset (sc_directed_pairs c)), (''legs'', PList (map (\<lambda>l. PDict (allocation_leg l)) (sc_legs c))),
      (''component_revalidated'', PBool (sc_revalidated c)), (''component_authoritative'', PBool (sc_authoritative c)),
      (''component_valid'', PBool (sc_valid c)), (''component_repayment_valid'', PBool (sc_repayment_valid c))]"

record split_plan =
  pl_parts :: "split_candidate list"
  pl_borrow_token :: string
  pl_best_single :: "int option"
  pl_states :: nat
  pl_evaluated :: nat
  pl_truncated :: bool

definition pl_net :: "split_plan \<Rightarrow> int" where
  "pl_net p = tt_net (split_cost_totals (pl_parts p))"

definition pl_improvement :: "split_plan \<Rightarrow> int option" where
  "pl_improvement p = map_option (\<lambda>b. pl_net p - b) (pl_best_single p)"

text \<open>\<open>_evaluate_split\<close>: the part of the dictionary that depends on the parts alone.\<close>

definition evaluate_split :: "split_candidate list \<Rightarrow> pydict" where
  "evaluate_split parts =
     (let t = split_cost_totals parts in
     [(''amount_in'', pint_str (tt_amount t)), (''economic_comparison_scope'', PStr ''within_borrow_token_only''),
      (''profit_units'', PStr ''borrow_token_wei''), (''gross_profit_wei'', pint_str (tt_gross t)),
      (''flashloan_fee_wei'', pint_str (tt_fee t)), (''gas_cost_wei_estimate'', pint_str (tt_native_cost t)),
      (''gas_cost_profit_token_wei_estimate'', pint_str (tt_gas_token_cost t)),
      (''estimated_l2_gas_units'', pint_str (tt_l2_units t)), (''estimated_l2_gas_cost_wei'', pint_str (tt_l2_cost t)),
      (''estimated_l1_data_fee_wei'', pint_str (tt_l1_cost t)), (''economic_after_cost_profit_wei'', pint_str (tt_net t)),
      (''after_cost_positive_estimate'', PBool (tt_net t > 0)), (''revalidated'', PBool False), (''authoritative'', PBool False),
      (''valid'', PBool False), (''execution_authority_granted'', PBool False), (''execution_supported'', PBool False),
      (''required_executor_abi_version'', PInt 3),
      (''execution_block_reason'', PStr ''executor_abi_v2_supports_one_sequential_route_only''),
      (''simulation_required_before_authority'', PBool True), (''route_count'', PInt (int (length parts))),
      (''route_ids'', PList (map (\<lambda>c. PStr (sc_route_id c)) parts)),
      (''identity_coverage'', PDict (identity_coverage parts)),
      (''allocations'', PList (map (\<lambda>c. PDict (allocation_row c)) parts))])"

definition opt_int_str :: "int option \<Rightarrow> pyval" where
  "opt_int_str n = (case n of None \<Rightarrow> PNone | Some k \<Rightarrow> pint_str k)"

text \<open>The whole dictionary, with what \<open>_record_completed_split\<close> and \<open>_search_target_amount\<close> add.\<close>

definition plan_dict :: "split_plan \<Rightarrow> pydict" where
  "plan_dict p = evaluate_split (pl_parts p) @
     [(''borrow_token'', PStr (pl_borrow_token p)),
      (''best_single_route_net_wei_at_target'', opt_int_str (pl_best_single p)),
      (''improvement_over_best_single_wei'', opt_int_str (pl_improvement p)),
      (''better_than_best_single_estimate'', PBool (case pl_improvement p of None \<Rightarrow> False | Some i \<Rightarrow> i > 0)),
      (''composite_route_key'', PStr (join ''|'' (map sc_route_id (pl_parts p)))),
      (''search_states'', PInt (int (pl_states p))),
      (''split_combinations_evaluated_for_target'', PInt (int (pl_evaluated p))),
      (''search_truncated'', PBool (pl_truncated p)),
      (''selection_basis'', PStr ''gas_adjusted_split_economic_diagnostic'')]"

section \<open>The search\<close>

record split_limits =
  lm_routes :: nat
  lm_candidates :: nat
  lm_states :: nat
  lm_plans :: nat

definition default_limits :: split_limits where
  "default_limits = \<lparr>lm_routes = 3, lm_candidates = 8, lm_states = 2000, lm_plans = 8\<rparr>"

record search_state =
  ss_borrow_token :: string
  ss_best_single :: "int option"
  ss_limits :: split_limits
  ss_seen :: nat
  ss_evaluated :: nat
  ss_best :: "split_plan option"

record partial_split =
  pa_remaining :: int
  pa_parts :: "split_candidate list"
  pa_routes :: "string set"
  pa_pools :: "string set"

definition record_completed_split :: "search_state \<Rightarrow> partial_split \<Rightarrow> search_state" where
  "record_completed_split st p =
     (if length (pa_parts p) < 2 then st
      else let plan = \<lparr>pl_parts = pa_parts p, pl_borrow_token = ss_borrow_token st, pl_best_single = ss_best_single st,
                 pl_states = 0, pl_evaluated = 0, pl_truncated = False\<rparr> in
        st\<lparr>ss_evaluated := ss_evaluated st + 1,
           ss_best := (case ss_best st of None \<Rightarrow> Some plan
             | Some b \<Rightarrow> if pl_net b < pl_net plan then Some plan else Some b)\<rparr>)"

definition fits :: "partial_split \<Rightarrow> split_candidate \<Rightarrow> bool" where
  "fits p row = (sc_amount_in row \<le> pa_remaining p \<and> sc_route_id row \<notin> pa_routes p \<and> pa_pools p \<inter> sc_pool_keys row = {})"

definition child :: "partial_split \<Rightarrow> split_candidate \<Rightarrow> partial_split" where
  "child p row = \<lparr>pa_remaining = pa_remaining p - sc_amount_in row, pa_parts = pa_parts p @ [row],
     pa_routes = insert (sc_route_id row) (pa_routes p), pa_pools = pa_pools p \<union> sc_pool_keys row\<rparr>"

function walk_split_search :: "search_state \<Rightarrow> partial_split \<Rightarrow> split_candidate list \<Rightarrow> search_state"
  and extend_split_search :: "search_state \<Rightarrow> partial_split \<Rightarrow> split_candidate list \<Rightarrow> search_state" where
  "walk_split_search st p rows =
     (if lm_states (ss_limits st) \<le> ss_seen st then st
      else let st1 = st\<lparr>ss_seen := ss_seen st + 1\<rparr> in
        if pa_remaining p = 0 then record_completed_split st1 p
        else if lm_routes (ss_limits st) \<le> length (pa_parts p) then st1
        else extend_split_search st1 p rows)"
| "extend_split_search st p [] = st"
| "extend_split_search st p (row # rows) =
     (if \<not> fits p row then extend_split_search st p rows
      else let st1 = walk_split_search st (child p row) rows in
        if lm_states (ss_limits st1) \<le> ss_seen st1 then st1 else extend_split_search st1 p rows)"
  by pat_completeness auto
termination
  by (relation "measure (\<lambda>x. case x of Inl (st, p, rows) \<Rightarrow> 2 * length rows + 1 | Inr (st, p, rows) \<Rightarrow> 2 * length rows)") auto

definition best_single_net :: "split_candidate list \<Rightarrow> int \<Rightarrow> int option" where
  "best_single_net cs target =
     (case map sc_net (filter (\<lambda>c. sc_amount_in c = target) cs) of [] \<Rightarrow> None | n # ns \<Rightarrow> Some (Max (set (n # ns))))"

definition amount_pool :: "split_candidate list \<Rightarrow> int \<Rightarrow> split_candidate list" where
  "amount_pool cs target =
     sort_key (\<lambda>c. (- sc_net c, - sc_gross c, sc_amount_in c, sc_route_id c)) (filter (\<lambda>c. sc_amount_in c \<le> target) cs)"

definition new_target_search_state :: "string \<Rightarrow> split_candidate list \<Rightarrow> int \<Rightarrow> split_limits \<Rightarrow> search_state" where
  "new_target_search_state token cs target limits =
     \<lparr>ss_borrow_token = token, ss_best_single = best_single_net cs target, ss_limits = limits,
      ss_seen = 0, ss_evaluated = 0, ss_best = None\<rparr>"

definition root_split :: "int \<Rightarrow> partial_split" where
  "root_split target = \<lparr>pa_remaining = target, pa_parts = [], pa_routes = {}, pa_pools = {}\<rparr>"

definition search_target_amount :: "string \<Rightarrow> split_candidate list \<Rightarrow> int \<Rightarrow> split_limits \<Rightarrow> split_plan option \<times> nat \<times> bool" where
  "search_target_amount token cs target limits =
     (let st = walk_split_search (new_target_search_state token cs target limits) (root_split target) (amount_pool cs target);
          truncated = lm_states limits \<le> ss_seen st in
      (map_option (\<lambda>p. p\<lparr>pl_states := ss_seen st, pl_evaluated := ss_evaluated st, pl_truncated := truncated\<rparr>) (ss_best st),
       ss_evaluated st, truncated))"

definition search_token_targets :: "string \<Rightarrow> split_candidate list \<Rightarrow> split_limits \<Rightarrow> split_plan list \<times> nat \<times> nat" where
  "search_token_targets token cs limits =
     foldl (\<lambda>(plans, evaluated, cut) target.
        case search_target_amount token cs target limits of (plan, n, truncated) \<Rightarrow>
          (plans @ (case plan of None \<Rightarrow> [] | Some p \<Rightarrow> [p]), evaluated + n, cut + (if truncated then 1 else 0)))
      ([], 0, 0) (sort (remdups (map sc_amount_in cs)))"

definition collect_split_plans :: "(string \<times> split_candidate list) list \<Rightarrow> split_limits \<Rightarrow> split_plan list \<times> nat \<times> nat" where
  "collect_split_plans by_token limits =
     foldl (\<lambda>(plans, evaluated, cut) (token, cs).
        case search_token_targets token cs limits of (ps, n, t) \<Rightarrow> (plans @ ps, evaluated + n, cut + t))
      ([], 0, 0) (sort_key fst by_token)"

section \<open>Interleaving the plans\<close>

definition group_split_plans_by_token :: "split_plan list \<Rightarrow> (string \<times> split_plan list) list" where
  "group_split_plans_by_token plans = foldl (\<lambda>g p. al_append (pl_borrow_token p) p g) [] plans"

definition plan_rank :: "split_plan \<Rightarrow> int list" where
  "plan_rank p = [pl_net p, (case pl_improvement p of None \<Rightarrow> 0 | Some i \<Rightarrow> i), tt_gross (split_cost_totals (pl_parts p))]"

definition sort_split_plans_by_net :: "(string \<times> split_plan list) list \<Rightarrow> (string \<times> split_plan list) list" where
  "sort_split_plans_by_net g = map (\<lambda>(t, ps). (t, sort_desc plan_rank ps)) g"

text \<open>\<open>zip_longest\<close>, flattened, with the fill values dropped: row after row of the ranked lists.\<close>

definition round_robin :: "'a list list \<Rightarrow> 'a list" where
  "round_robin ls = concat (map (\<lambda>i. concat (map (\<lambda>l. if i < length l then [l ! i] else []) ls))
     [0..<foldr max (map length ls) 0])"

definition interleave_split_plans_by_token :: "(string \<times> split_plan list) list \<Rightarrow> split_plan list" where
  "interleave_split_plans_by_token g = round_robin (map snd (sort_key fst g))"

definition count_positive_split_plans :: "split_plan list \<Rightarrow> nat" where
  "count_positive_split_plans plans = length (filter (\<lambda>p. pl_net p > 0) plans)"

definition round_robin_split_plans :: "split_plan list \<Rightarrow> nat \<Rightarrow> split_plan list \<times> nat \<times> nat" where
  "round_robin_split_plans plans max_plans =
     (let interleaved = interleave_split_plans_by_token (sort_split_plans_by_net (group_split_plans_by_token plans));
          limit = max 1 (min max_plans 32) in
      (take limit interleaved, length interleaved, count_positive_split_plans interleaved))"

section \<open>The frontier\<close>

definition cost_model :: pydict where
  "cost_model =
     [(''gross_profit_units'', PStr ''borrow_token_wei''), (''flashloan_fee_units'', PStr ''borrow_token_wei''),
      (''gas_cost_conversion'', PStr ''profit_token_wei''),
      (''gas_cost_policy'', PStr ''one shared L2 overhead plus per-route leg estimates; max observed gas price and conversion ratio; component L1 fees are a planning proxy''),
      (''split_extra_route_gas_units_estimate'', PInt EXTRA_SPLIT_ROUTE_GAS_UNITS),
      (''split_extra_route_gas_units_is_upper_bound'', PBool False),
      (''base_l1_fee_policy'', PStr ''sum exact-calldata fees observed for individual ABI-v2 routes; proxy for future split ABI calldata, not exact ABI-v3 pricing''),
      (''future_split_calldata_cost_is_authoritative'', PBool False),
      (''flashloan_fee_policy'', PStr ''sum exact sampled portion fees plus one-wei-per-extra-route rounding reserve''),
      (''pool_policy'', PStr ''reject plans that reuse a normalized pool key''),
      (''candidate_diversity_policy'', PStr ''highest-net route first; alternatives may trade at most 50 bps of net value for new protocol/pool identity''),
      (''candidate_diversity_tolerance_bps'', PInt DIVERSITY_TOLERANCE_BPS), (''all_results_diagnostic_only'', PBool True)]"

definition frontier_dict :: "int \<Rightarrow> nat \<Rightarrow> split_plan list \<Rightarrow> nat \<Rightarrow> nat \<Rightarrow> nat \<Rightarrow> nat \<Rightarrow> pydict" where
  "frontier_dict chain_id eligible returned plan_count evaluated truncated positive =
     [(''enabled'', PBool True), (''mode'', PStr ''bounded_gas_adjusted_split_diagnostic''), (''chain_id'', PInt chain_id),
      (''ranking_scope'', PStr ''within_borrow_token_only_then_round_robin_across_tokens''),
      (''eligible_route_amount_evidence'', PInt (int eligible)),
      (''candidate_plans_before_output_limit'', PInt (int plan_count)), (''returned_plan_count'', PInt (int (length returned))),
      (''split_combinations_evaluated'', PInt (int evaluated)),
      (''search_states_limit_per_target'', PInt (int (lm_states default_limits))),
      (''search_truncated_targets'', PInt (int truncated)), (''max_routes_per_split'', PInt (int (lm_routes default_limits))),
      (''max_candidates_per_amount'', PInt (int (lm_candidates default_limits))),
      (''positive_after_cost_estimates'', PInt (int positive)),
      (''plans'', PList (map (\<lambda>p. PDict (plan_dict p)) returned)), (''execution_supported'', PBool False),
      (''required_executor_abi_version'', PInt 3), (''execution_authority_granted'', PBool False),
      (''reason_code'', PStr (if eligible \<noteq> 0 then ''executor_abi_v2_supports_one_sequential_route_only''
         else ''no_routes_with_complete_positive_gross_and_gas_cost_evidence'')),
      (''cost_model'', PDict cost_model)]"

definition split_frontier_plans :: "pyval list \<Rightarrow> int \<Rightarrow> (nat \<times> split_plan list \<times> nat \<times> nat \<times> nat \<times> nat) res" where
  "split_frontier_plans size_matrix chain_id =
     rbind (prepare_candidate_buckets size_matrix chain_id (lm_candidates default_limits)) (\<lambda>by_token.
     case collect_split_plans by_token default_limits of (plans, evaluated, truncated) \<Rightarrow>
     case round_robin_split_plans plans (lm_plans default_limits) of (returned, planned, positive) \<Rightarrow>
     Inr (length (concat (map snd by_token)), returned, planned, evaluated, truncated, positive))"

definition build_gas_adjusted_split_frontier :: "pyval list \<Rightarrow> int \<Rightarrow> pydict res" where
  "build_gas_adjusted_split_frontier size_matrix chain_id =
     rbind (split_frontier_plans size_matrix chain_id) (\<lambda>(eligible, returned, planned, evaluated, truncated, positive).
     Inr (frontier_dict chain_id eligible returned planned evaluated truncated positive))"

section \<open>The search explores, within its budget, exactly the admissible splits\<close>

declare walk_split_search.simps [simp del] extend_split_search.simps [simp del]

lemmas search_induct = walk_split_search_extend_split_search.induct

lemma record_keeps [simp]:
  "ss_seen (record_completed_split st p) = ss_seen st" "ss_limits (record_completed_split st p) = ss_limits st"
  "ss_borrow_token (record_completed_split st p) = ss_borrow_token st" "ss_best_single (record_completed_split st p) = ss_best_single st"
  by (simp_all add: record_completed_split_def Let_def)

lemma search_frame:
  "ss_limits (walk_split_search st p rows) = ss_limits st \<and> ss_borrow_token (walk_split_search st p rows) = ss_borrow_token st \<and>
   ss_best_single (walk_split_search st p rows) = ss_best_single st"
  "ss_limits (extend_split_search st p rows) = ss_limits st \<and> ss_borrow_token (extend_split_search st p rows) = ss_borrow_token st \<and>
   ss_best_single (extend_split_search st p rows) = ss_best_single st"
proof (induction st p rows and st p rows rule: search_induct)
  case (1 st p rows)
  then show ?case by (subst (1 2 3) walk_split_search.simps) (auto simp: Let_def)
next
  case (2 st p)
  then show ?case by (simp add: extend_split_search.simps)
next
  case (3 st p row rows)
  then show ?case by (subst (1 2 3) extend_split_search.simps) (auto simp: Let_def)
qed

lemma search_seen_mono:
  "ss_seen st \<le> ss_seen (walk_split_search st p rows)"
  "ss_seen st \<le> ss_seen (extend_split_search st p rows)"
proof (induction st p rows and st p rows rule: search_induct)
  case (1 st p rows)
  then show ?case by (subst walk_split_search.simps) (auto simp: Let_def)
next
  case (2 st p)
  then show ?case by (simp add: extend_split_search.simps)
next
  case (3 st p row rows)
  then show ?case by (subst extend_split_search.simps) (auto simp: Let_def)
qed

lemma search_budget:
  "ss_seen st \<le> lm_states (ss_limits st) \<Longrightarrow> ss_seen (walk_split_search st p rows) \<le> lm_states (ss_limits st)"
  "ss_seen st \<le> lm_states (ss_limits st) \<Longrightarrow> ss_seen (extend_split_search st p rows) \<le> lm_states (ss_limits st)"
proof (induction st p rows and st p rows rule: search_induct)
  case (1 st p rows)
  then show ?case by (subst walk_split_search.simps) (auto simp: Let_def)
next
  case (2 st p)
  then show ?case by (simp add: extend_split_search.simps)
next
  case (3 st p row rows)
  then show ?case by (subst extend_split_search.simps) (auto simp: Let_def search_frame)
qed

text \<open>An admissible split of a target: at least two routes, at most the limit, amounts that add up, and no
  route or pool used twice.\<close>

definition admissible_split :: "nat \<Rightarrow> int \<Rightarrow> split_candidate list \<Rightarrow> bool" where
  "admissible_split max_routes target parts \<longleftrightarrow> 2 \<le> length parts \<and> length parts \<le> max_routes \<and>
     sum_list (map sc_amount_in parts) = target \<and> distinct (map sc_route_id parts) \<and>
     sorted_wrt (\<lambda>a b. sc_pool_keys a \<inter> sc_pool_keys b = {}) parts"

definition partial_ok :: "nat \<Rightarrow> int \<Rightarrow> split_candidate set \<Rightarrow> partial_split \<Rightarrow> bool" where
  "partial_ok max_routes target pool p \<longleftrightarrow> sum_list (map sc_amount_in (pa_parts p)) + pa_remaining p = target \<and>
     length (pa_parts p) \<le> max_routes \<and> set (pa_parts p) \<subseteq> pool \<and>
     pa_routes p = set (map sc_route_id (pa_parts p)) \<and> pa_pools p = (\<Union>c \<in> set (pa_parts p). sc_pool_keys c) \<and>
     distinct (map sc_route_id (pa_parts p)) \<and> sorted_wrt (\<lambda>a b. sc_pool_keys a \<inter> sc_pool_keys b = {}) (pa_parts p)"

definition best_ok :: "nat \<Rightarrow> int \<Rightarrow> split_candidate set \<Rightarrow> search_state \<Rightarrow> bool" where
  "best_ok max_routes target pool st \<longleftrightarrow> (\<forall>b. ss_best st = Some b \<longrightarrow>
     admissible_split max_routes target (pl_parts b) \<and> set (pl_parts b) \<subseteq> pool \<and>
     pl_borrow_token b = ss_borrow_token st \<and> pl_best_single b = ss_best_single st)"

lemma partial_ok_child:
  assumes "partial_ok m t pool p" and "fits p row" and "row \<in> pool" and "length (pa_parts p) < m"
  shows "partial_ok m t pool (child p row)"
  using assms by (auto simp: partial_ok_def child_def fits_def sorted_wrt_append)

lemma record_best_ok:
  assumes "best_ok m t pool st" and "partial_ok m t pool p" and "pa_remaining p = 0"
  shows "best_ok m t pool (record_completed_split st p)"
  using assms
  by (auto simp: best_ok_def record_completed_split_def partial_ok_def admissible_split_def Let_def split: option.splits if_splits)

lemma search_best_ok:
  "best_ok (lm_routes (ss_limits st)) t pool st \<Longrightarrow> partial_ok (lm_routes (ss_limits st)) t pool p \<Longrightarrow> set rows \<subseteq> pool \<Longrightarrow>
   best_ok (lm_routes (ss_limits st)) t pool (walk_split_search st p rows)"
  "best_ok (lm_routes (ss_limits st)) t pool st \<Longrightarrow> partial_ok (lm_routes (ss_limits st)) t pool p \<Longrightarrow> set rows \<subseteq> pool \<Longrightarrow>
   length (pa_parts p) < lm_routes (ss_limits st) \<Longrightarrow>
   best_ok (lm_routes (ss_limits st)) t pool (extend_split_search st p rows)"
proof (induction st p rows and st p rows rule: search_induct)
  case (1 st p rows)
  let ?st = "st\<lparr>ss_seen := ss_seen st + 1\<rparr>"
  have b: "best_ok (lm_routes (ss_limits st)) t pool ?st" using "1.prems"(1) by (simp add: best_ok_def)
  show ?case
  proof (cases "lm_states (ss_limits st) \<le> ss_seen st")
    case True
    with "1.prems" show ?thesis by (simp add: walk_split_search.simps)
  next
    case go: False
    show ?thesis
    proof (cases "pa_remaining p = 0")
      case True
      with go b "1.prems"(2) show ?thesis by (simp add: walk_split_search.simps record_best_ok)
    next
      case False
      with go b "1.prems" "1.IH"[OF go refl False] show ?thesis by (simp add: walk_split_search.simps Let_def)
    qed
  qed
next
  case (2 st p)
  then show ?case by (simp add: extend_split_search.simps)
next
  case (3 st p row rows)
  show ?case
  proof (cases "fits p row")
    case False
    with 3 show ?thesis by (simp add: extend_split_search.simps)
  next
    case True
    then have nf: "\<not> \<not> fits p row" by simp
    let ?w = "walk_split_search st (child p row) rows"
    have c: "partial_ok (lm_routes (ss_limits st)) t pool (child p row)"
      using "3.prems" True by (intro partial_ok_child) auto
    have w: "best_ok (lm_routes (ss_limits st)) t pool ?w"
      using "3.IH"(2)[OF nf "3.prems"(1) c] "3.prems"(3) by simp
    show ?thesis
    proof (cases "lm_states (ss_limits ?w) \<le> ss_seen ?w")
      case stop: True
      with True w show ?thesis by (simp add: extend_split_search.simps)
    next
      case go: False
      have "best_ok (lm_routes (ss_limits st)) t pool (extend_split_search ?w p rows)"
        using "3.IH"(3)[OF nf refl go] w "3.prems" by (simp add: search_frame)
      with True go show ?thesis by (simp add: extend_split_search.simps)
    qed
  qed
qed

text \<open>The routes that still complete a partial split, and plans at least as good as a given split.\<close>

fun completes :: "nat \<Rightarrow> partial_split \<Rightarrow> split_candidate list \<Rightarrow> bool" where
  "completes m p [] = (pa_remaining p = 0)"
| "completes m p (c # cs) = (pa_remaining p \<noteq> 0 \<and> length (pa_parts p) < m \<and> fits p c \<and> completes m (child p c) cs)"

definition split_net :: "split_candidate list \<Rightarrow> int" where
  "split_net parts = tt_net (split_cost_totals parts)"

definition dominates :: "search_state \<Rightarrow> split_candidate list \<Rightarrow> bool" where
  "dominates st parts \<longleftrightarrow> (\<exists>b. ss_best st = Some b \<and> split_net parts \<le> pl_net b)"

lemma record_dominates: "dominates st ps \<Longrightarrow> dominates (record_completed_split st p) ps"
  by (auto simp: dominates_def record_completed_split_def Let_def)

lemma record_dominates_self: "2 \<le> length (pa_parts p) \<Longrightarrow> dominates (record_completed_split st p) (pa_parts p)"
  by (auto simp: dominates_def record_completed_split_def Let_def split_net_def pl_net_def split: option.splits)

lemma search_dominates:
  "dominates st ps \<Longrightarrow> dominates (walk_split_search st p rows) ps"
  "dominates st ps \<Longrightarrow> dominates (extend_split_search st p rows) ps"
proof (induction st p rows and st p rows rule: search_induct)
  case (1 st p rows)
  have "dominates (st\<lparr>ss_seen := ss_seen st + 1\<rparr>) ps" using "1.prems" by (simp add: dominates_def)
  with 1 show ?case by (subst walk_split_search.simps) (auto simp: Let_def intro: record_dominates)
next
  case (2 st p)
  then show ?case by (simp add: extend_split_search.simps)
next
  case (3 st p row rows)
  then show ?case by (subst extend_split_search.simps) (auto simp: Let_def)
qed

lemma search_exhaustive:
  "m = lm_routes (ss_limits st) \<Longrightarrow> ss_seen (walk_split_search st p rows) < lm_states (ss_limits st) \<Longrightarrow> subseq cs rows \<Longrightarrow>
   completes m p cs \<Longrightarrow> 2 \<le> length (pa_parts p @ cs) \<Longrightarrow> dominates (walk_split_search st p rows) (pa_parts p @ cs)"
  "m = lm_routes (ss_limits st) \<Longrightarrow> ss_seen (extend_split_search st p rows) < lm_states (ss_limits st) \<Longrightarrow> subseq cs rows \<Longrightarrow>
   completes m p cs \<Longrightarrow> cs \<noteq> [] \<Longrightarrow> 2 \<le> length (pa_parts p @ cs) \<Longrightarrow> dominates (extend_split_search st p rows) (pa_parts p @ cs)"
proof (induction st p rows and st p rows arbitrary: cs and cs rule: search_induct)
  case (1 st p rows)
  have go: "\<not> lm_states (ss_limits st) \<le> ss_seen st"
    using "1.prems"(2) search_seen_mono(1)[of st p rows] by simp
  let ?st = "st\<lparr>ss_seen := ss_seen st + 1\<rparr>"
  show ?case
  proof (cases "pa_remaining p = 0")
    case True
    with "1.prems"(4) have "cs = []" by (cases cs) auto
    with True go "1.prems"(5) show ?thesis by (simp add: walk_split_search.simps record_dominates_self)
  next
    case False
    with "1.prems"(4) have ne: "cs \<noteq> []" by auto
    with "1.prems"(1,4) have len: "\<not> lm_routes (ss_limits st) \<le> length (pa_parts p)" by (cases cs) auto
    have w: "walk_split_search st p rows = extend_split_search ?st p rows"
      using go False len by (simp add: walk_split_search.simps)
    show ?thesis
      unfolding w using "1.prems" w ne by (intro "1.IH"[OF go refl False len]) simp_all
  qed
next
  case (2 st p)
  then show ?case by simp
next
  case (3 st p row rows)
  show ?case
  proof (cases "fits p row")
    case False
    with "3.prems"(4) have "cs \<noteq> [] \<Longrightarrow> hd cs \<noteq> row" by (cases cs) auto
    with "3.prems"(3,5) have "subseq cs rows" by (cases cs) (auto split: if_splits)
    moreover have e: "extend_split_search st p (row # rows) = extend_split_search st p rows"
      using False by (simp add: extend_split_search.simps)
    ultimately show ?thesis
      unfolding e using "3.prems" e by (intro "3.IH"(1)[OF False]) simp_all
  next
    case True
    then have nf: "\<not> \<not> fits p row" by simp
    let ?w = "walk_split_search st (child p row) rows"
    have fr: "ss_limits ?w = ss_limits st" by (simp add: search_frame)
    have go: "\<not> lm_states (ss_limits ?w) \<le> ss_seen ?w"
    proof
      assume "lm_states (ss_limits ?w) \<le> ss_seen ?w"
      with True have "extend_split_search st p (row # rows) = ?w" by (simp add: extend_split_search.simps)
      with \<open>lm_states (ss_limits ?w) \<le> ss_seen ?w\<close> "3.prems"(2) fr show False by simp
    qed
    have e: "extend_split_search st p (row # rows) = extend_split_search ?w p rows"
      using True go by (simp add: extend_split_search.simps)
    have sw: "ss_seen ?w < lm_states (ss_limits st)" using go fr by simp
    show ?thesis
    proof (cases "subseq cs rows")
      case sub: True
      show ?thesis
        unfolding e using "3.prems" e sub fr by (intro "3.IH"(3)[OF nf refl go]) simp_all
    next
      case False
      with "3.prems"(3,5) obtain cs' where cs: "cs = row # cs'" and sub: "subseq cs' rows"
        by (cases cs) (auto split: if_splits)
      have "dominates ?w (pa_parts (child p row) @ cs')"
        using "3.prems" cs sub sw by (intro "3.IH"(2)[OF nf]) (simp_all add: child_def)
      then have "dominates ?w (pa_parts p @ cs)" by (simp add: child_def cs)
      then show ?thesis unfolding e by (rule search_dominates(2))
    qed
  qed
qed

lemma subseq_set: "subseq xs ys \<Longrightarrow> set xs \<subseteq> set ys"
  by (induction rule: list_emb.induct) auto

lemma completes_admissible:
  assumes "\<forall>c \<in> set cs. 0 < sc_amount_in c"
  shows "sum_list (map sc_amount_in cs) = pa_remaining p \<Longrightarrow> length (pa_parts p) + length cs \<le> m \<Longrightarrow>
    distinct (map sc_route_id cs) \<Longrightarrow> sorted_wrt (\<lambda>a b. sc_pool_keys a \<inter> sc_pool_keys b = {}) cs \<Longrightarrow>
    pa_routes p \<inter> set (map sc_route_id cs) = {} \<Longrightarrow> (\<forall>c \<in> set cs. pa_pools p \<inter> sc_pool_keys c = {}) \<Longrightarrow> completes m p cs"
  using assms
proof (induction cs arbitrary: p)
  case Nil
  then show ?case by simp
next
  case (Cons c cs)
  have nn: "0 \<le> sum_list (map sc_amount_in cs)" using Cons.prems(7) by (intro sum_list_nonneg) auto
  have "completes m (child p c) cs"
    using Cons.prems by (intro Cons.IH) (auto simp: child_def)
  moreover have "fits p c" using Cons.prems nn by (auto simp: fits_def)
  ultimately show ?case using Cons.prems nn by auto
qed

lemma search_target_facts:
  assumes "search_target_amount token cs target limits = (plan, evaluated, truncated)"
  shows "truncated \<longleftrightarrow> lm_states limits \<le> ss_seen (walk_split_search (new_target_search_state token cs target limits) (root_split target) (amount_pool cs target))"
    and "map_option pl_parts plan = map_option pl_parts (ss_best (walk_split_search (new_target_search_state token cs target limits) (root_split target) (amount_pool cs target)))"
    and "map_option pl_net plan = map_option pl_net (ss_best (walk_split_search (new_target_search_state token cs target limits) (root_split target) (amount_pool cs target)))"
    and "plan = Some q \<Longrightarrow> pl_states q = ss_seen (walk_split_search (new_target_search_state token cs target limits) (root_split target) (amount_pool cs target))"
    and "plan = Some q \<Longrightarrow> \<exists>b. ss_best (walk_split_search (new_target_search_state token cs target limits) (root_split target) (amount_pool cs target)) = Some b \<and>
       pl_parts q = pl_parts b \<and> pl_borrow_token q = pl_borrow_token b \<and> pl_best_single q = pl_best_single b"
  using assms by (auto simp: search_target_amount_def Let_def option.map_comp comp_def pl_net_def[abs_def])

text \<open>Two routes of 500 that fill 1000.\<close>

definition demo_route :: "string \<Rightarrow> int \<Rightarrow> split_candidate" where
  "demo_route r gross =
     \<lparr>sc_route_id = r, sc_amount_in = 500, sc_gross = gross, sc_fee = 1, sc_gas_token = 2, sc_gas_cost = 400000,
      sc_gas_cost_l2 = 300000, sc_gas_units = 300000, sc_gas_price = 1, sc_l1_fee = 100000, sc_l1_status = [],
      sc_borrow_token = ''a'', sc_legs = [], sc_pool_keys = {r}, sc_protocols = {''curve''}, sc_routers = {},
      sc_directed_pairs = {}, sc_net = gross - 3, sc_conversion = Fract 2 400000, sc_revalidated = False,
      sc_authoritative = False, sc_valid = False, sc_repayment_valid = True\<rparr>"

lemma demo_pool: "amount_pool [demo_route ''r'' 50, demo_route ''s'' 40] 1000 = [demo_route ''r'' 50, demo_route ''s'' 40]"
  by (simp add: amount_pool_def demo_route_def)

lemma demo_search:
  "\<exists>plan. search_target_amount ''a'' [demo_route ''r'' 50, demo_route ''s'' 40] 1000 default_limits = (Some plan, 1, False) \<and>
     pl_parts plan = [demo_route ''r'' 50, demo_route ''s'' 40]"
  unfolding search_target_amount_def demo_pool
  by (simp add: new_target_search_state_def root_split_def default_limits_def walk_split_search.simps extend_split_search.simps
      fits_def child_def record_completed_split_def demo_route_def)

lemma plan_admissible:
  assumes "search_target_amount token cs target limits = (Some plan, evaluated, truncated)"
  shows "admissible_split (lm_routes limits) target (pl_parts plan) \<and>
     set (pl_parts plan) \<subseteq> {c \<in> set cs. sc_amount_in c \<le> target} \<and> pl_borrow_token plan = token \<and>
     pl_best_single plan = best_single_net cs target \<and> pl_states plan \<le> lm_states limits"
proof -
  let ?st = "new_target_search_state token cs target limits"
  let ?r = "walk_split_search ?st (root_split target) (amount_pool cs target)"
  have l: "ss_limits ?st = limits" by (simp add: new_target_search_state_def)
  have "best_ok (lm_routes (ss_limits ?st)) target (set (amount_pool cs target)) ?r"
    by (rule search_best_ok(1)) (simp_all add: best_ok_def new_target_search_state_def partial_ok_def root_split_def)
  moreover obtain b where b: "ss_best ?r = Some b" "pl_parts plan = pl_parts b" "pl_borrow_token plan = pl_borrow_token b"
      "pl_best_single plan = pl_best_single b"
    using search_target_facts(5)[OF assms(1) refl] by blast
  moreover have "ss_seen ?r \<le> lm_states limits"
    using search_budget(1)[of ?st "root_split target" "amount_pool cs target"] by (simp add: new_target_search_state_def)
  moreover have "pl_states plan = ss_seen ?r" by (rule search_target_facts(4)[OF assms(1) refl])
  moreover have "ss_borrow_token ?r = token" "ss_best_single ?r = best_single_net cs target"
    by (simp_all add: search_frame new_target_search_state_def)
  ultimately show ?thesis by (auto simp: best_ok_def l amount_pool_def)
qed

text \<open>C6: what the split search reports is admissible: a plan fills the target amount exactly, with two
  to three routes (the limit), no route and no physical pool used twice, all taken from the candidates
  no larger than the target, in the borrow token asked for and compared with the best single candidate. Plan or
  no plan, the search visits no more states than its budget, and reports truncation exactly when it used the
  budget up. (The report is a diagnostic: it marks itself as not
  executable, and nothing is executed from it.)\<close>

theorem split_plan_admissible:
  assumes "search_target_amount token cs target limits = (plan, evaluated, truncated)"
  defines "r \<equiv> walk_split_search (new_target_search_state token cs target limits) (root_split target) (amount_pool cs target)"
  shows "(\<forall>p. plan = Some p \<longrightarrow> admissible_split (lm_routes limits) target (pl_parts p) \<and>
        set (pl_parts p) \<subseteq> {c \<in> set cs. sc_amount_in c \<le> target} \<and> pl_borrow_token p = token \<and>
        pl_best_single p = best_single_net cs target \<and> pl_states p = ss_seen r) \<and>
     ss_seen r \<le> lm_states limits \<and> (truncated \<longleftrightarrow> ss_seen r = lm_states limits)"
proof -
  have "ss_seen r \<le> lm_states limits"
    using search_budget(1)[of "new_target_search_state token cs target limits" "root_split target" "amount_pool cs target"]
    by (simp add: r_def new_target_search_state_def)
  then have "ss_seen r \<le> lm_states limits \<and> (truncated \<longleftrightarrow> ss_seen r = lm_states limits)"
    using search_target_facts(1)[OF assms(1), folded r_def] by linarith
  moreover have "pl_states p = ss_seen r" if "plan = Some p" for p
    unfolding r_def by (rule search_target_facts(4)[OF assms(1) that])
  moreover have "admissible_split (lm_routes limits) target (pl_parts p) \<and>
        set (pl_parts p) \<subseteq> {c \<in> set cs. sc_amount_in c \<le> target} \<and> pl_borrow_token p = token \<and>
        pl_best_single p = best_single_net cs target" if "plan = Some p" for p
    using plan_admissible[OF assms(1)[unfolded that]] by blast
  ultimately show ?thesis by blast
qed

theorem split_plan_admissible_witness:
  "\<exists>plan. search_target_amount ''a'' [demo_route ''r'' 50, demo_route ''s'' 40] 1000 default_limits = (Some plan, 1, False) \<and>
     admissible_split 3 1000 (pl_parts plan) \<and> pl_states plan \<le> 2000"
proof -
  obtain plan where p: "search_target_amount ''a'' [demo_route ''r'' 50, demo_route ''s'' 40] 1000 default_limits = (Some plan, 1, False)"
    using demo_search by blast
  from split_plan_admissible[OF p] p show ?thesis by (simp add: default_limits_def)
qed

text \<open>C7: the search is exhaustive within its budget: unless it reports truncation, the plan it returns
  earns at least as much after costs as every admissible split of the target whose routes are taken, in
  the pool's order, from the candidates; in particular there is a plan whenever there is such a split.\<close>

theorem split_search_optimal:
  assumes "search_target_amount token cs target limits = (plan, evaluated, False)"
    and "\<forall>c \<in> set cs. 0 < sc_amount_in c"
    and "subseq parts (amount_pool cs target)" and "admissible_split (lm_routes limits) target parts"
  shows "\<exists>p. plan = Some p \<and> split_net parts \<le> pl_net p"
proof -
  let ?st = "new_target_search_state token cs target limits"
  let ?r = "walk_split_search ?st (root_split target) (amount_pool cs target)"
  have sub: "set parts \<subseteq> set cs" using subseq_set[OF assms(3)] by (auto simp: amount_pool_def)
  have "completes (lm_routes limits) (root_split target) parts"
    using assms(2,4) sub by (intro completes_admissible) (auto simp: admissible_split_def root_split_def)
  moreover have "ss_seen ?r < lm_states (ss_limits ?st)"
    using search_target_facts(1)[OF assms(1)] by (simp add: new_target_search_state_def)
  ultimately have "dominates ?r (pa_parts (root_split target) @ parts)"
    using assms(3,4) by (intro search_exhaustive(1)[OF refl]) (simp_all add: root_split_def admissible_split_def new_target_search_state_def)
  then obtain b where b: "ss_best ?r = Some b" "split_net parts \<le> pl_net b" by (auto simp: dominates_def root_split_def)
  have "map_option pl_net plan = Some (pl_net b)" using search_target_facts(3)[OF assms(1)] b(1) by simp
  with b(2) show ?thesis by auto
qed

theorem split_search_optimal_witness:
  "\<exists>p. fst (search_target_amount ''a'' [demo_route ''r'' 50, demo_route ''s'' 40] 1000 default_limits) = Some p \<and>
     split_net [demo_route ''r'' 50, demo_route ''s'' 40] \<le> pl_net p"
proof -
  obtain plan where s: "search_target_amount ''a'' [demo_route ''r'' 50, demo_route ''s'' 40] 1000 default_limits = (Some plan, 1, False)"
    using demo_search by blast
  have "admissible_split (lm_routes default_limits) 1000 [demo_route ''r'' 50, demo_route ''s'' 40]"
    by (simp add: admissible_split_def default_limits_def demo_route_def)
  moreover have "\<forall>c \<in> set [demo_route ''r'' 50, demo_route ''s'' 40]. 0 < sc_amount_in c" by (simp add: demo_route_def)
  ultimately show ?thesis
    using split_search_optimal[OF s, of "[demo_route ''r'' 50, demo_route ''s'' 40]"] s by (simp add: demo_pool)
qed

section \<open>Deduplication and shortlist\<close>

definition keyed :: "(cand_key \<times> split_candidate) list \<Rightarrow> bool" where
  "keyed u \<longleftrightarrow> distinct (map fst u) \<and> (\<forall>p \<in> set u. candidate_key (snd p) = fst p)"

lemma set_update: "p \<in> set (AList.update k v al) \<Longrightarrow> p = (k, v) \<or> p \<in> set al"
  by (induction al) (auto split: if_splits)

lemma keep_best_set: "p \<in> set (keep_best u c) \<Longrightarrow> p = (candidate_key c, c) \<or> p \<in> set u"
  using set_update[of p "candidate_key c" c u] by (simp add: keep_best_def split: option.splits if_splits)

lemma keep_best_keyed:
  assumes "keyed u"
  shows "keyed (keep_best u c)"
proof -
  have "distinct (map fst (keep_best u c))"
    using assms by (simp add: keyed_def keep_best_def distinct_update split: option.splits)
  moreover have "candidate_key (snd p) = fst p" if "p \<in> set (keep_best u c)" for p
    using keep_best_set[OF that] assms by (auto simp: keyed_def)
  ultimately show ?thesis by (simp add: keyed_def)
qed

lemma keep_best_dominates:
  assumes "map_of u (candidate_key d) = Some e" and "candidate_evidence_rank d \<le> candidate_evidence_rank e"
  shows "\<exists>e'. map_of (keep_best u c) (candidate_key d) = Some e' \<and> candidate_evidence_rank d \<le> candidate_evidence_rank e'"
  using assms by (auto simp: keep_best_def update_conv' split: option.splits)

lemma keep_best_self: "\<exists>e. map_of (keep_best u c) (candidate_key c) = Some e \<and> candidate_evidence_rank c \<le> candidate_evidence_rank e"
  by (auto simp: keep_best_def update_conv' not_less split: option.splits)

lemma foldl_keep_best:
  "keyed u \<Longrightarrow> keyed (foldl keep_best u cs) \<and>
   (\<forall>d e. map_of u (candidate_key d) = Some e \<longrightarrow> candidate_evidence_rank d \<le> candidate_evidence_rank e \<longrightarrow>
     (\<exists>e'. map_of (foldl keep_best u cs) (candidate_key d) = Some e' \<and> candidate_evidence_rank d \<le> candidate_evidence_rank e')) \<and>
   (\<forall>d \<in> set cs. \<exists>e'. map_of (foldl keep_best u cs) (candidate_key d) = Some e' \<and> candidate_evidence_rank d \<le> candidate_evidence_rank e')"
proof (induction cs arbitrary: u)
  case Nil
  then show ?case by auto
next
  case (Cons c cs)
  note IH = Cons.IH[OF keep_best_keyed[OF Cons.prems, of c]]
  show ?case
  proof (intro conjI allI impI ballI)
    show "keyed (foldl keep_best u (c # cs))" using IH by simp
  next
    fix d e assume "map_of u (candidate_key d) = Some e" "candidate_evidence_rank d \<le> candidate_evidence_rank e"
    then obtain e' where "map_of (keep_best u c) (candidate_key d) = Some e'" "candidate_evidence_rank d \<le> candidate_evidence_rank e'"
      using keep_best_dominates by blast
    then show "\<exists>e'. map_of (foldl keep_best u (c # cs)) (candidate_key d) = Some e' \<and> candidate_evidence_rank d \<le> candidate_evidence_rank e'"
      using IH by simp
  next
    fix d assume "d \<in> set (c # cs)"
    then show "\<exists>e'. map_of (foldl keep_best u (c # cs)) (candidate_key d) = Some e' \<and> candidate_evidence_rank d \<le> candidate_evidence_rank e'"
    proof (cases "d = c")
      case True
      obtain e where "map_of (keep_best u c) (candidate_key c) = Some e" "candidate_evidence_rank c \<le> candidate_evidence_rank e"
        using keep_best_self by blast
      then show ?thesis using IH True by simp
    next
      case False
      with \<open>d \<in> set (c # cs)\<close> IH show ?thesis by simp
    qed
  qed
qed

lemma keep_best_from: "c \<in> snd ` set (foldl keep_best u cs) \<Longrightarrow> c \<in> snd ` set u \<or> c \<in> set cs"
proof (induction cs arbitrary: u)
  case (Cons d cs)
  then have "c \<in> snd ` set (keep_best u d) \<or> c \<in> set cs" by simp
  then show ?case using keep_best_set[of _ u d] by force
qed simp

text \<open>Deduplication keeps the best evidence: one entry per token, amount and route, filed under its own
  key, and for every candidate that normalises the entry kept under its key ranks at least as high.\<close>

theorem deduplication_keeps_best:
  assumes "deduplicate_candidates raw chain_id = Inr unique" and "c \<in> set raw"
    and "normalize_candidate c chain_id = Inr (Some cand)"
  shows "distinct (map fst unique) \<and> (\<exists>kept. map_of unique (candidate_key cand) = Some kept \<and> candidate_key kept = candidate_key cand \<and>
     candidate_evidence_rank cand \<le> candidate_evidence_rank kept)"
proof -
  from assms(1) obtain cs where cs: "mapr (\<lambda>c. normalize_candidate c chain_id) raw = Inr cs"
    and u: "unique = foldl keep_best [] (List.map_filter (\<lambda>c. c) cs)"
    by (auto simp: deduplicate_candidates_def rbind_eq_Inr)
  from assms(2) obtain i where "i < length raw" "raw ! i = c" by (auto simp: in_set_conv_nth)
  with mapr_nth[OF cs] mapr_length[OF cs] assms(3) have "Some cand \<in> set cs" by (auto simp: set_conv_nth intro!: exI[of _ i])
  then have "cand \<in> set (List.map_filter (\<lambda>c. c) cs)" by (force simp: List.map_filter_def)
  moreover have k: "keyed unique \<and> (\<forall>d \<in> set (List.map_filter (\<lambda>c. c) cs).
      \<exists>e'. map_of unique (candidate_key d) = Some e' \<and> candidate_evidence_rank d \<le> candidate_evidence_rank e')"
  proof -
    have "keyed []" by (simp add: keyed_def)
    from foldl_keep_best[OF this, of "List.map_filter (\<lambda>c. c) cs"] show ?thesis unfolding u by blast
  qed
  ultimately obtain kept where kept: "map_of unique (candidate_key cand) = Some kept"
      "candidate_evidence_rank cand \<le> candidate_evidence_rank kept" by blast
  with k map_of_SomeD[OF kept(1)] show ?thesis by (auto simp: keyed_def)
qed

theorem deduplication_keeps_best_witness:
  "\<exists>unique cand. deduplicate_candidates [demo_candidate ''r'' ''p'' 1000 50, demo_candidate ''r'' ''p'' 1000 70] 1 = Inr unique \<and>
     distinct (map fst unique) \<and> (\<exists>kept. map_of unique (candidate_key cand) = Some kept)"
proof -
  have p: "strip ''p'' = ''p''" "strip (''p'' @ ''2'') = ''p'' @ ''2''" "lower ''p'' = ''p''"
    by (simp_all add: strip_def is_space_def lower_char_def)
  obtain c1 c2 where n: "normalize_candidate (demo_candidate ''r'' ''p'' 1000 50) 1 = Inr (Some c1)"
      "normalize_candidate (demo_candidate ''r'' ''p'' 1000 70) 1 = Inr (Some c2)"
    using demo_normalizes[OF p(1,3) _ p(2), of "''r''" 1000] by simp
  obtain unique where u: "deduplicate_candidates [demo_candidate ''r'' ''p'' 1000 50, demo_candidate ''r'' ''p'' 1000 70] 1 = Inr unique"
    using n by (simp add: deduplicate_candidates_def)
  have "demo_candidate ''r'' ''p'' 1000 50 \<in> set [demo_candidate ''r'' ''p'' 1000 50, demo_candidate ''r'' ''p'' 1000 70]" by simp
  from deduplication_keeps_best[OF u this n(1)] u show ?thesis by blast
qed

lemma best_index_lt: "pending \<noteq> [] \<Longrightarrow> best_diverse_candidate_index pending chosen net tol < length pending"
proof -
  assume ne: "pending \<noteq> []"
  have mx: "max_by f x xs \<in> set (x # xs)" for f :: "nat \<Rightarrow> int list" and x xs
    unfolding max_by_def by (induction xs arbitrary: x) auto
  let ?l = "filter (\<lambda>i. net - sc_net (pending ! i) \<le> tol) [0..<length pending]"
  show ?thesis
  proof (cases ?l)
    case Nil
    with ne show ?thesis by (simp add: best_diverse_candidate_index_def)
  next
    case (Cons i js)
    then have "best_diverse_candidate_index pending chosen net tol \<in> set ?l"
      using mx[of "\<lambda>i. diversity_key chosen (pending ! i)" i js] by (simp add: best_diverse_candidate_index_def)
    then show ?thesis by simp
  qed
qed

lemma mset_pop_at: "i < length xs \<Longrightarrow> add_mset (xs ! i) (mset (pop_at i xs)) = mset xs"
proof -
  assume "i < length xs"
  then have "xs = take i xs @ xs ! i # drop (Suc i) xs" by (rule id_take_nth_drop)
  then have "mset xs = mset (take i xs) + add_mset (xs ! i) (mset (drop (Suc i) xs))" by (metis mset.simps(2) mset_append)
  then show ?thesis by (simp add: pop_at_def)
qed

lemma diversify_spec:
  "mset (diversify n net tol pending chosen) \<subseteq># mset pending + mset chosen \<and>
   take (length chosen) (diversify n net tol pending chosen) = chosen \<and>
   length (diversify n net tol pending chosen) = length chosen + min n (length pending)"
proof (induction n net tol pending chosen rule: diversify.induct)
  case (1 net tol pending chosen)
  then show ?case by simp
next
  case (2 n net tol pending chosen)
  show ?case
  proof (cases "pending = []")
    case True
    then show ?thesis by simp
  next
    case False
    let ?i = "best_diverse_candidate_index pending chosen net tol"
    have lt: "?i < length pending" using False by (rule best_index_lt)
    let ?r = "diversify n net tol (pop_at ?i pending) (chosen @ [pending ! ?i])"
    have IH: "mset ?r \<subseteq># mset (pop_at ?i pending) + mset (chosen @ [pending ! ?i])"
      "take (length (chosen @ [pending ! ?i])) ?r = chosen @ [pending ! ?i]"
      "length ?r = length (chosen @ [pending ! ?i]) + min n (length (pop_at ?i pending))"
      using "2.IH"[OF False refl] by simp_all
    have "mset (pop_at ?i pending) + mset (chosen @ [pending ! ?i]) = mset pending + mset chosen"
      using mset_pop_at[OF lt] by simp
    with IH(1) have sub: "mset ?r \<subseteq># mset pending + mset chosen" by (simp only:)
    have "take (length chosen) ?r = take (length chosen) (take (length (chosen @ [pending ! ?i])) ?r)"
      by simp
    then have "take (length chosen) ?r = chosen" unfolding IH(2) by simp
    moreover have "length (pop_at ?i pending) = length pending - 1" using lt by (simp add: pop_at_def)
    moreover have "Suc (min n (length pending - 1)) = min (Suc n) (length pending)" using False by (cases pending) auto
    ultimately show ?thesis using IH(3) sub False by (simp add: Let_def)
  qed
qed

lemma mset_sort_desc [simp]: "mset (sort_desc f xs) = mset xs"
  by (simp add: sort_desc_def)

lemma sorted_sort_desc: "sorted_wrt (\<lambda>x y. f y \<le> f x) (sort_desc f xs)"
proof -
  have "sorted (map f (sort_key f (rev xs)))" by simp
  then have "sorted_wrt (\<lambda>x y. f x \<le> f y) (sort_key f (rev xs))" by (simp add: sorted_map)
  then show ?thesis by (simp add: sort_desc_def sorted_wrt_rev)
qed

lemma shortlist_facts:
  "mset (shortlist_amount_bucket rows n) \<subseteq># mset rows \<and>
   length (shortlist_amount_bucket rows n) = min n (length rows) \<and>
   (\<forall>c \<in> set rows. n \<noteq> 0 \<longrightarrow> sc_net c \<le> sc_net (hd (shortlist_amount_bucket rows n)))"
proof (cases "sort_desc (\<lambda>c. (sc_net c, sc_gross c, sc_route_id c)) rows")
  case Nil
  then have "mset rows = {#}" using mset_sort_desc[of "\<lambda>c. (sc_net c, sc_gross c, sc_route_id c)" rows] by simp
  with Nil show ?thesis by (simp add: shortlist_amount_bucket_def)
next
  case (Cons best pending)
  let ?s = "shortlist_amount_bucket rows n"
  have ms: "mset rows = add_mset best (mset pending)"
    using mset_sort_desc[of "\<lambda>c. (sc_net c, sc_gross c, sc_route_id c)" rows] Cons by simp
  then have len: "length rows = Suc (length pending)" by (metis size_add_mset size_mset)
  have set: "set rows = insert best (set pending)" using ms by (metis set_mset_add_mset_insert set_mset_mset)
  have top: "sc_net c \<le> sc_net best" if "c \<in> set rows" for c
    using sorted_sort_desc[of "\<lambda>c. (sc_net c, sc_gross c, sc_route_id c)" rows] that unfolding Cons set
    by (auto simp: less_eq_prod_def)
  show ?thesis
  proof (cases n)
    case 0
    with Cons show ?thesis by (simp add: shortlist_amount_bucket_def)
  next
    case (Suc m)
    let ?tol = "max 1 (\<bar>sc_net best\<bar> * DIVERSITY_TOLERANCE_BPS div 10000)"
    have s: "?s = diversify m (sc_net best) ?tol pending [best]"
      using Cons Suc by (simp add: shortlist_amount_bucket_def)
    from diversify_spec[of m "sc_net best" ?tol pending "[best]"]
    have d: "mset ?s \<subseteq># add_mset best (mset pending)" "take 1 ?s = [best]" "length ?s = 1 + min m (length pending)"
      unfolding s by simp_all
    have "hd ?s = best" using d(2) by (cases ?s) auto
    with d ms len top Suc show ?thesis by auto
  qed
qed

text \<open>A shortlist takes only what it was given, as often as it was given, fills every slot it can,
  and starts with a candidate no other exceeds in net profit.\<close>

theorem shortlist_spec:
  "mset (shortlist_amount_bucket rows n) \<subseteq># mset rows \<and>
   length (shortlist_amount_bucket rows n) = min n (length rows) \<and>
   (\<forall>c \<in> set rows. n \<noteq> 0 \<longrightarrow> sc_net c \<le> sc_net (hd (shortlist_amount_bucket rows n)))"
  by (rule shortlist_facts)

theorem shortlist_spec_witness:
  "sc_net (demo_route ''s'' 40) \<le> sc_net (hd (shortlist_amount_bucket [demo_route ''s'' 40, demo_route ''r'' 50] 1))"
  using shortlist_spec[of "[demo_route ''s'' 40, demo_route ''r'' 50]" 1] by simp

section \<open>From the quote matrix to the frontier\<close>

lemma set_map_default:
  "p \<in> set (AList.map_default k v f al) \<Longrightarrow> p = (k, v) \<or> p \<in> set al \<or> (\<exists>w. (k, w) \<in> set al \<and> p = (k, f w))"
  by (induction al) (auto split: if_splits)

lemma al_append_all:
  assumes "\<forall>(k, vs) \<in> set al. \<forall>v \<in> set vs. P k v" and "P k v"
  shows "\<forall>(k, vs) \<in> set (al_append k v al). \<forall>v \<in> set vs. P k v"
proof (intro ballI, goal_cases)
  case (1 p)
  from set_map_default[OF 1[unfolded al_append_def]] consider "p = (k, [v])" | "p \<in> set al"
    | vs where "(k, vs) \<in> set al" "p = (k, vs @ [v])" by blast
  then show ?case
  proof cases
    case (3 vs)
    then have "\<forall>v \<in> set vs. P k v" using assms(1) by blast
    with 3(2) assms(2) show ?thesis by simp
  qed (use assms in auto)
qed

definition grouped_ok :: "(string \<times> (int \<times> split_candidate list) list) list \<Rightarrow> bool" where
  "grouped_ok g \<longleftrightarrow> (\<forall>(t, bs) \<in> set g. \<forall>(a, cs) \<in> set bs. \<forall>c \<in> set cs. candidate_ok c \<and> sc_borrow_token c = t)"

lemma group_step_ok:
  assumes "grouped_ok g" and "candidate_ok c"
  shows "grouped_ok (AList.map_default (sc_borrow_token c) [(sc_amount_in c, [c])] (al_append (sc_amount_in c) c) g)"
  unfolding grouped_ok_def
proof (intro ballI, goal_cases)
  case (1 p)
  from set_map_default[OF 1] consider "p = (sc_borrow_token c, [(sc_amount_in c, [c])])" | "p \<in> set g"
    | bs where "(sc_borrow_token c, bs) \<in> set g" "p = (sc_borrow_token c, al_append (sc_amount_in c) c bs)" by blast
  then show ?case
  proof cases
    case 1
    then show ?thesis using assms(2) by simp
  next
    case 2
    then show ?thesis using assms(1) unfolding grouped_ok_def by blast
  next
    case (3 bs)
    then have "\<forall>(a, cs) \<in> set bs. \<forall>d \<in> set cs. candidate_ok d \<and> sc_borrow_token d = sc_borrow_token c"
      using assms(1) unfolding grouped_ok_def by blast
    from al_append_all[OF this, of c "sc_amount_in c"] 3(2) assms(2) show ?thesis by simp
  qed
qed

lemma group_ok: "\<forall>c \<in> set cs. candidate_ok c \<Longrightarrow> grouped_ok (group_candidates_by_token_and_amount cs)"
proof -
  assume ok: "\<forall>c \<in> set cs. candidate_ok c"
  have "grouped_ok g \<Longrightarrow> grouped_ok (foldl (\<lambda>grouped c. AList.map_default (sc_borrow_token c) [(sc_amount_in c, [c])]
      (al_append (sc_amount_in c) c) grouped) g cs)" for g
    using ok by (induction cs arbitrary: g) (simp_all add: group_step_ok)
  moreover have "grouped_ok []" by (simp add: grouped_ok_def)
  ultimately show ?thesis by (simp add: group_candidates_by_token_and_amount_def)
qed

lemma dedup_ok: "deduplicate_candidates raw chain_id = Inr unique \<Longrightarrow> c \<in> set (map snd unique) \<Longrightarrow> candidate_ok c"
proof -
  assume d: "deduplicate_candidates raw chain_id = Inr unique" and c: "c \<in> set (map snd unique)"
  from d obtain cs where cs: "mapr (\<lambda>c. normalize_candidate c chain_id) raw = Inr cs"
    and u: "unique = foldl keep_best [] (List.map_filter (\<lambda>c. c) cs)"
    by (auto simp: deduplicate_candidates_def rbind_eq_Inr)
  have "c \<in> set (List.map_filter (\<lambda>c. c) cs)" using keep_best_from[of c "[]"] c u by auto
  then have "Some c \<in> set cs" by (auto simp: List.map_filter_def)
  then obtain i where i: "i < length cs" "cs ! i = Some c" by (auto simp: in_set_conv_nth)
  with mapr_nth[OF cs, of i] mapr_length[OF cs] have "normalize_candidate (raw ! i) chain_id = Inr (Some c)" by simp
  then show "candidate_ok c" by (rule normalized_ok)
qed

lemma buckets_ok:
  assumes "prepare_candidate_buckets m chain_id k = Inr by_token" and "(t, cs) \<in> set by_token" and "c \<in> set cs"
  shows "candidate_ok c \<and> sc_borrow_token c = t"
proof -
  from assms(1) obtain raw unique where d: "deduplicate_candidates raw chain_id = Inr unique"
    and b: "by_token = map (\<lambda>(token, buckets). (token, concat (map (\<lambda>a. shortlist_amount_bucket (the (map_of buckets a))
       (max 1 (min k 12))) (sort (map fst buckets))))) (group_candidates_by_token_and_amount (map snd unique))"
    by (auto simp: prepare_candidate_buckets_def rbind_eq_Inr Let_def)
  have g: "grouped_ok (group_candidates_by_token_and_amount (map snd unique))"
    using dedup_ok[OF d] by (intro group_ok) blast
  from assms(2) b obtain buckets where bk: "(t, buckets) \<in> set (group_candidates_by_token_and_amount (map snd unique))"
    and cs: "cs = concat (map (\<lambda>a. shortlist_amount_bucket (the (map_of buckets a)) (max 1 (min k 12))) (sort (map fst buckets)))"
    by auto
  from assms(3) cs obtain a where a: "a \<in> fst ` set buckets" and c: "c \<in> set (shortlist_amount_bucket (the (map_of buckets a)) (max 1 (min k 12)))"
    by auto
  from a obtain rows where r: "map_of buckets a = Some rows" by (metis domIff dom_map_of_conv_image_fst option.exhaust)
  have "c \<in># mset rows" using c r shortlist_facts[of rows "max 1 (min k 12)"] by (metis mset_subset_eqD option.sel set_mset_mset)
  then have "c \<in> set rows" by simp
  with g bk map_of_SomeD[OF r] show ?thesis unfolding grouped_ok_def by blast
qed

lemma foldl_plans:
  assumes "p \<in> set (fst (foldl (\<lambda>(plans, n, t) x. case f x of (ps, m, u) \<Rightarrow> (plans @ ps, n + m, t + u)) (plans0, n0, t0) xs))"
  shows "p \<in> set plans0 \<or> (\<exists>x \<in> set xs. p \<in> set (fst (f x)))"
  using assms
proof (induction xs arbitrary: plans0 n0 t0)
  case (Cons x xs)
  obtain ps m u where f: "f x = (ps, m, u)" by (cases "f x")
  from Cons.prems have "p \<in> set (plans0 @ ps) \<or> (\<exists>x \<in> set xs. p \<in> set (fst (f x)))"
    by (intro Cons.IH) (simp add: f)
  then show ?case using f by auto
qed simp

lemma token_targets_plans:
  assumes "p \<in> set (fst (search_token_targets token cs limits))"
  shows "\<exists>target n u. search_target_amount token cs target limits = (Some p, n, u)"
proof -
  let ?f = "\<lambda>target. case search_target_amount token cs target limits of (plan, n, u) \<Rightarrow>
     (case plan of None \<Rightarrow> [] | Some p \<Rightarrow> [p], n, if u then 1 else 0 :: nat)"
  have e: "search_token_targets token cs limits = foldl (\<lambda>(plans, n, t) x. case ?f x of (ps, m, u) \<Rightarrow> (plans @ ps, n + m, t + u))
      ([], 0, 0) (sort (remdups (map sc_amount_in cs)))"
    unfolding search_token_targets_def by (intro arg_cong3[of _ _ _ _ _ _ foldl] ext refl) (auto split: prod.splits)
  from foldl_plans[of p ?f, OF assms[unfolded e]] obtain target where t: "p \<in> set (fst (?f target))" by auto
  obtain plan n u where r: "search_target_amount token cs target limits = (plan, n, u)"
    by (cases "search_target_amount token cs target limits")
  with t have "plan = Some p" by (auto split: option.splits)
  with r show ?thesis by blast
qed

lemma collect_plans:
  assumes "p \<in> set (fst (collect_split_plans by_token limits))"
  shows "\<exists>token cs target n u. (token, cs) \<in> set by_token \<and> search_target_amount token cs target limits = (Some p, n, u)"
proof -
  let ?f = "\<lambda>(token, cs). search_token_targets token cs limits"
  have e: "collect_split_plans by_token limits = foldl (\<lambda>(plans, n, t) x. case ?f x of (ps, m, u) \<Rightarrow> (plans @ ps, n + m, t + u))
      ([], 0, 0) (sort_key fst by_token)"
    unfolding collect_split_plans_def by (intro arg_cong3[of _ _ _ _ _ _ foldl] ext refl) (auto split: prod.splits)
  from foldl_plans[of p ?f, OF assms[unfolded e]] obtain x where "x \<in> set by_token" "p \<in> set (fst (?f x))" by auto
  moreover obtain token cs where "x = (token, cs)" by (cases x)
  ultimately have "(token, cs) \<in> set by_token" "p \<in> set (fst (search_token_targets token cs limits))" by simp_all
  with token_targets_plans[of p token cs limits] show ?thesis by blast
qed

lemma set_round_robin: "p \<in> set (round_robin ls) \<Longrightarrow> \<exists>l \<in> set ls. p \<in> set l"
  by (auto simp: round_robin_def split: if_splits) (metis nth_mem)

lemma set_sort_desc [simp]: "set (sort_desc f xs) = set xs"
  by (metis mset_sort_desc set_mset_mset)

lemma group_plans_set:
  "(t, ps) \<in> set (group_split_plans_by_token plans) \<Longrightarrow> set ps \<subseteq> set plans"
proof -
  let ?P = "\<lambda>k p. p \<in> set plans"
  have "\<forall>(k, vs) \<in> set g. \<forall>v \<in> set vs. ?P k v \<Longrightarrow> set xs \<subseteq> set plans \<Longrightarrow>
      \<forall>(k, vs) \<in> set (foldl (\<lambda>g p. al_append (pl_borrow_token p) p g) g xs). \<forall>v \<in> set vs. ?P k v" for g xs
  proof (induction xs arbitrary: g)
    case (Cons x xs)
    have "\<forall>(k, vs) \<in> set (al_append (pl_borrow_token x) x g). \<forall>v \<in> set vs. ?P k v"
      using Cons.prems by (intro al_append_all) auto
    from Cons.IH[OF this] Cons.prems(2) show ?case by simp
  qed simp
  from this[of "[]" plans] show "(t, ps) \<in> set (group_split_plans_by_token plans) \<Longrightarrow> set ps \<subseteq> set plans"
    by (auto simp: group_split_plans_by_token_def)
qed

lemma round_robin_plans_set: "set (fst (round_robin_split_plans plans n)) \<subseteq> set plans"
proof
  fix p assume "p \<in> set (fst (round_robin_split_plans plans n))"
  then have "p \<in> set (interleave_split_plans_by_token (sort_split_plans_by_net (group_split_plans_by_token plans)))"
    by (auto simp: round_robin_split_plans_def Let_def dest: in_set_takeD)
  then obtain t ps where "(t, ps) \<in> set (group_split_plans_by_token plans)" "p \<in> set ps"
    by (auto simp: interleave_split_plans_by_token_def sort_split_plans_by_net_def dest!: set_round_robin)
  with group_plans_set show "p \<in> set plans" by blast
qed

lemma length_round_robin_plans: "length (fst (round_robin_split_plans plans n)) \<le> max 1 (min n 32)"
  by (simp add: round_robin_split_plans_def Let_def)

text \<open>What the frontier shows is sound end to end, from the raw quote matrix: at most eight plans,
  each of two or three routes that fill one target amount with no route or pool reused, every route
  carrying complete positive evidence in the plan's own borrow token.\<close>

theorem frontier_plans_sound:
  assumes "split_frontier_plans size_matrix chain_id = Inr (eligible, plans, planned, evaluated, truncated, positive)"
    and "p \<in> set plans"
  shows "length plans \<le> 8 \<and> (\<exists>target. admissible_split 3 target (pl_parts p)) \<and>
     (\<forall>c \<in> set (pl_parts p). candidate_ok c \<and> sc_borrow_token c = pl_borrow_token p) \<and> pl_states p \<le> 2000"
proof -
  from assms(1) obtain by_token where b: "prepare_candidate_buckets size_matrix chain_id (lm_candidates default_limits) = Inr by_token"
    and e: "(case collect_split_plans by_token default_limits of (all, evaluated, truncated) \<Rightarrow>
      case round_robin_split_plans all (lm_plans default_limits) of (returned, planned, positive) \<Rightarrow>
      Inr (length (concat (map snd by_token)), returned, planned, evaluated, truncated, positive))
      = (Inr (eligible, plans, planned, evaluated, truncated, positive) :: _ res)"
    unfolding split_frontier_plans_def rbind_eq_Inr by blast
  obtain all ev tr where c: "collect_split_plans by_token default_limits = (all, ev, tr)"
    by (cases "collect_split_plans by_token default_limits")
  obtain re co po where r: "round_robin_split_plans all (lm_plans default_limits) = (re, co, po)"
    by (cases "round_robin_split_plans all (lm_plans default_limits)")
  from e c r have pl: "plans = fst (round_robin_split_plans (fst (collect_split_plans by_token default_limits)) (lm_plans default_limits))"
    by simp
  have "p \<in> set (fst (collect_split_plans by_token default_limits))"
    using round_robin_plans_set assms(2) pl by blast
  then obtain token cs target n u where tc: "(token, cs) \<in> set by_token"
    and s: "search_target_amount token cs target default_limits = (Some p, n, u)" using collect_plans by blast
  note adm = plan_admissible[OF s]
  have "length plans \<le> max 1 (min (lm_plans default_limits) 32)" unfolding pl by (rule length_round_robin_plans)
  then have "length plans \<le> 8" by (simp add: default_limits_def)
  moreover have "\<forall>c \<in> set (pl_parts p). candidate_ok c \<and> sc_borrow_token c = pl_borrow_token p"
    using adm buckets_ok[OF b tc] by auto
  ultimately show ?thesis using adm by (auto simp: default_limits_def)
qed

text \<open>A quote matrix with two routes of 500 and one of 1000, which yields one plan.\<close>

definition demo_matrix :: "pyval list" where
  "demo_matrix = [PDict [(''quote_requests'', PInt 3), (''quote_successes'', PInt 3),
     (''candidates'', PList [PDict (demo_candidate ''r'' ''p'' 500 50), PDict (demo_candidate ''s'' ''q'' 500 40),
        PDict (demo_candidate ''u'' ''v'' 1000 10)])]]"

lemma demo_search_three:
  assumes "sc_amount_in c1 = 500" "sc_amount_in c2 = 500" "sc_amount_in c3 = 1000"
    and "sc_net c1 = 47" "sc_net c2 = 37" "sc_net c3 = 7"
    and "sc_route_id c1 = ''r''" "sc_route_id c2 = ''s''" "sc_pool_keys c1 \<inter> sc_pool_keys c2 = {}"
  shows "\<exists>plan n t. search_token_targets tok [c1, c2, c3] default_limits = ([plan], n, t)"
proof -
  have p5: "amount_pool [c1, c2, c3] 500 = [c1, c2]" and p10: "amount_pool [c1, c2, c3] 1000 = [c1, c2, c3]"
    using assms by (simp_all add: amount_pool_def)
  have "\<exists>n. search_target_amount tok [c1, c2, c3] 500 default_limits = (None, n, False)"
    unfolding search_target_amount_def p5 using assms
    by (simp add: new_target_search_state_def root_split_def default_limits_def walk_split_search.simps extend_split_search.simps
        fits_def child_def record_completed_split_def)
  moreover have "\<exists>plan n. search_target_amount tok [c1, c2, c3] 1000 default_limits = (Some plan, n, False)"
    unfolding search_target_amount_def p10 using assms
    by (simp add: new_target_search_state_def root_split_def default_limits_def walk_split_search.simps extend_split_search.simps
        fits_def child_def record_completed_split_def)
  ultimately show ?thesis using assms by (auto simp: search_token_targets_def)
qed

lemma demo_frontier:
  "\<exists>eligible p planned evaluated truncated positive. split_frontier_plans demo_matrix 1 = Inr (eligible, [p], planned, evaluated, truncated, positive)"
proof -
  have t: "strip ''p'' = ''p''" "strip (''p'' @ ''2'') = ''p'' @ ''2''" "lower ''p'' = ''p''"
    "strip ''q'' = ''q''" "strip (''q'' @ ''2'') = ''q'' @ ''2''" "lower ''q'' = ''q''"
    "strip ''v'' = ''v''" "strip (''v'' @ ''2'') = ''v'' @ ''2''" "lower ''v'' = ''v''"
    by (simp_all add: strip_def is_space_def lower_char_def)
  obtain c1 c2 c3 where n: "normalize_candidate (demo_candidate ''r'' ''p'' 500 50) 1 = Inr (Some c1)"
      "normalize_candidate (demo_candidate ''s'' ''q'' 500 40) 1 = Inr (Some c2)"
      "normalize_candidate (demo_candidate ''u'' ''v'' 1000 10) 1 = Inr (Some c3)"
    and a: "sc_amount_in c1 = 500" "sc_amount_in c2 = 500" "sc_amount_in c3 = 1000"
    and w: "sc_net c1 = 47" "sc_net c2 = 37" "sc_net c3 = 7" and r: "sc_route_id c1 = ''r''" "sc_route_id c2 = ''s''"
    and r3: "sc_route_id c3 = ''u''" and b: "sc_borrow_token c1 = ''a''" "sc_borrow_token c2 = ''a''" "sc_borrow_token c3 = ''a''"
    and pk: "sc_pool_keys c1 \<inter> sc_pool_keys c2 = {}"
    using demo_normalizes[OF t(1,3) _ t(2), of "''r''" 500 50] demo_normalizes[OF t(4,6) _ t(5), of "''s''" 500 40]
      demo_normalizes[OF t(7,9) _ t(8), of "''u''" 1000 10]
    by (simp add: build_candidate_def)
  have it: "iter_quote_backed_candidates demo_matrix = Inr [demo_candidate ''r'' ''p'' 500 50, demo_candidate ''s'' ''q'' 500 40,
      demo_candidate ''u'' ''v'' 1000 10]"
    by (simp add: iter_quote_backed_candidates_def demo_matrix_def is_quote_backed_size_row_def size_row_has_quote_success_def
        int_value_def none_or_empty_def is_bool_def iter_mapping_rows_def candidate_rows_def dget_or_def)
  have dd: "deduplicate_candidates [demo_candidate ''r'' ''p'' 500 50, demo_candidate ''s'' ''q'' 500 40,
      demo_candidate ''u'' ''v'' 1000 10] 1 = Inr [((''a'', 500, ''r''), c1), ((''a'', 500, ''s''), c2), ((''a'', 1000, ''u''), c3)]"
    using a b r r3 by (simp add: deduplicate_candidates_def n List.map_filter_simps keep_best_def candidate_key_def)
  have g: "group_candidates_by_token_and_amount [c1, c2, c3] = [(''a'', [(500, [c1, c2]), (1000, [c3])])]"
    using a b by (simp add: group_candidates_by_token_and_amount_def al_append_def)
  have one: "best_diverse_candidate_index [c] chosen net tol = 0" for c chosen net tol
    using best_index_lt[of "[c]" chosen net tol] by simp
  have s: "shortlist_amount_bucket [c1, c2] 8 = [c1, c2]" "shortlist_amount_bucket [c3] 8 = [c3]"
    using w by (simp_all add: shortlist_amount_bucket_def sort_desc_def numeral_eq_Suc one pop_at_def)
  have "prepare_candidate_buckets demo_matrix 1 8 = Inr [(''a'', [c1, c2, c3])]"
    by (simp add: prepare_candidate_buckets_def it dd g s)
  moreover obtain plan m k where "search_token_targets ''a'' [c1, c2, c3] default_limits = ([plan], m, k)"
    using demo_search_three[OF a w r pk] by blast
  ultimately show ?thesis
    by (simp add: split_frontier_plans_def default_limits_def collect_split_plans_def round_robin_split_plans_def
        group_split_plans_by_token_def al_append_def sort_split_plans_by_net_def interleave_split_plans_by_token_def
        sort_desc_def round_robin_def Let_def)
qed

theorem frontier_plans_sound_witness:
  "\<exists>(p :: split_plan) target. admissible_split 3 target (pl_parts p) \<and> (\<forall>c \<in> set (pl_parts p). candidate_ok c)"
proof -
  obtain e p pl ev tr po where f: "split_frontier_plans demo_matrix 1 = Inr (e, [p], pl, ev, tr, po)" using demo_frontier by blast
  have "p \<in> set [p]" by simp
  from frontier_plans_sound[OF f this] show ?thesis by blast
qed

text \<open>The diagnostic never grants authority: whatever the quote matrix says, the frontier and every
  plan in it carry execution_authority_granted, and every plan valid and authoritative, as false.\<close>

theorem frontier_grants_nothing:
  assumes "build_gas_adjusted_split_frontier size_matrix chain_id = Inr out"
  shows "dget out ''execution_authority_granted'' = PBool False \<and> dget out ''execution_supported'' = PBool False \<and>
     (\<exists>ps. dget out ''plans'' = PList (map PDict ps) \<and> (\<forall>d \<in> set ps. dget d ''execution_authority_granted'' = PBool False \<and>
       dget d ''valid'' = PBool False \<and> dget d ''authoritative'' = PBool False \<and> dget d ''execution_supported'' = PBool False))"
proof -
  from assms obtain r where "(case r of (eligible, returned, planned, evaluated, truncated, positive) \<Rightarrow>
     Inr (frontier_dict chain_id eligible returned planned evaluated truncated positive)) = (Inr out :: _ res)"
    unfolding build_gas_adjusted_split_frontier_def rbind_eq_Inr by blast
  then obtain e plans n v t q where o: "frontier_dict chain_id e plans n v t q = out" by (cases r) simp
  have ev: "dget (evaluate_split ps @ x) ''execution_authority_granted'' = PBool False" "dget (evaluate_split ps @ x) ''valid'' = PBool False"
    "dget (evaluate_split ps @ x) ''authoritative'' = PBool False" "dget (evaluate_split ps @ x) ''execution_supported'' = PBool False" for ps x
    by (simp_all add: evaluate_split_def Let_def)
  have d: "dget (plan_dict p) k = PBool False" if "k \<in> {''execution_authority_granted'', ''valid'', ''authoritative'', ''execution_supported''}" for p k
    using that ev unfolding plan_dict_def by blast
  have "dget out ''plans'' = PList (map PDict (map plan_dict plans))" by (simp add: o[symmetric] frontier_dict_def comp_def)
  moreover have "dget out ''execution_authority_granted'' = PBool False" "dget out ''execution_supported'' = PBool False"
    by (simp_all add: o[symmetric] frontier_dict_def)
  ultimately show ?thesis using d by (intro conjI exI[of _ "map plan_dict plans"]) auto
qed

theorem frontier_grants_nothing_witness:
  "\<exists>out. build_gas_adjusted_split_frontier demo_matrix 1 = Inr out \<and> dget out ''execution_authority_granted'' = PBool False"
proof -
  obtain out where o: "build_gas_adjusted_split_frontier demo_matrix 1 = Inr out"
    using demo_frontier by (auto simp: build_gas_adjusted_split_frontier_def)
  from frontier_grants_nothing[OF o] o show ?thesis by blast
qed

lemma ceil_ratio_ceiling: "ceil_ratio n r = \<lceil>of_int n * r\<rceil>"
proof -
  obtain p q where pq: "quotient_of r = (p, q)" by (cases "quotient_of r")
  then have q: "0 < q" and r: "r = of_int p / of_int q"
    using quotient_of_denom_pos quotient_of_div by blast+
  have "(n * p + q - 1) div q = - (- (n * p) div q)"
  proof -
    let ?d = "- (n * p) div q" and ?m = "- (n * p) mod q"
    have "- (n * p) = q * ?d + ?m" by simp
    then have e: "n * p + q - 1 = q * (- ?d) + (q - 1 - ?m)" by (simp add: algebra_simps)
    have "0 \<le> q - 1 - ?m" "q - 1 - ?m < q" using pos_mod_bound[OF q, of "- (n * p)"] pos_mod_sign[OF q, of "- (n * p)"] by simp_all
    then show ?thesis by (rule int_div_pos_eq[OF e])
  qed
  also have "\<dots> = \<lceil>of_int (n * p) / (of_int q :: rat)\<rceil>" by (rule ceiling_divide_eq_div[symmetric])
  finally show ?thesis unfolding ceil_ratio_def pq prod.case by (simp add: r)
qed

text \<open>The cost of a split is conservative and tight: converting the combined native gas at the
  highest observed ratio rounds up, so the charge covers every part's own ratio and exceeds the exact
  conversion by less than one wei; and the net is gross minus the summed fees, the per-route rounding
  reserve and that charge.\<close>

theorem split_cost_conservative:
  assumes "parts \<noteq> []"
  shows "let t = split_cost_totals parts in
    (\<forall>c \<in> set parts. 0 \<le> tt_native_cost t \<longrightarrow> of_int (tt_native_cost t) * sc_conversion c \<le> of_int (tt_gas_token_cost t)) \<and>
    (\<exists>c \<in> set parts. of_int (tt_gas_token_cost t) < of_int (tt_native_cost t) * sc_conversion c + 1) \<and>
    tt_net t = sum_list (map sc_gross parts) - sum_list (map sc_fee parts) - (int (length parts) - 1) - tt_gas_token_cost t"
proof -
  let ?t = "split_cost_totals parts" and ?M = "Max (set (map sc_conversion parts))"
  have g: "tt_gas_token_cost ?t = \<lceil>of_int (tt_native_cost ?t) * ?M\<rceil>"
    by (simp add: split_cost_totals_def Let_def ceil_ratio_ceiling)
  have up: "of_int (tt_native_cost ?t) * ?M \<le> of_int (tt_gas_token_cost ?t)" unfolding g by (rule le_of_int_ceiling)
  have "of_int (tt_native_cost ?t) * sc_conversion c \<le> of_int (tt_gas_token_cost ?t)"
    if "c \<in> set parts" "0 \<le> tt_native_cost ?t" for c
  proof -
    have "sc_conversion c \<le> ?M" using that(1) by simp
    then have "of_int (tt_native_cost ?t) * sc_conversion c \<le> of_int (tt_native_cost ?t) * ?M"
      using that(2) by (intro mult_left_mono) simp_all
    with up show ?thesis by simp
  qed
  moreover have "?M \<in> set (map sc_conversion parts)" using assms by (intro Max_in) simp_all
  then obtain c where c: "c \<in> set parts" "sc_conversion c = ?M" by auto
  have "of_int (tt_gas_token_cost ?t) < of_int (tt_native_cost ?t) * sc_conversion c + 1"
    unfolding g c(2) using ceiling_correct[of "of_int (tt_native_cost ?t) * ?M"] by linarith
  moreover have "tt_net ?t = sum_list (map sc_gross parts) - sum_list (map sc_fee parts) - (int (length parts) - 1) - tt_gas_token_cost ?t"
    using assms by (cases parts) (simp_all add: split_cost_totals_def Let_def)
  ultimately show ?thesis using c(1) by (auto simp: Let_def)
qed

theorem split_cost_conservative_witness:
  "tt_net (split_cost_totals [demo_route ''r'' 50, demo_route ''s'' 40]) =
     87 - tt_gas_token_cost (split_cost_totals [demo_route ''r'' 50, demo_route ''s'' 40])"
  using split_cost_conservative[of "[demo_route ''r'' 50, demo_route ''s'' 40]"]
  by (simp add: Let_def demo_route_def)

end
