(* ===== verification/Guards.thy ===== *)
theory Guards
  imports Complex_Main Py_Prelude
begin

text \<open>
  The in-memory guards of the service: the execution circuit breaker (\<open>circuit_breaker.py\<close>), the
  sliding-window rate limiter with its middleware (\<open>ratelimit.py\<close>) and the per-block cache
  (\<open>cache.py\<close>). Times are the rational values of Python floats; \<open>fl\<close> is the rounding of a float
  sum or difference and stays a parameter, so what is proved holds for every rounding, or for every
  monotone one where that is needed. The clock is read by the caller.
\<close>

section \<open>Environment and floats\<close>

type_synonym environ = "string \<Rightarrow> string option"

definition env_int :: "environ \<Rightarrow> string \<Rightarrow> int \<Rightarrow> int" where
  "env_int env name d =
     (case int_of_str (case env name of None \<Rightarrow> show_int d | Some s \<Rightarrow> s) of Inl e \<Rightarrow> d | Inr n \<Rightarrow> n)"

text \<open>\<open>float(n)\<close> raises OverflowError once rounding would leave the double range.\<close>

definition float_of_int :: "(rat \<Rightarrow> rat) \<Rightarrow> int \<Rightarrow> rat res" where
  "float_of_int fl n = (if 2 ^ 1024 - 2 ^ 970 \<le> abs n then Inl OverflowError else Inr (fl (of_int n)))"

definition int_of_float :: "rat \<Rightarrow> int" where
  "int_of_float x = (if 0 \<le> x then \<lfloor>x\<rfloor> else \<lceil>x\<rceil>)"

section \<open>The circuit breaker\<close>

record breaker_config =
  max_consecutive_failures :: int
  max_consecutive_reverts :: int
  cooldown_s :: int

record breaker =
  br_cfg :: breaker_config
  br_failures :: int
  br_reverts :: int
  br_until :: rat

definition new_breaker :: "breaker_config \<Rightarrow> breaker" where
  "new_breaker cfg = \<lparr>br_cfg = cfg, br_failures = 0, br_reverts = 0, br_until = 0\<rparr>"

definition breaker_from_env :: "environ \<Rightarrow> breaker" where
  "breaker_from_env env = new_breaker
     \<lparr>max_consecutive_failures = env_int env ''VICTOR_CB_MAX_FAILURES'' 5,
      max_consecutive_reverts = env_int env ''VICTOR_CB_MAX_REVERTS'' 3,
      cooldown_s = env_int env ''VICTOR_CB_COOLDOWN_S'' 60\<rparr>"

definition is_tripped :: "breaker \<Rightarrow> rat \<Rightarrow> bool" where
  "is_tripped br now = (now < br_until br)"

definition remaining_cooldown_s :: "(rat \<Rightarrow> rat) \<Rightarrow> breaker \<Rightarrow> rat \<Rightarrow> int" where
  "remaining_cooldown_s fl br now = max 0 (int_of_float (fl (br_until br - now)))"

definition allow_auto_trading :: "breaker \<Rightarrow> rat \<Rightarrow> bool" where
  "allow_auto_trading br now = (\<not> is_tripped br now)"

definition revert_reason :: "string option \<Rightarrow> bool" where
  "revert_reason reason = (case reason of None \<Rightarrow> False
     | Some r \<Rightarrow> r \<noteq> [] \<and> (contains ''revert'' r \<or> contains ''simulation'' r))"

text \<open>The counters are already updated when the float of the cooldown overflows.\<close>

definition record_result :: "(rat \<Rightarrow> rat) \<Rightarrow> breaker \<Rightarrow> bool \<Rightarrow> string option \<Rightarrow> rat \<Rightarrow> breaker \<times> pyerr option" where
  "record_result fl br ok reason now =
     (if ok then (br\<lparr>br_failures := 0, br_reverts := 0\<rparr>, None)
      else
        let br1 = br\<lparr>br_failures := br_failures br + 1,
                     br_reverts := br_reverts br + (if revert_reason reason then 1 else 0)\<rparr> in
        if max_consecutive_failures (br_cfg br) \<le> br_failures br1 \<or> max_consecutive_reverts (br_cfg br) \<le> br_reverts br1
        then (case float_of_int fl (cooldown_s (br_cfg br)) of
                Inl e \<Rightarrow> (br1, Some e)
              | Inr c \<Rightarrow> (br1\<lparr>br_until := fl (now + c)\<rparr>, None))
        else (br1, None))"

text \<open>\<open>snapshot\<close> reads the clock twice.\<close>

definition breaker_snapshot :: "(rat \<Rightarrow> rat) \<Rightarrow> breaker \<Rightarrow> rat \<Rightarrow> rat \<Rightarrow> pydict" where
  "breaker_snapshot fl br now now' =
     [(''max_consecutive_failures'', PInt (max_consecutive_failures (br_cfg br))),
      (''max_consecutive_reverts'', PInt (max_consecutive_reverts (br_cfg br))),
      (''cooldown_s'', PInt (cooldown_s (br_cfg br))),
      (''consecutive_failures'', PInt (br_failures br)),
      (''consecutive_reverts'', PInt (br_reverts br)),
      (''tripped'', PBool (is_tripped br now)),
      (''remaining_cooldown_s'', PInt (remaining_cooldown_s fl br now'))]"

section \<open>The rate limiter\<close>

record rate_rule =
  ru_window :: rat
  ru_max :: int

text \<open>The ordered dictionary of deques, oldest key first, each deque oldest hit first.\<close>

record limiter =
  lm_max_keys :: int
  lm_hits :: "(string \<times> rat list) list"

definition new_limiter :: "int \<Rightarrow> limiter" where
  "new_limiter max_keys = \<lparr>lm_max_keys = max_keys, lm_hits = []\<rparr>"

text \<open>The key's entry moves to the end; \<open>popitem\<close> of an empty dictionary raises KeyError.\<close>

definition touch_key :: "limiter \<Rightarrow> string \<Rightarrow> ((string \<times> rat list) list \<times> rat list) res" where
  "touch_key lm key =
     (case map_of (lm_hits lm) key of
        None \<Rightarrow>
          if lm_max_keys lm \<le> int (length (lm_hits lm))
          then (if lm_hits lm = [] then Inl KeyError else Inr (tl (lm_hits lm), []))
          else Inr (lm_hits lm, [])
      | Some q \<Rightarrow> Inr (AList.delete key (lm_hits lm), q))"

definition limiter_allow :: "(rat \<Rightarrow> rat) \<Rightarrow> limiter \<Rightarrow> string \<Rightarrow> rate_rule \<Rightarrow> rat \<Rightarrow> (limiter \<times> bool) res" where
  "limiter_allow fl lm key rule now =
     rbind (touch_key lm key) (\<lambda>(others, q).
       let cutoff = fl (now - ru_window rule); q1 = dropWhile (\<lambda>t. t < cutoff) q in
       if ru_max rule \<le> int (length q1) then Inr (lm\<lparr>lm_hits := others @ [(key, q1)]\<rparr>, False)
       else Inr (lm\<lparr>lm_hits := others @ [(key, q1 @ [now])]\<rparr>, True))"

section \<open>The middleware\<close>

text \<open>Starlette's request: its path, its header lookup and its socket peer.\<close>

record http_request =
  rq_path :: string
  rq_header :: "string \<Rightarrow> string option"
  rq_client :: "string option"

definition header_or :: "http_request \<Rightarrow> string \<Rightarrow> string \<Rightarrow> string option" where
  "header_or rq a b = (case rq_header rq a of Some v \<Rightarrow> if v \<noteq> [] then Some v else rq_header rq b | None \<Rightarrow> rq_header rq b)"

definition peer_ip :: "http_request \<Rightarrow> string" where
  "peer_ip rq = (case rq_client rq of Some h \<Rightarrow> h | None \<Rightarrow> ''unknown'')"

definition client_ip :: "environ \<Rightarrow> http_request \<Rightarrow> string" where
  "client_ip env rq =
     (if strip (case env ''VICTOR_TRUST_PROXY_HEADERS'' of None \<Rightarrow> [] | Some s \<Rightarrow> s) \<noteq> ''1'' then peer_ip rq
      else
        let ip = (case header_or rq ''x-forwarded-for'' ''X-Forwarded-For'' of None \<Rightarrow> []
                  | Some xff \<Rightarrow> strip (takeWhile (\<lambda>c. c \<noteq> CHR '','') xff)) in
        if ip \<noteq> [] then ip
        else case header_or rq ''x-real-ip'' ''X-Real-Ip'' of None \<Rightarrow> peer_ip rq
          | Some xri \<Rightarrow> if strip xri \<noteq> [] then strip xri else peer_ip rq)"

definition HEAVY_PATHS :: "string list" where
  "HEAVY_PATHS = [''/api/opportunities/trade'', ''/api/tx/receipt'', ''/api/presets/apply'']"

definition LIGHT_PATHS :: "string list" where
  "LIGHT_PATHS = [''/api/state'', ''/api/admin/state'', ''/api/pnl/summary'', ''/api/settings'', ''/api/safety'']"

record middleware =
  mw_limiter :: limiter
  mw_heavy :: rate_rule
  mw_light :: rate_rule

definition new_middleware :: "(rat \<Rightarrow> rat) \<Rightarrow> environ \<Rightarrow> middleware res" where
  "new_middleware fl env =
     rbind (float_of_int fl (env_int env ''VICTOR_RL_HEAVY_WINDOW_S'' 10)) (\<lambda>hw.
     rbind (float_of_int fl (env_int env ''VICTOR_RL_LIGHT_WINDOW_S'' 60)) (\<lambda>lw.
     Inr \<lparr>mw_limiter = new_limiter (env_int env ''VICTOR_RL_MAX_KEYS'' 4096),
          mw_heavy = \<lparr>ru_window = hw, ru_max = env_int env ''VICTOR_RL_HEAVY_MAX'' 12\<rparr>,
          mw_light = \<lparr>ru_window = lw, ru_max = env_int env ''VICTOR_RL_LIGHT_MAX'' 90\<rparr>\<rparr>))"

text \<open>A 429 with the path, or whatever the rest of the application answers.\<close>

datatype rate_response = TooManyRequests string | CallNext

definition path_rule :: "middleware \<Rightarrow> string \<Rightarrow> rate_rule option" where
  "path_rule mw path = (if path \<in> set HEAVY_PATHS then Some (mw_heavy mw)
     else if path \<in> set LIGHT_PATHS then Some (mw_light mw) else None)"

definition rate_key :: "string \<Rightarrow> string \<Rightarrow> string" where
  "rate_key ip path = ip @ '':'' @ path"

definition dispatch :: "(rat \<Rightarrow> rat) \<Rightarrow> environ \<Rightarrow> middleware \<Rightarrow> http_request \<Rightarrow> rat \<Rightarrow> (middleware \<times> rate_response) res" where
  "dispatch fl env mw rq now =
     (case path_rule mw (rq_path rq) of
        None \<Rightarrow> Inr (mw, CallNext)
      | Some rule \<Rightarrow>
          rbind (limiter_allow fl (mw_limiter mw) (rate_key (client_ip env rq) (rq_path rq)) rule now) (\<lambda>(lm, ok).
            Inr (mw\<lparr>mw_limiter := lm\<rparr>, if ok then CallNext else TooManyRequests (rq_path rq))))"

section \<open>The per-block cache\<close>

record 'v block_cache =
  bc_key :: "(int \<times> int) option"
  bc_data :: "(string \<times> 'v) list"

definition new_cache :: "'v block_cache" where
  "new_cache = \<lparr>bc_key = None, bc_data = []\<rparr>"

definition reset_if_new_block :: "int \<Rightarrow> int \<Rightarrow> 'v block_cache \<Rightarrow> 'v block_cache" where
  "reset_if_new_block chain_id block_number c =
     (if bc_key c \<noteq> Some (chain_id, block_number) then \<lparr>bc_key = Some (chain_id, block_number), bc_data = []\<rparr> else c)"

definition cache_get :: "'v block_cache \<Rightarrow> string \<Rightarrow> 'v option" where
  "cache_get c key = map_of (bc_data c) key"

definition cache_set :: "string \<Rightarrow> 'v \<Rightarrow> 'v block_cache \<Rightarrow> 'v block_cache" where
  "cache_set key value c = c\<lparr>bc_data := AList.update key value (bc_data c)\<rparr>"

definition cache_stats :: "'v block_cache \<Rightarrow> nat \<times> (int \<times> int) option" where
  "cache_stats c = (length (bc_data c), bc_key c)"

section \<open>What trips the breaker\<close>

record outcome =
  oc_ok :: bool
  oc_reason :: "string option"
  oc_time :: rat

definition breaker_step :: "(rat \<Rightarrow> rat) \<Rightarrow> breaker \<Rightarrow> outcome \<Rightarrow> breaker" where
  "breaker_step fl br oc = fst (record_result fl br (oc_ok oc) (oc_reason oc) (oc_time oc))"

definition breaker_run :: "(rat \<Rightarrow> rat) \<Rightarrow> breaker_config \<Rightarrow> outcome list \<Rightarrow> breaker" where
  "breaker_run fl cfg h = foldl (breaker_step fl) (new_breaker cfg) h"

text \<open>The outcomes since the last success, latest first.\<close>

definition failing_tail :: "outcome list \<Rightarrow> outcome list" where
  "failing_tail h = takeWhile (\<lambda>oc. \<not> oc_ok oc) (rev h)"

definition at_threshold :: "breaker_config \<Rightarrow> outcome list \<Rightarrow> bool" where
  "at_threshold cfg h \<longleftrightarrow> h \<noteq> [] \<and> \<not> oc_ok (last h) \<and>
     (max_consecutive_failures cfg \<le> int (length (failing_tail h)) \<or>
      max_consecutive_reverts cfg \<le> int (length (filter (\<lambda>oc. revert_reason (oc_reason oc)) (failing_tail h))))"

definition trip_points :: "breaker_config \<Rightarrow> outcome list \<Rightarrow> nat list" where
  "trip_points cfg h = filter (\<lambda>i. at_threshold cfg (take (Suc i) h)) [0..<length h]"

definition tripped_until :: "(rat \<Rightarrow> rat) \<Rightarrow> breaker_config \<Rightarrow> outcome list \<Rightarrow> rat" where
  "tripped_until fl cfg h = (case rev (trip_points cfg h) of [] \<Rightarrow> 0
     | i # _ \<Rightarrow> fl (oc_time (h ! i) + fl (of_int (cooldown_s cfg))))"

lemma failing_tail_snoc:
  "failing_tail (h @ [oc]) = (if oc_ok oc then [] else oc # failing_tail h)"
  by (simp add: failing_tail_def)

lemma trip_points_snoc:
  "trip_points cfg (h @ [oc]) = trip_points cfg h @ (if at_threshold cfg (h @ [oc]) then [length h] else [])"
proof -
  have "filter (\<lambda>i. at_threshold cfg (take (Suc i) (h @ [oc]))) [0..<length h] = trip_points cfg h"
    unfolding trip_points_def by (rule filter_cong) auto
  then show ?thesis by (simp add: trip_points_def)
qed

lemma trip_points_lt: "i \<in> set (trip_points cfg h) \<Longrightarrow> i < length h"
  by (simp add: trip_points_def)

lemma tripped_until_snoc:
  "tripped_until fl cfg (h @ [oc]) =
     (if at_threshold cfg (h @ [oc]) then fl (oc_time oc + fl (of_int (cooldown_s cfg))) else tripped_until fl cfg h)"
proof (cases "rev (trip_points cfg h)")
  case Nil
  then show ?thesis by (simp add: tripped_until_def trip_points_snoc)
next
  case (Cons i is')
  then have "i \<in> set (trip_points cfg h)" by (metis list.set_intros(1) set_rev)
  then have "i < length h" by (rule trip_points_lt)
  then show ?thesis using Cons by (simp add: tripped_until_def trip_points_snoc nth_append)
qed

definition cooldown_in_range :: "breaker_config \<Rightarrow> bool" where
  "cooldown_in_range cfg \<longleftrightarrow> abs (cooldown_s cfg) < 2 ^ 1024 - 2 ^ 970"

lemma breaker_run_state:
  assumes "cooldown_in_range cfg"
  shows "breaker_run fl cfg h =
    \<lparr>br_cfg = cfg, br_failures = int (length (failing_tail h)),
     br_reverts = int (length (filter (\<lambda>oc. revert_reason (oc_reason oc)) (failing_tail h))),
     br_until = tripped_until fl cfg h\<rparr>"
proof (induction h rule: rev_induct)
  case Nil
  then show ?case by (simp add: breaker_run_def new_breaker_def failing_tail_def tripped_until_def trip_points_def)
next
  case (snoc oc h)
  have f: "float_of_int fl (cooldown_s cfg) = Inr (fl (of_int (cooldown_s cfg)))"
    using assms by (simp add: float_of_int_def cooldown_in_range_def)
  have "breaker_run fl cfg (h @ [oc]) = breaker_step fl (breaker_run fl cfg h) oc"
    by (simp add: breaker_run_def)
  then show ?case
    by (simp add: snoc breaker_step_def record_result_def f failing_tail_snoc tripped_until_snoc at_threshold_def Let_def)
qed

text \<open>C36: after any history of outcomes the breaker blocks trading exactly until the cooldown of the last
  trip ends: an outcome trips it when it is a failure and the failures since the last success, or those
  of them that look like reverts, reach the configured number; successes reset the counts but not a
  running cooldown, and a breaker that never tripped blocks nothing after time zero.\<close>

theorem breaker_blocks_until_cooldown:
  assumes "cooldown_in_range cfg"
  shows "allow_auto_trading (breaker_run fl cfg h) now \<longleftrightarrow> tripped_until fl cfg h \<le> now"
  by (simp add: allow_auto_trading_def is_tripped_def breaker_run_state[OF assms] not_less)

definition demo_cfg :: breaker_config where
  "demo_cfg = \<lparr>max_consecutive_failures = 5, max_consecutive_reverts = 3, cooldown_s = 60\<rparr>"

theorem breaker_blocks_until_cooldown_witness:
  "\<not> allow_auto_trading (breaker_run (\<lambda>x. x) demo_cfg
      (map (\<lambda>t. \<lparr>oc_ok = False, oc_reason = None, oc_time = t\<rparr>) [100, 101, 102, 103, 104])) 163 \<and>
   allow_auto_trading (breaker_run (\<lambda>x. x) demo_cfg
      (map (\<lambda>t. \<lparr>oc_ok = False, oc_reason = None, oc_time = t\<rparr>) [100, 101, 102, 103, 104])) 164"
  by (subst (1 2) breaker_blocks_until_cooldown)
     (simp_all add: cooldown_in_range_def demo_cfg_def tripped_until_def trip_points_def at_threshold_def failing_tail_def upt_rec
       revert_reason_def)

text \<open>The count called consecutive reverts is not reset by a failure of another kind: with the
  default limits (five consecutive failures, three consecutive reverts) two reverts, a transport error and
  one more revert disable trading, although no three reverts were consecutive and only four outcomes failed.\<close>

theorem reverts_need_not_be_consecutive:
  "let revert = (\<lambda>t. \<lparr>oc_ok = False, oc_reason = Some ''execution_reverted'', oc_time = t\<rparr>);
       other = (\<lambda>t. \<lparr>oc_ok = False, oc_reason = Some ''rpc_timeout'', oc_time = t\<rparr>)
   in allow_auto_trading (breaker_run (\<lambda>x. x) demo_cfg [revert 100, revert 101, other 102]) 103 \<and>
      \<not> allow_auto_trading (breaker_run (\<lambda>x. x) demo_cfg [revert 100, revert 101, other 102, revert 103]) 103"
  by (simp add: Let_def breaker_run_state cooldown_in_range_def allow_auto_trading_def is_tripped_def demo_cfg_def
      tripped_until_def trip_points_def at_threshold_def failing_tail_def upt_rec revert_reason_def starts_with_def)

section \<open>The limiter is an exact sliding window\<close>

type_synonym hit = "string \<times> rate_rule \<times> rat"

fun allow_all :: "(rat \<Rightarrow> rat) \<Rightarrow> limiter \<Rightarrow> hit list \<Rightarrow> (limiter \<times> bool list) res" where
  "allow_all fl lm [] = Inr (lm, [])"
| "allow_all fl lm ((key, rule, now) # cs) =
     rbind (limiter_allow fl lm key rule now) (\<lambda>(lm', b).
     rbind (allow_all fl lm' cs) (\<lambda>(lm'', bs). Inr (lm'', b # bs)))"

text \<open>The reference: every accepted hit is remembered for ever, and a call counts those in its window.\<close>

definition window_count :: "(rat \<Rightarrow> rat) \<Rightarrow> (string \<times> rat) list \<Rightarrow> hit \<Rightarrow> nat" where
  "window_count fl past c = (case c of (key, rule, now) \<Rightarrow>
     length (filter (\<lambda>(k, t). k = key \<and> fl (now - ru_window rule) \<le> t) past))"

fun sliding_window :: "(rat \<Rightarrow> rat) \<Rightarrow> (string \<times> rat) list \<Rightarrow> hit list \<Rightarrow> bool list" where
  "sliding_window fl past [] = []"
| "sliding_window fl past (c # cs) =
     (let b = int (window_count fl past c) < ru_max (fst (snd c)) in
      b # sliding_window fl (if b then past @ [(fst c, snd (snd c))] else past) cs)"

definition hits_of :: "(string \<times> rat) list \<Rightarrow> string \<Rightarrow> rat list" where
  "hits_of past key = map snd (filter (\<lambda>(k, t). k = key) past)"

lemma window_count_hits:
  "window_count fl past (key, rule, now) = length (filter (\<lambda>t. fl (now - ru_window rule) \<le> t) (hits_of past key))"
  by (induction past) (auto simp: window_count_def hits_of_def)

lemma hits_of_snoc: "hits_of (past @ [(k, t)]) key = (if k = key then hits_of past key @ [t] else hits_of past key)"
  by (simp add: hits_of_def)

lemma sorted_dropWhile_filter:
  fixes c :: "'a :: linorder"
  shows "sorted xs \<Longrightarrow> dropWhile (\<lambda>t. t < c) xs = filter (\<lambda>t. c \<le> t) xs"
  by (induction xs) (auto simp: not_less intro!: filter_True[symmetric])

definition deque_of :: "limiter \<Rightarrow> string \<Rightarrow> rat list" where
  "deque_of lm key = (case map_of (lm_hits lm) key of None \<Rightarrow> [] | Some q \<Rightarrow> q)"

text \<open>What a key's deque holds of its past: everything still inside the window, in order.\<close>

definition holds_window :: "rat list \<Rightarrow> rat list \<Rightarrow> rat \<Rightarrow> rat \<Rightarrow> bool" where
  "holds_window hs q cutoff now \<longleftrightarrow> sorted hs \<and> (\<forall>t \<in> set hs. t \<le> now) \<and>
     (\<exists>old. hs = old @ q \<and> (\<forall>t \<in> set old. t < cutoff))"

definition remembers :: "(rat \<Rightarrow> rat) \<Rightarrow> (string \<Rightarrow> rate_rule) \<Rightarrow> limiter \<Rightarrow> (string \<times> rat) list \<Rightarrow> rat \<Rightarrow> bool" where
  "remembers fl rule_of lm past now \<longleftrightarrow>
     (\<forall>key. holds_window (hits_of past key) (deque_of lm key) (fl (now - ru_window (rule_of key))) now)"

lemma holds_window_later:
  "holds_window hs q cutoff now \<Longrightarrow> cutoff \<le> cutoff' \<Longrightarrow> now \<le> now' \<Longrightarrow> holds_window hs q cutoff' now'"
  unfolding holds_window_def by (elim conjE exE, intro conjI exI) (auto intro: order.trans order_less_le_trans)

lemma holds_window_drop:
  assumes "holds_window hs q cutoff now"
  shows "holds_window hs (dropWhile (\<lambda>t. t < cutoff) q) cutoff now"
    and "dropWhile (\<lambda>t. t < cutoff) q = filter (\<lambda>t. cutoff \<le> t) hs"
proof -
  obtain old where old: "hs = old @ q" "\<forall>t \<in> set old. t < cutoff" and s: "sorted hs"
    using assms by (auto simp: holds_window_def)
  have "hs = (old @ takeWhile (\<lambda>t. t < cutoff) q) @ dropWhile (\<lambda>t. t < cutoff) q" using old(1) by simp
  moreover have "\<forall>t \<in> set (old @ takeWhile (\<lambda>t. t < cutoff) q). t < cutoff"
    using old(2) set_takeWhileD[of _ "\<lambda>t. t < cutoff" q] by auto
  ultimately show "holds_window hs (dropWhile (\<lambda>t. t < cutoff) q) cutoff now"
    using assms unfolding holds_window_def by blast
  have "filter (\<lambda>t. cutoff \<le> t) old = []" using old(2) by (auto simp: filter_empty_conv not_le)
  moreover have "sorted q" using s old(1) by (simp add: sorted_append)
  ultimately show "dropWhile (\<lambda>t. t < cutoff) q = filter (\<lambda>t. cutoff \<le> t) hs"
    by (simp add: old(1) sorted_dropWhile_filter)
qed

lemma holds_window_add: "holds_window hs q cutoff now \<Longrightarrow> holds_window (hs @ [now]) (q @ [now]) cutoff now"
  by (auto simp: holds_window_def sorted_append)

definition roomy :: "limiter \<Rightarrow> string set \<Rightarrow> bool" where
  "roomy lm keys \<longleftrightarrow> distinct (map fst (lm_hits lm)) \<and> set (map fst (lm_hits lm)) \<subseteq> keys \<and> finite keys \<and>
     int (card keys) \<le> lm_max_keys lm"

lemma touch_key_roomy:
  assumes "roomy lm keys" and "key \<in> keys"
  shows "touch_key lm key = Inr (AList.delete key (lm_hits lm), deque_of lm key)"
proof (cases "map_of (lm_hits lm) key")
  case None
  then have n: "key \<notin> set (map fst (lm_hits lm))" by (simp add: map_of_eq_None_iff)
  have "card (set (map fst (lm_hits lm))) < card keys"
    using assms n by (intro psubset_card_mono) (auto simp: roomy_def)
  moreover have "card (set (map fst (lm_hits lm))) = length (map fst (lm_hits lm))"
    using assms(1) by (intro distinct_card) (simp add: roomy_def)
  ultimately have "int (length (lm_hits lm)) < lm_max_keys lm"
    using assms(1) by (simp add: roomy_def)
  moreover have "AList.delete key (lm_hits lm) = lm_hits lm" using n by simp
  ultimately show ?thesis using None by (simp add: touch_key_def deque_of_def)
qed (simp add: touch_key_def deque_of_def)

lemma deque_of_moved:
  "deque_of (lm\<lparr>lm_hits := AList.delete key (lm_hits lm) @ [(key, q)]\<rparr>) k = (if k = key then q else deque_of lm k)"
  by (auto simp: deque_of_def map_of_append map_add_def delete_conv' split: option.splits)

lemma allow_step:
  assumes r: "roomy lm keys" and k: "key \<in> keys" and m: "remembers fl rule_of lm past now0" and t: "now0 \<le> now"
    and mono: "mono fl" and w: "rule = rule_of key"
  defines "b \<equiv> int (window_count fl past (key, rule, now)) < ru_max rule"
  shows "\<exists>lm'. limiter_allow fl lm key rule now = Inr (lm', b) \<and> roomy lm' keys \<and>
    remembers fl rule_of lm' (if b then past @ [(key, now)] else past) now"
proof -
  let ?cut = "\<lambda>x. fl (now - ru_window (rule_of x))"
  have h: "holds_window (hits_of past x) (deque_of lm x) (?cut x) now" for x
  proof (rule holds_window_later)
    show "holds_window (hits_of past x) (deque_of lm x) (fl (now0 - ru_window (rule_of x))) now0"
      using m by (simp add: remembers_def)
    show "fl (now0 - ru_window (rule_of x)) \<le> ?cut x" using t by (intro monoD[OF mono]) simp
  qed (rule t)
  let ?q1 = "dropWhile (\<lambda>t. t < ?cut key) (deque_of lm key)"
  have n: "window_count fl past (key, rule, now) = length ?q1"
    by (simp add: window_count_hits w holds_window_drop(2)[OF h])
  let ?lm = "lm\<lparr>lm_hits := AList.delete key (lm_hits lm) @ [(key, if b then ?q1 @ [now] else ?q1)]\<rparr>"
  have "limiter_allow fl lm key rule now = Inr (?lm, b)"
    using n by (simp add: limiter_allow_def touch_key_roomy[OF r k] Let_def b_def w)
  moreover have "roomy ?lm keys"
    using r k by (auto simp: roomy_def delete_keys distinct_removeAll)
  moreover have "remembers fl rule_of ?lm (if b then past @ [(key, now)] else past) now"
    using h holds_window_drop(1)[OF h, of key] holds_window_add[OF holds_window_drop(1)[OF h, of key]]
    by (simp add: remembers_def deque_of_moved hits_of_snoc)
  ultimately show ?thesis by blast
qed

lemma allow_all_sliding:
  assumes "roomy lm keys" and "remembers fl rule_of lm past now" and "mono fl"
    and "fst ` set cs \<subseteq> keys" and "sorted (now # map (\<lambda>c. snd (snd c)) cs)"
    and "\<forall>(k, r, t) \<in> set cs. r = rule_of k"
  shows "\<exists>lm'. allow_all fl lm cs = Inr (lm', sliding_window fl past cs)"
  using assms
proof (induction cs arbitrary: lm past now)
  case Nil
  then show ?case by simp
next
  case (Cons c cs)
  obtain key rule t where c: "c = (key, rule, t)" by (cases c) auto
  let ?b = "int (window_count fl past (key, rule, t)) < ru_max rule"
  obtain lm' where lm': "limiter_allow fl lm key rule t = Inr (lm', ?b)" "roomy lm' keys"
      "remembers fl rule_of lm' (if ?b then past @ [(key, t)] else past) t"
    using allow_step[OF Cons.prems(1) _ Cons.prems(2) _ Cons.prems(3), of key t rule] Cons.prems(4-6) by (auto simp: c)
  from Cons.IH[OF lm'(2,3) Cons.prems(3)] Cons.prems(4-6)
  obtain lm'' where "allow_all fl lm' cs = Inr (lm'', sliding_window fl (if ?b then past @ [(key, t)] else past) cs)"
    by (auto simp: c)
  then show ?case using lm'(1) by (simp add: c Let_def)
qed

text \<open>C35: while no more distinct keys are used than the limiter has room for (a key is a caller's address and the path
  it asks for, so one caller has a key for each path), it is an exact sliding window: with a clock that does not run
  backwards, one rule for each key and every monotone rounding of the cut-off time, it decides each call exactly as the
  reference that remembers every accepted hit for ever and counts those of the same key inside the window, and it
  never raises.\<close>

theorem limiter_is_sliding_window:
  assumes "mono fl" and "sorted (map (\<lambda>c. snd (snd c)) cs)" and "\<forall>(k, r, t) \<in> set cs. r = rule_of k"
    and "int (card (fst ` set cs)) \<le> max_keys"
  shows "\<exists>lm. allow_all fl (new_limiter max_keys) cs = Inr (lm, sliding_window fl [] cs)"
proof (cases cs)
  case (Cons c cs')
  have "remembers fl rule_of (new_limiter max_keys) [] (snd (snd c))"
    by (simp add: remembers_def holds_window_def hits_of_def deque_of_def new_limiter_def)
  then show ?thesis
    using allow_all_sliding[of "new_limiter max_keys" "fst ` set cs" fl rule_of "[]" "snd (snd c)" cs] assms Cons
    by (auto simp: roomy_def new_limiter_def)
qed simp

theorem limiter_is_sliding_window_witness:
  "\<exists>lm. allow_all (\<lambda>x. x) (new_limiter 2) (map (\<lambda>(k, t). (k, \<lparr>ru_window = 10, ru_max = 2\<rparr>, t))
      [(''a'', 0), (''a'', 1), (''b'', 2), (''a'', 3), (''a'', 11)]) = Inr (lm, [True, True, True, False, True])"
  using limiter_is_sliding_window[of "\<lambda>x. x" "map (\<lambda>(k, t). (k, \<lparr>ru_window = 10, ru_max = 2\<rparr>, t))
      [(''a'', 0), (''a'', 1), (''b'', 2), (''a'', 3), (''a'', 11)]" "\<lambda>k. \<lparr>ru_window = 10, ru_max = 2\<rparr>" 2]
  by (simp add: monoI window_count_def card_insert_if)

section \<open>The limiter's memory is bounded\<close>

definition limiter_bounded :: "limiter \<Rightarrow> nat \<Rightarrow> bool" where
  "limiter_bounded lm m \<longleftrightarrow> distinct (map fst (lm_hits lm)) \<and> int (length (lm_hits lm)) \<le> lm_max_keys lm \<and>
     (\<forall>(k, q) \<in> set (lm_hits lm). length q \<le> m)"

lemma limiter_allow_bounded:
  assumes "limiter_bounded lm m" and "1 \<le> lm_max_keys lm" and "ru_max rule \<le> int m"
  shows "\<exists>lm' b. limiter_allow fl lm key rule now = Inr (lm', b) \<and> limiter_bounded lm' m \<and> lm_max_keys lm' = lm_max_keys lm"
proof -
  have "\<exists>others q. touch_key lm key = Inr (others, q) \<and> distinct (map fst others) \<and> key \<notin> set (map fst others) \<and>
      int (length others) < lm_max_keys lm \<and> length q \<le> m \<and> (\<forall>(k, q) \<in> set others. length q \<le> m)"
  proof (cases "map_of (lm_hits lm) key")
    case None
    then have "key \<notin> fst ` set (lm_hits lm)" by (simp add: map_of_eq_None_iff)
    then show ?thesis using assms None
      by (cases "lm_hits lm") (auto simp: touch_key_def limiter_bounded_def)
  next
    case (Some q)
    then have e: "(key, q) \<in> set (lm_hits lm)" by (rule map_of_SomeD)
    then obtain xs ys where l: "lm_hits lm = xs @ (key, q) # ys" by (meson split_list)
    have "key \<notin> fst ` set xs" "key \<notin> fst ` set ys" using assms(1) l by (auto simp: limiter_bounded_def)
    then have "AList.delete key (lm_hits lm) = xs @ ys"
      by (simp add: l AList.delete_eq) (force intro!: filter_True arg_cong2[where f = append])
    then show ?thesis using assms Some l by (auto simp: touch_key_def limiter_bounded_def)
  qed
  then obtain others q where t: "touch_key lm key = Inr (others, q)" "distinct (map fst others)" "key \<notin> set (map fst others)"
      "int (length others) < lm_max_keys lm" "length q \<le> m" "\<forall>(k, q) \<in> set others. length q \<le> m" by blast
  have "length (dropWhile P q) \<le> m" for P using t(5) length_dropWhile_le[of P q] by linarith
  then show ?thesis using t assms(3)
    by (auto simp: limiter_allow_def Let_def limiter_bounded_def)
qed

text \<open>The limiter's memory stays bounded and it never raises when it may keep at least one key:
  whatever keys, rules and times come in, whatever the rounding, there are at most \<open>max_keys\<close> deques, of
  distinct keys, none longer than the largest request limit.\<close>

theorem limiter_memory_bounded:
  assumes "1 \<le> max_keys" and "\<forall>(k, r, t) \<in> set cs. ru_max r \<le> int m"
  shows "\<exists>lm bs. allow_all fl (new_limiter max_keys) cs = Inr (lm, bs) \<and> length bs = length cs \<and>
    distinct (map fst (lm_hits lm)) \<and> int (length (lm_hits lm)) \<le> max_keys \<and> (\<forall>(k, q) \<in> set (lm_hits lm). length q \<le> m)"
proof -
  have "\<exists>lm' bs. allow_all fl lm cs = Inr (lm', bs) \<and> length bs = length cs \<and> limiter_bounded lm' m \<and> lm_max_keys lm' = max_keys"
    if "limiter_bounded lm m" "lm_max_keys lm = max_keys" for lm
    using assms(2) that
  proof (induction cs arbitrary: lm)
    case Nil
    then show ?case by simp
  next
    case (Cons c cs)
    obtain key rule t where c: "c = (key, rule, t)" by (cases c) auto
    obtain lm1 b where "limiter_allow fl lm key rule t = Inr (lm1, b)" "limiter_bounded lm1 m" "lm_max_keys lm1 = max_keys"
      using limiter_allow_bounded[of lm m rule fl key t] Cons.prems assms(1) by (auto simp: c)
    with Cons.IH[of lm1] Cons.prems(1) show ?case by (auto simp: c)
  qed
  from this[of "new_limiter max_keys"] assms(1) show ?thesis
    by (auto simp: new_limiter_def limiter_bounded_def)
qed

theorem limiter_memory_bounded_witness:
  "\<exists>lm bs. allow_all (\<lambda>x. x) (new_limiter 1) [(''a'', \<lparr>ru_window = 10, ru_max = 2\<rparr>, 0), (''b'', \<lparr>ru_window = 10, ru_max = 2\<rparr>, 1)]
      = Inr (lm, bs) \<and> length bs = 2 \<and> int (length (lm_hits lm)) \<le> 1"
  using limiter_memory_bounded[of 1 "[(''a'', \<lparr>ru_window = 10, ru_max = 2\<rparr>, 0), (''b'', \<lparr>ru_window = 10, ru_max = 2\<rparr>, 1)]" 2 "\<lambda>x. x"]
  by auto

text \<open>A limiter configured for no keys at all (\<open>VICTOR_RL_MAX_KEYS=0\<close>, or a negative number) answers
  every request to a limited path with an exception instead of a decision: it evicts from an empty
  dictionary. The other paths still pass.\<close>

theorem no_keys_raises:
  assumes "lm_max_keys (mw_limiter mw) \<le> 0" and "lm_hits (mw_limiter mw) = []"
  shows "dispatch fl env mw rq now =
    (if rq_path rq \<in> set HEAVY_PATHS \<union> set LIGHT_PATHS then Inl KeyError else Inr (mw, CallNext))"
  using assms by (simp add: dispatch_def path_rule_def limiter_allow_def touch_key_def)

definition demo_env :: environ where
  "demo_env = [''VICTOR_RL_MAX_KEYS'' \<mapsto> ''0'']"

lemma demo_middleware: "\<exists>mw. new_middleware fl demo_env = Inr mw \<and> lm_max_keys (mw_limiter mw) = 0 \<and> lm_hits (mw_limiter mw) = []"
proof -
  have n: "int_of_str (show_int 10) = Inr 10" "int_of_str (show_int 60) = Inr 60" "int_of_str ''0'' = Inr 0"
    "int_of_str (show_int 12) = Inr 12"  "int_of_str (show_int 90) = Inr 90"
    by code_simp+
  have f: "float_of_int fl 10 = Inr (fl 10)" "float_of_int fl 60 = Inr (fl 60)" by (simp_all add: float_of_int_def)
  show ?thesis by (simp add: new_middleware_def env_int_def demo_env_def n f new_limiter_def)
qed

theorem no_keys_raises_witness:
  "\<exists>mw. new_middleware (\<lambda>x. x) demo_env = Inr mw \<and>
     dispatch (\<lambda>x. x) demo_env mw \<lparr>rq_path = ''/api/state'', rq_header = (\<lambda>h. None), rq_client = None\<rparr> 1 = Inl KeyError"
proof -
  obtain mw where mw: "new_middleware (\<lambda>x. x) demo_env = Inr mw" "lm_max_keys (mw_limiter mw) \<le> 0" "lm_hits (mw_limiter mw) = []"
    using demo_middleware[of "\<lambda>x. x"] by auto
  from no_keys_raises[OF mw(2,3), of "\<lambda>x. x" demo_env "\<lparr>rq_path = ''/api/state'', rq_header = (\<lambda>h. None), rq_client = None\<rparr>" 1]
  show ?thesis using mw(1) by (simp add: HEAVY_PATHS_def LIGHT_PATHS_def)
qed

section \<open>Keys of the middleware\<close>

lemma limited_path_no_colon: "path \<in> set HEAVY_PATHS \<union> set LIGHT_PATHS \<Longrightarrow> CHR '':'' \<notin> set path"
  by (auto simp: HEAVY_PATHS_def LIGHT_PATHS_def)

lemma rate_key_parts:
  assumes "CHR '':'' \<notin> set path"
  shows "takeWhile (\<lambda>c. c \<noteq> CHR '':'') (rev (rate_key ip path)) = rev path"
proof -
  have "takeWhile (\<lambda>c. c \<noteq> CHR '':'') (rev path @ CHR '':'' # rev ip) = rev path @ takeWhile (\<lambda>c. c \<noteq> CHR '':'') (CHR '':'' # rev ip)"
    using assms by (intro takeWhile_append2) auto
  then show ?thesis by (simp add: rate_key_def)
qed

text \<open>The counters of different clients and of different limited paths never mix: two limiter keys
  are equal only for the same client and the same path, even when the client name came out of a proxy
  header and contains colons or slashes.\<close>

theorem rate_key_injective:
  assumes "p1 \<in> set HEAVY_PATHS \<union> set LIGHT_PATHS" and "p2 \<in> set HEAVY_PATHS \<union> set LIGHT_PATHS"
  shows "rate_key ip1 p1 = rate_key ip2 p2 \<longleftrightarrow> ip1 = ip2 \<and> p1 = p2"
proof
  assume e: "rate_key ip1 p1 = rate_key ip2 p2"
  have "rev p1 = rev p2"
    using rate_key_parts[OF limited_path_no_colon[OF assms(1)], of ip1]
      rate_key_parts[OF limited_path_no_colon[OF assms(2)], of ip2] e by simp
  then show "ip1 = ip2 \<and> p1 = p2" using e by (simp add: rate_key_def)
qed simp

theorem rate_key_injective_witness:
  "rate_key ''10.0.0.1:/api/state'' ''/api/state'' \<noteq> rate_key ''10.0.0.1'' ''/api/admin/state''"
  by (subst rate_key_injective) (simp_all add: LIGHT_PATHS_def)

section \<open>Nothing cached outlives its block\<close>

datatype 'v cache_op = ResetBlock int int | PutKey string 'v

fun cache_run :: "'v block_cache \<Rightarrow> 'v cache_op list \<Rightarrow> 'v block_cache" where
  "cache_run c [] = c"
| "cache_run c (ResetBlock ch b # ops) = cache_run (reset_if_new_block ch b c) ops"
| "cache_run c (PutKey k v # ops) = cache_run (cache_set k v c) ops"

text \<open>The reference: a store per block, of which only the current one is read.\<close>

fun block_of :: "(int \<times> int) option \<Rightarrow> 'v cache_op list \<Rightarrow> (int \<times> int) option" where
  "block_of cur [] = cur"
| "block_of cur (ResetBlock ch b # ops) = block_of (Some (ch, b)) ops"
| "block_of cur (PutKey k v # ops) = block_of cur ops"

text \<open>The puts after the last change of block, latest first.\<close>

fun fresh_puts :: "(int \<times> int) option \<Rightarrow> (string \<times> 'v) list \<Rightarrow> 'v cache_op list \<Rightarrow> (string \<times> 'v) list" where
  "fresh_puts cur puts [] = puts"
| "fresh_puts cur puts (ResetBlock ch b # ops) = fresh_puts (Some (ch, b)) (if cur = Some (ch, b) then puts else []) ops"
| "fresh_puts cur puts (PutKey k v # ops) = fresh_puts cur ((k, v) # puts) ops"

lemma cache_run_fresh:
  assumes "\<And>k. cache_get c k = map_of puts k" and "bc_key c = cur"
  shows "cache_get (cache_run c ops) key = map_of (fresh_puts cur puts ops) key \<and> bc_key (cache_run c ops) = block_of cur ops"
  using assms
proof (induction ops arbitrary: c cur puts)
  case Nil
  then show ?case by simp
next
  case (Cons op ops)
  show ?case
  proof (cases op)
    case (ResetBlock ch b)
    show ?thesis unfolding ResetBlock cache_run.simps fresh_puts.simps block_of.simps
      using Cons.prems by (intro Cons.IH) (auto simp: reset_if_new_block_def cache_get_def)
  next
    case (PutKey k v)
    show ?thesis unfolding PutKey cache_run.simps fresh_puts.simps block_of.simps
      using Cons.prems by (intro Cons.IH) (auto simp: cache_set_def cache_get_def update_conv')
  qed
qed

text \<open>The per-block cache never serves a value of another block: after any sequence of resets and
  puts, a lookup gives the latest value put under the key since the cache last moved to a different
  (chain, block), and nothing when there is none; a reset to the same block keeps the entries.\<close>

theorem cache_never_stale:
  "cache_get (cache_run new_cache ops) key = map_of (fresh_puts None [] ops) key \<and>
   bc_key (cache_run new_cache ops) = block_of None ops"
  by (rule cache_run_fresh) (simp_all add: new_cache_def cache_get_def)

end
