(* ===== verification/Trade_Safety.thy ===== *)
theory Trade_Safety
  imports Py_Prelude
begin

text \<open>
  \<open>safety.py\<close>: the after-cost gate every trade passes: does the output repay the flash loan, and is
  what remains after fee and gas above the configured minimums.
\<close>

record safety_result =
  sr_ok :: bool
  sr_reason :: string
  sr_profit_after_costs :: int
  sr_flashloan_fee :: int
  sr_gas_cost :: int
  sr_gas_cost_profit_token :: int
  sr_economic_profit :: int

definition compute_flashloan_fee :: "int \<Rightarrow> int \<Rightarrow> int" where
  "compute_flashloan_fee amount_in fee_bps = (amount_in * fee_bps) div 10000"

definition effective_gas_cost :: "int \<Rightarrow> int option \<Rightarrow> int" where
  "effective_gas_cost gas_cost gas_cost_profit_token =
     (case gas_cost_profit_token of Some g \<Rightarrow> max 0 g | None \<Rightarrow> max 0 gas_cost)"

definition check_profit_and_repay :: "int \<Rightarrow> int \<Rightarrow> int \<Rightarrow> int \<Rightarrow> int \<Rightarrow> int \<Rightarrow> int option \<Rightarrow> safety_result" where
  "check_profit_and_repay amount_in amount_out min_profit_abs min_profit_bps fee_bps gas_cost gas_cost_profit_token =
     (let flash_fee = compute_flashloan_fee amount_in fee_bps;
          gas = effective_gas_cost gas_cost gas_cost_profit_token;
          repay = amount_in + flash_fee;
          gross = amount_out - amount_in;
          net = gross - flash_fee - gas;
          result = (\<lambda>ok reason profit. \<lparr>sr_ok = ok, sr_reason = reason, sr_profit_after_costs = profit,
            sr_flashloan_fee = flash_fee, sr_gas_cost = gas_cost, sr_gas_cost_profit_token = gas, sr_economic_profit = net\<rparr>)
      in if amount_out < repay then result False ''does_not_repay_flashloan'' (- 1)
         else if net \<le> 0 then result False ''profit_after_costs_not_positive'' net
         else if net < min_profit_abs then result False ''minProfitAbs_not_met'' net
         else if min_profit_bps > 0 \<and> net * 10000 < amount_in * min_profit_bps
         then result False ''minProfitBps_not_met'' net
         else result True ''ok'' net)"

section \<open>Properties\<close>

text \<open>The gate is exact: a trade passes if and only if its output repays principal and fee, the
  profit after fee and gas is positive and at least the absolute minimum, and (when a relative minimum
  is set) at least that share of the amount; a passing result reports exactly this profit, and a result
  reports the true economics even when it refuses.\<close>

theorem profit_gate_exact:
  "let r = check_profit_and_repay a out min_abs min_bps fee_bps gas gas_token;
       fee = compute_flashloan_fee a fee_bps; net = out - a - fee - effective_gas_cost gas gas_token
   in (sr_ok r \<longleftrightarrow> a + fee \<le> out \<and> 0 < net \<and> min_abs \<le> net \<and> (min_bps \<le> 0 \<or> a * min_bps \<le> net * 10000)) \<and>
      (sr_ok r \<longrightarrow> sr_profit_after_costs r = net \<and> sr_reason r = ''ok'') \<and>
      (\<not> sr_ok r \<longrightarrow> sr_reason r \<noteq> ''ok'') \<and> sr_economic_profit r = net \<and> sr_flashloan_fee r = fee"
  by (auto simp: check_profit_and_repay_def Let_def)

theorem profit_gate_exact_witness:
  "sr_profit_after_costs (check_profit_and_repay 10000 10100 1 10 9 5 None) = 86"
proof -
  have "sr_ok (check_profit_and_repay 10000 10100 1 10 9 5 None)"
    by (simp add: check_profit_and_repay_def compute_flashloan_fee_def effective_gas_cost_def)
  with profit_gate_exact[of 10000 10100 1 10 9 5 None] show ?thesis
    by (simp add: compute_flashloan_fee_def effective_gas_cost_def Let_def)
qed

text \<open>The gate is monotone: a trade that passes still passes with more output, with less gas or with
  lower minimums.\<close>

theorem profit_gate_monotone:
  assumes "sr_ok (check_profit_and_repay a out min_abs min_bps fee_bps gas None)"
    and "out \<le> out'" and "gas' \<le> gas" and "min_abs' \<le> min_abs" and "0 \<le> a" and "min_bps' \<le> min_bps"
  shows "sr_ok (check_profit_and_repay a out' min_abs' min_bps' fee_bps gas' None)"
proof -
  let ?net = "out - a - compute_flashloan_fee a fee_bps - effective_gas_cost gas None"
  let ?net' = "out' - a - compute_flashloan_fee a fee_bps - effective_gas_cost gas' None"
  have le: "?net \<le> ?net'" using assms(2,3) by (simp add: effective_gas_cost_def)
  have ok: "a + compute_flashloan_fee a fee_bps \<le> out" "0 < ?net" "min_abs \<le> ?net" "min_bps \<le> 0 \<or> a * min_bps \<le> ?net * 10000"
    using assms(1) by (auto simp: check_profit_and_repay_def Let_def split: if_splits)
  have "min_bps' \<le> 0 \<or> a * min_bps' \<le> ?net' * 10000"
  proof (cases "min_bps' \<le> 0")
    case False
    then have "0 < min_bps" using assms(6) by simp
    with ok(4) have "a * min_bps \<le> ?net * 10000" by simp
    moreover have "a * min_bps' \<le> a * min_bps" using assms(5,6) by (rule mult_left_mono[rotated])
    ultimately show ?thesis using le by simp
  qed simp
  with le ok assms(2,4) show ?thesis
    by (auto simp: check_profit_and_repay_def Let_def)
qed

theorem profit_gate_monotone_witness:
  "sr_ok (check_profit_and_repay 10000 10200 1 10 9 5 None)"
  by (rule profit_gate_monotone[of 10000 10100 1 10 9 5])
     (simp_all add: check_profit_and_repay_def compute_flashloan_fee_def effective_gas_cost_def)

end
