(* ===== verification/Withdraw_Progress.thy ===== *)
theory Withdraw_Progress
  imports Withdraw_Reconcile
begin

text \<open>
  The first half of \<open>runtime_services/withdraw_all_service.py\<close>: the saved state of the service, the
  progress of submitted withdrawals (status ranks, merging a refreshed assessment into an item, the
  outcome of a batch, the lifecycle summary), the bookkeeping of refresh failures with their decay, and
  the refresh of a submitted batch. The state file is written by this service only, with the keys of
  \<open>_default_state\<close>, so the loaded dictionary is a record whose fields have the types of the defaults;
  \<open>str(x or "")\<close> and \<open>int(x or 0)\<close> of a field are then the field itself. Items and results stay
  dictionaries; the items of a result are a list wherever they are present.
\<close>

section \<open>State\<close>

record wa_state =
  wa_enabled :: bool
  wa_approved :: string
  wa_pending :: string
  wa_preview_id :: string
  wa_preview_digest :: string
  wa_preview_ts :: int
  wa_status :: string
  wa_reason :: string
  wa_result :: pydict
  wa_executed_id :: string
  wa_executed_result :: pydict
  wa_refresh_ts :: int
  wa_refresh_status :: string
  wa_refresh_reason :: string
  wa_failure_ts :: int
  wa_failure_reason :: string
  wa_failure_count :: int
  wa_updated :: int

definition wa_default_state :: wa_state where
  "wa_default_state = \<lparr>wa_enabled = False, wa_approved = [], wa_pending = [], wa_preview_id = [],
     wa_preview_digest = [], wa_preview_ts = 0, wa_status = ''idle'', wa_reason = ''not_configured'',
     wa_result = [], wa_executed_id = [], wa_executed_result = [], wa_refresh_ts = 0,
     wa_refresh_status = ''idle'', wa_refresh_reason = ''never_checked'', wa_failure_ts = 0,
     wa_failure_reason = [], wa_failure_count = 0, wa_updated = 0\<rparr>"

text \<open>The dictionary the answers spread into their own keys (\<open>**state\<close>).\<close>

definition state_dict :: "wa_state \<Rightarrow> pydict" where
  "state_dict s =
     [(''enabled'', PBool (wa_enabled s)), (''approved_destination'', PStr (wa_approved s)),
      (''pending_destination'', PStr (wa_pending s)), (''last_preview_id'', PStr (wa_preview_id s)),
      (''last_preview_digest'', PStr (wa_preview_digest s)), (''last_preview_ts_ms'', PInt (wa_preview_ts s)),
      (''last_status'', PStr (wa_status s)), (''last_reason_code'', PStr (wa_reason s)),
      (''last_result'', PDict (wa_result s)), (''last_executed_preview_id'', PStr (wa_executed_id s)),
      (''last_executed_result'', PDict (wa_executed_result s)), (''last_result_refresh_ts_ms'', PInt (wa_refresh_ts s)),
      (''last_result_refresh_status'', PStr (wa_refresh_status s)),
      (''last_result_refresh_reason_code'', PStr (wa_refresh_reason s)),
      (''last_result_refresh_failure_ts_ms'', PInt (wa_failure_ts s)),
      (''last_result_refresh_failure_reason_code'', PStr (wa_failure_reason s)),
      (''last_result_refresh_failure_count'', PInt (wa_failure_count s)), (''updated_ts_ms'', PInt (wa_updated s))]"

section \<open>Progress of a transaction\<close>

definition TX_STATUS_RANK :: "(string \<times> nat) list" where
  "TX_STATUS_RANK = [([], 0), (''receipt_unavailable'', 1), (''sent'', 2), (''pending'', 3),
     (''mined_reverted'', 4), (''mined_success'', 4)]"

definition tx_status_rank :: "string \<Rightarrow> nat" where
  "tx_status_rank value = (case map_of TX_STATUS_RANK value of None \<Rightarrow> 0 | Some n \<Rightarrow> n)"

definition REFRESHABLE_TX_STATUSES :: "string list" where
  "REFRESHABLE_TX_STATUSES = [''pending'', ''sent'', ''receipt_unavailable'']"

definition item_status :: "pydict \<Rightarrow> string" where
  "item_status item = str_or_empty (dget item ''tx_status'')"

definition merge_tx_progress :: "pydict \<Rightarrow> submitted_tx \<Rightarrow> pydict" where
  "merge_tx_progress existing refreshed =
     (if tx_status_rank (st_status refreshed) < tx_status_rank (item_status existing) then existing
      else let merged = dupdate existing (submitted_tx_status_payload refreshed) in
        if st_hash refreshed \<noteq> [] then dset merged ''tx_hash'' (PStr (st_hash refreshed)) else merged)"

text \<open>
  Python's \<open>==\<close> on values: numbers by value (a bool is 0 or 1), dictionaries as mappings, whatever their
  order. Floats are equal when they are the same dyadic rational; a nan equals nothing.
\<close>

definition num_of :: "pyval \<Rightarrow> (int \<times> nat) option" where
  "num_of v = (case v of PBool b \<Rightarrow> Some (if b then 1 else 0, 0) | PInt i \<Rightarrow> Some (i, 0)
     | PFloat (FFin m k r) \<Rightarrow> Some (m, k) | _ \<Rightarrow> None)"

definition num_eq :: "pyval \<Rightarrow> pyval \<Rightarrow> bool" where
  "num_eq v w = (case (num_of v, num_of w) of
       (Some (m, k), Some (n, l)) \<Rightarrow> m * 2 ^ l = n * 2 ^ k
     | _ \<Rightarrow> (case (v, w) of (PFloat (FInf a), PFloat (FInf b)) \<Rightarrow> a = b | _ \<Rightarrow> False))"

lemma size_pyval_elem: "(k, v) \<in> set d \<Longrightarrow> size v < size (PDict d)" "x \<in> set xs \<Longrightarrow> size x < size (PList xs)"
proof -
  assume "(k, v) \<in> set d"
  then show "size v < size (PDict d)" by (induction d) auto
next
  assume "x \<in> set xs"
  then show "size x < size (PList xs)" by (induction xs) auto
qed

function (sequential) py_eq :: "pyval \<Rightarrow> pyval \<Rightarrow> bool" where
  "py_eq (PDict d) (PDict e) =
     (length d = length e \<and>
      list_all (\<lambda>(k, v). case map_of e k of None \<Rightarrow> False | Some w \<Rightarrow> py_eq v w) d)"
| "py_eq (PList xs) (PList ys) = (length xs = length ys \<and> list_all (\<lambda>(x, y). py_eq x y) (zip xs ys))"
| "py_eq (PStr s) (PStr t) = (s = t)"
| "py_eq PNone PNone = True"
| "py_eq v w = num_eq v w"
  by pat_completeness auto

termination
  by (relation "measure (\<lambda>(v, w). size v)") (auto dest!: size_pyval_elem dest: set_zip_leftD[THEN size_pyval_elem(2)])

definition PROGRESS_KEYS :: "string list" where
  "PROGRESS_KEYS = [''tx_status'', ''tx_proof_reason'', ''receipt_status'', ''block_number'', ''receipt'']"

definition item_status_changed :: "pydict \<Rightarrow> pydict \<Rightarrow> bool" where
  "item_status_changed previous current =
     list_ex (\<lambda>k. \<not> py_eq (dget previous k) (dget current k)) PROGRESS_KEYS"

section \<open>Outcome of a batch\<close>

definition first_reverted_item :: "pydict list \<Rightarrow> pydict option" where
  "first_reverted_item items = find (\<lambda>i. item_status i = ''mined_reverted'') items"

definition submission_state :: "pydict list \<Rightarrow> string" where
  "submission_state items =
     (let states = distinct_texts (map item_status items) in
      if states = [] then ''sent'' else if length states = 1 then hd states else ''mixed'')"

definition submitted_result_status :: "pydict list \<Rightarrow> string \<times> string \<times> pydict" where
  "submitted_result_status items =
     (case first_reverted_item items of
        Some reverted \<Rightarrow>
          (''execute_failed'', ''receipt_reverted'',
           [(''ok'', PBool False), (''status'', PStr ''execute_failed''), (''reason_code'', PStr ''receipt_reverted''),
            (''failed_item'', PDict reverted)])
      | None \<Rightarrow>
          if items \<noteq> [] \<and> list_all (\<lambda>i. item_status i = ''mined_success'') items
          then (''completed'', ''ok'', [(''ok'', PBool True), (''status'', PStr ''completed'')])
          else let proof = aggregate_submission_proof_reason (map PDict items) in
            (''submitted'', ''ok'',
             [(''ok'', PBool True), (''status'', PStr ''submitted''), (''submission_state'', PStr (submission_state items))]
             @ (if proof \<noteq> [] then [(''submission_proof_reason'', PStr proof)] else [])))"

definition item_status_counts :: "pydict list \<Rightarrow> (string \<times> int) list" where
  "item_status_counts items =
     fold (\<lambda>item counts. let status = item_status item in
             if status = [] then counts
             else AList.update status ((case map_of counts status of None \<Rightarrow> 0 | Some n \<Rightarrow> n) + 1) counts)
       items []"

definition count_of :: "(string \<times> int) list \<Rightarrow> string \<Rightarrow> int" where
  "count_of counts status = (case map_of counts status of None \<Rightarrow> 0 | Some n \<Rightarrow> n)"

definition result_items :: "pydict \<Rightarrow> pydict list" where
  "result_items result = (case dget result ''items'' of PList xs \<Rightarrow> map as_dict (filter is_mapping xs) | _ \<Rightarrow> [])"

text \<open>A failed item counts once, also when it is one of the items.\<close>

definition failed_counted :: "pydict \<Rightarrow> pydict list \<Rightarrow> bool" where
  "failed_counted failed items =
     (let h = str_or_empty (dget failed ''tx_hash'') in
      failed \<noteq> [] \<and> h \<noteq> [] \<and> list_ex (\<lambda>i. str_or_empty (dget i ''tx_hash'') = h) items)"

definition lifecycle_counts :: "pydict \<Rightarrow> pydict list \<Rightarrow> (string \<times> int) list" where
  "lifecycle_counts failed items =
     (let counts = item_status_counts items; status = item_status failed in
      if status \<noteq> [] \<and> \<not> failed_counted failed items
      then AList.update status (count_of counts status + 1) counts else counts)"

definition lifecycle_summary :: "pydict \<Rightarrow> string \<Rightarrow> string \<Rightarrow> pydict" where
  "lifecycle_summary result fallback_status fallback_reason =
     (let items = result_items result; failed = as_dict (dget result ''failed_item'');
          counts = lifecycle_counts failed items; failed_hash = str_or_empty (dget failed ''tx_hash'');
          summary_status = str_or_empty (por (dget result ''status'') (PStr fallback_status));
          stated = str_or_empty (dget result ''submission_proof_reason'');
          proof = (if stated \<noteq> [] then stated else aggregate_submission_proof_reason (map PDict items)) in
      [(''status'', PStr summary_status),
       (''reason_code'', PStr (str_or_empty (por (dget result ''reason_code'') (PStr fallback_reason)))),
       (''submission_state'', PStr (str_or_empty (dget result ''submission_state''))),
       (''item_count'', PInt (int (length items))),
       (''attempted_item_count'',
        PInt (int (length items) + (if failed \<noteq> [] \<and> \<not> failed_counted failed items then 1 else 0))),
       (''confirmed_item_count'', PInt (count_of counts ''mined_success'')),
       (''outstanding_item_count'',
        PInt (count_of counts ''pending'' + count_of counts ''sent'' + count_of counts ''receipt_unavailable'')),
       (''reverted_item_count'', PInt (count_of counts ''mined_reverted'')),
       (''failed_item_count'', PInt (if failed \<noteq> [] then 1 else 0)),
       (''item_status_counts'', PDict (map (\<lambda>(k, n). (k, PInt n)) counts))]
      @ (if summary_status = ''submitted'' \<and> failed = [] \<and> proof \<noteq> [] then [(''submission_proof_reason'', PStr proof)] else [])
      @ (if failed_hash \<noteq> [] then [(''failed_tx_hash'', PStr failed_hash)] else []))"

definition attach_lifecycle_summary :: "pydict \<Rightarrow> string \<Rightarrow> string \<Rightarrow> pydict" where
  "attach_lifecycle_summary result fallback_status fallback_reason =
     dset result ''lifecycle_summary'' (PDict (lifecycle_summary result fallback_status fallback_reason))"

section \<open>Refresh metadata and failures\<close>

definition STATE_REFRESH_TTL_MS :: int where
  "STATE_REFRESH_TTL_MS = 10 * 1000"

definition REFRESH_FAILURE_DECAY_INTERVAL_MS :: int where
  "REFRESH_FAILURE_DECAY_INTERVAL_MS = 60 * 1000"

definition normalize_refresh_failure_reason :: "string \<Rightarrow> string" where
  "normalize_refresh_failure_reason code =
     (let normalized = lower (strip code) in
      if normalized = [] then []
      else if normalized \<in> {''read_rpc_unavailable'', ''refresh_read_rpc_missing''} then ''refresh_read_rpc_missing''
      else if normalized \<in> {''receipt_lookup_degraded'', ''refresh_receipt_lookup_degraded''}
      then ''refresh_receipt_lookup_degraded''
      else normalized)"

definition refresh_failure_severity :: "int \<Rightarrow> string \<Rightarrow> string" where
  "refresh_failure_severity count code =
     (if count \<le> 0 \<or> normalize_refresh_failure_reason code = [] then ''none''
      else if 4 \<le> count then ''severe'' else if 2 \<le> count then ''repeated'' else ''transient'')"

definition apply_refresh_metadata :: "int \<Rightarrow> string \<Rightarrow> string \<Rightarrow> wa_state \<Rightarrow> wa_state" where
  "apply_refresh_metadata ts status reason s =
     s\<lparr>wa_refresh_ts := ts, wa_refresh_status := or_text status ''idle'', wa_refresh_reason := reason\<rparr>"

definition refresh_metadata_changed :: "int \<Rightarrow> string \<Rightarrow> string \<Rightarrow> wa_state \<Rightarrow> bool" where
  "refresh_metadata_changed ts status reason s =
     (wa_refresh_ts s \<noteq> ts \<or> or_text (wa_refresh_status s) ''idle'' \<noteq> or_text status ''idle'' \<or> wa_refresh_reason s \<noteq> reason)"

definition apply_refresh_failure :: "int \<Rightarrow> string \<Rightarrow> wa_state \<Rightarrow> wa_state" where
  "apply_refresh_failure ts code s =
     (let reason = normalize_refresh_failure_reason code;
          previous = normalize_refresh_failure_reason (wa_failure_reason s) in
      s\<lparr>wa_failure_ts := ts, wa_failure_reason := reason,
        wa_failure_count :=
          (if reason \<noteq> [] \<and> reason = previous \<and> 0 < wa_failure_count s then wa_failure_count s + 1
           else if reason \<noteq> [] then 1 else 0)\<rparr>)"

definition clear_refresh_failure :: "wa_state \<Rightarrow> wa_state" where
  "clear_refresh_failure s = s\<lparr>wa_failure_ts := 0, wa_failure_reason := [], wa_failure_count := 0\<rparr>"

definition decay_refresh_failure :: "int \<Rightarrow> wa_state \<Rightarrow> wa_state \<times> bool" where
  "decay_refresh_failure now s =
     (let reason = normalize_refresh_failure_reason (wa_failure_reason s);
          count = wa_failure_count s; ts = wa_failure_ts s in
      if reason = [] \<or> count \<le> 0 \<or> ts \<le> 0 then
        (if count \<noteq> 0 \<or> reason \<noteq> [] \<or> ts \<noteq> 0 then (clear_refresh_failure s, True) else (s, False))
      else let steps = max 0 (now - ts) div REFRESH_FAILURE_DECAY_INTERVAL_MS in
        if steps \<le> 0 then (s, False)
        else let applied = min count steps; remaining = count - applied in
          if remaining \<le> 0 then (clear_refresh_failure s, True)
          else (s\<lparr>wa_failure_count := remaining,
                  wa_failure_ts := ts + applied * REFRESH_FAILURE_DECAY_INTERVAL_MS\<rparr>, True))"

definition clear_refresh_metadata :: "wa_state \<Rightarrow> wa_state" where
  "clear_refresh_metadata s = apply_refresh_metadata 0 ''idle'' ''never_checked'' (clear_refresh_failure s)"

definition set_idle_refresh_metadata :: "string \<Rightarrow> wa_state \<Rightarrow> wa_state \<times> bool" where
  "set_idle_refresh_metadata reason s =
     (apply_refresh_metadata 0 ''idle'' reason (clear_refresh_failure s),
      refresh_metadata_changed 0 ''idle'' reason s \<or>
      0 < wa_failure_count s \<or> 0 < wa_failure_ts s \<or> wa_failure_reason s \<noteq> [])"

definition outstanding_count :: "pydict \<Rightarrow> int" where
  "outstanding_count result =
     (let counts = lifecycle_counts (as_dict (dget result ''failed_item'')) (result_items result) in
      count_of counts ''pending'' + count_of counts ''sent'' + count_of counts ''receipt_unavailable'')"

definition refresh_metadata_payload :: "bool \<Rightarrow> string \<Rightarrow> string \<Rightarrow> int \<Rightarrow> wa_state \<Rightarrow> pydict" where
  "refresh_metadata_payload performed status code now s =
     (let checked = wa_refresh_ts s; outstanding = outstanding_count (wa_result s);
          refreshable = (wa_status s = ''submitted'' \<and> 0 < outstanding);
          next_at = (if refreshable \<and> checked \<noteq> 0 then checked + STATE_REFRESH_TTL_MS else 0);
          reason = normalize_refresh_failure_reason (wa_failure_reason s); count = wa_failure_count s in
      [(''performed'', PBool performed), (''status'', PStr (or_text status ''skipped'')), (''reason_code'', PStr code),
       (''checked_ts_ms'', PInt checked), (''next_eligible_refresh_ts_ms'', PInt next_at),
       (''cooldown_ms'', PInt (if refreshable then STATE_REFRESH_TTL_MS else 0)), (''refreshable'', PBool refreshable),
       (''outstanding_item_count'', PInt outstanding),
       (''fresh'', PBool (refreshable \<and> checked \<noteq> 0 \<and> now < next_at)),
       (''failure_active'', PBool (0 < count \<and> reason \<noteq> [])), (''failure_reason_code'', PStr reason),
       (''failure_count'', PInt count), (''failure_ts_ms'', PInt (wa_failure_ts s)),
       (''failure_severity'', PStr (refresh_failure_severity count reason)),
       (''failure_decay_interval_ms'', PInt REFRESH_FAILURE_DECAY_INTERVAL_MS),
       (''failure_next_decay_ts_ms'',
        PInt (if 0 < count \<and> 0 < wa_failure_ts s \<and> reason \<noteq> []
              then wa_failure_ts s + REFRESH_FAILURE_DECAY_INTERVAL_MS else 0))])"

section \<open>The state file\<close>

text \<open>
  A write opens the file for writing first: when the opening fails the old contents stay, when the
  writing fails afterwards the file is left truncated and no longer parses.
\<close>

datatype wa_file = Absent | Unreadable | Saved wa_state

datatype save_outcome = Saves int | Refuses | Tears

definition load_state :: "wa_file \<Rightarrow> wa_state" where
  "load_state f = (case f of Absent \<Rightarrow> wa_default_state | Saved s \<Rightarrow> s
     | Unreadable \<Rightarrow> wa_default_state\<lparr>wa_status := ''degraded'', wa_reason := ''state_load_failed''\<rparr>)"

definition save_state :: "save_outcome \<Rightarrow> wa_state \<Rightarrow> wa_file \<Rightarrow> wa_file \<times> wa_state option" where
  "save_state outcome s f =
     (case outcome of
        Saves now \<Rightarrow> (Saved (s\<lparr>wa_updated := now\<rparr>), Some (s\<lparr>wa_updated := now\<rparr>))
      | Refuses \<Rightarrow> (f, None)
      | Tears \<Rightarrow> (Unreadable, None))"

text \<open>\<open>try: s = self._save(s) except WithdrawAllPersistenceError: pass\<close>\<close>

definition save_quietly :: "save_outcome \<Rightarrow> wa_state \<Rightarrow> wa_file \<Rightarrow> wa_file \<times> wa_state" where
  "save_quietly outcome s f =
     (case save_state outcome s f of (f', None) \<Rightarrow> (f', s) | (f', Some s') \<Rightarrow> (f', s'))"

section \<open>Refreshing a submitted batch\<close>

record refresh_env =
  fe_now :: int
  fe_save :: save_outcome
  fe_read_url :: string
  fe_send_mode :: string
  fe_rpc :: "nat \<Rightarrow> tx_rpc"

definition refreshable_item :: "pydict \<Rightarrow> bool" where
  "refreshable_item item =
     (is_tx_hash (PStr (str_or_empty (dget item ''tx_hash''))) \<and> item_status item \<in> set REFRESHABLE_TX_STATUSES)"

text \<open>The loop over the items, the \<open>k\<close>-th lookup answered by the \<open>k\<close>-th client; None when a lookup is degraded.\<close>

fun refresh_items :: "(nat \<Rightarrow> tx_rpc) \<Rightarrow> string \<Rightarrow> nat \<Rightarrow> pydict list \<Rightarrow> (pydict list \<times> bool) option res" where
  "refresh_items rpc mode k [] = Inr (Some ([], False))"
| "refresh_items rpc mode k (item # rest) =
     (if refreshable_item item then
        (case assess_submitted_tx (rpc k) (str_or_empty (dget item ''tx_hash'')) (PStr mode) of
           Inl e \<Rightarrow> Inl e
         | Inr st \<Rightarrow>
             if st_proof st = ''receipt_lookup_degraded'' then Inr None
             else (case refresh_items rpc mode (Suc k) rest of
               Inl e \<Rightarrow> Inl e | Inr None \<Rightarrow> Inr None
             | Inr (Some (items, changed)) \<Rightarrow>
                 let next_item = merge_tx_progress item st in
                 Inr (Some (next_item # items, item_status_changed item next_item \<or> changed))))
      else (case refresh_items rpc mode k rest of
              Inl e \<Rightarrow> Inl e | Inr None \<Rightarrow> Inr None
            | Inr (Some (items, changed)) \<Rightarrow> Inr (Some (item # items, item_status_changed item item \<or> changed))))"

definition refresh_idle :: "string \<Rightarrow> refresh_env \<Rightarrow> wa_state \<Rightarrow> wa_file \<Rightarrow> wa_file \<times> (wa_state \<times> pydict) res" where
  "refresh_idle reason env s f =
     (let (cleared, changed) = set_idle_refresh_metadata reason s;
          (f', s') = (if changed then save_quietly (fe_save env) cleared f else (f, cleared)) in
      (f', Inr (s', refresh_metadata_payload False ''skipped'' reason (fe_now env) s')))"

definition refresh_failed :: "string \<Rightarrow> refresh_env \<Rightarrow> wa_state \<Rightarrow> wa_file \<Rightarrow> wa_file \<times> (wa_state \<times> pydict) res" where
  "refresh_failed reason env s f =
     (let (f', s') = save_quietly (fe_save env)
            (apply_refresh_failure (fe_now env) reason (apply_refresh_metadata (fe_now env) ''skipped'' reason s)) f in
      (f', Inr (s', refresh_metadata_payload False ''skipped'' reason (fe_now env) s')))"

definition refreshed_result :: "pydict list \<Rightarrow> pydict \<Rightarrow> pydict" where
  "refreshed_result items result =
     (let (status, reason, payload) = submitted_result_status items;
          r1 = dset result ''items'' (PList (map PDict items));
          r2 = AList.delete ''reason_code'' (AList.delete ''submission_state'' (AList.delete ''failed_item'' r1)) in
      attach_lifecycle_summary (dupdate r2 payload) status reason)"

definition refreshed_state :: "pydict list \<Rightarrow> wa_state \<Rightarrow> wa_state" where
  "refreshed_state items s =
     (let (status, reason, payload) = submitted_result_status items; result = refreshed_result items (wa_result s) in
      s\<lparr>wa_status := status, wa_reason := reason, wa_result := result,
        wa_executed_result := (if wa_executed_id s \<noteq> [] then result else wa_executed_result s)\<rparr>)"

definition refresh_submitted_result_progress ::
    "refresh_env \<Rightarrow> wa_state \<Rightarrow> wa_file \<Rightarrow> wa_file \<times> (wa_state \<times> pydict) res" where
  "refresh_submitted_result_progress env s f =
     (let items = result_items (wa_result s) in
      if wa_status s \<noteq> ''submitted'' then refresh_idle ''not_submitted'' env s f
      else if items = [] then refresh_idle ''no_items'' env s f
      else if \<not> list_ex refreshable_item items then refresh_idle ''no_refreshable_transactions'' env s f
      else if wa_refresh_ts s \<noteq> 0 \<and> fe_now env - wa_refresh_ts s < STATE_REFRESH_TTL_MS
      then (f, Inr (s, refresh_metadata_payload False ''skipped'' ''refresh_cooldown_active'' (fe_now env) s))
      else if fe_read_url env = [] then refresh_failed ''refresh_read_rpc_missing'' env s f
      else case refresh_items (fe_rpc env) (fe_send_mode env) 0 items of
        Inl e \<Rightarrow> (f, Inl e)
      | Inr None \<Rightarrow> refresh_failed ''refresh_receipt_lookup_degraded'' env s f
      | Inr (Some (refreshed, changed)) \<Rightarrow>
          let s1 = clear_refresh_failure s; s2 = (if changed then refreshed_state refreshed s1 else s1);
              status = (if changed then ''refreshed_updated'' else ''refreshed_no_change'');
              (f', s3) = save_quietly (fe_save env) (apply_refresh_metadata (fe_now env) ''refreshed'' status s2) f in
          (f', Inr (s3, refresh_metadata_payload True ''refreshed'' status (fe_now env) s3)))"

section \<open>Properties\<close>

lemma distinct_status_payload: "distinct (map fst (submitted_tx_status_payload st))"
  by (auto simp: submitted_tx_status_payload_def split: option.splits)

lemma map_of_status_payload_None:
  "k \<notin> set PROGRESS_KEYS \<Longrightarrow> map_of (submitted_tx_status_payload st) k = None"
  by (auto simp: submitted_tx_status_payload_def PROGRESS_KEYS_def map_of_eq_None_iff split: option.splits)

text \<open>What a merge keeps and gains.\<close>

definition item_progressed :: "pydict \<Rightarrow> pydict \<Rightarrow> bool" where
  "item_progressed old new \<longleftrightarrow>
     tx_status_rank (item_status old) \<le> tx_status_rank (item_status new) \<and>
     (\<forall>k. k \<notin> set PROGRESS_KEYS \<longrightarrow> k \<noteq> ''tx_hash'' \<longrightarrow> dget new k = dget old k)"

lemma item_progressed_refl [simp]: "item_progressed d d"
  by (simp add: item_progressed_def)

lemma merge_progressed: "item_progressed item (merge_tx_progress item st)"
proof (cases "tx_status_rank (st_status st) < tx_status_rank (item_status item)")
  case True
  then show ?thesis by (simp add: merge_tx_progress_def)
next
  case False
  let ?m = "dupdate item (submitted_tx_status_payload st)"
  have s: "dget ?m ''tx_status'' = PStr (st_status st)"
    by (subst dget_dupdate[OF distinct_status_payload]) (simp add: submitted_tx_status_payload_def)
  have o: "dget ?m k = dget item k" if "k \<notin> set PROGRESS_KEYS" for k
    using map_of_status_payload_None[OF that] by (simp add: dget_dupdate[OF distinct_status_payload])
  from False s o show ?thesis
    by (auto simp: item_progressed_def merge_tx_progress_def Let_def item_status_def)
qed

lemma refresh_items_progress:
  "refresh_items rpc mode k items = Inr (Some (items', changed)) \<Longrightarrow> list_all2 item_progressed items items'"
proof (induction rpc mode k items arbitrary: items' changed rule: refresh_items.induct)
  case (2 rpc mode k item rest)
  show ?case
  proof (cases "refreshable_item item")
    case True
    with "2.prems" obtain st where st: "assess_submitted_tx (rpc k) (str_or_empty (dget item ''tx_hash'')) (PStr mode) = Inr st"
      "st_proof st \<noteq> ''receipt_lookup_degraded''"
      by (auto split: sum.splits if_splits)
    with True "2.prems" obtain items1 c1 where r: "refresh_items rpc mode (Suc k) rest = Inr (Some (items1, c1))"
      and i: "items' = merge_tx_progress item st # items1"
      by (auto simp: Let_def split: sum.splits option.splits prod.splits)
    from "2.IH"(1)[OF True st r] show ?thesis by (simp add: i merge_progressed)
  next
    case False
    with "2.prems" obtain items1 c1 where r: "refresh_items rpc mode k rest = Inr (Some (items1, c1))"
      and i: "items' = item # items1"
      by (auto split: sum.splits option.splits prod.splits)
    from "2.IH"(2)[OF False r] show ?thesis by (simp add: i)
  qed
qed simp

lemma result_status_exact:
  "fst (submitted_result_status items) =
     (if \<exists>i \<in> set items. item_status i = ''mined_reverted'' then ''execute_failed''
      else if items \<noteq> [] \<and> (\<forall>i \<in> set items. item_status i = ''mined_success'') then ''completed'' else ''submitted'')"
proof (cases "first_reverted_item items")
  case None
  then have "\<forall>i \<in> set items. item_status i \<noteq> ''mined_reverted''"
    by (auto simp: first_reverted_item_def find_None_iff)
  with None show ?thesis by (auto simp: submitted_result_status_def Let_def list_all_iff)
next
  case (Some i)
  then have "i \<in> set items \<and> item_status i = ''mined_reverted''"
    by (auto simp: first_reverted_item_def find_Some_iff)
  with Some show ?thesis by (auto simp: submitted_result_status_def)
qed

lemma result_status_iff:
  "fst (submitted_result_status items) = ''execute_failed'' \<longleftrightarrow> (\<exists>i \<in> set items. item_status i = ''mined_reverted'')"
  "fst (submitted_result_status items) = ''completed'' \<longleftrightarrow> items \<noteq> [] \<and> (\<forall>i \<in> set items. item_status i = ''mined_success'')"
  by (auto simp: result_status_exact)

text \<open>A state's failure fields survive any split of the elapsed time: decaying at \<open>t\<close> and again at \<open>u\<close>
  leaves what decaying once at \<open>u\<close> leaves.\<close>

lemma normalize_Nil [simp]: "normalize_refresh_failure_reason [] = []"
  by (simp add: normalize_refresh_failure_reason_def strip_def)

lemma decay_cleared [simp]: "fst (decay_refresh_failure now (clear_refresh_failure s)) = clear_refresh_failure s"
  by (simp add: decay_refresh_failure_def clear_refresh_failure_def)

lemma decay_clears:
  assumes "normalize_refresh_failure_reason (wa_failure_reason s) = [] \<or> wa_failure_count s \<le> 0 \<or> wa_failure_ts s \<le> 0"
  shows "fst (decay_refresh_failure now s) = s \<or> fst (decay_refresh_failure now s) = clear_refresh_failure s"
  using assms by (auto simp: decay_refresh_failure_def Let_def)

definition steps_between :: "int \<Rightarrow> int \<Rightarrow> int" where
  "steps_between ts now = max 0 (now - ts) div REFRESH_FAILURE_DECAY_INTERVAL_MS"

lemma steps_mono: "t \<le> u \<Longrightarrow> steps_between ts t \<le> steps_between ts u"
  by (auto simp: steps_between_def REFRESH_FAILURE_DECAY_INTERVAL_MS_def intro!: zdiv_mono1)

lemma steps_nonneg: "0 \<le> steps_between ts now"
  by (simp add: steps_between_def REFRESH_FAILURE_DECAY_INTERVAL_MS_def pos_imp_zdiv_nonneg_iff)

lemma steps_shift:
  assumes "0 < steps_between ts t" and "t \<le> u" and "p = steps_between ts t"
  shows "steps_between (ts + p * REFRESH_FAILURE_DECAY_INTERVAL_MS) u = steps_between ts u - p"
proof -
  let ?I = "REFRESH_FAILURE_DECAY_INTERVAL_MS"
  have I: "0 < ?I" by (simp add: REFRESH_FAILURE_DECAY_INTERVAL_MS_def)
  have pos: "0 < t - ts" using assms(1) by (cases "0 < t - ts") (auto simp: steps_between_def max_def split: if_splits)
  then have p: "p = (t - ts) div ?I" by (simp add: assms(3) steps_between_def)
  have "p * ?I \<le> t - ts"
    using div_mult_mod_eq[of "t - ts" ?I] pos_mod_sign[OF I, of "t - ts"] unfolding p by linarith
  then have "max 0 (u - (ts + p * ?I)) = max 0 (u - ts) + (- p) * ?I" using pos assms(2) by simp
  then show ?thesis using I div_mult_self1[of ?I "max 0 (u - ts)" "- p"] by (simp add: steps_between_def)
qed

lemma decay_live:
  assumes "normalize_refresh_failure_reason (wa_failure_reason s) \<noteq> []" and "0 < wa_failure_count s" and "0 < wa_failure_ts s"
  shows "fst (decay_refresh_failure now s) =
     (let k = steps_between (wa_failure_ts s) now in
      if k \<le> 0 then s else if wa_failure_count s \<le> k then clear_refresh_failure s
      else s\<lparr>wa_failure_count := wa_failure_count s - k,
             wa_failure_ts := wa_failure_ts s + k * REFRESH_FAILURE_DECAY_INTERVAL_MS\<rparr>)"
proof -
  have "\<not> (normalize_refresh_failure_reason (wa_failure_reason s) = [] \<or> wa_failure_count s \<le> 0 \<or> wa_failure_ts s \<le> 0)"
    using assms by auto
  then show ?thesis
    unfolding decay_refresh_failure_def Let_def steps_between_def[symmetric] by (simp add: min_def)
qed

theorem decay_path_independent:
  assumes "t \<le> u"
  shows "fst (decay_refresh_failure u (fst (decay_refresh_failure t s))) = fst (decay_refresh_failure u s)"
proof (cases "normalize_refresh_failure_reason (wa_failure_reason s) = [] \<or> wa_failure_count s \<le> 0 \<or> wa_failure_ts s \<le> 0")
  case True
  then have "fst (decay_refresh_failure t s) = fst (decay_refresh_failure u s)"
    by (auto simp: decay_refresh_failure_def Let_def)
  with decay_clears[OF True, of u] show ?thesis by auto
next
  case False
  let ?c = "wa_failure_count s" and ?b = "wa_failure_ts s"
  obtain p q where p: "p = steps_between ?b t" and q: "q = steps_between ?b u" by blast
  have pq: "0 \<le> p" "p \<le> q" using steps_mono[OF assms] steps_nonneg by (simp_all add: p q)
  from False have f: "normalize_refresh_failure_reason (wa_failure_reason s) \<noteq> []" "0 < ?c" "0 < ?b" by auto
  note d = decay_live[OF f, of t, folded p, unfolded Let_def] decay_live[OF f, of u, folded q, unfolded Let_def]
  consider "p \<le> 0" | "?c \<le> p" "0 < p" | "0 < p" "p < ?c" by linarith
  then show ?thesis
  proof cases
    case 3
    obtain s1 where s1: "s1 = s\<lparr>wa_failure_count := ?c - p, wa_failure_ts := ?b + p * REFRESH_FAILURE_DECAY_INTERVAL_MS\<rparr>" by blast
    have k: "steps_between (wa_failure_ts s1) u = q - p"
      using steps_shift[OF _ assms p] 3(1) by (simp add: s1 p q)
    have "0 < wa_failure_ts s1" using f(3) 3(1) by (simp add: s1 REFRESH_FAILURE_DECAY_INTERVAL_MS_def)
    moreover have "0 < wa_failure_count s1" using 3(2) by (simp add: s1)
    moreover have "normalize_refresh_failure_reason (wa_failure_reason s1) \<noteq> []" using f(1) by (simp add: s1)
    ultimately have e: "fst (decay_refresh_failure u s1) = (if q - p \<le> 0 then s1 else if wa_failure_count s1 \<le> q - p
        then clear_refresh_failure s1 else s1\<lparr>wa_failure_count := wa_failure_count s1 - (q - p),
          wa_failure_ts := wa_failure_ts s1 + (q - p) * REFRESH_FAILURE_DECAY_INTERVAL_MS\<rparr>)"
      using decay_live[of s1 u] k by (simp add: Let_def)
    have "fst (decay_refresh_failure u s1) = fst (decay_refresh_failure u s)"
      using 3 pq unfolding e d(2) by (auto simp: s1 left_diff_distrib clear_refresh_failure_def)
    moreover have "fst (decay_refresh_failure t s) = s1" using 3 by (simp add: d s1)
    ultimately show ?thesis by simp
  qed (use pq in \<open>simp_all add: d\<close>)
qed

section \<open>The lifecycle summary\<close>

lemma map_of_fold_counts:
  "count_of (fold (\<lambda>item counts. let status = item_status item in
             if status = [] then counts
             else AList.update status ((case map_of counts status of None \<Rightarrow> 0 | Some n \<Rightarrow> n) + 1) counts) items acc) st =
   count_of acc st + (if st = [] then 0 else int (length (filter (\<lambda>i. item_status i = st) items)))"
  by (induction items arbitrary: acc) (auto simp: count_of_def Let_def update_conv' split: option.splits)

lemma count_of_items:
  "st \<noteq> [] \<Longrightarrow> count_of (item_status_counts items) st = int (length (filter (\<lambda>i. item_status i = st) items))"
  unfolding item_status_counts_def map_of_fold_counts by (simp add: count_of_def)

lemma count_of_lifecycle:
  "st \<noteq> [] \<Longrightarrow> count_of (lifecycle_counts failed items) st =
     int (length (filter (\<lambda>i. item_status i = st) items)) + (if item_status failed = st \<and> \<not> failed_counted failed items then 1 else 0)"
  by (auto simp: lifecycle_counts_def Let_def count_of_items count_of_def update_conv')
     (auto simp: count_of_items[unfolded count_of_def])

definition KNOWN_STATUSES :: "string list" where
  "KNOWN_STATUSES = [''mined_success'', ''mined_reverted'', ''pending'', ''sent'', ''receipt_unavailable'']"

lemma length_filter_known:
  "\<forall>i \<in> set items. item_status i \<in> set KNOWN_STATUSES \<Longrightarrow>
   length items = length (filter (\<lambda>i. item_status i = ''mined_success'') items) + length (filter (\<lambda>i. item_status i = ''mined_reverted'') items)
     + length (filter (\<lambda>i. item_status i = ''pending'') items) + length (filter (\<lambda>i. item_status i = ''sent'') items)
     + length (filter (\<lambda>i. item_status i = ''receipt_unavailable'') items)"
  by (induction items) (auto simp: KNOWN_STATUSES_def)

text \<open>The summary shown to the operator accounts for every attempt: when the items and the failed item
  carry statuses of an assessment, the attempted items are the confirmed, the outstanding and the
  reverted ones, each counted once, also when the failed item is one of the items.\<close>

theorem lifecycle_summary_accounts:
  assumes "\<forall>i \<in> set (result_items result). item_status i \<in> set KNOWN_STATUSES"
    and "dget result ''failed_item'' = PNone \<or> (\<exists>d. dget result ''failed_item'' = PDict d \<and> item_status d \<in> set KNOWN_STATUSES)"
  shows "\<exists>a c u r. dget (lifecycle_summary result st rs) ''attempted_item_count'' = PInt a \<and>
     dget (lifecycle_summary result st rs) ''confirmed_item_count'' = PInt c \<and>
     dget (lifecycle_summary result st rs) ''outstanding_item_count'' = PInt u \<and>
     dget (lifecycle_summary result st rs) ''reverted_item_count'' = PInt r \<and> a = c + u + r"
proof -
  let ?f = "as_dict (dget result ''failed_item'')" and ?i = "result_items result"
  note k = length_filter_known[OF assms(1)]
  have f: "?f = [] \<or> item_status ?f \<in> set KNOWN_STATUSES"
    using assms(2) by (auto simp: as_dict_def)
  have e: "item_status [] = []" by (simp add: item_status_def)
  have n: "[] \<notin> set KNOWN_STATUSES" by (simp add: KNOWN_STATUSES_def)
  have "int (length ?i) + (if ?f \<noteq> [] \<and> \<not> failed_counted ?f ?i then 1 else 0) =
      count_of (lifecycle_counts ?f ?i) ''mined_success'' +
      (count_of (lifecycle_counts ?f ?i) ''pending'' + count_of (lifecycle_counts ?f ?i) ''sent'' +
       count_of (lifecycle_counts ?f ?i) ''receipt_unavailable'') + count_of (lifecycle_counts ?f ?i) ''mined_reverted''"
    using f e n k by (cases "?f = []") (auto simp: count_of_lifecycle KNOWN_STATUSES_def failed_counted_def Let_def)
  then show ?thesis by (simp add: lifecycle_summary_def Let_def)
qed

theorem lifecycle_summary_accounts_witness:
  "\<exists>a c u r. dget (lifecycle_summary [(''items'', PList [PDict [(''tx_status'', PStr ''sent'')], PDict [(''tx_status'', PStr ''mined_success'')]])] [] [])
       ''attempted_item_count'' = PInt a \<and>
     dget (lifecycle_summary [(''items'', PList [PDict [(''tx_status'', PStr ''sent'')], PDict [(''tx_status'', PStr ''mined_success'')]])] [] [])
       ''confirmed_item_count'' = PInt c \<and>
     dget (lifecycle_summary [(''items'', PList [PDict [(''tx_status'', PStr ''sent'')], PDict [(''tx_status'', PStr ''mined_success'')]])] [] [])
       ''outstanding_item_count'' = PInt u \<and>
     dget (lifecycle_summary [(''items'', PList [PDict [(''tx_status'', PStr ''sent'')], PDict [(''tx_status'', PStr ''mined_success'')]])] [] [])
       ''reverted_item_count'' = PInt r \<and> a = c + u + r"
  by (rule lifecycle_summary_accounts) (simp_all add: result_items_def item_status_def KNOWN_STATUSES_def)

section \<open>What a refresh may change\<close>

lemma result_items_refreshed: "result_items (refreshed_result items result) = items"
proof -
  obtain st rs pl where p: "submitted_result_status items = (st, rs, pl)" by (cases "submitted_result_status items")
  have pl: "distinct (map fst pl)" "map_of pl ''items'' = None"
    using p by (auto simp: submitted_result_status_def Let_def split: option.splits if_splits)
  have "dget (refreshed_result items result) ''items'' = PList (map PDict items)"
    unfolding refreshed_result_def p attach_lifecycle_summary_def Let_def prod.case dget_dset
    using pl by (simp add: dget_dupdate) (simp add: dget_def dget_or_def delete_conv')
  then show ?thesis by (simp add: result_items_def comp_def filter_True)
qed

text \<open>The fields of the state that decide whether a preview may be executed.\<close>

definition same_control :: "wa_state \<Rightarrow> wa_state \<Rightarrow> bool" where
  "same_control s t \<longleftrightarrow> wa_enabled s = wa_enabled t \<and> wa_approved s = wa_approved t \<and> wa_pending s = wa_pending t \<and>
     wa_preview_id s = wa_preview_id t \<and> wa_preview_digest s = wa_preview_digest t \<and>
     wa_preview_ts s = wa_preview_ts t \<and> wa_executed_id s = wa_executed_id t"

definition refresh_ok :: "wa_state \<Rightarrow> wa_state \<Rightarrow> bool" where
  "refresh_ok s t \<longleftrightarrow> same_control s t \<and>
     (wa_result t = wa_result s \<and> wa_status t = wa_status s \<and> wa_reason t = wa_reason s \<and>
        wa_executed_result t = wa_executed_result s \<or>
      list_all2 item_progressed (result_items (wa_result s)) (result_items (wa_result t)) \<and>
        wa_status t = fst (submitted_result_status (result_items (wa_result t))) \<and>
        wa_result t \<noteq> [] \<and>
        wa_executed_result t = (if wa_executed_id s \<noteq> [] then wa_result t else wa_executed_result s))"

lemma refreshed_result_nonempty [simp]: "refreshed_result items result \<noteq> []"
  by (cases "submitted_result_status items") (simp add: refreshed_result_def attach_lifecycle_summary_def Let_def)

lemma refresh_ok_same:
  "same_control s t \<Longrightarrow> wa_result t = wa_result s \<Longrightarrow> wa_status t = wa_status s \<Longrightarrow> wa_reason t = wa_reason s \<Longrightarrow>
   wa_executed_result t = wa_executed_result s \<Longrightarrow> refresh_ok s t"
  by (simp add: refresh_ok_def)

lemma save_quietly_fields:
  "save_quietly oc s f = (f', s') \<Longrightarrow> s' = s\<lparr>wa_updated := wa_updated s'\<rparr> \<and> (f' = f \<or> f' = Unreadable \<or> f' = Saved s')"
  by (cases oc) (auto simp: save_quietly_def save_state_def)

lemma refresh_ok_save:
  assumes "refresh_ok s t" and "save_quietly oc t f = (f', t')"
  shows "refresh_ok s t'"
proof -
  from save_quietly_fields[OF assms(2)] obtain n where t: "t' = t\<lparr>wa_updated := n\<rparr>" by blast
  have "refresh_ok s (t\<lparr>wa_updated := n\<rparr>) = refresh_ok s t" by (simp add: refresh_ok_def same_control_def)
  with assms(1) show ?thesis unfolding t by blast
qed

lemma refreshed_state_ok:
  assumes "refresh_items rpc mode k (result_items (wa_result s)) = Inr (Some (items, changed))"
  shows "refresh_ok s (apply_refresh_metadata ts st rs (refreshed_state items (clear_refresh_failure s)))"
  using refresh_items_progress[OF assms]
  by (auto simp: refresh_ok_def same_control_def refreshed_state_def apply_refresh_metadata_def clear_refresh_failure_def
      Let_def result_items_refreshed split: prod.splits)

lemma save_quietly_ok:
  assumes "refresh_ok s t"
  shows "refresh_ok s (snd (save_quietly oc t f)) \<and>
     (fst (save_quietly oc t f) = f \<or> fst (save_quietly oc t f) = Unreadable \<or>
      (\<exists>u. fst (save_quietly oc t f) = Saved u \<and> refresh_ok s u))"
proof -
  obtain f' t' where p: "save_quietly oc t f = (f', t')" by (cases "save_quietly oc t f")
  from refresh_ok_save[OF assms p] save_quietly_fields[OF p] show ?thesis by (auto simp: p)
qed

definition settled_well :: "wa_state \<Rightarrow> wa_file \<Rightarrow> wa_file \<times> (wa_state \<times> pydict) res \<Rightarrow> bool" where
  "settled_well s f out \<longleftrightarrow>
     (\<forall>s' m. snd out = Inr (s', m) \<longrightarrow> refresh_ok s s') \<and>
     (fst out = f \<or> fst out = Unreadable \<or> (\<exists>u. fst out = Saved u \<and> refresh_ok s u))"

lemma settled_wellI:
  "refresh_ok s t \<Longrightarrow> settled_well s f (case save_quietly oc t f of (f', s') \<Rightarrow> (f', Inr (s', m s')))"
  using save_quietly_ok[of s t oc f] by (auto simp: settled_well_def split: prod.split)

lemma idle_ok: "refresh_ok s (fst (set_idle_refresh_metadata reason s))"
  by (rule refresh_ok_same)
     (simp_all add: same_control_def set_idle_refresh_metadata_def apply_refresh_metadata_def clear_refresh_failure_def)

lemma refresh_idle_well: "settled_well s f (refresh_idle reason env s f)"
proof -
  obtain c ch where p: "set_idle_refresh_metadata reason s = (c, ch)" by (cases "set_idle_refresh_metadata reason s")
  with idle_ok[of s reason] have c: "refresh_ok s c" by simp
  show ?thesis
  proof (cases ch)
    case True
    with p settled_wellI[OF c] show ?thesis by (simp add: refresh_idle_def)
  next
    case False
    with p c show ?thesis by (simp add: refresh_idle_def settled_well_def)
  qed
qed

lemma refresh_failed_well: "settled_well s f (refresh_failed reason env s f)"
proof -
  let ?t = "apply_refresh_failure (fe_now env) reason (apply_refresh_metadata (fe_now env) ''skipped'' reason s)"
  have "refresh_ok s ?t"
    by (rule refresh_ok_same) (simp_all add: same_control_def apply_refresh_failure_def apply_refresh_metadata_def Let_def)
  from settled_wellI[OF this] show ?thesis by (simp add: refresh_failed_def)
qed

lemma refresh_well: "settled_well s f (refresh_submitted_result_progress env s f)"
proof -
  let ?items = "result_items (wa_result s)"
  have idem: "refresh_ok s (apply_refresh_metadata ts st rs (clear_refresh_failure s))" for ts st rs
    by (rule refresh_ok_same) (simp_all add: same_control_def apply_refresh_metadata_def clear_refresh_failure_def)
  consider "wa_status s \<noteq> ''submitted''" | "wa_status s = ''submitted''" "?items = []"
    | "wa_status s = ''submitted''" "?items \<noteq> []" "\<not> list_ex refreshable_item ?items"
    | "wa_status s = ''submitted''" "?items \<noteq> []" "list_ex refreshable_item ?items" by blast
  then show ?thesis
  proof cases
    case 4
    consider (cool) "wa_refresh_ts s \<noteq> 0 \<and> fe_now env - wa_refresh_ts s < STATE_REFRESH_TTL_MS"
      | (ask) "\<not> (wa_refresh_ts s \<noteq> 0 \<and> fe_now env - wa_refresh_ts s < STATE_REFRESH_TTL_MS)" by blast
    then show ?thesis
    proof cases
      case cool
      moreover have "refresh_ok s s" by (rule refresh_ok_same) (simp_all add: same_control_def)
      ultimately show ?thesis using 4 by (simp add: refresh_submitted_result_progress_def settled_well_def)
    next
      case ask
      show ?thesis
      proof (cases "fe_read_url env = []")
        case True
        with 4 ask show ?thesis by (auto simp: refresh_submitted_result_progress_def refresh_failed_well)
      next
        case False
        show ?thesis
        proof (cases "refresh_items (fe_rpc env) (fe_send_mode env) 0 ?items")
          case (Inl e)
          with 4 ask False show ?thesis by (auto simp: refresh_submitted_result_progress_def settled_well_def)
        next
          case (Inr q)
          show ?thesis
          proof (cases q)
            case None
            with 4 ask False Inr show ?thesis by (auto simp: refresh_submitted_result_progress_def refresh_failed_well)
          next
            case (Some p)
            obtain refreshed changed where p: "p = (refreshed, changed)" by (cases p)
            with Inr Some have r: "refresh_items (fe_rpc env) (fe_send_mode env) 0 ?items = Inr (Some (refreshed, changed))" by simp
            let ?t = "apply_refresh_metadata (fe_now env) ''refreshed'' (if changed then ''refreshed_updated'' else ''refreshed_no_change'')
              (if changed then refreshed_state refreshed (clear_refresh_failure s) else clear_refresh_failure s)"
            have "refresh_ok s ?t" using refreshed_state_ok[OF r] idem by simp
            from settled_wellI[OF this] 4 ask False r show ?thesis
              by (auto simp: refresh_submitted_result_progress_def Let_def)
          qed
        qed
      qed
    qed
  qed (simp_all add: refresh_submitted_result_progress_def refresh_idle_well)
qed

text \<open>Progress without loss: the configuration and the preview stay, and the result stays or every item advances.\<close>

definition progress_kept :: "wa_state \<Rightarrow> wa_state \<Rightarrow> bool" where
  "progress_kept s t \<longleftrightarrow> same_control s t \<and>
     (wa_result t = wa_result s \<and> wa_status t = wa_status s \<or>
      list_all2 item_progressed (result_items (wa_result s)) (result_items (wa_result t)) \<and>
      (wa_status t = ''execute_failed'' \<longleftrightarrow> (\<exists>i \<in> set (result_items (wa_result t)). item_status i = ''mined_reverted'')) \<and>
      (wa_status t = ''completed'' \<longleftrightarrow> result_items (wa_result t) \<noteq> [] \<and>
         (\<forall>i \<in> set (result_items (wa_result t)). item_status i = ''mined_success'')))"

lemma refresh_ok_kept:
  assumes "refresh_ok s t" shows "progress_kept s t"
proof -
  from assms consider (same) "wa_result t = wa_result s \<and> wa_status t = wa_status s"
    | (moved) "list_all2 item_progressed (result_items (wa_result s)) (result_items (wa_result t))"
        "wa_status t = fst (submitted_result_status (result_items (wa_result t)))"
    unfolding refresh_ok_def by blast
  then show ?thesis using assms by cases (simp_all add: progress_kept_def refresh_ok_def result_status_iff)
qed

text \<open>The file after a refresh is the file before, or the end of one write.\<close>

lemma save_quietly_ends:
  "fst (save_quietly oc t f) = f \<or> fst (save_quietly oc t f) = Unreadable \<and> oc = Tears \<or>
   (\<exists>u. save_quietly oc t f = (Saved u, u) \<and> (\<exists>n. oc = Saves n))"
  by (cases oc) (auto simp: save_quietly_def save_state_def)

lemma refresh_file:
  assumes "refresh_submitted_result_progress env s f = (f', r)"
  shows "f' = f \<or> f' = Unreadable \<and> fe_save env = Tears \<or> (\<exists>u m. f' = Saved u \<and> r = Inr (u, m))"
proof -
  have q: "fst (g (save_quietly (fe_save env) t f)) = f' \<and> snd (g (save_quietly (fe_save env) t f)) = r \<Longrightarrow> ?thesis"
    if "g = (\<lambda>(f', s'). (f', Inr (s', m s')))" for g t m
    using save_quietly_ends[of "fe_save env" t f] that by (auto simp: case_prod_beta)
  have idle: "refresh_idle reason env s f = (f', r) \<Longrightarrow> ?thesis" for reason
  proof -
    assume i: "refresh_idle reason env s f = (f', r)"
    obtain c ch where p: "set_idle_refresh_metadata reason s = (c, ch)" by (cases "set_idle_refresh_metadata reason s")
    show ?thesis
    proof (cases ch)
      case True
      with i p show ?thesis by (intro q[OF refl, of "\<lambda>s'. refresh_metadata_payload False ''skipped'' reason (fe_now env) s'" c])
        (simp add: refresh_idle_def)
    next
      case False
      with i p show ?thesis by (simp add: refresh_idle_def)
    qed
  qed
  have failed: "refresh_failed reason env s f = (f', r) \<Longrightarrow> ?thesis" for reason
    by (intro q[OF refl, of "\<lambda>s'. refresh_metadata_payload False ''skipped'' reason (fe_now env) s'"
          "apply_refresh_failure (fe_now env) reason (apply_refresh_metadata (fe_now env) ''skipped'' reason s)"])
       (simp add: refresh_failed_def)
  have done_: "(case save_quietly (fe_save env) t f of (f', s3) \<Rightarrow> (f', Inr (s3, m s3))) = (f', r) \<Longrightarrow> ?thesis" for t m
    by (rule q[OF refl, of m t]) (simp add: case_prod_beta)
  show ?thesis
    using assms idle failed done_
    by (simp add: refresh_submitted_result_progress_def Let_def split: if_splits sum.splits option.splits prod.splits)
qed

lemma refresh_raises_quietly:
  "refresh_submitted_result_progress env s f = (f', Inl e) \<Longrightarrow> f' = f"
  by (auto simp: refresh_submitted_result_progress_def refresh_idle_def refresh_failed_def Let_def
      split: if_splits sum.splits option.splits prod.splits)

text \<open>C3: a refresh never loses progress: whatever the node answers, the state it returns keeps the configuration and
  the preview, and either the result stays as it was or every item keeps its token, amount and destination and
  a status at least as advanced, with the batch completed exactly when all its items are mined successfully and
  failed exactly when one of them reverted. The state file is as it was, or holds exactly the returned state, or,
  only when the write broke off in the middle, is unreadable; a refresh that raises leaves it alone.\<close>

theorem refresh_never_regresses:
  assumes "refresh_submitted_result_progress env s f = (f', r)"
  shows "(\<forall>s' meta. r = Inr (s', meta) \<longrightarrow> progress_kept s s') \<and>
     (f' = f \<or> f' = Unreadable \<and> fe_save env = Tears \<or> (\<exists>u meta. f' = Saved u \<and> r = Inr (u, meta) \<and> progress_kept s u)) \<and>
     (\<forall>e. r = Inl e \<longrightarrow> f' = f)"
proof -
  from refresh_well[of s f env] assms have w: "\<forall>s' meta. r = Inr (s', meta) \<longrightarrow> progress_kept s s'"
    by (simp add: settled_well_def refresh_ok_kept)
  moreover have "f' = f" if "r = Inl e" for e
    using refresh_raises_quietly assms that by blast
  ultimately show ?thesis using refresh_file[OF assms] by blast
qed

definition demo_item :: "string \<Rightarrow> pydict" where
  "demo_item status = [(''token'', PStr ''0xaa''), (''amount'', PStr ''5''), (''tx_hash'', PStr (demo_hash 7)), (''tx_status'', PStr status)]"

definition demo_submitted_state :: wa_state where
  "demo_submitted_state = wa_default_state\<lparr>wa_status := ''submitted'', wa_result := [(''items'', PList [PDict (demo_item ''sent'')])]\<rparr>"

definition demo_refresh :: refresh_env where
  "demo_refresh = \<lparr>fe_now = 1000, fe_save = Saves 1001, fe_read_url = ''http'', fe_send_mode = ''public'',
     fe_rpc = (\<lambda>k. demo_rpc (PDict [(''status'', PInt 1)]))\<rparr>"

lemma demo_hash_ok: "is_tx_hash (PStr (demo_hash b))"
  unfolding demo_hash_def is_tx_hash_def is_hex_text_hex by simp

lemma demo_hash_nonempty: "demo_hash b \<noteq> []"
  by (simp add: demo_hash_def)

lemma refreshed_state_status: "wa_status (refreshed_state items s) = fst (submitted_result_status items)"
  by (cases "submitted_result_status items") (simp add: refreshed_state_def Let_def)

lemma demo_refreshes:
  "\<exists>f' s' m. refresh_submitted_result_progress demo_refresh demo_submitted_state Absent = (f', Inr (s', m)) \<and>
     wa_status s' = ''completed'' \<and> f' = Saved s'"
proof -
  have i: "result_items (wa_result demo_submitted_state) = [demo_item ''sent'']"
    by (simp add: demo_submitted_state_def result_items_def)
  have h: "str_or_empty (dget (demo_item ''sent'') ''tx_hash'') = demo_hash 7" by (simp add: demo_item_def)
  have r: "refreshable_item (demo_item ''sent'')"
    unfolding refreshable_item_def h by (simp add: demo_hash_ok) (simp add: demo_item_def item_status_def REFRESHABLE_TX_STATUSES_def)
  let ?v = "receipt_verdict (demo_hash 7) [(''status'', PInt 1)]"
  have a: "assess_submitted_tx (fe_rpc demo_refresh 0) (demo_hash 7) (PStr ''public'') = Inr ?v"
    by (simp add: demo_refresh_def assess_submitted_tx_def demo_rpc_def)
  have v: "?v = \<lparr>st_hash = demo_hash 7, st_status = ''mined_success'', st_receipt_status = Some 1, st_block = None,
      st_receipt = Some [(''status'', PInt 1)], st_proof = ''receipt_mined''\<rparr>"
    by (simp add: receipt_verdict_def decode_hex_int_def)
  let ?m = "merge_tx_progress (demo_item ''sent'') ?v"
  have ms: "item_status ?m = ''mined_success''"
    by (simp add: v merge_tx_progress_def item_status_def demo_item_def tx_status_rank_def TX_STATUS_RANK_def
        submitted_tx_status_payload_def dupdate_def Let_def)
  have ch: "item_status_changed (demo_item ''sent'') ?m"
    using ms by (simp add: item_status_changed_def PROGRESS_KEYS_def v merge_tx_progress_def demo_item_def tx_status_rank_def
        item_status_def TX_STATUS_RANK_def submitted_tx_status_payload_def dupdate_def Let_def)
  have f: "refresh_items (fe_rpc demo_refresh) ''public'' 0 [demo_item ''sent''] = Inr (Some ([?m], True))"
    using r a v ch by (simp add: h Let_def)
  have st: "fst (submitted_result_status [?m]) = ''completed''" by (simp add: result_status_exact ms)
  have "wa_status (refreshed_state [?m] t) = ''completed''" for t
    using st by (simp add: refreshed_state_status)
  then show ?thesis
    using i r f by (simp add: refresh_submitted_result_progress_def demo_submitted_state_def wa_default_state_def
        demo_refresh_def save_quietly_def save_state_def apply_refresh_metadata_def clear_refresh_failure_def Let_def)
qed

theorem refresh_never_regresses_witness:
  "\<exists>s' m. refresh_submitted_result_progress demo_refresh demo_submitted_state Absent = (Saved s', Inr (s', m)) \<and>
     progress_kept demo_submitted_state s' \<and> wa_status s' = ''completed''"
proof -
  obtain f' s' m where r: "refresh_submitted_result_progress demo_refresh demo_submitted_state Absent = (f', Inr (s', m))"
    and c: "wa_status s' = ''completed''" "f' = Saved s'" using demo_refreshes by blast
  from refresh_never_regresses[OF r] r c show ?thesis by auto
qed

theorem decay_path_independent_witness:
  "fst (decay_refresh_failure 200000 (fst (decay_refresh_failure 70000
     (wa_default_state\<lparr>wa_failure_reason := ''x'', wa_failure_count := 5, wa_failure_ts := 1\<rparr>)))) =
   fst (decay_refresh_failure 200000 (wa_default_state\<lparr>wa_failure_reason := ''x'', wa_failure_count := 5, wa_failure_ts := 1\<rparr>))"
  by (rule decay_path_independent) simp

end
