(* ===== verification/Gas_Policy.thy ===== *)
theory Gas_Policy
  imports Flashloan
begin

text \<open>
  \<open>gas.py\<close>: the fees a backend transaction offers. Presets give a floor in gwei; the tip of the last
  block and the gas price, read in one batch and again one by one when the batch does not give them,
  raise it. The answers of the RPC client are arguments.
\<close>

definition GWEI :: int where
  "GWEI = 10 ^ 9"

definition gwei :: "int \<Rightarrow> int" where
  "gwei n = n * GWEI"

text \<open>\<open>int(presets.get(name, default))\<close>, the default when the conversion raises what the code catches.\<close>

definition preset_value :: "pydict \<Rightarrow> string \<Rightarrow> int \<Rightarrow> int res" where
  "preset_value presets name dflt =
     (case py_int (dget_or presets name (PInt dflt)) of
        Inr n \<Rightarrow> Inr n
      | Inl e \<Rightarrow> if e \<in> {TypeError, ValueError, AttributeError} then Inr dflt else Inl e)"

definition preset_fees :: "string \<Rightarrow> pydict \<Rightarrow> (int \<times> int) res" where
  "preset_fees mode0 presets =
     (let mode = lower (if mode0 = [] then ''standard'' else mode0);
          both = (\<lambda>n m d1 d2. rbind (preset_value presets n d1) (\<lambda>f. rbind (preset_value presets m d2) (\<lambda>p.
                    Inr (gwei f, gwei p))))
      in if mode = ''fast'' then both ''fast_max_fee_gwei'' ''fast_priority_fee_gwei'' 30 2
         else if mode = ''instant'' then both ''instant_max_fee_gwei'' ''instant_priority_fee_gwei'' 50 3
         else both ''standard_max_fee_gwei'' ''standard_priority_fee_gwei'' 20 1)"

text \<open>The tip of the last block in a fee history (\<open>JsonRpcClient.fee_history_tip\<close> reads it the same way).\<close>

definition history_tip :: "pyval \<Rightarrow> int option res" where
  "history_tip history =
     (case history of
        PDict d \<Rightarrow>
          (case dget d ''reward'' of
             PList (r # rs) \<Rightarrow>
               (case last (r # rs) of
                  PList (t # ts) \<Rightarrow> (case t of PStr s \<Rightarrow> rbind (int_of_str16 s) (\<lambda>n. Inr (Some n)) | _ \<Rightarrow> Inr None)
                | _ \<Rightarrow> Inr None)
           | _ \<Rightarrow> Inr None)
      | _ \<Rightarrow> Inr None)"

definition hex_answer :: "rpc_result \<Rightarrow> int option res" where
  "hex_answer r = (if rr_ok r then (case rr_result r of PStr s \<Rightarrow> rbind (int_of_str16 s) (\<lambda>n. Inr (Some n)) | _ \<Rightarrow> Inr None)
     else Inr None)"

definition fee_history_tip :: "rpc_result \<Rightarrow> int option res" where
  "fee_history_tip r = (if rr_ok r then history_tip (rr_result r) else Inr None)"

text \<open>Both answers of the batch; a text that is no number loses both.\<close>

definition batch_fees :: "rpc_result list \<Rightarrow> int option \<times> int option" where
  "batch_fees rs =
     (case rbind (case rs of [] \<Rightarrow> Inr None | r # _ \<Rightarrow> fee_history_tip r) (\<lambda>tip.
           rbind (case rs of a # r # _ \<Rightarrow> hex_answer r | _ \<Rightarrow> Inr None) (\<lambda>gp. Inr (tip, gp))) of
        Inl e \<Rightarrow> (None, None) | Inr p \<Rightarrow> p)"

definition raise_to :: "int option \<Rightarrow> int \<Rightarrow> int" where
  "raise_to v floor = (case v of None \<Rightarrow> floor | Some n \<Rightarrow> if floor < n then n else floor)"

definition suggest_gas :: "string \<Rightarrow> pydict \<Rightarrow> rpc_result list \<Rightarrow> rpc_result \<Rightarrow> rpc_result \<Rightarrow> (int \<times> int) res" where
  "suggest_gas mode presets rs tip_reply price_reply =
     rbind (preset_fees mode presets) (\<lambda>(max_fee, prio).
     (let (tip0, gp0) = batch_fees rs in
      rbind (if tip0 = None then fee_history_tip tip_reply else Inr tip0) (\<lambda>tip.
      rbind (if gp0 = None then hex_answer price_reply else Inr gp0) (\<lambda>gp.
      Inr (raise_to gp max_fee, raise_to tip prio)))))"

record gas_quote =
  gq_max_fee :: int
  gq_priority :: int
  gq_limit :: int

definition est_cost_wei :: "gas_quote \<Rightarrow> int" where
  "est_cost_wei q = gq_max_fee q * gq_limit q"

definition estimate_cost ::
    "rpc_result \<Rightarrow> string \<Rightarrow> pydict \<Rightarrow> int \<Rightarrow> rpc_result list \<Rightarrow> rpc_result \<Rightarrow> rpc_result \<Rightarrow> gas_quote res" where
  "estimate_cost gas_reply mode presets fallback rs tip_reply price_reply =
     rbind (hex_answer gas_reply) (\<lambda>est.
     rbind (suggest_gas mode presets rs tip_reply price_reply) (\<lambda>(max_fee, prio).
     Inr \<lparr>gq_max_fee = max_fee, gq_priority = prio,
          gq_limit = (case est of None \<Rightarrow> fallback | Some n \<Rightarrow> if n = 0 then fallback else n)\<rparr>))"

section \<open>Properties\<close>

lemma raise_to_floor: "floor \<le> raise_to v floor"
  by (auto simp: raise_to_def split: option.splits)

lemma raise_to_covers: "v = Some n \<Longrightarrow> n \<le> raise_to v floor"
  by (simp add: raise_to_def)

text \<open>The offer covers the presets and what the chain asks: the fee cap is never below the preset cap
  nor below the gas price a node reported, the tip never below the preset tip nor below the last
  block's; and both are one of these values.\<close>

theorem suggested_gas_covers:
  assumes "suggest_gas mode presets rs tip_reply price_reply = Inr (max_fee, prio)"
    and "preset_fees mode presets = Inr (floor_fee, floor_tip)"
  shows "\<exists>tip gp. max_fee = (case gp of None \<Rightarrow> floor_fee | Some g \<Rightarrow> max floor_fee g) \<and>
     prio = (case tip of None \<Rightarrow> floor_tip | Some t \<Rightarrow> max floor_tip t) \<and>
     (tip = fst (batch_fees rs) \<or> fst (batch_fees rs) = None \<and> fee_history_tip tip_reply = Inr tip) \<and>
     (gp = snd (batch_fees rs) \<or> snd (batch_fees rs) = None \<and> hex_answer price_reply = Inr gp)"
proof -
  obtain tip0 gp0 where b: "batch_fees rs = (tip0, gp0)" by (cases "batch_fees rs")
  with assms obtain tip gp where "(if tip0 = None then fee_history_tip tip_reply else Inr tip0) = Inr tip"
    "(if gp0 = None then hex_answer price_reply else Inr gp0) = Inr gp"
    "max_fee = raise_to gp floor_fee" "prio = raise_to tip floor_tip"
    by (auto simp: suggest_gas_def rbind_eq_Inr)
  then show ?thesis
    by (intro exI[of _ tip] exI[of _ gp]) (auto simp: b raise_to_def max_def split: option.splits if_splits)
qed

definition gas_ok :: "pyval \<Rightarrow> rpc_result" where
  "gas_ok v = \<lparr>rr_ok = True, rr_result = v, rr_error = PNone\<rparr>"

definition gas_failed :: rpc_result where
  "gas_failed = \<lparr>rr_ok = False, rr_result = PNone, rr_error = PNone\<rparr>"

definition tip_history :: pyval where
  "tip_history = PDict [(''reward'', PList [PList [PStr ''0x174876e800'']])]"

lemma demo_tip: "history_tip tip_history = Inr (Some 100000000000)"
  by (simp add: tip_history_def history_tip_def int_of_str16_def strip_def is_space_def starts_with_def parse_nat_def digit_val_def)

theorem suggested_gas_covers_witness:
  "\<exists>tip gp. (21000000000 :: int) = (case gp of None \<Rightarrow> 20000000000 | Some g \<Rightarrow> max 20000000000 g) \<and>
     (1000000000 :: int) = (case tip of None \<Rightarrow> 1000000000 | Some t \<Rightarrow> max 1000000000 t) \<and>
     (tip = fst (batch_fees []) \<or> fst (batch_fees []) = None \<and> fee_history_tip gas_failed = Inr tip) \<and>
     (gp = snd (batch_fees []) \<or> snd (batch_fees []) = None \<and> hex_answer (gas_ok (PStr ''0x4e3b29200'')) = Inr gp)"
  by (rule suggested_gas_covers[where mode = "''standard''" and presets = "[]"])
     (simp_all add: suggest_gas_def preset_fees_def preset_value_def gwei_def GWEI_def batch_fees_def fee_history_tip_def
        gas_failed_def hex_answer_def gas_ok_def raise_to_def int_of_str16_def strip_def is_space_def starts_with_def
        parse_nat_def digit_val_def lower_char_def dget_or_def)

text \<open>The cap is not raised with the tip: a block that paid a tip above the cap makes the offer one that
  a node refuses, its priority fee above its maximum fee.\<close>

theorem suggested_tip_may_exceed_cap:
  "suggest_gas ''standard'' [] [gas_ok tip_history, gas_failed] gas_failed gas_failed = Inr (20000000000, 100000000000)"
  by (simp add: suggest_gas_def preset_fees_def preset_value_def gwei_def GWEI_def batch_fees_def fee_history_tip_def
      gas_failed_def hex_answer_def gas_ok_def raise_to_def demo_tip lower_char_def dget_or_def)

end
