(* ===== verification/Executor_Owner.thy ===== *)
theory Executor_Owner
  imports Flashloan
begin

text \<open>
  \<open>executor_owner.py\<close>: the proof that the backend's signer owns the executor contract, read from the
  contract's \<open>owner()\<close>. The RPC client is an argument; it answers with a result object, as the real client
  does, or with what test doubles answer: a bare text or something else.
\<close>

datatype owner_reply = OwnerResult rpc_result | OwnerText string | OwnerOther

definition OWNER_SIG :: string where
  "OWNER_SIG = ''owner()''"

definition ZERO_ADDRESS :: string where
  "ZERO_ADDRESS = ''0x'' @ replicate 40 (CHR ''0'')"

definition owner_raw :: "owner_reply \<Rightarrow> string option" where
  "owner_raw reply =
     (case reply of
        OwnerResult r \<Rightarrow> (if rr_ok r then (case rr_result r of PStr s \<Rightarrow> Some s | _ \<Rightarrow> None) else None)
      | OwnerText s \<Rightarrow> Some s
      | OwnerOther \<Rightarrow> None)"

definition decode_owner :: "string \<Rightarrow> string option" where
  "decode_owner raw =
     (if \<not> starts_with ''0x'' raw then None
      else let payload = drop 2 raw in
        if length payload < 64 then None
        else case fromhex (take 64 payload) of
          None \<Rightarrow> None
        | Some word \<Rightarrow>
            let owner = ''0x'' @ hex_of (drop (length word - 20) word) in
            if owner = ZERO_ADDRESS then None else Some owner)"

definition fetch_executor_owner ::
    "(bytes \<Rightarrow> bytes) \<Rightarrow> (string \<Rightarrow> string \<Rightarrow> owner_reply res) \<Rightarrow> string \<Rightarrow> string option res" where
  "fetch_executor_owner kec eth_call executor_address =
     (let addr = strip executor_address in
      if addr = [] then Inr None
      else rbind (eth_call addr (''0x'' @ hex_of (selector kec OWNER_SIG))) (\<lambda>reply.
        Inr (Option.bind (owner_raw reply) decode_owner)))"

definition validate_executor_owner_proof ::
    "(bytes \<Rightarrow> bytes) \<Rightarrow> (string \<Rightarrow> string \<Rightarrow> owner_reply res) \<Rightarrow> string \<Rightarrow> string \<Rightarrow> (string option \<times> string option) res" where
  "validate_executor_owner_proof kec eth_call executor_address signer =
     rbind (fetch_executor_owner kec eth_call executor_address) (\<lambda>owner.
     Inr (case owner of
        None \<Rightarrow> (Some ''executor_owner_lookup_failed'', None)
      | Some w \<Rightarrow> if lower w \<noteq> lower (strip signer) then (Some ''executor_owner_mismatch'', Some w) else (None, Some w)))"

section \<open>Properties\<close>

lemma decode_owner_word:
  assumes "length w = 32" and "drop 12 w \<noteq> replicate 20 0"
  shows "decode_owner (''0x'' @ hex_of w @ rest) = Some (''0x'' @ hex_of (drop 12 w))"
proof -
  have l: "length (hex_of w) = 64" by (simp add: assms(1))
  have z: "ZERO_ADDRESS = ''0x'' @ hex_of (replicate 20 0)" unfolding hex_of_zeros by (simp add: ZERO_ADDRESS_def)
  have "take 64 (hex_of w @ rest) = hex_of w" using l by simp
  then show ?thesis
    using assms l by (simp add: decode_owner_def starts_with_def z fromhex_hex_of hex_of_inj)
qed

lemma strip_executor: "is_addr a \<Longrightarrow> strip a = a"
proof (rule strip_no_space, rule ballI)
  fix c
  assume a: "is_addr a" and "c \<in> set a"
  then have "lower_char c \<in> set (lower a)" by (simp add: lower_def)
  then have "lower_char c \<in> set (''0x'' @ hex_of (addr_bytes a))" using is_addr_bytes(2)[OF a] by simp
  then have "\<not> is_space (lower_char c)" by (auto simp: is_space_def dest: hex_of_plain)
  then show "\<not> is_space c" by simp
qed

definition demo_word :: bytes where
  "demo_word = replicate 12 0 @ replicate 20 7"

text \<open>The signer is accepted exactly when the contract's answer, read as its first word, names the
  signer: with an answer that holds a word, acceptance is equality of the word's last twenty bytes with the
  signer's address, and the zero owner is never accepted.\<close>

theorem owner_proof_exact:
  assumes "is_addr signer" and "length w = 32" and "strip executor \<noteq> []"
    and "eth_call (strip executor) (''0x'' @ hex_of (selector kec OWNER_SIG)) = Inr (OwnerResult r)"
    and "rr_ok r" and "rr_result r = PStr (''0x'' @ hex_of w @ rest)"
  shows "validate_executor_owner_proof kec eth_call executor signer = Inr (None, Some (''0x'' @ hex_of (drop 12 w))) \<longleftrightarrow>
     drop 12 w = addr_bytes signer \<and> drop 12 w \<noteq> replicate 20 0"
proof (cases "drop 12 w = replicate 20 0")
  case True
  have l: "length (hex_of w) = 64" by (simp add: assms(2))
  have z: "ZERO_ADDRESS = ''0x'' @ hex_of (replicate 20 0)" unfolding hex_of_zeros by (simp add: ZERO_ADDRESS_def)
  have "decode_owner (''0x'' @ hex_of w @ rest) = None"
    using True l assms(2) by (simp add: decode_owner_def starts_with_def z fromhex_hex_of)
  with True assms show ?thesis
    by (simp add: validate_executor_owner_proof_def fetch_executor_owner_def owner_raw_def)
next
  case False
  have len: "length (drop 12 w) = 20" using assms(2) by simp
  have o: "is_addr (''0x'' @ hex_of (drop 12 w))" "addr_bytes (''0x'' @ hex_of (drop 12 w)) = drop 12 w"
    using len by (rule is_addr_hex_of, intro addr_bytes_hex_of)
  have "lower (''0x'' @ hex_of (drop 12 w)) = lower signer \<longleftrightarrow> drop 12 w = addr_bytes signer"
    using addr_bytes_inj[OF o(1) assms(1)] o(2) by auto
  moreover have "strip signer = signer" using assms(1) by (rule strip_executor)
  ultimately show ?thesis
    using False assms decode_owner_word[OF assms(2) False]
    by (simp add: validate_executor_owner_proof_def fetch_executor_owner_def owner_raw_def)
qed

definition demo_owner_call :: "string \<Rightarrow> string \<Rightarrow> owner_reply res" where
  "demo_owner_call addr data = Inr (OwnerResult \<lparr>rr_ok = True, rr_result = PStr (''0x'' @ hex_of demo_word), rr_error = PNone\<rparr>)"

definition demo_signer :: string where
  "demo_signer = ''0x'' @ hex_of (replicate 20 7)"

lemma demo_signer_ok: "is_addr demo_signer" "addr_bytes demo_signer = replicate 20 7"
  unfolding demo_signer_def by (rule is_addr_hex_of, simp, rule addr_bytes_hex_of)

theorem owner_proof_exact_witness:
  "validate_executor_owner_proof (\<lambda>_. []) demo_owner_call ''e'' demo_signer =
     Inr (None, Some (''0x'' @ hex_of (drop 12 demo_word)))"
proof -
  let ?r = "\<lparr>rr_ok = True, rr_result = PStr (''0x'' @ hex_of demo_word), rr_error = PNone\<rparr>"
  have d: "drop 12 demo_word = replicate 20 7" "length demo_word = 32" by (simp_all add: demo_word_def)
  have "strip ''e'' = ''e''" by (simp add: strip_def is_space_def)
  then have "validate_executor_owner_proof (\<lambda>_. []) demo_owner_call ''e'' demo_signer =
       Inr (None, Some (''0x'' @ hex_of (drop 12 demo_word))) \<longleftrightarrow>
      drop 12 demo_word = addr_bytes demo_signer \<and> drop 12 demo_word \<noteq> replicate 20 0"
    by (intro owner_proof_exact[OF demo_signer_ok(1) d(2), where r = ?r and rest = "[]"]) (simp_all add: demo_owner_call_def)
  then show ?thesis by (simp add: d demo_signer_ok)
qed

end
