(* ===== verification/Family_Identity.thy ===== *)
theory Family_Identity
  imports Py_Prelude
begin

text \<open>
  \<open>fund_os/family_identity.py\<close>: the table of strategy families, the alias map built from it when the
  module is loaded, and the lookups by alias. Display names are presentation and left out of the records.
\<close>

record family_info =
  fi_launch :: string
  fi_runtime :: string
  fi_capital :: string
  fi_aliases :: "string list"
  fi_core :: bool

definition info :: "string \<Rightarrow> string \<Rightarrow> string \<Rightarrow> string list \<Rightarrow> bool \<Rightarrow> string \<times> family_info" where
  "info launch runtime capital aliases core =
     (launch, \<lparr>fi_launch = launch, fi_runtime = runtime, fi_capital = capital, fi_aliases = aliases, fi_core = core\<rparr>)"

definition FAMILY_IDENTITY_TABLE :: "(string \<times> family_info) list" where
  "FAMILY_IDENTITY_TABLE =
    [info ''flash_arb'' ''flashloan_atomic'' ''flashloan_atomic'' [''flash_arb'', ''flashloan_atomic''] True,
     info ''funding_arb'' ''funding_arb'' ''funding_arb'' [''funding_arb''] False,
     info ''cex_cex_arb'' ''cex_cex_arb'' ''cex_cex_arb'' [''cex_cex_arb''] False,
     info ''cex_dex_arb'' ''cross_cex_dex'' ''cross_cex_dex'' [''cex_dex_arb'', ''cross_cex_dex''] False,
     info ''liquidation_capture'' ''liquidation_capture'' ''liquidation_anticipation''
       [''liquidation_capture'', ''liquidation_anticipation''] False,
     info ''mev_search'' ''mev_search'' ''mev_search'' [''mev_search''] False,
     info ''stat_arb'' ''stat_arb'' ''stat_arb'' [''stat_arb''] False,
     info ''volatility_market_making'' ''volatility_market_making'' ''volatility_market_making''
       [''volatility_market_making'', ''market_making''] False,
     info ''treasury_yield'' ''treasury_yield'' ''treasury_yield'' [''treasury_yield''] False,
     info ''auto_strategy_generator'' ''auto_generated_strategy'' ''auto_generated_strategy''
       [''auto_strategy_generator'', ''auto_generated_strategy''] False]"

text \<open>The assignments of the loading loop, in order; a later one overrides an earlier one.\<close>

definition alias_assignments :: "(string \<times> string) list" where
  "alias_assignments = concat (map (\<lambda>(launch, i).
     map (\<lambda>a. (a, launch)) (filter (\<lambda>a. a \<noteq> []) (fi_aliases i)) @ [(launch, launch)]
     @ (if fi_runtime i \<noteq> [] then [(fi_runtime i, launch)] else [])
     @ (if fi_capital i \<noteq> [] then [(fi_capital i, launch)] else [])) FAMILY_IDENTITY_TABLE)"

definition ALIAS_TO_LAUNCH :: "string \<Rightarrow> string option" where
  "ALIAS_TO_LAUNCH = map_of (rev alias_assignments)"

definition canonical_launch_family_id :: "string \<Rightarrow> string" where
  "canonical_launch_family_id family = (case ALIAS_TO_LAUNCH family of None \<Rightarrow> family | Some l \<Rightarrow> l)"

definition or_default :: "string \<Rightarrow> string \<Rightarrow> string" where
  "or_default s d = (if s \<noteq> [] then s else d)"

definition family_identity :: "string \<Rightarrow> family_info" where
  "family_identity family =
     (let launch = canonical_launch_family_id family in
      case map_of FAMILY_IDENTITY_TABLE launch of
        None \<Rightarrow> \<lparr>fi_launch = launch, fi_runtime = launch, fi_capital = launch,
                  fi_aliases = (if launch \<noteq> [] then [launch] else []), fi_core = False\<rparr>
      | Some b \<Rightarrow> \<lparr>fi_launch = launch, fi_runtime = or_default (fi_runtime b) launch,
                    fi_capital = or_default (fi_capital b) launch,
                    fi_aliases = (if fi_aliases b \<noteq> [] then fi_aliases b else [launch]), fi_core = fi_core b\<rparr>)"

definition append_new :: "string \<Rightarrow> string list \<Rightarrow> string list" where
  "append_new v out = (if v \<noteq> [] \<and> v \<notin> set out then out @ [v] else out)"

definition identity_names :: "string \<Rightarrow> string list" where
  "identity_names raw = (let i = family_identity raw in [raw, fi_launch i, fi_runtime i, fi_capital i] @ fi_aliases i)"

definition family_alias_candidates :: "string list \<Rightarrow> string list" where
  "family_alias_candidates families = fold (\<lambda>raw out. fold append_new (identity_names raw) out) families []"

definition family_matches :: "string \<Rightarrow> string \<Rightarrow> bool" where
  "family_matches family candidate = (candidate \<noteq> [] \<and> candidate \<in> set (family_alias_candidates [family]))"

definition is_core_launch_family :: "string \<Rightarrow> bool" where
  "is_core_launch_family family = fi_core (family_identity family)"

section \<open>The alias map\<close>

lemma alias_assignments_eval:
  "alias_assignments =
    [(''flash_arb'', ''flash_arb''), (''flashloan_atomic'', ''flash_arb''), (''flash_arb'', ''flash_arb''),
     (''flashloan_atomic'', ''flash_arb''), (''flashloan_atomic'', ''flash_arb''),
     (''funding_arb'', ''funding_arb''), (''funding_arb'', ''funding_arb''), (''funding_arb'', ''funding_arb''), (''funding_arb'', ''funding_arb''),
     (''cex_cex_arb'', ''cex_cex_arb''), (''cex_cex_arb'', ''cex_cex_arb''), (''cex_cex_arb'', ''cex_cex_arb''), (''cex_cex_arb'', ''cex_cex_arb''),
     (''cex_dex_arb'', ''cex_dex_arb''), (''cross_cex_dex'', ''cex_dex_arb''), (''cex_dex_arb'', ''cex_dex_arb''),
     (''cross_cex_dex'', ''cex_dex_arb''), (''cross_cex_dex'', ''cex_dex_arb''),
     (''liquidation_capture'', ''liquidation_capture''), (''liquidation_anticipation'', ''liquidation_capture''),
     (''liquidation_capture'', ''liquidation_capture''), (''liquidation_capture'', ''liquidation_capture''), (''liquidation_anticipation'', ''liquidation_capture''),
     (''mev_search'', ''mev_search''), (''mev_search'', ''mev_search''), (''mev_search'', ''mev_search''), (''mev_search'', ''mev_search''),
     (''stat_arb'', ''stat_arb''), (''stat_arb'', ''stat_arb''), (''stat_arb'', ''stat_arb''), (''stat_arb'', ''stat_arb''),
     (''volatility_market_making'', ''volatility_market_making''), (''market_making'', ''volatility_market_making''),
     (''volatility_market_making'', ''volatility_market_making''), (''volatility_market_making'', ''volatility_market_making''), (''volatility_market_making'', ''volatility_market_making''),
     (''treasury_yield'', ''treasury_yield''), (''treasury_yield'', ''treasury_yield''), (''treasury_yield'', ''treasury_yield''), (''treasury_yield'', ''treasury_yield''),
     (''auto_strategy_generator'', ''auto_strategy_generator''), (''auto_generated_strategy'', ''auto_strategy_generator''),
     (''auto_strategy_generator'', ''auto_strategy_generator''), (''auto_generated_strategy'', ''auto_strategy_generator''), (''auto_generated_strategy'', ''auto_strategy_generator'')]"
  by (simp add: alias_assignments_def FAMILY_IDENTITY_TABLE_def info_def)

text \<open>Every name of a table entry leads back to it, and the entry is stored under its own launch name.\<close>

lemma table_names:
  "list_all (\<lambda>(launch, i). fi_launch i = launch \<and> fi_runtime i \<noteq> [] \<and> fi_capital i \<noteq> [] \<and> fi_aliases i \<noteq> [] \<and>
     list_all (\<lambda>n. ALIAS_TO_LAUNCH n = Some launch) ([launch, fi_runtime i, fi_capital i] @ fi_aliases i)) FAMILY_IDENTITY_TABLE"
  unfolding ALIAS_TO_LAUNCH_def alias_assignments_eval by (simp add: FAMILY_IDENTITY_TABLE_def info_def)

lemma alias_targets: "ALIAS_TO_LAUNCH n = Some l \<Longrightarrow> ALIAS_TO_LAUNCH l = Some l"
proof -
  assume "ALIAS_TO_LAUNCH n = Some l"
  then have "(n, l) \<in> set alias_assignments" unfolding ALIAS_TO_LAUNCH_def by (metis map_of_SomeD set_rev)
  then obtain i where "(l, i) \<in> set FAMILY_IDENTITY_TABLE"
    by (auto simp: alias_assignments_def split: if_splits)
  then show ?thesis using table_names by (auto simp: list_all_iff)
qed

lemma canonical_idem [simp]: "canonical_launch_family_id (canonical_launch_family_id f) = canonical_launch_family_id f"
  by (auto simp: canonical_launch_family_id_def alias_targets split: option.splits)

lemma canonical_of: "ALIAS_TO_LAUNCH n = Some l \<Longrightarrow> canonical_launch_family_id n = l"
  by (simp add: canonical_launch_family_id_def)

lemma identity_names_canonical:
  assumes "n \<in> set (identity_names raw)"
  shows "canonical_launch_family_id n = canonical_launch_family_id raw"
proof (cases "map_of FAMILY_IDENTITY_TABLE (canonical_launch_family_id raw)")
  case None
  then show ?thesis using assms
    by (auto simp: identity_names_def family_identity_def Let_def split: if_splits)
next
  case (Some i)
  let ?l = "canonical_launch_family_id raw"
  have "(?l, i) \<in> set FAMILY_IDENTITY_TABLE" using Some by (rule map_of_SomeD)
  then have t: "fi_runtime i \<noteq> []" "fi_capital i \<noteq> []" "fi_aliases i \<noteq> []"
      "\<forall>n \<in> set ([?l, fi_runtime i, fi_capital i] @ fi_aliases i). ALIAS_TO_LAUNCH n = Some ?l"
    using table_names by (auto simp: list_all_iff)
  have "n = raw \<or> n \<in> set ([?l, fi_runtime i, fi_capital i] @ fi_aliases i)"
    using assms Some t(1-3) by (auto simp: identity_names_def family_identity_def or_default_def Let_def)
  then show ?thesis using t(4) canonical_of[of n ?l] by auto
qed

lemma set_fold_append_new: "set (fold append_new vs out) = set out \<union> (set vs - {[]})"
  by (induction vs arbitrary: out) (auto simp: append_new_def)

lemma set_alias_candidates: "set (family_alias_candidates [f]) = set (identity_names f) - {[]}"
  by (simp add: family_alias_candidates_def set_fold_append_new)

text \<open>Aliases never cross families: every name offered for a family resolves to the same launch family
  as the name asked for, resolution is idempotent, and a name matches a family only if both resolve alike.\<close>

theorem aliases_stay_in_family:
  "(if family_matches f c then canonical_launch_family_id c = canonical_launch_family_id f else True) \<and>
   canonical_launch_family_id (canonical_launch_family_id f) = canonical_launch_family_id f \<and>
   list_all (\<lambda>n. canonical_launch_family_id n = canonical_launch_family_id f) (family_alias_candidates [f])"
  using identity_names_canonical[of _ f]
  by (auto simp: family_matches_def set_alias_candidates list_all_iff)

end
