(* ===== verification/Staged_Rollout.thy ===== *)
theory Staged_Rollout
  imports Family_Identity
begin

text \<open>
  The rollout of strategy families: health states (\<open>fund_os/health_states.py\<close>), the transition table
  (\<open>fund_os/state_transitions.py\<close>), the launch profile (\<open>fund_os/launch_modes.py\<close>) and the operations of
  \<open>StagedRolloutManager\<close> (\<open>fund_os/staged_rollout.py\<close>) that change it. An operation that raises returns
  the manager as the exception left it. What \<open>activation_decision\<close> answered, the clock and the rounding
  of the cost budget are arguments. Saving (\<open>persistence/repositories/launch_repository.py\<close>) may fail
  at each of its steps; how the coming saves end is part of the manager.
\<close>

section \<open>Health states\<close>

datatype health_state = LIVE | DEGRADED | OBSERVE_ONLY | CAPPED_LIVE | DISABLED | QUARANTINED

fun hs_value :: "health_state \<Rightarrow> string" where
  "hs_value LIVE = ''live''"
| "hs_value DEGRADED = ''degraded''"
| "hs_value OBSERVE_ONLY = ''observe_only''"
| "hs_value CAPPED_LIVE = ''capped_live''"
| "hs_value DISABLED = ''disabled''"
| "hs_value QUARANTINED = ''quarantined''"

definition HEALTH_PRIORITY :: "(string \<times> nat) list" where
  "HEALTH_PRIORITY = [(hs_value LIVE, 5), (hs_value CAPPED_LIVE, 4), (hs_value DEGRADED, 3),
     (hs_value OBSERVE_ONLY, 2), (hs_value DISABLED, 1), (hs_value QUARANTINED, 0)]"

definition is_health_state :: "string \<Rightarrow> bool" where
  "is_health_state s = (map_of HEALTH_PRIORITY s \<noteq> None)"

definition normalize_health_state :: "pyval \<Rightarrow> string \<Rightarrow> string" where
  "normalize_health_state v dflt =
     (let raw = lower (strip (str_or_empty v)) in if is_health_state raw then raw else dflt)"

definition normalized :: "pyval \<Rightarrow> string" where
  "normalized v = normalize_health_state v (hs_value OBSERVE_ONLY)"

definition health_rank :: "string \<Rightarrow> nat" where
  "health_rank s = the (map_of HEALTH_PRIORITY s)"

definition worst_health_state :: "pyval list \<Rightarrow> string" where
  "worst_health_state states =
     fst (foldl (\<lambda>(selected, rank) s. let n = normalized s in
            if health_rank n < rank then (n, health_rank n) else (selected, rank))
          (normalized PNone, health_rank (normalized PNone)) states)"

section \<open>Transitions\<close>

definition ALLOWED :: "(string \<times> string list) list" where
  "ALLOWED =
    [(hs_value LIVE, map hs_value [CAPPED_LIVE, DEGRADED, OBSERVE_ONLY, DISABLED, QUARANTINED]),
     (hs_value CAPPED_LIVE, map hs_value [LIVE, DEGRADED, OBSERVE_ONLY, DISABLED, QUARANTINED]),
     (hs_value DEGRADED, map hs_value [CAPPED_LIVE, OBSERVE_ONLY, DISABLED, QUARANTINED]),
     (hs_value OBSERVE_ONLY, map hs_value [CAPPED_LIVE, LIVE, DISABLED, QUARANTINED]),
     (hs_value DISABLED, map hs_value [OBSERVE_ONLY, CAPPED_LIVE]),
     (hs_value QUARANTINED, map hs_value [OBSERVE_ONLY, DISABLED])]"

definition allowed_from :: "string \<Rightarrow> string list" where
  "allowed_from s = (case map_of ALLOWED s of None \<Rightarrow> [] | Some ts \<Rightarrow> ts)"

datatype launch_error = InvalidTransition string string | Py pyerr

definition transition_dict :: "string \<Rightarrow> string \<Rightarrow> string \<Rightarrow> string \<Rightarrow> string \<Rightarrow> pydict \<Rightarrow> int \<Rightarrow> bool \<Rightarrow> pydict" where
  "transition_dict family cur tgt actor reason details ts changed =
     [(''family'', PStr family), (''from_state'', PStr cur), (''to_state'', PStr tgt), (''actor'', PStr actor),
      (''reason_code'', PStr reason), (''details'', PDict details), (''ts_ms'', PInt ts), (''changed'', PBool changed)]"

definition apply_transition ::
    "string \<Rightarrow> pyval \<Rightarrow> pyval \<Rightarrow> string \<Rightarrow> string \<Rightarrow> pydict \<Rightarrow> int \<Rightarrow> launch_error + pydict" where
  "apply_transition family current_state target_state actor reason_code details ts =
     (let cur = normalized current_state; tgt = normalized target_state in
      if cur = tgt
      then Inr (transition_dict family cur tgt (or_default actor ''system'') (or_default reason_code ''noop'') details ts False)
      else if tgt \<notin> set (allowed_from cur) then Inl (InvalidTransition cur tgt)
      else Inr (transition_dict family cur tgt (or_default actor ''system'') (or_default reason_code ''state_transition'') details ts True))"

definition append_transition :: "pydict list \<Rightarrow> pydict \<Rightarrow> pydict list" where
  "append_transition history t = (let out = history @ [t] in drop (length out - 200) out)"

section \<open>The launch profile\<close>

datatype launch_mode = V1_ONLY | V1_PLUS_STABLE_ALPHA | STAGED_MULTI_STRATEGY | FULL_MULTI_STRATEGY

fun mode_value :: "launch_mode \<Rightarrow> string" where
  "mode_value V1_ONLY = ''V1_ONLY''"
| "mode_value V1_PLUS_STABLE_ALPHA = ''V1_PLUS_STABLE_ALPHA''"
| "mode_value STAGED_MULTI_STRATEGY = ''STAGED_MULTI_STRATEGY''"
| "mode_value FULL_MULTI_STRATEGY = ''FULL_MULTI_STRATEGY''"

definition DEFAULT_ACTIVATION_ORDER :: "string list" where
  "DEFAULT_ACTIVATION_ORDER = [''flash_arb'', ''funding_arb'', ''cex_cex_arb'', ''liquidation_capture'',
     ''mev_search'', ''stat_arb'', ''volatility_market_making'', ''treasury_yield'']"

definition default_state :: "string \<Rightarrow> string" where
  "default_state family = (if family = ''flash_arb'' then hs_value LIVE else hs_value OBSERVE_ONLY)"

record profile =
  lp_mode :: string
  lp_active :: "string list"
  lp_requested :: "string list"
  lp_order :: "string list"
  lp_states :: pydict
  lp_history :: "pydict list"
  lp_budget :: pydict
  lp_recommendation :: pydict
  lp_last :: pydict
  lp_updated :: int

definition default_profile :: profile where
  "default_profile = \<lparr>lp_mode = mode_value V1_ONLY, lp_active = [''flash_arb''], lp_requested = [],
     lp_order = DEFAULT_ACTIVATION_ORDER,
     lp_states = map (\<lambda>f. (f, PStr (default_state f))) DEFAULT_ACTIVATION_ORDER, lp_history = [],
     lp_budget = [(''max_trades'', PInt 3), (''max_capital_usd'', PFloat (FFin 25000 0 ''25000.0'')),
       (''max_cost_usd'', PFloat (FFin 500 0 ''500.0'')), (''used_trades'', PInt 0), (''used_cost_usd'', PFloat (FFin 0 0 ''0.0''))],
     lp_recommendation = [], lp_last = [], lp_updated = 0\<rparr>"

section \<open>The manager\<close>

text \<open>
  \<open>LaunchRepository.save\<close> writes a file and then a row of the database. Either may raise: opening
  the file before anything is changed, writing it when it is already truncated, and the database when the
  file is already new. The manager holds what its own saves left of the file and of the row, and how
  its next saves end, in order; past the end of that list they succeed.
\<close>

datatype save_end = Stored | NotOpened | Torn | RowRefused

datatype launch_file = AsFound | Garbled | Holds profile

record manager =
  mg_profile :: profile
  mg_file :: launch_file
  mg_row :: "profile option"
  mg_ends :: "save_end list"

definition save_launch :: "manager \<Rightarrow> manager \<times> pyerr option" where
  "save_launch mg =
     (let p = mg_profile mg; rest = mg\<lparr>mg_ends := tl (mg_ends mg)\<rparr> in
      case (case mg_ends mg of [] \<Rightarrow> Stored | e # _ \<Rightarrow> e) of
        Stored \<Rightarrow> (rest\<lparr>mg_file := Holds p, mg_row := Some p\<rparr>, None)
      | NotOpened \<Rightarrow> (rest, Some OSError)
      | Torn \<Rightarrow> (rest\<lparr>mg_file := Garbled\<rparr>, Some OSError)
      | RowRefused \<Rightarrow> (rest\<lparr>mg_file := Holds p\<rparr>, Some SqliteError))"

text \<open>What \<open>LaunchRepository.load\<close> finds: the file when it parses, else the row; \<open>f0\<close>, \<open>r0\<close> were there before.\<close>

definition load_launch :: "profile option \<Rightarrow> profile option \<Rightarrow> manager \<Rightarrow> profile option" where
  "load_launch f0 r0 mg =
     (let row = (case mg_row mg of None \<Rightarrow> r0 | Some p \<Rightarrow> Some p) in
      case mg_file mg of Holds p \<Rightarrow> Some p | Garbled \<Rightarrow> row
      | AsFound \<Rightarrow> (case f0 of None \<Rightarrow> row | Some p \<Rightarrow> Some p))"

text \<open>The profile changes in memory first; whether it was saved shows in the second component.\<close>

definition touch_profile :: "string \<Rightarrow> int \<Rightarrow> manager \<Rightarrow> manager \<times> pyerr option" where
  "touch_profile reason now mg =
     (let p = (mg_profile mg)\<lparr>lp_updated := now\<rparr>;
          p' = (if reason \<noteq> [] then p\<lparr>lp_history := append_transition (lp_history p)
                 [(''ts_ms'', PInt now), (''reason_code'', PStr reason), (''profile_mode'', PStr (lp_mode p)),
                  (''active_families'', PList (map PStr (lp_active p)))]\<rparr> else p)
      in save_launch (mg\<lparr>mg_profile := p'\<rparr>))"

text \<open>\<open>self._touch(reason)\<close> followed by the answer: an exception of the save is raised to the caller.\<close>

definition touch_then :: "string \<Rightarrow> int \<Rightarrow> manager \<Rightarrow> (manager \<Rightarrow> 'a) \<Rightarrow> manager \<times> (launch_error + 'a)" where
  "touch_then reason now mg answer =
     (case touch_profile reason now mg of
        (mg', Some e) \<Rightarrow> (mg', Inl (Py e))
      | (mg', None) \<Rightarrow> (mg', Inr (answer mg')))"

definition normalize_states :: "pydict \<Rightarrow> pydict" where
  "normalize_states states = fold (\<lambda>f st. dset st f (PStr (case map_of st f of
       None \<Rightarrow> default_state f
     | Some v \<Rightarrow> normalize_health_state v (default_state f)))) DEFAULT_ACTIVATION_ORDER states"

definition normalize_profile :: "profile \<Rightarrow> profile" where
  "normalize_profile p =
     (let states = normalize_states (lp_states p);
          active = filter (\<lambda>f. f \<in> set DEFAULT_ACTIVATION_ORDER)
            (if ''flash_arb'' \<notin> set (lp_active p) then ''flash_arb'' # lp_active p else lp_active p) in
      if lp_mode p = mode_value V1_ONLY
      then p\<lparr>lp_active := [''flash_arb''],
             lp_states := fold (\<lambda>f st. if f \<noteq> ''flash_arb'' \<and> dget st f = PStr (hs_value LIVE)
               then dset st f (PStr (hs_value OBSERVE_ONLY)) else st) DEFAULT_ACTIVATION_ORDER states\<rparr>
      else p\<lparr>lp_active := active, lp_states := states\<rparr>)"

text \<open>The constructor: the loaded profile is normalised, and saved only when it is new; it raises when that
  save does.\<close>

definition new_manager :: "profile \<Rightarrow> save_end list \<Rightarrow> int \<Rightarrow> manager \<times> pyerr option" where
  "new_manager loaded ends now =
     (let mg = \<lparr>mg_profile = normalize_profile loaded, mg_file = AsFound, mg_row = None, mg_ends = ends\<rparr> in
      if lp_updated loaded = 0 then touch_profile ''bootstrap'' now mg else (mg, None))"

definition current_state :: "profile \<Rightarrow> string \<Rightarrow> pyval" where
  "current_state p family = dget_or (lp_states p) family (PStr (hs_value OBSERVE_ONLY))"

definition apply_family_state ::
    "manager \<Rightarrow> string \<Rightarrow> string \<Rightarrow> string \<Rightarrow> string \<Rightarrow> pydict \<Rightarrow> int \<Rightarrow> manager \<times> (launch_error + pydict)" where
  "apply_family_state mg family target_state actor reason_code details ts =
     (case apply_transition family (current_state (mg_profile mg) family) (PStr target_state) actor reason_code details ts of
        Inl e \<Rightarrow> (mg, Inl e)
      | Inr t \<Rightarrow> (mg\<lparr>mg_profile := (mg_profile mg)
            \<lparr>lp_states := dset (lp_states (mg_profile mg)) family (dget t ''to_state''),
             lp_last := t, lp_history := append_transition (lp_history (mg_profile mg)) t\<rparr>\<rparr>, Inr t))"

datatype rollout_reply =
    Refused string pyval
  | Denied string "string list" string pyval
  | Enabled pyval pydict
  | Moved pydict
  | ModeSet profile

definition set_mode :: "string \<Rightarrow> int \<Rightarrow> manager \<Rightarrow> manager \<times> (launch_error + rollout_reply)" where
  "set_mode mode now mg =
     (let m0 = or_default mode (mode_value V1_ONLY);
          m = (if m0 \<in> set (map mode_value [V1_ONLY, V1_PLUS_STABLE_ALPHA, STAGED_MULTI_STRATEGY, FULL_MULTI_STRATEGY])
               then m0 else mode_value V1_ONLY);
          p = (mg_profile mg)\<lparr>lp_mode := m\<rparr>;
          p' = (if m = mode_value V1_ONLY
                then p\<lparr>lp_active := [''flash_arb''],
                       lp_states := fold (\<lambda>f st. dset st f (PStr (default_state f))) DEFAULT_ACTIVATION_ORDER (lp_states p)\<rparr>
                else if m = mode_value V1_PLUS_STABLE_ALPHA
                then (let st = dset (lp_states p) ''flash_arb'' (PStr (hs_value LIVE)) in
                      p\<lparr>lp_active := [''flash_arb'', ''funding_arb''],
                        lp_states := dset st ''funding_arb''
                          (PStr (normalize_health_state (dget st ''funding_arb'') (hs_value CAPPED_LIVE)))\<rparr>)
                else p)
      in touch_then (''mode_set:'' @ m) now (mg\<lparr>mg_profile := p'\<rparr>) (\<lambda>mg'. ModeSet (mg_profile mg')))"

text \<open>\<open>round(float(v) + cost, 6)\<close> is the argument \<open>add_cost\<close>; it may raise.\<close>

definition update_exploration_budget :: "(pyval \<Rightarrow> pyval res) \<Rightarrow> int \<Rightarrow> profile \<Rightarrow> profile res" where
  "update_exploration_budget add_cost trades p =
     rbind (py_int (por (dget_or (lp_budget p) ''used_trades'' (PInt 0)) (PInt 0))) (\<lambda>used.
     rbind (add_cost (por (dget_or (lp_budget p) ''used_cost_usd'' (PFloat (FFin 0 0 ''0.0''))) (PFloat (FFin 0 0 ''0.0'')))) (\<lambda>cost.
       Inr (p\<lparr>lp_budget := dset (dset (lp_budget p) ''used_trades'' (PInt (used + trades))) ''used_cost_usd'' cost\<rparr>)))"

record verdict =
  vd_allowed :: bool
  vd_reason :: string
  vd_blocked_by :: "string list"
  vd_next_action :: string
  vd_degraded_mode :: string
  vd_readiness :: pyval

definition blocked_readiness :: "string \<Rightarrow> string \<Rightarrow> pyval" where
  "blocked_readiness family code = PDict [(''family'', PStr family), (''ready'', PBool False),
     (''reasons'', PList [PStr code]), (''blockers'', PList [PStr code]), (''status'', PStr ''blocked'')]"

definition refused :: "string \<Rightarrow> string \<Rightarrow> rollout_reply" where
  "refused family code = Refused code (blocked_readiness family code)"

text \<open>The activation the verdict allowed: the lists change first, then the state, which may raise.\<close>

definition enable_target :: "string \<Rightarrow> verdict \<Rightarrow> string" where
  "enable_target family dec =
     (if family = ''flash_arb'' then hs_value LIVE
      else if vd_degraded_mode dec \<in> {'''', hs_value OBSERVE_ONLY} then hs_value CAPPED_LIVE
      else vd_degraded_mode dec)"

definition activate_family ::
    "(pyval \<Rightarrow> pyval res) \<Rightarrow> string \<Rightarrow> string \<Rightarrow> verdict \<Rightarrow> string \<Rightarrow> int \<Rightarrow> int \<Rightarrow> manager \<Rightarrow> manager \<times> (launch_error + rollout_reply)" where
  "activate_family add_cost family stage dec actor ts now mg =
     (let p = mg_profile mg;
          p1 = p\<lparr>lp_active := (if family \<notin> set (lp_active p) then lp_active p @ [family] else lp_active p),
                 lp_requested := sorted_list_of_set (set (lp_requested p @ [family]))\<rparr>;
          mg1 = mg\<lparr>mg_profile := p1\<rparr>;
          details = [(''stage'', PStr stage)];
          applied = (case apply_family_state mg1 family (enable_target family dec) actor ''family_enabled'' details ts of
              (mg2, Inr t) \<Rightarrow> (mg2, Inr t)
            | (mg2, Inl e) \<Rightarrow> apply_family_state mg2 family (hs_value CAPPED_LIVE) actor ''family_enabled_safe_fallback'' details ts)
      in case applied of
           (mg2, Inl e) \<Rightarrow> (mg2, Inl e)
         | (mg2, Inr t) \<Rightarrow>
             (case (if is_core_launch_family family then Inr (mg_profile mg2) else update_exploration_budget add_cost 1 (mg_profile mg2)) of
                Inl e \<Rightarrow> (mg2, Inl (Py e))
              | Inr p3 \<Rightarrow> touch_then (''family_enabled:'' @ family) now (mg2\<lparr>mg_profile := p3\<rparr>)
                             (\<lambda>mg3. Enabled (vd_readiness dec) (lp_last (mg_profile mg3)))))"

definition enable_family ::
    "(pyval \<Rightarrow> pyval res) \<Rightarrow> (string \<Rightarrow> profile \<Rightarrow> verdict) \<Rightarrow> string \<Rightarrow> string \<Rightarrow> string \<Rightarrow> int \<Rightarrow> int \<Rightarrow> manager
     \<Rightarrow> manager \<times> (launch_error + rollout_reply)" where
  "enable_family add_cost decide family0 stage actor ts now mg =
     (let family = canonical_launch_family_id family0; p = mg_profile mg in
      if lp_mode p = mode_value V1_ONLY \<and> \<not> is_core_launch_family family
      then (mg, Inr (refused family ''launch_mode_v1_only''))
      else
        case (if family \<in> set (lp_active p) then Inr False
              else rbind (py_int (por (dget_or (lp_budget p) ''used_trades'' (PInt 0)) (PInt 0))) (\<lambda>used.
                   rbind (py_int (dget_or (lp_budget p) ''max_trades'' (PInt 3))) (\<lambda>mx. Inr (mx \<le> used)))) of
          Inl e \<Rightarrow> (mg, Inl (Py e))
        | Inr True \<Rightarrow> (mg, Inr (refused family ''exploration_budget_exhausted''))
        | Inr False \<Rightarrow>
            (let dec = decide family p in
             if \<not> vd_allowed dec
             then (mg, Inr (Denied (vd_reason dec) (vd_blocked_by dec) (vd_next_action dec) (vd_readiness dec)))
             else activate_family add_cost family stage dec actor ts now mg))"

definition drop_active :: "string \<Rightarrow> manager \<Rightarrow> manager" where
  "drop_active family mg =
     (if is_core_launch_family family then mg
      else mg\<lparr>mg_profile := (mg_profile mg)\<lparr>lp_active :=
        filter (\<lambda>f. f \<noteq> family) (map canonical_launch_family_id (lp_active (mg_profile mg)))\<rparr>\<rparr>)"

definition finish_move :: "string \<Rightarrow> int \<Rightarrow> manager \<times> (launch_error + pydict) \<Rightarrow> manager \<times> (launch_error + rollout_reply)" where
  "finish_move reason now r = (case r of
     (mg, Inl e) \<Rightarrow> (mg, Inl e)
   | (mg, Inr t) \<Rightarrow> touch_then reason now mg (\<lambda>mg'. Moved t))"

definition pause_family :: "string \<Rightarrow> string \<Rightarrow> int \<Rightarrow> int \<Rightarrow> manager \<Rightarrow> manager \<times> (launch_error + rollout_reply)" where
  "pause_family family0 actor ts now mg =
     (let family = canonical_launch_family_id family0 in
      finish_move (''family_paused:'' @ family) now
        (apply_family_state (drop_active family mg) family (hs_value OBSERVE_ONLY) actor ''family_paused'' [] ts))"

definition revert_family :: "string \<Rightarrow> string \<Rightarrow> int \<Rightarrow> int \<Rightarrow> manager \<Rightarrow> manager \<times> (launch_error + rollout_reply)" where
  "revert_family family0 actor ts now mg =
     (let family = canonical_launch_family_id family0;
          target = (if \<not> is_core_launch_family family then hs_value OBSERVE_ONLY else hs_value CAPPED_LIVE) in
      case apply_family_state mg family target actor ''family_reverted'' [] ts of
        (mg1, Inl e) \<Rightarrow> (mg1, Inl e)
      | (mg1, Inr t) \<Rightarrow> touch_then (''family_reverted:'' @ family) now (drop_active family mg1) (\<lambda>mg'. Moved t))"

definition quarantine_family :: "string \<Rightarrow> string \<Rightarrow> string \<Rightarrow> int \<Rightarrow> int \<Rightarrow> manager \<Rightarrow> manager \<times> (launch_error + rollout_reply)" where
  "quarantine_family family0 actor reason_code ts now mg =
     (let family = canonical_launch_family_id family0 in
      finish_move (''family_quarantined:'' @ family) now
        (apply_family_state (drop_active family mg) family (hs_value QUARANTINED) actor reason_code [] ts))"

section \<open>Operations as steps\<close>

datatype rollout_op =
    OpEnable string string verdict string int int
  | OpPause string string int int
  | OpRevert string string int int
  | OpQuarantine string string string int int
  | OpMode string int

fun rollout_step :: "(pyval \<Rightarrow> pyval res) \<Rightarrow> manager \<Rightarrow> rollout_op \<Rightarrow> manager" where
  "rollout_step ac mg (OpEnable f stage dec actor ts now) = fst (enable_family ac (\<lambda>_ _. dec) f stage actor ts now mg)"
| "rollout_step ac mg (OpPause f actor ts now) = fst (pause_family f actor ts now mg)"
| "rollout_step ac mg (OpRevert f actor ts now) = fst (revert_family f actor ts now mg)"
| "rollout_step ac mg (OpQuarantine f actor reason ts now) = fst (quarantine_family f actor reason ts now mg)"
| "rollout_step ac mg (OpMode m now) = fst (set_mode m now mg)"

fun op_family :: "rollout_op \<Rightarrow> string option" where
  "op_family (OpEnable f _ _ _ _ _) = Some (canonical_launch_family_id f)"
| "op_family (OpPause f _ _ _) = Some (canonical_launch_family_id f)"
| "op_family (OpRevert f _ _ _) = Some (canonical_launch_family_id f)"
| "op_family (OpQuarantine f _ _ _ _) = Some (canonical_launch_family_id f)"
| "op_family (OpMode _ _) = None"

definition rollout_run :: "(pyval \<Rightarrow> pyval res) \<Rightarrow> manager \<Rightarrow> rollout_op list \<Rightarrow> manager" where
  "rollout_run ac mg ops = foldl (rollout_step ac) mg ops"

definition state_of :: "manager \<Rightarrow> string \<Rightarrow> string" where
  "state_of mg g = normalized (current_state (mg_profile mg) g)"

abbreviation states_in :: "manager \<Rightarrow> pydict" where
  "states_in mg \<equiv> lp_states (mg_profile mg)"

section \<open>Normal forms\<close>

declare hs_value.simps [simp del]

lemmas hs_values = hs_value.simps

lemma is_health_state_iff: "is_health_state s \<longleftrightarrow> (\<exists>h. s = hs_value h)"
proof
  assume "is_health_state s"
  then have "s \<in> fst ` set HEALTH_PRIORITY" by (auto simp: is_health_state_def map_of_eq_None_iff)
  then show "\<exists>h. s = hs_value h" by (auto simp: HEALTH_PRIORITY_def)
next
  assume "\<exists>h. s = hs_value h"
  then obtain h where "s = hs_value h" by blast
  then show "is_health_state s" by (cases h) (simp_all add: is_health_state_def HEALTH_PRIORITY_def hs_values)
qed

lemma lower_strip_hs: "lower (strip (hs_value h)) = hs_value h"
  by (cases h) (simp_all add: strip_def lower_char_def is_space_def hs_values)

lemma normalize_hs [simp]: "normalize_health_state (PStr (hs_value h)) d = hs_value h"
proof -
  have "hs_value h \<noteq> []" by (cases h) (simp_all add: hs_values)
  then have "str_or_empty (PStr (hs_value h)) = hs_value h" by (simp add: str_or_empty_def)
  then show ?thesis by (auto simp: normalize_health_state_def lower_strip_hs is_health_state_iff Let_def)
qed

lemma normalized_hs [simp]: "normalized (PStr (hs_value h)) = hs_value h"
  by (simp add: normalized_def)

lemma normalize_is_state: "\<exists>h. d = hs_value h \<Longrightarrow> \<exists>h. normalize_health_state v d = hs_value h"
  by (auto simp: normalize_health_state_def Let_def is_health_state_iff[symmetric])

lemma normalizedE: obtains h where "normalized v = hs_value h"
  using normalize_is_state[of "hs_value OBSERVE_ONLY" v] by (auto simp: normalized_def)

lemma normalized_normalized [simp]: "normalized (PStr (normalized v)) = normalized v"
  by (metis normalizedE normalized_hs)

lemma hs_value_inj [simp]: "hs_value a = hs_value b \<longleftrightarrow> a = b"
  by (cases a; cases b) (simp_all add: hs_values)

lemma save_launch_profile [simp]: "mg_profile (fst (save_launch mg)) = mg_profile mg"
  by (simp add: save_launch_def Let_def split: save_end.split)

lemma touch_then_fst [simp]: "fst (touch_then reason now mg answer) = fst (touch_profile reason now mg)"
  by (simp add: touch_then_def split: prod.split option.split)

lemma states_touch [simp]: "states_in (fst (touch_profile reason now mg)) = states_in mg"
  by (simp add: touch_profile_def Let_def)

lemma states_drop_active [simp]: "states_in (drop_active family mg) = states_in mg"
  by (simp add: drop_active_def)

lemma state_of_states: "states_in mg = states_in mg' \<Longrightarrow> state_of mg g = state_of mg' g"
  by (simp add: state_of_def current_state_def)

lemma state_of_touch [simp]: "state_of (fst (touch_profile reason now mg)) g = state_of mg g"
  by (rule state_of_states) simp

lemma state_of_drop_active [simp]: "state_of (drop_active family mg) g = state_of mg g"
  by (rule state_of_states) simp

section \<open>One move\<close>

text \<open>What a move to a target does to the state of one family: nothing, or one edge of the table.\<close>

definition moves_by_table :: "manager \<Rightarrow> manager \<Rightarrow> string \<Rightarrow> bool" where
  "moves_by_table mg mg' family \<longleftrightarrow>
     (\<forall>g. state_of mg' g = state_of mg g \<or> g = family \<and> state_of mg' g \<in> set (allowed_from (state_of mg g)))"

lemma apply_family_state_ok:
  assumes "apply_family_state mg family target actor reason details ts = (mg', Inr t)"
  shows "state_of mg' family = normalized (PStr target)"
    and "g \<noteq> family \<Longrightarrow> state_of mg' g = state_of mg g"
    and "normalized (PStr target) = state_of mg family \<or> normalized (PStr target) \<in> set (allowed_from (state_of mg family))"
    and "states_in mg' = dset (states_in mg) family (PStr (normalized (PStr target)))"
    and "lp_history (mg_profile mg') = append_transition (lp_history (mg_profile mg)) t"
proof -
  have n: "normalized (current_state (mg_profile mg) family) = state_of mg family" by (simp add: state_of_def)
  from assms have t: "dget t ''to_state'' = PStr (normalized (PStr target))"
      "normalized (PStr target) = state_of mg family \<or> normalized (PStr target) \<in> set (allowed_from (state_of mg family))"
      "mg' = mg\<lparr>mg_profile := (mg_profile mg)\<lparr>lp_states := dset (states_in mg) family (dget t ''to_state''),
             lp_last := t, lp_history := append_transition (lp_history (mg_profile mg)) t\<rparr>\<rparr>"
    by (auto simp: apply_family_state_def apply_transition_def Let_def transition_dict_def n split: if_splits)
  then show "states_in mg' = dset (states_in mg) family (PStr (normalized (PStr target)))"
    "lp_history (mg_profile mg') = append_transition (lp_history (mg_profile mg)) t"
    "normalized (PStr target) = state_of mg family \<or> normalized (PStr target) \<in> set (allowed_from (state_of mg family))"
    by simp_all
  then show "state_of mg' family = normalized (PStr target)" "g \<noteq> family \<Longrightarrow> state_of mg' g = state_of mg g"
    by (simp_all add: state_of_def current_state_def)
qed

lemma apply_family_state_error:
  "apply_family_state mg family target actor reason details ts = (mg', Inl e) \<longleftrightarrow>
     mg' = mg \<and> e = InvalidTransition (state_of mg family) (normalized (PStr target)) \<and>
     normalized (PStr target) \<noteq> state_of mg family \<and> normalized (PStr target) \<notin> set (allowed_from (state_of mg family))"
  by (auto simp: apply_family_state_def apply_transition_def Let_def state_of_def)

lemma apply_family_state_by_table:
  "apply_family_state mg family target actor reason details ts = (mg', r) \<Longrightarrow> moves_by_table mg mg' family"
  by (cases r) (auto simp: apply_family_state_error moves_by_table_def dest: apply_family_state_ok(1,3), (metis apply_family_state_ok(1-3))+)

lemma moves_by_table_via:
  "moves_by_table mg1 mg2 family \<Longrightarrow> states_in mg1 = states_in mg \<Longrightarrow> states_in mg2 = states_in mg' \<Longrightarrow> moves_by_table mg mg' family"
  by (simp add: moves_by_table_def state_of_def current_state_def)

lemma moves_by_table_refl: "states_in mg' = states_in mg \<Longrightarrow> moves_by_table mg mg' family"
  by (simp add: moves_by_table_def state_of_def current_state_def)

lemma finish_move_states: "states_in (fst (finish_move reason now r)) = states_in (fst r)"
  by (auto simp: finish_move_def split: prod.split sum.split)

lemma update_budget_states: "update_exploration_budget ac n p = Inr p' \<Longrightarrow> lp_states p' = lp_states p"
  by (auto simp: update_exploration_budget_def rbind_eq_Inr)

lemma update_budget_history: "update_exploration_budget ac n p = Inr p' \<Longrightarrow> lp_history p' = lp_history p"
  by (auto simp: update_exploration_budget_def rbind_eq_Inr)

text \<open>Activation moves the state once: to the target, else to capped live.\<close>

definition activation_base :: "string \<Rightarrow> manager \<Rightarrow> manager" where
  "activation_base family mg = mg\<lparr>mg_profile := (mg_profile mg)
     \<lparr>lp_active := (if family \<notin> set (lp_active (mg_profile mg)) then lp_active (mg_profile mg) @ [family] else lp_active (mg_profile mg)),
      lp_requested := sorted_list_of_set (set (lp_requested (mg_profile mg) @ [family]))\<rparr>\<rparr>"

lemma states_activation_base [simp]: "states_in (activation_base family mg) = states_in mg"
  by (simp add: activation_base_def)

definition activation_move :: "string \<Rightarrow> string \<Rightarrow> verdict \<Rightarrow> string \<Rightarrow> int \<Rightarrow> manager \<Rightarrow> manager \<times> (launch_error + pydict)" where
  "activation_move family stage dec actor ts mg =
     (case apply_family_state mg family (enable_target family dec) actor ''family_enabled'' [(''stage'', PStr stage)] ts of
        (mg2, Inr t) \<Rightarrow> (mg2, Inr t)
      | (mg2, Inl e) \<Rightarrow> apply_family_state mg2 family (hs_value CAPPED_LIVE) actor ''family_enabled_safe_fallback'' [(''stage'', PStr stage)] ts)"

lemma activate_family_eq:
  "activate_family ac family stage dec actor ts now mg =
     (case activation_move family stage dec actor ts (activation_base family mg) of
        (mg2, Inl e) \<Rightarrow> (mg2, Inl e)
      | (mg2, Inr t) \<Rightarrow>
          (case (if is_core_launch_family family then Inr (mg_profile mg2) else update_exploration_budget ac 1 (mg_profile mg2)) of
             Inl e \<Rightarrow> (mg2, Inl (Py e))
           | Inr p3 \<Rightarrow> touch_then (''family_enabled:'' @ family) now (mg2\<lparr>mg_profile := p3\<rparr>)
                          (\<lambda>mg3. Enabled (vd_readiness dec) (lp_last (mg_profile mg3)))))"
  by (simp only: activate_family_def activation_move_def activation_base_def Let_def)

lemma activation_move_by_table: "moves_by_table mg (fst (activation_move family stage dec actor ts mg)) family"
proof -
  obtain mg2 r where a: "apply_family_state mg family (enable_target family dec) actor ''family_enabled'' [(''stage'', PStr stage)] ts = (mg2, r)"
    by (metis surj_pair)
  show ?thesis
  proof (cases r)
    case (Inl e)
    then have "mg2 = mg" using a by (simp add: apply_family_state_error)
    then show ?thesis using a Inl apply_family_state_by_table
      by (simp add: activation_move_def) (metis fst_conv surj_pair)
  next
    case (Inr t)
    then show ?thesis using a apply_family_state_by_table[OF a] by (simp add: activation_move_def)
  qed
qed

lemma activate_family_by_table: "moves_by_table mg (fst (activate_family ac family stage dec actor ts now mg)) family"
proof -
  obtain mg2 r where a: "activation_move family stage dec actor ts (activation_base family mg) = (mg2, r)" by (metis surj_pair)
  have "states_in (fst (activate_family ac family stage dec actor ts now mg)) = states_in mg2"
    using update_budget_states
    by (auto simp: activate_family_eq a Let_def split: sum.split)
  moreover have "moves_by_table (activation_base family mg) mg2 family"
    using activation_move_by_table[of "activation_base family mg" family stage dec actor ts] by (simp add: a)
  ultimately show ?thesis by (auto intro: moves_by_table_via)
qed

lemma enable_family_cases:
  "fst (enable_family ac decide f stage actor ts now mg) = mg \<or>
   fst (enable_family ac decide f stage actor ts now mg) =
     fst (activate_family ac (canonical_launch_family_id f) stage (decide (canonical_launch_family_id f) (mg_profile mg)) actor ts now mg)"
  by (auto simp: enable_family_def Let_def split: sum.split bool.split)

lemma apply_by_table: "moves_by_table mg (fst (apply_family_state mg family target actor reason details ts)) family"
  using apply_family_state_by_table by (metis prod.collapse)

lemma revert_states:
  "states_in (fst (revert_family f actor ts now mg)) =
   states_in (fst (apply_family_state mg (canonical_launch_family_id f)
     (if \<not> is_core_launch_family (canonical_launch_family_id f) then hs_value OBSERVE_ONLY else hs_value CAPPED_LIVE)
     actor ''family_reverted'' [] ts))"
  by (auto simp: revert_family_def Let_def split: prod.split sum.split)

lemma step_by_table:
  assumes "op_family op = Some family"
  shows "moves_by_table mg (rollout_step ac mg op) family"
proof (cases op)
  case (OpEnable f stage dec actor ts now)
  then show ?thesis
    using enable_family_cases[of ac "\<lambda>_ _. dec" f stage actor ts now mg] assms activate_family_by_table
    by (auto simp: moves_by_table_refl)
next
  case (OpPause f actor ts now)
  then show ?thesis using assms
    by (auto simp: pause_family_def Let_def intro: moves_by_table_via[OF apply_by_table states_drop_active finish_move_states[symmetric]])
next
  case (OpRevert f actor ts now)
  then show ?thesis using assms
    by (auto intro: moves_by_table_via[OF apply_by_table refl revert_states[symmetric]])
next
  case (OpQuarantine f actor reason ts now)
  then show ?thesis using assms
    by (auto simp: quarantine_family_def Let_def intro: moves_by_table_via[OF apply_by_table states_drop_active finish_move_states[symmetric]])
qed (use assms in simp)

text \<open>C16: every family operation obeys the transition table, also when it raises: enabling, pausing,
  reverting or quarantining a family leaves the state of every other family alone, and changes the state of
  its own by at most one edge of the table, whatever alias named it and whatever the verdict was.\<close>

theorem operations_follow_table:
  assumes "op_family op = Some family"
  shows "state_of (rollout_step ac mg op) g = state_of mg g \<or>
    g = family \<and> state_of (rollout_step ac mg op) g \<in> set (allowed_from (state_of mg g))"
  using step_by_table[OF assms, of mg ac] by (auto simp: moves_by_table_def)

section \<open>Quarantine\<close>

lemma allowed_values:
  "allowed_from (hs_value LIVE) = map hs_value [CAPPED_LIVE, DEGRADED, OBSERVE_ONLY, DISABLED, QUARANTINED]"
  "allowed_from (hs_value CAPPED_LIVE) = map hs_value [LIVE, DEGRADED, OBSERVE_ONLY, DISABLED, QUARANTINED]"
  "allowed_from (hs_value DEGRADED) = map hs_value [CAPPED_LIVE, OBSERVE_ONLY, DISABLED, QUARANTINED]"
  "allowed_from (hs_value OBSERVE_ONLY) = map hs_value [CAPPED_LIVE, LIVE, DISABLED, QUARANTINED]"
  "allowed_from (hs_value DISABLED) = map hs_value [OBSERVE_ONLY, CAPPED_LIVE]"
  "allowed_from (hs_value QUARANTINED) = map hs_value [OBSERVE_ONLY, DISABLED]"
  by (simp_all add: allowed_from_def ALLOWED_def)

lemma apply_refused:
  "state_of mg family = hs_value s \<Longrightarrow> normalized (PStr target) = hs_value t \<Longrightarrow> t \<noteq> s \<Longrightarrow>
   hs_value t \<notin> set (allowed_from (hs_value s)) \<Longrightarrow>
   apply_family_state mg family target actor reason details ts = (mg, Inl (InvalidTransition (hs_value s) (hs_value t)))"
  by (simp add: apply_family_state_error)

lemma state_activation_base [simp]: "state_of (activation_base family mg) g = state_of mg g"
  by (rule state_of_states) simp

lemma quarantined_activation:
  assumes "state_of mg family = hs_value QUARANTINED" and "enable_target family dec = hs_value t" and "t \<in> {LIVE, CAPPED_LIVE, DEGRADED}"
  shows "activate_family ac family stage dec actor ts now mg =
    (activation_base family mg, Inl (InvalidTransition (hs_value QUARANTINED) (hs_value CAPPED_LIVE)))"
proof -
  have "apply_family_state (activation_base family mg) family (hs_value t') actor reason details ts
      = (activation_base family mg, Inl (InvalidTransition (hs_value QUARANTINED) (hs_value t')))"
    if "t' \<in> {LIVE, CAPPED_LIVE, DEGRADED}" for t' reason details
    using assms(1) that by (intro apply_refused) (auto simp: allowed_values)
  then show ?thesis using assms by (simp add: activate_family_eq activation_move_def)
qed

lemma core_flash: "is_core_launch_family ''flash_arb''" "canonical_launch_family_id ''flash_arb'' = ''flash_arb''"
proof -
  show c: "canonical_launch_family_id ''flash_arb'' = ''flash_arb''"
    unfolding canonical_launch_family_id_def ALIAS_TO_LAUNCH_def alias_assignments_eval by simp
  show "is_core_launch_family ''flash_arb''"
    by (simp add: is_core_launch_family_def family_identity_def c FAMILY_IDENTITY_TABLE_def info_def Let_def)
qed

fun pauses_core :: "rollout_op \<Rightarrow> bool" where
  "pauses_core (OpPause f _ _ _) = (canonical_launch_family_id f = ''flash_arb'')"
| "pauses_core _ = False"

fun sets_mode :: "rollout_op \<Rightarrow> bool" where
  "sets_mode (OpMode _ _) = True"
| "sets_mode _ = False"

lemma quarantined_core_step:
  assumes q: "state_of mg ''flash_arb'' = hs_value QUARANTINED" and op: "\<not> pauses_core op" "\<not> sets_mode op"
  shows "state_of (rollout_step ac mg op) ''flash_arb'' = hs_value QUARANTINED"
proof -
  obtain family where f: "op_family op = Some family" using op by (cases op) auto
  show ?thesis
  proof (cases "family = ''flash_arb''")
    case False
    then show ?thesis using step_by_table[OF f, of mg ac] q unfolding moves_by_table_def by metis
  next
    case True
    note f = f[unfolded True]
    show ?thesis
    proof (cases op)
      case (OpEnable f0 stage dec actor ts now)
      have "activate_family ac ''flash_arb'' stage dec actor ts now mg =
          (activation_base ''flash_arb'' mg, Inl (InvalidTransition (hs_value QUARANTINED) (hs_value CAPPED_LIVE)))"
        by (rule quarantined_activation[OF q, where t = LIVE]) (simp_all add: enable_target_def)
      then show ?thesis
        using enable_family_cases[of ac "\<lambda>_ _. dec" f0 stage actor ts now mg] f OpEnable q by auto
    next
      case (OpRevert f0 actor ts now)
      have "apply_family_state mg ''flash_arb'' (hs_value CAPPED_LIVE) actor ''family_reverted'' [] ts =
          (mg, Inl (InvalidTransition (hs_value QUARANTINED) (hs_value CAPPED_LIVE)))"
        by (rule apply_refused[OF q]) (simp_all add: allowed_values)
      then have "states_in (fst (revert_family f0 actor ts now mg)) = states_in mg"
        using f OpRevert by (simp add: revert_states core_flash)
      from state_of_states[OF this, of "''flash_arb''"] show ?thesis using OpRevert q by simp
    next
      case (OpQuarantine f0 actor reason ts now)
      obtain mg2 r where a: "apply_family_state (drop_active ''flash_arb'' mg) ''flash_arb'' (hs_value QUARANTINED) actor reason [] ts = (mg2, r)"
        by (metis surj_pair)
      then have "state_of mg2 ''flash_arb'' = hs_value QUARANTINED"
        using q by (cases r) (auto simp: apply_family_state_error dest: apply_family_state_ok(1))
      then show ?thesis
        using f OpQuarantine a
        by (simp add: quarantine_family_def Let_def state_of_states[OF finish_move_states])
    qed (use f op in simp_all)
  qed
qed

text \<open>C17: a quarantined core family stays quarantined: no sequence of enabling, reverting or quarantining
  operations, on any families under any aliases and with any verdicts, and no pause of another family,
  changes its state. Only a pause of the core family or a change of the launch mode does.\<close>

theorem core_quarantine_sticks:
  assumes "state_of mg ''flash_arb'' = hs_value QUARANTINED"
    and "list_all (\<lambda>op. \<not> pauses_core op \<and> \<not> sets_mode op) ops"
  shows "state_of (rollout_run ac mg ops) ''flash_arb'' = hs_value QUARANTINED"
  using assms
proof (induction ops arbitrary: mg)
  case Nil
  then show ?case by (simp add: rollout_run_def)
next
  case (Cons op ops)
  from Cons.IH[of "rollout_step ac mg op"] quarantined_core_step[of mg op ac] Cons.prems show ?case
    by (simp add: rollout_run_def)
qed

lemma fold_dset_get:
  "dget_or (fold (\<lambda>f st. dset st f (PStr (v f))) fs st) g d = (if g \<in> set fs then PStr (v g) else dget_or st g d)"
  by (induction fs arbitrary: st) auto

text \<open>Changing the launch mode to \<open>V1_ONLY\<close> bypasses the table: it puts the core family straight to
  live and every other family of the rollout order to observe only, quarantined and disabled ones
  included, an edge the table forbids, and no transition is recorded: the last transition stays what it was
  and the history gains only the entry of the mode change.\<close>

theorem v1_only_lifts_quarantine:
  "hs_value LIVE \<notin> set (allowed_from (hs_value QUARANTINED)) \<and>
   state_of (fst (set_mode ''V1_ONLY'' now mg)) ''flash_arb'' = hs_value LIVE \<and>
   list_all (\<lambda>f. state_of (fst (set_mode ''V1_ONLY'' now mg)) f = default_state f) DEFAULT_ACTIVATION_ORDER \<and>
   lp_last (mg_profile (fst (set_mode ''V1_ONLY'' now mg))) = lp_last (mg_profile mg) \<and>
   lp_history (mg_profile (fst (set_mode ''V1_ONLY'' now mg))) = append_transition (lp_history (mg_profile mg))
     [(''ts_ms'', PInt now), (''reason_code'', PStr ''mode_set:V1_ONLY''), (''profile_mode'', PStr ''V1_ONLY''),
      (''active_families'', PList [PStr ''flash_arb''])]"
proof -
  have st: "states_in (fst (set_mode ''V1_ONLY'' now mg)) = fold (\<lambda>f st. dset st f (PStr (default_state f))) DEFAULT_ACTIVATION_ORDER (states_in mg)"
    by (simp add: set_mode_def or_default_def Let_def)
  have all: "state_of (fst (set_mode ''V1_ONLY'' now mg)) f = default_state f" if "f \<in> set DEFAULT_ACTIVATION_ORDER" for f
    using that by (simp add: state_of_def current_state_def st fold_dset_get default_state_def)
  have "''flash_arb'' \<in> set DEFAULT_ACTIVATION_ORDER" by (simp add: DEFAULT_ACTIVATION_ORDER_def)
  from all[OF this] all show ?thesis
    by (simp add: allowed_values list_all_iff default_state_def) (simp add: set_mode_def or_default_def Let_def touch_profile_def)
qed

text \<open>Enabling a quarantined family fails half way: both the target and the fallback are forbidden from
  quarantine, so the call raises, the family stays quarantined and nothing is saved, but the family has
  already been added to the active families, and the next operation that saves makes that permanent.\<close>

theorem failed_enable_leaves_active:
  assumes "state_of mg family = hs_value QUARANTINED" and "canonical_launch_family_id f = family"
    and "is_core_launch_family family \<or> lp_mode (mg_profile mg) \<noteq> ''V1_ONLY''"
    and "lp_budget (mg_profile mg) = [(''max_trades'', PInt mx), (''used_trades'', PInt used)]" and "used < mx"
    and "vd_allowed dec" and "vd_degraded_mode dec \<in> {[], hs_value OBSERVE_ONLY}"
  shows "\<exists>mg'. enable_family ac (\<lambda>_ _. dec) f stage actor ts now mg =
      (mg', Inl (InvalidTransition (hs_value QUARANTINED) (hs_value CAPPED_LIVE))) \<and>
    state_of mg' family = hs_value QUARANTINED \<and> family \<in> set (lp_active (mg_profile mg')) \<and> mg_file mg' = mg_file mg \<and> mg_row mg' = mg_row mg"
proof -
  have t: "enable_target family dec = hs_value (if family = ''flash_arb'' then LIVE else CAPPED_LIVE)"
    using assms(7) by (simp add: enable_target_def)
  have a: "activate_family ac family stage dec actor ts now mg =
      (activation_base family mg, Inl (InvalidTransition (hs_value QUARANTINED) (hs_value CAPPED_LIVE)))"
    by (rule quarantined_activation[OF assms(1) t]) simp
  have b: "(if family \<in> set (lp_active (mg_profile mg)) then Inr False
      else rbind (py_int (por (dget_or (lp_budget (mg_profile mg)) ''used_trades'' (PInt 0)) (PInt 0))) (\<lambda>used.
           rbind (py_int (dget_or (lp_budget (mg_profile mg)) ''max_trades'' (PInt 3))) (\<lambda>mx. Inr (mx \<le> used)))) = Inr False"
    using assms(4,5) by (simp add: dget_or_def por_def)
  have e: "enable_family ac (\<lambda>_ _. dec) f stage actor ts now mg = activate_family ac family stage dec actor ts now mg"
    using assms(3,6) unfolding enable_family_def Let_def assms(2) b by auto
  have "family \<in> set (lp_active (mg_profile (activation_base family mg)))" "mg_file (activation_base family mg) = mg_file mg" "mg_row (activation_base family mg) = mg_row mg"
    by (simp_all add: activation_base_def)
  then show ?thesis using a e assms(1) by simp
qed

section \<open>What stays true of a profile\<close>

definition is_state_entry :: "pyval option \<Rightarrow> bool" where
  "is_state_entry v = (case v of Some (PStr s) \<Rightarrow> is_health_state s | _ \<Rightarrow> False)"

definition well_formed_profile :: "profile \<Rightarrow> bool" where
  "well_formed_profile p \<longleftrightarrow>
     list_all (\<lambda>f. is_state_entry (map_of (lp_states p) f)) DEFAULT_ACTIVATION_ORDER \<and> length (lp_history p) \<le> 200"

definition well_saved :: "manager \<Rightarrow> bool" where
  "well_saved mg \<longleftrightarrow> (\<forall>p. mg_file mg = Holds p \<or> mg_row mg = Some p \<longrightarrow> well_formed_profile p)"

definition well_formed :: "manager \<Rightarrow> bool" where
  "well_formed mg \<longleftrightarrow> well_formed_profile (mg_profile mg) \<and> well_saved mg"

lemma well_saved_frame [simp]: "well_saved (mg\<lparr>mg_profile := p\<rparr>) \<longleftrightarrow> well_saved mg"
  by (simp add: well_saved_def)

lemma well_saved_drop [simp]: "well_saved (drop_active family mg) \<longleftrightarrow> well_saved mg"
  by (simp add: drop_active_def)

lemma well_formed_saved [simp]: "well_formed mg \<Longrightarrow> well_saved mg"
  by (simp add: well_formed_def)

lemma is_health_state_hs [simp]: "is_health_state (hs_value h)"
  by (auto simp: is_health_state_iff)

lemma is_health_state_default [simp]: "is_health_state (default_state f)"
  by (simp add: default_state_def)

lemma is_health_state_normalize [simp]: "is_health_state d \<Longrightarrow> is_health_state (normalize_health_state v d)"
  by (simp add: normalize_health_state_def Let_def)

lemma is_health_state_normalized [simp]: "is_health_state (normalized v)"
  by (simp add: normalized_def)

lemma append_transition_length [simp]: "length (append_transition h t) \<le> 200"
  by (simp add: append_transition_def Let_def)

definition good_states :: "pydict \<Rightarrow> bool" where
  "good_states st \<longleftrightarrow> list_all (\<lambda>f. is_state_entry (map_of st f)) DEFAULT_ACTIVATION_ORDER"

lemma good_states_dset [simp]: "good_states st \<Longrightarrow> is_health_state s \<Longrightarrow> good_states (dset st f (PStr s))"
  by (simp add: good_states_def list_all_iff is_state_entry_def)

lemma good_states_fold:
  "(\<And>st f. good_states st \<Longrightarrow> good_states (g f st)) \<Longrightarrow> good_states st \<Longrightarrow> good_states (fold g fs st)"
  by (induction fs arbitrary: st) simp_all

lemma fold_dset_entries:
  assumes "\<And>st f. is_state_entry (Some (v f st))"
  shows "f \<in> set fs \<or> is_state_entry (map_of st f) \<Longrightarrow> is_state_entry (map_of (fold (\<lambda>f st. dset st f (v f st)) fs st) f)"
  using assms by (induction fs arbitrary: st) auto

lemma good_normalize_states: "good_states (normalize_states st)"
  unfolding good_states_def list_all_iff normalize_states_def
  by (intro ballI fold_dset_entries) (simp_all add: is_state_entry_def split: option.split)

lemma good_normalize_profile: "good_states (lp_states (normalize_profile p))"
  using good_normalize_states[of "lp_states p"]
  by (auto simp: normalize_profile_def Let_def intro!: good_states_fold)

lemma well_formed_touch:
  assumes "good_states (states_in mg)" and "well_saved mg" and "reason \<noteq> []"
  shows "well_formed (fst (touch_profile reason now mg))"
proof -
  let ?p = "mg_profile (fst (touch_profile reason now mg))"
  have "well_formed_profile ?p"
    using assms(1,3) by (simp add: well_formed_profile_def touch_profile_def Let_def good_states_def)
  then show ?thesis
    using assms(2) by (auto simp: well_formed_def well_saved_def touch_profile_def save_launch_def Let_def split: save_end.splits)
qed

lemma well_formed_good: "well_formed mg \<Longrightarrow> good_states (states_in mg)"
  by (simp add: well_formed_def well_formed_profile_def good_states_def)

lemma well_formed_mg:
  "well_formed mg \<Longrightarrow> good_states (states_in mg') \<Longrightarrow> length (lp_history (mg_profile mg')) \<le> 200 \<Longrightarrow>
   mg_file mg' = mg_file mg \<and> mg_row mg' = mg_row mg \<Longrightarrow> well_formed mg'"
  by (simp add: well_formed_def well_saved_def well_formed_profile_def good_states_def)

lemma well_formed_history: "well_formed mg \<Longrightarrow> length (lp_history (mg_profile mg)) \<le> 200"
  by (simp add: well_formed_def well_formed_profile_def)

lemma apply_saved: "apply_family_state mg family target actor reason details ts = (mg', r) \<Longrightarrow> mg_file mg' = mg_file mg \<and> mg_row mg' = mg_row mg"
  by (auto simp: apply_family_state_def split: sum.splits)

lemma well_formed_apply:
  assumes "well_formed mg" and "apply_family_state mg family target actor reason details ts = (mg', r)"
  shows "well_formed mg'"
proof (cases r)
  case (Inl e)
  then show ?thesis using assms by (simp add: apply_family_state_error)
next
  case (Inr t)
  note a = assms(2)[unfolded Inr]
  show ?thesis
    using assms(1) apply_saved[OF assms(2)] well_formed_good[OF assms(1)]
    by (rule_tac well_formed_mg[of mg]) (simp_all add: apply_family_state_ok(4)[OF a] apply_family_state_ok(5)[OF a])
qed

lemma well_formed_drop [simp]: "well_formed (drop_active family mg) \<longleftrightarrow> well_formed mg"
  by (simp add: well_formed_def well_formed_profile_def drop_active_def)

lemma well_formed_base [simp]: "well_formed (activation_base family mg) \<longleftrightarrow> well_formed mg"
  by (simp add: well_formed_def well_formed_profile_def activation_base_def)

lemma well_formed_finish:
  assumes "well_formed mg" and "reason \<noteq> []"
  shows "well_formed (fst (finish_move reason now (apply_family_state mg family target actor why details ts)))"
proof -
  obtain mg' r where a: "apply_family_state mg family target actor why details ts = (mg', r)" by (metis surj_pair)
  from well_formed_apply[OF assms(1) a] well_formed_touch[OF well_formed_good well_formed_saved assms(2)] show ?thesis
    by (cases r) (simp_all add: a finish_move_def)
qed

lemma well_formed_activation:
  assumes "well_formed mg"
  shows "well_formed (fst (activate_family ac family stage dec actor ts now mg))"
proof -
  obtain mg2 r where a: "activation_move family stage dec actor ts (activation_base family mg) = (mg2, r)" by (metis surj_pair)
  have w: "well_formed mg2"
    using a assms by (auto simp: activation_move_def split: prod.splits sum.splits dest!: well_formed_apply[rotated])
  show ?thesis
  proof (cases r)
    case (Inl e)
    then show ?thesis using a w by (simp add: activate_family_eq)
  next
    case (Inr t)
    have "well_formed (fst (touch_profile (''family_enabled:'' @ family) now (mg2\<lparr>mg_profile := p\<rparr>)))" if "lp_states p = states_in mg2" for p
      using well_formed_good[OF w] w that by (intro well_formed_touch) simp_all
    moreover have "well_formed (fst (touch_profile (''family_enabled:'' @ family) now mg2))"
      using well_formed_good[OF w] w by (intro well_formed_touch) simp_all
    ultimately show ?thesis using a w Inr update_budget_states
      by (auto simp: activate_family_eq Let_def split: sum.split)
  qed
qed

lemma well_formed_revert:
  assumes "well_formed mg"
  shows "well_formed (fst (revert_family f actor ts now mg))"
proof -
  let ?f = "canonical_launch_family_id f"
  obtain mg' r where a: "apply_family_state mg ?f (if \<not> is_core_launch_family ?f then hs_value OBSERVE_ONLY else hs_value CAPPED_LIVE)
      actor ''family_reverted'' [] ts = (mg', r)" by (metis surj_pair)
  from well_formed_apply[OF assms a] well_formed_touch[OF well_formed_good, of "drop_active ?f mg'" "''family_reverted:'' @ ?f" now]
  show ?thesis by (cases r) (simp_all add: revert_family_def Let_def a)
qed

lemma good_set_mode: "good_states (states_in mg) \<Longrightarrow> well_saved mg \<Longrightarrow> well_formed (fst (set_mode m now mg))"
  unfolding set_mode_def Let_def touch_then_fst
  by (intro well_formed_touch) (auto simp: Let_def intro!: good_states_fold)

lemma well_formed_step: "well_formed mg \<Longrightarrow> well_formed (rollout_step ac mg op)"
proof (cases op)
  case (OpEnable f stage dec actor ts now)
  assume "well_formed mg"
  then show ?thesis
    using enable_family_cases[of ac "\<lambda>_ _. dec" f stage actor ts now mg] well_formed_activation OpEnable by auto
qed (auto simp: pause_family_def quarantine_family_def Let_def intro!: well_formed_finish well_formed_revert good_set_mode dest: well_formed_good)

text \<open>Whatever was loaded, after any sequence of operations, failed ones included, every family of the
  rollout order has one of the six health states, in memory, in the file and in the row its saves left, however those ended, and the history
  never holds more than 200 entries once the loaded one did not.\<close>

theorem rollout_invariant:
  assumes "length (lp_history loaded) \<le> 200"
  shows "well_formed (rollout_run ac (fst (new_manager loaded ends now)) ops)"
proof -
  have h: "length (lp_history (normalize_profile loaded)) \<le> 200"
    using assms by (simp add: normalize_profile_def Let_def)
  have "well_formed (fst (new_manager loaded ends now))"
    using good_normalize_profile[of loaded] h
    by (auto simp: new_manager_def Let_def well_saved_def intro!: well_formed_touch)
       (simp add: well_formed_def well_saved_def well_formed_profile_def good_states_def)
  then show ?thesis
    unfolding rollout_run_def by (induction ops rule: rev_induct) (simp_all add: well_formed_step)
qed

section \<open>The worst state\<close>

lemma worst_fold:
  "\<exists>s. foldl (\<lambda>(selected, rank) s. let n = normalized s in
      if health_rank n < rank then (n, health_rank n) else (selected, rank)) (s0, health_rank s0) vs = (s, health_rank s) \<and>
    s \<in> set (s0 # map normalized vs) \<and> list_all (\<lambda>n. health_rank s \<le> health_rank n) (s0 # map normalized vs)"
proof (induction vs rule: rev_induct)
  case Nil
  then show ?case by simp
next
  case (snoc v vs)
  then obtain s where s: "foldl (\<lambda>(selected, rank) s. let n = normalized s in
      if health_rank n < rank then (n, health_rank n) else (selected, rank)) (s0, health_rank s0) vs = (s, health_rank s)"
      "s \<in> set (s0 # map normalized vs)" "list_all (\<lambda>n. health_rank s \<le> health_rank n) (s0 # map normalized vs)" by blast
  show ?case
  proof (cases "health_rank (normalized v) < health_rank s")
    case True
    then show ?thesis using s by (intro exI[of _ "normalized v"]) (auto simp: list_all_iff Let_def)
  next
    case False
    then show ?thesis using s by (intro exI[of _ s]) (auto simp: list_all_iff Let_def)
  qed
qed

text \<open>The worst of a list of states is a least one, by priority, of the states given and observe only:
  an unknown text counts as observe only, and the answer is never better than observe only, whatever was given.\<close>

theorem worst_state_exact:
  "worst_health_state vs \<in> set (hs_value OBSERVE_ONLY # map normalized vs) \<and>
   list_all (\<lambda>n. health_rank (worst_health_state vs) \<le> health_rank n) (hs_value OBSERVE_ONLY # map normalized vs)"
proof -
  have "normalized PNone = hs_value OBSERVE_ONLY"
    by (simp add: normalized_def normalize_health_state_def str_or_empty_def is_health_state_def HEALTH_PRIORITY_def hs_values strip_def)
  then show ?thesis using worst_fold[of "hs_value OBSERVE_ONLY" vs] by (auto simp: worst_health_state_def)
qed

section \<open>Concrete rollouts\<close>

definition quarantined_core :: manager where
  "quarantined_core = \<lparr>mg_profile = default_profile\<lparr>lp_mode := ''FULL_MULTI_STRATEGY'',
     lp_states := [(''flash_arb'', PStr (hs_value QUARANTINED)), (''mev_search'', PStr (hs_value QUARANTINED))],
     lp_budget := [(''max_trades'', PInt 3), (''used_trades'', PInt 0)]\<rparr>, mg_file = AsFound, mg_row = None, mg_ends = []\<rparr>"

definition go_verdict :: verdict where
  "go_verdict = \<lparr>vd_allowed = True, vd_reason = [], vd_blocked_by = [], vd_next_action = [], vd_degraded_mode = [], vd_readiness = PNone\<rparr>"

lemma quarantined_core_states:
  "state_of quarantined_core ''flash_arb'' = hs_value QUARANTINED" "state_of quarantined_core ''mev_search'' = hs_value QUARANTINED"
  by (simp_all add: state_of_def current_state_def quarantined_core_def dget_or_def)

theorem operations_follow_table_witness:
  "state_of (rollout_step Inr quarantined_core (OpPause ''flashloan_atomic'' ''operator'' 1 2)) ''mev_search'' = hs_value QUARANTINED"
proof -
  have "canonical_launch_family_id ''flashloan_atomic'' = ''flash_arb''"
    unfolding canonical_launch_family_id_def ALIAS_TO_LAUNCH_def alias_assignments_eval by simp
  then show ?thesis
    using operations_follow_table[of "OpPause ''flashloan_atomic'' ''operator'' 1 2" "''flash_arb''" Inr quarantined_core "''mev_search''"]
      quarantined_core_states by simp
qed

theorem core_quarantine_sticks_witness:
  "state_of (rollout_run Inr quarantined_core
      [OpEnable ''flash_arb'' ''seed'' go_verdict ''operator'' 1 2, OpRevert ''flashloan_atomic'' ''operator'' 3 4]) ''flash_arb'' = hs_value QUARANTINED"
  by (rule core_quarantine_sticks) (simp_all add: quarantined_core_states)

theorem failed_enable_leaves_active_witness:
  "\<exists>mg'. enable_family Inr (\<lambda>_ _. go_verdict) ''mev_search'' ''seed'' ''operator'' 1 2 quarantined_core =
      (mg', Inl (InvalidTransition (hs_value QUARANTINED) (hs_value CAPPED_LIVE))) \<and>
    ''mev_search'' \<in> set (lp_active (mg_profile mg')) \<and> mg_file mg' = AsFound"
proof -
  have c: "canonical_launch_family_id ''mev_search'' = ''mev_search''"
    unfolding canonical_launch_family_id_def ALIAS_TO_LAUNCH_def alias_assignments_eval by simp
  show ?thesis
    using failed_enable_leaves_active[OF quarantined_core_states(2) c, of 3 0 go_verdict Inr "''seed''" "''operator''" 1 2]
    by (auto simp: quarantined_core_def go_verdict_def)
qed

theorem rollout_invariant_witness:
  "well_formed (rollout_run Inr (fst (new_manager default_profile [RowRefused] 7)) [OpQuarantine ''mev_search'' ''system'' ''loss'' 8 9, OpMode ''V1_ONLY'' 10])"
  by (rule rollout_invariant) (simp add: default_profile_def)

section \<open>Enabling a family that is already live\<close>

lemma activation_state:
  assumes "apply_family_state (activation_base family mg) family (enable_target family dec) actor ''family_enabled'' [(''stage'', PStr stage)] ts = (mg2, Inr t)"
  shows "state_of (fst (activate_family ac family stage dec actor ts now mg)) family = normalized (PStr (enable_target family dec))"
proof -
  have a: "activation_move family stage dec actor ts (activation_base family mg) = (mg2, Inr t)"
    by (simp add: activation_move_def assms)
  have "states_in (fst (activate_family ac family stage dec actor ts now mg)) = states_in mg2"
    using update_budget_states by (auto simp: activate_family_eq a Let_def split: sum.split)
  from state_of_states[OF this, of family] show ?thesis by (simp add: apply_family_state_ok(1)[OF assms])
qed

text \<open>Enabling a secondary family that is already live demotes it: when the verdict allows it with no
  degraded mode, a live secondary family of an active launch comes out capped live.\<close>

theorem enable_demotes_live:
  assumes "canonical_launch_family_id f = family" and "state_of mg family = hs_value LIVE" and "family \<noteq> ''flash_arb''"
    and "family \<in> set (lp_active (mg_profile mg))" and "lp_mode (mg_profile mg) \<noteq> ''V1_ONLY''"
    and "vd_allowed dec" and "vd_degraded_mode dec = []"
  shows "state_of (fst (enable_family ac (\<lambda>_ _. dec) f stage actor ts now mg)) family = hs_value CAPPED_LIVE"
proof -
  have t: "enable_target family dec = hs_value CAPPED_LIVE" using assms(3,7) by (simp add: enable_target_def)
  obtain mg2 r where a: "apply_family_state (activation_base family mg) family (enable_target family dec) actor ''family_enabled'' [(''stage'', PStr stage)] ts = (mg2, r)"
    by (metis surj_pair)
  have "\<exists>t. r = Inr t"
    using a assms(2) by (cases r) (auto simp: apply_family_state_error t allowed_values)
  then obtain d where "apply_family_state (activation_base family mg) family (enable_target family dec) actor ''family_enabled'' [(''stage'', PStr stage)] ts = (mg2, Inr d)"
    using a by blast
  from activation_state[OF this, of ac now] show ?thesis
    using assms by (simp add: enable_family_def Let_def t)
qed

definition live_secondary :: manager where
  "live_secondary = \<lparr>mg_profile = default_profile\<lparr>lp_mode := ''FULL_MULTI_STRATEGY'', lp_active := [''flash_arb'', ''mev_search''],
     lp_states := [(''mev_search'', PStr (hs_value LIVE))]\<rparr>, mg_file = AsFound, mg_row = None, mg_ends = []\<rparr>"

theorem enable_demotes_live_witness:
  "state_of live_secondary ''mev_search'' = hs_value LIVE \<and>
   state_of (fst (enable_family Inr (\<lambda>_ _. go_verdict) ''mev_search'' ''seed'' ''operator'' 1 2 live_secondary)) ''mev_search'' = hs_value CAPPED_LIVE"
proof
  show s: "state_of live_secondary ''mev_search'' = hs_value LIVE"
    by (simp add: state_of_def current_state_def live_secondary_def dget_or_def)
  have c: "canonical_launch_family_id ''mev_search'' = ''mev_search''"
    unfolding canonical_launch_family_id_def ALIAS_TO_LAUNCH_def alias_assignments_eval by simp
  show "state_of (fst (enable_family Inr (\<lambda>_ _. go_verdict) ''mev_search'' ''seed'' ''operator'' 1 2 live_secondary)) ''mev_search'' = hs_value CAPPED_LIVE"
    by (rule enable_demotes_live[OF c s]) (simp_all add: live_secondary_def go_verdict_def)
qed

end
