(* ===== verification/Withdraw_All.thy ===== *)
theory Withdraw_All
  imports Withdraw_Progress Gas_Policy Executor_Owner Staged_Rollout
begin

text \<open>
  The second half of \<open>runtime_services/withdraw_all_service.py\<close>: \<open>WithdrawAllService\<close>, the operations that
  configure, preview and execute the withdrawal of every executor balance to the approved destination.
  The world holds what the operations change: the state file, the two ledgers that record lifecycle
  events, the transactions handed to the node, the command center's controls and the rollout of strategy
  families. The environment of one operation holds what it reads: the clock, how each write of the state
  file ends, the configuration, the capital truth, the keys and what the nodes answer.
\<close>

section \<open>World and environment\<close>

record raw_tx =
  tx_chain_id :: int
  tx_to :: string
  tx_nonce :: int
  tx_data :: string
  tx_gas :: int
  tx_max_fee :: int
  tx_prio :: int

datatype send_request = SendRaw string | SendPrivate string string

record controls =
  ct_paused :: bool
  ct_frozen :: bool
  ct_evolution :: bool

record wa_world =
  ww_file :: wa_file
  ww_journal :: "pydict list"
  ww_db :: ledger_db
  ww_sent :: "(raw_tx \<times> send_request) list"
  ww_controls :: "controls option"
  ww_rollout :: "manager option"

text \<open>The runtime's configuration; the texts are those after the code's \<open>str(x or default)\<close>.\<close>

record wa_config =
  cf_chain :: string
  cf_chain_id :: int
  cf_repo :: "ledger_repo option"
  cf_executor :: string
  cf_allowlist :: "string list"
  cf_mode :: string
  cf_tokens :: "string list"
  cf_read_url :: string
  cf_send_url :: string
  cf_deployment :: string
  cf_key_env :: string
  cf_key :: string
  cf_gas_limit :: int
  cf_send_mode :: string

text \<open>What the nodes and the signing library answer; \<open>k\<close>-th answers are those for the \<open>k\<close>-th item.\<close>

record wa_node =
  nd_balance :: "string \<Rightarrow> string \<Rightarrow> rpc_result res"
  nd_account :: "string \<Rightarrow> string res"
  nd_owner :: "string \<Rightarrow> string \<Rightarrow> owner_reply res"
  nd_gas :: "(int \<times> int) res"
  nd_nonce :: "int option res"
  nd_estimate :: "nat \<Rightarrow> int option res"
  nd_sign :: "raw_tx \<Rightarrow> string option res"
  nd_block :: "nat \<Rightarrow> int option res"
  nd_send :: "nat \<Rightarrow> rpc_result"
  nd_rpc :: "nat \<Rightarrow> tx_rpc"

text \<open>
  One operation: its readings of the clock, the end of its write of the state file, the fresh identifiers,
  the outcome of a journal write (the transaction's id and time, or None when the ledger file cannot be
  written or there is no ledger), how its calls of the ledger repository's database end, the capital
  truth and the control view derived from it. A call of the repository is done, raises with the tables
  unchanged, or, for an append, raises out of the publication of its capital event when the row is committed.
\<close>

datatype repo_call = RepoDone | RepoRaised pyerr | RepoUnpublished pyerr

record wa_env =
  we_now :: int
  we_assessed :: int
  we_save :: save_outcome
  we_uuid :: string
  we_has_ledger :: bool
  we_ledger_tx :: "(string \<times> int) option"
  we_repo :: "nat \<Rightarrow> repo_call"
  we_truth :: pydict
  we_control :: pydict
  we_clock :: "nat \<Rightarrow> int \<times> int"
  we_config :: wa_config
  we_node :: wa_node

section \<open>Requests\<close>

definition invalid_request_payload :: "string \<Rightarrow> pydict \<Rightarrow> pydict" where
  "invalid_request_payload code details =
     [(''ok'', PBool False), (''status'', PStr ''invalid''), (''reason_code'', PStr code), (''reason'', PStr code),
      (''error'', PStr code)] @ (if details \<noteq> [] then [(''details'', PDict details)] else [])"

text \<open>\<open>field\<close> and \<open>value\<close>; a value None is left out.\<close>

definition field_details :: "string \<Rightarrow> pyval \<Rightarrow> pydict" where
  "field_details field value = (''field'', PStr field) # (if value = PNone then [] else [(''value'', value)])"

definition TRUE_STRINGS :: "string list" where
  "TRUE_STRINGS = [''true'', ''1'', ''yes'', ''on'']"

definition FALSE_STRINGS :: "string list" where
  "FALSE_STRINGS = [''false'', ''0'', ''no'', ''off'']"

definition coerce_canonical_bool :: "pyval \<Rightarrow> bool option" where
  "coerce_canonical_bool value =
     (case value of
        PBool b \<Rightarrow> Some b
      | PInt n \<Rightarrow> if n = 0 then Some False else if n = 1 then Some True else None
      | PStr s \<Rightarrow>
          let t = lower (strip s) in
          if t \<in> set TRUE_STRINGS then Some True else if t \<in> set FALSE_STRINGS then Some False else None
      | _ \<Rightarrow> None)"

definition unexpected_request_fields :: "pydict \<Rightarrow> string list \<Rightarrow> string list" where
  "unexpected_request_fields payload allowed = sort (filter (\<lambda>k. k \<notin> set allowed) (map fst payload))"

definition unknown_fields_payload :: "string list \<Rightarrow> pydict" where
  "unknown_fields_payload names =
     invalid_request_payload ''unknown_request_fields'' [(''fields'', PList (map PStr names))]"

definition has_field :: "pydict \<Rightarrow> string \<Rightarrow> bool" where
  "has_field d k = (map_of d k \<noteq> None)"

definition is_address :: "string \<Rightarrow> bool" where
  "is_address value = is_hex_text 42 (PStr value)"

definition allowlisted :: "wa_env \<Rightarrow> string \<Rightarrow> bool" where
  "allowlisted env destination =
     (if cf_allowlist (we_config env) \<noteq> [] then destination \<noteq> [] \<and> lower destination \<in> set (map lower (cf_allowlist (we_config env)))
      else destination \<noteq> [])"

section \<open>Lifecycle events\<close>

definition lifecycle_event_key :: "string \<Rightarrow> pydict \<Rightarrow> string" where
  "lifecycle_event_key event metadata =
     join ''|'' [or_text event ''withdraw_all_event'', str_get metadata ''preview_id'', str_get metadata ''status'',
       str_get metadata ''reason_code'']"

definition event_matches :: "string \<Rightarrow> string \<Rightarrow> pyval \<Rightarrow> bool res" where
  "event_matches event key row =
     (case row of
        PDict d \<Rightarrow>
          if str_get d ''tx_type'' \<noteq> event then Inr False
          else rbind (dict_or_empty (dget d ''metadata'')) (\<lambda>m. Inr (str_get m ''event_key'' = key))
      | _ \<Rightarrow> Inr False)"

fun find_event :: "string \<Rightarrow> string \<Rightarrow> pyval list \<Rightarrow> pydict option res" where
  "find_event event key [] = Inr None"
| "find_event event key (row # rows) =
     rbind (event_matches event key row) (\<lambda>m. if m then Inr (Some (as_dict row)) else find_event event key rows)"

text \<open>\<open>except (AttributeError, KeyError, TypeError, ValueError, RuntimeError, OSError)\<close>, around each call;
  the exceptions of the database driver are none of these.\<close>

definition event_caught :: "pyerr \<Rightarrow> bool" where
  "event_caught e = (e \<in> {AttributeError, KeyError, TypeError, ValueError, RuntimeError, OSError})"

definition escaping :: "pyerr \<Rightarrow> pyerr option" where
  "escaping e = (if event_caught e then None else Some e)"

definition find_in_repository :: "wa_env \<Rightarrow> nat \<Rightarrow> string \<Rightarrow> string \<Rightarrow> string \<Rightarrow> wa_world \<Rightarrow> pydict option res" where
  "find_in_repository env k chain event key w =
     (case we_repo env k of
        RepoRaised e \<Rightarrow> Inl e
      | _ \<Rightarrow> find_event event key (all_transactions chain (ww_db w)))"

text \<open>A caught exception of the first lookup falls through to the second, one of the second is an absent event.\<close>

definition existing_lifecycle_transaction :: "wa_env \<Rightarrow> string \<Rightarrow> string \<Rightarrow> wa_world \<Rightarrow> pydict res" where
  "existing_lifecycle_transaction env event key w =
     (if key = [] then Inr []
      else
        let in_repo = (case cf_repo (we_config env) of None \<Rightarrow> Inr None
              | Some lg \<Rightarrow> find_in_repository env 0 (or_text (cf_chain (we_config env)) ''default'') event key w);
            in_ledger = (if \<not> we_has_ledger env then []
              else (case find_event event key (map PDict (ww_journal w)) of Inr (Some tx) \<Rightarrow> tx | _ \<Rightarrow> []))
        in case in_repo of
             Inr (Some tx) \<Rightarrow> Inr tx
           | Inr None \<Rightarrow> Inr in_ledger
           | Inl e \<Rightarrow> if event_caught e then Inr in_ledger else Inl e)"

definition zero_line :: "string \<Rightarrow> string \<Rightarrow> pyval" where
  "zero_line account note =
     PDict [(''account'', PStr account), (''asset'', PStr ''USD''), (''amount'', PFloat (FFin 0 0 ''0.0'')),
       (''family'', PStr []), (''venue'', PStr []), (''note'', PStr note)]"

definition event_transaction :: "string \<Rightarrow> int \<Rightarrow> string \<Rightarrow> string \<Rightarrow> pydict \<Rightarrow> pydict" where
  "event_transaction tid ts event chain metadata =
     [(''transaction_id'', PStr tid), (''ts_ms'', PInt ts), (''tx_type'', PStr event), (''chain'', PStr chain),
      (''receipt_id'', PStr []),
      (''lines'', PList [zero_line ''control:withdraw_all'' event, zero_line ''equity:offset'' event]),
      (''metadata'', PDict metadata)]"

text \<open>The \<open>k\<close>-th call of the repository is an append; what it raises is caught or escapes.\<close>

definition repo_append :: "wa_env \<Rightarrow> nat \<Rightarrow> ledger_repo \<Rightarrow> string \<Rightarrow> pydict \<Rightarrow> wa_world \<Rightarrow> wa_world \<times> pyerr option" where
  "repo_append env k lg chain payload w =
     (case we_repo env k of
        RepoRaised e \<Rightarrow> (w, escaping e)
      | RepoUnpublished e \<Rightarrow>
          (case append_transaction lg chain payload False (ww_db w) of
             (db, Inl e') \<Rightarrow> (w\<lparr>ww_db := db\<rparr>, escaping e')
           | (db, Inr u) \<Rightarrow> (w\<lparr>ww_db := db\<rparr>, escaping e))
      | RepoDone \<Rightarrow>
          (case append_transaction lg chain payload True (ww_db w) of
             (db, Inl e') \<Rightarrow> (w\<lparr>ww_db := db\<rparr>, escaping e')
           | (db, Inr u) \<Rightarrow> (w\<lparr>ww_db := db\<rparr>, None)))"

text \<open>An event already journalled is copied to the repository when it is missing there, and not journalled again.\<close>

definition repair_repository :: "wa_env \<Rightarrow> string \<Rightarrow> string \<Rightarrow> pydict \<Rightarrow> wa_world \<Rightarrow> wa_world \<times> pyerr option" where
  "repair_repository env event key existing w =
     (case cf_repo (we_config env) of None \<Rightarrow> (w, None)
      | Some lg \<Rightarrow>
          let chain = str_or_empty (por (dget existing ''chain'') (PStr (cf_chain (we_config env)))) in
          (case find_in_repository env 1 chain event key w of
             Inr (Some tx) \<Rightarrow> (w, None)
           | Inr None \<Rightarrow> repo_append env 2 lg chain existing w
           | Inl e \<Rightarrow> if event_caught e then repo_append env 2 lg chain existing w else (w, Some e)))"

text \<open>\<open>_ledger_event\<close>: the world it leaves, and the exception that leaves it, if any.\<close>

definition lifecycle_ledger_event :: "wa_env \<Rightarrow> string \<Rightarrow> pydict \<Rightarrow> wa_world \<Rightarrow> wa_world \<times> pyerr option" where
  "lifecycle_ledger_event env event metadata w =
     (if \<not> we_has_ledger env then (w, None)
      else
        let key = lifecycle_event_key event metadata; md = dset metadata ''event_key'' (PStr key) in
        case existing_lifecycle_transaction env event key w of
          Inl e \<Rightarrow> (w, Some e)
        | Inr existing \<Rightarrow>
            if existing \<noteq> [] then repair_repository env event key existing w
            else (case we_ledger_tx env of None \<Rightarrow> (w, None)
              | Some (tid, ts) \<Rightarrow>
                  let tx = event_transaction tid ts event (cf_chain (we_config env)) md;
                      w1 = w\<lparr>ww_journal := ww_journal w @ [as_dict (json_sorted (PDict tx))]\<rparr> in
                  (case cf_repo (we_config env) of None \<Rightarrow> (w1, None)
                   | Some lg \<Rightarrow> repo_append env 1 lg (cf_chain (we_config env)) tx w1)))"

section \<open>The plan\<close>

definition BALANCE_OF_SELECTOR :: string where
  "BALANCE_OF_SELECTOR = ''70a08231''"

text \<open>\<open>s.replace("0x", "")\<close>: every occurrence, from left to right.\<close>

fun remove_0x :: "string \<Rightarrow> string" where
  "remove_0x (a # b # cs) =
     (if a = CHR ''0'' \<and> b = CHR ''x'' then remove_0x cs else a # remove_0x (b # cs))"
| "remove_0x cs = cs"

definition balance_call :: "string \<Rightarrow> string" where
  "balance_call executor = ''0x'' @ BALANCE_OF_SELECTOR @ rjust 64 (CHR ''0'') (remove_0x (lower executor))"

definition balance_caught :: "pyerr \<Rightarrow> bool" where
  "balance_caught e = (e \<in> {AttributeError, RuntimeError, TypeError, ValueError})"

text \<open>A balance as the code reads it: what is no text, no number or an exception counts as zero.\<close>

definition read_balance :: "rpc_result res \<Rightarrow> int res" where
  "read_balance reply =
     (case reply of
        Inl e \<Rightarrow> if balance_caught e then Inr 0 else Inl e
      | Inr r \<Rightarrow>
          (case (if rr_ok r then rr_result r else PStr ''0x0'') of
             PStr s \<Rightarrow> (case int_of_str16 (or_text s ''0x0'') of Inl e \<Rightarrow> Inr 0 | Inr n \<Rightarrow> Inr (max 0 n))
           | _ \<Rightarrow> Inr 0))"

text \<open>\<open>str(balance)\<close> raises ValueError beyond 4300 digits.\<close>

definition printable :: "int \<Rightarrow> int res" where
  "printable n = (if n < 10 ^ 4300 then Inr n else Inl ValueError)"

definition token_balances :: "wa_config \<Rightarrow> wa_node \<Rightarrow> (string \<times> int) list res" where
  "token_balances cfg node =
     (if cf_executor cfg = [] \<or> cf_read_url cfg = [] then Inr []
      else mapr (\<lambda>token. rbind (read_balance (nd_balance node token (balance_call (cf_executor cfg)))) (\<lambda>n.
             rbind (printable n) (\<lambda>m. Inr (token, m)))) (filter is_address (cf_tokens cfg)))"

definition withdrawal_section :: "pydict \<Rightarrow> pydict" where
  "withdrawal_section truth = as_dict (por (dget truth ''withdrawal'') (PDict []))"

definition block_reason :: "wa_env \<Rightarrow> controls option \<Rightarrow> wa_state \<Rightarrow> string" where
  "block_reason env ct s =
     (let truth = we_truth env; executor = cf_executor (we_config env) in
      if \<not> wa_enabled s then ''withdraw_all_disabled''
      else if \<not> is_address (wa_approved s) then ''approved_destination_missing''
      else if \<not> allowlisted env (wa_approved s) then ''destination_not_allowlisted''
      else if executor = [] then ''executor_not_configured''
      else if \<not> is_address executor then ''invalid_executor_address''
      else if py_str (por (dget truth ''status'') (PStr ''ok'')) \<noteq> ''ok'' then ''capital_truth_degraded''
      else if \<not> truthy (dget (withdrawal_section truth) ''available'')
      then py_str (por (dget (withdrawal_section truth) ''reason_code'') (PStr ''no_withdrawable_balance''))
      else if (case ct of None \<Rightarrow> False | Some c \<Rightarrow> ct_paused c) then ''command_center_paused''
      else ''ok'')"

record wa_plan =
  pl_reason :: string
  pl_balance_wei :: string
  pl_destination :: string
  pl_balances :: "(string \<times> int) list"
  pl_items :: "(string \<times> int) list"
  pl_mode :: string

definition withdrawable_wei :: "pydict \<Rightarrow> string" where
  "withdrawable_wei truth =
     py_str (por (dget (as_dict (por (dget truth ''categories'') (PDict []))) ''withdrawable_balance_wei'') (PStr ''0''))"

definition build_plan :: "wa_env \<Rightarrow> controls option \<Rightarrow> wa_state \<Rightarrow> wa_plan res" where
  "build_plan env ct s =
     rbind (token_balances (we_config env) (we_node env)) (\<lambda>balances.
     (let reason = block_reason env ct s; items = filter (\<lambda>(t, n). 0 < n) balances in
      Inr \<lparr>pl_reason = (if reason = ''ok'' \<and> items = [] then ''no_token_balances'' else reason),
           pl_balance_wei = withdrawable_wei (we_truth env), pl_destination = wa_approved s,
           pl_balances = balances, pl_items = items, pl_mode = or_text (cf_mode (we_config env)) ''txdata''\<rparr>))"

text \<open>An item as a dictionary: the keys of the plan's items.\<close>

definition item_dict :: "wa_plan \<Rightarrow> string \<times> int \<Rightarrow> pydict" where
  "item_dict plan it = [(''token'', PStr (fst it)), (''amount'', PStr (show_int (snd it))),
     (''to'', PStr (pl_destination plan)), (''mode'', PStr (pl_mode plan))]"

text \<open>The canonical JSON text of a plan, its keys sorted, and its SHA-256.\<close>

definition item_json :: "wa_plan \<Rightarrow> string \<times> int \<Rightarrow> string" where
  "item_json plan it = json_flat [(''amount'', show_int (snd it)), (''mode'', pl_mode plan),
     (''to'', pl_destination plan), (''token'', fst it)]"

definition plan_json :: "wa_plan \<Rightarrow> string" where
  "plan_json plan =
     ''{'' @ json_text ''approved_destination'' @ '':'' @ json_text (pl_destination plan) @
     '','' @ json_text ''items'' @ '':['' @ join '','' (map (item_json plan) (pl_items plan)) @ '']'' @
     '','' @ json_text ''mode'' @ '':'' @ json_text (pl_mode plan) @
     '','' @ json_text ''reason_code'' @ '':'' @ json_text (pl_reason plan) @
     '','' @ json_text ''withdrawable_balance_wei'' @ '':'' @ json_text (pl_balance_wei plan) @ ''}''"

definition plan_digest :: "(bytes \<Rightarrow> bytes) \<Rightarrow> wa_plan \<Rightarrow> string" where
  "plan_digest sha plan = hex_of (sha (utf8 (plan_json plan)))"

definition PREVIEW_TTL_MS :: int where
  "PREVIEW_TTL_MS = 5 * 60 * 1000"

definition preview_expired :: "int \<Rightarrow> wa_state \<Rightarrow> bool" where
  "preview_expired now s = (wa_preview_ts s = 0 \<or> PREVIEW_TTL_MS < now - wa_preview_ts s)"

definition clear_preview_state :: "wa_state \<Rightarrow> wa_state" where
  "clear_preview_state s = s\<lparr>wa_preview_id := [], wa_preview_digest := [], wa_preview_ts := 0,
     wa_executed_id := [], wa_executed_result := []\<rparr>"

section \<open>Saving\<close>

definition save_failed_payload :: "wa_state \<Rightarrow> string \<Rightarrow> pydict \<Rightarrow> pydict" where
  "save_failed_payload s code extra =
     as_dict (json_safe (PDict (dupdate
       [(''ok'', PBool False), (''status'', PStr ''degraded''), (''reason_code'', PStr code), (''reason'', PStr code),
        (''error'', PStr code), (''enabled'', PBool (wa_enabled s)), (''approved_destination'', PStr (wa_approved s)),
        (''pending_destination'', PStr (wa_pending s)), (''last_status'', PStr (or_text (wa_status s) ''idle'')),
        (''last_reason_code'', PStr (wa_reason s)), (''last_result'', PDict (wa_result s)),
        (''last_preview_id'', PStr (wa_preview_id s)), (''last_preview_ts_ms'', PInt (wa_preview_ts s))] extra)))"

text \<open>A lifecycle event after a saved state: an exception that leaves it is raised, the state stays saved.\<close>

definition journalled :: "wa_env \<Rightarrow> string \<Rightarrow> pydict \<Rightarrow> pydict \<Rightarrow> wa_world \<Rightarrow> wa_world \<times> pydict res" where
  "journalled env event metadata answer w =
     (case lifecycle_ledger_event env event metadata w of (w', None) \<Rightarrow> (w', Inr answer) | (w', Some e) \<Rightarrow> (w', Inl e))"

definition persist_outcome ::
    "wa_env \<Rightarrow> wa_state \<Rightarrow> wa_state \<Rightarrow> string \<Rightarrow> string \<Rightarrow> pydict \<Rightarrow> string \<Rightarrow> string \<Rightarrow> wa_world \<Rightarrow> wa_world \<times> pydict res" where
  "persist_outcome env persisted s0 status reason result preview_id event w =
     (let s1 = s0\<lparr>wa_status := or_text status ''idle'', wa_reason := reason, wa_result := result\<rparr>;
          s2 = (if preview_id \<noteq> [] then s1\<lparr>wa_executed_id := preview_id, wa_executed_result := result\<rparr> else s1) in
      case save_state (we_save env) s2 (ww_file w) of
        (f, None) \<Rightarrow> (w\<lparr>ww_file := f\<rparr>, Inr (save_failed_payload persisted ''state_save_failed''
            [(''attempted_status'', PStr (or_text status ''idle'')), (''attempted_reason_code'', PStr reason),
             (''attempted_preview_id'', PStr preview_id), (''result_available'', PBool (result \<noteq> [])),
             (''result_persisted'', PBool False)]))
      | (f, Some saved) \<Rightarrow>
          journalled env event
             [(''preview_id'', PStr preview_id), (''reason_code'', PStr reason), (''status'', PStr (or_text status ''idle''))]
             (state_dict saved) (w\<lparr>ww_file := f\<rparr>))"

section \<open>Configuring\<close>

definition CONFIG_ALLOWED_FIELDS :: "string list" where
  "CONFIG_ALLOWED_FIELDS = [''destination'', ''enabled'', ''activate_destination'']"

text \<open>A parsed configuration request: the answer that refuses it, or destination, activation and enabling.\<close>

definition parse_configure :: "wa_env \<Rightarrow> pydict \<Rightarrow> wa_state \<Rightarrow> pydict + (string option \<times> bool \<times> bool)" where
  "parse_configure env payload s =
     (let has_dest = has_field payload ''destination''; has_enabled = has_field payload ''enabled'';
          has_activate = has_field payload ''activate_destination'';
          dest = strip (str_or_empty (dget payload ''destination''));
          activate = (if has_activate then coerce_canonical_bool (dget payload ''activate_destination'') else Some False);
          enabled = (if has_enabled then coerce_canonical_bool (dget payload ''enabled'') else Some (wa_enabled s)) in
      if has_dest \<and> (dest = [] \<or> \<not> is_address dest)
      then Inl (invalid_request_payload ''invalid_destination'' (field_details ''destination'' (dget payload ''destination'')))
      else case activate of
        None \<Rightarrow> Inl (invalid_request_payload ''invalid_boolean_value''
            (field_details ''activate_destination'' (dget payload ''activate_destination'')))
      | Some act \<Rightarrow>
          (case enabled of
             None \<Rightarrow> Inl (invalid_request_payload ''invalid_boolean_value'' (field_details ''enabled'' (dget payload ''enabled'')))
           | Some en \<Rightarrow>
               if act \<and> \<not> has_dest then Inl (invalid_request_payload ''missing_destination'' [(''field'', PStr ''destination'')])
               else if has_dest \<and> act \<and> \<not> allowlisted env dest
               then Inl [(''ok'', PBool False), (''status'', PStr ''blocked''), (''reason_code'', PStr ''destination_not_allowlisted''),
                      (''reason'', PStr ''destination_not_allowlisted''), (''error'', PStr ''destination_not_allowlisted'')]
               else Inr (if has_dest then Some dest else None, act, en)))"

definition configured_state :: "string option \<Rightarrow> bool \<Rightarrow> bool \<Rightarrow> wa_state \<Rightarrow> wa_state \<times> bool" where
  "configured_state dest act en s =
     (let (s1, c1) = (case dest of None \<Rightarrow> (s, False)
            | Some d \<Rightarrow> if act then (s\<lparr>wa_approved := d, wa_pending := []\<rparr>, d \<noteq> wa_approved s)
                        else (s\<lparr>wa_pending := d\<rparr>, d \<noteq> wa_pending s)) in
      (s1\<lparr>wa_enabled := en\<rparr>, c1 \<or> en \<noteq> wa_enabled s))"

definition configure :: "wa_env \<Rightarrow> pydict \<Rightarrow> wa_world \<Rightarrow> wa_world \<times> pydict res" where
  "configure env payload w =
     (let unexpected = unexpected_request_fields payload CONFIG_ALLOWED_FIELDS; s = load_state (ww_file w) in
      if unexpected \<noteq> [] then (w, Inr (unknown_fields_payload unexpected))
      else case parse_configure env payload s of
        Inl refusal \<Rightarrow> (w, Inr refusal)
      | Inr (dest, act, en) \<Rightarrow>
          (case configured_state dest act en s of (s1, changed) \<Rightarrow>
             if \<not> changed then (w, Inr ((''ok'', PBool True) # state_dict s1))
             else (case save_state (we_save env) (clear_preview_state s1) (ww_file w) of
                     (f, None) \<Rightarrow> (w\<lparr>ww_file := f\<rparr>, Inr (save_failed_payload s ''state_save_failed'' []))
                   | (f, Some saved) \<Rightarrow>
                       journalled env ''withdraw_all_configured''
                          [(''enabled'', PBool (wa_enabled saved)), (''approved_destination'', PStr (wa_approved saved))]
                          ((''ok'', PBool True) # state_dict saved) (w\<lparr>ww_file := f\<rparr>))))"

section \<open>Previewing\<close>

definition plan_item_values :: "wa_plan \<Rightarrow> pyval" where
  "plan_item_values plan = PList (map (\<lambda>it. PDict (item_dict plan it)) (pl_items plan))"

definition previewed_state :: "(bytes \<Rightarrow> bytes) \<Rightarrow> wa_env \<Rightarrow> wa_plan \<Rightarrow> wa_state \<Rightarrow> wa_state" where
  "previewed_state sha env plan s =
     s\<lparr>wa_preview_id := ''wipe_'' @ we_uuid env, wa_preview_digest := plan_digest sha plan, wa_preview_ts := we_now env,
       wa_executed_id := [], wa_executed_result := [],
       wa_status := (if pl_reason plan = ''ok'' then ''preview_ready'' else ''preview_blocked''), wa_reason := pl_reason plan\<rparr>"

definition preview_answer :: "wa_env \<Rightarrow> wa_plan \<Rightarrow> wa_state \<Rightarrow> pydict" where
  "preview_answer env plan saved =
     as_dict (json_safe (PDict
       [(''ok'', PBool (pl_reason plan = ''ok'')), (''preview_id'', PStr (''wipe_'' @ we_uuid env)),
        (''preview_ts_ms'', PInt (wa_preview_ts saved)), (''reason_code'', PStr (pl_reason plan)),
        (''capital_truth_reason_code'', PStr (str_get (we_control env) ''reasonCode'')),
        (''capital_truth_reason_codes'', por (dget (we_control env) ''reasonCodes'') (PList [])),
        (''capitalTruthHealth'', por (dget (we_control env) ''capitalTruthHealth'') (PDict [])),
        (''withdrawControl'', PDict (we_control env)), (''approved_destination'', PStr (wa_approved saved)),
        (''withdrawable_balance_wei'', PStr (pl_balance_wei plan)), (''items'', plan_item_values plan)]))"

definition preview :: "(bytes \<Rightarrow> bytes) \<Rightarrow> wa_env \<Rightarrow> wa_world \<Rightarrow> wa_world \<times> pydict res" where
  "preview sha env w =
     (let s = load_state (ww_file w) in
      case build_plan env (ww_controls w) s of
        Inl e \<Rightarrow> (w, Inl e)
      | Inr plan \<Rightarrow>
          (case save_state (we_save env) (previewed_state sha env plan s) (ww_file w) of
             (f, None) \<Rightarrow> (w\<lparr>ww_file := f\<rparr>, Inr (save_failed_payload s ''state_save_failed''
                [(''preview_id'', PStr []), (''preview_ts_ms'', PInt 0), (''approved_destination'', PStr (pl_destination plan)),
                 (''withdrawable_balance_wei'', PStr (pl_balance_wei plan)), (''items'', plan_item_values plan)]))
           | (f, Some saved) \<Rightarrow>
               journalled env ''withdraw_all_previewed''
                  [(''preview_id'', PStr (''wipe_'' @ we_uuid env)), (''reason_code'', PStr (wa_reason saved))]
                  (preview_answer env plan saved) (w\<lparr>ww_file := f\<rparr>)))"

section \<open>Executing\<close>

definition EXECUTE_ALLOWED_FIELDS :: "string list" where
  "EXECUTE_ALLOWED_FIELDS = [''preview_id'', ''confirm_text'', ''dry_run'']"

definition CONFIRM_TEXT :: string where
  "CONFIRM_TEXT = ''WITHDRAW EVERYTHING''"

text \<open>\<open>{**head, **saved, "result": result}\<close>\<close>

definition with_result :: "pydict \<Rightarrow> pydict \<Rightarrow> pydict \<Rightarrow> pydict" where
  "with_result head saved result = dset (dupdate head saved) ''result'' (PDict result)"

text \<open>\<open>return {**head, **saved, "result": result}\<close> after the outcome was persisted, unless that raised.\<close>

definition answering :: "pydict \<Rightarrow> pydict \<Rightarrow> wa_world \<times> pydict res \<Rightarrow> wa_world \<times> (launch_error + pydict)" where
  "answering head result out =
     (case out of (w, Inl e) \<Rightarrow> (w, Inl (Py e)) | (w, Inr saved) \<Rightarrow> (w, Inr (with_result head saved result)))"

definition execute_blocked :: "wa_env \<Rightarrow> wa_state \<Rightarrow> string \<Rightarrow> pydict \<Rightarrow> wa_world \<Rightarrow> wa_world \<times> (launch_error + pydict)" where
  "execute_blocked env s reason extra w =
     (let result = [(''ok'', PBool False), (''reason_code'', PStr reason)] @ extra in
      answering [(''ok'', PBool False), (''reason_code'', PStr reason)] result
        (persist_outcome env s s ''execute_blocked'' reason result [] ''withdraw_all_execute_blocked'' w))"

definition truth_fields :: "string \<Rightarrow> pydict \<Rightarrow> pydict" where
  "truth_fields prefix control =
     [(prefix @ ''capital_truth_reason_code'', PStr (str_get control ''reasonCode'')),
      (prefix @ ''capital_truth_reason_codes'', por (dget control ''reasonCodes'') (PList [])),
      (''capitalTruthHealth'', por (dget control ''capitalTruthHealth'') (PDict [])), (''withdrawControl'', PDict control)]"

definition replay_answer :: "wa_state \<Rightarrow> pydict" where
  "replay_answer s =
     (let replayed = wa_executed_result s; reason = str_get replayed ''reason_code'';
          r = dset (with_result [(''ok'', PBool (truthy (dget_or replayed ''ok'' (PBool False))))] (state_dict s) replayed)
                ''replayed'' (PBool True) in
      if reason \<noteq> [] then dset r ''reason_code'' (PStr reason) else r)"

definition result_head :: "string \<Rightarrow> string \<Rightarrow> wa_plan \<Rightarrow> pydict list \<Rightarrow> pydict" where
  "result_head status preview_id plan items =
     [(''ok'', PBool True), (''status'', PStr status), (''preview_id'', PStr preview_id),
      (''approved_destination'', PStr (pl_destination plan)), (''mode'', PStr (pl_mode plan)),
      (''items'', PList (map PDict items))]"

text \<open>A prepared withdrawal is calldata for the caller to sign; nothing is sent.\<close>

definition prepared_items :: "(bytes \<Rightarrow> bytes) \<Rightarrow> wa_plan \<Rightarrow> pydict list res" where
  "prepared_items kec plan =
     mapr (\<lambda>it. rbind (build_withdraw_calldata kec (fst it) (pl_destination plan) (snd it)) (\<lambda>cd.
        Inr (item_dict plan it @ [(''calldata'', PStr cd)]))) (pl_items plan)"

definition execute_prepared ::
    "(bytes \<Rightarrow> bytes) \<Rightarrow> wa_env \<Rightarrow> wa_state \<Rightarrow> wa_plan \<Rightarrow> string \<Rightarrow> wa_world \<Rightarrow> wa_world \<times> (launch_error + pydict)" where
  "execute_prepared kec env s plan preview_id w =
     (case prepared_items kec plan of
        Inl e \<Rightarrow> (w, Inl (Py e))
      | Inr items \<Rightarrow>
          let result = attach_lifecycle_summary (result_head ''prepared'' preview_id plan items) ''prepared'' ''ok'' in
          answering [(''ok'', PBool True)] result
            (persist_outcome env s s ''prepared'' ''ok'' result preview_id ''withdraw_all_prepared'' w))"

section \<open>Sending\<close>

definition estimated_gas :: "int \<Rightarrow> int option res \<Rightarrow> int res" where
  "estimated_gas limit reply =
     (case reply of
        Inr None \<Rightarrow> Inr limit | Inr (Some n) \<Rightarrow> Inr (max limit (n + 20000))
      | Inl e \<Rightarrow> if balance_caught e then Inr limit else Inl e)"

definition build_tx ::
    "(bytes \<Rightarrow> bytes) \<Rightarrow> wa_config \<Rightarrow> wa_node \<Rightarrow> wa_plan \<Rightarrow> int \<times> int \<Rightarrow> int option \<Rightarrow> nat \<Rightarrow> string \<times> int \<Rightarrow> raw_tx res" where
  "build_tx kec cfg node plan fees nonce k it =
     rbind (build_withdraw_calldata kec (fst it) (pl_destination plan) (snd it)) (\<lambda>cd.
     rbind (estimated_gas (cf_gas_limit cfg) (nd_estimate node k)) (\<lambda>gas.
     case nonce of None \<Rightarrow> Inl TypeError
     | Some n \<Rightarrow> Inr \<lparr>tx_chain_id = cf_chain_id cfg, tx_to = cf_executor cfg, tx_nonce = n + int k, tx_data = cd,
                     tx_gas = gas, tx_max_fee = fst fees, tx_prio = snd fees\<rparr>))"

definition raw_hex :: "string option \<Rightarrow> string" where
  "raw_hex raw = (let r = (case raw of None \<Rightarrow> [] | Some s \<Rightarrow> s) in if starts_with ''0x'' r then r else ''0x'' @ r)"

definition send_request :: "wa_config \<Rightarrow> wa_node \<Rightarrow> nat \<Rightarrow> string \<Rightarrow> send_request res" where
  "send_request cfg node k raw =
     (if or_text (cf_send_mode cfg) ''public'' = ''private''
      then rbind (nd_block node k) (\<lambda>b. Inr (SendPrivate raw (py_hex ((case b of None \<Rightarrow> 0 | Some n \<Rightarrow> n) + 2))))
      else Inr (SendRaw raw))"

definition sent_hash :: "rpc_result \<Rightarrow> string option" where
  "sent_hash r =
     (let h = (if rr_ok r then rr_result r else PStr []);
          h' = (case h of PDict d \<Rightarrow> por (por (dget d ''txHash'') (dget d ''hash'')) (dget d ''result'') | v \<Rightarrow> v) in
      case h' of PStr s \<Rightarrow> if is_tx_hash (PStr s) then Some s else None | _ \<Rightarrow> None)"

datatype send_end =
    AllSent "pydict list"
  | SendFailed "string \<times> int" "pydict list"
  | SendReverted pydict "pydict list"
  | SendRaised pyerr

definition sent_item :: "wa_plan \<Rightarrow> string \<times> int \<Rightarrow> string \<Rightarrow> submitted_tx \<Rightarrow> pydict" where
  "sent_item plan it h st = item_dict plan it @ [(''tx_hash'', PStr h)] @ submitted_tx_status_payload st"

fun send_items ::
    "(bytes \<Rightarrow> bytes) \<Rightarrow> wa_config \<Rightarrow> wa_node \<Rightarrow> wa_plan \<Rightarrow> int \<times> int \<Rightarrow> int option \<Rightarrow> nat \<Rightarrow> (string \<times> int) list
     \<Rightarrow> pydict list \<Rightarrow> (raw_tx \<times> send_request) list \<Rightarrow> (raw_tx \<times> send_request) list \<times> send_end" where
  "send_items kec cfg node plan fees nonce k [] done sent = (sent, AllSent done)"
| "send_items kec cfg node plan fees nonce k (it # its) done sent =
     (case rbind (build_tx kec cfg node plan fees nonce k it) (\<lambda>tx.
           rbind (nd_sign node tx) (\<lambda>raw. rbind (send_request cfg node k (raw_hex raw)) (\<lambda>req. Inr (tx, req)))) of
        Inl e \<Rightarrow> (sent, SendRaised e)
      | Inr t \<Rightarrow>
          let sent' = sent @ [t] in
          (case sent_hash (nd_send node k) of
             None \<Rightarrow> (sent', SendFailed it done)
           | Some h \<Rightarrow>
               (case assess_submitted_tx (nd_rpc node k) h (PStr (or_text (cf_send_mode cfg) ''public'')) of
                  Inl e \<Rightarrow> (sent', SendRaised e)
                | Inr st \<Rightarrow>
                    if st_status st = ''mined_reverted'' then (sent', SendReverted (sent_item plan it h st) done)
                    else send_items kec cfg node plan fees nonce (Suc k) its (done @ [sent_item plan it h st]) sent')))"

definition failure_result :: "string \<Rightarrow> pydict \<Rightarrow> pydict list \<Rightarrow> pydict" where
  "failure_result reason failed done =
     attach_lifecycle_summary
       [(''ok'', PBool False), (''reason_code'', PStr reason), (''failed_item'', PDict failed), (''items'', PList (map PDict done))]
       ''execute_failed'' reason"

definition completed_result :: "string \<Rightarrow> wa_plan \<Rightarrow> pydict list \<Rightarrow> string \<times> pydict" where
  "completed_result preview_id plan items =
     (let sub = submission_state items; proof = aggregate_submission_proof_reason (map PDict items);
          status = (if sub = ''mined_success'' then ''completed'' else ''submitted'') in
      (status, attach_lifecycle_summary
         (result_head status preview_id plan items
          @ (if sub = ''mined_success'' then []
             else (''submission_state'', PStr sub) # (if proof \<noteq> [] then [(''submission_proof_reason'', PStr proof)] else [])))
         status ''ok''))"

text \<open>After a submission trading stops: the controls pause, every family but the core one pauses.\<close>

definition pause_caught :: "launch_error \<Rightarrow> bool" where
  "pause_caught e = (case e of Py e \<Rightarrow> e \<in> {AttributeError, TypeError, ValueError} | InvalidTransition a b \<Rightarrow> False)"

fun pause_families :: "(nat \<Rightarrow> int \<times> int) \<Rightarrow> nat \<Rightarrow> string list \<Rightarrow> manager \<Rightarrow> manager \<times> launch_error option" where
  "pause_families clock k [] mg = (mg, None)"
| "pause_families clock k (f # fs) mg =
     (if f = ''flash_arb'' then pause_families clock (Suc k) fs mg
      else (case pause_family f ''withdraw_all'' (fst (clock k)) (snd (clock k)) mg of
              (mg', Inl e) \<Rightarrow> if pause_caught e then pause_families clock (Suc k) fs mg' else (mg', Some e)
            | (mg', Inr r) \<Rightarrow> pause_families clock (Suc k) fs mg'))"

definition stop_trading :: "wa_env \<Rightarrow> wa_world \<Rightarrow> wa_world \<times> launch_error option" where
  "stop_trading env w =
     (let w1 = w\<lparr>ww_controls := map_option (\<lambda>c. \<lparr>ct_paused = True, ct_frozen = True, ct_evolution = False\<rparr>) (ww_controls w)\<rparr> in
      case ww_rollout w1 of None \<Rightarrow> (w1, None)
      | Some mg \<Rightarrow> (case pause_families (we_clock env) 0 (lp_order (mg_profile mg)) mg of
                      (mg', err) \<Rightarrow> (w1\<lparr>ww_rollout := Some mg'\<rparr>, err)))"

definition deployment_mode :: "string \<Rightarrow> string" where
  "deployment_mode setting = lower (strip (or_text setting ''private''))"

definition is_public_mode :: "wa_config \<Rightarrow> bool" where
  "is_public_mode cfg = (deployment_mode (cf_deployment cfg) = ''public'')"

text \<open>The guards of a backend execution before the first remote call, in the code's order.\<close>

definition backend_blocked :: "wa_config \<Rightarrow> wa_node \<Rightarrow> (string \<times> pydict) option res" where
  "backend_blocked cfg node =
     (if is_public_mode cfg then Inr (Some (''withdraw_execute_disabled_in_public_mode'', []))
      else if cf_key cfg = [] then Inr (Some (''missing_private_key_env'', [(''private_key_env'', PStr (cf_key_env cfg))]))
      else case nd_account node (cf_key cfg) of
        Inl e \<Rightarrow> if e \<in> {TypeError, ValueError}
          then Inr (Some (''invalid_private_key_env'', [(''private_key_env'', PStr (cf_key_env cfg))])) else Inl e
      | Inr signer \<Rightarrow>
          if cf_read_url cfg = [] \<or> cf_send_url cfg = [] then Inr (Some (''no_rpc_endpoints'', []))
          else if cf_executor cfg = [] then Inr (Some (''executor_not_configured'', []))
          else if \<not> is_address (cf_executor cfg) then Inr (Some (''invalid_executor_address'', []))
          else Inr None)"

definition finish_failed ::
    "wa_env \<Rightarrow> wa_state \<Rightarrow> wa_state \<Rightarrow> string \<Rightarrow> pydict \<Rightarrow> string \<Rightarrow> wa_world \<Rightarrow> wa_world \<times> (launch_error + pydict)" where
  "finish_failed env persisted s reason failure preview_id w =
     answering [(''ok'', PBool False), (''reason_code'', PStr reason)] failure
       (persist_outcome env persisted s ''execute_failed'' reason failure preview_id ''withdraw_all_execute_failed'' w)"

definition assessed_state :: "wa_env \<Rightarrow> wa_state \<Rightarrow> wa_state" where
  "assessed_state env s = apply_refresh_metadata (we_assessed env) ''execution_assessed'' ''ok'' (clear_refresh_failure s)"

definition finish_sent ::
    "wa_env \<Rightarrow> wa_state \<Rightarrow> wa_plan \<Rightarrow> string \<Rightarrow> pydict list \<Rightarrow> wa_world \<Rightarrow> wa_world \<times> (launch_error + pydict)" where
  "finish_sent env s plan preview_id items w =
     (case completed_result preview_id plan items of (status, result) \<Rightarrow>
        (case persist_outcome env s (assessed_state env s) status ''ok'' result preview_id (''withdraw_all_'' @ status) w of
           (w1, Inl e) \<Rightarrow> (w1, Inl (Py e))
         | (w1, Inr saved) \<Rightarrow>
             (case stop_trading env w1 of
                (w2, Some e) \<Rightarrow> (w2, Inl e)
              | (w2, None) \<Rightarrow> (w2, Inr (with_result [(''ok'', PBool True)] saved result)))))"

definition execute_backend ::
    "(bytes \<Rightarrow> bytes) \<Rightarrow> wa_env \<Rightarrow> wa_state \<Rightarrow> wa_plan \<Rightarrow> string \<Rightarrow> wa_world \<Rightarrow> wa_world \<times> (launch_error + pydict)" where
  "execute_backend kec env s plan preview_id w =
     (let cfg = we_config env; node = we_node env in
      case backend_blocked cfg node of
        Inl e \<Rightarrow> (w, Inl (Py e))
      | Inr (Some (reason, extra)) \<Rightarrow> execute_blocked env s reason extra w
      | Inr None \<Rightarrow>
          (case rbind (nd_account node (cf_key cfg)) (\<lambda>signer.
                rbind (validate_executor_owner_proof kec (nd_owner node) (cf_executor cfg) signer) (\<lambda>p. Inr (signer, p))) of
             Inl e \<Rightarrow> (w, Inl (Py e))
           | Inr (signer, Some reason, owner) \<Rightarrow>
               execute_blocked env s reason
                 [(''private_key_env'', PStr (cf_key_env cfg)), (''signer_address'', PStr signer),
                  (''executor_owner'', PStr (case owner of None \<Rightarrow> [] | Some x \<Rightarrow> x))] w
           | Inr (signer, None, owner) \<Rightarrow>
               (case rbind (nd_gas node) (\<lambda>fees. rbind (nd_nonce node) (\<lambda>nonce. Inr (fees, nonce))) of
                  Inl e \<Rightarrow> (w, Inl (Py e))
                | Inr (fees, nonce) \<Rightarrow>
                    (case send_items kec cfg node plan fees nonce 0 (pl_items plan) [] (ww_sent w) of
                       (sent, end_) \<Rightarrow>
                         let w1 = w\<lparr>ww_sent := sent\<rparr> in
                         (case end_ of
                            SendRaised e \<Rightarrow> (w1, Inl (Py e))
                          | SendFailed it done \<Rightarrow>
                              finish_failed env s (clear_refresh_metadata s) ''send_failed''
                                (failure_result ''send_failed'' (item_dict plan it) done) preview_id w1
                          | SendReverted failed done \<Rightarrow>
                              finish_failed env s (assessed_state env s) ''receipt_reverted''
                                (failure_result ''receipt_reverted'' failed done) preview_id w1
                          | AllSent items \<Rightarrow> finish_sent env s plan preview_id items w1)))))"

text \<open>The request's guards, in the code's order: what refuses it, or whether it is a dry run.\<close>

definition execute_dry_run :: "pydict \<Rightarrow> pydict + bool" where
  "execute_dry_run payload =
     (let unexpected = unexpected_request_fields payload EXECUTE_ALLOWED_FIELDS in
      if unexpected \<noteq> [] then Inl (unknown_fields_payload unexpected)
      else if has_field payload ''dry_run'' then
        (case coerce_canonical_bool (dget payload ''dry_run'') of
           None \<Rightarrow> Inl (invalid_request_payload ''invalid_boolean_value'' (field_details ''dry_run'' (dget payload ''dry_run'')))
         | Some b \<Rightarrow> Inr b)
      else Inr False)"

definition request_blocked :: "int \<Rightarrow> pydict \<Rightarrow> wa_state \<Rightarrow> string option" where
  "request_blocked now payload s =
     (let preview_id = str_get payload ''preview_id'' in
      if preview_id = [] \<or> preview_id \<noteq> wa_preview_id s then Some ''preview_id_mismatch''
      else if str_get payload ''confirm_text'' \<noteq> CONFIRM_TEXT then Some ''confirmation_text_mismatch''
      else if preview_expired now s then Some ''preview_expired'' else None)"

definition replays :: "string \<Rightarrow> wa_state \<Rightarrow> bool" where
  "replays preview_id s = (preview_id = wa_executed_id s \<and> wa_executed_result s \<noteq> [])"

definition execute ::
    "(bytes \<Rightarrow> bytes) \<Rightarrow> (bytes \<Rightarrow> bytes) \<Rightarrow> wa_env \<Rightarrow> pydict \<Rightarrow> wa_world \<Rightarrow> wa_world \<times> (launch_error + pydict)" where
  "execute kec sha env payload w =
     (case execute_dry_run payload of
        Inl refusal \<Rightarrow> (w, Inr refusal)
      | Inr dry_run \<Rightarrow>
          let s = load_state (ww_file w); preview_id = str_get payload ''preview_id'' in
          (case request_blocked (we_now env) payload s of
             Some reason \<Rightarrow> execute_blocked env s reason [] w
           | None \<Rightarrow>
               if replays preview_id s then (w, Inr (replay_answer s))
               else (case build_plan env (ww_controls w) s of
                  Inl e \<Rightarrow> (w, Inl (Py e))
                | Inr plan \<Rightarrow>
                    if plan_digest sha plan \<noteq> wa_preview_digest s
                    then execute_blocked env s ''preview_stale''
                           ((''current_reason_code'', PStr (pl_reason plan)) # truth_fields ''current_'' (we_control env)) w
                    else if pl_reason plan \<noteq> ''ok''
                    then execute_blocked env s (pl_reason plan) (truth_fields [] (we_control env)) w
                    else if dry_run \<or> pl_mode plan \<noteq> ''backend'' then execute_prepared kec env s plan preview_id w
                    else execute_backend kec env s plan preview_id w)))"

section \<open>Reading the state\<close>

definition failure_active :: "wa_state \<Rightarrow> bool" where
  "failure_active s = (0 < wa_failure_count s \<and> normalize_refresh_failure_reason (wa_failure_reason s) \<noteq> [])"

definition failure_view :: "wa_state \<Rightarrow> pydict" where
  "failure_view s =
     [(''active'', PBool (failure_active s)), (''count'', PInt (wa_failure_count s)),
      (''reason_code'', PStr (normalize_refresh_failure_reason (wa_failure_reason s))), (''ts_ms'', PInt (wa_failure_ts s)),
      (''severity'', PStr (refresh_failure_severity (wa_failure_count s) (wa_failure_reason s))),
      (''decay_interval_ms'', PInt REFRESH_FAILURE_DECAY_INTERVAL_MS),
      (''next_decay_ts_ms'', PInt (if failure_active s then wa_failure_ts s + REFRESH_FAILURE_DECAY_INTERVAL_MS else 0))]"

definition destination_view :: "wa_state \<Rightarrow> pydict" where
  "destination_view s =
     (let ok = (wa_approved s \<noteq> [] \<and> is_address (wa_approved s));
          waiting = (wa_pending s \<noteq> [] \<and> is_address (wa_pending s)) in
      [(''approved_destination'', PStr (wa_approved s)), (''pending_destination'', PStr (wa_pending s)),
       (''destination_status'', PStr (if ok then ''approved'' else if waiting then ''pending_activation'' else ''missing'')),
       (''destination_reason_code'',
        PStr (if ok then ''ok'' else if waiting then ''pending_destination_activation_required'' else ''approved_destination_missing'')),
       (''destination_activation_required'', PBool (\<not> ok \<and> waiting)), (''destination_ready'', PBool ok)])"

definition load_failed :: "wa_state \<Rightarrow> bool" where
  "load_failed s = (or_text (wa_status s) ''idle'' = ''degraded'' \<and> wa_reason s = ''state_load_failed'')"

definition action_available :: "wa_plan \<Rightarrow> wa_state \<Rightarrow> bool" where
  "action_available plan s = (pl_reason plan = ''ok'' \<and> wa_approved s \<noteq> [] \<and> is_address (wa_approved s))"

definition balance_values :: "wa_plan \<Rightarrow> pyval" where
  "balance_values plan =
     PList (map (\<lambda>(t, n). PDict [(''token'', PStr t), (''balance'', PStr (show_int n))]) (pl_balances plan))"

definition state_view :: "wa_env \<Rightarrow> wa_plan \<Rightarrow> pydict \<Rightarrow> wa_state \<Rightarrow> pydict" where
  "state_view env plan refresh s =
     (let last_status = or_text (wa_status s) ''idle''; available = action_available plan s; reason = pl_reason plan in
      [(''ok'', PBool True), (''canonical'', PBool True), (''service'', PStr ''withdraw_all_service''),
       (''enabled'', PBool (wa_enabled s))] @ destination_view s @
      [(''status'', PStr (if load_failed s then ''degraded'' else if reason = ''ok'' then ''available'' else ''blocked'')),
       (''reason_code'', PStr (if load_failed s then ''state_load_failed'' else reason)),
       (''control_reason_code'', PStr reason), (''action_available'', PBool available),
       (''action_reason_code'', PStr (if \<not> available then reason else ''ok'')), (''preview_required'', PBool True),
       (''execute_confirmation_text'', PStr CONFIRM_TEXT), (''capital_truth'', PDict (we_truth env)),
       (''capitalTruthHealth'', por (dget (we_control env) ''capitalTruthHealth'') (PDict [])),
       (''withdrawControl'', PDict (we_control env)), (''withdrawable_balance_wei'', PStr (pl_balance_wei plan)),
       (''last_status'', PStr last_status), (''last_reason_code'', PStr (wa_reason s)), (''last_result'', PDict (wa_result s)),
       (''last_result_summary'', PDict (lifecycle_summary (wa_result s) last_status (wa_reason s))),
       (''last_result_refresh'', PDict refresh), (''last_result_refresh_ts_ms'', PInt (wa_refresh_ts s)),
       (''last_result_refresh_status'', PStr (or_text (wa_refresh_status s) ''idle'')),
       (''last_result_refresh_reason_code'', PStr (or_text (wa_refresh_reason s) ''never_checked'')),
       (''last_result_refresh_failure'', PDict (failure_view s)),
       (''last_result_refresh_failure_ts_ms'', PInt (wa_failure_ts s)),
       (''last_result_refresh_failure_reason_code'', PStr (normalize_refresh_failure_reason (wa_failure_reason s))),
       (''last_result_refresh_failure_count'', PInt (wa_failure_count s)),
       (''last_preview_id'', PStr (wa_preview_id s)), (''last_preview_ts_ms'', PInt (wa_preview_ts s)),
       (''preview_expired'', PBool (wa_preview_id s \<noteq> [] \<and> preview_expired (we_assessed env) s)),
       (''items'', balance_values plan), (''token_balances'', balance_values plan),
       (''mode'', PStr (cf_mode (we_config env))),
       (''post_withdraw_posture'', PDict
          [(''target_deployable_capital_wei'', PStr ''0''),
           (''platform_posture'', PStr (if available \<or> last_status \<in> {''prepared'', ''submitted'', ''completed''}
              then ''observation_only_after_wipe'' else ''unchanged'')),
           (''preserves_audit_history'', PBool True), (''command_center_pause_expected'', PBool True)]),
       (''updated_ts_ms'', PInt (we_now env))])"

definition read_state :: "wa_env \<Rightarrow> refresh_env \<Rightarrow> wa_world \<Rightarrow> wa_world \<times> pyval res" where
  "read_state env renv w =
     (let s0 = load_state (ww_file w); (s1, decayed) = decay_refresh_failure (we_now env) s0;
          (f1, s2) = (if decayed then save_quietly (we_save env) s1 (ww_file w) else (ww_file w, s1)) in
      case refresh_submitted_result_progress renv s2 f1 of
        (f2, Inl e) \<Rightarrow> (w\<lparr>ww_file := f2\<rparr>, Inl e)
      | (f2, Inr (s3, refresh)) \<Rightarrow>
          let w' = w\<lparr>ww_file := f2\<rparr> in
          (case build_plan env (ww_controls w') s3 of
             Inl e \<Rightarrow> (w', Inl e)
           | Inr plan \<Rightarrow> (w', Inr (json_safe (PDict (state_view env plan refresh s3))))))"

section \<open>Frames\<close>

lemma append_frame:
  "ww_file (fst (repo_append env k lg chain payload w)) = ww_file w" "ww_sent (fst (repo_append env k lg chain payload w)) = ww_sent w"
  "ww_controls (fst (repo_append env k lg chain payload w)) = ww_controls w" "ww_rollout (fst (repo_append env k lg chain payload w)) = ww_rollout w"
  "ww_journal (fst (repo_append env k lg chain payload w)) = ww_journal w"
  by (simp_all add: repo_append_def split: repo_call.split prod.split sum.split)

lemma event_frame [simp]:
  "ww_file (fst (lifecycle_ledger_event env ev md w)) = ww_file w"
  "ww_sent (fst (lifecycle_ledger_event env ev md w)) = ww_sent w"
  "ww_controls (fst (lifecycle_ledger_event env ev md w)) = ww_controls w"
  "ww_rollout (fst (lifecycle_ledger_event env ev md w)) = ww_rollout w"
proof -
  have r: "ww_file (fst (repair_repository env ev k x w)) = ww_file w \<and> ww_sent (fst (repair_repository env ev k x w)) = ww_sent w \<and>
      ww_controls (fst (repair_repository env ev k x w)) = ww_controls w \<and> ww_rollout (fst (repair_repository env ev k x w)) = ww_rollout w" for k x
    by (simp add: repair_repository_def Let_def append_frame split: option.splits sum.splits)
  show "ww_file (fst (lifecycle_ledger_event env ev md w)) = ww_file w"
    "ww_sent (fst (lifecycle_ledger_event env ev md w)) = ww_sent w"
    "ww_controls (fst (lifecycle_ledger_event env ev md w)) = ww_controls w"
    "ww_rollout (fst (lifecycle_ledger_event env ev md w)) = ww_rollout w"
    using r by (simp_all add: lifecycle_ledger_event_def Let_def append_frame split: option.splits prod.splits sum.splits)
qed

lemma journalled_fst [simp]: "fst (journalled env ev md answer w) = fst (lifecycle_ledger_event env ev md w)"
  by (simp add: journalled_def split: prod.split option.split)

lemma answering_fst [simp]: "fst (answering head result out) = fst out"
  by (simp add: answering_def split: prod.split sum.split)

lemma answering_world: "answering head result out = (w', r) \<Longrightarrow> w' = fst out"
  using answering_fst[of head result out] by simp

text \<open>What the state file holds after a write of \<open>s\<close>.\<close>

definition written :: "save_outcome \<Rightarrow> wa_state \<Rightarrow> wa_file \<Rightarrow> wa_file" where
  "written oc s f = (case oc of Saves t \<Rightarrow> Saved (s\<lparr>wa_updated := t\<rparr>) | Refuses \<Rightarrow> f | Tears \<Rightarrow> Unreadable)"

lemma save_state_written: "fst (save_state oc s f) = written oc s f"
  by (cases oc) (simp_all add: save_state_def written_def)

lemma save_quietly_written: "fst (save_quietly oc s f) = written oc s f"
  by (cases oc) (simp_all add: save_quietly_def save_state_def written_def)

definition outcome_state :: "string \<Rightarrow> string \<Rightarrow> pydict \<Rightarrow> string \<Rightarrow> wa_state \<Rightarrow> wa_state" where
  "outcome_state status reason result preview_id s =
     (let s1 = s\<lparr>wa_status := or_text status ''idle'', wa_reason := reason, wa_result := result\<rparr> in
      if preview_id \<noteq> [] then s1\<lparr>wa_executed_id := preview_id, wa_executed_result := result\<rparr> else s1)"

lemma persist_frame:
  "ww_file (fst (persist_outcome env p s st rs res pid ev w)) = written (we_save env) (outcome_state st rs res pid s) (ww_file w)"
  "ww_sent (fst (persist_outcome env p s st rs res pid ev w)) = ww_sent w"
  "ww_controls (fst (persist_outcome env p s st rs res pid ev w)) = ww_controls w"
  "ww_rollout (fst (persist_outcome env p s st rs res pid ev w)) = ww_rollout w"
  by (cases "we_save env"; simp add: persist_outcome_def save_state_def written_def outcome_state_def Let_def)+

lemma blocked_frame:
  "ww_file (fst (execute_blocked env s reason extra w)) =
     written (we_save env) (outcome_state ''execute_blocked'' reason ([(''ok'', PBool False), (''reason_code'', PStr reason)] @ extra) [] s) (ww_file w)"
  "ww_sent (fst (execute_blocked env s reason extra w)) = ww_sent w"
  "ww_controls (fst (execute_blocked env s reason extra w)) = ww_controls w"
  "ww_rollout (fst (execute_blocked env s reason extra w)) = ww_rollout w"
  by (simp_all add: execute_blocked_def persist_frame Let_def)

text \<open>A write that leaves the fields deciding over a preview alone, except that it may mark \<open>pid\<close> as executed.\<close>

definition outcome_written :: "wa_env \<Rightarrow> wa_state \<Rightarrow> string \<Rightarrow> wa_file \<Rightarrow> wa_file \<Rightarrow> bool" where
  "outcome_written env s pid f f' \<longleftrightarrow>
     (\<exists>st rs res s1. res \<noteq> [] \<and> same_control s s1 \<and> wa_executed_result s1 = wa_executed_result s \<and>
        f' = written (we_save env) (outcome_state st rs res pid s1) f)"

lemma same_control_refl [simp]: "same_control s s"
  by (simp add: same_control_def)

lemma same_control_meta [simp]:
  "same_control s (assessed_state env s)" "same_control s (clear_refresh_metadata s)"
  "wa_executed_result (assessed_state env s) = wa_executed_result s"
  "wa_executed_result (clear_refresh_metadata s) = wa_executed_result s"
  by (simp_all add: same_control_def assessed_state_def clear_refresh_metadata_def apply_refresh_metadata_def clear_refresh_failure_def)

lemma outcome_writtenI:
  "res \<noteq> [] \<Longrightarrow> same_control s s1 \<Longrightarrow> wa_executed_result s1 = wa_executed_result s \<Longrightarrow>
   outcome_written env s pid f (written (we_save env) (outcome_state st rs res pid s1) f)"
  unfolding outcome_written_def by blast

lemma blocked_written: "outcome_written env s [] (ww_file w) (ww_file (fst (execute_blocked env s reason extra w)))"
  unfolding blocked_frame by (rule outcome_writtenI) simp_all

lemma attach_nonempty [simp]: "attach_lifecycle_summary d a b \<noteq> []"
  by (simp add: attach_lifecycle_summary_def)

lemma prepared_effect:
  assumes "execute_prepared kec env s plan pid w = (w', r)"
  shows "ww_sent w' = ww_sent w \<and> (ww_file w' = ww_file w \<or> outcome_written env s pid (ww_file w) (ww_file w'))"
proof (cases "prepared_items kec plan")
  case (Inl e)
  with assms show ?thesis by (simp add: execute_prepared_def)
next
  case (Inr items)
  let ?res = "attach_lifecycle_summary (result_head ''prepared'' pid plan items) ''prepared'' ''ok''"
  have "w' = fst (persist_outcome env s s ''prepared'' ''ok'' ?res pid ''withdraw_all_prepared'' w)"
    using assms Inr by (simp add: execute_prepared_def Let_def answering_world)
  then show ?thesis by (simp add: persist_frame outcome_writtenI)
qed

lemma stop_frame:
  "ww_file (fst (stop_trading env w)) = ww_file w" "ww_sent (fst (stop_trading env w)) = ww_sent w"
  by (auto simp: stop_trading_def Let_def split: option.splits prod.splits)

lemma finish_failed_effect:
  assumes "finish_failed env s s1 reason failure pid w = (w', r)" and "failure \<noteq> []" and "same_control s s1"
    and "wa_executed_result s1 = wa_executed_result s"
  shows "ww_sent w' = ww_sent w \<and> outcome_written env s pid (ww_file w) (ww_file w')"
proof -
  have "w' = fst (persist_outcome env s s1 ''execute_failed'' reason failure pid ''withdraw_all_execute_failed'' w)"
    using assms(1) by (simp add: finish_failed_def answering_world)
  with assms(2-4) show ?thesis by (simp add: persist_frame outcome_writtenI)
qed

lemma finish_sent_effect:
  assumes "finish_sent env s plan pid items w = (w', r)"
  shows "ww_sent w' = ww_sent w \<and> outcome_written env s pid (ww_file w) (ww_file w')"
proof -
  obtain st res where c: "completed_result pid plan items = (st, res)" by (cases "completed_result pid plan items")
  then have ne: "res \<noteq> []" by (auto simp: completed_result_def Let_def)
  let ?w1 = "fst (persist_outcome env s (assessed_state env s) st ''ok'' res pid (''withdraw_all_'' @ st) w)"
  have "w' = ?w1 \<or> w' = fst (stop_trading env ?w1)"
    using assms c by (auto simp: finish_sent_def split: prod.splits option.splits sum.splits)
  then show ?thesis using ne by (auto simp: stop_frame persist_frame outcome_writtenI)
qed

text \<open>The configured key's address owns the executor contract.\<close>

definition owner_proved :: "(bytes \<Rightarrow> bytes) \<Rightarrow> wa_config \<Rightarrow> wa_node \<Rightarrow> bool" where
  "owner_proved kec cfg node \<longleftrightarrow>
     (\<exists>signer owner. nd_account node (cf_key cfg) = Inr signer \<and>
        validate_executor_owner_proof kec (nd_owner node) (cf_executor cfg) signer = Inr (None, owner))"

text \<open>A backend execution either sends nothing, or hands over what \<open>send_items\<close> sent; unless a call raised on
  the way, it then writes the state with the preview marked as executed.\<close>

lemma backend_effect:
  assumes "execute_backend kec env s plan pid w = (w', r)"
  obtains (quiet) "ww_sent w' = ww_sent w" "ww_file w' = ww_file w \<or> outcome_written env s [] (ww_file w) (ww_file w')"
  | (raised) fees nonce x where "backend_blocked (we_config env) (we_node env) = Inr None"
      "owner_proved kec (we_config env) (we_node env)" "nd_gas (we_node env) = Inr fees" "nd_nonce (we_node env) = Inr nonce"
      "send_items kec (we_config env) (we_node env) plan fees nonce 0 (pl_items plan) [] (ww_sent w) = (ww_sent w', SendRaised x)"
      "ww_file w' = ww_file w" "r = Inl (Py x)"
  | (marked) fees nonce e where "backend_blocked (we_config env) (we_node env) = Inr None"
      "owner_proved kec (we_config env) (we_node env)" "nd_gas (we_node env) = Inr fees" "nd_nonce (we_node env) = Inr nonce"
      "send_items kec (we_config env) (we_node env) plan fees nonce 0 (pl_items plan) [] (ww_sent w) = (ww_sent w', e)"
      "outcome_written env s pid (ww_file w) (ww_file w')"
proof -
  let ?cfg = "we_config env" and ?node = "we_node env"
  have blk: thesis if "(w', r) = execute_blocked env s reason extra w" for reason extra
  proof -
    from that have "w' = fst (execute_blocked env s reason extra w)" by (cases "execute_blocked env s reason extra w") simp
    then show thesis using blocked_frame(2) blocked_written by (intro quiet) simp_all
  qed
  show thesis
  proof (cases "backend_blocked ?cfg ?node")
    case (Inl e)
    with assms show thesis by (intro quiet) (auto simp: execute_backend_def)
  next
    case (Inr b)
    show thesis
    proof (cases b)
      case (Some p)
      with Inr assms show thesis by (intro blk[of "fst p" "snd p"]) (cases p, simp add: execute_backend_def)
    next
      case None
      let ?own = "rbind (nd_account ?node (cf_key ?cfg)) (\<lambda>signer.
          rbind (validate_executor_owner_proof kec (nd_owner ?node) (cf_executor ?cfg) signer) (\<lambda>p. Inr (signer, p)))"
      show thesis
      proof (cases ?own)
        case (Inl e)
        with \<open>backend_blocked ?cfg ?node = Inr b\<close> None assms show thesis by (intro quiet) (auto simp: execute_backend_def)
      next
        case own: (Inr t)
        obtain signer q owner where t: "t = (signer, q, owner)" by (cases t)
        show thesis
        proof (cases q)
          case (Some reason)
          let ?extra = "[(''private_key_env'', PStr (cf_key_env ?cfg)), (''signer_address'', PStr signer),
              (''executor_owner'', PStr (case owner of None \<Rightarrow> [] | Some x \<Rightarrow> x))]"
          from Some \<open>backend_blocked ?cfg ?node = Inr b\<close> None assms own t show thesis
            by (intro blk[of reason ?extra]) (simp add: execute_backend_def)
        next
          case q: None
          let ?fn = "rbind (nd_gas ?node) (\<lambda>fees. rbind (nd_nonce ?node) (\<lambda>nonce. Inr (fees, nonce)))"
          show thesis
          proof (cases ?fn)
            case (Inl e)
            with \<open>backend_blocked ?cfg ?node = Inr b\<close> None assms own t q show thesis
              by (intro quiet) (auto simp: execute_backend_def)
          next
            case fn: (Inr fn)
            then obtain fees nonce where g: "nd_gas ?node = Inr fees" "nd_nonce ?node = Inr nonce" "fn = (fees, nonce)"
              by (auto simp: rbind_eq_Inr)
            obtain sent e where se: "send_items kec ?cfg ?node plan fees nonce 0 (pl_items plan) [] (ww_sent w) = (sent, e)"
              by (cases "send_items kec ?cfg ?node plan fees nonce 0 (pl_items plan) [] (ww_sent w)")
            let ?w1 = "w\<lparr>ww_sent := sent\<rparr>"
            have out: "(w', r) = (case e of
                SendRaised x \<Rightarrow> (?w1, Inl (Py x))
              | SendFailed it sofar \<Rightarrow> finish_failed env s (clear_refresh_metadata s) ''send_failed''
                  (failure_result ''send_failed'' (item_dict plan it) sofar) pid ?w1
              | SendReverted failed sofar \<Rightarrow> finish_failed env s (assessed_state env s) ''receipt_reverted''
                  (failure_result ''receipt_reverted'' failed sofar) pid ?w1
              | AllSent items \<Rightarrow> finish_sent env s plan pid items ?w1)"
              using assms \<open>backend_blocked ?cfg ?node = Inr b\<close> None own t q fn g se
              by (simp add: execute_backend_def Let_def)
            have bb: "backend_blocked ?cfg ?node = Inr None" using Inr None by simp
            have op: "owner_proved kec ?cfg ?node" using own t q unfolding owner_proved_def by (auto simp: rbind_eq_Inr)
            show thesis
            proof (cases e)
              case (SendRaised x)
              with out se show thesis by (intro raised[OF bb op g(1,2)]) simp_all
            next
              case (SendFailed it sofar)
              with out have "finish_failed env s (clear_refresh_metadata s) ''send_failed''
                  (failure_result ''send_failed'' (item_dict plan it) sofar) pid ?w1 = (w', r)" by simp
              from finish_failed_effect[OF this] se show thesis
                by (intro marked[OF bb op g(1,2)]) (simp_all add: failure_result_def)
            next
              case (SendReverted failed sofar)
              with out have "finish_failed env s (assessed_state env s) ''receipt_reverted''
                  (failure_result ''receipt_reverted'' failed sofar) pid ?w1 = (w', r)" by simp
              from finish_failed_effect[OF this] se show thesis
                by (intro marked[OF bb op g(1,2)]) (simp_all add: failure_result_def)
            next
              case (AllSent items)
              with out have "finish_sent env s plan pid items ?w1 = (w', r)" by simp
              from finish_sent_effect[OF this] se show thesis
                by (intro marked[OF bb op g(1,2)]) simp_all
            qed
          qed
        qed
      qed
    qed
  qed
qed

text \<open>An execution changes the state file in three ways only; it marks a preview as executed only under the
  request's own, current and not yet executed preview id.\<close>

lemma execute_effect:
  assumes "execute kec sha env payload w = (w', r)"
  defines "s \<equiv> load_state (ww_file w)" and "pid \<equiv> str_get payload ''preview_id''"
  obtains (quiet) "ww_sent w' = ww_sent w" "ww_file w' = ww_file w \<or> outcome_written env s [] (ww_file w) (ww_file w')"
  | (prepared) plan where "request_blocked (we_now env) payload s = None" "\<not> replays pid s"
      "build_plan env (ww_controls w) s = Inr plan" "plan_digest sha plan = wa_preview_digest s"
      "ww_sent w' = ww_sent w" "outcome_written env s pid (ww_file w) (ww_file w')"
  | (raised) plan fees nonce x where "request_blocked (we_now env) payload s = None" "\<not> replays pid s"
      "build_plan env (ww_controls w) s = Inr plan" "plan_digest sha plan = wa_preview_digest s" "pl_reason plan = ''ok''"
      "pl_mode plan = ''backend''" "execute_dry_run payload = Inr False" "backend_blocked (we_config env) (we_node env) = Inr None"
      "owner_proved kec (we_config env) (we_node env)" "nd_gas (we_node env) = Inr fees" "nd_nonce (we_node env) = Inr nonce"
      "send_items kec (we_config env) (we_node env) plan fees nonce 0 (pl_items plan) [] (ww_sent w) = (ww_sent w', SendRaised x)"
      "ww_file w' = ww_file w" "r = Inl (Py x)"
  | (marked) plan fees nonce e where "request_blocked (we_now env) payload s = None" "\<not> replays pid s"
      "build_plan env (ww_controls w) s = Inr plan" "plan_digest sha plan = wa_preview_digest s" "pl_reason plan = ''ok''"
      "pl_mode plan = ''backend''" "execute_dry_run payload = Inr False" "backend_blocked (we_config env) (we_node env) = Inr None"
      "owner_proved kec (we_config env) (we_node env)" "nd_gas (we_node env) = Inr fees" "nd_nonce (we_node env) = Inr nonce"
      "send_items kec (we_config env) (we_node env) plan fees nonce 0 (pl_items plan) [] (ww_sent w) = (ww_sent w', e)"
      "outcome_written env s pid (ww_file w) (ww_file w')"
proof -
  have blk: thesis if "(w', r) = execute_blocked env s reason extra w" for reason extra
  proof -
    from that have "w' = fst (execute_blocked env s reason extra w)" by (cases "execute_blocked env s reason extra w") simp
    then show thesis using blocked_frame(2) blocked_written by (intro quiet) simp_all
  qed
  show thesis
  proof (cases "execute_dry_run payload")
    case (Inl refusal)
    with assms(1) show thesis by (intro quiet) (auto simp: execute_def)
  next
    case dry: (Inr dry_run)
    show thesis
    proof (cases "request_blocked (we_now env) payload s")
      case (Some reason)
      with dry assms(1) show thesis by (intro blk[of reason "[]"]) (simp add: execute_def Let_def s_def)
    next
      case rb: None
      show thesis
      proof (cases "replays pid s")
        case True
        with dry rb assms(1) show thesis by (intro quiet) (auto simp: execute_def Let_def s_def pid_def)
      next
        case nr: False
        show thesis
        proof (cases "build_plan env (ww_controls w) s")
          case (Inl e)
          with dry rb nr assms(1) show thesis by (intro quiet) (auto simp: execute_def Let_def s_def pid_def)
        next
          case bp: (Inr plan)
          note ctx = dry rb nr bp assms(1)
          show thesis
          proof (cases "plan_digest sha plan = wa_preview_digest s")
            case False
            with ctx show thesis
              by (intro blk[of "''preview_stale''" "(''current_reason_code'', PStr (pl_reason plan)) # truth_fields ''current_'' (we_control env)"])
                 (simp add: execute_def Let_def s_def pid_def)
          next
            case dg: True
            show thesis
            proof (cases "pl_reason plan = ''ok''")
              case False
              with ctx dg show thesis
                by (intro blk[of "pl_reason plan" "truth_fields [] (we_control env)"]) (simp add: execute_def Let_def s_def pid_def)
            next
              case ok: True
              show thesis
              proof (cases "dry_run \<or> pl_mode plan \<noteq> ''backend''")
                case True
                with ctx dg ok have "execute_prepared kec env s plan pid w = (w', r)"
                  by (simp add: execute_def Let_def s_def pid_def)
                from prepared_effect[OF this] show thesis
                  using prepared[OF rb nr bp dg] quiet by blast
              next
                case False
                with ctx dg ok have b: "execute_backend kec env s plan pid w = (w', r)"
                  by (simp add: execute_def Let_def s_def pid_def)
                from False dry have d: "execute_dry_run payload = Inr False" "pl_mode plan = ''backend''" by auto
                from b show thesis
                proof (cases rule: backend_effect)
                  case q: quiet
                  then show thesis by (rule quiet)
                next
                  case q: (raised fees nonce x)
                  show thesis by (rule raised[OF rb nr bp dg ok d(2,1) q])
                next
                  case q: (marked fees nonce e)
                  show thesis by (rule marked[OF rb nr bp dg ok d(2,1) q])
                qed
              qed
            qed
          qed
        qed
      qed
    qed
  qed
qed

end
