(* ===== verification/Withdraw_Runs.thy ===== *)
theory Withdraw_Runs
  imports Withdraw_All
begin

text \<open>
  What the withdraw-all service guarantees over runs of its operations: a preview is executed at most
  once, only what it planned is sent, trading stops after a submission; and the cases where the code
  falls short of that: a state write refused after a submission, configuration events that the audit
  ledger drops, a stray execution request that ends the tracking of a submitted batch.
\<close>

section \<open>Runs\<close>

datatype wa_op =
    OpConfigure wa_env pydict
  | OpPreview wa_env
  | OpExecute wa_env pydict
  | OpRead wa_env refresh_env

fun run_op :: "(bytes \<Rightarrow> bytes) \<Rightarrow> (bytes \<Rightarrow> bytes) \<Rightarrow> wa_world \<Rightarrow> wa_op \<Rightarrow> wa_world" where
  "run_op kec sha w (OpConfigure env payload) = fst (configure env payload w)"
| "run_op kec sha w (OpPreview env) = fst (preview sha env w)"
| "run_op kec sha w (OpExecute env payload) = fst (execute kec sha env payload w)"
| "run_op kec sha w (OpRead env renv) = fst (read_state env renv w)"

definition run_ops :: "(bytes \<Rightarrow> bytes) \<Rightarrow> (bytes \<Rightarrow> bytes) \<Rightarrow> wa_world \<Rightarrow> wa_op list \<Rightarrow> wa_world" where
  "run_ops kec sha w ops = foldl (run_op kec sha) w ops"

text \<open>Previews are minted with fresh identifiers: an operation does not mint \<open>pid\<close> again.\<close>

fun mints :: "string \<Rightarrow> wa_op \<Rightarrow> bool" where
  "mints pid (OpPreview env) = (''wipe_'' @ we_uuid env = pid)"
| "mints pid _ = False"

text \<open>A preview that cannot be executed any more: another one is current, or it is marked as executed.\<close>

definition burnt :: "string \<Rightarrow> wa_file \<Rightarrow> bool" where
  "burnt pid f \<longleftrightarrow> (let s = load_state f in wa_preview_id s \<noteq> pid \<or> replays pid s)"

lemma load_written:
  "load_state (written oc s f) = (case oc of Saves t \<Rightarrow> s\<lparr>wa_updated := t\<rparr> | Refuses \<Rightarrow> load_state f
     | Tears \<Rightarrow> wa_default_state\<lparr>wa_status := ''degraded'', wa_reason := ''state_load_failed''\<rparr>)"
  by (cases oc) (simp_all add: written_def load_state_def)

lemma burnt_written:
  assumes "pid \<noteq> []" and "burnt pid f" and "wa_preview_id s \<noteq> pid \<or> replays pid s"
  shows "burnt pid (written oc s f)"
  using assms by (cases oc) (simp_all add: burnt_def load_written replays_def wa_default_state_def)

lemma outcome_state_fields [simp]:
  "wa_preview_id (outcome_state st rs res pid s) = wa_preview_id s"
  "wa_executed_id (outcome_state st rs res pid s) = (if pid \<noteq> [] then pid else wa_executed_id s)"
  "wa_executed_result (outcome_state st rs res pid s) = (if pid \<noteq> [] then res else wa_executed_result s)"
  by (simp_all add: outcome_state_def Let_def)

lemma burnt_outcome:
  assumes "pid \<noteq> []" and "burnt pid f" and "outcome_written env (load_state f) q f f'"
    and "q = [] \<or> q = pid"
  shows "burnt pid f'"
proof -
  from assms(3) obtain st rs res s1 where o: "res \<noteq> []" "same_control (load_state f) s1"
    "wa_executed_result s1 = wa_executed_result (load_state f)" "f' = written (we_save env) (outcome_state st rs res q s1) f"
    unfolding outcome_written_def by blast
  have "wa_preview_id (outcome_state st rs res q s1) \<noteq> pid \<or> replays pid (outcome_state st rs res q s1)"
    using assms(1,2,4) o(1-3) by (auto simp: burnt_def Let_def replays_def same_control_def)
  from burnt_written[OF assms(1,2) this] show ?thesis by (simp add: o(4))
qed

lemma refresh_ok_burnt:
  assumes "refresh_ok s t" and "wa_preview_id s \<noteq> pid \<or> replays pid s" and "pid \<noteq> []"
  shows "wa_preview_id t \<noteq> pid \<or> replays pid t"
  using assms unfolding refresh_ok_def same_control_def replays_def by auto

lemma decay_frame:
  "wa_preview_id (fst (decay_refresh_failure now s)) = wa_preview_id s"
  "wa_executed_id (fst (decay_refresh_failure now s)) = wa_executed_id s"
  "wa_executed_result (fst (decay_refresh_failure now s)) = wa_executed_result s"
  by (auto simp: decay_refresh_failure_def clear_refresh_failure_def Let_def)

lemma save_quietly_state: "snd (save_quietly oc s f) = s\<lparr>wa_updated := wa_updated (snd (save_quietly oc s f))\<rparr>"
  by (cases oc) (auto simp: save_quietly_def save_state_def)

lemma burnt_read:
  assumes "pid \<noteq> []" and "burnt pid (ww_file w)"
  shows "burnt pid (ww_file (fst (read_state env renv w)))"
proof -
  let ?s0 = "load_state (ww_file w)"
  obtain s1 decayed where d: "decay_refresh_failure (we_now env) ?s0 = (s1, decayed)" by (cases "decay_refresh_failure (we_now env) ?s0")
  have b0: "wa_preview_id ?s0 \<noteq> pid \<or> replays pid ?s0" using assms(2) by (simp add: burnt_def Let_def)
  then have b1: "wa_preview_id s1 \<noteq> pid \<or> replays pid s1"
    using decay_frame[of "we_now env" ?s0] by (simp add: d replays_def)
  obtain f1 s2 where f1: "(if decayed then save_quietly (we_save env) s1 (ww_file w) else (ww_file w, s1)) = (f1, s2)"
    by (cases "if decayed then save_quietly (we_save env) s1 (ww_file w) else (ww_file w, s1)")
  have bf1: "burnt pid f1"
  proof (cases decayed)
    case True
    then have "f1 = written (we_save env) s1 (ww_file w)" using f1 save_quietly_written[of "we_save env" s1 "ww_file w"] by simp
    then show ?thesis using burnt_written[OF assms b1] by simp
  next
    case False
    with f1 assms(2) show ?thesis by simp
  qed
  have b2: "wa_preview_id s2 \<noteq> pid \<or> replays pid s2"
  proof (cases decayed)
    case True
    then have "s2 = s1\<lparr>wa_updated := wa_updated s2\<rparr>" using f1 save_quietly_state[of "we_save env" s1 "ww_file w"] by simp
    then obtain n where "s2 = s1\<lparr>wa_updated := n\<rparr>" by blast
    with b1 show ?thesis by (simp add: replays_def)
  next
    case False
    with f1 b1 show ?thesis by simp
  qed
  let ?out = "refresh_submitted_result_progress renv s2 f1"
  have f2: "burnt pid (fst ?out)"
  proof -
    have "fst ?out = f1 \<or> fst ?out = Unreadable \<or> (\<exists>u. fst ?out = Saved u \<and> refresh_ok s2 u)"
      using refresh_well[of s2 f1 renv] by (simp add: settled_well_def)
    then show ?thesis
      using bf1 refresh_ok_burnt[OF _ b2 assms(1)] assms(1) by (auto simp: burnt_def load_state_def wa_default_state_def Let_def)
  qed
  have "ww_file (fst (read_state env renv w)) = fst ?out"
    using d f1 by (auto simp: read_state_def Let_def split: prod.splits sum.splits)
  then show ?thesis using f2 by simp
qed

lemma burnt_configure:
  assumes "pid \<noteq> []" and "burnt pid (ww_file w)"
  shows "burnt pid (ww_file (fst (configure env payload w)))"
proof -
  have w: "burnt pid (written (we_save env) (clear_preview_state s1) (ww_file w))" for s1
    using assms by (intro burnt_written) (simp_all add: clear_preview_state_def)
  have "ww_file (fst (configure env payload w)) = ww_file w \<or>
      (\<exists>s1. ww_file (fst (configure env payload w)) = written (we_save env) (clear_preview_state s1) (ww_file w))"
    using save_state_written by (auto simp: configure_def Let_def split: prod.splits sum.splits option.splits) (metis fst_conv)+
  with w assms(2) show ?thesis by auto
qed

lemma burnt_preview:
  assumes "pid \<noteq> []" and "burnt pid (ww_file w)" and "''wipe_'' @ we_uuid env \<noteq> pid"
  shows "burnt pid (ww_file (fst (preview sha env w)))"
proof -
  have w: "burnt pid (written (we_save env) (previewed_state sha env plan s1) (ww_file w))" for plan s1
    using assms by (intro burnt_written) (simp_all add: previewed_state_def)
  have "ww_file (fst (preview sha env w)) = ww_file w \<or>
      (\<exists>plan s1. ww_file (fst (preview sha env w)) = written (we_save env) (previewed_state sha env plan s1) (ww_file w))"
    using save_state_written by (auto simp: preview_def Let_def split: prod.splits sum.splits option.splits) (metis fst_conv)+
  with w assms(2) show ?thesis by auto
qed

lemma request_blocked_None:
  assumes "request_blocked now payload s = None"
  shows "str_get payload ''preview_id'' = wa_preview_id s" and "wa_preview_id s \<noteq> []"
    and "str_get payload ''confirm_text'' = CONFIRM_TEXT" and "\<not> preview_expired now s"
  using assms by (auto simp: request_blocked_def Let_def split: if_splits)

lemma burnt_execute:
  assumes "pid \<noteq> []" and "burnt pid (ww_file w)"
  shows "burnt pid (ww_file (fst (execute kec sha env payload w)))"
proof -
  obtain w' r where e: "execute kec sha env payload w = (w', r)" by (cases "execute kec sha env payload w")
  have own: "burnt pid f'"
    if q: "request_blocked (we_now env) payload (load_state (ww_file w)) = None"
      "outcome_written env (load_state (ww_file w)) (str_get payload ''preview_id'') (ww_file w) f'" for f'
  proof (cases "str_get payload ''preview_id'' = pid")
    case True
    with burnt_outcome[OF assms q(2)] show ?thesis by blast
  next
    case False
    from q(2) obtain st rs res s1 where o: "same_control (load_state (ww_file w)) s1"
      "f' = written (we_save env) (outcome_state st rs res (str_get payload ''preview_id'') s1) (ww_file w)"
      unfolding outcome_written_def by blast
    have "wa_preview_id (outcome_state st rs res (str_get payload ''preview_id'') s1) \<noteq> pid"
      using False request_blocked_None(1)[OF q(1)] o(1) by (simp add: same_control_def)
    with burnt_written[OF assms] show ?thesis by (simp add: o(2))
  qed
  from e show ?thesis
  proof (cases rule: execute_effect)
    case quiet
    then show ?thesis using e assms(2) burnt_outcome[OF assms] by auto
  next
    case (prepared plan)
    then show ?thesis using e own by simp
  next
    case (raised plan fees nonce x)
    then show ?thesis using e assms(2) by simp
  next
    case (marked plan fees nonce e')
    then show ?thesis using e own by simp
  qed
qed

lemma burnt_step: "pid \<noteq> [] \<Longrightarrow> burnt pid (ww_file w) \<Longrightarrow> \<not> mints pid op \<Longrightarrow> burnt pid (ww_file (run_op kec sha w op))"
  by (cases op) (simp_all add: burnt_configure burnt_preview burnt_execute burnt_read)

lemma burnt_run:
  "pid \<noteq> [] \<Longrightarrow> burnt pid (ww_file w) \<Longrightarrow> \<forall>op \<in> set ops. \<not> mints pid op \<Longrightarrow> burnt pid (ww_file (run_ops kec sha w ops))"
  unfolding run_ops_def by (induction ops arbitrary: w) (simp_all add: burnt_step)

section \<open>What is sent\<close>

text \<open>A transaction as it must be for an item: the executor's withdrawal of the item's amount to the destination.\<close>

definition tx_for :: "(bytes \<Rightarrow> bytes) \<Rightarrow> wa_config \<Rightarrow> wa_plan \<Rightarrow> int \<times> int \<Rightarrow> int option \<Rightarrow> nat \<Rightarrow> string \<times> int \<Rightarrow> raw_tx \<Rightarrow> bool" where
  "tx_for kec cfg plan fees nonce k it tx \<longleftrightarrow>
     tx_chain_id tx = cf_chain_id cfg \<and> tx_to tx = cf_executor cfg \<and> nonce = Some (tx_nonce tx - int k) \<and>
     build_withdraw_calldata kec (fst it) (pl_destination plan) (snd it) = Inr (tx_data tx) \<and>
     (tx_max_fee tx, tx_prio tx) = fees \<and> cf_gas_limit cfg \<le> tx_gas tx"

lemma build_tx_for: "build_tx kec cfg node plan fees nonce k it = Inr tx \<Longrightarrow> tx_for kec cfg plan fees nonce k it tx"
  by (auto simp: build_tx_def rbind_eq_Inr tx_for_def estimated_gas_def split: option.splits sum.splits if_splits)

lemma send_items_sound:
  "send_items kec cfg node plan fees nonce k its sofar sent = (sent', e) \<Longrightarrow>
   \<exists>new. sent' = sent @ new \<and> length new \<le> length its \<and> (\<forall>i < length new. tx_for kec cfg plan fees nonce (k + i) (its ! i) (fst (new ! i))) \<and>
     (\<forall>items. e = AllSent items \<longrightarrow> length new = length its)"
proof (induction kec cfg node plan fees nonce k its sofar sent arbitrary: sent' e rule: send_items.induct)
  case (1 kec cfg node plan fees nonce k sofar sent)
  then show ?case by simp
next
  case (2 kec cfg node plan fees nonce k it its sofar sent)
  let ?b = "rbind (build_tx kec cfg node plan fees nonce k it) (\<lambda>tx.
      rbind (nd_sign node tx) (\<lambda>raw. rbind (send_request cfg node k (raw_hex raw)) (\<lambda>req. Inr (tx, req))))"
  show ?case
  proof (cases ?b)
    case (Inl x)
    with "2.prems" show ?thesis by auto
  next
    case (Inr t)
    then have t: "tx_for kec cfg plan fees nonce k it (fst t)" by (auto simp: rbind_eq_Inr intro: build_tx_for)
    have one: ?thesis if "sent' = sent @ [t]" "\<And>items. e \<noteq> AllSent items"
      using that t by (intro exI[of _ "[t]"]) auto
    show ?thesis
    proof (cases "sent_hash (nd_send node k)")
      case None
      with "2.prems" Inr have "sent' = sent @ [t]" "e = SendFailed it sofar" by auto
      then show ?thesis by (intro one) simp_all
    next
      case (Some h)
      let ?a = "assess_submitted_tx (nd_rpc node k) h (PStr (or_text (cf_send_mode cfg) ''public''))"
      show ?thesis
      proof (cases ?a)
        case (Inl x)
        with "2.prems" Inr Some have "sent' = sent @ [t]" "e = SendRaised x" by auto
        then show ?thesis by (intro one) simp_all
      next
        case a: (Inr st)
        show ?thesis
        proof (cases "st_status st = ''mined_reverted''")
          case True
          with "2.prems" Inr Some a have "sent' = sent @ [t]" "e = SendReverted (sent_item plan it h st) sofar" by auto
          then show ?thesis by (intro one) simp_all
        next
          case False
          with "2.prems" Inr Some a have rec: "send_items kec cfg node plan fees nonce (Suc k) its
              (sofar @ [sent_item plan it h st]) (sent @ [t]) = (sent', e)" by simp
          from "2.IH"[OF Inr refl Some a False this] obtain new where n: "sent' = (sent @ [t]) @ new" "length new \<le> length its"
            "\<forall>i < length new. tx_for kec cfg plan fees nonce (Suc k + i) (its ! i) (fst (new ! i))"
            "\<forall>items. e = AllSent items \<longrightarrow> length new = length its" by blast
          have "tx_for kec cfg plan fees nonce (k + i) ((it # its) ! i) (fst ((t # new) ! i))" if "i < length (t # new)" for i
            using that t n(3) by (cases i) simp_all
          with n show ?thesis by (intro exI[of _ "t # new"]) simp
        qed
      qed
    qed
  qed
qed

lemma build_plan_cases:
  assumes "build_plan env ct s = Inr plan"
  shows "pl_destination plan = wa_approved s" and "\<forall>it \<in> set (pl_items plan). 0 < snd it \<and> fst it \<in> set (cf_tokens (we_config env))"
    and "pl_reason plan = ''ok'' \<Longrightarrow> block_reason env ct s = ''ok'' \<and> pl_items plan \<noteq> []"
    and "pl_mode plan = or_text (cf_mode (we_config env)) ''txdata''"
proof -
  from assms obtain bal where b: "token_balances (we_config env) (we_node env) = Inr bal"
    and p: "plan = \<lparr>pl_reason = (if block_reason env ct s = ''ok'' \<and> filter (\<lambda>(t, n). 0 < n) bal = [] then ''no_token_balances''
        else block_reason env ct s), pl_balance_wei = withdrawable_wei (we_truth env), pl_destination = wa_approved s,
        pl_balances = bal, pl_items = filter (\<lambda>(t, n). 0 < n) bal, pl_mode = or_text (cf_mode (we_config env)) ''txdata''\<rparr>"
    by (auto simp: build_plan_def rbind_eq_Inr Let_def)
  have t: "fst it \<in> set ts" if "mapr (\<lambda>token. rbind (f token) (\<lambda>n. rbind (g n) (\<lambda>m. Inr (token, m)))) ts = Inr ys" "it \<in> set ys" for f g ts ys it
    using that by (induction ts arbitrary: ys) (auto simp: rbind_eq_Inr)
  have "\<forall>it \<in> set bal. fst it \<in> set (cf_tokens (we_config env))"
    using b by (auto simp: token_balances_def split: if_splits dest!: t)
  then show "pl_destination plan = wa_approved s"
    "\<forall>it \<in> set (pl_items plan). 0 < snd it \<and> fst it \<in> set (cf_tokens (we_config env))"
    "pl_mode plan = or_text (cf_mode (we_config env)) ''txdata''" by (auto simp: p)
  show "block_reason env ct s = ''ok'' \<and> pl_items plan \<noteq> []" if "pl_reason plan = ''ok''" using that by (auto simp: p split: if_splits)
qed

text \<open>
  What the checks before a withdrawal establish about the state, the configuration and the capital truth. The
  pause of the controls is looked at only when the truth calls the withdrawal available; when it does not,
  its reason code is the block reason, and the code \<open>ok\<close> lets the withdrawal through, paused or not.
\<close>

definition gates_open :: "wa_env \<Rightarrow> controls option \<Rightarrow> wa_state \<Rightarrow> bool" where
  "gates_open env ct s \<longleftrightarrow>
     wa_enabled s \<and> is_address (wa_approved s) \<and> allowlisted env (wa_approved s) \<and> is_address (cf_executor (we_config env)) \<and>
     py_str (por (dget (we_truth env) ''status'') (PStr ''ok'')) = ''ok'' \<and>
     (truthy (dget (withdrawal_section (we_truth env)) ''available'') \<or>
      py_str (por (dget (withdrawal_section (we_truth env)) ''reason_code'') (PStr ''no_withdrawable_balance'')) = ''ok'') \<and>
     (truthy (dget (withdrawal_section (we_truth env)) ''available'') \<longrightarrow> (\<forall>c. ct = Some c \<longrightarrow> \<not> ct_paused c))"

lemma block_reason_ok: "block_reason env ct s = ''ok'' \<Longrightarrow> gates_open env ct s"
  by (auto simp: block_reason_def gates_open_def Let_def split: if_splits option.splits)

section \<open>A world in which a withdrawal runs\<close>

definition demo_config :: wa_config where
  "demo_config = \<lparr>cf_chain = ''base'', cf_chain_id = 8453, cf_repo = None, cf_executor = demo_addr 9, cf_allowlist = [],
     cf_mode = ''backend'', cf_tokens = [demo_addr 1], cf_read_url = ''r'', cf_send_url = ''s'', cf_deployment = ''private'',
     cf_key_env = ''K'', cf_key = ''k'', cf_gas_limit = 200000, cf_send_mode = ''public''\<rparr>"

definition demo_node :: wa_node where
  "demo_node = \<lparr>nd_balance = (\<lambda>t d. Inr \<lparr>rr_ok = True, rr_result = PStr ''0x7'', rr_error = PNone\<rparr>),
     nd_account = (\<lambda>k. Inr demo_signer), nd_owner = demo_owner_call, nd_gas = Inr (1, 1), nd_nonce = Inr (Some 4),
     nd_estimate = (\<lambda>k. Inr None), nd_sign = (\<lambda>tx. Inr (Some ''ab'')), nd_block = (\<lambda>k. Inr None),
     nd_send = (\<lambda>k. \<lparr>rr_ok = True, rr_result = PStr (demo_hash 7), rr_error = PNone\<rparr>),
     nd_rpc = (\<lambda>k. demo_rpc (PDict [(''status'', PInt 1)]))\<rparr>"

definition demo_wa_env :: "save_outcome \<Rightarrow> wa_env" where
  "demo_wa_env oc = \<lparr>we_now = 2000, we_assessed = 2001, we_save = oc, we_uuid = ''b'', we_has_ledger = False,
     we_ledger_tx = None, we_repo = (\<lambda>k. RepoDone), we_truth = [(''withdrawal'', PDict [(''available'', PBool True)])], we_control = [],
     we_clock = (\<lambda>k. (0, 0)), we_config = demo_config, we_node = demo_node\<rparr>"

definition demo_previewed :: wa_state where
  "demo_previewed = wa_default_state\<lparr>wa_enabled := True, wa_approved := demo_addr 3, wa_preview_id := ''wipe_a'',
     wa_preview_digest := hex_of (replicate 32 0), wa_preview_ts := 1000\<rparr>"

definition demo_world :: wa_world where
  "demo_world = \<lparr>ww_file = Saved demo_previewed, ww_journal = [], ww_db = empty_ledger, ww_sent = [],
     ww_controls = None, ww_rollout = None\<rparr>"

definition demo_execute :: pydict where
  "demo_execute = [(''preview_id'', PStr ''wipe_a''), (''confirm_text'', PStr CONFIRM_TEXT)]"

definition demo_plan :: wa_plan where
  "demo_plan = \<lparr>pl_reason = ''ok'', pl_balance_wei = ''0'', pl_destination = demo_addr 3, pl_balances = [(demo_addr 1, 7)],
     pl_items = [(demo_addr 1, 7)], pl_mode = ''backend''\<rparr>"

lemma is_address_demo [simp]: "is_address (demo_addr b)"
  unfolding is_address_def demo_addr_def is_hex_text_hex by simp

lemma demo_seven: "int_of_str16 ''0x7'' = Inr 7"
  by (simp add: int_of_str16_def strip_def is_space_def starts_with_def parse_nat_def digit_val_def)

lemma printable_small:
  assumes "n < 10"
  shows "printable n = Inr n"
proof -
  have "(10 :: int) \<le> 10 ^ 4300" by (rule self_le_power) simp_all
  with assms have "n < 10 ^ 4300" by (rule less_le_trans)
  then show ?thesis unfolding printable_def by (simp only: if_True)
qed

lemma demo_planned: "build_plan (demo_wa_env oc) None demo_previewed = Inr demo_plan"
proof -
  have "read_balance (nd_balance demo_node t d) = Inr 7" for t d
    by (simp add: demo_node_def read_balance_def or_text_def demo_seven)
  then have "token_balances demo_config demo_node = Inr [(demo_addr 1, 7)]"
    by (simp add: token_balances_def demo_config_def demo_nonempty printable_small)
  moreover have "block_reason (demo_wa_env oc) None demo_previewed = ''ok''"
    by (simp add: block_reason_def demo_wa_env_def demo_previewed_def allowlisted_def demo_config_def demo_nonempty
        dget_def dget_or_def por_def withdrawal_section_def)
  ultimately show ?thesis
    by (simp add: build_plan_def demo_wa_env_def demo_plan_def Let_def withdrawable_wei_def por_def demo_previewed_def
        demo_config_def or_text_def)
qed

lemma demo_not_blocked: "backend_blocked demo_config demo_node = Inr None"
  by (simp add: backend_blocked_def demo_config_def demo_node_def is_public_mode_def deployment_mode_def or_text_def
      demo_nonempty strip_def is_space_def lower_char_def)

lemma demo_owner: "validate_executor_owner_proof demo_kec demo_owner_call (demo_addr 9) demo_signer =
    Inr (None, Some (''0x'' @ hex_of (drop 12 demo_word)))"
proof -
  let ?r = "\<lparr>rr_ok = True, rr_result = PStr (''0x'' @ hex_of demo_word), rr_error = PNone\<rparr>"
  have d: "drop 12 demo_word = replicate 20 7" "length demo_word = 32" by (simp_all add: demo_word_def)
  have "validate_executor_owner_proof demo_kec demo_owner_call (demo_addr 9) demo_signer =
       Inr (None, Some (''0x'' @ hex_of (drop 12 demo_word))) \<longleftrightarrow>
      drop 12 demo_word = addr_bytes demo_signer \<and> drop 12 demo_word \<noteq> replicate 20 0"
    by (intro owner_proof_exact[OF demo_signer_ok(1) d(2), where r = ?r and rest = "[]"])
       (simp_all add: demo_owner_call_def demo_texts demo_nonempty)
  then show ?thesis by (simp add: d demo_signer_ok)
qed

definition demo_raw :: raw_tx where
  "demo_raw = \<lparr>tx_chain_id = 8453, tx_to = demo_addr 9, tx_nonce = 4, tx_data = demo_calldata, tx_gas = 200000,
     tx_max_fee = 1, tx_prio = 1\<rparr>"

lemma demo_sends:
  "\<exists>st. send_items demo_kec demo_config demo_node demo_plan (1, 1) (Some 4) 0 [(demo_addr 1, 7)] [] sent =
     (sent @ [(demo_raw, SendRaw ''0xab'')], AllSent [sent_item demo_plan (demo_addr 1, 7) (demo_hash 7) st]) \<and>
   st_status st = ''mined_success''"
proof -
  let ?st = "receipt_verdict (demo_hash 7) [(''status'', PInt 1)]"
  have b: "build_tx demo_kec demo_config demo_node demo_plan (1, 1) (Some 4) 0 (demo_addr 1, 7) = Inr demo_raw"
    by (simp add: build_tx_def demo_plan_def demo_calldata_built estimated_gas_def demo_node_def demo_config_def demo_raw_def)
  have r: "send_request demo_config demo_node 0 (raw_hex (Some ''ab'')) = Inr (SendRaw ''0xab'')"
    by (simp add: send_request_def demo_config_def or_text_def raw_hex_def starts_with_def)
  have h: "sent_hash (nd_send demo_node 0) = Some (demo_hash 7)"
    by (simp add: sent_hash_def demo_node_def demo_hash_ok)
  have a: "assess_submitted_tx (nd_rpc demo_node 0) (demo_hash 7) (PStr (or_text (cf_send_mode demo_config) ''public'')) = Inr ?st"
    by (simp add: demo_node_def assess_submitted_tx_def demo_rpc_def)
  have v: "st_status ?st = ''mined_success''" by (simp add: receipt_verdict_def decode_hex_int_def)
  have s: "nd_sign demo_node demo_raw = Inr (Some ''ab'')" by (simp add: demo_node_def)
  show ?thesis using v by (intro exI[of _ ?st]) (simp add: b r h a s)
qed

lemma persist_returns:
  assumes "\<not> we_has_ledger env"
  shows "\<exists>saved. snd (persist_outcome env p s st rs res pid ev w) = Inr saved"
  using assms by (cases "we_save env") (simp_all add: persist_outcome_def save_state_def journalled_def lifecycle_ledger_event_def Let_def)

lemma demo_runs:
  "\<exists>w1 out. execute demo_kec demo_sha (demo_wa_env oc) demo_execute demo_world = (w1, Inr out) \<and>
     ww_sent w1 = [(demo_raw, SendRaw ''0xab'')] \<and> ww_controls w1 = None"
proof -
  let ?env = "demo_wa_env oc" and ?s = demo_previewed
  have pid: "str_get demo_execute ''preview_id'' = ''wipe_a''" by (simp add: demo_execute_def str_get_def)
  have s: "load_state (ww_file demo_world) = ?s" by (simp add: demo_world_def load_state_def)
  have c: "we_config ?env = demo_config" "we_node ?env = demo_node" "we_now ?env = 2000" by (simp_all add: demo_wa_env_def)
  have dry: "execute_dry_run demo_execute = Inr False"
    by (simp add: execute_dry_run_def demo_execute_def unexpected_request_fields_def EXECUTE_ALLOWED_FIELDS_def has_field_def)
  have rb: "request_blocked 2000 demo_execute ?s = None"
    by (simp add: request_blocked_def demo_execute_def demo_previewed_def str_get_def preview_expired_def PREVIEW_TTL_MS_def wa_default_state_def)
  have nr: "\<not> replays ''wipe_a'' ?s" by (simp add: replays_def demo_previewed_def wa_default_state_def)
  have w: "ww_controls demo_world = None" "ww_sent demo_world = []" "ww_rollout demo_world = None" by (simp_all add: demo_world_def)
  have d: "plan_digest demo_sha demo_plan = wa_preview_digest ?s"
    by (simp add: plan_digest_def demo_sha_def demo_previewed_def)
  have pl: "pl_reason demo_plan = ''ok''" "pl_mode demo_plan = ''backend''" "pl_items demo_plan = [(demo_addr 1, 7)]"
    by (simp_all add: demo_plan_def)
  have cfg: "cf_executor demo_config = demo_addr 9" "nd_account demo_node k = Inr demo_signer" "nd_owner demo_node = demo_owner_call"
    "nd_gas demo_node = Inr (1, 1)" "nd_nonce demo_node = Inr (Some 4)" for k
    by (simp_all add: demo_config_def demo_node_def)
  have ex: "execute demo_kec demo_sha ?env demo_execute demo_world = execute_backend demo_kec ?env ?s demo_plan ''wipe_a'' demo_world"
    unfolding execute_def dry by (simp add: s c rb nr pid w demo_planned d pl)
  obtain st where se: "send_items demo_kec demo_config demo_node demo_plan (1, 1) (Some 4) 0 [(demo_addr 1, 7)] [] [] =
     ([(demo_raw, SendRaw ''0xab'')], AllSent [sent_item demo_plan (demo_addr 1, 7) (demo_hash 7) st])"
    using demo_sends[of "[]"] by auto
  let ?w1 = "demo_world\<lparr>ww_sent := [(demo_raw, SendRaw ''0xab'')]\<rparr>"
  let ?items = "[sent_item demo_plan (demo_addr 1, 7) (demo_hash 7) st]"
  have bk: "execute_backend demo_kec ?env ?s demo_plan ''wipe_a'' demo_world = finish_sent ?env ?s demo_plan ''wipe_a'' ?items ?w1"
    unfolding execute_backend_def by (simp add: c demo_not_blocked cfg demo_owner pl w se del: send_items.simps)
  obtain status res where cr: "completed_result ''wipe_a'' demo_plan ?items = (status, res)"
    by (cases "completed_result ''wipe_a'' demo_plan ?items")
  obtain w2 q where po: "persist_outcome ?env ?s (assessed_state ?env ?s) status ''ok'' res ''wipe_a'' (''withdraw_all_'' @ status) ?w1 = (w2, q)"
    by (cases "persist_outcome ?env ?s (assessed_state ?env ?s) status ''ok'' res ''wipe_a'' (''withdraw_all_'' @ status) ?w1")
  note f = persist_frame(2-4)[of ?env ?s "assessed_state ?env ?s" status "''ok''" res "''wipe_a''" "''withdraw_all_'' @ status" ?w1, unfolded po fst_conv]
  have "\<not> we_has_ledger ?env" by (simp add: demo_wa_env_def)
  from persist_returns[OF this] po obtain saved where sv: "q = Inr saved" by (metis snd_conv)
  have st: "stop_trading ?env w2 = (w2, None)" using f(2,3) w by (simp add: stop_trading_def)
  have "finish_sent ?env ?s demo_plan ''wipe_a'' ?items ?w1 = (w2, Inr (with_result [(''ok'', PBool True)] saved res))"
    unfolding finish_sent_def cr prod.case po sv sum.case st option.case by (rule refl)
  then show ?thesis using ex bk f w by simp
qed

section \<open>Properties\<close>

lemma burnt_silent:
  assumes "burnt pid (ww_file w)" and "str_get payload ''preview_id'' = pid"
  shows "ww_sent (fst (execute kec sha env payload w)) = ww_sent w"
proof -
  obtain w' r where e: "execute kec sha env payload w = (w', r)" by (cases "execute kec sha env payload w")
  have no: False if "request_blocked (we_now env) payload (load_state (ww_file w)) = None"
      "\<not> replays (str_get payload ''preview_id'') (load_state (ww_file w))"
    using that assms request_blocked_None(1)[OF that(1)] by (simp add: burnt_def Let_def)
  from e show ?thesis
  proof (cases rule: execute_effect)
    case quiet
    then show ?thesis using e by simp
  qed (use e no in simp_all)
qed

lemma sent_burns:
  assumes "execute kec sha env payload w = (w1, Inr out)" and "ww_sent w1 \<noteq> ww_sent w" and "we_save env \<noteq> Refuses"
  shows "str_get payload ''preview_id'' \<noteq> [] \<and> burnt (str_get payload ''preview_id'') (ww_file w1)"
  using assms(1)
proof (cases rule: execute_effect)
  case (marked plan fees nonce e)
  note r = request_blocked_None[OF marked(1)]
  from marked(13) obtain st rs res s1 where o: "res \<noteq> []" "same_control (load_state (ww_file w)) s1"
    "ww_file w1 = written (we_save env) (outcome_state st rs res (str_get payload ''preview_id'') s1) (ww_file w)"
    unfolding outcome_written_def by blast
  with r assms(3) show ?thesis
    by (cases "we_save env") (auto simp: burnt_def Let_def load_written replays_def same_control_def wa_default_state_def)
qed (use assms in simp_all)

text \<open>C1: a preview is executed at most once: after an execution that sent anything and whose result was
  written (or whose write left the state file unreadable), no later execution request with the same
  preview id sends anything, whatever operations run in between in whatever environment, as long as
  no preview is minted with that id again.\<close>

theorem preview_executed_once:
  assumes "execute kec sha env payload w = (w1, Inr out)" and "ww_sent w1 \<noteq> ww_sent w" and "we_save env \<noteq> Refuses"
    and "\<forall>op \<in> set ops. \<not> mints (str_get payload ''preview_id'') op"
    and "str_get payload2 ''preview_id'' = str_get payload ''preview_id''"
  shows "ww_sent (fst (execute kec sha env2 payload2 (run_ops kec sha w1 ops))) = ww_sent (run_ops kec sha w1 ops)"
proof -
  from sent_burns[OF assms(1-3)] have p: "str_get payload ''preview_id'' \<noteq> []" "burnt (str_get payload ''preview_id'') (ww_file w1)"
    by blast+
  from burnt_silent[OF burnt_run[OF p assms(4)]] assms(5) show ?thesis by simp
qed

theorem preview_executed_once_witness:
  "\<exists>w1 out. execute demo_kec demo_sha (demo_wa_env (Saves 5)) demo_execute demo_world = (w1, Inr out) \<and>
     ww_sent (fst (execute demo_kec demo_sha (demo_wa_env Refuses) demo_execute
       (run_ops demo_kec demo_sha w1 [OpPreview (demo_wa_env (Saves 9))]))) = ww_sent (run_ops demo_kec demo_sha w1 [OpPreview (demo_wa_env (Saves 9))])"
proof -
  obtain w1 out where e: "execute demo_kec demo_sha (demo_wa_env (Saves 5)) demo_execute demo_world = (w1, Inr out)"
    "ww_sent w1 = [(demo_raw, SendRaw ''0xab'')]" using demo_runs by blast
  have "ww_sent w1 \<noteq> ww_sent demo_world" using e(2) by (simp add: demo_world_def)
  moreover have "\<forall>op \<in> set [OpPreview (demo_wa_env (Saves 9))]. \<not> mints (str_get demo_execute ''preview_id'') op"
    by (simp add: demo_wa_env_def demo_execute_def str_get_def)
  ultimately have "ww_sent (fst (execute demo_kec demo_sha (demo_wa_env Refuses) demo_execute
       (run_ops demo_kec demo_sha w1 [OpPreview (demo_wa_env (Saves 9))]))) = ww_sent (run_ops demo_kec demo_sha w1 [OpPreview (demo_wa_env (Saves 9))])"
    by (intro preview_executed_once[OF e(1)]) (simp_all add: demo_wa_env_def)
  with e(1) show ?thesis by blast
qed

text \<open>C2: only the previewed plan is sent: when an execution hands anything to the node, the request named
  the current, unexpired preview, which was not marked as executed, and confirmed it; the plan computed now has
  the previewed digest; the withdrawal is enabled, to an approved, allowlisted address; the capital truth is ok
  and calls the withdrawal available, with the controls not paused, or else gives the reason code ok, when the
  pause is not looked at; the mode is the backend's, the deployment is not public, it is no dry run and the
  signer owns the executor; and the transactions are, in order, the executor's withdrawals of the plan's
  leading items to the approved destination, with consecutive nonces.\<close>

theorem execute_sends_the_preview:
  assumes "execute kec sha env payload w = (w', r)" and "ww_sent w' \<noteq> ww_sent w"
  shows "\<exists>plan fees nonce new. ww_sent w' = ww_sent w @ new \<and> length new \<le> length (pl_items plan) \<and>
     build_plan env (ww_controls w) (load_state (ww_file w)) = Inr plan \<and>
     plan_digest sha plan = wa_preview_digest (load_state (ww_file w)) \<and>
     str_get payload ''preview_id'' = wa_preview_id (load_state (ww_file w)) \<and>
     \<not> replays (str_get payload ''preview_id'') (load_state (ww_file w)) \<and>
     str_get payload ''confirm_text'' = CONFIRM_TEXT \<and> \<not> preview_expired (we_now env) (load_state (ww_file w)) \<and>
     gates_open env (ww_controls w) (load_state (ww_file w)) \<and> cf_mode (we_config env) = ''backend'' \<and>
     execute_dry_run payload = Inr False \<and> \<not> is_public_mode (we_config env) \<and>
     owner_proved kec (we_config env) (we_node env) \<and> pl_destination plan = wa_approved (load_state (ww_file w)) \<and>
     (\<forall>i < length new. 0 < snd (pl_items plan ! i) \<and>
        tx_for kec (we_config env) plan fees nonce i (pl_items plan ! i) (fst (new ! i)))"
proof -
  have core: ?thesis
    if h: "request_blocked (we_now env) payload (load_state (ww_file w)) = None"
      "\<not> replays (str_get payload ''preview_id'') (load_state (ww_file w))"
      "build_plan env (ww_controls w) (load_state (ww_file w)) = Inr plan"
      "plan_digest sha plan = wa_preview_digest (load_state (ww_file w))" "pl_reason plan = ''ok''" "pl_mode plan = ''backend''"
      "execute_dry_run payload = Inr False" "backend_blocked (we_config env) (we_node env) = Inr None"
      "owner_proved kec (we_config env) (we_node env)" "send_items kec (we_config env) (we_node env) plan fees nonce 0 (pl_items plan) [] (ww_sent w) = (ww_sent w', e)"
    for plan fees nonce e
  proof -
    from send_items_sound[OF h(10)] obtain new where n: "ww_sent w' = ww_sent w @ new" "length new \<le> length (pl_items plan)"
      "\<forall>i < length new. tx_for kec (we_config env) plan fees nonce i (pl_items plan ! i) (fst (new ! i))" by auto
    note b = build_plan_cases[OF h(3)] and q = request_blocked_None[OF h(1)]
    have m: "cf_mode (we_config env) = ''backend''" using b(4) h(6) by (simp add: or_text_def split: if_splits)
    have p: "\<not> is_public_mode (we_config env)" using h(8) by (auto simp: backend_blocked_def)
    have i: "0 < snd (pl_items plan ! i)" if "i < length new" for i using b(2) n(2) that by auto
    show ?thesis
      using n i h b q m p block_reason_ok[of env "ww_controls w" "load_state (ww_file w)"]
      by (intro exI[of _ plan] exI[of _ fees] exI[of _ nonce] exI[of _ new]) blast
  qed
  from assms(1) show ?thesis
  proof (cases rule: execute_effect)
    case (raised plan fees nonce x)
    then show ?thesis by (intro core)
  next
    case (marked plan fees nonce e)
    then show ?thesis by (intro core)
  qed (use assms(2) in simp_all)
qed

theorem execute_sends_the_preview_witness:
  "\<exists>(w1 :: wa_world) plan fees nonce new. ww_sent w1 = ww_sent demo_world @ new \<and> new \<noteq> [] \<and> length new \<le> length (pl_items plan) \<and>
     pl_destination plan = demo_addr 3 \<and> (\<forall>i < length new. 0 < snd (pl_items plan ! i) \<and>
        tx_for demo_kec demo_config plan fees nonce i (pl_items plan ! i) (fst (new ! i)))"
proof -
  obtain w1 out where e: "execute demo_kec demo_sha (demo_wa_env (Saves 5)) demo_execute demo_world = (w1, Inr out)"
    "ww_sent w1 = [(demo_raw, SendRaw ''0xab'')]" using demo_runs by blast
  have "ww_sent w1 \<noteq> ww_sent demo_world" using e(2) by (simp add: demo_world_def)
  from execute_sends_the_preview[OF e(1) this] obtain plan fees nonce new where
    n: "ww_sent w1 = ww_sent demo_world @ new" "length new \<le> length (pl_items plan)"
      "pl_destination plan = wa_approved (load_state (ww_file demo_world))"
      "\<forall>i < length new. 0 < snd (pl_items plan ! i) \<and>
        tx_for demo_kec (we_config (demo_wa_env (Saves 5))) plan fees nonce i (pl_items plan ! i) (fst (new ! i))" by blast
  have "new \<noteq> []" using n(1) e(2) by (auto simp: demo_world_def)
  have c: "we_config (demo_wa_env (Saves 5)) = demo_config" "wa_approved (load_state (ww_file demo_world)) = demo_addr 3"
    by (simp_all add: demo_wa_env_def demo_world_def load_state_def demo_previewed_def)
  show ?thesis using \<open>new \<noteq> []\<close> n[unfolded c] by blast
qed

section \<open>When the state cannot be written\<close>

lemma send_items_append:
  "send_items kec cfg node plan fees nonce k its sofar (pre @ sent) =
     (pre @ fst (send_items kec cfg node plan fees nonce k its sofar sent), snd (send_items kec cfg node plan fees nonce k its sofar sent))"
proof (induction kec cfg node plan fees nonce k its sofar sent rule: send_items.induct)
  case (1 kec cfg node plan fees nonce k sofar sent)
  then show ?case by simp
next
  case (2 kec cfg node plan fees nonce k it its sofar sent)
  let ?b = "rbind (build_tx kec cfg node plan fees nonce k it) (\<lambda>tx.
      rbind (nd_sign node tx) (\<lambda>raw. rbind (send_request cfg node k (raw_hex raw)) (\<lambda>req. Inr (tx, req))))"
  show ?case
  proof (cases ?b)
    case (Inl x)
    then show ?thesis by simp
  next
    case b: (Inr t)
    show ?thesis
    proof (cases "sent_hash (nd_send node k)")
      case None
      with b show ?thesis by simp
    next
      case h: (Some h)
      let ?a = "assess_submitted_tx (nd_rpc node k) h (PStr (or_text (cf_send_mode cfg) ''public''))"
      show ?thesis
      proof (cases ?a)
        case (Inl x)
        with b h show ?thesis by simp
      next
        case a: (Inr st)
        show ?thesis
        proof (cases "st_status st = ''mined_reverted''")
          case True
          with b h a show ?thesis by simp
        next
          case False
          with b h a "2.IH"[OF b refl h a False] show ?thesis by simp
        qed
      qed
    qed
  qed
qed

lemma execute_sends_forward:
  assumes "request_blocked (we_now env) payload (load_state (ww_file w)) = None"
    and "\<not> replays (str_get payload ''preview_id'') (load_state (ww_file w))"
    and "build_plan env (ww_controls w) (load_state (ww_file w)) = Inr plan"
    and "plan_digest sha plan = wa_preview_digest (load_state (ww_file w))" and "pl_reason plan = ''ok''" and "pl_mode plan = ''backend''"
    and "execute_dry_run payload = Inr False" and "backend_blocked (we_config env) (we_node env) = Inr None"
    and "owner_proved kec (we_config env) (we_node env)" and "nd_gas (we_node env) = Inr fees" and "nd_nonce (we_node env) = Inr nonce"
  shows "ww_sent (fst (execute kec sha env payload w)) =
     fst (send_items kec (we_config env) (we_node env) plan fees nonce 0 (pl_items plan) [] (ww_sent w))"
proof -
  let ?cfg = "we_config env" and ?node = "we_node env" and ?s = "load_state (ww_file w)" and ?pid = "str_get payload ''preview_id''"
  obtain sent e where se: "send_items kec ?cfg ?node plan fees nonce 0 (pl_items plan) [] (ww_sent w) = (sent, e)"
    by (cases "send_items kec ?cfg ?node plan fees nonce 0 (pl_items plan) [] (ww_sent w)")
  have ex: "execute kec sha env payload w = execute_backend kec env ?s plan ?pid w"
    using assms(1-7) by (simp add: execute_def Let_def)
  from assms(9) obtain signer owner where o: "nd_account ?node (cf_key ?cfg) = Inr signer"
    "validate_executor_owner_proof kec (nd_owner ?node) (cf_executor ?cfg) signer = Inr (None, owner)"
    unfolding owner_proved_def by blast
  let ?w1 = "w\<lparr>ww_sent := sent\<rparr>"
  have b: "execute_backend kec env ?s plan ?pid w = (case e of
        SendRaised x \<Rightarrow> (?w1, Inl (Py x))
      | SendFailed it sofar \<Rightarrow> finish_failed env ?s (clear_refresh_metadata ?s) ''send_failed''
          (failure_result ''send_failed'' (item_dict plan it) sofar) ?pid ?w1
      | SendReverted failed sofar \<Rightarrow> finish_failed env ?s (assessed_state env ?s) ''receipt_reverted''
          (failure_result ''receipt_reverted'' failed sofar) ?pid ?w1
      | AllSent items \<Rightarrow> finish_sent env ?s plan ?pid items ?w1)"
    using assms(8,10,11) o se by (simp add: execute_backend_def Let_def)
  have f: "ww_sent (fst (finish_failed env ?s s1 reason failure ?pid ?w1)) = sent" for s1 reason failure
    by (auto simp: finish_failed_def case_prod_beta persist_frame)
  have g: "ww_sent (fst (finish_sent env ?s plan ?pid items ?w1)) = sent" for items
    using finish_sent_effect[OF surjective_pairing, of env ?s plan ?pid items ?w1] by simp
  show ?thesis unfolding ex b se by (cases e) (simp_all add: f g)
qed

text \<open>What an execution sends depends on the state file and the controls alone, not on what was sent before.\<close>

definition sends_plan :: "(bytes \<Rightarrow> bytes) \<Rightarrow> (bytes \<Rightarrow> bytes) \<Rightarrow> wa_env \<Rightarrow> pydict \<Rightarrow> wa_state \<Rightarrow> controls option
    \<Rightarrow> wa_plan \<Rightarrow> int \<times> int \<Rightarrow> int option \<Rightarrow> bool" where
  "sends_plan kec sha env payload s ct plan fees nonce \<longleftrightarrow>
     request_blocked (we_now env) payload s = None \<and> \<not> replays (str_get payload ''preview_id'') s \<and>
     build_plan env ct s = Inr plan \<and> plan_digest sha plan = wa_preview_digest s \<and> pl_reason plan = ''ok'' \<and>
     pl_mode plan = ''backend'' \<and> execute_dry_run payload = Inr False \<and> backend_blocked (we_config env) (we_node env) = Inr None \<and>
     owner_proved kec (we_config env) (we_node env) \<and> nd_gas (we_node env) = Inr fees \<and> nd_nonce (we_node env) = Inr nonce"

lemma execute_sends_same:
  assumes "ww_file w1 = ww_file w" and "ww_controls w1 = ww_controls w"
  shows "\<exists>new. ww_sent (fst (execute kec sha env payload w)) = ww_sent w @ new \<and>
     ww_sent (fst (execute kec sha env payload w1)) = ww_sent w1 @ new"
proof (cases "\<exists>plan fees nonce. sends_plan kec sha env payload (load_state (ww_file w)) (ww_controls w) plan fees nonce")
  case True
  then obtain plan fees nonce where p: "sends_plan kec sha env payload (load_state (ww_file w)) (ww_controls w) plan fees nonce" by blast
  let ?new = "fst (send_items kec (we_config env) (we_node env) plan fees nonce 0 (pl_items plan) [] [])"
  have a: "fst (send_items kec (we_config env) (we_node env) plan fees nonce 0 (pl_items plan) [] sent) = sent @ ?new" for sent
    using send_items_append[of kec "we_config env" "we_node env" plan fees nonce 0 "pl_items plan" "[]" sent "[]"] by simp
  have "ww_sent (fst (execute kec sha env payload v)) = ww_sent v @ ?new"
    if "ww_file v = ww_file w" "ww_controls v = ww_controls w" for v
    unfolding a[symmetric] using p that by (intro execute_sends_forward) (simp_all add: sends_plan_def)
  with assms show ?thesis by blast
next
  case False
  have "ww_sent (fst (execute kec sha env payload v)) = ww_sent v"
    if "ww_file v = ww_file w" "ww_controls v = ww_controls w" for v
  proof -
    obtain v' r where e: "execute kec sha env payload v = (v', r)" by (cases "execute kec sha env payload v")
    from e show ?thesis
    proof (cases rule: execute_effect)
      case (raised plan fees nonce x)
      with False that show ?thesis unfolding sends_plan_def by metis
    next
      case (marked plan fees nonce x)
      with False that show ?thesis unfolding sends_plan_def by metis
    qed (use e in simp_all)
  qed
  with assms show ?thesis by (intro exI[of _ "[]"]) simp
qed

text \<open>C38: a write that is refused after a submission loses every trace of it: if the state file cannot be opened for
  writing when an execution has sent its transactions, and the controls were not paused by it (a runtime without a
  command center, a failed send, a revert), then any later request, in whatever environment, sends what it would
  have sent had nothing been sent before; the same request, should the clock, the balances, the nonce and the
  node's answers still be the same, sends the whole batch a second time.\<close>

theorem refused_save_sends_again:
  assumes "execute kec sha env payload w = (w1, Inr out)" and "ww_sent w1 \<noteq> ww_sent w" and "we_save env = Refuses"
    and "ww_controls w1 = ww_controls w"
  shows "ww_file w1 = ww_file w \<and>
     (\<forall>env2 payload2. \<exists>new. ww_sent (fst (execute kec sha env2 payload2 w)) = ww_sent w @ new \<and>
        ww_sent (fst (execute kec sha env2 payload2 w1)) = ww_sent w1 @ new) \<and>
     (\<exists>new. new \<noteq> [] \<and> ww_sent w1 = ww_sent w @ new \<and> ww_sent (fst (execute kec sha env payload w1)) = ww_sent w1 @ new)"
proof -
  have f: "ww_file w1 = ww_file w"
    using assms(1)
  proof (cases rule: execute_effect)
    case (marked plan fees nonce e)
    from marked(13) assms(3) show ?thesis by (auto simp: outcome_written_def written_def)
  qed (use assms in simp_all)
  obtain new where n: "ww_sent (fst (execute kec sha env payload w)) = ww_sent w @ new"
    "ww_sent (fst (execute kec sha env payload w1)) = ww_sent w1 @ new"
    using execute_sends_same[OF f assms(4)] by blast
  with assms(1,2) have "new \<noteq> []" "ww_sent w1 = ww_sent w @ new" by auto
  with n f execute_sends_same[OF f assms(4)] show ?thesis by blast
qed

theorem refused_save_sends_again_witness:
  "\<exists>w1 out new. execute demo_kec demo_sha (demo_wa_env Refuses) demo_execute demo_world = (w1, Inr out) \<and> new \<noteq> [] \<and>
     ww_sent (fst (execute demo_kec demo_sha (demo_wa_env Refuses) demo_execute w1)) = ww_sent w1 @ new"
proof -
  obtain w1 out where e: "execute demo_kec demo_sha (demo_wa_env Refuses) demo_execute demo_world = (w1, Inr out)"
    "ww_sent w1 = [(demo_raw, SendRaw ''0xab'')]" "ww_controls w1 = None" using demo_runs by blast
  from refused_save_sends_again[OF e(1)] e show ?thesis by (auto simp: demo_world_def demo_wa_env_def)
qed

section \<open>Trading stops\<close>

text \<open>Every state allows \<open>observe_only\<close>, or is it already, so a pause is never an invalid transition; it undoes a
  quarantine too. What may fail is the save after it.\<close>

lemma observe_only_allowed:
  "state_of mg f = hs_value OBSERVE_ONLY \<or> hs_value OBSERVE_ONLY \<in> set (allowed_from (state_of mg f))"
proof -
  obtain h where "state_of mg f = hs_value h" unfolding state_of_def by (rule normalizedE)
  then show ?thesis by (cases h) (simp_all add: allowed_from_def ALLOWED_def)
qed

lemma ends_frame [simp]:
  "mg_ends (drop_active f mg) = mg_ends mg" "mg_ends (fst (apply_family_state mg f t a r d ts)) = mg_ends mg"
  by (auto simp: drop_active_def apply_family_state_def split: sum.splits)

definition save_error :: "save_end \<Rightarrow> pyerr option" where
  "save_error e = (case e of Stored \<Rightarrow> None | RowRefused \<Rightarrow> Some SqliteError | _ \<Rightarrow> Some OSError)"

definition next_end :: "manager \<Rightarrow> save_end" where
  "next_end mg = (case mg_ends mg of [] \<Rightarrow> Stored | e # _ \<Rightarrow> e)"

lemma touch_ends:
  "mg_ends (fst (touch_profile reason now mg)) = tl (mg_ends mg)"
  "snd (touch_profile reason now mg) = save_error (next_end mg)"
  by (simp_all add: touch_profile_def save_launch_def save_error_def next_end_def Let_def split: save_end.split list.split)

lemma pause_family_effect:
  assumes "pause_family f actor ts now mg = (mg', r)"
  shows "state_of mg' (canonical_launch_family_id f) = hs_value OBSERVE_ONLY"
    and "g \<noteq> canonical_launch_family_id f \<Longrightarrow> state_of mg' g = state_of mg g"
    and "mg_ends mg' = tl (mg_ends mg)"
    and "(case save_error (next_end mg) of Some e \<Rightarrow> r = Inl (Py e) | None \<Rightarrow> (\<exists>t. r = Inr (Moved t)))"
proof -
  let ?f = "canonical_launch_family_id f" and ?d = "drop_active (canonical_launch_family_id f) mg"
  obtain mg1 q where a: "apply_family_state ?d ?f (hs_value OBSERVE_ONLY) actor ''family_paused'' [] ts = (mg1, q)"
    by (cases "apply_family_state ?d ?f (hs_value OBSERVE_ONLY) actor ''family_paused'' [] ts")
  have "\<exists>t. q = Inr t"
  proof (cases q)
    case (Inl e)
    with a observe_only_allowed[of ?d ?f] show ?thesis by (auto simp: apply_family_state_error)
  qed simp
  then obtain t where q: "q = Inr t" by blast
  note ok = apply_family_state_ok[OF a[unfolded q]]
  have e: "mg_ends mg1 = mg_ends mg" using ends_frame(2)[of ?d ?f] a by (metis ends_frame(1) fst_conv)
  have p: "(mg', r) = touch_then (''family_paused:'' @ ?f) now mg1 (\<lambda>mg'. Moved t)"
    using assms a q by (simp add: pause_family_def finish_move_def Let_def)
  then have m: "mg' = fst (touch_profile (''family_paused:'' @ ?f) now mg1)" using touch_then_fst by (metis fst_conv)
  show "state_of mg' ?f = hs_value OBSERVE_ONLY" unfolding m by (simp only: state_of_touch ok(1) normalized_hs)
  show "g \<noteq> ?f \<Longrightarrow> state_of mg' g = state_of mg g" unfolding m by (simp add: ok(2))
  show "mg_ends mg' = tl (mg_ends mg)" unfolding m by (simp only: touch_ends(1) e)
  have "save_error (next_end mg) = snd (touch_profile (''family_paused:'' @ ?f) now mg1)"
    unfolding touch_ends(2) next_end_def e ..
  with p show "case save_error (next_end mg) of Some e \<Rightarrow> r = Inl (Py e) | None \<Rightarrow> (\<exists>t. r = Inr (Moved t))"
    by (auto simp: touch_then_def split: prod.splits option.splits)
qed

lemma save_error_uncaught: "save_error x = Some e \<Longrightarrow> \<not> pause_caught (Py e) \<and> e \<in> {OSError, SqliteError}"
  by (cases x) (auto simp: save_error_def pause_caught_def)

text \<open>The families but the core one, in the order of the loop; each pause takes one save.\<close>

definition secondary :: "string list \<Rightarrow> string list" where
  "secondary fs = filter (\<lambda>f. f \<noteq> ''flash_arb'') fs"

lemma secondary_simps [simp]:
  "secondary [] = []" "secondary (f # fs) = (if f = ''flash_arb'' then secondary fs else f # secondary fs)"
  by (simp_all add: secondary_def)

lemma pause_families_effect:
  "pause_families clock k fs mg = (mg', err) \<Longrightarrow>
   \<exists>n \<le> length (secondary fs).
     (\<forall>f \<in> set (take n (secondary fs)). state_of mg' (canonical_launch_family_id f) = hs_value OBSERVE_ONLY) \<and>
     (\<forall>g. g \<notin> canonical_launch_family_id ` set (take n (secondary fs)) \<longrightarrow> state_of mg' g = state_of mg g) \<and>
     (case err of
        None \<Rightarrow> n = length (secondary fs) \<and> (\<forall>e \<in> set (take n (mg_ends mg)). e = Stored)
      | Some e \<Rightarrow> 0 < n \<and> n \<le> length (mg_ends mg) \<and> (\<forall>e \<in> set (take (n - 1) (mg_ends mg)). e = Stored) \<and>
          map_option Py (save_error (mg_ends mg ! (n - 1))) = Some e)"
proof (induction fs arbitrary: k mg)
  case Nil
  then show ?case by simp
next
  case (Cons f fs)
  show ?case
  proof (cases "f = ''flash_arb''")
    case True
    then have sec: "secondary (f # fs) = secondary fs" by simp
    from Cons.prems True have "pause_families clock (Suc k) fs mg = (mg', err)" by simp
    from Cons.IH[OF this] show ?thesis unfolding sec .
  next
    case False
    obtain mg1 r where p: "pause_family f ''withdraw_all'' (fst (clock k)) (snd (clock k)) mg = (mg1, r)"
      by (cases "pause_family f ''withdraw_all'' (fst (clock k)) (snd (clock k)) mg")
    note e = pause_family_effect[OF p]
    show ?thesis
    proof (cases "save_error (next_end mg)")
      case (Some x)
      with e(4) have "r = Inl (Py x)" by simp
      with Cons.prems p False save_error_uncaught[OF Some] have r: "mg' = mg1" "err = Some (Py x)" by auto
      from Some obtain y ys where m: "mg_ends mg = y # ys" "save_error y = Some x"
        by (cases "mg_ends mg") (auto simp: next_end_def save_error_def)
      show ?thesis using e(1,2) r m False by (intro exI[of _ 1]) simp
    next
      case None
      with e(4) obtain t where "r = Inr (Moved t)" by auto
      with Cons.prems p False have "pause_families clock (Suc k) fs mg1 = (mg', err)" by simp
      from Cons.IH[OF this] obtain n where n: "n \<le> length (secondary fs)"
        "\<forall>g \<in> set (take n (secondary fs)). state_of mg' (canonical_launch_family_id g) = hs_value OBSERVE_ONLY"
        "\<forall>g. g \<notin> canonical_launch_family_id ` set (take n (secondary fs)) \<longrightarrow> state_of mg' g = state_of mg1 g"
        "case err of None \<Rightarrow> n = length (secondary fs) \<and> (\<forall>e \<in> set (take n (mg_ends mg1)). e = Stored)
         | Some e \<Rightarrow> 0 < n \<and> n \<le> length (mg_ends mg1) \<and> (\<forall>e \<in> set (take (n - 1) (mg_ends mg1)). e = Stored) \<and>
             map_option Py (save_error (mg_ends mg1 ! (n - 1))) = Some e" by blast
      have own: "state_of mg' (canonical_launch_family_id f) = hs_value OBSERVE_ONLY"
        using n(2,3) e(1) by (cases "canonical_launch_family_id f \<in> canonical_launch_family_id ` set (take n (secondary fs))") auto
      have st: "mg_ends mg = [] \<or> (\<exists>ys. mg_ends mg = Stored # ys)"
        using None by (cases "mg_ends mg"; cases "next_end mg") (auto simp: next_end_def save_error_def)
      show ?thesis
      proof (intro exI[of _ "Suc n"] conjI)
        show "Suc n \<le> length (secondary (f # fs))" using n(1) False by simp
        show "\<forall>g \<in> set (take (Suc n) (secondary (f # fs))). state_of mg' (canonical_launch_family_id g) = hs_value OBSERVE_ONLY"
          using n(2) own False by simp
        show "\<forall>g. g \<notin> canonical_launch_family_id ` set (take (Suc n) (secondary (f # fs))) \<longrightarrow> state_of mg' g = state_of mg g"
          using n(3) e(2) False by simp
        show "case err of None \<Rightarrow> Suc n = length (secondary (f # fs)) \<and> (\<forall>e \<in> set (take (Suc n) (mg_ends mg)). e = Stored)
          | Some e \<Rightarrow> 0 < Suc n \<and> Suc n \<le> length (mg_ends mg) \<and> (\<forall>e \<in> set (take (Suc n - 1) (mg_ends mg)). e = Stored) \<and>
             map_option Py (save_error (mg_ends mg ! (Suc n - 1))) = Some e"
          using n(4) st e(3) False by (cases err; cases n) auto
      qed
    qed
  qed
qed

text \<open>The controls after a stop, and a rollout in which every family but the core one observes only.\<close>

definition controls_off :: "controls option \<Rightarrow> controls option" where
  "controls_off ct = map_option (\<lambda>c. \<lparr>ct_paused = True, ct_frozen = True, ct_evolution = False\<rparr>) ct"

definition families_off :: "string list \<Rightarrow> manager \<Rightarrow> bool" where
  "families_off fs mg \<longleftrightarrow> (\<forall>f \<in> set fs. f \<noteq> ''flash_arb'' \<longrightarrow> state_of mg (canonical_launch_family_id f) = hs_value OBSERVE_ONLY)"

lemma families_off_secondary:
  "families_off fs mg \<longleftrightarrow> (\<forall>f \<in> set (secondary fs). state_of mg (canonical_launch_family_id f) = hs_value OBSERVE_ONLY)"
  by (auto simp: families_off_def secondary_def)

lemma stop_trading_effect:
  assumes "stop_trading env w = (w', err)"
  shows "ww_controls w' = controls_off (ww_controls w)"
    and "ww_rollout w = None \<Longrightarrow> ww_rollout w' = None \<and> err = None"
    and "ww_rollout w = Some mg \<Longrightarrow> \<exists>mg' n. ww_rollout w' = Some mg' \<and>
       families_off (take n (secondary (lp_order (mg_profile mg)))) mg' \<and>
       (case err of
          None \<Rightarrow> n = length (secondary (lp_order (mg_profile mg)))
        | Some e \<Rightarrow> 0 < n \<and> n \<le> length (secondary (lp_order (mg_profile mg))) \<and> n \<le> length (mg_ends mg) \<and>
            map_option Py (save_error (mg_ends mg ! (n - 1))) = Some e \<and>
            (\<forall>g. g \<notin> canonical_launch_family_id ` set (take n (secondary (lp_order (mg_profile mg)))) \<longrightarrow> state_of mg' g = state_of mg g))"
proof -
  show "ww_controls w' = controls_off (ww_controls w)"
    using assms by (auto simp: stop_trading_def controls_off_def Let_def split: option.splits prod.splits)
  show "ww_rollout w = None \<Longrightarrow> ww_rollout w' = None \<and> err = None"
    using assms by (auto simp: stop_trading_def Let_def)
  assume m: "ww_rollout w = Some mg"
  let ?fs = "lp_order (mg_profile mg)"
  obtain mg' x where p: "pause_families (we_clock env) 0 ?fs mg = (mg', x)" by (cases "pause_families (we_clock env) 0 ?fs mg")
  with assms m have r: "ww_rollout w' = Some mg'" "x = err" by (auto simp: stop_trading_def Let_def)
  from pause_families_effect[OF p] obtain n where n: "n \<le> length (secondary ?fs)"
    "\<forall>f \<in> set (take n (secondary ?fs)). state_of mg' (canonical_launch_family_id f) = hs_value OBSERVE_ONLY"
    "\<forall>g. g \<notin> canonical_launch_family_id ` set (take n (secondary ?fs)) \<longrightarrow> state_of mg' g = state_of mg g"
    "case x of None \<Rightarrow> n = length (secondary ?fs) \<and> (\<forall>e \<in> set (take n (mg_ends mg)). e = Stored)
      | Some e \<Rightarrow> 0 < n \<and> n \<le> length (mg_ends mg) \<and> (\<forall>e \<in> set (take (n - 1) (mg_ends mg)). e = Stored) \<and>
          map_option Py (save_error (mg_ends mg ! (n - 1))) = Some e" by blast
  have off: "families_off (take n (secondary ?fs)) mg'" using n(2) by (simp add: families_off_def)
  from r off n show "\<exists>mg' n. ww_rollout w' = Some mg' \<and> families_off (take n (secondary ?fs)) mg' \<and>
       (case err of None \<Rightarrow> n = length (secondary ?fs)
        | Some e \<Rightarrow> 0 < n \<and> n \<le> length (secondary ?fs) \<and> n \<le> length (mg_ends mg) \<and>
            map_option Py (save_error (mg_ends mg ! (n - 1))) = Some e \<and>
            (\<forall>g. g \<notin> canonical_launch_family_id ` set (take n (secondary ?fs)) \<longrightarrow> state_of mg' g = state_of mg g))"
    by (intro exI[of _ mg'] exI[of _ n]) (auto split: option.splits)
qed

text \<open>What an exception that leaves the lifecycle event does to a sweep: the state is saved, the rest is skipped.\<close>

lemma persist_raises:
  assumes "snd (persist_outcome env p s st rs res pid ev w) = Inl e"
  shows "\<exists>f ev md. snd (lifecycle_ledger_event env ev md (w\<lparr>ww_file := f\<rparr>)) = Some e"
proof (cases "we_save env")
  case (Saves t)
  then obtain f md where "snd (journalled env ev md (state_dict ((outcome_state st rs res pid s)\<lparr>wa_updated := t\<rparr>)) (w\<lparr>ww_file := f\<rparr>)) = Inl e"
    using assms by (auto simp: persist_outcome_def save_state_def outcome_state_def Let_def)
  then have "snd (lifecycle_ledger_event env ev md (w\<lparr>ww_file := f\<rparr>)) = Some e"
    by (auto simp: journalled_def split: prod.splits option.splits)
  then show ?thesis by blast
qed (use assms in \<open>simp_all add: persist_outcome_def save_state_def Let_def\<close>)

lemma finish_sent_cases:
  assumes "finish_sent env s plan pid items w = (w', r)"
  obtains (unsaved_event) e where "r = Inl (Py e)" "ww_controls w' = ww_controls w" "ww_rollout w' = ww_rollout w"
      "\<exists>f ev md. snd (lifecycle_ledger_event env ev md (w\<lparr>ww_file := f\<rparr>)) = Some e"
  | (swept) w1 where "ww_controls w1 = ww_controls w" "ww_rollout w1 = ww_rollout w"
      "\<exists>err. stop_trading env w1 = (w', err) \<and> (case err of Some e \<Rightarrow> r = Inl e | None \<Rightarrow> (\<exists>out. r = Inr out))"
proof -
  obtain st res where c: "completed_result pid plan items = (st, res)" by (cases "completed_result pid plan items")
  let ?po = "persist_outcome env s (assessed_state env s) st ''ok'' res pid (''withdraw_all_'' @ st) w"
  obtain w1 q where po: "?po = (w1, q)" by (cases ?po)
  note f = persist_frame(3,4)[of env s "assessed_state env s" st "''ok''" res pid "''withdraw_all_'' @ st" w, unfolded po fst_conv]
  show thesis
  proof (cases q)
    case (Inl e)
    have ev: "\<exists>f ev md. snd (lifecycle_ledger_event env ev md (w\<lparr>ww_file := f\<rparr>)) = Some e"
      using persist_raises[of env s "assessed_state env s" st "''ok''" res pid "''withdraw_all_'' @ st" w e] po Inl by simp
    show thesis
    proof (rule unsaved_event[of e])
      show "r = Inl (Py e)" using assms c po Inl by (simp add: finish_sent_def)
      show "ww_controls w' = ww_controls w" "ww_rollout w' = ww_rollout w" using assms c po Inl f by (simp_all add: finish_sent_def)
      show "\<exists>f ev md. snd (lifecycle_ledger_event env ev md (w\<lparr>ww_file := f\<rparr>)) = Some e" by (rule ev)
    qed
  next
    case (Inr saved)
    show thesis
    proof (rule swept[of w1])
      show "ww_controls w1 = ww_controls w" "ww_rollout w1 = ww_rollout w" by (rule f)+
      show "\<exists>err. stop_trading env w1 = (w', err) \<and> (case err of Some e \<Rightarrow> r = Inl e | None \<Rightarrow> (\<exists>out. r = Inr out))"
        using assms c po Inr by (auto simp: finish_sent_def split: prod.splits option.splits)
    qed
  qed
qed

lemma event_quiet:
  "(we_has_ledger env \<longrightarrow> cf_repo (we_config env) = None) \<Longrightarrow> snd (lifecycle_ledger_event env ev md w) = None"
  by (auto simp: lifecycle_ledger_event_def existing_lifecycle_transaction_def repair_repository_def Let_def split: option.splits)

text \<open>C8: a swept batch that answers has stopped trading: the operator controls are paused and frozen with
  evolution off, and every family of the rollout order but the core one is in \<open>observe_only\<close>, whatever its
  state was; a quarantined family too, whose quarantine ends. Finishing the batch raises instead in two cases only:
  an exception left the lifecycle event, and then neither the controls nor the rollout were touched; or the
  save of the launch profile after some family's pause failed, and then the controls are off, that family and
  those before it observe only, and the families after it keep the state they had. With no ledger repository
  and saves that succeed it always answers.\<close>

theorem sweep_stops_trading:
  assumes "finish_sent env s plan pid items w = (w', r)"
  shows "(\<forall>out. r = Inr out \<longrightarrow> ww_controls w' = controls_off (ww_controls w) \<and>
        (\<forall>mg. ww_rollout w = Some mg \<longrightarrow> (\<exists>mg'. ww_rollout w' = Some mg' \<and> families_off (lp_order (mg_profile mg)) mg'))) \<and>
     (\<forall>e. r = Inl e \<longrightarrow>
        ww_controls w' = ww_controls w \<and> ww_rollout w' = ww_rollout w \<and>
          (\<exists>x f ev md. e = Py x \<and> snd (lifecycle_ledger_event env ev md (w\<lparr>ww_file := f\<rparr>)) = Some x) \<or>
        ww_controls w' = controls_off (ww_controls w) \<and>
          (\<exists>mg mg' n. ww_rollout w = Some mg \<and> ww_rollout w' = Some mg' \<and> 0 < n \<and>
             n \<le> length (secondary (lp_order (mg_profile mg))) \<and> n \<le> length (mg_ends mg) \<and>
             map_option Py (save_error (mg_ends mg ! (n - 1))) = Some e \<and>
             families_off (take n (secondary (lp_order (mg_profile mg)))) mg' \<and>
             (\<forall>g. g \<notin> canonical_launch_family_id ` set (take n (secondary (lp_order (mg_profile mg)))) \<longrightarrow>
                state_of mg' g = state_of mg g))) \<and>
     ((we_has_ledger env \<longrightarrow> cf_repo (we_config env) = None) \<and>
        (\<forall>mg. ww_rollout w = Some mg \<longrightarrow> (\<forall>e \<in> set (mg_ends mg). e = Stored)) \<longrightarrow> (\<exists>out. r = Inr out))"
  using assms
proof (cases rule: finish_sent_cases)
  case (unsaved_event e)
  then show ?thesis using event_quiet[of env] by (auto simp del: split_paired_Ex)
next
  case (swept w1)
  then obtain err where st: "stop_trading env w1 = (w', err)"
    and q: "case err of Some e \<Rightarrow> r = Inl e | None \<Rightarrow> (\<exists>out. r = Inr out)" by blast
  note t = stop_trading_effect[OF st]
  show ?thesis
  proof (cases "ww_rollout w")
    case None
    then show ?thesis using t(1,2) swept(1,2) q by auto
  next
    case (Some mg)
    let ?fs = "secondary (lp_order (mg_profile mg))"
    from t(3)[of mg] swept(2) Some obtain mg' n where m: "ww_rollout w' = Some mg'" "families_off (take n ?fs) mg'"
      "case err of None \<Rightarrow> n = length ?fs
        | Some e \<Rightarrow> 0 < n \<and> n \<le> length ?fs \<and> n \<le> length (mg_ends mg) \<and>
            map_option Py (save_error (mg_ends mg ! (n - 1))) = Some e \<and>
            (\<forall>g. g \<notin> canonical_launch_family_id ` set (take n ?fs) \<longrightarrow> state_of mg' g = state_of mg g)" by auto
    show ?thesis
    proof (cases err)
      case None
      with m(2,3) have "families_off (lp_order (mg_profile mg)) mg'"
        unfolding families_off_secondary by (auto simp: families_off_def secondary_def)
      then show ?thesis using None q Some m(1) t(1) swept(1) by auto
    next
      case e: (Some x)
      have bad: "\<exists>y \<in> set (mg_ends mg). y \<noteq> Stored"
        using m(3) e by (intro bexI[of _ "mg_ends mg ! (n - 1)"]) (auto simp: save_error_def)
      have "r = Inl x" using q e by simp
      moreover have "ww_controls w' = controls_off (ww_controls w)" using t(1) swept(1) by simp
      ultimately show ?thesis using bad m e Some by auto
    qed
  qed
qed

definition demo_rollout :: "save_end list \<Rightarrow> manager" where
  "demo_rollout ends = \<lparr>mg_profile = default_profile\<lparr>lp_order := [''flash_arb'', ''stat_arb''],
     lp_states := [(''stat_arb'', PStr (hs_value QUARANTINED))]\<rparr>, mg_file = AsFound, mg_row = None, mg_ends = ends\<rparr>"

theorem sweep_stops_trading_witness:
  "\<exists>(w' :: wa_world) mg' out. finish_sent (demo_wa_env (Saves 5)) demo_previewed demo_plan ''wipe_a'' []
       (demo_world\<lparr>ww_rollout := Some (demo_rollout [Stored])\<rparr>) = (w', Inr out) \<and>
     ww_rollout w' = Some mg' \<and> state_of (demo_rollout [Stored]) ''stat_arb'' = hs_value QUARANTINED \<and>
     state_of mg' ''stat_arb'' = hs_value OBSERVE_ONLY"
proof -
  let ?w = "demo_world\<lparr>ww_rollout := Some (demo_rollout [Stored])\<rparr>"
  obtain w' r where e: "finish_sent (demo_wa_env (Saves 5)) demo_previewed demo_plan ''wipe_a'' [] ?w = (w', r)"
    by (cases "finish_sent (demo_wa_env (Saves 5)) demo_previewed demo_plan ''wipe_a'' [] ?w")
  have q: "state_of (demo_rollout [Stored]) ''stat_arb'' = hs_value QUARANTINED"
    by (simp add: demo_rollout_def state_of_def current_state_def default_profile_def dget_or_def)
  have n: "canonical_launch_family_id ''stat_arb'' = ''stat_arb''" by code_simp
  note t = sweep_stops_trading[OF e]
  have "\<exists>out. r = Inr out" using t by (auto simp: demo_wa_env_def demo_rollout_def)
  then obtain out where r: "r = Inr out" by blast
  with t have "\<exists>mg'. ww_rollout w' = Some mg' \<and> families_off (lp_order (mg_profile (demo_rollout [Stored]))) mg'" by auto
  then obtain mg' where "ww_rollout w' = Some mg'" "state_of mg' ''stat_arb'' = hs_value OBSERVE_ONLY"
    using n by (auto simp: families_off_def demo_rollout_def)
  with q e r show ?thesis by auto
qed

text \<open>C9: a locked ledger keeps trading on: the database driver's exceptions are none of those the lifecycle event
  catches, so when the repository's look-up raises one, finishing a swept batch raises it after the transactions
  are sent and the preview is marked as executed, with the controls and the rollout of families untouched;
  asking again with the same preview only replays the saved result and stops nothing either.\<close>

theorem locked_ledger_keeps_trading:
  assumes "we_has_ledger env" and "cf_repo (we_config env) = Some lg" and "we_repo env 0 = RepoRaised SqliteError"
    and "we_save env = Saves t" and "finish_sent env s plan pid items w = (w', r)" and "pid \<noteq> []"
  shows "r = Inl (Py SqliteError) \<and> ww_controls w' = ww_controls w \<and> ww_rollout w' = ww_rollout w \<and> ww_sent w' = ww_sent w \<and>
     replays pid (load_state (ww_file w')) \<and>
     (\<forall>kec sha env2 payload. str_get payload ''preview_id'' = pid \<longrightarrow>
        ww_controls (fst (execute kec sha env2 payload w')) = ww_controls w \<and>
        ww_rollout (fst (execute kec sha env2 payload w')) = ww_rollout w \<and>
        ww_sent (fst (execute kec sha env2 payload w')) = ww_sent w)"
proof -
  obtain st res where c: "completed_result pid plan items = (st, res)" by (cases "completed_result pid plan items")
  then have ne: "res \<noteq> []" by (auto simp: completed_result_def Let_def)
  let ?s = "(outcome_state st ''ok'' res pid (assessed_state env s))\<lparr>wa_updated := t\<rparr>"
  have k: "lifecycle_event_key ev md \<noteq> []" for ev md by (simp add: lifecycle_event_key_def or_text_def)
  have ev: "lifecycle_ledger_event env ev md x = (x, Some SqliteError)" for ev md x
    using assms(1-3) k by (simp add: lifecycle_ledger_event_def existing_lifecycle_transaction_def find_in_repository_def event_caught_def Let_def)
  have "persist_outcome env s (assessed_state env s) st ''ok'' res pid (''withdraw_all_'' @ st) w =
      (w\<lparr>ww_file := Saved ?s\<rparr>, Inl SqliteError)"
    by (simp add: persist_outcome_def save_state_def assms(4) journalled_def ev outcome_state_def Let_def)
  with assms(5) c have w: "w' = w\<lparr>ww_file := Saved ?s\<rparr>" "r = Inl (Py SqliteError)" by (simp_all add: finish_sent_def)
  have rep: "replays pid (load_state (ww_file w'))" using ne assms(6) by (simp add: w replays_def load_state_def)
  have q: "ww_controls (fst (execute kec sha env2 payload w')) = ww_controls w \<and>
        ww_rollout (fst (execute kec sha env2 payload w')) = ww_rollout w \<and>
        ww_sent (fst (execute kec sha env2 payload w')) = ww_sent w"
    if p: "str_get payload ''preview_id'' = pid" for kec sha env2 payload
  proof (cases "execute_dry_run payload")
    case (Inl refusal)
    then show ?thesis by (simp add: execute_def w)
  next
    case (Inr dry)
    then show ?thesis
      using rep p by (cases "request_blocked (we_now env2) payload (load_state (ww_file w'))")
        (simp_all add: execute_def Let_def blocked_frame w)
  qed
  then show ?thesis using w rep by simp
qed

definition locked_env :: wa_env where
  "locked_env = (demo_wa_env (Saves 5))\<lparr>we_has_ledger := True, we_repo := (\<lambda>k. RepoRaised SqliteError),
     we_config := demo_config\<lparr>cf_repo := Some demo_repo\<rparr>\<rparr>"

theorem locked_ledger_keeps_trading_witness:
  "\<exists>(w' :: wa_world). finish_sent locked_env demo_previewed demo_plan ''wipe_a'' []
       (demo_world\<lparr>ww_rollout := Some (demo_rollout [])\<rparr>) = (w', Inl (Py SqliteError)) \<and> ww_rollout w' = Some (demo_rollout [])"
proof -
  let ?w = "demo_world\<lparr>ww_rollout := Some (demo_rollout [])\<rparr>"
  obtain w' r where e: "finish_sent locked_env demo_previewed demo_plan ''wipe_a'' [] ?w = (w', r)"
    by (cases "finish_sent locked_env demo_previewed demo_plan ''wipe_a'' [] ?w")
  from locked_ledger_keeps_trading[OF _ _ _ _ e] e show ?thesis by (simp add: locked_env_def demo_wa_env_def)
qed

section \<open>A stray request\<close>

text \<open>A refused execution request ends the tracking of a submitted batch: with a wrong preview id (or without
  the confirmation text) it overwrites the saved status and result, so the next refresh neither looks at the
  submitted items nor asks the node about them, whatever the node would answer.\<close>

theorem stray_request_ends_tracking:
  assumes "wa_status (load_state (ww_file w)) = ''submitted''" and "we_save env = Saves t"
    and "execute_dry_run payload = Inr dry" and "request_blocked (we_now env) payload (load_state (ww_file w)) = Some reason"
    and "execute kec sha env payload w = (w', r)"
  shows "\<exists>s'. ww_file w' = Saved s' \<and> wa_status s' = ''execute_blocked'' \<and>
     wa_result s' = [(''ok'', PBool False), (''reason_code'', PStr reason)] \<and>
     refresh_submitted_result_progress renv s' f = refresh_idle ''not_submitted'' renv s' f"
proof -
  have "w' = fst (execute_blocked env (load_state (ww_file w)) reason [] w)"
    using assms(3-5) by (cases "execute_blocked env (load_state (ww_file w)) reason [] w") (simp add: execute_def Let_def)
  then have "ww_file w' = written (Saves t) (outcome_state ''execute_blocked'' reason
      [(''ok'', PBool False), (''reason_code'', PStr reason)] [] (load_state (ww_file w))) (ww_file w)"
    by (simp add: blocked_frame assms(2))
  then show ?thesis
    by (intro exI[of _ "(outcome_state ''execute_blocked'' reason [(''ok'', PBool False), (''reason_code'', PStr reason)] []
          (load_state (ww_file w)))\<lparr>wa_updated := t\<rparr>"])
       (simp add: written_def outcome_state_def or_text_def refresh_submitted_result_progress_def)
qed

theorem stray_request_ends_tracking_witness:
  "\<exists>(w' :: wa_world) s'. ww_file w' = Saved s' \<and> wa_status s' = ''execute_blocked'' \<and>
     wa_result s' = [(''ok'', PBool False), (''reason_code'', PStr ''preview_id_mismatch'')]"
proof -
  let ?w = "demo_world\<lparr>ww_file := Saved (demo_previewed\<lparr>wa_status := ''submitted''\<rparr>)\<rparr>" and ?p = "[(''preview_id'', PStr ''x'')]"
  obtain w' r where e: "execute demo_kec demo_sha (demo_wa_env (Saves 5)) ?p ?w = (w', r)"
    by (cases "execute demo_kec demo_sha (demo_wa_env (Saves 5)) ?p ?w")
  have "\<exists>s'. ww_file w' = Saved s' \<and> wa_status s' = ''execute_blocked'' \<and>
     wa_result s' = [(''ok'', PBool False), (''reason_code'', PStr ''preview_id_mismatch'')] \<and>
     refresh_submitted_result_progress renv s' f = refresh_idle ''not_submitted'' renv s' f" for renv f
  proof (rule stray_request_ends_tracking[OF _ _ _ _ e])
    show "wa_status (load_state (ww_file ?w)) = ''submitted''" by (simp add: load_state_def)
    show "we_save (demo_wa_env (Saves 5)) = Saves 5" by (simp add: demo_wa_env_def)
    show "execute_dry_run ?p = Inr False"
      by (simp add: execute_dry_run_def unexpected_request_fields_def EXECUTE_ALLOWED_FIELDS_def has_field_def)
    show "request_blocked (we_now (demo_wa_env (Saves 5))) ?p (load_state (ww_file ?w)) = Some ''preview_id_mismatch''"
      by (simp add: request_blocked_def load_state_def demo_previewed_def str_get_def)
  qed
  then show ?thesis by blast
qed

section \<open>Configuration events\<close>

lemma find_event_append:
  "find_event ev key xs = Inr None \<Longrightarrow> find_event ev key (xs @ ys) = find_event ev key ys"
  by (induction xs) (auto simp: rbind_eq_Inr split: if_splits)

text \<open>A journalled event is found again under its key.\<close>

lemma journalled_event_found:
  assumes "distinct (map fst md)" and "dget md ''event_key'' = PStr key"
  shows "find_event ev key [PDict (as_dict (json_sorted (PDict (event_transaction tid ts ev chain md))))]
     = Inr (Some (as_dict (json_sorted (PDict (event_transaction tid ts ev chain md)))))"
proof -
  let ?tx = "event_transaction tid ts ev chain md"
  have d: "distinct (map fst ?tx)" by (simp add: event_transaction_def)
  have m: "map_of md ''event_key'' \<noteq> None" using assms(2) by (auto simp: dget_def dget_or_def split: option.splits)
  have "str_get (as_dict (json_sorted (PDict ?tx))) ''tx_type'' = ev"
    unfolding str_get_def dget_json_sorted[OF d] by (simp add: event_transaction_def str_or_empty_def)
  moreover have "dget (as_dict (json_sorted (PDict ?tx))) ''metadata'' = json_sorted (PDict md)"
    unfolding dget_json_sorted[OF d] by (simp add: event_transaction_def)
  moreover have "str_get (as_dict (json_sorted (PDict md))) ''event_key'' = key"
    unfolding str_get_def dget_json_sorted[OF assms(1)] using m assms(2) by (auto simp: str_or_empty_def)
  ultimately show ?thesis by (simp add: event_matches_def dict_or_empty_def por_def del: json_sorted.simps) (auto)
qed

definition no_rows_raise :: "string \<Rightarrow> string \<Rightarrow> pydict list \<Rightarrow> bool" where
  "no_rows_raise ev key journal \<longleftrightarrow> (\<exists>x. find_event ev key (map PDict journal) = Inr x)"

lemma find_event_sound: "find_event ev key rows = Inr (Some row) \<Longrightarrow> str_get row ''tx_type'' = ev"
  by (induction rows) (auto simp: rbind_eq_Inr event_matches_def split: if_splits pyval.splits)

text \<open>After an event was journalled, or found, the same event under the same key is never journalled again.\<close>

lemma event_journalled_once:
  assumes "no_rows_raise ev (lifecycle_event_key ev md) (ww_journal w)" and "distinct (map fst md)"
    and "ww_journal (fst (lifecycle_ledger_event env ev md w)) \<noteq> ww_journal w" and "cf_repo (we_config env) = None"
    and "ev \<noteq> []"
  obtains tx where "ww_journal (fst (lifecycle_ledger_event env ev md w)) = ww_journal w @ [tx]" and "tx \<noteq> []"
    and "find_event ev (lifecycle_event_key ev md) (map PDict (ww_journal w @ [tx])) = Inr (Some tx)"
proof -
  let ?key = "lifecycle_event_key ev md" and ?md = "dset md ''event_key'' (PStr (lifecycle_event_key ev md))"
  have h: "we_has_ledger env" by (rule ccontr) (use assms(3) in \<open>simp add: lifecycle_ledger_event_def\<close>)
  have "\<exists>x. existing_lifecycle_transaction env ev ?key w = Inr x"
    using assms(4) by (simp add: existing_lifecycle_transaction_def Let_def)
  then obtain x where x: "existing_lifecycle_transaction env ev ?key w = Inr x" by blast
  have e: "existing_lifecycle_transaction env ev ?key w = Inr []"
    by (rule ccontr) (use x assms(3,4) h in \<open>simp add: lifecycle_ledger_event_def Let_def repair_repository_def\<close>)
  obtain tid ts where t: "we_ledger_tx env = Some (tid, ts)"
    using assms(3,4) h e by (cases "we_ledger_tx env") (simp_all add: lifecycle_ledger_event_def Let_def split_paired_all)
  let ?tx = "as_dict (json_sorted (PDict (event_transaction tid ts ev (cf_chain (we_config env)) ?md)))"
  have j: "ww_journal (fst (lifecycle_ledger_event env ev md w)) = ww_journal w @ [?tx]"
    using h e t assms(4) by (simp add: lifecycle_ledger_event_def Let_def del: json_sorted.simps)
  have "distinct (map fst ?md)" using assms(2) by (simp add: dset_def distinct_update)
  from journalled_event_found[OF this, of ?key ev tid ts "cf_chain (we_config env)"]
  have f: "find_event ev ?key [PDict ?tx] = Inr (Some ?tx)" by simp
  have ne: "?tx \<noteq> []" by (simp add: event_transaction_def)
  show thesis
  proof (cases "find_event ev ?key (map PDict (ww_journal w)) = Inr None")
    case True
    with f j ne show thesis by (intro that[of ?tx]) (simp_all add: find_event_append del: json_sorted.simps)
  next
    case False
    then obtain row where r: "find_event ev ?key (map PDict (ww_journal w)) = Inr (Some row)"
      using assms(1) by (auto simp: no_rows_raise_def)
    have k: "?key \<noteq> []" by (simp add: lifecycle_event_key_def or_text_def)
    from r k e h assms(4) have "row = []" by (simp add: existing_lifecycle_transaction_def)
    with find_event_sound[OF r] assms(5) show thesis by (simp add: str_get_def str_or_empty_def)
  qed
qed

lemma found_not_journalled:
  assumes "find_event ev (lifecycle_event_key ev md) (map PDict (ww_journal w)) = Inr (Some tx)" and "ev \<noteq> []"
    and "cf_repo (we_config env) = None"
  shows "ww_journal (fst (lifecycle_ledger_event env ev md w)) = ww_journal w"
proof -
  have "tx \<noteq> []" using find_event_sound[OF assms(1)] assms(2) by (auto simp: str_get_def str_or_empty_def)
  moreover have "lifecycle_event_key ev md \<noteq> []" by (simp add: lifecycle_event_key_def or_text_def)
  ultimately show ?thesis
    using assms(1,3) by (simp add: lifecycle_ledger_event_def existing_lifecycle_transaction_def repair_repository_def Let_def)
qed

lemma configure_journal:
  "ww_journal (fst (configure env payload w)) = ww_journal w \<or>
   (\<exists>en ap f. ww_journal (fst (configure env payload w)) = ww_journal (fst (lifecycle_ledger_event env ''withdraw_all_configured''
      [(''enabled'', PBool en), (''approved_destination'', PStr ap)] (w\<lparr>ww_file := f\<rparr>))))"
  by (auto simp: configure_def Let_def split: prod.splits sum.splits option.splits)

text \<open>Only the first configuration change reaches the audit journal: the event's key is made of the preview
  id, status and reason code, which a configuration does not have, so after one change was journalled every
  later one, to whatever destination, is taken for a repetition and dropped.\<close>

theorem later_configurations_unjournalled:
  assumes "no_rows_raise ''withdraw_all_configured'' ''withdraw_all_configured|||'' (ww_journal w)"
    and "ww_journal (fst (configure env payload w)) \<noteq> ww_journal w" and "cf_repo (we_config env) = None"
    and "ww_journal w2 = ww_journal (fst (configure env payload w))" and "cf_repo (we_config env2) = None"
  shows "ww_journal (fst (configure env2 payload2 w2)) = ww_journal w2"
proof -
  let ?ev = "''withdraw_all_configured''" and ?md = "\<lambda>en ap. [(''enabled'', PBool en), (''approved_destination'', PStr ap)]"
  have key: "lifecycle_event_key ?ev (?md en ap) = ''withdraw_all_configured|||''" for en ap
    by (simp add: lifecycle_event_key_def or_text_def str_get_def str_or_empty_def)
  from configure_journal[of env payload w] assms(2) obtain en ap f where
    j: "ww_journal (fst (configure env payload w)) = ww_journal (fst (lifecycle_ledger_event env ?ev (?md en ap) (w\<lparr>ww_file := f\<rparr>)))" by auto
  have "\<exists>tx. find_event ?ev ''withdraw_all_configured|||'' (map PDict (ww_journal w2)) = Inr (Some tx)"
    by (rule event_journalled_once[of ?ev "?md en ap" "w\<lparr>ww_file := f\<rparr>" env]) (use assms j key in auto)
  then obtain tx where tx: "find_event ?ev ''withdraw_all_configured|||'' (map PDict (ww_journal w2)) = Inr (Some tx)" by blast
  from configure_journal[of env2 payload2 w2] show ?thesis
  proof (elim disjE exE)
    fix en ap f
    assume c: "ww_journal (fst (configure env2 payload2 w2)) =
        ww_journal (fst (lifecycle_ledger_event env2 ?ev (?md en ap) (w2\<lparr>ww_file := f\<rparr>)))"
    have "ww_journal (fst (lifecycle_ledger_event env2 ?ev (?md en ap) (w2\<lparr>ww_file := f\<rparr>))) = ww_journal (w2\<lparr>ww_file := f\<rparr>)"
      by (rule found_not_journalled[of _ _ _ tx]) (use tx assms(5) key in simp_all)
    with c show ?thesis by simp
  qed
qed

definition demo_ledger_env :: wa_env where
  "demo_ledger_env = (demo_wa_env (Saves 5))\<lparr>we_has_ledger := True, we_ledger_tx := Some (''t'', 0)\<rparr>"

definition demo_redirect :: pydict where
  "demo_redirect = [(''destination'', PStr (demo_addr 6)), (''activate_destination'', PBool True)]"

theorem later_configurations_unjournalled_witness:
  "let w1 = fst (configure demo_ledger_env [(''enabled'', PBool False)] demo_world) in
     ww_journal w1 \<noteq> [] \<and> ww_journal (fst (configure demo_ledger_env demo_redirect w1)) = ww_journal w1"
proof -
  let ?w1 = "fst (configure demo_ledger_env [(''enabled'', PBool False)] demo_world)"
  have j: "ww_journal ?w1 \<noteq> []"
    by (simp add: configure_def demo_ledger_env_def demo_wa_env_def unexpected_request_fields_def
      CONFIG_ALLOWED_FIELDS_def parse_configure_def has_field_def configured_state_def demo_world_def load_state_def demo_previewed_def
      save_state_def lifecycle_ledger_event_def existing_lifecycle_transaction_def coerce_canonical_bool_def demo_config_def Let_def
      wa_default_state_def del: json_sorted.simps)
  have d: "ww_journal demo_world = []" "cf_repo (we_config demo_ledger_env) = None"
    by (simp_all add: demo_world_def demo_ledger_env_def demo_wa_env_def demo_config_def)
  have "ww_journal (fst (configure demo_ledger_env demo_redirect ?w1)) = ww_journal ?w1"
    by (rule later_configurations_unjournalled[of demo_world demo_ledger_env "[(''enabled'', PBool False)]"])
       (use d j in \<open>simp_all add: no_rows_raise_def\<close>)
  with j show ?thesis by (simp add: Let_def)
qed

end
