(* ===== verification/Pool_Events.thy ===== *)
theory Pool_Events
  imports Flashloan Byte_Codec "HOL-Library.Product_Lexorder" "HOL-Library.Multiset"
begin

text \<open>
  The event-fed pool cache (\<open>runtime_services/pool_state_event_cache.py\<close>): which pools are tracked, what a
  log changes, which blocks a reconciliation asks for, how edges are prioritised, and which candidate edges
  a scan gets. The hash of the event signatures (\<open>eth_hash\<close>), the clock, the node's answers and the float
  product \<open>round(len(full) * ratio)\<close> are arguments. The websocket loop is the sequence of its operations;
  an edge has the fields of \<open>arb_engine.Edge\<close>.
\<close>

section \<open>Edges\<close>

record pool_edge =
  pe_dex :: string
  pe_venue :: string
  pe_in :: string
  pe_out :: string
  pe_params :: pydict

definition edge_pool_address :: "pool_edge \<Rightarrow> string" where
  "edge_pool_address e =
     (let dex = lower (pe_dex e);
          raw = (if dex = ''curve'' then (if pe_venue e \<noteq> [] then pe_venue e else str_or_empty (dget (pe_params e) ''pool''))
                 else if dex = ''balancer'' then str_or_empty (dget (pe_params e) ''pool_address'')
                 else str_or_empty (dget (pe_params e) ''pool''));
          address = lower (strip raw) in
      if starts_with ''0x'' address \<and> length address = 42 then address else [])"

definition repr_pairs :: "(string \<times> string) list \<Rightarrow> string" where
  "repr_pairs ps = ''['' @ join '', '' (map (\<lambda>(k, v). ''('' @ repr_str k @ '', '' @ repr_str v @ '')'') ps) @ '']''"

definition edge_identity :: "pool_edge \<Rightarrow> string" where
  "edge_identity e = join ''|'' [pe_dex e, pe_venue e, pe_in e, pe_out e,
     repr_pairs (sort (map (\<lambda>(k, v). (k, py_str v)) (pe_params e)))]"

definition edge_family_name :: "pool_edge \<Rightarrow> string" where
  "edge_family_name e =
     (let dex = lower (strip (pe_dex e)); venue = lower (strip (str_or_empty (dget (pe_params e) ''venue_name''))) in
      if dex = ''constant_product'' \<and> venue \<noteq> [] then take 64 venue
      else take 64 (if dex \<noteq> [] then dex else ''unknown''))"

definition edge_tokens :: "pool_edge \<Rightarrow> string set" where
  "edge_tokens e = {lower (pe_in e), lower (pe_out e)} - {[]}"

definition family_edge_counts :: "pool_edge list \<Rightarrow> pydict" where
  "family_edge_counts es = map (\<lambda>f. (f, PInt (int (length (filter (\<lambda>e. edge_family_name e = f) es)))))
     (sorted_list_of_set (edge_family_name ` set es))"

section \<open>The cache\<close>

record pool_state =
  ps_kind :: string
  ps_token0 :: string
  ps_token1 :: string
  ps_block :: int
  ps_event :: string
  ps_tx :: string
  ps_reserve0 :: "int option"
  ps_reserve1 :: "int option"
  ps_sqrt_price :: "int option"
  ps_liquidity :: "int option"
  ps_tick :: "int option"
  ps_amount0 :: "int option"
  ps_amount1 :: "int option"
  ps_updated :: int

definition new_pool_state :: pool_state where
  "new_pool_state = \<lparr>ps_kind = ''unknown'', ps_token0 = [], ps_token1 = [], ps_block = 0, ps_event = [], ps_tx = [],
     ps_reserve0 = None, ps_reserve1 = None, ps_sqrt_price = None, ps_liquidity = None, ps_tick = None,
     ps_amount0 = None, ps_amount1 = None, ps_updated = 0\<rparr>"

record tracked_pool =
  tp_kind :: string
  tp_tokens :: "string list"

record pool_cache =
  pc_max_addresses :: int
  pc_reconcile_max :: int
  pc_rpc_urls :: "string list"
  pc_tracked :: "(string \<times> tracked_pool) list"
  pc_states :: "(string \<times> pool_state) list"
  pc_dirty :: "string set"
  pc_seen :: int
  pc_events :: int
  pc_reconciles :: int
  pc_missed :: int
  pc_version :: int
  pc_subscribed :: int
  pc_truncated :: bool
  pc_connected :: bool
  pc_error :: string
  pc_metrics :: pydict

definition new_pool_cache :: "string list \<Rightarrow> int \<Rightarrow> int \<Rightarrow> pool_cache" where
  "new_pool_cache rpc_urls max_addresses reconcile_max =
     \<lparr>pc_max_addresses = max 16 (min 1024 max_addresses), pc_reconcile_max = max 1 (min 2000 reconcile_max),
      pc_rpc_urls = filter (\<lambda>u. u \<noteq> []) (map strip rpc_urls), pc_tracked = [], pc_states = [], pc_dirty = {}, pc_seen = 0,
      pc_events = 0, pc_reconciles = 0, pc_missed = 0, pc_version = 0, pc_subscribed = 0, pc_truncated = False,
      pc_connected = False, pc_error = [], pc_metrics = []\<rparr>"

section \<open>Tracking\<close>

text \<open>\<open>tracked.setdefault(address, {...})\<close>, then the edge's two tokens; the first edge of a pool names its kind.\<close>

definition track_edge :: "pool_edge \<Rightarrow> (string \<times> string \<times> string set) list \<Rightarrow> (string \<times> string \<times> string set) list" where
  "track_edge e tracked =
     (let address = edge_pool_address e; ts = {lower (pe_in e), lower (pe_out e)} in
      if address = [] then tracked
      else (case map_of tracked address of
              None \<Rightarrow> tracked @ [(address, (if pe_dex e \<noteq> [] then pe_dex e else ''unknown''), ts)]
            | Some (kind, old) \<Rightarrow> AList.update address (kind, old \<union> ts) tracked))"

definition normalized_entry :: "string \<times> string \<times> string set \<Rightarrow> string \<times> tracked_pool" where
  "normalized_entry p = (case p of (address, kind, ts) \<Rightarrow>
     (address, \<lparr>tp_kind = (if kind \<noteq> [] then kind else ''unknown''), tp_tokens = take 2 (sorted_list_of_set (ts - {[]}))\<rparr>))"

definition tracked_pools :: "pool_edge list \<Rightarrow> string \<Rightarrow> (string \<times> tracked_pool) list" where
  "tracked_pools edges balancer_vault =
     (let tracked = fold track_edge edges []; vault = lower (strip balancer_vault) in
      map normalized_entry
        (if vault \<noteq> [] \<and> map_of tracked vault = None then tracked @ [(vault, ''balancer_vault'', {})] else tracked))"

text \<open>The tokens of an entry, as far as it has them, into a state.\<close>

definition set_tokens :: "string list \<Rightarrow> pool_state \<Rightarrow> pool_state" where
  "set_tokens ts s = (case ts of [] \<Rightarrow> s | [a] \<Rightarrow> s\<lparr>ps_token0 := a\<rparr> | a # b # rest \<Rightarrow> s\<lparr>ps_token0 := a, ps_token1 := b\<rparr>)"

definition state_or_new :: "(string \<times> pool_state) list \<Rightarrow> string \<Rightarrow> pool_state" where
  "state_or_new states address = (case map_of states address of None \<Rightarrow> new_pool_state | Some s \<Rightarrow> s)"

definition refresh_state :: "string \<times> tracked_pool \<Rightarrow> (string \<times> pool_state) list \<Rightarrow> (string \<times> pool_state) list" where
  "refresh_state p states = (case p of (address, entry) \<Rightarrow>
     AList.update address (set_tokens (tp_tokens entry) ((state_or_new states address)\<lparr>ps_kind := tp_kind entry\<rparr>)) states)"

definition refresh_edges :: "pool_edge list \<Rightarrow> string \<Rightarrow> pool_cache \<Rightarrow> pool_cache" where
  "refresh_edges edges balancer_vault c =
     (let normalized = tracked_pools edges balancer_vault;
          changed = (fst ` set normalized \<noteq> fst ` set (pc_tracked c) \<or>
                     list_ex (\<lambda>(a, _). map_of normalized a \<noteq> map_of (pc_tracked c) a) normalized) in
      c\<lparr>pc_tracked := normalized, pc_states := fold refresh_state normalized (pc_states c),
        pc_version := (if changed then pc_version c + 1 else pc_version c)\<rparr>)"

definition block_of :: "pool_cache \<Rightarrow> string \<Rightarrow> int" where
  "block_of c address = (case map_of (pc_states c) address of None \<Rightarrow> 0 | Some s \<Rightarrow> ps_block s)"

definition subscription_addresses :: "pool_cache \<Rightarrow> pool_cache \<times> string list" where
  "subscription_addresses c =
     (let addresses = sort_key (\<lambda>a. (- block_of c a, a)) (map fst (pc_tracked c)) in
      (c\<lparr>pc_truncated := (pc_max_addresses c < int (length addresses))\<rparr>, take (nat (pc_max_addresses c)) addresses))"

section \<open>Logs\<close>

fun words_of :: "string \<Rightarrow> int list" where
  "words_of raw =
     (if length raw < 64 then []
      else case int_of_str16 (take 64 raw) of Inl e \<Rightarrow> [] | Inr n \<Rightarrow> n # words_of (drop 64 raw))"

declare words_of.simps [simp del]

definition log_words :: "string \<Rightarrow> int list" where
  "log_words data =
     (let raw = (if data \<noteq> [] then data else ''0x'') in words_of (if starts_with ''0x'' raw then drop 2 raw else raw))"

definition signed_word :: "int \<Rightarrow> int" where
  "signed_word v = (if 2 ^ 255 \<le> v then v - 2 ^ 256 else v)"

definition signed_int24 :: "int \<Rightarrow> int" where
  "signed_int24 v = (let u = v mod 2 ^ 24 in if 2 ^ 23 \<le> u then u - 2 ^ 24 else u)"

datatype event_kind = SyncEvent | V2Swap | V3Swap | BalancerSwap | UnknownEvent

fun event_name :: "event_kind \<Rightarrow> string" where
  "event_name SyncEvent = ''sync''"
| "event_name V2Swap = ''v2_swap''"
| "event_name V3Swap = ''v3_swap''"
| "event_name BalancerSwap = ''balancer_swap''"
| "event_name UnknownEvent = ''unknown''"

definition topic :: "(bytes \<Rightarrow> bytes) \<Rightarrow> string \<Rightarrow> string" where
  "topic kec signature = ''0x'' @ hex_of (kec (map of_char signature))"

definition event_of_topic :: "(bytes \<Rightarrow> bytes) \<Rightarrow> string \<Rightarrow> event_kind" where
  "event_of_topic kec t =
     (if t = lower (topic kec ''Sync(uint112,uint112)'') then SyncEvent
      else if t = lower (topic kec ''Swap(address,uint256,uint256,uint256,uint256,address)'') then V2Swap
      else if t = lower (topic kec ''Swap(address,address,int256,int256,uint160,uint128,int24)'') then V3Swap
      else if t = lower (topic kec ''Swap(bytes32,address,address,uint256,uint256)'') then BalancerSwap
      else UnknownEvent)"

definition event_values :: "event_kind \<Rightarrow> int list \<Rightarrow> pool_state \<Rightarrow> pool_state" where
  "event_values k ws s =
     (case k of
        SyncEvent \<Rightarrow> (case ws of a # b # _ \<Rightarrow> s\<lparr>ps_reserve0 := Some a, ps_reserve1 := Some b\<rparr> | _ \<Rightarrow> s)
      | V2Swap \<Rightarrow> (case ws of a # b # c # d # _ \<Rightarrow> s\<lparr>ps_amount0 := Some (signed_word a), ps_amount1 := Some (signed_word b)\<rparr> | _ \<Rightarrow> s)
      | V3Swap \<Rightarrow> (case ws of a # b # p # l # t # _ \<Rightarrow>
            s\<lparr>ps_amount0 := Some (signed_word a), ps_amount1 := Some (signed_word b), ps_sqrt_price := Some p,
              ps_liquidity := Some l, ps_tick := Some (signed_int24 t)\<rparr> | _ \<Rightarrow> s)
      | BalancerSwap \<Rightarrow> (case ws of a # b # _ \<Rightarrow> s\<lparr>ps_amount0 := Some a, ps_amount1 := Some b\<rparr> | _ \<Rightarrow> s)
      | UnknownEvent \<Rightarrow> s)"

text \<open>\<open>list(v or [])\<close>\<close>

definition list_or_empty :: "pyval \<Rightarrow> pyval list res" where
  "list_or_empty v =
     (if \<not> truthy v then Inr []
      else case v of PList xs \<Rightarrow> Inr xs | PStr s \<Rightarrow> Inr (map (\<lambda>ch. PStr [ch]) s) | PDict d \<Rightarrow> Inr (map (PStr \<circ> fst) d)
      | _ \<Rightarrow> Inl TypeError)"

definition text_or :: "string \<Rightarrow> pyval \<Rightarrow> string" where
  "text_or dflt v = (if truthy v then py_str v else dflt)"

definition log_address :: "pydict \<Rightarrow> string" where
  "log_address log = lower (strip (str_or_empty (dget log ''address'')))"

definition log_block :: "pool_cache \<Rightarrow> pydict \<Rightarrow> int" where
  "log_block c log = (case int_of_str16 (text_or ''0'' (dget log ''blockNumber'')) of Inl e \<Rightarrow> pc_seen c | Inr n \<Rightarrow> n)"

definition apply_log :: "(bytes \<Rightarrow> bytes) \<Rightarrow> int \<Rightarrow> pydict \<Rightarrow> pool_cache \<Rightarrow> pool_cache res" where
  "apply_log kec now log c =
     (let address = log_address log; block = log_block c log in
      case map_of (pc_tracked c) address of
        None \<Rightarrow> Inr c
      | Some entry \<Rightarrow>
          if address = [] then Inr c
          else rbind (list_or_empty (dget log ''topics'')) (\<lambda>topics.
            let topic0 = (case topics of [] \<Rightarrow> [] | t # _ \<Rightarrow> lower (py_str t));
                k = event_of_topic kec topic0;
                s = event_values k (log_words (text_or ''0x'' (dget log ''data'')))
                      (set_tokens (tp_tokens entry) (state_or_new (pc_states c) address)) in
            Inr (c\<lparr>pc_states := AList.update address
                     (s\<lparr>ps_block := max (ps_block s) block, ps_event := event_name k,
                        ps_tx := str_or_empty (dget log ''transactionHash''), ps_updated := now\<rparr>) (pc_states c),
                   pc_dirty := insert address (pc_dirty c), pc_seen := max (pc_seen c) block,
                   pc_events := pc_events c + 1\<rparr>)))"

text \<open>A websocket message: the result of a notification, when it is a dictionary; what raises is skipped.\<close>

definition ws_message :: "(bytes \<Rightarrow> bytes) \<Rightarrow> int \<Rightarrow> pyval \<Rightarrow> pool_cache \<Rightarrow> pool_cache" where
  "ws_message kec now result c = (case result of PDict log \<Rightarrow> (case apply_log kec now log c of Inl e \<Rightarrow> c | Inr c' \<Rightarrow> c') | _ \<Rightarrow> c)"

section \<open>Reconciliation\<close>

fun apply_logs :: "(bytes \<Rightarrow> bytes) \<Rightarrow> int \<Rightarrow> pyval list \<Rightarrow> pool_cache \<Rightarrow> pool_cache \<times> pyerr option" where
  "apply_logs kec now [] c = (c, None)"
| "apply_logs kec now (v # vs) c =
     (case v of PDict log \<Rightarrow> (case apply_log kec now log c of Inl e \<Rightarrow> (c, Some e) | Inr c' \<Rightarrow> apply_logs kec now vs c')
      | _ \<Rightarrow> apply_logs kec now vs c)"

text \<open>The blocks a reconciliation asks the node for: after the last seen one, the newest ones when there are too many.\<close>

definition reconcile_range :: "pool_cache \<Rightarrow> int \<Rightarrow> (int \<times> int) option" where
  "reconcile_range c current =
     (if pc_seen c \<le> 0 \<or> current \<le> pc_seen c then None
      else Some (if pc_reconcile_max c < current - pc_seen c then current - pc_reconcile_max c + 1 else pc_seen c + 1, current))"

definition reconcile_known :: "(bytes \<Rightarrow> bytes) \<Rightarrow> int \<Rightarrow> (int \<Rightarrow> int \<Rightarrow> rpc_result) \<Rightarrow> int \<Rightarrow> pool_cache \<Rightarrow> pool_cache \<times> pyerr option" where
  "reconcile_known kec now logs current c =
     (if pc_seen c \<le> 0 then (c\<lparr>pc_seen := max 0 (current - 1)\<rparr>, None)
      else case reconcile_range c current of
        None \<Rightarrow> (c, None)
      | Some (start, stop) \<Rightarrow>
          let c1 = c\<lparr>pc_missed := pc_missed c + (start - (pc_seen c + 1))\<rparr>; r = logs (max 0 start) stop;
              (c2, err) = (case rr_result r of
                  PList items \<Rightarrow> if rr_ok r then apply_logs kec now (take 2000 items) (c1\<lparr>pc_reconciles := pc_reconciles c1 + 1\<rparr>) else (c1, None)
                | _ \<Rightarrow> (c1, None)) in
          (case err of Some e \<Rightarrow> (c2, Some e) | None \<Rightarrow> (c2\<lparr>pc_seen := max (pc_seen c2) current\<rparr>, None)))"

definition reconcile :: "(bytes \<Rightarrow> bytes) \<Rightarrow> int \<Rightarrow> rpc_result \<Rightarrow> (int \<Rightarrow> int \<Rightarrow> rpc_result) \<Rightarrow> string list \<Rightarrow> pool_cache \<Rightarrow> pool_cache \<times> pyerr option" where
  "reconcile kec now latest logs addresses c =
     (if pc_rpc_urls c = [] \<or> addresses = [] then (c, None)
      else case rr_result latest of
        PStr t \<Rightarrow> if rr_ok latest then (case int_of_str16 t of Inl e \<Rightarrow> (c, Some e) | Inr current \<Rightarrow> reconcile_known kec now logs current c)
                  else (c, None)
      | _ \<Rightarrow> (c, None))"

section \<open>Priorities\<close>

definition block_age :: "int \<Rightarrow> pool_state \<Rightarrow> int" where
  "block_age current s = max 0 (current - ps_block s)"

definition fresh_dirty :: "int \<Rightarrow> pool_cache \<Rightarrow> string \<times> pool_state \<Rightarrow> bool" where
  "fresh_dirty current c p = (fst p \<in> pc_dirty c \<and> ps_block (snd p) \<noteq> 0 \<and> block_age current (snd p) \<le> 2)"

definition dirty_addresses :: "int \<Rightarrow> pool_cache \<Rightarrow> string list" where
  "dirty_addresses current c = map fst (filter (fresh_dirty current c) (pc_states c))"

definition affected_tokens :: "int \<Rightarrow> pool_cache \<Rightarrow> string set" where
  "affected_tokens current c =
     set (concat (map (\<lambda>p. map lower (filter (\<lambda>t. t \<noteq> []) [ps_token0 (snd p), ps_token1 (snd p)])) (filter (fresh_dirty current c) (pc_states c))))"

definition edge_priority :: "pool_cache \<Rightarrow> int \<Rightarrow> pool_edge \<Rightarrow> int" where
  "edge_priority c current e =
     (let address = edge_pool_address e in
      if address = [] then 1
      else case map_of (pc_states c) address of None \<Rightarrow> 1
      | Some s \<Rightarrow>
          if ps_block s = 0 then 1
          else if address \<in> pc_dirty c \<and> block_age current s \<le> 2 then 4
          else if block_age current s \<le> 2 then 3
          else if block_age current s \<le> 5 then 2 else 1)"

definition touches_affected :: "pool_cache \<Rightarrow> int \<Rightarrow> pool_edge \<Rightarrow> bool" where
  "touches_affected c current e = (edge_tokens e \<inter> affected_tokens current c \<noteq> {})"

definition on_dirty_pool :: "pool_cache \<Rightarrow> int \<Rightarrow> pool_edge \<Rightarrow> bool" where
  "on_dirty_pool c current e = (edge_pool_address e \<in> set (dirty_addresses current c))"

definition scored_priority :: "pool_cache \<Rightarrow> int \<Rightarrow> pool_edge \<Rightarrow> int" where
  "scored_priority c current e =
     (let p = edge_priority c current e in
      if on_dirty_pool c current e then max p 5 else if touches_affected c current e then max p 4 else p)"

definition edge_block :: "pool_cache \<Rightarrow> pool_edge \<Rightarrow> int" where
  "edge_block c e = (let a = edge_pool_address e in if a = [] then 0 else block_of c a)"

definition edge_score :: "pool_cache \<Rightarrow> int \<Rightarrow> pool_edge \<Rightarrow> int \<times> int" where
  "edge_score c current e = (scored_priority c current e, edge_block c e)"

text \<open>\<open>scored.sort(key=(priority, last_block, -order), reverse=True)\<close>\<close>

definition ordered_edges :: "pool_cache \<Rightarrow> int \<Rightarrow> pool_edge list \<Rightarrow> pool_edge list" where
  "ordered_edges c current es =
     map snd (rev (sort_key (\<lambda>(i, e). (edge_score c current e, - int i)) (rev (enumerate 0 es))))"

definition metric :: "pool_cache \<Rightarrow> string \<Rightarrow> string \<times> pyval" where
  "metric c k = (k, por (dget_or (pc_metrics c) k (PInt 0)) (PInt 0))"

definition count_edges :: "(pool_edge \<Rightarrow> bool) \<Rightarrow> pool_edge list \<Rightarrow> pyval" where
  "count_edges P es = PInt (int (length (filter P es)))"

definition priority_metrics :: "pool_cache \<Rightarrow> int \<Rightarrow> pool_edge list \<Rightarrow> pydict" where
  "priority_metrics c current es =
     [(''enabled'', PBool (pc_tracked c \<noteq> [])), (''tracked_pools'', PInt (int (length (pc_tracked c)))),
      (''tracked_states'', PInt (int (length (filter (\<lambda>p. ps_block (snd p) \<noteq> 0) (pc_states c))))),
      (''dirty_edges'', count_edges (on_dirty_pool c current) es),
      (''affected_token_count'', PInt (int (card (affected_tokens current c)))),
      (''affected_subgraph_edges'', count_edges (\<lambda>e. \<not> on_dirty_pool c current e \<and> touches_affected c current e) es),
      (''last_event_block'', PInt (pc_seen c)), (''event_count'', PInt (pc_events c)), (''connected'', PBool (pc_connected c)),
      (''subscribed_address_count'', PInt (pc_subscribed c)), (''subscription_truncated'', PBool (pc_truncated c)),
      (''last_error'', PStr (pc_error c)),
      (''candidate_generation_mode'', PStr (str_or_empty (dget (pc_metrics c) ''candidate_generation_mode''))),
      metric c ''candidate_edge_count'', metric c ''candidate_edges_full'', metric c ''candidate_edges_pruned'',
      metric c ''exploration_edge_count'', metric c ''hot_subgraph_edge_count'', metric c ''fresh_dirty_pool_count'',
      (''candidate_affected_token_count'', snd (metric c ''affected_token_count''))]"

definition prioritize_edges :: "pool_cache \<Rightarrow> int \<Rightarrow> pool_edge list \<Rightarrow> pool_edge list \<times> pydict" where
  "prioritize_edges c current es = (ordered_edges c current es, priority_metrics c current es)"

section \<open>Round robin over the families\<close>

text \<open>One pass of the inner loop with \<open>r\<close> edges still wanted: the first edge of every non-empty bucket, until
  \<open>r\<close> are taken.\<close>

fun family_pass :: "nat \<Rightarrow> 'e list list \<Rightarrow> 'e list \<times> 'e list list" where
  "family_pass r [] = ([], [])"
| "family_pass r ([] # bs) = (case family_pass r bs of (s, bs') \<Rightarrow> (s, [] # bs'))"
| "family_pass r ((e # es) # bs) =
     (if r \<le> 1 then ([e], es # bs) else case family_pass (r - 1) bs of (s, bs') \<Rightarrow> (e # s, es # bs'))"

lemma family_pass_length: "length (fst (family_pass r bs)) \<le> max 1 r"
  by (induction r bs rule: family_pass.induct) (auto split: prod.splits)

text \<open>The outer loop: it stops when enough is taken, or when a pass took nothing.\<close>

function family_rounds :: "nat \<Rightarrow> 'e list list \<Rightarrow> 'e list" where
  "family_rounds r bs =
     (if r = 0 then []
      else case family_pass r bs of (s, bs') \<Rightarrow> if s = [] then [] else s @ family_rounds (r - length s) bs')"
  by pat_completeness auto
termination by (relation "measure fst") auto

declare family_rounds.simps [simp del]

definition buckets_by_family :: "pool_edge list \<Rightarrow> string list \<Rightarrow> pool_edge list list" where
  "buckets_by_family es families = map (\<lambda>f. filter (\<lambda>e. edge_family_name e = f) es) families"

definition round_robin_by_family :: "int \<Rightarrow> pool_edge list \<Rightarrow> int \<Rightarrow> pool_edge list" where
  "round_robin_by_family rotation_index es limit =
     (let families = sorted_list_of_set (edge_family_name ` set es) in
      if limit \<le> 0 \<or> families = [] then []
      else family_rounds (nat limit) (buckets_by_family es (rotate (nat (max 0 rotation_index)) families)))"

section \<open>Candidates\<close>

fun distinct_edges :: "string set \<Rightarrow> pool_edge list \<Rightarrow> pool_edge list" where
  "distinct_edges seen [] = []"
| "distinct_edges seen (e # es) =
     (if edge_identity e \<in> seen then distinct_edges seen es else e # distinct_edges (insert (edge_identity e) seen) es)"

record candidate_choice =
  cc_cap :: int
  cc_hot :: "pool_edge list"
  cc_cold :: "pool_edge list"
  cc_hot_selected :: "pool_edge list"
  cc_explored :: "pool_edge list"
  cc_combined :: "pool_edge list"

definition hot_edge :: "pool_cache \<Rightarrow> int \<Rightarrow> pool_edge \<Rightarrow> bool" where
  "hot_edge c current e = (on_dirty_pool c current e \<or> touches_affected c current e)"

definition choose_candidates :: "(nat \<Rightarrow> int) \<Rightarrow> pool_cache \<Rightarrow> int \<Rightarrow> int \<Rightarrow> pool_edge list \<Rightarrow> candidate_choice" where
  "choose_candidates share c current max_candidates full =
     (let cap = max 32 (min 2048 max_candidates);
          unique = distinct_edges {} full;
          hot = filter (hot_edge c current) unique; cold = filter (\<lambda>e. \<not> hot_edge c current e) unique;
          count0 = min (int (length cold)) (max 8 (share (length full)));
          overfull = (cold \<noteq> [] \<and> cap < int (length hot) + count0);
          reserve = (if overfull then min (int (length cold)) (max 8 (cap div 4)) else 0);
          count = (if overfull then reserve else count0);
          exploration = round_robin_by_family current (ordered_edges c current cold) count;
          hot_selected = round_robin_by_family current (ordered_edges c current hot) (max 0 (cap - reserve));
          explored = take (nat (max 0 (cap - int (length hot_selected)))) exploration;
          combined = take (nat cap) (distinct_edges {} (hot_selected @ explored)) in
      \<lparr>cc_cap = cap, cc_hot = hot, cc_cold = cold, cc_hot_selected = hot_selected, cc_explored = explored,
       cc_combined = (if combined = [] \<and> full \<noteq> [] then take (nat cap) full else combined)\<rparr>)"

definition candidate_metrics :: "pool_cache \<Rightarrow> int \<Rightarrow> pyval \<Rightarrow> pool_edge list \<Rightarrow> candidate_choice \<Rightarrow> pool_edge list \<Rightarrow> pydict" where
  "candidate_metrics c current ratio full ch combined =
     [(''candidate_generation_mode'', PStr ''dirty_subgraph''), (''candidate_edge_count'', PInt (int (length combined))),
      (''candidate_edges_full'', PInt (int (length full))),
      (''candidate_edges_pruned'', PInt (max 0 (int (length full) - int (length combined)))),
      (''exploration_edge_count'', count_edges (\<lambda>e. edge_identity e \<in> edge_identity ` set (cc_hot_selected ch @ cc_explored ch)) (cc_explored ch)),
      (''hot_subgraph_edge_count'', PInt (int (length (cc_hot ch)))),
      (''hot_selected_edge_count'', PInt (int (length (cc_hot_selected ch)))),
      (''exploration_selected_edge_count'', PInt (int (length (cc_explored ch)))),
      (''hot_subgraph_edges_by_family'', PDict (family_edge_counts (cc_hot ch))),
      (''hot_selected_edges_by_family'', PDict (family_edge_counts (cc_hot_selected ch))),
      (''exploration_pool_edges_by_family'', PDict (family_edge_counts (cc_cold ch))),
      (''exploration_edges_by_family'', PDict (family_edge_counts (cc_explored ch))),
      (''candidate_edges_by_family'', PDict (family_edge_counts combined)),
      (''fresh_dirty_pool_count'', PInt (int (length (dirty_addresses current c)))),
      (''affected_token_count'', PInt (int (card (affected_tokens current c)))), (''max_candidates'', PInt (cc_cap ch)),
      (''exploration_ratio'', ratio), (''family_fair_selection'', PBool True)]"

definition candidate_edges ::
    "(nat \<Rightarrow> int) \<Rightarrow> pyval \<Rightarrow> int \<Rightarrow> int \<Rightarrow> pool_edge list \<Rightarrow> pool_cache \<Rightarrow> pool_cache \<times> pool_edge list \<times> pydict" where
  "candidate_edges share ratio current max_candidates full c =
     (if dirty_addresses current c = [] then
        (case prioritize_edges c current full of (ordered, p) \<Rightarrow>
           let priority = dset (dset (dset (dset p ''candidate_generation_mode'' (PStr ''full_graph''))
                 ''candidate_edge_count'' (PInt (int (length ordered)))) ''candidate_edges_pruned'' (PInt 0)) ''exploration_edge_count'' (PInt 0) in
           (c\<lparr>pc_metrics := priority\<rparr>, ordered, priority))
      else
        let ch = choose_candidates share c current max_candidates full in
        (case prioritize_edges c current (cc_combined ch) of (combined, p) \<Rightarrow>
           let priority = dupdate p (candidate_metrics c current ratio full ch combined) in
           (c\<lparr>pc_metrics := priority\<rparr>, combined, priority)))"

section \<open>Selection\<close>

lemma family_pass_split:
  fixes fam :: "'e \<Rightarrow> 'k" and B :: "'k \<Rightarrow> 'e list"
  assumes "distinct fs" and "\<forall>f \<in> set fs. \<forall>e \<in> set (B f). fam e = f" and "0 < r"
  shows "\<exists>k. (\<forall>f. k f \<le> 1) \<and> snd (family_pass r (map B fs)) = map (\<lambda>f. drop (k f) (B f)) fs \<and>
     (\<forall>f \<in> set fs. filter (\<lambda>e. fam e = f) (fst (family_pass r (map B fs))) = take (k f) (B f)) \<and>
     (\<forall>e \<in> set (fst (family_pass r (map B fs))). fam e \<in> set fs) \<and>
     ((\<forall>f \<in> set fs. k f = 1) \<or> r \<le> length (fst (family_pass r (map B fs))))"
  using assms
proof (induction fs arbitrary: r)
  case Nil
  then show ?case by (intro exI[of _ "\<lambda>_. 0"]) simp
next
  case (Cons f fs)
  show ?case
  proof (cases "B f")
    case Nil
    from Cons.IH[of r] Cons.prems obtain k where k: "\<forall>g. k g \<le> (1 :: nat)"
      "snd (family_pass r (map B fs)) = map (\<lambda>g. drop (k g) (B g)) fs"
      "\<forall>g \<in> set fs. filter (\<lambda>e. fam e = g) (fst (family_pass r (map B fs))) = take (k g) (B g)"
      "\<forall>e \<in> set (fst (family_pass r (map B fs))). fam e \<in> set fs"
      "(\<forall>g \<in> set fs. k g = 1) \<or> r \<le> length (fst (family_pass r (map B fs)))" by auto
    have "filter (\<lambda>e. fam e = f) (fst (family_pass r (map B fs))) = []"
      using k(4) Cons.prems(1) by (auto simp: filter_empty_conv)
    with k Nil Cons.prems(1) show ?thesis
      by (intro exI[of _ "k(f := 1)"]) (auto simp: case_prod_beta)
  next
    case (Cons e es)
    show ?thesis
    proof (cases "r \<le> 1")
      case True
      with Cons Cons.prems show ?thesis by (intro exI[of _ "\<lambda>g. if g = f then 1 else 0"]) auto
    next
      case False
      from Cons.IH[of "r - 1"] Cons.prems False obtain k where k: "\<forall>g. k g \<le> (1 :: nat)"
        "snd (family_pass (r - 1) (map B fs)) = map (\<lambda>g. drop (k g) (B g)) fs"
        "\<forall>g \<in> set fs. filter (\<lambda>e. fam e = g) (fst (family_pass (r - 1) (map B fs))) = take (k g) (B g)"
        "\<forall>e \<in> set (fst (family_pass (r - 1) (map B fs))). fam e \<in> set fs"
        "(\<forall>g \<in> set fs. k g = 1) \<or> r - 1 \<le> length (fst (family_pass (r - 1) (map B fs)))" by auto
      have n: "filter (\<lambda>e. fam e = f) (fst (family_pass (r - 1) (map B fs))) = []"
        using k(4) Cons.prems(1) by (auto simp: filter_empty_conv)
      have fe: "fam e = f" using Cons.prems(2) Cons by simp
      have p: "family_pass r (map B (f # fs)) = (e # fst (family_pass (r - 1) (map B fs)), es # snd (family_pass (r - 1) (map B fs)))"
        using Cons False by (simp add: case_prod_beta)
      show ?thesis unfolding p using k n fe Cons Cons.prems(1) by (intro exI[of _ "k(f := 1)"]) auto
    qed
  qed
qed

definition taken :: "('e \<Rightarrow> 'k) \<Rightarrow> 'e list \<Rightarrow> 'k \<Rightarrow> nat" where
  "taken fam res f = length (filter (\<lambda>e. fam e = f) res)"

lemma family_rounds_fair:
  fixes fam :: "'e \<Rightarrow> 'k" and B :: "'k \<Rightarrow> 'e list"
  assumes "distinct fs" and "\<forall>f \<in> set fs. \<forall>e \<in> set (B f). fam e = f"
  shows "(\<forall>f \<in> set fs. filter (\<lambda>e. fam e = f) (family_rounds r (map B fs)) = take (taken fam (family_rounds r (map B fs)) f) (B f)) \<and>
     (\<forall>f \<in> set fs. \<forall>g \<in> set fs. taken fam (family_rounds r (map B fs)) g < length (B g) \<longrightarrow>
        taken fam (family_rounds r (map B fs)) f \<le> taken fam (family_rounds r (map B fs)) g + 1) \<and>
     (\<forall>e \<in> set (family_rounds r (map B fs)). fam e \<in> set fs) \<and> length (family_rounds r (map B fs)) \<le> r \<and>
     (length (family_rounds r (map B fs)) = r \<or> (\<forall>f \<in> set fs. taken fam (family_rounds r (map B fs)) f = length (B f)))"
  using assms(2)
proof (induction r arbitrary: B rule: less_induct)
  case (less r)
  show ?case
  proof (cases "r = 0")
    case True
    then show ?thesis by (simp add: family_rounds.simps taken_def)
  next
    case False
    let ?s = "fst (family_pass r (map B fs))"
    from family_pass_split[OF assms(1) less.prems, of r] False obtain k where k: "\<forall>f. k f \<le> (1 :: nat)"
      "snd (family_pass r (map B fs)) = map (\<lambda>f. drop (k f) (B f)) fs"
      "\<forall>f \<in> set fs. filter (\<lambda>e. fam e = f) ?s = take (k f) (B f)" "\<forall>e \<in> set ?s. fam e \<in> set fs"
      "(\<forall>f \<in> set fs. k f = 1) \<or> r \<le> length ?s" by auto
    have len: "length ?s \<le> r" using family_pass_length[of r "map B fs"] False by simp
    show ?thesis
    proof (cases "?s = []")
      case True
      then have res: "family_rounds r (map B fs) = []" using False by (simp add: family_rounds.simps case_prod_beta)
      have "B f = []" if "f \<in> set fs" for f
        using k(3,5) True False that by auto
      with res show ?thesis by (simp add: taken_def)
    next
      case ne: False
      let ?B = "\<lambda>f. drop (k f) (B f)"
      let ?t = "family_rounds (r - length ?s) (map ?B fs)"
      have res: "family_rounds r (map B fs) = ?s @ ?t"
        using False ne by (subst family_rounds.simps) (simp add: case_prod_beta k(2))
      have lt: "r - length ?s < r" using False ne by (cases "?s") auto
      have B: "\<forall>f \<in> set fs. \<forall>e \<in> set (?B f). fam e = f" using less.prems by (auto dest: in_set_dropD)
      note IH = less.IH[OF lt B]
      have tk: "taken fam (?s @ ?t) f = length (take (k f) (B f)) + taken fam ?t f" if "f \<in> set fs" for f
        using k(3) that by (simp add: taken_def)
      have pre: "filter (\<lambda>e. fam e = f) (?s @ ?t) = take (taken fam (?s @ ?t) f) (B f)" if f: "f \<in> set fs" for f
      proof -
        have "filter (\<lambda>e. fam e = f) (?s @ ?t) = take (k f) (B f) @ take (taken fam ?t f) (?B f)"
          using k(3) f IH by simp
        also have "\<dots> = take (length (take (k f) (B f)) + taken fam ?t f) (B f)"
          by (cases "k f \<le> length (B f)") (simp_all add: take_add)
        finally show ?thesis using tk[OF f] by simp
      qed
      have fair: "taken fam (?s @ ?t) f \<le> taken fam (?s @ ?t) g + 1"
        if f: "f \<in> set fs" and g: "g \<in> set fs" and l: "taken fam (?s @ ?t) g < length (B g)" for f g
      proof (cases "r \<le> length ?s")
        case True
        then have "?t = []" by (simp add: family_rounds.simps)
        then have "taken fam (?s @ ?t) f \<le> 1" using tk[OF f] k(1) by (simp add: taken_def min_le_iff_disj)
        then show ?thesis by simp
      next
        case nt: False
        then have k1: "k f = 1" "k g = 1" using k(5) f g by auto
        have "taken fam ?t g < length (?B g)" using l tk[OF g] k1 by auto
        then have "taken fam ?t f \<le> taken fam ?t g + 1" using IH f g by blast
        moreover have "length (take (k g) (B g)) = 1" using k1 l by auto
        moreover have "length (take (k f) (B f)) \<le> 1" using k1 by simp
        ultimately show ?thesis using tk[OF f] tk[OF g] by linarith
      qed
      have tot: "length (?s @ ?t) = r \<or> (\<forall>f \<in> set fs. taken fam (?s @ ?t) f = length (B f))"
      proof -
        from IH consider "length ?t = r - length ?s" | "\<forall>f \<in> set fs. taken fam ?t f = length (?B f)" by blast
        then show ?thesis
        proof cases
          case 1
          with len show ?thesis by simp
        next
          case 2
          with tk show ?thesis by (auto simp: min_def)
        qed
      qed
      have "length ?t \<le> r - length ?s" using IH by blast
      then have "length (?s @ ?t) \<le> r" using len by simp
      moreover have "\<forall>e \<in> set (?s @ ?t). fam e \<in> set fs" using k(4) IH by auto
      ultimately show ?thesis unfolding res using pre fair tot by blast
    qed
  qed
qed

lemma count_by_family: "count (mset xs) e = count (mset (filter (\<lambda>x. fam x = fam e) xs)) e"
  by (induction xs) auto

lemma size_by_family:
  assumes "\<And>f. filter (\<lambda>e. fam e = f) xs = take (n f) (filter (\<lambda>e. fam e = f) ys)"
  shows "length xs \<le> length ys"
proof -
  have "mset xs \<subseteq># mset ys"
  proof (rule mset_subset_eqI)
    fix e
    have "mset (take (n (fam e)) (filter (\<lambda>x. fam x = fam e) ys)) \<subseteq># mset (filter (\<lambda>x. fam x = fam e) ys)"
      by (metis append_take_drop_id mset_append mset_subset_eq_add_left)
    then show "count (mset xs) e \<le> count (mset ys) e"
      unfolding count_by_family[where fam = fam and xs = xs] count_by_family[where fam = fam and xs = ys] assms
      by (rule mset_subset_eq_count)
  qed
  from size_mset_mono[OF this] show ?thesis by simp
qed

lemma round_robin_sel:
  fixes es :: "pool_edge list"
  defines "sel \<equiv> \<lambda>f. filter (\<lambda>e. edge_family_name e = f) es"
  shows "length (round_robin_by_family rot es limit) = min (nat limit) (length es) \<and>
     (\<forall>f. filter (\<lambda>e. edge_family_name e = f) (round_robin_by_family rot es limit)
        = take (taken edge_family_name (round_robin_by_family rot es limit) f) (sel f)) \<and>
     (\<forall>f g. taken edge_family_name (round_robin_by_family rot es limit) g < length (sel g) \<longrightarrow>
        taken edge_family_name (round_robin_by_family rot es limit) f \<le> taken edge_family_name (round_robin_by_family rot es limit) g + 1)"
proof (cases "limit \<le> 0 \<or> es = []")
  case True
  then have "round_robin_by_family rot es limit = []" by (auto simp: round_robin_by_family_def)
  with True show ?thesis by (auto simp: taken_def)
next
  case False
  let ?fs = "rotate (nat (max 0 rot)) (sorted_list_of_set (edge_family_name ` set es))"
  let ?res = "family_rounds (nat limit) (map sel ?fs)"
  have res: "round_robin_by_family rot es limit = ?res"
    using False by (simp add: round_robin_by_family_def buckets_by_family_def sel_def)
  have fs: "distinct ?fs" "set ?fs = edge_family_name ` set es" by simp_all
  have B: "\<forall>f \<in> set ?fs. \<forall>e \<in> set (sel f). edge_family_name e = f" by (simp add: sel_def)
  note fair = family_rounds_fair[OF fs(1) B, of "nat limit"]
  have out: "sel f = [] \<and> filter (\<lambda>e. edge_family_name e = f) ?res = []" if "f \<notin> set ?fs" for f
    using that fair fs(2) by (auto simp: sel_def filter_empty_conv)
  have pre: "filter (\<lambda>e. edge_family_name e = f) ?res = take (taken edge_family_name ?res f) (sel f)" for f
    using fair out[of f] by (cases "f \<in> set ?fs") auto
  have f2: "taken edge_family_name ?res f \<le> taken edge_family_name ?res g + 1"
    if l: "taken edge_family_name ?res g < length (sel g)" for f g
  proof -
    have "g \<in> set ?fs" using l out[of g] by (cases "g \<in> set ?fs") auto
    moreover have "taken edge_family_name ?res f = 0" if "f \<notin> set ?fs" using out[OF that] by (simp add: taken_def)
    ultimately show ?thesis using fair l by (cases "f \<in> set ?fs") auto
  qed
  have le: "length ?res \<le> length es" using size_by_family[of edge_family_name ?res "taken edge_family_name ?res" es] pre
    by (simp add: sel_def)
  have "length es \<le> length ?res" if "length ?res \<noteq> nat limit"
  proof -
    have all: "\<forall>f \<in> set ?fs. taken edge_family_name ?res f = length (sel f)" using fair that by blast
    have "taken edge_family_name ?res f = length (sel f)" for f
    proof (cases "f \<in> set ?fs")
      case False
      from out[OF this] show ?thesis by (simp add: taken_def)
    qed (use all in blast)
    then have "filter (\<lambda>e. edge_family_name e = f) es = take (length (sel f)) (filter (\<lambda>e. edge_family_name e = f) ?res)" for f
      using pre[of f] by (simp add: sel_def)
    from size_by_family[OF this] show ?thesis .
  qed
  then have "length ?res = min (nat limit) (length es)" using le fair by linarith
  with pre f2 show ?thesis unfolding res by blast
qed

text \<open>C10: the selection over families: it returns as many edges as asked for, or all of them; from every family a
  prefix of that family's edges in their given order; and no family gets two more than another that still had
  edges left, whatever the rotation.\<close>

theorem round_robin_fair:
  "length (round_robin_by_family rot es limit) = min (nat limit) (length es) \<and>
   (\<forall>f. filter (\<lambda>e. edge_family_name e = f) (round_robin_by_family rot es limit)
      = take (taken edge_family_name (round_robin_by_family rot es limit) f) (filter (\<lambda>e. edge_family_name e = f) es)) \<and>
   (\<forall>f g. taken edge_family_name (round_robin_by_family rot es limit) g < taken edge_family_name es g \<longrightarrow>
      taken edge_family_name (round_robin_by_family rot es limit) f \<le> taken edge_family_name (round_robin_by_family rot es limit) g + 1)"
  using round_robin_sel[of rot es limit] by (simp add: taken_def)

definition demo_edge :: "string \<Rightarrow> string \<Rightarrow> pool_edge" where
  "demo_edge dex venue = \<lparr>pe_dex = dex, pe_venue = venue, pe_in = ''a'', pe_out = ''b'', pe_params = []\<rparr>"

theorem round_robin_fair_witness:
  "\<exists>es r. es = [demo_edge ''x'' ''1'', demo_edge ''x'' ''2'', demo_edge ''y'' ''3''] \<and> r = round_robin_by_family 7 es 2 \<and>
     length r = 2 \<and> taken edge_family_name r ''x'' \<le> 1"
proof -
  define es where "es = [demo_edge ''x'' ''1'', demo_edge ''x'' ''2'', demo_edge ''y'' ''3'']"
  define r where "r = round_robin_by_family 7 es 2"
  have fam: "edge_family_name (demo_edge ''x'' v) = ''x''" "edge_family_name (demo_edge ''y'' v) = ''y''" for v
    by (simp_all add: edge_family_name_def demo_edge_def strip_def is_space_def lower_char_def Let_def)
  have n: "taken edge_family_name es ''y'' = 1" "length es = 3" by (simp_all add: es_def taken_def fam)
  note fair = round_robin_fair[of 7 es 2, folded r_def]
  have len: "length r = 2" using fair n by simp
  have "taken edge_family_name r ''x'' \<le> 1"
  proof (rule ccontr)
    assume x: "\<not> taken edge_family_name r ''x'' \<le> 1"
    have sum: "taken edge_family_name r ''x'' + length (filter (\<lambda>e. \<not> edge_family_name e = ''x'') r) = 2"
      unfolding taken_def using len sum_length_filter_compl[of "\<lambda>e. edge_family_name e = ''x''" r] by simp
    with x have "length (filter (\<lambda>e. \<not> edge_family_name e = ''x'') r) = 0" by linarith
    then have "taken edge_family_name r ''y'' = 0" unfolding taken_def length_0_conv filter_empty_conv by auto
    with fair n have "taken edge_family_name r ''x'' \<le> 1" by (metis add_0 less_one)
    with x show False by simp
  qed
  with len show ?thesis by (auto simp: es_def r_def)
qed

section \<open>Ordering\<close>

lemma set_ordered [simp]: "mset (ordered_edges c current es) = mset es"
proof -
  have "mset (ordered_edges c current es) = image_mset snd (mset (enumerate 0 es))"
    by (simp add: ordered_edges_def)
  also have "\<dots> = mset es" by (metis map_snd_enumerate mset_map)
  finally show ?thesis .
qed

lemma ordered_edges_facts:
  shows "sorted_wrt (\<lambda>a b. edge_score c current b \<le> edge_score c current a) (ordered_edges c current es)"
    and "filter (\<lambda>e. edge_score c current e = s) (ordered_edges c current es) = filter (\<lambda>e. edge_score c current e = s) es"
proof -
  let ?key = "\<lambda>p :: nat \<times> pool_edge. (edge_score c current (snd p), - int (fst p))"
  let ?srt = "sort_key ?key (rev (enumerate 0 es))"
  have o: "ordered_edges c current es = map snd (rev ?srt)" by (simp add: ordered_edges_def case_prod_unfold)
  have srt: "sorted_wrt (\<lambda>p q. ?key p \<le> ?key q) ?srt" by (rule sorted_sort_key[unfolded sorted_map])
  have "sorted_wrt (\<lambda>p q. edge_score c current (snd q) \<le> edge_score c current (snd p)) (rev ?srt)"
    unfolding sorted_wrt_rev using srt by (rule sorted_wrt_mono_rel[rotated]) (auto simp: less_eq_prod_simp intro: less_imp_le)
  then show "sorted_wrt (\<lambda>a b. edge_score c current b \<le> edge_score c current a) (ordered_edges c current es)"
    by (simp add: o sorted_wrt_map)
  let ?P = "\<lambda>p :: nat \<times> pool_edge. edge_score c current (snd p) = s"
  have k: "sorted_wrt (\<lambda>p q. fst p \<le> fst q) (filter ?P (rev ?srt))"
  proof -
    have "sorted_wrt (\<lambda>p q. ?key q \<le> ?key p) (filter ?P (rev ?srt))"
      unfolding rev_filter[symmetric] sorted_wrt_rev by (rule sorted_wrt_filter[OF srt])
    then show ?thesis by (rule sorted_wrt_mono_rel[rotated]) (auto simp: less_eq_prod_simp intro: less_imp_le)
  qed
  have "filter ?P (rev ?srt) = filter ?P (enumerate 0 es)"
  proof (rule map_sorted_distinct_set_unique[of fst])
    have inj: "inj_on fst (set (enumerate 0 es))"
      by (rule inj_onI) (auto simp: in_set_enumerate_eq prod_eq_iff)
    from inj show "inj_on fst (set (filter ?P (rev ?srt)) \<union> set (filter ?P (enumerate 0 es)))"
      by (rule inj_on_subset) auto
    show "sorted (map fst (filter ?P (rev ?srt)))" using k by (simp add: sorted_map)
    have d: "distinct (map fst (rev ?srt))" using inj by (simp add: distinct_map)
    then show "distinct (map fst (filter ?P (rev ?srt)))" by (rule distinct_map_filter)
    have "sorted (map fst (enumerate 0 es))" by simp
    then show "sorted (map fst (filter ?P (enumerate 0 es)))" unfolding sorted_map by (rule sorted_wrt_filter)
    show "distinct (map fst (filter ?P (enumerate 0 es)))" by (rule distinct_map_filter) simp
  qed auto
  then have "map snd (filter ?P (rev ?srt)) = map snd (filter ?P (enumerate 0 es))" by simp
  then show "filter (\<lambda>e. edge_score c current e = s) (ordered_edges c current es) = filter (\<lambda>e. edge_score c current e = s) es"
    by (simp add: o filter_map comp_def)
       (metis (no_types, lifting) comp_def filter_cong filter_map map_snd_enumerate)
qed

text \<open>Prioritising loses, invents and repeats no edge; the result is ordered by priority and then by the block
  of the pool's last event, and edges that tie keep their order.\<close>

theorem prioritized_edges_ordered:
  "mset (fst (prioritize_edges c current es)) = mset es \<and>
   sorted_wrt (\<lambda>a b. edge_score c current b \<le> edge_score c current a) (fst (prioritize_edges c current es)) \<and>
   (\<forall>s. filter (\<lambda>e. edge_score c current e = s) (fst (prioritize_edges c current es)) = filter (\<lambda>e. edge_score c current e = s) es)"
  using ordered_edges_facts[where c = c and current = current and es = es] by (simp add: prioritize_edges_def)

section \<open>Candidates\<close>

lemma distinct_edges_facts:
  "set (distinct_edges seen es) \<subseteq> set es \<and> distinct (map edge_identity (distinct_edges seen es)) \<and>
   edge_identity ` set (distinct_edges seen es) = edge_identity ` set es - seen"
  by (induction seen es rule: distinct_edges.induct) auto

lemma distinct_edges_id:
  "distinct (map edge_identity es) \<Longrightarrow> edge_identity ` set es \<inter> seen = {} \<Longrightarrow> distinct_edges seen es = es"
  by (induction seen es rule: distinct_edges.induct) auto

lemma round_robin_subset: "mset (round_robin_by_family rot es limit) \<subseteq># mset es"
proof (rule mset_subset_eqI)
  fix e
  let ?r = "round_robin_by_family rot es limit" and ?f = "edge_family_name e"
  from round_robin_sel[of rot es limit] have "filter (\<lambda>x. edge_family_name x = ?f) ?r
      = take (taken edge_family_name ?r ?f) (filter (\<lambda>x. edge_family_name x = ?f) es)" by blast
  then have "mset (filter (\<lambda>x. edge_family_name x = ?f) ?r) \<subseteq># mset (filter (\<lambda>x. edge_family_name x = ?f) es)"
    by (metis append_take_drop_id mset_append mset_subset_eq_add_left)
  then show "count (mset ?r) e \<le> count (mset es) e"
    unfolding count_by_family[where fam = edge_family_name and xs = ?r] count_by_family[where fam = edge_family_name and xs = es]
    by (rule mset_subset_eq_count)
qed

lemma length_round_robin: "length (round_robin_by_family rot es limit) = min (nat limit) (length es)"
  using round_robin_sel[of rot es limit] by blast

lemma distinct_mset_sub:
  assumes "mset xs \<subseteq># mset ys" and "distinct (map f ys)"
  shows "distinct (map f xs)" and "set xs \<subseteq> set ys"
proof -
  obtain zs where z: "mset ys = mset (xs @ zs)" using assms(1) by (metis ex_mset mset_append mset_subset_eq_exists_conv)
  then have "mset (map f ys) = mset (map f (xs @ zs))" by simp
  with assms(2) have "distinct (map f (xs @ zs))" by (metis mset_eq_imp_distinct_iff)
  then show "distinct (map f xs)" by simp
  from z show "set xs \<subseteq> set ys" by (metis Un_upper1 set_append mset_eq_setD)
qed

lemma choose_candidates_spec:
  fixes share :: "nat \<Rightarrow> int" and c :: pool_cache and current max_candidates :: int and full :: "pool_edge list"
  defines "ch \<equiv> choose_candidates share c current max_candidates full"
    and "unique \<equiv> distinct_edges {} full" and "cap \<equiv> max 32 (min 2048 max_candidates)"
  shows "int (length (cc_combined ch)) \<le> cap" and "set (cc_combined ch) \<subseteq> set full"
    and "distinct (map edge_identity (cc_combined ch))"
    and "min (length (filter (\<lambda>e. \<not> hot_edge c current e) unique)) 8 \<le> length (filter (\<lambda>e. \<not> hot_edge c current e) (cc_combined ch))"
    and "int (length (filter (hot_edge c current) unique)) + max 8 (share (length full)) \<le> cap \<Longrightarrow>
      set (filter (hot_edge c current) unique) \<subseteq> set (cc_combined ch)"
proof -
  let ?H = "hot_edge c current"
  let ?hot = "filter ?H unique" and ?cold = "filter (\<lambda>e. \<not> ?H e) unique"
  let ?count0 = "min (int (length ?cold)) (max 8 (share (length full)))"
  define over where "over = (?cold \<noteq> [] \<and> cap < int (length ?hot) + ?count0)"
  define reserve where "reserve = (if over then min (int (length ?cold)) (max 8 (cap div 4)) else 0)"
  define count where "count = (if over then reserve else ?count0)"
  define expl where "expl = round_robin_by_family current (ordered_edges c current ?cold) count"
  define hs where "hs = round_robin_by_family current (ordered_edges c current ?hot) (max 0 (cap - reserve))"
  define ex where "ex = take (nat (max 0 (cap - int (length hs)))) expl"
  have comb: "cc_combined ch = (if take (nat cap) (distinct_edges {} (hs @ ex)) = [] \<and> full \<noteq> [] then take (nat cap) full
      else take (nat cap) (distinct_edges {} (hs @ ex)))"
    unfolding ch_def choose_candidates_def Let_def candidate_choice.select_convs ex_def hs_def expl_def count_def reserve_def over_def
      unique_def cap_def by (rule refl)
  have cap: "32 \<le> cap" by (simp add: cap_def)
  note u = distinct_edges_facts[of "{}" full, folded unique_def]
  have sub: "mset hs \<subseteq># mset ?hot" "mset expl \<subseteq># mset ?cold"
    using round_robin_subset[of current "ordered_edges c current ?hot" "max 0 (cap - reserve)"]
      round_robin_subset[of current "ordered_edges c current ?cold" count] by (simp_all only: hs_def expl_def set_ordered)
  have dh: "distinct (map edge_identity ?hot)" "distinct (map edge_identity ?cold)"
    using u by (simp_all add: distinct_map_filter)
  note hs = distinct_mset_sub[OF sub(1) dh(1)] and expl = distinct_mset_sub[OF sub(2) dh(2)]
  have lens: "length hs = min (nat (max 0 (cap - reserve))) (length ?hot)" "length expl = min (nat count) (length ?cold)"
    unfolding hs_def expl_def length_round_robin by (metis set_ordered size_mset)+
  have ex_set: "set ex \<subseteq> set expl" by (auto simp: ex_def dest: in_set_takeD)
  have inj: "inj_on edge_identity (set unique)" using u by (simp add: distinct_map)
  have disj: "edge_identity ` set hs \<inter> edge_identity ` set ex = {}"
  proof -
    have "set hs \<inter> set ex = {}" using hs(2) expl(2) ex_set by auto
    moreover have "set hs \<subseteq> set unique" "set ex \<subseteq> set unique" using hs(2) expl(2) ex_set by auto
    ultimately show ?thesis using inj by (metis image_empty inj_on_image_Int)
  qed
  have "distinct (map edge_identity ex)" using expl(1) by (simp add: ex_def take_map[symmetric])
  then have d: "distinct (map edge_identity (hs @ ex))" using hs(1) disj by simp
  have de: "distinct_edges {} (hs @ ex) = hs @ ex" using d by (intro distinct_edges_id) simp_all
  have res0: "0 \<le> reserve" using cap by (auto simp: reserve_def)
  have hs_cap: "int (length hs) \<le> cap"
  proof -
    have "length hs \<le> nat (max 0 (cap - reserve))" using lens(1) by simp
    then show ?thesis using res0 cap by linarith
  qed
  have "length ex \<le> nat (max 0 (cap - int (length hs)))" by (simp add: ex_def)
  with hs_cap have fit: "int (length hs) + int (length ex) \<le> cap" by linarith
  have cc: "cc_combined ch = hs @ ex"
  proof (cases "hs @ ex = [] \<and> full \<noteq> []")
    case True
    then have z: "length hs = 0" "length ex = 0" by simp_all
    have "unique \<noteq> []" using u True by auto
    then have ne: "?hot \<noteq> [] \<or> ?cold \<noteq> []" by (metis filter_False filter_True filter_empty_conv)
    have c0: "?cold \<noteq> [] \<Longrightarrow> 0 < count" using cap by (auto simp: count_def reserve_def)
    have h0: "?hot = []"
    proof (rule ccontr)
      assume "?hot \<noteq> []"
      moreover have "0 < cap - reserve" using cap by (auto simp: reserve_def)
      ultimately show False using z(1) lens(1) by (auto simp: min_def split: if_splits)
    qed
    with ne have cne: "?cold \<noteq> []" by blast
    with c0 lens(2) have "0 < length expl" by simp
    then have "0 < length ex" using cap z(1) by (simp add: ex_def)
    with z show ?thesis by simp
  next
    case False
    have "take (nat cap) (hs @ ex) = hs @ ex" using fit cap by (intro take_all) simp
    with False show ?thesis unfolding comb de by auto
  qed
  show "int (length (cc_combined ch)) \<le> cap" using fit by (simp add: cc)
  have us: "set hs \<union> set ex \<subseteq> set full" using hs(2) expl(2) ex_set u by auto
  then show "set (cc_combined ch) \<subseteq> set full" by (simp add: cc)
  show "distinct (map edge_identity (cc_combined ch))" using d by (simp add: cc)
  have room: "int (length expl) \<le> cap - int (length hs)"
  proof (cases over)
    case True
    then have "count = reserve" by (simp add: count_def)
    moreover have "reserve \<le> cap" using cap by (auto simp: reserve_def)
    moreover have "length hs \<le> nat (max 0 (cap - reserve))" "length expl \<le> nat count" using lens by simp_all
    ultimately show ?thesis using res0 by linarith
  next
    case False
    then have r: "reserve = 0" "count = ?count0" by (simp_all add: reserve_def count_def)
    show ?thesis
    proof (cases "?cold = []")
      case True
      then have "length expl = 0" using lens(2) by simp
      moreover have "int (length hs) \<le> cap" using fit by simp
      ultimately show ?thesis by simp
    next
      case ne: False
      with False have f: "int (length ?hot) + ?count0 \<le> cap" by (simp add: over_def)
      have "int (length expl) \<le> ?count0" using lens(2) r(2) by simp
      moreover have "int (length hs) \<le> int (length ?hot)" using lens(1) by simp
      ultimately show ?thesis using f by linarith
    qed
  qed
  then have exall: "ex = expl" unfolding ex_def by (intro take_all) linarith
  have "filter (\<lambda>e. \<not> ?H e) hs = []" "filter (\<lambda>e. \<not> ?H e) ex = ex"
    using hs(2) expl(2) ex_set by (auto simp: filter_empty_conv filter_id_conv)
  then have cold: "filter (\<lambda>e. \<not> ?H e) (cc_combined ch) = expl" by (simp add: cc exall)
  have "min (length ?cold) 8 \<le> nat count" using cap by (auto simp: count_def reserve_def)
  then show "min (length ?cold) 8 \<le> length (filter (\<lambda>e. \<not> ?H e) (cc_combined ch))" unfolding cold lens(2) by simp
  show "set ?hot \<subseteq> set (cc_combined ch)" if "int (length ?hot) + max 8 (share (length full)) \<le> cap"
  proof -
    have "reserve = 0" using that by (auto simp: reserve_def over_def)
    with that have "length hs = length ?hot" using lens(1) by simp
    then have "mset hs = mset ?hot" using sub(1) by (metis mset_subset_eq_multiset_union_diff_commute mset_subset_size nat_less_le size_mset subset_mset.le_neq_trans)
    then have "set hs = set ?hot" by (rule mset_eq_setD)
    then show ?thesis by (simp add: cc)
  qed
qed

text \<open>C11: the candidates of a scan after fresh events: at most the cap, known edges only, no edge identity twice, ordered
  by score; edges off the hot frontier are never starved (at least eight of them, or all); and when the hot
  edges and the exploration sample fit the cap, every hot edge is a candidate.\<close>

theorem candidates_bounded_and_fair:
  assumes "dirty_addresses current c \<noteq> []" and "candidate_edges share ratio current max_candidates full c = (c', out, metrics)"
  shows "int (length out) \<le> max 32 (min 2048 max_candidates) \<and> set out \<subseteq> set full \<and> distinct (map edge_identity out) \<and>
     sorted_wrt (\<lambda>a b. edge_score c current b \<le> edge_score c current a) out \<and>
     min (length (filter (\<lambda>e. \<not> hot_edge c current e) (distinct_edges {} full))) 8 \<le> length (filter (\<lambda>e. \<not> hot_edge c current e) out) \<and>
     (int (length (filter (hot_edge c current) (distinct_edges {} full))) + max 8 (share (length full)) \<le> max 32 (min 2048 max_candidates)
        \<longrightarrow> set (filter (hot_edge c current) (distinct_edges {} full)) \<subseteq> set out)"
proof -
  let ?cc = "cc_combined (choose_candidates share c current max_candidates full)"
  have out: "out = ordered_edges c current ?cc"
    using assms by (auto simp: candidate_edges_def prioritize_edges_def Let_def)
  have m: "mset out = mset ?cc" by (simp add: out)
  note spec = choose_candidates_spec[where share = share and c = c and current = current and max_candidates = max_candidates and full = full]
  have "length out = length ?cc" "set out = set ?cc" using m by (metis size_mset, metis set_mset_mset)
  moreover have "mset (map edge_identity out) = mset (map edge_identity ?cc)" by (simp add: m)
  then have "distinct (map edge_identity out)" using spec(3) mset_eq_imp_distinct_iff by blast
  moreover have "length (filter P out) = length (filter P ?cc)" for P using m by (metis mset_filter size_mset)
  moreover have "sorted_wrt (\<lambda>a b. edge_score c current b \<le> edge_score c current a) out" unfolding out by (rule ordered_edges_facts(1))
  ultimately show ?thesis using spec(1,2,4,5) by simp
qed

definition demo_cache :: pool_cache where
  "demo_cache = (new_pool_cache [''http://rpc''] 256 200)
     \<lparr>pc_tracked := [(''0xa'', \<lparr>tp_kind = ''v2'', tp_tokens = [''a'', ''b'']\<rparr>)],
      pc_states := [(''0xa'', new_pool_state\<lparr>ps_block := 9, ps_token0 := ''a''\<rparr>)], pc_dirty := {''0xa''}, pc_seen := 9\<rparr>"

theorem candidates_bounded_and_fair_witness:
  "\<exists>c' out metrics. candidate_edges (\<lambda>n. 0) PNone 10 1 [demo_edge ''x'' ''1''] demo_cache = (c', out, metrics) \<and>
     demo_edge ''x'' ''1'' \<in> set out"
proof -
  obtain c' out metrics where e: "candidate_edges (\<lambda>n. 0) PNone 10 1 [demo_edge ''x'' ''1''] demo_cache = (c', out, metrics)"
    by (metis prod_cases3)
  have f: "filter (fresh_dirty 10 demo_cache) (pc_states demo_cache) = pc_states demo_cache"
    by (simp add: demo_cache_def fresh_dirty_def block_age_def)
  have d: "dirty_addresses 10 demo_cache \<noteq> []" by (simp add: dirty_addresses_def f) (simp add: demo_cache_def)
  have h: "hot_edge demo_cache 10 (demo_edge ''x'' ''1'')"
    unfolding hot_edge_def touches_affected_def affected_tokens_def f
    by (simp add: demo_cache_def demo_edge_def edge_tokens_def lower_char_def new_pool_state_def)
  from candidates_bounded_and_fair[OF d e] h have "demo_edge ''x'' ''1'' \<in> set out" by simp
  with e show ?thesis by blast
qed

section \<open>Runs\<close>

text \<open>One step of the cache: whatever order the scan loop and the event task interleave their operations in.\<close>

inductive pool_step :: "(bytes \<Rightarrow> bytes) \<Rightarrow> pool_cache \<Rightarrow> pool_cache \<Rightarrow> bool" for kec where
  step_refresh: "pool_step kec c (refresh_edges edges vault c)"
| step_message: "pool_step kec c (ws_message kec now result c)"
| step_reconcile: "pool_step kec c (fst (reconcile kec now latest logs addresses c))"
| step_subscribe: "pool_step kec c (fst (subscription_addresses c))"
| step_candidates: "pool_step kec c (fst (candidate_edges share ratio current cap full c))"
| step_connection: "pool_step kec c (c\<lparr>pc_connected := up, pc_error := err, pc_subscribed := n\<rparr>)"

definition pool_run :: "(bytes \<Rightarrow> bytes) \<Rightarrow> pool_cache \<Rightarrow> pool_cache \<Rightarrow> bool" where
  "pool_run kec c c' = (pool_step kec)\<^sup>*\<^sup>* c c'"

definition pool_ok :: "pool_cache \<Rightarrow> bool" where
  "pool_ok c \<longleftrightarrow> distinct (map fst (pc_states c)) \<and> distinct (map fst (pc_tracked c)) \<and>
     fst ` set (pc_tracked c) \<subseteq> fst ` set (pc_states c) \<and> pc_dirty c \<subseteq> fst ` set (pc_states c) \<and> 0 \<le> pc_seen c \<and>
     (\<forall>s \<in> snd ` set (pc_states c). 0 \<le> ps_block s \<and> ps_block s \<le> pc_seen c) \<and> [] \<notin> fst ` set (pc_tracked c)"

lemma update_snd: "p \<in> set (AList.update k v al) \<Longrightarrow> p = (k, v) \<or> p \<in> set al"
  by (induction al) (auto split: if_splits)

lemma update_keys: "fst ` set (AList.update k v al) = insert k (fst ` set al)"
  by (induction al) auto

lemma state_or_new_block: "ps_block (state_or_new states a) = 0 \<or> (a, state_or_new states a) \<in> set states"
  by (auto simp: state_or_new_def new_pool_state_def split: option.splits dest: map_of_SomeD)

lemma set_tokens_block [simp]: "ps_block (set_tokens ts s) = ps_block s"
  by (auto simp: set_tokens_def split: list.splits)

lemma event_values_block [simp]: "ps_block (event_values k ws s) = ps_block s"
  by (auto simp: event_values_def split: event_kind.splits list.splits)

lemma tracked_keys_wf:
  "distinct (map fst tr) \<and> [] \<notin> fst ` set tr \<Longrightarrow>
   distinct (map fst (fold track_edge es tr)) \<and> [] \<notin> fst ` set (fold track_edge es tr)"
proof (induction es arbitrary: tr)
  case (Cons e es)
  have "distinct (map fst (track_edge e tr)) \<and> [] \<notin> fst ` set (track_edge e tr)"
    using Cons.prems
    by (auto simp: track_edge_def Let_def distinct_update update_keys map_of_eq_None_iff split: option.splits)
  from Cons.IH[OF this] show ?case by simp
qed simp

lemma tracked_pools_wf: "distinct (map fst (tracked_pools es v)) \<and> [] \<notin> fst ` set (tracked_pools es v)"
proof -
  have k: "map fst (map normalized_entry xs) = map fst xs" for xs by (simp add: normalized_entry_def case_prod_unfold comp_def)
  then have k': "fst ` set (map normalized_entry xs) = fst ` set xs" for xs by (metis list.set_map)
  have "distinct (map fst (fold track_edge es [])) \<and> [] \<notin> fst ` set (fold track_edge es [])" by (rule tracked_keys_wf) simp
  then show ?thesis unfolding tracked_pools_def Let_def k k' by (auto simp: map_of_eq_None_iff)
qed

lemma refresh_states_wf:
  assumes "distinct (map fst states)" and "\<forall>s \<in> snd ` set states. 0 \<le> ps_block s \<and> ps_block s \<le> n" and "0 \<le> n"
  shows "distinct (map fst (fold refresh_state ps states)) \<and>
     (\<forall>s \<in> snd ` set (fold refresh_state ps states). 0 \<le> ps_block s \<and> ps_block s \<le> n) \<and>
     fst ` set (fold refresh_state ps states) = fst ` set ps \<union> fst ` set states"
  using assms(1,2)
proof (induction ps arbitrary: states)
  case (Cons p ps)
  have b: "0 \<le> ps_block (state_or_new states (fst p)) \<and> ps_block (state_or_new states (fst p)) \<le> n"
    using state_or_new_block[of states "fst p"] Cons.prems(2) assms(3) by force
  have "\<forall>s \<in> snd ` set (refresh_state p states). 0 \<le> ps_block s \<and> ps_block s \<le> n"
    using b Cons.prems(2) by (auto simp: refresh_state_def case_prod_unfold dest!: update_snd)
  moreover have "distinct (map fst (refresh_state p states))"
    using Cons.prems(1) by (simp add: refresh_state_def case_prod_unfold distinct_update)
  ultimately show ?case using Cons.IH[of "refresh_state p states"]
    by (auto simp: refresh_state_def case_prod_unfold update_keys)
qed simp

lemma refresh_ok_pool: "pool_ok c \<Longrightarrow> pool_ok (refresh_edges es v c)"
  using refresh_states_wf[of "pc_states c" "pc_seen c" "tracked_pools es v"] tracked_pools_wf[of es v]
  by (auto simp: pool_ok_def refresh_edges_def Let_def)

lemma pool_ok_block:
  assumes "pool_ok c"
  shows "0 \<le> ps_block (state_or_new (pc_states c) a) \<and> ps_block (state_or_new (pc_states c) a) \<le> pc_seen c"
  using state_or_new_block[of "pc_states c" a]
proof
  assume "(a, state_or_new (pc_states c) a) \<in> set (pc_states c)"
  then have "state_or_new (pc_states c) a \<in> snd ` set (pc_states c)" by (rule image_eqI[rotated]) simp
  with assms show ?thesis unfolding pool_ok_def by blast
qed (use assms in \<open>simp add: pool_ok_def\<close>)

lemma apply_log_ok:
  assumes "pool_ok c" and "apply_log kec now log c = Inr c'"
  shows "pool_ok c' \<and> pc_seen c \<le> pc_seen c'"
proof (cases "c' = c")
  case False
  let ?a = "log_address log" and ?b = "log_block c log"
  obtain entry topics where e: "map_of (pc_tracked c) ?a = Some entry" "?a \<noteq> []" "list_or_empty (dget log ''topics'') = Inr topics"
    using assms(2) False by (auto simp: apply_log_def Let_def rbind_eq_Inr split: option.splits if_splits)
  define s where "s = event_values (event_of_topic kec (case topics of [] \<Rightarrow> [] | t # _ \<Rightarrow> lower (py_str t)))
      (log_words (text_or ''0x'' (dget log ''data''))) (set_tokens (tp_tokens entry) (state_or_new (pc_states c) ?a))"
  have s: "ps_block s = ps_block (state_or_new (pc_states c) ?a)" by (simp add: s_def)
  let ?k = "event_of_topic kec (case topics of [] \<Rightarrow> [] | t # _ \<Rightarrow> lower (py_str t))"
  define s' where "s' = s\<lparr>ps_block := max (ps_block s) ?b, ps_event := event_name ?k,
      ps_tx := str_or_empty (dget log ''transactionHash''), ps_updated := now\<rparr>"
  have "apply_log kec now log c = Inr (c\<lparr>pc_states := AList.update ?a s' (pc_states c), pc_dirty := insert ?a (pc_dirty c),
      pc_seen := max (pc_seen c) ?b, pc_events := pc_events c + 1\<rparr>)"
    unfolding apply_log_def Let_def e(1,3) option.case rbind_Inr s_def s'_def using e(2) by (simp only: if_False)
  with assms(2) have eq: "c' = c\<lparr>pc_states := AList.update ?a s' (pc_states c), pc_dirty := insert ?a (pc_dirty c),
      pc_seen := max (pc_seen c) ?b, pc_events := pc_events c + 1\<rparr>" by (metis sum.inject(2))
  have c': "pc_states c' = AList.update ?a s' (pc_states c)" "ps_block s' = max (ps_block s) ?b"
      "pc_dirty c' = insert ?a (pc_dirty c)" "pc_seen c' = max (pc_seen c) ?b" "pc_tracked c' = pc_tracked c"
    by (simp_all add: eq s'_def)
  have b: "0 \<le> ps_block s \<and> ps_block s \<le> pc_seen c"
    unfolding s by (rule pool_ok_block[OF assms(1)])
  have "\<forall>t \<in> snd ` set (pc_states c'). 0 \<le> ps_block t \<and> ps_block t \<le> pc_seen c'"
    using b assms(1) by (auto simp: c' pool_ok_def le_max_iff_disj dest!: update_snd)
  moreover have "?a \<in> fst ` set (pc_states c)" using assms(1) map_of_SomeD[OF e(1)] unfolding pool_ok_def by (metis fst_conv image_eqI subsetD)
  ultimately show ?thesis using assms(1) by (auto simp: pool_ok_def c' distinct_update update_keys)
qed (use assms in simp)

lemma map_of_update_eq: "map_of (AList.update k v al) k = Some v"
  by (simp add: update_conv')

lemma apply_logs_ok:
  "pool_ok c \<Longrightarrow> apply_logs kec now vs c = (c', err) \<Longrightarrow> pool_ok c' \<and> pc_seen c \<le> pc_seen c'"
proof (induction vs arbitrary: c)
  case (Cons v vs)
  show ?case
  proof (cases "\<exists>log. v = PDict log")
    case True
    then obtain log where v: "v = PDict log" by blast
    show ?thesis
    proof (cases "apply_log kec now log c")
      case (Inl e)
      with Cons.prems v show ?thesis by simp
    next
      case (Inr c1)
      with apply_log_ok[OF Cons.prems(1) Inr] Cons.IH[of c1] Cons.prems(2) v show ?thesis by auto
    qed
  next
    case False
    then have "apply_logs kec now (v # vs) c = apply_logs kec now vs c" by (cases v) simp_all
    with Cons.IH[of c] Cons.prems show ?thesis by simp
  qed
qed simp

lemma reconcile_known_ok:
  assumes "pool_ok c" and "reconcile_known kec now logs current c = (c', err)"
  shows "pool_ok c' \<and> pc_seen c \<le> pc_seen c'"
proof -
  have up: "pool_ok (d\<lparr>pc_seen := n\<rparr>)" if "pool_ok d" "pc_seen d \<le> n" for d n
    using that by (fastforce simp: pool_ok_def)
  have mis: "pool_ok (d\<lparr>pc_missed := m, pc_reconciles := r\<rparr>) = pool_ok d" "pool_ok (d\<lparr>pc_missed := m\<rparr>) = pool_ok d" for d m r
    by (simp_all add: pool_ok_def)
  show ?thesis
  proof (cases "pc_seen c \<le> 0 \<or> reconcile_range c current = None")
    case True
    with assms up[of c "max 0 (current - 1)"] show ?thesis by (auto simp: reconcile_known_def split: if_splits)
  next
    case False
    then obtain start stop where r: "reconcile_range c current = Some (start, stop)" by auto
    define c1 where "c1 = c\<lparr>pc_missed := pc_missed c + (start - (pc_seen c + 1))\<rparr>"
    have c1: "pool_ok c1" "pc_seen c1 = pc_seen c" using assms(1) by (simp_all add: c1_def mis)
    obtain c2 e where c2: "(case rr_result (logs (max 0 start) stop) of
          PList items \<Rightarrow> if rr_ok (logs (max 0 start) stop) then apply_logs kec now (take 2000 items) (c1\<lparr>pc_reconciles := pc_reconciles c1 + 1\<rparr>) else (c1, None)
        | _ \<Rightarrow> (c1, None)) = (c2, e)" by (metis surj_pair)
    have r1: "pool_ok (c1\<lparr>pc_reconciles := n\<rparr>)" "pc_seen (c1\<lparr>pc_reconciles := n\<rparr>) = pc_seen c" for n
      using c1 by (simp_all add: pool_ok_def)
    from apply_logs_ok[OF r1(1), of kec now] c2 c1 r1(2) have ok2: "pool_ok c2 \<and> pc_seen c \<le> pc_seen c2"
      by (fastforce split: pyval.splits if_splits)
    have "reconcile_known kec now logs current c = (case e of Some x \<Rightarrow> (c2, Some x) | None \<Rightarrow> (c2\<lparr>pc_seen := max (pc_seen c2) current\<rparr>, None))"
      unfolding reconcile_known_def r option.case prod.case Let_def c1_def[symmetric] c2 using False by simp
    with assms(2) ok2 up[of c2 "max (pc_seen c2) current"] show ?thesis by (cases e) auto
  qed
qed

lemma reconcile_ok:
  assumes "pool_ok c"
  shows "pool_ok (fst (reconcile kec now latest logs addresses c)) \<and> pc_seen c \<le> pc_seen (fst (reconcile kec now latest logs addresses c))"
proof -
  have k: "pool_ok (fst (reconcile_known kec now logs current c)) \<and> pc_seen c \<le> pc_seen (fst (reconcile_known kec now logs current c))" for current
    using reconcile_known_ok[OF assms prod.collapse[symmetric]] .
  show ?thesis using assms k by (auto simp: reconcile_def split: pyval.splits sum.splits)
qed

lemma pool_step_ok: "pool_step kec c c' \<Longrightarrow> pool_ok c \<Longrightarrow> pool_ok c' \<and> pc_seen c \<le> pc_seen c'"
proof (induction rule: pool_step.induct)
  case (step_refresh c edges vault)
  then show ?case using refresh_ok_pool by (simp add: refresh_edges_def Let_def)
next
  case (step_message c now result)
  then show ?case using apply_log_ok by (auto simp: ws_message_def split: pyval.splits sum.splits)
next
  case (step_reconcile c now latest logs addresses)
  then show ?case by (rule reconcile_ok)
next
  case (step_subscribe c)
  then show ?case by (simp add: subscription_addresses_def Let_def pool_ok_def)
next
  case (step_candidates c share ratio current cap full)
  then show ?case by (auto simp: candidate_edges_def Let_def pool_ok_def split: prod.splits)
next
  case (step_connection c up err n)
  then show ?case by (simp add: pool_ok_def)
qed

lemma pool_run_ok: "pool_run kec c c' \<Longrightarrow> pool_ok c \<Longrightarrow> pool_ok c' \<and> pc_seen c \<le> pc_seen c'"
  unfolding pool_run_def
proof (induction rule: rtranclp_induct)
  case (step y z)
  then show ?case using pool_step_ok by (meson order_trans)
qed simp

text \<open>C15: the cache's invariant, kept by every interleaving of its operations: every tracked and every changed pool
  has a state, no address occurs twice, and no pool's last event lies after the last block seen.\<close>

theorem pool_cache_invariant:
  assumes "pool_run kec (new_pool_cache urls n m) c"
  shows "pool_ok c"
  using pool_run_ok[OF assms] by (simp add: pool_ok_def new_pool_cache_def)

theorem pool_cache_invariant_witness:
  "pool_ok (refresh_edges [demo_edge ''curve'' ''0x1''] ''0xvault'' (new_pool_cache [''u''] 256 200))"
  by (rule pool_cache_invariant[where kec = id and urls = "[''u'']" and n = 256 and m = 200])
     (simp add: pool_run_def step_refresh r_into_rtranclp)

lemma range_after_seen: "reconcile_range c current = Some (a, b) \<Longrightarrow> pc_seen c < a \<and> b = current \<and> pc_seen c < b"
  by (auto simp: reconcile_range_def split: if_splits)

text \<open>C14: a reconciliation whose log request fails loses its blocks: the node's failure leaves every pool state as it
  was, but the last seen block advances over the requested range, and no later reconciliation, whatever happens
  in between, asks for a block of that range again.\<close>

theorem failed_reconciliation_loses_blocks:
  assumes "pool_ok c" and "reconcile_range c current = Some (a, b)" and "\<not> rr_ok (logs (max 0 a) b)"
    and "pool_run kec (fst (reconcile_known kec now logs current c)) c2" and "reconcile_range c2 current2 = Some (a2, b2)"
  shows "pc_states (fst (reconcile_known kec now logs current c)) = pc_states c \<and>
     pc_dirty (fst (reconcile_known kec now logs current c)) = pc_dirty c \<and> b < a2"
proof -
  let ?c1 = "fst (reconcile_known kec now logs current c)"
  have s: "\<not> pc_seen c \<le> 0" using assms(2) by (auto simp: reconcile_range_def)
  have f: "pc_states ?c1 = pc_states c \<and> pc_dirty ?c1 = pc_dirty c \<and> current \<le> pc_seen ?c1"
    using assms(2,3) s by (auto simp: reconcile_known_def Let_def split: pyval.splits)
  have "pool_ok ?c1" using reconcile_known_ok[OF assms(1) prod.collapse[symmetric]] by blast
  from pool_run_ok[OF assms(4) this] range_after_seen[OF assms(5)] range_after_seen[OF assms(2)] f show ?thesis by linarith
qed

definition demo_failure :: rpc_result where
  "demo_failure = \<lparr>rr_ok = False, rr_result = PNone, rr_error = PStr ''timeout''\<rparr>"

theorem failed_reconciliation_loses_blocks_witness:
  "\<exists>c1. c1 = fst (reconcile_known id 0 (\<lambda>a b. demo_failure) 20 demo_cache) \<and> reconcile_range demo_cache 20 = Some (10, 20) \<and>
     pc_states c1 = pc_states demo_cache \<and> reconcile_range c1 30 = Some (21, 30)"
proof -
  let ?c1 = "fst (reconcile_known id 0 (\<lambda>a b. demo_failure) 20 demo_cache)"
  have r: "reconcile_range demo_cache 20 = Some (10, 20)" by (simp add: reconcile_range_def demo_cache_def new_pool_cache_def)
  have s: "reconcile_range ?c1 30 = Some (21, 30)"
    by (simp add: reconcile_known_def r demo_failure_def) (simp add: reconcile_range_def demo_cache_def new_pool_cache_def)
  have "pool_ok demo_cache" by (simp add: pool_ok_def demo_cache_def new_pool_cache_def)
  from failed_reconciliation_loses_blocks[OF this r, of "\<lambda>a b. demo_failure" id 0 ?c1, OF _ _ s] r s show ?thesis
    by (simp add: demo_failure_def pool_run_def)
qed

section \<open>Event words\<close>

lemma shifted_mod:
  assumes "0 \<le> k" and "k < 2 * (h :: int)"
  shows "(k + h) mod (2 * h) - h = (if h \<le> k then k - 2 * h else k)"
proof (cases "h \<le> k")
  case True
  have "k + h = (k - h) + 2 * h" by simp
  then have "(k + h) mod (2 * h) = (k - h) mod (2 * h)" by (metis mod_add_self2)
  also have "\<dots> = k - h" using True assms by simp
  finally have "(k + h) mod (2 * h) = k - h" .
  with True show ?thesis by simp
next
  case False
  with assms show ?thesis by simp
qed

lemma signed_word_256: "signed_word (uint (w :: 256 word)) = sint w"
proof -
  have p: "(2 :: int) ^ 256 = 2 * 2 ^ 255" by (simp flip: power_Suc)
  have "sint w = (uint w + 2 ^ 255) mod (2 * 2 ^ 255) - 2 ^ 255"
    by (simp add: sint_uint signed_take_bit_eq_take_bit_shift take_bit_eq_mod)
  also have "\<dots> = signed_word (uint w)"
    using uint_lt2p[of w] uint_ge_0[of w] unfolding signed_word_def p by (intro shifted_mod) simp_all
  finally show ?thesis by simp
qed

lemma signed_word_24: "signed_int24 v = sint (word_of_int v :: 24 word)"
proof -
  have p: "(2 :: int) ^ 24 = 2 * 2 ^ 23" by (simp flip: power_Suc)
  have "sint (word_of_int v :: 24 word) = (v mod 2 ^ 24 + 2 ^ 23) mod (2 * 2 ^ 23) - 2 ^ 23"
    by (simp add: sint_uint uint_word_of_int signed_take_bit_eq_take_bit_shift take_bit_eq_mod)
  also have "\<dots> = signed_int24 v"
    unfolding signed_int24_def Let_def p by (intro shifted_mod) simp_all
  finally show ?thesis by simp
qed

text \<open>The two's complement readings: for every word value \<open>signed_word\<close> is the signed value of the 256-bit word,
  and \<open>signed_int24\<close> is the signed value of the low 24 bits of any integer.\<close>

theorem signed_readings_exact:
  "signed_word (uint (w :: 256 word)) = sint w \<and> signed_int24 v = sint (word_of_int v :: 24 word)"
  using signed_word_256 signed_word_24 by blast

section \<open>Logs as the chain writes them\<close>

lemma byte_digits: "unat (b :: byte) div 16 < 16" "unat b mod 16 < 16"
  using unat_byte_lt[of b] by simp_all

lemma digits_from_hex:
  "digits_from 16 acc (hex_of bs @ s) = digits_from 16 (foldl (\<lambda>a b. 256 * a + unat b) acc bs) s"
proof (induction bs arbitrary: acc)
  case (Cons b bs)
  have "digits_from 16 acc (hex_of_byte b @ t) = digits_from 16 (256 * acc + unat b) t" for t
  proof -
    have "(acc * 16 + unat b div 16) * 16 + unat b mod 16 = 256 * acc + unat b" by simp
    then show ?thesis
      by (simp add: hex_of_byte_eq digit_char_no_underscore byte_digits digit_val_char add.commute)
  qed
  with Cons.IH show ?case by simp
qed simp

lemma int_of_hex_word:
  assumes "bs \<noteq> []"
  shows "int_of_str16 (hex_of bs) = Inr (int (from_be bs))"
proof -
  obtain b rest where bs: "bs = b # rest" using assms by (cases bs) auto
  let ?d = "digit_char (unat b div 16)" and ?e = "digit_char (unat b mod 16)"
  have h: "hex_of bs = ?d # ?e # hex_of rest" by (simp add: bs hex_of_byte_eq)
  have nsign: "?d \<noteq> CHR ''-''" "?d \<noteq> CHR ''+''" by (simp_all add: digit_char_neq byte_digits)
  have nx: "?e \<noteq> CHR ''x''" "?e \<noteq> CHR ''X''"
    using byte_digits(2)[of b] digit_val_char[of "unat b mod 16" 16] by (auto simp: digit_val_def)
  have "parse_nat 16 (hex_of bs) = digits_from 16 (unat b div 16) (?e # hex_of rest)"
    unfolding h by (simp add: parse_nat_def byte_digits digit_val_char)
  also have "\<dots> = digits_from 16 (unat b) (hex_of rest)"
    by (simp add: digit_char_no_underscore byte_digits digit_val_char)
  also have "\<dots> = Some (from_be bs)"
    using digits_from_hex[of "unat b" rest "[]"] by (simp add: bs from_be_def)
  finally have p: "parse_nat 16 (hex_of bs) = Some (from_be bs)" .
  have "split_sign (hex_of bs) = (1, hex_of bs)" using nsign by (simp add: h)
  moreover have "\<not> starts_with ''0x'' (hex_of bs)" "\<not> starts_with ''0X'' (hex_of bs)" using nx by (simp_all add: h starts_with_def)
  ultimately show ?thesis using p by (simp add: int_of_str16_def)
qed

lemma words_of_hex:
  "\<forall>w \<in> set ws. length w = 32 \<Longrightarrow> words_of (hex_of (concat ws)) = map (int \<circ> from_be) ws"
proof (induction ws)
  case Nil
  then show ?case by (simp add: words_of.simps)
next
  case (Cons w ws)
  then have h: "take 64 (hex_of (concat (w # ws))) = hex_of w" "drop 64 (hex_of (concat (w # ws))) = hex_of (concat ws)"
    "\<not> length (hex_of (concat (w # ws))) < 64" "w \<noteq> []" by auto
  from Cons have "words_of (hex_of (concat ws)) = map (int \<circ> from_be) ws" by simp
  then show ?case by (subst words_of.simps) (simp only: h int_of_hex_word[OF h(4)] if_False sum.case list.map comp_def)
qed

lemma log_words_hex: "\<forall>w \<in> set ws. length w = 32 \<Longrightarrow> log_words (''0x'' @ hex_of (concat ws)) = map (int \<circ> from_be) ws"
  unfolding log_words_def by (simp add: words_of_hex starts_with_def Let_def)

lemma event_word_value: "int (from_be (to_be 32 (unat (w :: 256 word)))) = uint w"
proof -
  have "unat w < 2 ^ 256" using unsigned_less[of w, where 'a = nat] by simp
  then have "unat w < 256 ^ 32" by (simp flip: power_mult)
  then show ?thesis by (simp add: from_be_to_be)
qed

lemma tick_word: "signed_int24 (uint (scast (t :: 24 word) :: 256 word)) = sint t"
proof -
  have "uint (scast t :: 256 word) = take_bit LENGTH(256) (sint t)" unfolding scast_eq uint_word_of_int_eq by (rule refl)
  then have "take_bit LENGTH(24) (uint (scast t :: 256 word)) = take_bit LENGTH(24) (take_bit LENGTH(256) (sint t))" by (rule arg_cong)
  also have "\<dots> = take_bit LENGTH(24) (sint t)" unfolding take_bit_take_bit by simp
  finally have "(word_of_int (uint (scast t :: 256 word)) :: 24 word) = word_of_int (sint t)" unfolding word_of_int_eq_iff .
  then show ?thesis using signed_word_24[of "uint (scast t :: 256 word)"] by simp
qed

lemma lower_topic [simp]: "lower (''0x'' @ hex_of bs) = ''0x'' @ hex_of bs"
  by (simp add: lower_char_def)

text \<open>C37: a concentrated-liquidity swap as the chain logs it is read back exactly and changes nothing else. A log whose
  first topic is the hash of the swap's signature, of a tracked pool, with five data words, gives the pool's state
  the two amounts and the tick in two's complement, the price and the liquidity unsigned, as its block the larger of
  the old one and the log's, the transaction hash and the time; every other field and every other pool keeps its
  values, the pool becomes dirty, the last seen block and the event count move on.\<close>

theorem v3_swap_log_roundtrip:
  fixes a0 a1 price liq :: "256 word" and t :: "24 word"
  assumes "dget log ''address'' = PStr a" and "pool = lower (strip a)" and "pool \<noteq> []"
    and "map_of (pc_tracked c) pool = Some entry" and "map_of (pc_states c) pool = Some s"
    and "dget log ''topics'' = PList (PStr tp # rest)"
    and "lower tp = ''0x'' @ hex_of (kec (map of_char ''Swap(address,address,int256,int256,uint160,uint128,int24)''))"
    and "kec (map of_char ''Swap(address,address,int256,int256,uint160,uint128,int24)'') \<notin>
      {kec (map of_char ''Sync(uint112,uint112)''), kec (map of_char ''Swap(address,uint256,uint256,uint256,uint256,address)'')}"
    and "dget log ''data'' = PStr (''0x'' @ hex_of (concat (map (to_be 32 \<circ> unat) [a0, a1, price, liq, scast t])))"
    and "dget log ''blockNumber'' = PStr b" and "int_of_str16 b = Inr n" and "dget log ''transactionHash'' = PStr h"
  shows "\<exists>c'. apply_log kec now log c = Inr c' \<and>
     map_of (pc_states c') = (map_of (pc_states c))(pool \<mapsto> (set_tokens (tp_tokens entry) s)
       \<lparr>ps_amount0 := Some (sint a0), ps_amount1 := Some (sint a1), ps_sqrt_price := Some (uint price),
         ps_liquidity := Some (uint liq), ps_tick := Some (sint t), ps_block := max (ps_block s) n,
         ps_event := ''v3_swap'', ps_tx := h, ps_updated := now\<rparr>) \<and>
     pc_dirty c' = insert pool (pc_dirty c) \<and> pc_seen c' = max (pc_seen c) n \<and> pc_events c' = pc_events c + 1 \<and>
     c' = c\<lparr>pc_states := pc_states c', pc_dirty := pc_dirty c', pc_seen := pc_seen c', pc_events := pc_events c'\<rparr>"
proof -
  let ?ws = "map (to_be 32 \<circ> unat) [a0, a1, price, liq, scast t]"
  have w: "log_words (''0x'' @ hex_of (concat ?ws)) = map uint [a0, a1, price, liq, scast t]"
    by (subst log_words_hex) (simp_all add: event_word_value)
  have d: "text_or ''0x'' (dget log ''data'') = ''0x'' @ hex_of (concat ?ws)" unfolding assms(9) by (simp add: text_or_def)
  have tp: "list_or_empty (dget log ''topics'') = Inr (PStr tp # rest)" by (simp add: assms(6) list_or_empty_def)
  have adr: "log_address log = pool" by (simp add: log_address_def assms(1,2))
  have "int_of_str16 [] = Inl ValueError" by code_simp
  with assms(11) have "b \<noteq> []" by auto
  then have blk: "log_block c log = n" by (simp add: log_block_def text_or_def assms(10,11))
  have k: "event_of_topic kec (lower tp) = V3Swap"
    unfolding event_of_topic_def assms(7) topic_def lower_topic same_append_eq hex_of_inj using assms(8) by simp
  have s: "state_or_new (pc_states c) pool = s" by (simp add: state_or_new_def assms(5))
  show ?thesis
    unfolding apply_log_def Let_def adr blk assms(4) tp d w option.case rbind_Inr list.case py_str.simps k s
    using assms(3) by (simp add: event_values_def tick_word signed_word_256 update_conv' assms(12))
qed

definition length_hash :: "bytes \<Rightarrow> bytes" where
  "length_hash bs = [of_nat (length bs)]"

definition demo_log :: pydict where
  "demo_log = [(''address'', PStr ''0xA''), (''blockNumber'', PStr ''0xb''), (''transactionHash'', PStr ''0xh''),
     (''topics'', PList [PStr (topic length_hash ''Swap(address,address,int256,int256,uint160,uint128,int24)'')]),
     (''data'', PStr (''0x'' @ hex_of (concat (map (to_be 32 \<circ> unat) [5, - 7, 9, 11, (scast (- 3 :: 24 word) :: 256 word)]))))]"

theorem v3_swap_log_roundtrip_witness:
  "\<exists>c' s. apply_log length_hash 0 demo_log demo_cache = Inr c' \<and> map_of (pc_states c') ''0xa'' = Some s \<and>
     ps_amount0 s = Some (sint (5 :: 256 word)) \<and> ps_amount1 s = Some (sint (- 7 :: 256 word)) \<and> ps_tick s = Some (sint (- 3 :: 24 word)) \<and>
     ps_block s = 11 \<and> pc_seen c' = 11"
proof -
  let ?v3 = "''Swap(address,address,int256,int256,uint160,uint128,int24)''"
  have a: "''0xa'' = lower (strip ''0xA'')" by code_simp
  have b: "int_of_str16 ''0xb'' = Inr 11" by code_simp
  have h: "length_hash (map of_char ?v3) \<notin>
      {length_hash (map of_char ''Sync(uint112,uint112)''), length_hash (map of_char ''Swap(address,uint256,uint256,uint256,uint256,address)'')}"
    by (simp add: length_hash_def)
  have tp: "lower (topic length_hash s) = ''0x'' @ hex_of (length_hash (map of_char s))" for s unfolding topic_def by (rule lower_topic)
  have f: "dget demo_log ''address'' = PStr ''0xA''" "dget demo_log ''blockNumber'' = PStr ''0xb''"
    "dget demo_log ''transactionHash'' = PStr ''0xh''" "dget demo_log ''topics'' = PList (PStr (topic length_hash ?v3) # [])"
    by (simp_all add: demo_log_def)
  have data: "dget demo_log ''data'' =
      PStr (''0x'' @ hex_of (concat (map (to_be 32 \<circ> unat) [5, - 7, 9, 11, (scast (- 3 :: 24 word) :: 256 word)])))"
    unfolding demo_log_def dget_Cons by (simp only: if_False if_True list.inject char.inject) simp?
  have c: "map_of (pc_tracked demo_cache) ''0xa'' = Some \<lparr>tp_kind = ''v2'', tp_tokens = [''a'', ''b'']\<rparr>"
    "map_of (pc_states demo_cache) ''0xa'' = Some (new_pool_state\<lparr>ps_block := 9, ps_token0 := ''a''\<rparr>)" "pc_seen demo_cache = 9"
    by (simp_all add: demo_cache_def)
  from v3_swap_log_roundtrip[OF f(1) a _ c(1,2) f(4) tp h data f(2) b f(3), of 0]
  show ?thesis by (auto simp: c(3))
qed

end
