(* ===== verification/Rpc_Batch.thy ===== *)
theory Rpc_Batch
  imports Withdraw_Progress "HOL-Library.Multiset"
begin

text \<open>
  The batching JSON-RPC client (\<open>rpc.py\<close>): single calls, batches with their chunks, the matching of answers
  to requests by id, the splitting of rate-limited batches, and the fall-back to single calls. The node is
  an argument: what the \<open>k\<close>-th HTTP request answers to its body. Sleeping and latencies are left out. Chunks
  that \<open>gather\<close> starts together run in their order; the node's answers may differ from request to request,
  so what is proved for every node does not depend on which chunk is posted first.
\<close>

section \<open>Requests and answers\<close>

type_synonym rpc_call = "string \<times> pyval list"
type_synonym rpc_request = "int \<times> string \<times> pyval list"

datatype http_body = Single rpc_request | Many "rpc_request list"

text \<open>An answer with its status and decoded body, a body that is not JSON, a transport failure the client
  catches (its text), or another exception.\<close>

datatype http_answer = HttpJson int pyval | HttpNoJson int string | HttpFails string | HttpRaises pyerr

record rpc_client =
  rc_last_id :: int
  rc_batch_ok :: "bool option"
  rc_posts :: "http_body list"

record rpc_limits =
  rl_max_batch :: int
  rl_min_batch :: int
  rl_max_splits :: int

definition min_batch :: "rpc_limits \<Rightarrow> nat" where
  "min_batch lim = nat (max 1 (rl_min_batch lim))"

definition max_splits :: "rpc_limits \<Rightarrow> nat" where
  "max_splits lim = nat (max 0 (min 6 (rl_max_splits lim)))"

type_synonym node = "nat \<Rightarrow> http_body \<Rightarrow> http_answer"

definition post :: "node \<Rightarrow> http_body \<Rightarrow> rpc_client \<Rightarrow> rpc_client \<times> http_answer" where
  "post node body cl = (cl\<lparr>rc_posts := rc_posts cl @ [body]\<rparr>, node (length (rc_posts cl)) body)"

definition rpc_ok :: "pyval \<Rightarrow> rpc_result" where
  "rpc_ok v = \<lparr>rr_ok = True, rr_result = v, rr_error = PNone\<rparr>"

definition rpc_failed :: "pyval \<Rightarrow> rpc_result" where
  "rpc_failed e = \<lparr>rr_ok = False, rr_result = PNone, rr_error = e\<rparr>"

definition status_error :: "int \<Rightarrow> pyval" where
  "status_error s = PDict [(''code'', PInt s), (''message'', PStr (''http_status_'' @ show_int s))]"

section \<open>A single call\<close>

text \<open>\<open>"error" in j\<close>, then \<open>j["error"]\<close> or \<open>j.get("result")\<close>\<close>

definition read_single :: "pyval \<Rightarrow> rpc_result res" where
  "read_single j = (case j of
       PDict d \<Rightarrow> Inr (case map_of d ''error'' of Some e \<Rightarrow> rpc_failed e | None \<Rightarrow> rpc_ok (dget d ''result''))
     | PList xs \<Rightarrow> if PStr ''error'' \<in> set xs then Inl TypeError else Inl AttributeError
     | PStr s \<Rightarrow> if contains ''error'' s then Inl TypeError else Inl AttributeError
     | _ \<Rightarrow> Inl TypeError)"

definition rpc_call_one :: "node \<Rightarrow> rpc_call \<Rightarrow> rpc_client \<Rightarrow> rpc_client \<times> rpc_result res" where
  "rpc_call_one node c cl =
     (let i = rc_last_id cl + 1;
          (cl1, answer) = post node (Single (i, fst c, snd c)) (cl\<lparr>rc_last_id := i\<rparr>) in
      (cl1, case answer of
         HttpJson s j \<Rightarrow> read_single j
       | HttpNoJson s txt \<Rightarrow> Inr (rpc_failed (if 400 \<le> s then status_error s else PStr txt))
       | HttpFails txt \<Rightarrow> Inr (rpc_failed (PStr txt))
       | HttpRaises e \<Rightarrow> Inl e))"

fun rpc_calls :: "node \<Rightarrow> rpc_call list \<Rightarrow> rpc_client \<Rightarrow> rpc_client \<times> rpc_result list res" where
  "rpc_calls node [] cl = (cl, Inr [])"
| "rpc_calls node (c # cs) cl =
     (case rpc_call_one node c cl of
        (cl1, Inl e) \<Rightarrow> (cl1, Inl e)
      | (cl1, Inr r) \<Rightarrow> (case rpc_calls node cs cl1 of (cl2, rs) \<Rightarrow> (cl2, rbind rs (\<lambda>rs. Inr (r # rs)))))"

section \<open>Matching answers\<close>

text \<open>\<open>by_id[int(resp["id"])] = resp\<close>; a later answer with the same id replaces the earlier one.\<close>

fun index_answers :: "pyval list \<Rightarrow> (int \<times> pydict) list \<Rightarrow> (int \<times> pydict) list res" where
  "index_answers [] by_id = Inr by_id"
| "index_answers (v # vs) by_id =
     (case v of
        PDict d \<Rightarrow> (case map_of d ''id'' of
            None \<Rightarrow> index_answers vs by_id
          | Some i \<Rightarrow> (case py_int i of
                Inr n \<Rightarrow> index_answers vs (AList.update n d by_id)
              | Inl e \<Rightarrow> if e \<in> {TypeError, ValueError} then index_answers vs by_id else Inl e))
      | _ \<Rightarrow> index_answers vs by_id)"

definition answer_for :: "(int \<times> pydict) list \<Rightarrow> int \<Rightarrow> rpc_result" where
  "answer_for by_id i = (case map_of by_id i of
       None \<Rightarrow> rpc_failed (PStr ''missing_batch_response'')
     | Some d \<Rightarrow> (case map_of d ''error'' of Some e \<Rightarrow> rpc_failed e | None \<Rightarrow> rpc_ok (dget d ''result'')))"

definition rate_limit_error :: "pyval \<Rightarrow> bool" where
  "rate_limit_error e = (case e of
       PDict d \<Rightarrow> (let m = lower (str_or_empty (dget d ''message'')) in
         num_eq (dget d ''code'') (PInt 429) \<or> num_eq (dget d ''code'') (PInt (- 32016)) \<or>
         contains ''rate limit'' m \<or> contains ''too many requests'' m)
     | _ \<Rightarrow> False)"

definition rate_limited :: "(int \<times> pydict) list \<Rightarrow> int \<Rightarrow> bool" where
  "rate_limited by_id i = (case map_of by_id i of
       None \<Rightarrow> False
     | Some d \<Rightarrow> (case map_of d ''error'' of None \<Rightarrow> False | Some e \<Rightarrow> rate_limit_error e))"

section \<open>Chunks\<close>

definition numbered :: "int \<Rightarrow> rpc_call list \<Rightarrow> rpc_request list" where
  "numbered last_id cs = map (\<lambda>(k, c). (last_id + 1 + int k, fst c, snd c)) (enumerate 0 cs)"

text \<open>Where a rate-limited chunk is cut, unless it is too small or was split too often already.\<close>

definition split_at_mid :: "rpc_limits \<Rightarrow> nat \<Rightarrow> rpc_call list \<Rightarrow> (rpc_call list \<times> rpc_call list) option" where
  "split_at_mid lim depth cs =
     (if length cs \<le> min_batch lim \<or> max_splits lim \<le> depth then None
      else let m0 = max (min_batch lim) (length cs div 2); m = (if length cs \<le> m0 then length cs div 2 else m0) in
        Some (take m cs, drop m cs))"

lemma split_smaller:
  assumes "split_at_mid lim depth cs = Some (l, r)"
  shows "length l < length cs" and "length r < length cs" and "cs = l @ r"
    and "length l + length r = length cs" and "depth < max_splits lim"
proof -
  have big: "min_batch lim < length cs" "depth < max_splits lim"
    using assms by (simp_all add: split_at_mid_def split: if_splits)
  have "1 \<le> min_batch lim" by (simp add: min_batch_def)
  define m where "m = (let m0 = max (min_batch lim) (length cs div 2) in if length cs \<le> m0 then length cs div 2 else m0)"
  have lr: "l = take m cs" "r = drop m cs"
    using assms big by (simp_all add: split_at_mid_def m_def Let_def)
  have "0 < m \<and> m < length cs"
  proof (cases "length cs \<le> max (min_batch lim) (length cs div 2)")
    case True
    with big \<open>1 \<le> min_batch lim\<close> show ?thesis by (simp add: m_def Let_def)
  next
    case False
    then have "m = max (min_batch lim) (length cs div 2)" by (simp add: m_def Let_def)
    with False \<open>1 \<le> min_batch lim\<close> show ?thesis by linarith
  qed
  then show "length l < length cs" "length r < length cs" "cs = l @ r" "length l + length r = length cs"
    "depth < max_splits lim" using lr big by auto
qed

text \<open>What the posted chunk came to: its results, single calls instead, or a rate limit with the results that
  stand if it is not split.\<close>

datatype chunk_outcome =
    Settled "rpc_result list res"
  | OneByOne
  | RateLimited "rpc_result list"

definition judge_chunk :: "rpc_limits \<Rightarrow> rpc_request list \<Rightarrow> http_answer \<Rightarrow> chunk_outcome" where
  "judge_chunk lim reqs answer =
     (case answer of
        HttpRaises e \<Rightarrow> Settled (Inl e)
      | HttpFails txt \<Rightarrow> Settled (Inr (map (\<lambda>_. rpc_failed (PStr txt)) reqs))
      | HttpNoJson s txt \<Rightarrow>
          if s = 429 then RateLimited (map (\<lambda>_. rpc_failed (status_error s)) reqs)
          else Settled (Inr (map (\<lambda>_. rpc_failed (if 400 \<le> s then status_error s else PStr txt)) reqs))
      | HttpJson s j \<Rightarrow>
          if s = 429 then RateLimited (map (\<lambda>_. rpc_failed (status_error s)) reqs)
          else (case j of
             PList vs \<Rightarrow> (case index_answers vs [] of
                 Inl e \<Rightarrow> Settled (Inl e)
               | Inr by_id \<Rightarrow>
                   let rs = map (\<lambda>q. answer_for by_id (fst q)) reqs in
                   if list_all (\<lambda>q. rate_limited by_id (fst q)) reqs \<and> min_batch lim < length reqs then RateLimited rs
                   else Settled (Inr rs))
           | _ \<Rightarrow> OneByOne))"

definition note_support :: "http_answer \<Rightarrow> rpc_client \<Rightarrow> rpc_client" where
  "note_support answer cl =
     (case answer of
        HttpJson s j \<Rightarrow>
          if s = 429 then cl
          else (case j of PList vs \<Rightarrow> if rc_batch_ok cl = None then cl\<lparr>rc_batch_ok := Some True\<rparr> else cl
                | _ \<Rightarrow> cl\<lparr>rc_batch_ok := Some False\<rparr>)
      | _ \<Rightarrow> cl)"

function send_chunk :: "rpc_limits \<Rightarrow> node \<Rightarrow> nat \<Rightarrow> rpc_call list \<Rightarrow> rpc_client \<Rightarrow> rpc_client \<times> rpc_result list res" where
  "send_chunk lim node depth cs cl =
     (let reqs = numbered (rc_last_id cl) cs;
          (cl1, answer) = post node (Many reqs) (cl\<lparr>rc_last_id := rc_last_id cl + int (length cs)\<rparr>);
          cl2 = note_support answer cl1 in
      case judge_chunk lim reqs answer of
        Settled rs \<Rightarrow> (cl2, rs)
      | OneByOne \<Rightarrow> rpc_calls node cs cl2
      | RateLimited rs \<Rightarrow>
          (case split_at_mid lim depth cs of
             None \<Rightarrow> (cl2, Inr rs)
           | Some (l, r) \<Rightarrow>
               (case send_chunk lim node (Suc depth) l cl2 of
                  (cl3, Inl e) \<Rightarrow> (cl3, Inl e)
                | (cl3, Inr ls) \<Rightarrow>
                    (case send_chunk lim node (Suc depth) r cl3 of (cl4, rs') \<Rightarrow> (cl4, rbind rs' (\<lambda>rs'. Inr (ls @ rs')))))))"
  by pat_completeness auto
termination by (relation "measure (\<lambda>(lim, node, depth, cs, cl). length cs)") (auto dest: split_smaller)

declare send_chunk.simps [simp del]

section \<open>Batches\<close>

function chunks_of :: "nat \<Rightarrow> 'a list \<Rightarrow> 'a list list" where
  "chunks_of n xs = (if xs = [] \<or> n = 0 then [] else take n xs # chunks_of n (drop n xs))"
  by pat_completeness auto
termination by (relation "measure (\<lambda>(n, xs). length xs)") auto

declare chunks_of.simps [simp del]

fun send_chunks :: "rpc_limits \<Rightarrow> node \<Rightarrow> rpc_call list list \<Rightarrow> rpc_client \<Rightarrow> rpc_client \<times> rpc_result list res" where
  "send_chunks lim node [] cl = (cl, Inr [])"
| "send_chunks lim node (c # cs) cl =
     (case send_chunk lim node 0 c cl of
        (cl1, Inl e) \<Rightarrow> (cl1, Inl e)
      | (cl1, Inr rs) \<Rightarrow> (case send_chunks lim node cs cl1 of (cl2, rest) \<Rightarrow> (cl2, rbind rest (\<lambda>rest. Inr (rs @ rest)))))"

definition after_first ::
    "(rpc_client \<Rightarrow> rpc_client \<times> rpc_result list res) \<Rightarrow> rpc_client \<times> rpc_result list res \<Rightarrow> rpc_client \<times> rpc_result list res" where
  "after_first next p = (case p of
       (cl, Inl e) \<Rightarrow> (cl, Inl e)
     | (cl, Inr rs) \<Rightarrow> (case next cl of (cl', rest) \<Rightarrow> (cl', rbind rest (\<lambda>rest. Inr (rs @ rest)))))"

definition batch :: "rpc_limits \<Rightarrow> node \<Rightarrow> rpc_call list \<Rightarrow> rpc_client \<Rightarrow> rpc_client \<times> rpc_result list res" where
  "batch lim node calls cl =
     (case chunks_of (nat (max 1 (rl_max_batch lim))) calls of
        [] \<Rightarrow> (cl, Inr [])
      | first # rest \<Rightarrow>
          (case rc_batch_ok cl of
             Some False \<Rightarrow> rpc_calls node (concat (first # rest)) cl
           | Some True \<Rightarrow> send_chunks lim node (first # rest) cl
           | None \<Rightarrow> after_first (\<lambda>cl1. if rc_batch_ok cl1 = Some False then rpc_calls node (concat rest) cl1
                 else send_chunks lim node rest cl1) (send_chunk lim node 0 first cl)))"

definition eth_call_batch :: "rpc_limits \<Rightarrow> node \<Rightarrow> pydict list \<Rightarrow> string \<Rightarrow> rpc_client \<Rightarrow> rpc_client \<times> rpc_result list res" where
  "eth_call_batch lim node objs block cl = batch lim node (map (\<lambda>o'. (''eth_call'', [PDict o', PStr block])) objs) cl"

section \<open>Requests are bounded\<close>

lemma posts_note [simp]: "rc_posts (note_support a cl) = rc_posts cl"
  by (auto simp: note_support_def split: http_answer.splits pyval.splits)

lemma calls_posts: "length (rc_posts (fst (rpc_calls node cs cl))) \<le> length (rc_posts cl) + length cs"
proof (induction cs arbitrary: cl)
  case (Cons c cs)
  obtain cl1 r where c: "rpc_call_one node c cl = (cl1, r)" by (cases "rpc_call_one node c cl")
  then have "length (rc_posts cl1) = length (rc_posts cl) + 1" by (auto simp: rpc_call_one_def post_def Let_def)
  with Cons.IH[of cl1] c show ?case by (cases r) (auto simp: case_prod_beta)
qed simp

lemma chunk_posts:
  "length (rc_posts (fst (send_chunk lim node depth cs cl))) + 1 \<le>
     length (rc_posts cl) + 2 ^ (Suc (max_splits lim) - depth) + length cs \<or> max_splits lim < depth"
proof (induction lim node depth cs cl rule: send_chunk.induct)
  case (1 lim node depth cs cl)
  show ?case
  proof (cases "max_splits lim < depth")
    case False
    let ?reqs = "numbered (rc_last_id cl) cs" and ?P = "\<lambda>x. length (rc_posts (fst x))"
    obtain cl1 answer where p: "post node (Many ?reqs) (cl\<lparr>rc_last_id := rc_last_id cl + int (length cs)\<rparr>) = (cl1, answer)"
      by (cases "post node (Many ?reqs) (cl\<lparr>rc_last_id := rc_last_id cl + int (length cs)\<rparr>)")
    let ?cl2 = "note_support answer cl1"
    have one: "length (rc_posts ?cl2) = length (rc_posts cl) + 1" using p by (auto simp: post_def)
    have e: "(2 :: nat) \<le> 2 ^ (Suc (max_splits lim) - depth)"
    proof -
      have "Suc (max_splits lim) - depth = Suc (max_splits lim - depth)" using False by simp
      then show ?thesis by simp
    qed
    have small: ?thesis if "?P (send_chunk lim node depth cs cl) \<le> length (rc_posts cl) + 1 + length cs"
      using that e by simp
    show ?thesis
    proof (cases "judge_chunk lim ?reqs answer")
      case (Settled rs)
      then show ?thesis using one p by (intro small) (simp add: send_chunk.simps)
    next
      case OneByOne
      then show ?thesis using one p calls_posts[of node cs ?cl2] by (intro small) (simp add: send_chunk.simps)
    next
      case (RateLimited rs)
      show ?thesis
      proof (cases "split_at_mid lim depth cs")
        case None
        then show ?thesis using one p RateLimited by (intro small) (simp add: send_chunk.simps)
      next
        case (Some lr)
        then obtain l r where lr: "split_at_mid lim depth cs = Some (l, r)" by (cases lr) auto
        note sp = split_smaller[OF lr]
        obtain cl3 ls where l3: "send_chunk lim node (Suc depth) l ?cl2 = (cl3, ls)" by (cases "send_chunk lim node (Suc depth) l ?cl2")
        have Suc: "Suc (max_splits lim) - depth = Suc (Suc (max_splits lim) - Suc depth)" using sp(5) by simp
        let ?h = "2 ^ (Suc (max_splits lim) - Suc depth) :: nat"
        have L: "length (rc_posts cl3) + 1 \<le> length (rc_posts ?cl2) + ?h + length l"
          using "1.IH"(1)[OF refl p[symmetric] refl refl RateLimited lr refl] sp(5) l3 by simp
        show ?thesis
        proof (cases ls)
          case (Inl x)
          then have "send_chunk lim node depth cs cl = (cl3, Inl x)"
            using p RateLimited lr l3 by (subst send_chunk.simps) simp
          then have "?P (send_chunk lim node depth cs cl) = length (rc_posts cl3)" by simp
          moreover have "1 \<le> ?h" by simp
          ultimately have "?P (send_chunk lim node depth cs cl) + 1 \<le> length (rc_posts cl) + 2 * ?h + length cs"
            using L one sp(4) by linarith
          then show ?thesis unfolding Suc by simp
        next
          case (Inr ls')
          have R: "?P (send_chunk lim node (Suc depth) r cl3) + 1 \<le> length (rc_posts cl3) + ?h + length r"
            using "1.IH"(2)[OF refl p[symmetric] refl refl RateLimited lr refl l3[symmetric] Inr] sp(5) by simp
          have "?P (send_chunk lim node depth cs cl) = ?P (send_chunk lim node (Suc depth) r cl3)"
            using p RateLimited lr l3 Inr by (subst send_chunk.simps) (simp add: case_prod_beta)
          then show ?thesis using L R one sp(4) unfolding Suc by simp
        qed
      qed
    qed
  qed simp
qed

text \<open>C12: the recovery from rate limits ends: whatever the node answers, sending a chunk returns after at most
  \<open>2 ^ (s + 1) - 1\<close> batch requests, where \<open>s \<le> 6\<close> is the configured number of splits, and one single call per
  entry of the chunk, instead of a retry storm.\<close>

theorem rate_limit_recovery_ends:
  "\<exists>cl' rs. send_chunk lim node 0 cs cl = (cl', rs) \<and>
     length (rc_posts cl') < length (rc_posts cl) + 2 ^ (max_splits lim + 1) + length cs \<and> max_splits lim \<le> 6"
proof -
  obtain cl' rs where e: "send_chunk lim node 0 cs cl = (cl', rs)" by (cases "send_chunk lim node 0 cs cl")
  from chunk_posts[of lim node 0 cs cl] e have "length (rc_posts cl') < length (rc_posts cl) + 2 ^ (max_splits lim + 1) + length cs"
    by simp
  moreover have "max_splits lim \<le> 6" by (simp add: max_splits_def)
  ultimately show ?thesis using e by blast
qed

section \<open>Answers go to their requests\<close>

definition answer_dict :: "int \<Rightarrow> pyval \<Rightarrow> pydict" where
  "answer_dict i v = [(''jsonrpc'', PStr ''2.0''), (''id'', PInt i), (''result'', v)]"

text \<open>A node that computes \<open>f\<close>: it answers a batch with one answer per request, in any order, or refuses it with
  status 429; it answers a single call.\<close>

definition serves :: "(rpc_call \<Rightarrow> pyval) \<Rightarrow> node \<Rightarrow> bool" where
  "serves f node \<longleftrightarrow>
     (\<forall>k q. node k (Single q) = HttpJson 200 (PDict (answer_dict (fst q) (f (snd q))))) \<and>
     (\<forall>k reqs. (\<exists>j. node k (Many reqs) = HttpJson 429 j) \<or> (\<exists>txt. node k (Many reqs) = HttpNoJson 429 txt) \<or>
        (\<exists>s ps. s \<noteq> 429 \<and> mset ps = mset (map (\<lambda>q. (fst q, f (snd q))) reqs) \<and>
           node k (Many reqs) = HttpJson s (PList (map (\<lambda>p. PDict (answer_dict (fst p) (snd p))) ps))))"

definition served :: "(rpc_call \<Rightarrow> pyval) \<Rightarrow> rpc_call \<Rightarrow> rpc_result \<Rightarrow> bool" where
  "served f c r \<longleftrightarrow> r = rpc_ok (f c) \<or> r = rpc_failed (status_error 429)"

lemma index_answer_dicts:
  "index_answers (map (\<lambda>p. PDict (answer_dict (fst p) (snd p))) ps) by_id =
     Inr (fold (\<lambda>p. AList.update (fst p) (answer_dict (fst p) (snd p))) ps by_id)"
  by (induction ps arbitrary: by_id) (simp_all add: answer_dict_def)

lemma map_of_fold_update:
  "distinct (map fst ps) \<Longrightarrow> p \<in> set ps \<or> (fst p \<notin> fst ` set ps \<and> map_of by_id (fst p) = Some (g p)) \<Longrightarrow>
   map_of (fold (\<lambda>p. AList.update (fst p) (g p)) ps by_id) (fst p) = Some (g p)"
  by (induction ps arbitrary: by_id) (auto simp: update_conv')

lemma numbered_snd: "map snd (numbered n cs) = cs"
proof -
  have "map snd (numbered n cs) = map snd (enumerate 0 cs)" by (simp add: numbered_def case_prod_unfold comp_def)
  then show ?thesis by simp
qed

lemma numbered_ids: "distinct (map fst (numbered n cs))"
proof -
  have "map fst (numbered n cs) = map (\<lambda>k. n + 1 + int k) [0..<length cs]"
    by (rule nth_equalityI) (simp_all add: numbered_def case_prod_unfold nth_enumerate_eq)
  then show ?thesis by (simp add: distinct_map inj_on_def)
qed

lemma length_numbered [simp]: "length (numbered n cs) = length cs"
  by (simp add: numbered_def)

lemma judge_served:
  assumes "serves f node"
  shows "(\<exists>rs. judge_chunk lim (numbered n cs) (node k (Many (numbered n cs))) = Settled (Inr rs) \<and> list_all2 (served f) cs rs) \<or>
     (\<exists>rs. judge_chunk lim (numbered n cs) (node k (Many (numbered n cs))) = RateLimited rs \<and> list_all2 (served f) cs rs)"
proof -
  let ?reqs = "numbered n cs" and ?a = "node k (Many (numbered n cs))"
  have limited: "list_all2 (served f) cs (map (\<lambda>_. rpc_failed (status_error 429)) ?reqs)"
    by (simp add: list_all2_conv_all_nth served_def)
  from assms consider (l) j where "?a = HttpJson 429 j" | (t) msg where "?a = HttpNoJson 429 msg"
    | (h) s ps where "s \<noteq> 429" "mset ps = mset (map (\<lambda>q. (fst q, f (snd q))) ?reqs)"
        "?a = HttpJson s (PList (map (\<lambda>p. PDict (answer_dict (fst p) (snd p))) ps))"
    unfolding serves_def by blast
  then show ?thesis
  proof cases
    case h
    define by_id where "by_id = fold (\<lambda>p. AList.update (fst p) (answer_dict (fst p) (snd p))) ps []"
    have ix: "index_answers (map (\<lambda>p. PDict (answer_dict (fst p) (snd p))) ps) [] = Inr by_id"
      by (simp add: index_answer_dicts by_id_def)
    have "mset (map fst ps) = mset (map fst ?reqs)" using h(2) by (metis (no_types, lifting) comp_def fst_conv map_map mset_map map_eq_conv)
    then have d: "distinct (map fst ps)" using numbered_ids[of n cs] by (metis mset_eq_imp_distinct_iff)
    have m: "map_of by_id (fst q) = Some (answer_dict (fst q) (f (snd q)))" if "q \<in> set ?reqs" for q
    proof -
      have "(fst q, f (snd q)) \<in> set ps" using that mset_eq_setD[OF h(2)] by auto
      with map_of_fold_update[OF d, of "(fst q, f (snd q))" "[]" "\<lambda>p. answer_dict (fst p) (snd p)"] show ?thesis
        by (simp add: by_id_def)
    qed
    have r: "answer_for by_id (fst q) = rpc_ok (f (snd q))" "\<not> rate_limited by_id (fst q)" if "q \<in> set ?reqs" for q
      using m[OF that] by (simp_all add: answer_for_def rate_limited_def answer_dict_def)
    have "map (\<lambda>q. answer_for by_id (fst q)) ?reqs = map (\<lambda>q. rpc_ok (f (snd q))) ?reqs" using r(1) by simp
    also have "\<dots> = map (rpc_ok \<circ> f) (map snd ?reqs)" by simp
    finally have rs: "map (\<lambda>q. answer_for by_id (fst q)) ?reqs = map (rpc_ok \<circ> f) cs" by (simp only: numbered_snd)
    have nl: "\<not> (list_all (\<lambda>q. rate_limited by_id (fst q)) ?reqs \<and> min_batch lim < length ?reqs)"
    proof
      assume a: "list_all (\<lambda>q. rate_limited by_id (fst q)) ?reqs \<and> min_batch lim < length ?reqs"
      then have "0 < length ?reqs" by linarith
      then have "hd ?reqs \<in> set ?reqs" by (intro hd_in_set) (metis length_greater_0_conv)
      with a r(2) show False unfolding list_all_iff by blast
    qed
    have "judge_chunk lim ?reqs ?a = Settled (Inr (map (rpc_ok \<circ> f) cs))"
      unfolding judge_chunk_def h(3) http_answer.case pyval.case ix sum.case Let_def rs using h(1) nl by simp
    moreover have "list_all2 (served f) cs (map (rpc_ok \<circ> f) cs)" by (simp add: list_all2_conv_all_nth served_def)
    ultimately show ?thesis by blast
  qed (use limited in \<open>simp_all add: judge_chunk_def\<close>)
qed

lemma calls_served:
  assumes "serves f node"
  shows "\<exists>cl' rs. rpc_calls node cs cl = (cl', Inr rs) \<and> list_all2 (served f) cs rs"
proof (induction cs arbitrary: cl)
  case (Cons c cs)
  obtain cl1 where c: "rpc_call_one node c cl = (cl1, Inr (rpc_ok (f c)))"
  proof -
    have "node (length (rc_posts cl)) (Single (rc_last_id cl + 1, c)) = HttpJson 200 (PDict (answer_dict (rc_last_id cl + 1) (f c)))"
      using assms unfolding serves_def by (metis fst_conv snd_conv)
    then show ?thesis by (intro that) (simp add: rpc_call_one_def post_def Let_def answer_dict_def read_single_def)
  qed
  obtain cl2 rs where "rpc_calls node cs cl1 = (cl2, Inr rs)" "list_all2 (served f) cs rs" using Cons.IH by blast
  moreover have "served f c (rpc_ok (f c))" by (simp add: served_def)
  ultimately show ?case using c by simp
qed simp

lemma chunk_served:
  assumes "serves f node"
  shows "\<exists>cl' rs. send_chunk lim node depth cs cl = (cl', Inr rs) \<and> list_all2 (served f) cs rs"
  using assms
proof (induction lim node depth cs cl rule: send_chunk.induct)
  case (1 lim node depth cs cl)
  let ?reqs = "numbered (rc_last_id cl) cs"
  let ?a = "node (length (rc_posts cl)) (Many ?reqs)"
  obtain cl1 where p: "post node (Many ?reqs) (cl\<lparr>rc_last_id := rc_last_id cl + int (length cs)\<rparr>) = (cl1, ?a)"
    by (simp add: post_def)
  let ?cl2 = "note_support ?a cl1"
  from judge_served[OF "1.prems", of lim "rc_last_id cl" cs "length (rc_posts cl)"] show ?case
  proof (elim disjE exE conjE)
    fix rs
    assume "judge_chunk lim ?reqs ?a = Settled (Inr rs)" "list_all2 (served f) cs rs"
    with p show ?thesis by (subst send_chunk.simps) simp
  next
    fix rs
    assume j: "judge_chunk lim ?reqs ?a = RateLimited rs" and rs: "list_all2 (served f) cs rs"
    show ?thesis
    proof (cases "split_at_mid lim depth cs")
      case None
      with p j rs show ?thesis by (subst send_chunk.simps) simp
    next
      case (Some lr)
      then obtain l r where lr: "split_at_mid lim depth cs = Some (l, r)" by (cases lr) auto
      obtain cl3 ls where L: "send_chunk lim node (Suc depth) l ?cl2 = (cl3, Inr ls)" "list_all2 (served f) l ls"
        using "1.IH"(1)[OF refl p[symmetric] refl refl j lr refl "1.prems"] by blast
      obtain cl4 rs' where R: "send_chunk lim node (Suc depth) r cl3 = (cl4, Inr rs')" "list_all2 (served f) r rs'"
        using "1.IH"(2)[OF refl p[symmetric] refl refl j lr refl L(1)[symmetric] refl "1.prems"] by blast
      have "send_chunk lim node depth cs cl = (cl4, Inr (ls @ rs'))" using p j lr L R by (subst send_chunk.simps) simp
      moreover have "list_all2 (served f) cs (ls @ rs')" using L(2) R(2) split_smaller(3)[OF lr] by (simp add: list_all2_appendI)
      ultimately show ?thesis by blast
    qed
  qed
qed

lemma chunks_served:
  "serves f node \<Longrightarrow> \<exists>cl' rs. send_chunks lim node css cl = (cl', Inr rs) \<and> list_all2 (served f) (concat css) rs"
proof (induction css arbitrary: cl)
  case (Cons cs css)
  obtain cl1 rs where 1: "send_chunk lim node 0 cs cl = (cl1, Inr rs)" "list_all2 (served f) cs rs"
    using chunk_served[OF Cons.prems] by blast
  obtain cl2 rest where 2: "send_chunks lim node css cl1 = (cl2, Inr rest)" "list_all2 (served f) (concat css) rest"
    using Cons by blast
  have "list_all2 (served f) (cs @ concat css) (rs @ rest)" by (rule list_all2_appendI[OF 1(2) 2(2)])
  with 1 2 show ?case by simp
qed simp

lemma concat_chunks_of: "0 < n \<Longrightarrow> concat (chunks_of n xs) = xs"
  by (induction n xs rule: chunks_of.induct) (subst chunks_of.simps, simp)

text \<open>C13: answers go to their requests: with a node that computes \<open>f\<close>, answers a batch in any order and refuses
  batches for their rate when it likes, a batch of calls comes back in the order of the calls, every entry
  either the value of \<open>f\<close> for the call at its place or the rate-limit error.\<close>

theorem batch_answers_in_order:
  assumes "serves f node"
  shows "\<exists>cl' rs. batch lim node calls cl = (cl', Inr rs) \<and> list_all2 (served f) calls rs"
proof (cases "chunks_of (nat (max 1 (rl_max_batch lim))) calls")
  case Nil
  then have "calls = []" using concat_chunks_of[of "nat (max 1 (rl_max_batch lim))" calls] by simp
  with Nil show ?thesis by (simp add: batch_def)
next
  case (Cons first rest)
  then have c: "calls = first @ concat rest" using concat_chunks_of[of "nat (max 1 (rl_max_batch lim))" calls] by simp
  consider (none) "rc_batch_ok cl = None" | (no) "rc_batch_ok cl = Some False" | (yes) "rc_batch_ok cl = Some True" by (metis not_Some_eq)
  then show ?thesis
  proof cases
    case none
    obtain cl1 rs where 1: "send_chunk lim node 0 first cl = (cl1, Inr rs)" "list_all2 (served f) first rs"
      using chunk_served[OF assms] by blast
    obtain cl2 more where 2: "(if rc_batch_ok cl1 = Some False then rpc_calls node (concat rest) cl1 else send_chunks lim node rest cl1) = (cl2, Inr more)"
      "list_all2 (served f) (concat rest) more"
      using calls_served[OF assms, of "concat rest" cl1] chunks_served[OF assms, of lim rest cl1] by (cases "rc_batch_ok cl1 = Some False") auto
    have "batch lim node calls cl = (cl2, Inr (rs @ more))" using Cons none 1(1) 2(1) by (simp add: batch_def after_first_def)
    moreover have "list_all2 (served f) calls (rs @ more)" unfolding c by (rule list_all2_appendI[OF 1(2) 2(2)])
    ultimately show ?thesis by blast
  next
    case no
    with Cons calls_served[OF assms, of calls cl] show ?thesis by (simp add: batch_def c)
  next
    case yes
    with Cons chunks_served[OF assms, of lim "first # rest" cl] show ?thesis by (simp add: batch_def c)
  qed
qed

definition demo_server :: node where
  "demo_server k body = (case body of
       Single q \<Rightarrow> HttpJson 200 (PDict (answer_dict (fst q) (PStr (fst (snd q)))))
     | Many reqs \<Rightarrow> if k = 0 then HttpNoJson 429 [] else
         HttpJson 200 (PList (map (\<lambda>p. PDict (answer_dict (fst p) (snd p))) (rev (map (\<lambda>q. (fst q, PStr (fst (snd q)))) reqs)))))"

theorem batch_answers_in_order_witness:
  "\<exists>cl' rs. batch \<lparr>rl_max_batch = 50, rl_min_batch = 1, rl_max_splits = 4\<rparr> demo_server [(''a'', []), (''b'', [])]
       \<lparr>rc_last_id = 0, rc_batch_ok = None, rc_posts = []\<rparr> = (cl', Inr rs) \<and> list_all2 (served (\<lambda>c. PStr (fst c))) [(''a'', []), (''b'', [])] rs"
proof (rule batch_answers_in_order)
  have "mset (rev (map (\<lambda>q. (fst q, PStr (fst (snd q)))) reqs)) = mset (map (\<lambda>q. (fst q, PStr (fst (snd q)))) reqs)" for reqs :: "rpc_request list"
    by simp
  moreover have "(200 :: int) \<noteq> 429" by simp
  ultimately show "serves (\<lambda>c. PStr (fst c)) demo_server"
    unfolding serves_def demo_server_def http_body.case by (metis (no_types, lifting))
qed


section \<open>When batching stops\<close>

lemma calls_singles:
  "rc_batch_ok (fst (rpc_calls node cs cl)) = rc_batch_ok cl \<and>
   (\<exists>qs. rc_posts (fst (rpc_calls node cs cl)) = rc_posts cl @ map Single qs)"
proof (induction cs arbitrary: cl)
  case Nil
  have "rc_posts cl = rc_posts cl @ map Single []" by simp
  then show ?case unfolding rpc_calls.simps fst_conv by blast
next
  case (Cons c cs)
  obtain cl1 r where c: "rpc_call_one node c cl = (cl1, r)" by (cases "rpc_call_one node c cl")
  then have 1: "rc_batch_ok cl1 = rc_batch_ok cl" "rc_posts cl1 = rc_posts cl @ map Single [(rc_last_id cl + 1, fst c, snd c)]"
    by (auto simp: rpc_call_one_def post_def Let_def)
  show ?case
  proof (cases r)
    case (Inl e)
    with c 1 show ?thesis by (simp only: rpc_calls.simps prod.case sum.case fst_conv) blast
  next
    case (Inr x)
    obtain qs where "rc_posts (fst (rpc_calls node cs cl1)) = rc_posts cl1 @ map Single qs" using Cons.IH[of cl1] by blast
    with 1 have "rc_posts (fst (rpc_calls node cs cl1)) = rc_posts cl @ map Single ((rc_last_id cl + 1, fst c, snd c) # qs)" by simp
    moreover have "fst (rpc_calls node (c # cs) cl) = fst (rpc_calls node cs cl1)" using c Inr by (simp add: case_prod_beta)
    ultimately show ?thesis using Cons.IH[of cl1] 1(1) by metis
  qed
qed

lemma stays_single:
  "rc_batch_ok cl = Some False \<Longrightarrow>
   rc_batch_ok (fst (batch lim node calls cl)) = Some False \<and>
   (\<exists>qs. rc_posts (fst (batch lim node calls cl)) = rc_posts cl @ map Single qs)"
proof (cases "chunks_of (nat (max 1 (rl_max_batch lim))) calls")
  case Nil
  assume "rc_batch_ok cl = Some False"
  moreover have "rc_posts cl = rc_posts cl @ map Single []" by simp
  ultimately show ?thesis using Nil unfolding batch_def by (simp only: list.case fst_conv) blast
next
  case (Cons first rest)
  assume "rc_batch_ok cl = Some False"
  with Cons calls_singles[of node "concat (first # rest)" cl] show ?thesis by (simp add: batch_def)
qed

text \<open>One answer that is not a list is enough to end batching for good: when the node answers the first batch with
  a single JSON object - as a rate-limiting node may, with status 200 - the entries of that batch are sent one by
  one, and so is every entry of every later batch.\<close>

theorem error_object_ends_batching:
  assumes "rc_batch_ok cl = None" "calls \<noteq> []" "s \<noteq> 429"
    and "node (length (rc_posts cl)) (Many (numbered (rc_last_id cl) (take (nat (max 1 (rl_max_batch lim))) calls))) = HttpJson s (PDict d)"
  shows "\<exists>qs. rc_posts (fst (batch lim node calls cl)) =
            rc_posts cl @ Many (numbered (rc_last_id cl) (take (nat (max 1 (rl_max_batch lim))) calls)) # map Single qs
       \<and> (\<forall>later. \<exists>qs'. rc_posts (fst (batch lim node later (fst (batch lim node calls cl)))) =
            rc_posts (fst (batch lim node calls cl)) @ map Single qs')"
proof -
  let ?n = "nat (max 1 (rl_max_batch lim))"
  let ?first = "take ?n calls" and ?rest = "chunks_of ?n (drop ?n calls)"
  let ?post = "Many (numbered (rc_last_id cl) ?first)"
  have ch: "chunks_of ?n calls = ?first # ?rest" using assms(2) by (subst chunks_of.simps) simp
  define cl0 where "cl0 = cl\<lparr>rc_last_id := rc_last_id cl + int (length ?first), rc_posts := rc_posts cl @ [?post], rc_batch_ok := Some False\<rparr>"
  have sent: "send_chunk lim node 0 ?first cl = rpc_calls node ?first cl0"
    using assms(3,4) by (subst send_chunk.simps) (simp add: post_def note_support_def judge_chunk_def cl0_def)
  have one: "rc_batch_ok cl0 = Some False" "rc_posts cl0 = rc_posts cl @ [?post]" by (simp_all add: cl0_def)
  obtain cl1 r where r: "rpc_calls node ?first cl0 = (cl1, r)" by (cases "rpc_calls node ?first cl0")
  with calls_singles[of node ?first cl0] one obtain qs where
    1: "rc_batch_ok cl1 = Some False" "rc_posts cl1 = rc_posts cl @ ?post # map Single qs" by auto
  let ?cl' = "fst (batch lim node calls cl)"
  have "rc_batch_ok ?cl' = Some False \<and> (\<exists>qs. rc_posts ?cl' = rc_posts cl @ ?post # map Single qs)"
  proof (cases r)
    case (Inl e)
    then have "?cl' = cl1" using assms(1) ch sent r by (simp add: batch_def after_first_def)
    with 1 show ?thesis by blast
  next
    case (Inr rs)
    then have "?cl' = fst (rpc_calls node (concat ?rest) cl1)"
      using assms(1) ch sent r 1(1) by (simp add: batch_def after_first_def case_prod_beta)
    moreover obtain qs' where "rc_posts (fst (rpc_calls node (concat ?rest) cl1)) = rc_posts cl1 @ map Single qs'"
      using calls_singles by blast
    ultimately have "rc_posts ?cl' = rc_posts cl @ ?post # map Single (qs @ qs')" using 1(2) by simp
    with \<open>?cl' = _\<close> calls_singles[of node "concat ?rest" cl1] 1(1) show ?thesis by metis
  qed
  with stays_single[of ?cl' lim node] show ?thesis by blast
qed

definition limiting_node :: node where
  "limiting_node k body = (case body of
       Single q \<Rightarrow> HttpJson 200 (PDict (answer_dict (fst q) (PStr ''0x'')))
     | Many reqs \<Rightarrow> HttpJson 200 (PDict [(''error'', PDict [(''code'', PInt (- 32016)), (''message'', PStr ''rate limit'')])]))"

theorem error_object_ends_batching_witness:
  "\<exists>qs. rc_posts (fst (batch \<lparr>rl_max_batch = 50, rl_min_batch = 8, rl_max_splits = 4\<rparr> limiting_node [(''a'', []), (''b'', [])]
          \<lparr>rc_last_id = 0, rc_batch_ok = None, rc_posts = []\<rparr>)) = Many [(1, ''a'', []), (2, ''b'', [])] # map Single qs"
  using error_object_ends_batching[of "\<lparr>rc_last_id = 0, rc_batch_ok = None, rc_posts = []\<rparr>" "[(''a'', []), (''b'', [])]" 200
      limiting_node "\<lparr>rl_max_batch = 50, rl_min_batch = 8, rl_max_splits = 4\<rparr>"
      "[(''error'', PDict [(''code'', PInt (- 32016)), (''message'', PStr ''rate limit'')])]"]
  by (auto simp: limiting_node_def numbered_def)

end
