(* ===== verification/Quote_Adapters.thy ===== *)
theory Quote_Adapters
  imports Balancer_Quote
begin

text \<open>
  The other quote adapters: constant product and Camelot V2 routers (\<open>getAmountsOut\<close>), Aerodrome routes,
  Uniswap V3, Slipstream and Camelot Algebra quoters (\<open>quoteExactInputSingle\<close>), and Curve pools with their
  fall-back from one flavour of \<open>get_dy\<close> to the other. Each adapter has its request, its decoder, a single
  and a batch form. The RPC client is a parameter: \<open>eth_call\<close> maps an address and call data to an answer,
  \<open>eth_call_batch\<close> a list of call objects to a list of answers.
\<close>

type_synonym single_call = "string \<Rightarrow> string \<Rightarrow> rpc_result"
type_synonym batch_call = "pyval list \<Rightarrow> rpc_result list"

definition call_object :: "string \<Rightarrow> string \<Rightarrow> pyval" where
  "call_object to data = PDict [(''to'', PStr to), (''data'', PStr data)]"

section \<open>Reading answers\<close>

text \<open>\<open>bytes.fromhex\<close> of a text result, with or without its prefix.\<close>

definition result_bytes :: "pyval \<Rightarrow> bytes option" where
  "result_bytes v = (case v of PStr s \<Rightarrow> fromhex (abi_strip_0x s) | _ \<Rightarrow> None)"

definition second_amount :: "bytes \<Rightarrow> nat option" where
  "second_amount raw =
     (let offset = from_be (take 32 raw) in
      if length raw < offset + 96 then None
      else if from_be (take 32 (drop offset raw)) < 2 \<or> length raw < offset + 96 then None
      else Some (from_be (take 32 (drop (offset + 64) raw))))"

definition positive :: "nat option \<Rightarrow> nat option" where
  "positive amount = (case amount of Some n \<Rightarrow> if 0 < n then Some n else None | None \<Rightarrow> None)"

text \<open>The body of the loops: a failed call, an answer that does not parse, a quote.\<close>

definition answer_with ::
    "(pyval \<Rightarrow> 'q option) \<Rightarrow> string \<Rightarrow> rpc_result \<Rightarrow> quote_diag option \<Rightarrow> 'q option \<times> quote_diag option" where
  "answer_with parse reason r diag =
     (if \<not> rr_ok r then (None, record_quote_failure (classify_quote_error (rr_error r)) diag)
      else (case parse (rr_result r) of
          None \<Rightarrow> (None, record_quote_parse_failure reason diag)
        | Some q \<Rightarrow> (Some q, diag)))"

fun each :: "('x \<Rightarrow> 'd \<Rightarrow> 'q option \<times> 'd) \<Rightarrow> 'x list \<Rightarrow> 'd \<Rightarrow> 'q option list \<times> 'd" where
  "each answer [] diag = ([], diag)"
| "each answer (x # xs) diag =
     (case answer x diag of (q, diag1) \<Rightarrow> (case each answer xs diag1 of (qs, diag2) \<Rightarrow> (q # qs, diag2)))"

text \<open>\<open>except (TypeError, ValueError)\<close> around the building of a request.\<close>

definition request_caught :: "pyerr \<Rightarrow> bool" where
  "request_caught e = (e \<in> {TypeError, ValueError})"

section \<open>Constant product routers\<close>

definition constant_product_calldata :: "(bytes \<Rightarrow> bytes) \<Rightarrow> string \<Rightarrow> string \<Rightarrow> int \<Rightarrow> string res" where
  "constant_product_calldata kec token_in token_out amount_in =
     rbind (enc_uint amount_in) (\<lambda>n. rbind (enc_uint 64) (\<lambda>off. rbind (enc_uint 2) (\<lambda>len.
     rbind (enc_address token_in) (\<lambda>ti. rbind (enc_address token_out) (\<lambda>to'.
     Inr (''0x'' @ hex_of (selector kec ''getAmountsOut(uint256,address[])'' @ n @ off @ len @ ti @ to')))))))"

definition constant_product_parse :: "pyval \<Rightarrow> nat option" where
  "constant_product_parse v = (case result_bytes v of None \<Rightarrow> None
     | Some raw \<Rightarrow> if length raw < 128 then None else positive (second_amount raw))"

definition quote_constant_product ::
    "(bytes \<Rightarrow> bytes) \<Rightarrow> single_call \<Rightarrow> string \<Rightarrow> string \<Rightarrow> string \<Rightarrow> int \<Rightarrow> quote_diag option
     \<Rightarrow> (nat option \<times> quote_diag option) res" where
  "quote_constant_product kec eth_call router token_in token_out amount_in diag =
     (case constant_product_calldata kec token_in token_out amount_in of
        Inl e \<Rightarrow> if request_caught e then Inr (None, record_quote_parse_failure ''invalid_constant_product_request'' diag) else Inl e
      | Inr data \<Rightarrow> Inr (answer_with constant_product_parse ''invalid_quote_result'' (eth_call router data) diag))"

definition quote_constant_product_many ::
    "(bytes \<Rightarrow> bytes) \<Rightarrow> batch_call \<Rightarrow> string \<Rightarrow> (string \<times> string \<times> int) list \<Rightarrow> quote_diag option
     \<Rightarrow> (nat option list \<times> quote_diag option) res" where
  "quote_constant_product_many kec eth_call_batch router reqs diag =
     (if reqs = [] then Inr ([], diag)
      else rbind (mapr (\<lambda>(a, b, n). rbind (constant_product_calldata kec a b n) (\<lambda>data. Inr (call_object router data))) reqs) (\<lambda>calls.
        Inr (each (answer_with constant_product_parse ''invalid_quote_result'') (eth_call_batch calls) diag)))"

section \<open>Camelot V2 routers\<close>

definition camelot_v2_calldata :: "(bytes \<Rightarrow> bytes) \<Rightarrow> string \<Rightarrow> string \<Rightarrow> int \<Rightarrow> string res" where
  "camelot_v2_calldata kec token_in token_out amount_in =
     rbind (enc_uint amount_in) (\<lambda>n. rbind (enc_uint 64) (\<lambda>off. rbind (enc_uint 2) (\<lambda>len.
     rbind (enc_address token_in) (\<lambda>ti. rbind (enc_address token_out) (\<lambda>to'.
     Inr (''0x'' @ hex_of (selector kec ''getAmountsOut(uint256,address[])'' @ n @ off @ len @ ti @ to')))))))"

definition camelot_v2_parse :: "pyval \<Rightarrow> nat option" where
  "camelot_v2_parse v = (case result_bytes v of None \<Rightarrow> None
     | Some raw \<Rightarrow> if length raw < 96 then None else positive (second_amount raw))"

definition quote_camelot_v2 ::
    "(bytes \<Rightarrow> bytes) \<Rightarrow> single_call \<Rightarrow> string \<Rightarrow> string \<Rightarrow> string \<Rightarrow> int \<Rightarrow> quote_diag option
     \<Rightarrow> (nat option \<times> quote_diag option) res" where
  "quote_camelot_v2 kec eth_call router token_in token_out amount_in diag =
     (case camelot_v2_calldata kec token_in token_out amount_in of
        Inl e \<Rightarrow> if request_caught e then Inr (None, record_quote_parse_failure ''invalid_camelot_v2_request'' diag) else Inl e
      | Inr data \<Rightarrow> Inr (answer_with camelot_v2_parse ''invalid_quote_result'' (eth_call router data) diag))"

definition quote_camelot_v2_many ::
    "(bytes \<Rightarrow> bytes) \<Rightarrow> batch_call \<Rightarrow> string \<Rightarrow> (string \<times> string \<times> int) list \<Rightarrow> quote_diag option
     \<Rightarrow> (nat option list \<times> quote_diag option) res" where
  "quote_camelot_v2_many kec eth_call_batch router reqs diag =
     (if reqs = [] then Inr ([], diag)
      else rbind (mapr (\<lambda>(a, b, n). rbind (camelot_v2_calldata kec a b n) (\<lambda>data. Inr (call_object router data))) reqs) (\<lambda>calls.
        Inr (each (answer_with camelot_v2_parse ''invalid_quote_result'') (eth_call_batch calls) diag)))"

section \<open>Aerodrome routes\<close>

record aerodrome_quote =
  aq_amount_out :: nat
  aq_stable :: bool
  aq_factory :: string

type_synonym aerodrome_req = "string \<times> string \<times> int \<times> bool \<times> string"

definition aerodrome_calldata :: "(bytes \<Rightarrow> bytes) \<Rightarrow> string \<Rightarrow> string \<Rightarrow> bool \<Rightarrow> string \<Rightarrow> int \<Rightarrow> string res" where
  "aerodrome_calldata kec token_in token_out is_stable factory amount_in =
     rbind (enc_address token_in) (\<lambda>ti. rbind (enc_address token_out) (\<lambda>to'. rbind (enc_bool is_stable) (\<lambda>s.
     rbind (enc_address factory) (\<lambda>f.
     rbind (enc_uint amount_in) (\<lambda>n. rbind (enc_uint 64) (\<lambda>off. rbind (enc_uint 1) (\<lambda>len.
     Inr (''0x'' @ hex_of (selector kec ''getAmountsOut(uint256,(address,address,bool,address)[])'' @ n @ off @ len
       @ (ti @ to' @ s @ f))))))))))"

definition aerodrome_parse :: "pyval \<Rightarrow> nat option" where
  "aerodrome_parse v = (case result_bytes v of None \<Rightarrow> None
     | Some raw \<Rightarrow> if length raw < 96 then None else second_amount raw)"

definition aerodrome_answer ::
    "bool \<Rightarrow> string \<Rightarrow> rpc_result \<Rightarrow> quote_diag option \<Rightarrow> aerodrome_quote option \<times> quote_diag option" where
  "aerodrome_answer is_stable factory r diag =
     (case answer_with aerodrome_parse ''invalid_quote_result'' r diag of
        (None, diag') \<Rightarrow> (None, diag')
      | (Some out, diag') \<Rightarrow>
          if out = 0 then (None, record_quote_failure ''zero_output'' diag')
          else (Some \<lparr>aq_amount_out = out, aq_stable = is_stable, aq_factory = factory\<rparr>, diag'))"

definition quote_aerodrome ::
    "(bytes \<Rightarrow> bytes) \<Rightarrow> single_call \<Rightarrow> string \<Rightarrow> aerodrome_req \<Rightarrow> quote_diag option
     \<Rightarrow> (aerodrome_quote option \<times> quote_diag option) res" where
  "quote_aerodrome kec eth_call router req diag =
     (case req of (token_in, token_out, amount_in, is_stable, factory) \<Rightarrow>
        rbind (aerodrome_calldata kec token_in token_out is_stable factory amount_in) (\<lambda>data.
        Inr (aerodrome_answer is_stable factory (eth_call router data) diag)))"

definition aerodrome_slot :: "aerodrome_req \<times> rpc_result \<Rightarrow> quote_diag option \<Rightarrow> aerodrome_quote option \<times> quote_diag option" where
  "aerodrome_slot x diag = (case x of ((a, b, n, s, f), r) \<Rightarrow> aerodrome_answer s f r diag)"

definition quote_aerodrome_many ::
    "(bytes \<Rightarrow> bytes) \<Rightarrow> batch_call \<Rightarrow> string \<Rightarrow> aerodrome_req list \<Rightarrow> quote_diag option
     \<Rightarrow> (aerodrome_quote option list \<times> quote_diag option) res" where
  "quote_aerodrome_many kec eth_call_batch router reqs diag =
     (if reqs = [] then Inr ([], diag)
      else rbind (mapr (\<lambda>(a, b, n, s, f). rbind (aerodrome_calldata kec a b s f n) (\<lambda>data. Inr (call_object router data))) reqs) (\<lambda>calls.
        Inr (each aerodrome_slot (zip reqs (eth_call_batch calls)) diag)))"

section \<open>Uniswap V3\<close>

record univ3_quote =
  uq_amount_out :: nat
  uq_gas_estimate :: nat

type_synonym univ3_req = "string \<times> string \<times> int \<times> int \<times> int"

definition UNIV3_SIG :: string where
  "UNIV3_SIG = ''quoteExactInputSingle((address,address,uint256,uint24,uint160))''"

definition build_quote_exact_input_single_calldata :: "(bytes \<Rightarrow> bytes) \<Rightarrow> univ3_req \<Rightarrow> string res" where
  "build_quote_exact_input_single_calldata kec req =
     (case req of (token_in, token_out, fee, amount_in, sqrt_price_limit_x96) \<Rightarrow>
        rbind (enc_address token_in) (\<lambda>ti. rbind (enc_address token_out) (\<lambda>to'. rbind (enc_uint amount_in) (\<lambda>n.
        rbind (enc_uint fee) (\<lambda>f. rbind (enc_uint sqrt_price_limit_x96) (\<lambda>l.
        Inr (''0x'' @ hex_of (selector kec UNIV3_SIG @ ti @ to' @ n @ f @ l))))))))"

definition univ3_words :: "bytes \<Rightarrow> univ3_quote option" where
  "univ3_words raw =
     (if length raw < 32 * 4 then None
      else Some \<lparr>uq_amount_out = from_be (take 32 raw), uq_gas_estimate = from_be (take 32 (drop 96 raw))\<rparr>)"

definition univ3_answer :: "rpc_result \<Rightarrow> quote_diag option \<Rightarrow> univ3_quote option \<times> quote_diag option" where
  "univ3_answer r diag =
     (if \<not> rr_ok r then (None, record_quote_failure (classify_quote_error (rr_error r)) diag)
      else if \<not> is_str (rr_result r) then (None, record_quote_parse_failure ''invalid_rpc_result'' diag)
      else (case result_bytes (rr_result r) of
          None \<Rightarrow> (None, record_quote_parse_failure ''invalid_hex_result'' diag)
        | Some raw \<Rightarrow> (case univ3_words raw of
              None \<Rightarrow> (None, record_quote_parse_failure ''short_quote_result'' diag)
            | Some q \<Rightarrow> (Some q, diag))))"

definition quote_exact_input_single ::
    "(bytes \<Rightarrow> bytes) \<Rightarrow> single_call \<Rightarrow> string \<Rightarrow> univ3_req \<Rightarrow> quote_diag option
     \<Rightarrow> (univ3_quote option \<times> quote_diag option) res" where
  "quote_exact_input_single kec eth_call quoter_v2 req diag =
     rbind (build_quote_exact_input_single_calldata kec req) (\<lambda>data. Inr (univ3_answer (eth_call quoter_v2 data) diag))"

text \<open>The parser of the batch raises on malformed hex; the loop catches it, so both give no quote.\<close>

definition parse_quote_exact_input_single_result :: "pyval \<Rightarrow> univ3_quote option res" where
  "parse_quote_exact_input_single_result v =
     (case v of
        PStr s \<Rightarrow> rbind (fromhex_res (abi_strip_0x s)) (\<lambda>raw. Inr (univ3_words raw))
      | _ \<Rightarrow> Inr None)"

definition univ3_batch_answer :: "rpc_result \<Rightarrow> quote_diag option \<Rightarrow> univ3_quote option \<times> quote_diag option" where
  "univ3_batch_answer r diag =
     (if \<not> rr_ok r then (None, record_quote_failure (classify_quote_error (rr_error r)) diag)
      else if \<not> is_str (rr_result r) then (None, record_quote_parse_failure ''invalid_rpc_result'' diag)
      else (case parse_quote_exact_input_single_result (rr_result r) of
          Inr (Some q) \<Rightarrow> (Some q, diag)
        | _ \<Rightarrow> (None, record_quote_parse_failure ''invalid_quote_result'' diag)))"

definition quote_exact_input_single_batch ::
    "(bytes \<Rightarrow> bytes) \<Rightarrow> batch_call \<Rightarrow> string \<Rightarrow> univ3_req list \<Rightarrow> quote_diag option
     \<Rightarrow> (univ3_quote option list \<times> quote_diag option) res" where
  "quote_exact_input_single_batch kec eth_call_batch quoter_v2 reqs diag =
     rbind (mapr (\<lambda>req. rbind (build_quote_exact_input_single_calldata kec req) (\<lambda>data. Inr (call_object quoter_v2 data))) reqs) (\<lambda>calls.
       Inr (each univ3_batch_answer (eth_call_batch calls) diag))"

section \<open>Slipstream\<close>

record slipstream_quote =
  sq_amount_out :: nat
  sq_gas_estimate :: nat
  sq_tick_spacing :: int

text \<open>Token in, token out, tick spacing, amount in.\<close>

type_synonym slipstream_req = "string \<times> string \<times> int \<times> int"

definition SLIPSTREAM_SIG :: string where
  "SLIPSTREAM_SIG = ''quoteExactInputSingle((address,address,uint256,int24,uint160))''"

definition enc_tick_spacing :: "int \<Rightarrow> bytes res" where
  "enc_tick_spacing n =
     (if n < - (2 ^ 23) \<or> 2 ^ 23 \<le> n then Inl ValueError
      else enc_uint (if 0 \<le> n then n else 2 ^ 256 + n))"

definition slipstream_calldata :: "(bytes \<Rightarrow> bytes) \<Rightarrow> slipstream_req \<Rightarrow> string res" where
  "slipstream_calldata kec req =
     (case req of (token_in, token_out, tick_spacing, amount_in) \<Rightarrow>
        rbind (enc_address token_in) (\<lambda>ti. rbind (enc_address token_out) (\<lambda>to'. rbind (enc_uint amount_in) (\<lambda>n.
        rbind (enc_tick_spacing tick_spacing) (\<lambda>t. rbind (enc_uint 0) (\<lambda>l.
        Inr (''0x'' @ hex_of (selector kec SLIPSTREAM_SIG @ ti @ to' @ n @ t @ l))))))))"

definition slipstream_parse :: "int \<Rightarrow> pyval \<Rightarrow> slipstream_quote option" where
  "slipstream_parse tick_spacing v = (case result_bytes v of None \<Rightarrow> None
     | Some raw \<Rightarrow>
         if length raw < 128 then None
         else if from_be (take 32 raw) = 0 then None
         else Some \<lparr>sq_amount_out = from_be (take 32 raw), sq_gas_estimate = from_be (take 32 (drop 96 raw)),
                    sq_tick_spacing = tick_spacing\<rparr>)"

definition tick_of :: "slipstream_req \<Rightarrow> int" where
  "tick_of req = (case req of (token_in, token_out, tick_spacing, amount_in) \<Rightarrow> tick_spacing)"

definition quote_slipstream ::
    "(bytes \<Rightarrow> bytes) \<Rightarrow> single_call \<Rightarrow> string \<Rightarrow> slipstream_req \<Rightarrow> quote_diag option
     \<Rightarrow> (slipstream_quote option \<times> quote_diag option) res" where
  "quote_slipstream kec eth_call quoter_v2 req diag =
     (case slipstream_calldata kec req of
        Inl e \<Rightarrow> if request_caught e then Inr (None, record_quote_parse_failure ''invalid_tick_spacing'' diag) else Inl e
      | Inr data \<Rightarrow> Inr (answer_with (slipstream_parse (tick_of req)) ''invalid_quote_result'' (eth_call quoter_v2 data) diag))"

definition slipstream_call :: "(bytes \<Rightarrow> bytes) \<Rightarrow> string \<Rightarrow> slipstream_req \<Rightarrow> pyval option res" where
  "slipstream_call kec quoter_v2 req =
     (case slipstream_calldata kec req of
        Inl e \<Rightarrow> if request_caught e then Inr None else Inl e
      | Inr data \<Rightarrow> Inr (Some (call_object quoter_v2 data)))"

fun somes :: "'a option list \<Rightarrow> 'a list" where
  "somes [] = []"
| "somes (None # xs) = somes xs"
| "somes (Some x # xs) = x # somes xs"

text \<open>The loop over requests and calls; the answers are taken in order for the calls that were made.\<close>

fun slipstream_results ::
    "(slipstream_req \<times> pyval option) list \<Rightarrow> rpc_result list \<Rightarrow> quote_diag option
     \<Rightarrow> (slipstream_quote option list \<times> quote_diag option) res" where
  "slipstream_results [] results diag = Inr ([], diag)"
| "slipstream_results ((req, None) # rest) results diag =
     rbind (slipstream_results rest results (record_quote_parse_failure ''invalid_tick_spacing'' diag)) (\<lambda>(qs, diag').
       Inr (None # qs, diag'))"
| "slipstream_results ((req, Some call) # rest) [] diag = Inl IndexError"
| "slipstream_results ((req, Some call) # rest) (r # results) diag =
     (case answer_with (slipstream_parse (tick_of req)) ''invalid_quote_result'' r diag of (q, diag1) \<Rightarrow>
        rbind (slipstream_results rest results diag1) (\<lambda>(qs, diag'). Inr (q # qs, diag')))"

definition quote_slipstream_many ::
    "(bytes \<Rightarrow> bytes) \<Rightarrow> batch_call \<Rightarrow> string \<Rightarrow> slipstream_req list \<Rightarrow> quote_diag option
     \<Rightarrow> (slipstream_quote option list \<times> quote_diag option) res" where
  "quote_slipstream_many kec eth_call_batch quoter_v2 reqs diag =
     (if reqs = [] then Inr ([], diag)
      else rbind (mapr (slipstream_call kec quoter_v2) reqs) (\<lambda>calls.
        let valid_calls = somes calls;
            results = (if valid_calls = [] then [] else eth_call_batch valid_calls) in
        slipstream_results (zip reqs calls) results diag))"

section \<open>Camelot Algebra\<close>

record algebra_quote =
  gq_amount_out :: nat
  gq_fee :: nat
  gq_gas_estimate :: nat

definition ALGEBRA_SIG :: string where
  "ALGEBRA_SIG = ''quoteExactInputSingle((address,address,uint256,uint160))''"

definition algebra_calldata :: "(bytes \<Rightarrow> bytes) \<Rightarrow> string \<Rightarrow> string \<Rightarrow> int \<Rightarrow> int \<Rightarrow> string res" where
  "algebra_calldata kec token_in token_out amount_in limit_sqrt_price_x96 =
     rbind (enc_address token_in) (\<lambda>ti. rbind (enc_address token_out) (\<lambda>to'. rbind (enc_uint amount_in) (\<lambda>n.
     rbind (enc_uint limit_sqrt_price_x96) (\<lambda>l.
     Inr (''0x'' @ hex_of (selector kec ALGEBRA_SIG @ ti @ to' @ n @ l))))))"

definition algebra_parse :: "pyval \<Rightarrow> algebra_quote option" where
  "algebra_parse v = (case result_bytes v of None \<Rightarrow> None
     | Some raw \<Rightarrow>
         if length raw < 128 then None
         else if from_be (take 32 raw) = 0 then None
         else Some \<lparr>gq_amount_out = from_be (take 32 raw), gq_fee = from_be (take 32 (drop 32 raw)),
                    gq_gas_estimate = from_be (take 32 (drop 96 raw))\<rparr>)"

definition quote_camelot_algebra ::
    "(bytes \<Rightarrow> bytes) \<Rightarrow> single_call \<Rightarrow> string \<Rightarrow> string \<Rightarrow> string \<Rightarrow> int \<Rightarrow> quote_diag option
     \<Rightarrow> (algebra_quote option \<times> quote_diag option) res" where
  "quote_camelot_algebra kec eth_call quoter_v2 token_in token_out amount_in diag =
     (case algebra_calldata kec token_in token_out amount_in 0 of
        Inl e \<Rightarrow> if request_caught e then Inr (None, record_quote_parse_failure ''invalid_camelot_algebra_request'' diag) else Inl e
      | Inr data \<Rightarrow> Inr (answer_with algebra_parse ''invalid_camelot_algebra_quote'' (eth_call quoter_v2 data) diag))"

text \<open>The batch hands over the call data alone, where the other adapters hand over call objects.\<close>

definition quote_camelot_algebra_many ::
    "(bytes \<Rightarrow> bytes) \<Rightarrow> batch_call \<Rightarrow> string \<Rightarrow> (string \<times> string \<times> int) list \<Rightarrow> quote_diag option
     \<Rightarrow> (algebra_quote option list \<times> quote_diag option) res" where
  "quote_camelot_algebra_many kec eth_call_batch quoter_v2 reqs diag =
     (if reqs = [] then Inr ([], diag)
      else rbind (mapr (\<lambda>(a, b, n). rbind (algebra_calldata kec a b n 0) (\<lambda>data. Inr (PStr data))) reqs) (\<lambda>calls.
        Inr (each (answer_with algebra_parse ''invalid_camelot_algebra_quote'') (eth_call_batch calls) diag)))"

section \<open>Curve\<close>

record curve_quote =
  cq_amount_out :: nat
  cq_used_underlying :: bool

text \<open>Pool, indices, amount in, flavour to prefer.\<close>

type_synonym curve_req = "string \<times> int \<times> int \<times> int \<times> bool"

record curve_diag = quote_diag +
  qd_fallback_successes :: nat

definition curve_sig :: "bool \<Rightarrow> string" where
  "curve_sig underlying =
     (if underlying then ''get_dy_underlying(int128,int128,uint256)'' else ''get_dy(int128,int128,uint256)'')"

definition build_curve_quote_calldata :: "(bytes \<Rightarrow> bytes) \<Rightarrow> int \<Rightarrow> int \<Rightarrow> int \<Rightarrow> bool \<Rightarrow> string res" where
  "build_curve_quote_calldata kec i j dx underlying =
     rbind (enc_int i) (\<lambda>wi. rbind (enc_int j) (\<lambda>wj. rbind (enc_uint dx) (\<lambda>wx.
     Inr (''0x'' @ hex_of (selector kec (curve_sig underlying) @ wi @ wj @ wx)))))"

definition curve_word :: "bytes \<Rightarrow> nat option" where
  "curve_word raw = (if length raw < 32 then None else Some (from_be (take 32 raw)))"

definition curve_answer :: "rpc_result \<Rightarrow> curve_diag option \<Rightarrow> nat option \<times> curve_diag option" where
  "curve_answer r diag =
     (if \<not> rr_ok r then (None, record_quote_failure (classify_quote_error (rr_error r)) diag)
      else if \<not> is_str (rr_result r) then (None, record_quote_parse_failure ''invalid_rpc_result'' diag)
      else (case result_bytes (rr_result r) of
          None \<Rightarrow> (None, record_quote_parse_failure ''invalid_hex_result'' diag)
        | Some raw \<Rightarrow> (case curve_word raw of
              None \<Rightarrow> (None, record_quote_parse_failure ''short_quote_result'' diag)
            | Some n \<Rightarrow> (Some n, diag))))"

definition curve_call ::
    "(bytes \<Rightarrow> bytes) \<Rightarrow> single_call \<Rightarrow> string \<Rightarrow> int \<Rightarrow> int \<Rightarrow> int \<Rightarrow> bool \<Rightarrow> curve_diag option
     \<Rightarrow> (nat option \<times> curve_diag option) res" where
  "curve_call kec eth_call pool i j dx underlying diag =
     rbind (build_curve_quote_calldata kec i j dx underlying) (\<lambda>data. Inr (curve_answer (eth_call pool data) diag))"

definition quote_curve ::
    "(bytes \<Rightarrow> bytes) \<Rightarrow> single_call \<Rightarrow> curve_req \<Rightarrow> curve_diag option \<Rightarrow> (curve_quote option \<times> curve_diag option) res" where
  "quote_curve kec eth_call req diag =
     (case req of (pool, i, j, amount_in, pref) \<Rightarrow>
        rbind (curve_call kec eth_call pool i j amount_in pref diag) (\<lambda>(out, diag1).
        case out of
          Some n \<Rightarrow> Inr (Some \<lparr>cq_amount_out = n, cq_used_underlying = pref\<rparr>, diag1)
        | None \<Rightarrow>
            rbind (curve_call kec eth_call pool i j amount_in (\<not> pref) diag1) (\<lambda>(out2, diag2).
            Inr (map_option (\<lambda>n. \<lparr>cq_amount_out = n, cq_used_underlying = (\<not> pref)\<rparr>) out2, diag2))))"

definition parse_curve_quote_result :: "pyval \<Rightarrow> nat option res" where
  "parse_curve_quote_result v =
     (case v of
        PStr s \<Rightarrow> rbind (fromhex_res (abi_strip_0x s)) (\<lambda>raw. Inr (curve_word raw))
      | _ \<Rightarrow> Inr None)"

text \<open>\<open>if rr.ok and isinstance(rr.result, str)\<close> with the amount, \<open>None\<close> where the loop records a failure.\<close>

definition curve_amount :: "rpc_result \<Rightarrow> nat option" where
  "curve_amount r =
     (if rr_ok r \<and> is_str (rr_result r) then
        (case parse_curve_quote_result (rr_result r) of Inr amt \<Rightarrow> amt | Inl e \<Rightarrow> None)
      else None)"

definition curve_failure :: "rpc_result \<Rightarrow> curve_diag option \<Rightarrow> curve_diag option" where
  "curve_failure r diag =
     (if \<not> rr_ok r then record_quote_failure (classify_quote_error (rr_error r)) diag
      else if \<not> is_str (rr_result r) then record_quote_parse_failure ''invalid_rpc_result'' diag
      else record_quote_parse_failure ''invalid_quote_result'' diag)"

definition req_prefers :: "curve_req \<Rightarrow> bool" where
  "req_prefers req = (case req of (pool, i, j, dx, pref) \<Rightarrow> pref)"

definition curve_req_call :: "(bytes \<Rightarrow> bytes) \<Rightarrow> bool \<Rightarrow> curve_req \<Rightarrow> pyval res" where
  "curve_req_call kec opposite req =
     (case req of (pool, i, j, dx, pref) \<Rightarrow>
        rbind (build_curve_quote_calldata kec i j dx (pref \<noteq> opposite)) (\<lambda>data. Inr (call_object pool data)))"

text \<open>The first loop: quotes in their slots, the indices that need the other flavour.\<close>

fun curve_preferred ::
    "curve_req list \<Rightarrow> nat \<Rightarrow> rpc_result list \<Rightarrow> curve_quote option list \<Rightarrow> nat list \<Rightarrow> curve_diag option
     \<Rightarrow> (curve_quote option list \<times> nat list \<times> curve_diag option) res" where
  "curve_preferred reqs k [] out need diag = Inr (out, need, diag)"
| "curve_preferred reqs k (r # rs) out need diag =
     (case curve_amount r of
        Some n \<Rightarrow>
          if length reqs \<le> k then Inl IndexError
          else curve_preferred reqs (Suc k) rs
                 (out[k := Some \<lparr>cq_amount_out = n, cq_used_underlying = req_prefers (reqs ! k)\<rparr>]) need diag
      | None \<Rightarrow> curve_preferred reqs (Suc k) rs out (need @ [k]) (curve_failure r diag))"

definition count_fallback :: "curve_diag option \<Rightarrow> curve_diag option" where
  "count_fallback diag = map_option (\<lambda>d. d\<lparr>qd_fallback_successes := qd_fallback_successes d + 1\<rparr>) diag"

fun curve_fallback ::
    "curve_req list \<Rightarrow> nat list \<Rightarrow> rpc_result list \<Rightarrow> curve_quote option list \<Rightarrow> curve_diag option
     \<Rightarrow> (curve_quote option list \<times> curve_diag option) res" where
  "curve_fallback reqs [] rs out diag = Inr (out, diag)"
| "curve_fallback reqs (k # ks) [] out diag = Inl IndexError"
| "curve_fallback reqs (k # ks) (r # rs) out diag =
     (case curve_amount r of
        Some n \<Rightarrow> curve_fallback reqs ks rs
            (out[k := Some \<lparr>cq_amount_out = n, cq_used_underlying = (\<not> req_prefers (reqs ! k))\<rparr>]) (count_fallback diag)
      | None \<Rightarrow> curve_fallback reqs ks rs out (curve_failure r diag))"

definition quote_curve_many ::
    "(bytes \<Rightarrow> bytes) \<Rightarrow> batch_call \<Rightarrow> curve_req list \<Rightarrow> curve_diag option
     \<Rightarrow> (curve_quote option list \<times> curve_diag option) res" where
  "quote_curve_many kec eth_call_batch reqs diag =
     (if reqs = [] then Inr ([], diag)
      else rbind (mapr (curve_req_call kec False) reqs) (\<lambda>calls.
        rbind (curve_preferred reqs 0 (eth_call_batch calls) (replicate (length reqs) None) [] diag) (\<lambda>(out, need, diag1).
        if need = [] then Inr (out, diag1)
        else rbind (mapr (\<lambda>k. if k < length reqs then curve_req_call kec True (reqs ! k) else Inl IndexError) need) (\<lambda>calls2.
          curve_fallback reqs need (eth_call_batch calls2) out diag1))))"

section \<open>What an answer leaves in the counters\<close>

text \<open>The contract of a loop body: the value does not depend on the diagnostics kept, and each empty answer is
  counted once.\<close>

locale quote_answer =
  fixes answer :: "'x \<Rightarrow> quote_diag option \<Rightarrow> 'q option \<times> quote_diag option"
  assumes silent: "answer x None = (fst (answer x None), None)"
    and explained: "\<exists>e. answer x (Some d) = (fst (answer x None), Some e) \<and>
      failures e = failures d + (if fst (answer x None) = None then 1 else 0)"
begin

lemma value_of: "fst (answer x diag) = fst (answer x None)"
proof (cases diag)
  case (Some d)
  with explained[of x d] show ?thesis by auto
qed simp

lemma each_values: "fst (each answer xs diag) = map (\<lambda>x. fst (answer x None)) xs"
proof (induction xs arbitrary: diag)
  case (Cons x xs)
  obtain q dg where q: "answer x diag = (q, dg)" by (cases "answer x diag")
  with value_of[of x diag] Cons.IH[of dg] show ?case by (simp add: case_prod_beta)
qed simp

text \<open>A batch that runs the body over the answers of its requests is its single quotes.\<close>

lemma batch_singles:
  assumes "many = Inr (each answer (map res reqs) diag)"
    and "\<forall>r \<in> set reqs. single r = Inr (answer (res r) None)"
  shows "\<exists>qs dg. many = Inr (qs, dg) \<and> list_all2 (\<lambda>r q. single r = Inr (q, None)) reqs qs"
proof -
  obtain qs dg where e: "each answer (map res reqs) diag = (qs, dg)" by (cases "each answer (map res reqs) diag")
  with each_values[of "map res reqs" diag] have "qs = map (\<lambda>r. fst (answer (res r) None)) reqs" by (simp add: comp_def)
  moreover have "single r = Inr (fst (answer (res r) None), None)" if "r \<in> set reqs" for r
    using assms(2) that silent[of "res r"] by metis
  ultimately have "list_all2 (\<lambda>r q. single r = Inr (q, None)) reqs qs"
    by (simp add: list_all2_map2 list_all2_same)
  with e assms(1) show ?thesis by simp
qed

lemma each_explained:
  "\<exists>e. each answer xs (Some d) = (map (\<lambda>x. fst (answer x None)) xs, Some e) \<and>
     failures e = failures d + length (filter (\<lambda>q. q = None) (map (\<lambda>x. fst (answer x None)) xs))"
proof (induction xs arbitrary: d)
  case (Cons x xs)
  obtain e where e: "answer x (Some d) = (fst (answer x None), Some e)"
      "failures e = failures d + (if fst (answer x None) = None then 1 else 0)"
    using explained by blast
  from Cons.IH[of e] e show ?case by auto
qed simp

end

lemma counted_failures:
  "\<exists>e. record_quote_failure reason (Some d) = Some e \<and> failures e = failures d + 1"
  "\<exists>e. record_quote_parse_failure reason (Some d) = Some e \<and> failures e = failures d + 1"
  using record_failure_counts[of reason d] by auto

lemma record_none [simp]: "record_quote_failure reason None = None" "record_quote_parse_failure reason None = None"
  by (simp_all add: record_quote_failure_def record_quote_parse_failure_def)

lemma answer_with_value:
  "fst (answer_with parse reason r diag) = (if rr_ok r then parse (rr_result r) else None)"
  by (simp add: answer_with_def split: option.split)

lemma answer_with_silent: "snd (answer_with parse reason r None) = None"
  by (simp add: answer_with_def split: option.split)

lemma answer_with_explained:
  "\<exists>e. snd (answer_with parse reason r (Some d)) = Some e \<and>
     failures e = failures d + (if fst (answer_with parse reason r None) = None then 1 else 0)"
  using counted_failures(1)[of "classify_quote_error (rr_error r)" d] counted_failures(2)[of reason d]
  by (auto simp: answer_with_def split: option.splits)

lemma answer_with_law: "quote_answer (answer_with parse reason)"
proof
  fix r and d :: quote_diag
  show "answer_with parse reason r None = (fst (answer_with parse reason r None), None)"
    by (simp add: prod_eq_iff answer_with_silent)
  show "\<exists>e. answer_with parse reason r (Some d) = (fst (answer_with parse reason r None), Some e) \<and>
      failures e = failures d + (if fst (answer_with parse reason r None) = None then 1 else 0)"
    using answer_with_explained[of parse reason r d] by (auto simp: prod_eq_iff answer_with_value)
qed

interpretation constant_product: quote_answer "answer_with constant_product_parse ''invalid_quote_result''"
  by (rule answer_with_law)

interpretation camelot_v2: quote_answer "answer_with camelot_v2_parse ''invalid_quote_result''"
  by (rule answer_with_law)

interpretation algebra: quote_answer "answer_with algebra_parse ''invalid_camelot_algebra_quote''"
  by (rule answer_with_law)

interpretation aerodrome: quote_answer aerodrome_slot
proof
  fix x :: "aerodrome_req \<times> rpc_result" and d
  obtain a b n s f r where x: "x = ((a, b, n, s, f), r)" by (metis prod.collapse)
  show "aerodrome_slot x None = (fst (aerodrome_slot x None), None)"
    by (auto simp: x aerodrome_slot_def aerodrome_answer_def answer_with_def split: option.split)
  show "\<exists>e. aerodrome_slot x (Some d) = (fst (aerodrome_slot x None), Some e) \<and>
      failures e = failures d + (if fst (aerodrome_slot x None) = None then 1 else 0)"
    using counted_failures(1)[of "classify_quote_error (rr_error r)" d] counted_failures(2)[of "''invalid_quote_result''" d]
      counted_failures(1)[of "''zero_output''" d]
    by (auto simp: x aerodrome_slot_def aerodrome_answer_def answer_with_def split: option.split)
qed

lemma univ3_value:
  "fst (univ3_answer r diag) = (if rr_ok r then Option.bind (result_bytes (rr_result r)) univ3_words else None)"
  "fst (univ3_batch_answer r diag) = (if rr_ok r then Option.bind (result_bytes (rr_result r)) univ3_words else None)"
  by (auto simp: univ3_answer_def univ3_batch_answer_def parse_quote_exact_input_single_result_def result_bytes_def is_str_def
      fromhex_res_def split: pyval.splits option.splits)

interpretation univ3: quote_answer univ3_batch_answer
proof
  fix r d
  show "univ3_batch_answer r None = (fst (univ3_batch_answer r None), None)"
    by (auto simp: univ3_batch_answer_def split: sum.split option.split)
  show "\<exists>e. univ3_batch_answer r (Some d) = (fst (univ3_batch_answer r None), Some e) \<and>
      failures e = failures d + (if fst (univ3_batch_answer r None) = None then 1 else 0)"
    using counted_failures(1)[of "classify_quote_error (rr_error r)" d] counted_failures(2)[of "''invalid_rpc_result''" d]
      counted_failures(2)[of "''invalid_quote_result''" d]
    by (auto simp: univ3_batch_answer_def split: sum.split option.split)
qed

section \<open>Batches are single quotes\<close>

text \<open>The node answers a batch of call objects call by call.\<close>

definition call_by_call :: "single_call \<Rightarrow> batch_call \<Rightarrow> bool" where
  "call_by_call eth_call eth_call_batch \<longleftrightarrow>
     (\<forall>cs. eth_call_batch (map (\<lambda>(to, data). call_object to data) cs) = map (\<lambda>(to, data). eth_call to data) cs)"

lemma mapr_objects:
  assumes "\<forall>r \<in> set reqs. enc r = Inr (data r)"
  shows "mapr (\<lambda>r. rbind (enc r) (\<lambda>d. Inr (call_object (to r) d))) reqs = Inr (map (\<lambda>(t, d). call_object t d) (map (\<lambda>r. (to r, data r)) reqs))"
  using assms by (induction reqs) simp_all

lemma batch_answers:
  assumes "call_by_call eth_call b"
  shows "b (map (\<lambda>(t, d). call_object t d) (map (\<lambda>r. (to r, data r)) reqs)) = map (\<lambda>r. eth_call (to r) (data r)) reqs"
  using assms[unfolded call_by_call_def, rule_format, of "map (\<lambda>r. (to r, data r)) reqs"] by simp

definition encodes :: "('r \<Rightarrow> string res) \<Rightarrow> 'r list \<Rightarrow> bool" where
  "encodes enc reqs \<longleftrightarrow> (\<forall>r \<in> set reqs. \<exists>d. enc r = Inr d)"

lemma encodes_data:
  assumes "encodes enc reqs"
  obtains data where "\<forall>r \<in> set reqs. enc r = Inr (data r)"
  using assms unfolding encodes_def by metis

lemma objects_answered:
  assumes "call_by_call eth_call b" "\<forall>r \<in> set reqs. enc r = Inr (data r)"
  shows "rbind (mapr (\<lambda>r. rbind (enc r) (\<lambda>d. Inr (call_object (to r) d))) reqs) (\<lambda>calls. Inr (g (b calls))) =
     Inr (g (map (\<lambda>r. eth_call (to r) (data r)) reqs))"
  by (simp only: mapr_objects[OF assms(2)] batch_answers[OF assms(1)] rbind_Inr)

lemma case_object: "(\<lambda>(t, u, n). rbind (f t u n) (\<lambda>d. Inr (call_object to d))) = (\<lambda>r. rbind ((\<lambda>(t, u, n). f t u n) r) (\<lambda>d. Inr (call_object to d)))"
  by (simp add: fun_eq_iff)

lemma constant_product_batch:
  assumes "call_by_call eth_call b" "encodes (\<lambda>(t, u, n). constant_product_calldata kec t u n) reqs"
  shows "\<exists>qs dg. quote_constant_product_many kec b router reqs diag = Inr (qs, dg) \<and>
     list_all2 (\<lambda>r q. (\<lambda>(t, u, n). quote_constant_product kec eth_call router t u n None) r = Inr (q, None)) reqs qs"
proof -
  obtain data where d: "\<forall>r \<in> set reqs. (\<lambda>(t, u, n). constant_product_calldata kec t u n) r = Inr (data r)"
    using encodes_data[OF assms(2)] by blast
  show ?thesis
  proof (rule constant_product.batch_singles)
    show "quote_constant_product_many kec b router reqs diag =
        Inr (each (answer_with constant_product_parse ''invalid_quote_result'') (map (\<lambda>r. eth_call router (data r)) reqs) diag)"
      using objects_answered[OF assms(1) d, where to = "\<lambda>r. router"
          and g = "\<lambda>rs. each (answer_with constant_product_parse ''invalid_quote_result'') rs diag"]
      by (auto simp: quote_constant_product_many_def case_object)
    show "\<forall>r \<in> set reqs. (\<lambda>(t, u, n). quote_constant_product kec eth_call router t u n None) r =
        Inr (answer_with constant_product_parse ''invalid_quote_result'' (eth_call router (data r)) None)"
      using d by (auto simp: quote_constant_product_def)
  qed
qed

lemma camelot_v2_batch:
  assumes "call_by_call eth_call b" "encodes (\<lambda>(t, u, n). camelot_v2_calldata kec t u n) reqs"
  shows "\<exists>qs dg. quote_camelot_v2_many kec b router reqs diag = Inr (qs, dg) \<and>
     list_all2 (\<lambda>r q. (\<lambda>(t, u, n). quote_camelot_v2 kec eth_call router t u n None) r = Inr (q, None)) reqs qs"
proof -
  obtain data where d: "\<forall>r \<in> set reqs. (\<lambda>(t, u, n). camelot_v2_calldata kec t u n) r = Inr (data r)"
    using encodes_data[OF assms(2)] by blast
  show ?thesis
  proof (rule camelot_v2.batch_singles)
    show "quote_camelot_v2_many kec b router reqs diag =
        Inr (each (answer_with camelot_v2_parse ''invalid_quote_result'') (map (\<lambda>r. eth_call router (data r)) reqs) diag)"
      using objects_answered[OF assms(1) d, where to = "\<lambda>r. router"
          and g = "\<lambda>rs. each (answer_with camelot_v2_parse ''invalid_quote_result'') rs diag"]
      by (auto simp: quote_camelot_v2_many_def case_object)
    show "\<forall>r \<in> set reqs. (\<lambda>(t, u, n). quote_camelot_v2 kec eth_call router t u n None) r =
        Inr (answer_with camelot_v2_parse ''invalid_quote_result'' (eth_call router (data r)) None)"
      using d by (auto simp: quote_camelot_v2_def)
  qed
qed

definition aerodrome_req_calldata :: "(bytes \<Rightarrow> bytes) \<Rightarrow> aerodrome_req \<Rightarrow> string res" where
  "aerodrome_req_calldata kec r = (case r of (a, b, n, s, f) \<Rightarrow> aerodrome_calldata kec a b s f n)"

lemma aerodrome_batch:
  assumes "call_by_call eth_call b" "encodes (aerodrome_req_calldata kec) reqs"
  shows "\<exists>qs dg. quote_aerodrome_many kec b router reqs diag = Inr (qs, dg) \<and>
     list_all2 (\<lambda>r q. quote_aerodrome kec eth_call router r None = Inr (q, None)) reqs qs"
proof -
  obtain data where d: "\<forall>r \<in> set reqs. aerodrome_req_calldata kec r = Inr (data r)"
    using encodes_data[OF assms(2)] by blast
  have enc: "(\<lambda>(a, b, n, s, f). rbind (aerodrome_calldata kec a b s f n) (\<lambda>data. Inr (call_object router data))) =
      (\<lambda>r. rbind (aerodrome_req_calldata kec r) (\<lambda>data. Inr (call_object router data)))"
    by (simp add: fun_eq_iff aerodrome_req_calldata_def)
  show ?thesis
  proof (rule aerodrome.batch_singles)
    show "quote_aerodrome_many kec b router reqs diag =
        Inr (each aerodrome_slot (map (\<lambda>r. (r, eth_call router (data r))) reqs) diag)"
      using objects_answered[OF assms(1) d, where to = "\<lambda>r. router" and g = "\<lambda>rs. each aerodrome_slot (zip reqs rs) diag"]
      by (auto simp: quote_aerodrome_many_def enc zip_map2 zip_same_conv_map comp_def)
    show "\<forall>r \<in> set reqs. quote_aerodrome kec eth_call router r None = Inr (aerodrome_slot (r, eth_call router (data r)) None)"
      using d by (auto simp: quote_aerodrome_def aerodrome_slot_def aerodrome_req_calldata_def)
  qed
qed

lemma univ3_batch:
  assumes "call_by_call eth_call b" "encodes (build_quote_exact_input_single_calldata kec) reqs"
  shows "\<exists>qs dg. quote_exact_input_single_batch kec b quoter reqs diag = Inr (qs, dg) \<and>
     list_all2 (\<lambda>r q. quote_exact_input_single kec eth_call quoter r None = Inr (q, None)) reqs qs"
proof -
  obtain data where d: "\<forall>r \<in> set reqs. build_quote_exact_input_single_calldata kec r = Inr (data r)"
    using encodes_data[OF assms(2)] by blast
  have none: "univ3_answer x None = univ3_batch_answer x None" for x
    using univ3_value[of x None] univ3.silent[of x]
    by (auto simp: prod_eq_iff univ3_answer_def split: option.splits)
  show ?thesis
  proof (rule univ3.batch_singles)
    show "quote_exact_input_single_batch kec b quoter reqs diag =
        Inr (each univ3_batch_answer (map (\<lambda>r. eth_call quoter (data r)) reqs) diag)"
      using objects_answered[OF assms(1) d, where to = "\<lambda>r. quoter" and g = "\<lambda>rs. each univ3_batch_answer rs diag"]
      by (simp add: quote_exact_input_single_batch_def)
    show "\<forall>r \<in> set reqs. quote_exact_input_single kec eth_call quoter r None = Inr (univ3_batch_answer (eth_call quoter (data r)) None)"
      using d by (auto simp: quote_exact_input_single_def none)
  qed
qed

text \<open>The single Slipstream quote does not raise: the request encodes, or its error is one the adapter catches.\<close>

definition slipstream_tolerates :: "(bytes \<Rightarrow> bytes) \<Rightarrow> slipstream_req list \<Rightarrow> bool" where
  "slipstream_tolerates kec reqs \<longleftrightarrow> (\<forall>r \<in> set reqs. case slipstream_calldata kec r of Inl e \<Rightarrow> request_caught e | Inr d \<Rightarrow> True)"

lemma slipstream_steps:
  "slipstream_calldata kec r = Inl e \<Longrightarrow> request_caught e \<Longrightarrow> slipstream_call kec quoter r = Inr None"
  "slipstream_calldata kec r = Inl e \<Longrightarrow> request_caught e \<Longrightarrow> quote_slipstream kec eth_call quoter r None = Inr (None, None)"
  "slipstream_calldata kec r = Inr d \<Longrightarrow> slipstream_call kec quoter r = Inr (Some (call_object quoter d))"
  "slipstream_calldata kec r = Inr d \<Longrightarrow> quote_slipstream kec eth_call quoter r None =
     Inr (answer_with (slipstream_parse (tick_of r)) ''invalid_quote_result'' (eth_call quoter d) None)"
  by (simp_all add: slipstream_call_def quote_slipstream_def)

lemma slipstream_loop:
  assumes "slipstream_tolerates kec reqs"
  shows "\<exists>calls. mapr (slipstream_call kec quoter) reqs = Inr calls \<and>
     (\<exists>cs. somes calls = map (\<lambda>(t, d). call_object t d) cs \<and>
       (\<exists>qs dg. slipstream_results (zip reqs calls) (map (\<lambda>(t, d). eth_call t d) cs) diag = Inr (qs, dg) \<and>
         list_all2 (\<lambda>r q. quote_slipstream kec eth_call quoter r None = Inr (q, None)) reqs qs))"
  using assms
proof (induction reqs arbitrary: diag)
  case Nil
  then show ?case by (intro exI[of _ "[]"]) simp
next
  case (Cons r reqs)
  from Cons.prems have rest: "slipstream_tolerates kec reqs" by (simp add: slipstream_tolerates_def)
  show ?case
  proof (cases "slipstream_calldata kec r")
    case (Inl e)
    with Cons.prems have caught: "request_caught e" by (simp add: slipstream_tolerates_def)
    obtain calls cs qs dg where ih: "mapr (slipstream_call kec quoter) reqs = Inr calls"
        "somes calls = map (\<lambda>(t, d). call_object t d) cs"
        "slipstream_results (zip reqs calls) (map (\<lambda>(t, d). eth_call t d) cs) (record_quote_parse_failure ''invalid_tick_spacing'' diag) = Inr (qs, dg)"
        "list_all2 (\<lambda>r q. quote_slipstream kec eth_call quoter r None = Inr (q, None)) reqs qs"
      using Cons.IH[OF rest] by blast
    show ?thesis
      using ih slipstream_steps(1,2)[OF Inl caught]
      by (intro exI[of _ "None # calls"] conjI exI[of _ cs] exI[of _ "None # qs"] exI[of _ dg]) simp_all
  next
    case (Inr d)
    let ?ans = "answer_with (slipstream_parse (tick_of r)) ''invalid_quote_result''"
    obtain q dg1 where q: "?ans (eth_call quoter d) diag = (q, dg1)" by (cases "?ans (eth_call quoter d) diag")
    from arg_cong[OF q, of fst] have "fst (?ans (eth_call quoter d) diag) = q" by simp
    then have v: "?ans (eth_call quoter d) None = (q, None)"
      by (simp add: prod_eq_iff answer_with_value answer_with_silent)
    obtain calls cs qs dg where ih: "mapr (slipstream_call kec quoter) reqs = Inr calls"
        "somes calls = map (\<lambda>(t, d). call_object t d) cs"
        "slipstream_results (zip reqs calls) (map (\<lambda>(t, d). eth_call t d) cs) dg1 = Inr (qs, dg)"
        "list_all2 (\<lambda>r q. quote_slipstream kec eth_call quoter r None = Inr (q, None)) reqs qs"
      using Cons.IH[OF rest] by blast
    show ?thesis
      using ih q v slipstream_steps(3,4)[OF Inr]
      by (intro exI[of _ "Some (call_object quoter d) # calls"] conjI exI[of _ "(quoter, d) # cs"] exI[of _ "q # qs"] exI[of _ dg]) simp_all
  qed
qed

lemma slipstream_batch:
  assumes "call_by_call eth_call b" "slipstream_tolerates kec reqs"
  shows "\<exists>qs dg. quote_slipstream_many kec b quoter reqs diag = Inr (qs, dg) \<and>
     list_all2 (\<lambda>r q. quote_slipstream kec eth_call quoter r None = Inr (q, None)) reqs qs"
proof -
  obtain calls cs qs dg where l: "mapr (slipstream_call kec quoter) reqs = Inr calls"
      "somes calls = map (\<lambda>(t, d). call_object t d) cs"
      "slipstream_results (zip reqs calls) (map (\<lambda>(t, d). eth_call t d) cs) diag = Inr (qs, dg)"
      "list_all2 (\<lambda>r q. quote_slipstream kec eth_call quoter r None = Inr (q, None)) reqs qs"
    using slipstream_loop[OF assms(2)] by blast
  have "(if map (\<lambda>(t, d). call_object t d) cs = [] then [] else b (map (\<lambda>(t, d). call_object t d) cs)) = map (\<lambda>(t, d). eth_call t d) cs"
    using assms(1) by (simp add: call_by_call_def)
  with l show ?thesis
    by (cases "reqs = []") (auto simp: quote_slipstream_many_def Let_def)
qed

lemma camelot_v2_same_request: "camelot_v2_calldata = constant_product_calldata"
  by (simp add: fun_eq_iff camelot_v2_calldata_def constant_product_calldata_def)

text \<open>C19: a batch is its single quotes, for the five adapters whose batch is one request to the node: where the node
  answers a batch call by call and every request encodes, each slot holds what a quote of its own would have
  given. A Slipstream batch also tolerates requests that do not encode: they leave their own slot empty and shift
  no other answer.\<close>

theorem adapter_batches_are_single_quotes:
  assumes "call_by_call eth_call b"
    and "encodes (\<lambda>(t, u, n). constant_product_calldata kec t u n) routes"
    and "encodes (aerodrome_req_calldata kec) aero"
    and "encodes (build_quote_exact_input_single_calldata kec) v3"
    and "slipstream_tolerates kec slip"
  shows "(\<exists>qs dg. quote_constant_product_many kec b router routes diag = Inr (qs, dg) \<and>
       list_all2 (\<lambda>r q. (\<lambda>(t, u, n). quote_constant_product kec eth_call router t u n None) r = Inr (q, None)) routes qs)
   \<and> (\<exists>qs dg. quote_camelot_v2_many kec b router routes diag = Inr (qs, dg) \<and>
       list_all2 (\<lambda>r q. (\<lambda>(t, u, n). quote_camelot_v2 kec eth_call router t u n None) r = Inr (q, None)) routes qs)
   \<and> (\<exists>qs dg. quote_aerodrome_many kec b router aero diag = Inr (qs, dg) \<and>
       list_all2 (\<lambda>r q. quote_aerodrome kec eth_call router r None = Inr (q, None)) aero qs)
   \<and> (\<exists>qs dg. quote_exact_input_single_batch kec b quoter v3 diag = Inr (qs, dg) \<and>
       list_all2 (\<lambda>r q. quote_exact_input_single kec eth_call quoter r None = Inr (q, None)) v3 qs)
   \<and> (\<exists>qs dg. quote_slipstream_many kec b quoter slip diag = Inr (qs, dg) \<and>
       list_all2 (\<lambda>r q. quote_slipstream kec eth_call quoter r None = Inr (q, None)) slip qs)"
  by (intro conjI constant_product_batch camelot_v2_batch aerodrome_batch univ3_batch slipstream_batch assms)
     (simp add: camelot_v2_same_request assms(2))

definition silent_node :: single_call where
  "silent_node to data = \<lparr>rr_ok = True, rr_result = PStr ''0x'', rr_error = PNone\<rparr>"

definition silent_batch :: batch_call where
  "silent_batch cs = map (\<lambda>c. \<lparr>rr_ok = True, rr_result = PStr ''0x'', rr_error = PNone\<rparr>) cs"

lemma silent_call_by_call: "call_by_call silent_node silent_batch"
  by (simp add: call_by_call_def silent_node_def silent_batch_def case_prod_unfold)

lemma enc_small_num: "n < 1000 \<Longrightarrow> \<exists>w. enc_uint (int n) = Inr w"
  by (simp add: enc_small)

theorem adapter_batches_are_single_quotes_witness:
  "\<exists>qs dg. quote_slipstream_many (\<lambda>_. []) silent_batch zero_address [(zero_address, zero_address, 2 ^ 30, 5), (zero_address, zero_address, 100, 5)] None = Inr (qs, dg) \<and>
     length qs = 2"
proof -
  have n: "enc_uint 5 = Inr (to_be 32 5)" "enc_uint 64 = Inr (to_be 32 64)" "enc_uint 0 = Inr (to_be 32 0)"
    "enc_uint 500 = Inr (to_be 32 500)" "enc_uint 1 = Inr (to_be 32 1)" "enc_uint 2 = Inr (to_be 32 2)" "enc_uint 100 = Inr (to_be 32 100)"
    using enc_small[of 5] enc_small[of 64] enc_small[of 0] enc_small[of 500] enc_small[of 1] enc_small[of 2] enc_small[of 100] by simp_all
  note z = zero_address_word(2)
  have "encodes (\<lambda>(t, u, n). constant_product_calldata (\<lambda>_. []) t u n) [(zero_address, zero_address, 5)]"
    by (simp add: encodes_def constant_product_calldata_def n z)
  moreover have "encodes (aerodrome_req_calldata (\<lambda>_. [])) [(zero_address, zero_address, 5, False, zero_address)]"
    by (simp add: encodes_def aerodrome_req_calldata_def aerodrome_calldata_def enc_bool_def n z)
  moreover have "encodes (build_quote_exact_input_single_calldata (\<lambda>_. [])) [(zero_address, zero_address, 500, 5, 0)]"
    by (simp add: encodes_def build_quote_exact_input_single_calldata_def n z)
  moreover have "slipstream_tolerates (\<lambda>_. []) [(zero_address, zero_address, 2 ^ 30, 5), (zero_address, zero_address, 100, 5)]"
    by (simp add: slipstream_tolerates_def slipstream_calldata_def enc_tick_spacing_def request_caught_def n z)
  ultimately show ?thesis
    using adapter_batches_are_single_quotes[OF silent_call_by_call, of "\<lambda>_. []" "[(zero_address, zero_address, 5)]"
        "[(zero_address, zero_address, 5, False, zero_address)]" "[(zero_address, zero_address, 500, 5, 0)]"
        "[(zero_address, zero_address, 2 ^ 30, 5), (zero_address, zero_address, 100, 5)]" zero_address None zero_address]
    by (metis (no_types, lifting) list.size(3,4) list_all2_lengthD One_nat_def Suc_1 add.commute plus_1_eq_Suc)
qed

section \<open>One malformed request\<close>

text \<open>A constant product batch with one request that does not encode raises, though the single quote of that
  request is only empty and the other requests are sound.\<close>

theorem malformed_request_ends_batch:
  assumes "constant_product_calldata kec t u n = Inl ValueError" and "encodes (\<lambda>(t, u, n). constant_product_calldata kec t u n) before"
  shows "quote_constant_product_many kec b router (before @ (t, u, n) # after) diag = Inl ValueError \<and>
    fst (projr (quote_constant_product kec eth_call router t u n diag)) = None"
proof -
  have "mapr (\<lambda>(t, u, n). rbind (constant_product_calldata kec t u n) (\<lambda>d. Inr (call_object router d))) (before @ (t, u, n) # after) = Inl ValueError"
    using assms(2) by (induction before) (auto simp: assms(1) encodes_def)
  with assms(1) show ?thesis
    by (simp add: quote_constant_product_many_def quote_constant_product_def request_caught_def)
qed

theorem malformed_request_ends_batch_witness:
  "quote_constant_product_many kec silent_batch zero_address [(zero_address, zero_address, - 1)] None = Inl ValueError"
  using malformed_request_ends_batch[of kec zero_address zero_address "- 1" "[]" silent_batch zero_address "[]" None silent_node]
  by (simp add: constant_product_calldata_def enc_uint_def encodes_def)

section \<open>The Algebra batch\<close>

text \<open>A node rejects an \<open>eth_call\<close> whose first parameter is not an object.\<close>

definition rejects_non_objects :: "batch_call \<Rightarrow> bool" where
  "rejects_non_objects b \<longleftrightarrow> (\<forall>cs. length (b cs) = length cs \<and> (\<forall>i < length cs. \<not> is_mapping (cs ! i) \<longrightarrow> \<not> rr_ok (b cs ! i)))"

text \<open>C21: the Camelot Algebra batch never names its quoter: it sends the call data where the other adapters send
  call objects, so it does the same whatever the quoter, and a node that insists on objects fails every request
  of every batch, also those whose single quote succeeds.\<close>

theorem algebra_batch_names_no_quoter:
  assumes "rejects_non_objects b" and "quote_camelot_algebra_many kec b quoter reqs diag = Inr (qs, dg)"
  shows "qs = replicate (length reqs) None \<and>
    quote_camelot_algebra_many kec b quoter reqs diag = quote_camelot_algebra_many kec b quoter' reqs diag"
proof (cases "reqs = []")
  case True
  with assms(2) show ?thesis by (simp add: quote_camelot_algebra_many_def)
next
  case False
  let ?enc = "\<lambda>(t, u, n). rbind (algebra_calldata kec t u n 0) (\<lambda>data. Inr (PStr data))"
  let ?ans = "answer_with algebra_parse ''invalid_camelot_algebra_quote''"
  from assms(2) False obtain calls where c: "mapr ?enc reqs = Inr calls" "each ?ans (b calls) diag = (qs, dg)"
    by (auto simp: quote_camelot_algebra_many_def rbind_eq_Inr)
  have len: "length calls = length reqs" using mapr_length[OF c(1)] .
  have plain: "\<not> is_mapping (calls ! i)" if "i < length calls" for i
    using mapr_nth[OF c(1), of i] that len by (cases "calls ! i") (auto simp: rbind_eq_Inr case_prod_unfold is_mapping_def)
  have b: "length (b calls) = length calls" "\<forall>i < length calls. \<not> rr_ok (b calls ! i)"
    using assms(1) plain by (simp_all add: rejects_non_objects_def)
  have "qs = map (\<lambda>x. fst (?ans x None)) (b calls)"
    using algebra.each_values[of "b calls" diag] c(2) by simp
  also have "\<dots> = replicate (length reqs) None"
    using b len by (intro nth_equalityI) (simp_all add: answer_with_value)
  finally show ?thesis by (simp add: quote_camelot_algebra_many_def)
qed

definition strict_batch :: batch_call where
  "strict_batch cs = map (\<lambda>c. if is_mapping c then \<lparr>rr_ok = True, rr_result = PStr ''0x'', rr_error = PNone\<rparr>
     else \<lparr>rr_ok = False, rr_result = PNone, rr_error = PNone\<rparr>) cs"

theorem algebra_batch_names_no_quoter_witness:
  "\<exists>dg. quote_camelot_algebra_many (\<lambda>_. []) strict_batch zero_address [(zero_address, zero_address, 5)] None = Inr ([None], dg)"
proof -
  have r: "rejects_non_objects strict_batch" by (simp add: rejects_non_objects_def strict_batch_def)
  have n: "enc_uint 5 = Inr (to_be 32 5)" "enc_uint 0 = Inr (to_be 32 0)" using enc_small[of 5] enc_small[of 0] by simp_all
  obtain qs dg where q: "quote_camelot_algebra_many (\<lambda>_. []) strict_batch zero_address [(zero_address, zero_address, 5)] None = Inr (qs, dg)"
    by (cases "each (answer_with algebra_parse ''invalid_camelot_algebra_quote'')
         (strict_batch [PStr (projr (algebra_calldata (\<lambda>_. []) zero_address zero_address 5 0))]) None")
       (auto simp: quote_camelot_algebra_many_def algebra_calldata_def n zero_address_word(2) split: prod.split)
  from algebra_batch_names_no_quoter[OF r q, of zero_address] q show ?thesis by simp
qed

section \<open>Curve batches\<close>

lemma curve_answer_value: "fst (curve_answer r diag) = curve_amount r"
  by (auto simp: curve_answer_def curve_amount_def parse_curve_quote_result_def result_bytes_def is_str_def fromhex_res_def
      split: pyval.splits option.splits)

lemma curve_answer_None: "curve_answer r None = (curve_amount r, None)"
  by (rule prod_eqI) (auto simp: curve_answer_value, auto simp: curve_answer_def split: option.split)

text \<open>The request encodes; the flavour does not matter for that.\<close>

definition curve_encodes :: "(bytes \<Rightarrow> bytes) \<Rightarrow> curve_req \<Rightarrow> bool" where
  "curve_encodes kec req = (case req of (pool, i, j, dx, pref) \<Rightarrow> \<exists>d. build_curve_quote_calldata kec i j dx pref = Inr d)"

definition curve_data :: "(bytes \<Rightarrow> bytes) \<Rightarrow> bool \<Rightarrow> curve_req \<Rightarrow> string" where
  "curve_data kec opposite req = (case req of (pool, i, j, dx, pref) \<Rightarrow> projr (build_curve_quote_calldata kec i j dx (pref \<noteq> opposite)))"

lemma curve_any_flavour:
  "build_curve_quote_calldata kec i j dx f = Inr d \<Longrightarrow> \<exists>d'. build_curve_quote_calldata kec i j dx g = Inr d'"
  by (auto simp: build_curve_quote_calldata_def rbind_eq_Inr)

lemma curve_flavours:
  assumes "curve_encodes kec (pool, i, j, dx, pref)"
  shows "build_curve_quote_calldata kec i j dx (pref \<noteq> opposite) = Inr (curve_data kec opposite (pool, i, j, dx, pref))"
  using assms curve_any_flavour[of kec i j dx pref _ "pref \<noteq> opposite"] by (auto simp: curve_encodes_def curve_data_def)

definition curve_try :: "(bytes \<Rightarrow> bytes) \<Rightarrow> single_call \<Rightarrow> bool \<Rightarrow> curve_req \<Rightarrow> nat option" where
  "curve_try kec eth_call opposite req = curve_amount (eth_call (fst req) (curve_data kec opposite req))"

definition curve_slot :: "(bytes \<Rightarrow> bytes) \<Rightarrow> single_call \<Rightarrow> curve_req \<Rightarrow> curve_quote option" where
  "curve_slot kec eth_call req =
     (case curve_try kec eth_call False req of
        Some n \<Rightarrow> Some \<lparr>cq_amount_out = n, cq_used_underlying = req_prefers req\<rparr>
      | None \<Rightarrow> map_option (\<lambda>n. \<lparr>cq_amount_out = n, cq_used_underlying = (\<not> req_prefers req)\<rparr>) (curve_try kec eth_call True req))"

lemma quote_curve_slot:
  assumes "curve_encodes kec req"
  shows "quote_curve kec eth_call req None = Inr (curve_slot kec eth_call req, None)"
proof -
  obtain pool i j dx pref where r: "req = (pool, i, j, dx, pref)" by (metis prod.collapse)
  show ?thesis
    using curve_flavours[OF assms[unfolded r], of False] curve_flavours[OF assms[unfolded r], of True]
    by (auto simp: r quote_curve_def curve_call_def curve_answer_None curve_slot_def curve_try_def req_prefers_def split: option.split)
qed

lemma curve_req_call_object:
  assumes "curve_encodes kec req"
  shows "curve_req_call kec opposite req = Inr (call_object (fst req) (curve_data kec opposite req))"
proof -
  obtain pool i j dx pref where r: "req = (pool, i, j, dx, pref)" by (metis prod.collapse)
  show ?thesis using curve_flavours[OF assms[unfolded r], of opposite] by (simp add: r curve_req_call_def)
qed

lemma curve_preferred_runs:
  assumes "length out = length pre"
  shows "\<exists>dg. curve_preferred (pre @ reqs) (length pre) (map (\<lambda>r. eth_call (fst r) (curve_data kec False r)) reqs)
      (out @ replicate (length reqs) None) need diag =
    Inr (out @ map (\<lambda>r. map_option (\<lambda>n. \<lparr>cq_amount_out = n, cq_used_underlying = req_prefers r\<rparr>) (curve_try kec eth_call False r)) reqs,
      need @ filter (\<lambda>k. curve_try kec eth_call False ((pre @ reqs) ! k) = None) [length pre..<length pre + length reqs], dg)"
  using assms
proof (induction reqs arbitrary: pre out need diag)
  case (Cons r reqs)
  have upt: "[length pre..<length pre + length (r # reqs)] = length pre # [length (pre @ [r])..<length (pre @ [r]) + length reqs]"
    by (subst upt_conv_Cons) simp_all
  show ?case
  proof (cases "curve_try kec eth_call False r")
    case None
    then have "curve_amount (eth_call (fst r) (curve_data kec False r)) = None" by (simp add: curve_try_def)
    with Cons.IH[of "out @ [None]" "pre @ [r]" "need @ [length pre]" "curve_failure (eth_call (fst r) (curve_data kec False r)) diag"]
      Cons.prems None show ?thesis unfolding upt by simp
  next
    case (Some n)
    then have "curve_amount (eth_call (fst r) (curve_data kec False r)) = Some n" by (simp add: curve_try_def)
    with Cons.IH[of "out @ [Some \<lparr>cq_amount_out = n, cq_used_underlying = req_prefers r\<rparr>]" "pre @ [r]" need diag]
      Cons.prems Some show ?thesis unfolding upt by (simp add: list_update_append nth_append)
  qed
qed simp

definition curve_second :: "(bytes \<Rightarrow> bytes) \<Rightarrow> single_call \<Rightarrow> curve_req \<Rightarrow> curve_quote option" where
  "curve_second kec eth_call req =
     map_option (\<lambda>n. \<lparr>cq_amount_out = n, cq_used_underlying = (\<not> req_prefers req)\<rparr>) (curve_try kec eth_call True req)"

lemma curve_fallback_runs:
  "\<exists>out' dg. curve_fallback reqs ks (map (\<lambda>k. eth_call (fst (reqs ! k)) (curve_data kec True (reqs ! k))) ks) out diag = Inr (out', dg) \<and>
     length out' = length out \<and>
     (\<forall>j < length out. out' ! j = (if j \<in> set ks \<and> curve_second kec eth_call (reqs ! j) \<noteq> None then curve_second kec eth_call (reqs ! j) else out ! j))"
proof (induction ks arbitrary: out diag)
  case (Cons k ks)
  let ?r = "eth_call (fst (reqs ! k)) (curve_data kec True (reqs ! k))"
  show ?case
  proof (cases "curve_try kec eth_call True (reqs ! k)")
    case None
    then have c: "curve_amount ?r = None" "curve_second kec eth_call (reqs ! k) = None" by (simp_all add: curve_try_def curve_second_def)
    from Cons.IH[of out "curve_failure ?r diag"] c(1) obtain out' dg where
      o: "curve_fallback reqs (k # ks) (map (\<lambda>k. eth_call (fst (reqs ! k)) (curve_data kec True (reqs ! k))) (k # ks)) out diag = Inr (out', dg)"
        "length out' = length out"
        "\<forall>j < length out. out' ! j = (if j \<in> set ks \<and> curve_second kec eth_call (reqs ! j) \<noteq> None then curve_second kec eth_call (reqs ! j) else out ! j)"
      by auto
    show ?thesis using c(2) o(3) by (intro exI[of _ out'] exI[of _ dg] conjI o(1,2)) auto
  next
    case (Some n)
    let ?q = "Some \<lparr>cq_amount_out = n, cq_used_underlying = (\<not> req_prefers (reqs ! k))\<rparr>"
    from Some have c: "curve_amount ?r = Some n" "curve_second kec eth_call (reqs ! k) = ?q" by (simp_all add: curve_try_def curve_second_def)
    from Cons.IH[of "out[k := ?q]" "count_fallback diag"] c(1) obtain out' dg where
      o: "curve_fallback reqs (k # ks) (map (\<lambda>k. eth_call (fst (reqs ! k)) (curve_data kec True (reqs ! k))) (k # ks)) out diag = Inr (out', dg)"
        "length out' = length out"
        "\<forall>j < length out. out' ! j = (if j \<in> set ks \<and> curve_second kec eth_call (reqs ! j) \<noteq> None then curve_second kec eth_call (reqs ! j) else out[k := ?q] ! j)"
      by auto
    have "out' ! j = (if j \<in> set (k # ks) \<and> curve_second kec eth_call (reqs ! j) \<noteq> None then curve_second kec eth_call (reqs ! j) else out ! j)"
      if "j < length out" for j using c(2) o(3)[rule_format, OF that] that by (cases "j = k") auto
    with o(1,2) show ?thesis by blast
  qed
qed simp

text \<open>C20: the Curve batch, with its second round for the requests the preferred flavour did not answer, gives every
  request what a quote of its own would: the preferred flavour where it answers, else the other one, in the
  request's own slot.\<close>

theorem curve_batch_is_single_quotes:
  assumes "call_by_call eth_call b" and "\<forall>r \<in> set reqs. curve_encodes kec r"
  shows "\<exists>qs dg. quote_curve_many kec b reqs diag = Inr (qs, dg) \<and>
    list_all2 (\<lambda>r q. quote_curve kec eth_call r None = Inr (q, None)) reqs qs"
proof -
  let ?slot = "curve_slot kec eth_call" and ?attempt = "curve_try kec eth_call"
  define ks where "ks = filter (\<lambda>k. ?attempt False (reqs ! k) = None) [0..<length reqs]"
  define out where "out = map (\<lambda>r. map_option (\<lambda>n. \<lparr>cq_amount_out = n, cq_used_underlying = req_prefers r\<rparr>) (?attempt False r)) reqs"
  obtain dg1 where p: "curve_preferred reqs 0 (map (\<lambda>r. eth_call (fst r) (curve_data kec False r)) reqs) (replicate (length reqs) None) [] diag =
      Inr (out, ks, dg1)"
    using curve_preferred_runs[of "[]" "[]" reqs eth_call kec "[]" diag] by (auto simp: ks_def out_def)
  have calls1: "mapr (curve_req_call kec False) reqs = Inr (map (\<lambda>(t, d). call_object t d) (map (\<lambda>r. (fst r, curve_data kec False r)) reqs))"
    using assms(2) by (simp add: mapr_Inr_map[where g = "\<lambda>r. call_object (fst r) (curve_data kec False r)"] curve_req_call_object)
  have ks: "\<forall>k \<in> set ks. k < length reqs" by (simp add: ks_def)
  have calls2: "mapr (\<lambda>k. if k < length reqs then curve_req_call kec True (reqs ! k) else Inl IndexError) ks =
      Inr (map (\<lambda>(t, d). call_object t d) (map (\<lambda>k. (fst (reqs ! k), curve_data kec True (reqs ! k))) ks))"
    using assms(2) ks by (simp add: mapr_Inr_map[where g = "\<lambda>k. call_object (fst (reqs ! k)) (curve_data kec True (reqs ! k))"] curve_req_call_object)
  obtain out' dg2 where g: "curve_fallback reqs ks (map (\<lambda>k. eth_call (fst (reqs ! k)) (curve_data kec True (reqs ! k))) ks) out dg1 = Inr (out', dg2)"
      "length out' = length out"
      "\<forall>j < length out. out' ! j = (if j \<in> set ks \<and> curve_second kec eth_call (reqs ! j) \<noteq> None then curve_second kec eth_call (reqs ! j) else out ! j)"
    using curve_fallback_runs[of reqs ks eth_call kec out dg1] by blast
  have "out' = map ?slot reqs"
  proof (rule nth_equalityI)
    fix j assume "j < length out'"
    then have j: "j < length reqs" "j < length out" using g(2) by (simp_all add: out_def)
    then show "out' ! j = map ?slot reqs ! j"
      using g(3)[rule_format, OF j(2)]
      by (cases "?attempt False (reqs ! j)"; cases "?attempt True (reqs ! j)") (simp_all add: out_def ks_def curve_slot_def curve_second_def)
  qed (simp add: g(2) out_def)
  with g(1) have f: "curve_fallback reqs ks (map (\<lambda>k. eth_call (fst (reqs ! k)) (curve_data kec True (reqs ! k))) ks) out dg1 = Inr (map ?slot reqs, dg2)"
    by simp
  have "map ?slot reqs = out" if "ks = []"
  proof -
    have "?attempt False r \<noteq> None" if "r \<in> set reqs" for r
      using \<open>ks = []\<close> that by (auto simp: ks_def filter_empty_conv in_set_conv_nth)
    then show ?thesis by (fastforce simp: out_def curve_slot_def split: option.split)
  qed
  with p f calls1 calls2 batch_answers[OF assms(1), of fst "curve_data kec False" reqs]
    batch_answers[OF assms(1), of "\<lambda>k. fst (reqs ! k)" "\<lambda>k. curve_data kec True (reqs ! k)" ks]
  have "\<exists>dg. quote_curve_many kec b reqs diag = Inr (map ?slot reqs, dg)"
    by (cases "ks = []") (auto simp: quote_curve_many_def)
  moreover have "list_all2 (\<lambda>r q. quote_curve kec eth_call r None = Inr (q, None)) reqs (map ?slot reqs)"
    using assms(2) quote_curve_slot by (auto simp: list_all2_map2 list_all2_same)
  ultimately show ?thesis by blast
qed

definition answering_node :: single_call where
  "answering_node to data = \<lparr>rr_ok = True, rr_result = PStr (''0x'' @ hex_of (to_be 32 7)), rr_error = PNone\<rparr>"

definition answering_batch :: batch_call where
  "answering_batch cs = map (\<lambda>c. \<lparr>rr_ok = True, rr_result = PStr (''0x'' @ hex_of (to_be 32 7)), rr_error = PNone\<rparr>) cs"

theorem curve_batch_is_single_quotes_witness:
  "\<exists>dg. quote_curve_many (\<lambda>_. []) answering_batch [(zero_address, 0, 1, 5, True)] None =
     Inr ([Some \<lparr>cq_amount_out = 7, cq_used_underlying = True\<rparr>], dg)"
proof -
  let ?r = "(zero_address, 0, 1, 5, True) :: curve_req"
  have c: "call_by_call answering_node answering_batch"
    by (simp add: call_by_call_def answering_node_def answering_batch_def case_prod_unfold)
  have "enc_int 0 = Inr (to_be 32 0)" "enc_int 1 = Inr (to_be 32 1)" "enc_uint 5 = Inr (to_be 32 5)"
    using enc_int_ok[of 0] enc_int_ok[of 1] enc_small[of 5] by (simp_all add: int256_def twos_def)
  then have e: "curve_encodes (\<lambda>_. []) ?r" by (simp add: curve_encodes_def build_curve_quote_calldata_def)
  have "curve_amount (answering_node t d) = Some 7" for t d
    by (simp add: curve_amount_def answering_node_def is_str_def parse_curve_quote_result_def fromhex_res_hex_of curve_word_def
        from_be_to_be abi_strip_0x_def starts_with_def)
  then have "quote_curve (\<lambda>_. []) answering_node ?r None = Inr (Some \<lparr>cq_amount_out = 7, cq_used_underlying = True\<rparr>, None)"
    using quote_curve_slot[OF e] by (simp add: curve_slot_def curve_try_def req_prefers_def)
  with curve_batch_is_single_quotes[OF c, of "[?r]" "\<lambda>_. []" None] e show ?thesis
    by (auto simp: list_all2_Cons1)
qed

section \<open>A router quote end to end\<close>

text \<open>What \<open>getAmountsOut\<close> returns for a path of two tokens.\<close>

definition amounts_return :: "nat \<Rightarrow> nat \<Rightarrow> bytes" where
  "amounts_return amount_in amount_out = to_be 32 32 @ to_be 32 2 @ to_be 32 amount_in @ to_be 32 amount_out"

definition amounts_request :: "(bytes \<Rightarrow> bytes) \<Rightarrow> string \<Rightarrow> string \<Rightarrow> int \<Rightarrow> string" where
  "amounts_request kec t u n = ''0x'' @ hex_of (selector kec ''getAmountsOut(uint256,address[])'' @
     to_be 32 (nat n) @ to_be 32 64 @ to_be 32 2 @ (replicate 12 0 @ addr_bytes t) @ (replicate 12 0 @ addr_bytes u))"

lemma amounts_request_built:
  assumes "is_addr t" "is_addr u" "uint256 n"
  shows "constant_product_calldata kec t u n = Inr (amounts_request kec t u n)"
proof -
  have "enc_uint 64 = Inr (to_be 32 64)" "enc_uint 2 = Inr (to_be 32 2)" using enc_small[of 64] enc_small[of 2] by simp_all
  with assms show ?thesis by (simp add: constant_product_calldata_def amounts_request_def enc_uint_ok enc_address_ok)
qed

lemma second_amount_return:
  assumes "amount_out < 2 ^ 256"
  shows "second_amount (amounts_return amount_in amount_out) = Some amount_out"
proof -
  have "from_be (to_be 32 amount_out) = amount_out" by (rule from_be_to_be) (simp only: pow_256_32 assms)
  then show ?thesis by (simp add: second_amount_def amounts_return_def from_be_to_be_mod)
qed

text \<open>A router quote is exact: the request carries the amount and the two tokens in the ABI's words, and what
  the router returns as second amount is the quote, whatever came first; a zero amount is no quote. Both
  router adapters agree.\<close>

theorem router_quote_exact:
  assumes "is_addr t" "is_addr u" "uint256 n" "amount_out < 2 ^ 256"
    and "eth_call router (amounts_request kec t u n) =
      \<lparr>rr_ok = True, rr_result = PStr (''0x'' @ hex_of (amounts_return amount_in amount_out)), rr_error = PNone\<rparr>"
  shows "quote_constant_product kec eth_call router t u n diag =
      Inr (if amount_out = 0 then (None, record_quote_parse_failure ''invalid_quote_result'' diag) else (Some amount_out, diag)) \<and>
    quote_camelot_v2 kec eth_call router t u n diag = quote_constant_product kec eth_call router t u n diag"
proof -
  note req = amounts_request_built[OF assms(1-3)]
  note sa = second_amount_return[OF assms(4), of amount_in]
  have "length (amounts_return amount_in amount_out) = 128" by (simp add: amounts_return_def)
  then have "constant_product_parse (PStr (''0x'' @ hex_of (amounts_return amount_in amount_out))) = (if amount_out = 0 then None else Some amount_out)"
    "camelot_v2_parse (PStr (''0x'' @ hex_of (amounts_return amount_in amount_out))) = (if amount_out = 0 then None else Some amount_out)"
    using sa by (auto simp: constant_product_parse_def camelot_v2_parse_def result_bytes_def fromhex_hex_of abi_strip_0x_def
        starts_with_def positive_def)
  then show ?thesis
    by (simp add: quote_constant_product_def quote_camelot_v2_def camelot_v2_same_request req answer_with_def assms(5))
qed

definition fixed_rate_node :: single_call where
  "fixed_rate_node to data = \<lparr>rr_ok = True, rr_result = PStr (''0x'' @ hex_of (amounts_return 5 9)), rr_error = PNone\<rparr>"

theorem router_quote_exact_witness:
  "quote_constant_product (\<lambda>_. []) fixed_rate_node zero_address zero_address zero_address 5 None = Inr (Some 9, None)"
  using router_quote_exact[of zero_address zero_address 5 9 fixed_rate_node zero_address "\<lambda>_. []" 5 None] zero_address_word(1)
  by (simp add: uint256_def fixed_rate_node_def)

text \<open>A tick spacing survives its word; values outside 24 bits are refused.\<close>

lemma tick_spacing_roundtrip:
  "enc_tick_spacing n = Inr w \<Longrightarrow> to_signed (from_be w) = n \<and> - (2 ^ 23) \<le> n \<and> n < 2 ^ 23"
  "n < - (2 ^ 23) \<or> 2 ^ 23 \<le> n \<Longrightarrow> enc_tick_spacing n = Inl ValueError"
proof -
  assume e: "enc_tick_spacing n = Inr w"
  then have r: "- (2 ^ 23) \<le> n" "n < 2 ^ 23" by (auto simp: enc_tick_spacing_def split: if_splits)
  then have i: "int256 n" by (simp add: int256_def)
  have "enc_tick_spacing n = enc_uint (twos n)" using r by (simp add: enc_tick_spacing_def twos_def)
  with e twos_uint256[OF i] have "w = to_be 32 (nat (twos n))" by (simp add: enc_uint_ok)
  with from_be_uint[OF twos_uint256[OF i]] to_signed_twos[OF i] r
  show "to_signed (from_be w) = n \<and> - (2 ^ 23) \<le> n \<and> n < 2 ^ 23" by simp
qed (simp add: enc_tick_spacing_def)

text \<open>The counters explain a batch: as many failures are counted as slots are left empty.\<close>

theorem batch_failures_counted:
  assumes "quote_constant_product_many kec b router reqs (Some d) = Inr (qs, dg)"
  shows "\<exists>e. dg = Some e \<and> failures e = failures d + length (filter (\<lambda>q. q = None) qs)"
proof (cases "reqs = []")
  case True
  with assms show ?thesis by (auto simp: quote_constant_product_many_def)
next
  case False
  with assms obtain calls where
    "each (answer_with constant_product_parse ''invalid_quote_result'') (b calls) (Some d) = (qs, dg)"
    by (auto simp: quote_constant_product_many_def rbind_eq_Inr)
  with constant_product.each_explained[of "b calls" d] show ?thesis by auto
qed

theorem batch_failures_counted_witness:
  "\<exists>qs dg. quote_constant_product_many kec silent_batch zero_address [(zero_address, zero_address, 5)]
       (Some \<lparr>qd_failures = [], qd_decoded = 0\<rparr>) = Inr (qs, dg) \<and> (\<exists>e. dg = Some e \<and> failures e = length (filter (\<lambda>q. q = None) qs))"
proof -
  have "enc_uint 5 = Inr (to_be 32 5)" "enc_uint 64 = Inr (to_be 32 64)" "enc_uint 2 = Inr (to_be 32 2)"
    using enc_small[of 5] enc_small[of 64] enc_small[of 2] by simp_all
  then have "\<exists>x. quote_constant_product_many kec silent_batch zero_address [(zero_address, zero_address, 5)]
       (Some \<lparr>qd_failures = [], qd_decoded = 0\<rparr>) = Inr x"
    by (simp add: quote_constant_product_many_def constant_product_calldata_def zero_address_word(2))
  then obtain qs dg where q: "quote_constant_product_many kec silent_batch zero_address [(zero_address, zero_address, 5)]
       (Some \<lparr>qd_failures = [], qd_decoded = 0\<rparr>) = Inr (qs, dg)" by auto
  from batch_failures_counted[OF q] q show ?thesis by (auto simp: failures_def)
qed

end
