(* ===== verification/Recovery_Store.thy ===== *)
theory Recovery_Store
  imports Ledger_Journal
begin

text \<open>
  \<open>persistence/repositories/auto_trade_recovery_repository.py\<close>: the outage record of a component. A state row per
  component says whether it is degraded, since when, and how often it was; an event row is added when it
  becomes degraded, when the blocker changes, and when it recovers. The row and the event are written in one
  connection, so both are written or none. A row holds what its JSON text reads back as.
\<close>

section \<open>Tables\<close>

record recovery_row =
  rs_chain :: string
  rs_component :: string
  rs_is_degraded :: int
  rs_degraded_since :: int
  rs_last_recovered :: int
  rs_updated :: int
  rs_reason_code :: string
  rs_payload :: pydict

record recovery_event =
  re_chain :: string
  re_component :: string
  re_ts :: int
  re_type :: string
  re_stage :: string
  re_reason_code :: string
  re_blocker :: string
  re_next_action :: string
  re_payload :: pydict

record recovery_db =
  rd_state :: "recovery_row list"
  rd_events :: "recovery_event list"

text \<open>\<open>INSERT OR REPLACE\<close> on the key of chain and component; event ids grow with the position.\<close>

definition same_row :: "string \<Rightarrow> string \<Rightarrow> recovery_row \<Rightarrow> bool" where
  "same_row chain component row \<longleftrightarrow> rs_chain row = chain \<and> rs_component row = component"

definition replace_row :: "recovery_row \<Rightarrow> recovery_row list \<Rightarrow> recovery_row list" where
  "replace_row row rows = filter (\<lambda>r. \<not> same_row (rs_chain row) (rs_component row) r) rows @ [row]"

definition load :: "string \<Rightarrow> string \<Rightarrow> recovery_db \<Rightarrow> pydict" where
  "load chain component db = (case List.find (same_row chain component) (rd_state db) of
       None \<Rightarrow> []
     | Some row \<Rightarrow> rs_payload row)"

section \<open>Reading loose values\<close>

definition int_like :: "pyval \<Rightarrow> int res" where
  "int_like v = (case py_int (por v (PInt 0)) of
       Inr n \<Rightarrow> Inr n
     | Inl e \<Rightarrow> if e = TypeError \<or> e = ValueError then Inr 0 else Inl e)"

text \<open>\<open>list(values or [])\<close>, then the texts that are not empty.\<close>

definition string_list :: "pyval \<Rightarrow> string list res" where
  "string_list v =
     (if \<not> truthy v then Inr []
      else (case v of
          PList xs \<Rightarrow> Inr (filter (\<lambda>s. s \<noteq> []) (map py_str xs))
        | PStr s \<Rightarrow> Inr (map (\<lambda>c. [c]) s)
        | PDict d \<Rightarrow> Inr (filter (\<lambda>s. s \<noteq> []) (map fst d))
        | _ \<Rightarrow> Inl TypeError))"

fun pick_string :: "pyval list \<Rightarrow> string \<Rightarrow> string" where
  "pick_string [] dflt = dflt"
| "pick_string (v # vs) dflt = (let s = strip (str_or_empty v) in if s \<noteq> [] then s else pick_string vs dflt)"

fun pick_strings :: "pyval list \<Rightarrow> string list res" where
  "pick_strings [] = Inr []"
| "pick_strings (v # vs) = rbind (string_list v) (\<lambda>items. if items \<noteq> [] then Inr items else pick_strings vs)"

fun pick_int :: "pyval list \<Rightarrow> int res" where
  "pick_int [] = Inr 0"
| "pick_int (v # vs) = rbind (int_like v) (\<lambda>n. if 0 < n then Inr n else pick_int vs)"

definition strs :: "string list \<Rightarrow> pyval" where
  "strs xs = PList (map PStr xs)"

section \<open>An observation\<close>

record observation =
  ob_component :: string
  ob_degraded :: bool
  ob_ts :: int
  ob_reason_code :: string
  ob_stage :: string
  ob_blocker :: string
  ob_next_action :: string
  ob_reason_codes :: pyval
  ob_extras :: pyval

definition component_name :: "observation \<Rightarrow> string" where
  "component_name ob = (if ob_component ob = [] then ''auto_trade_admission'' else ob_component ob)"

text \<open>What is said of the present state: codes, code, stage, blocker and next action.\<close>

record context_now =
  cx_codes :: "string list"
  cx_code :: string
  cx_stage :: string
  cx_blocker :: string
  cx_next :: string

definition context_text :: "string \<Rightarrow> pyval \<Rightarrow> string \<Rightarrow> string" where
  "context_text s v dflt = py_str (por (PStr s) (por v (PStr dflt)))"

definition normalize_context :: "observation \<Rightarrow> pydict \<Rightarrow> context_now res" where
  "normalize_context ob cur =
     rbind (if ob_degraded ob then string_list (por (ob_reason_codes ob) (dget cur ''last_reason_codes'')) else Inr []) (\<lambda>codes.
     let code = (if ob_degraded ob then context_text (ob_reason_code ob) (dget cur ''last_reason_code'') ''degraded'' else ''ok'');
         codes' = (if code \<noteq> ''ok'' \<and> code \<notin> set codes then code # codes
                   else if code = ''ok'' \<and> \<not> ob_degraded ob \<and> ob_reason_codes ob = PNone then [] else codes) in
     Inr (if ob_degraded ob then
            \<lparr>cx_codes = codes', cx_code = code, cx_stage = context_text (ob_stage ob) (dget cur ''last_stage'') ''ok'',
             cx_blocker = context_text (ob_blocker ob) (dget cur ''last_blocker_component'') [],
             cx_next = context_text (ob_next_action ob) (dget cur ''last_next_action'') []\<rparr>
          else \<lparr>cx_codes = codes', cx_code = code, cx_stage = ''ok'', cx_blocker = [], cx_next = []\<rparr>))"

definition was_degraded :: "pydict \<Rightarrow> bool" where
  "was_degraded cur = truthy (dget_or cur ''is_degraded'' (PBool False))"

text \<open>While recovering, what is on record comes before what the observer adds.\<close>

definition on_record :: "bool \<Rightarrow> pyval \<Rightarrow> pyval \<Rightarrow> pyval list" where
  "on_record recovering current extra = (if recovering then [current, extra] else [extra, current])"

section \<open>The counters of outages\<close>

record outage =
  og_since :: int
  og_recovered :: int
  og_count :: int
  og_healthy :: int

definition outage_of :: "pydict \<Rightarrow> outage res" where
  "outage_of cur =
     rbind (int_like (dget cur ''degraded_since_ts_ms'')) (\<lambda>since. rbind (int_like (dget cur ''last_recovered_ts_ms'')) (\<lambda>rec.
     rbind (int_like (dget cur ''degraded_count'')) (\<lambda>n. rbind (int_like (dget cur ''last_healthy_ts_ms'')) (\<lambda>healthy.
     Inr \<lparr>og_since = since, og_recovered = rec, og_count = n, og_healthy = healthy\<rparr>))))"

definition next_outage :: "bool \<Rightarrow> bool \<Rightarrow> int \<Rightarrow> outage \<Rightarrow> outage" where
  "next_outage degraded was now og =
     (if degraded then
        (if \<not> was \<or> og_since og \<le> 0 then og\<lparr>og_since := now, og_count := max 0 (og_count og) + 1\<rparr> else og)
      else og\<lparr>og_recovered := (if was then now else og_recovered og), og_since := 0,
              og_healthy := (if 0 < now then now else og_healthy og)\<rparr>)"

definition history_status :: "bool \<Rightarrow> outage \<Rightarrow> string" where
  "history_status degraded og = (if degraded then ''blocked'' else if 0 < og_recovered og then ''recovered'' else ''steady'')"

section \<open>History, reliability and truth fields\<close>

definition history_times :: "bool \<Rightarrow> bool \<Rightarrow> int \<Rightarrow> outage \<Rightarrow> pydict \<Rightarrow> pydict \<Rightarrow> (int \<times> int) res" where
  "history_times degraded was now og cur ex =
     (if \<not> degraded \<and> was then
        rbind (pick_int [dget cur ''degraded_since_ts_ms'', dget ex ''history_degraded_since_ts_ms'', dget cur ''history_degraded_since_ts_ms'']) (\<lambda>since.
        rbind (pick_int [PInt (og_recovered og), dget ex ''history_recovered_at_ts_ms'', dget cur ''history_recovered_at_ts_ms'', PInt now]) (\<lambda>at.
        Inr (since, at)))
      else if degraded then
        rbind (pick_int [dget ex ''history_degraded_since_ts_ms'', dget cur ''history_degraded_since_ts_ms'', PInt (og_since og)]) (\<lambda>since.
        Inr (since, 0))
      else
        rbind (pick_int [dget ex ''history_degraded_since_ts_ms'', dget cur ''history_degraded_since_ts_ms'']) (\<lambda>since.
        rbind (pick_int [dget ex ''history_recovered_at_ts_ms'', dget cur ''history_recovered_at_ts_ms'', PInt (og_recovered og)]) (\<lambda>at.
        Inr (since, at))))"

definition history_fields :: "bool \<Rightarrow> bool \<Rightarrow> context_now \<Rightarrow> pydict \<Rightarrow> pydict \<Rightarrow> pydict res" where
  "history_fields degraded was cx cur ex =
     (let recovering = (\<not> degraded \<and> was) in
      rbind (pick_strings (on_record recovering (dget cur ''last_reason_codes'') (dget ex ''history_reason_codes'') @ [strs (cx_codes cx)])) (\<lambda>codes.
      Inr [(''history_component'', PStr (pick_string (on_record recovering (dget cur ''history_component'') (dget ex ''history_component'') @ [PStr (cx_blocker cx)]) [])),
           (''history_stage'', PStr (pick_string (on_record recovering (dget cur ''history_stage'') (dget ex ''history_stage'') @ [PStr (cx_stage cx)]) ''ok'')),
           (''history_reason_code'', PStr (pick_string (on_record recovering (dget cur ''last_reason_code'') (dget ex ''history_reason_code'') @ [PStr (cx_code cx)])
              (if degraded then ''degraded'' else ''ok''))),
           (''history_reason_codes'', strs codes),
           (''history_next_action'', PStr (pick_string (on_record recovering (dget cur ''last_next_action'') (dget ex ''history_next_action'') @ [PStr (cx_next cx)]) []))]))"

definition reliability_fields :: "context_now \<Rightarrow> pydict \<Rightarrow> pydict \<Rightarrow> pydict res" where
  "reliability_fields cx cur ex =
     (let cls = pick_string [dget ex ''reliability_class'', dget cur ''reliability_class'', PStr ''stable''] ''stable'';
          code = pick_string [dget ex ''reliability_reason_code'', dget cur ''reliability_reason_code'', PStr ''ok''] ''ok'';
          act = pick_string [dget ex ''reliability_next_action'', dget cur ''reliability_next_action'', PStr (cx_next cx)] [] in
      rbind (pick_strings [dget ex ''reliability_reason_codes'', dget cur ''reliability_reason_codes'']) (\<lambda>codes.
      rbind (pick_strings [dget ex ''component_reliability_reason_codes'', dget cur ''component_reliability_reason_codes'', strs codes]) (\<lambda>ccodes.
      Inr [(''reliability_class'', PStr cls), (''reliability_reason_code'', PStr code), (''reliability_reason_codes'', strs codes),
           (''reliability_next_action'', PStr act),
           (''component_reliability_class'', PStr (pick_string [dget ex ''component_reliability_class'', dget cur ''component_reliability_class'', PStr cls] cls)),
           (''component_reliability_reason_code'',
              PStr (pick_string [dget ex ''component_reliability_reason_code'', dget cur ''component_reliability_reason_code'', PStr code] code)),
           (''component_reliability_reason_codes'', strs ccodes),
           (''component_reliability_next_action'',
              PStr (pick_string [dget ex ''component_reliability_next_action'', dget cur ''component_reliability_next_action'', PStr act] []))])))"

definition truth_codes :: "bool \<Rightarrow> bool \<Rightarrow> pydict \<Rightarrow> pydict \<Rightarrow> pydict res" where
  "truth_codes degraded was cur ex =
     (let recovering = (\<not> degraded \<and> was) in
      rbind (pick_strings (on_record recovering (dget cur ''family_hardening_reason_codes'') (dget ex ''family_hardening_reason_codes''))) (\<lambda>fam.
      rbind (pick_strings (on_record recovering (dget cur ''receipt_outcome_truth_reason_codes'') (dget ex ''receipt_outcome_truth_reason_codes''))) (\<lambda>truth.
      Inr [(''family_hardening_reason_codes'', strs fam), (''receipt_outcome_truth_reason_codes'', strs truth)])))"

definition recovered_fragile :: "bool \<Rightarrow> pydict \<Rightarrow> pydict \<Rightarrow> pydict \<Rightarrow> pydict \<Rightarrow> bool" where
  "recovered_fragile degraded cur ex hist rel =
     (if degraded then False
      else if truthy (dget hist ''history_component'') \<and> dget rel ''component_reliability_class'' = PStr ''fragile'' then True
      else truthy (dget_or ex ''component_recovered_fragile'' (dget_or cur ''component_recovered_fragile'' (PBool False))))"

section \<open>One observation\<close>

text \<open>Everything an observation settles before it writes.\<close>

record findings =
  fd_outage :: outage
  fd_context :: context_now
  fd_history :: pydict
  fd_since :: int
  fd_recovered_at :: int
  fd_reliability :: pydict
  fd_fragile :: bool
  fd_truth :: pydict

definition assess :: "observation \<Rightarrow> pydict \<Rightarrow> findings res" where
  "assess ob cur =
     (let degraded = ob_degraded ob; was = was_degraded cur; ex = as_dict (ob_extras ob) in
      rbind (outage_of cur) (\<lambda>og.
      rbind (normalize_context ob cur) (\<lambda>cx.
      rbind (history_fields degraded was cx cur ex) (\<lambda>hist.
      rbind (history_times degraded was (ob_ts ob) og cur ex) (\<lambda>(since, at).
      rbind (reliability_fields cx cur ex) (\<lambda>rel.
      rbind (truth_codes degraded was cur ex) (\<lambda>truth.
      Inr \<lparr>fd_outage = next_outage degraded was (ob_ts ob) og, fd_context = cx, fd_history = hist, fd_since = since,
           fd_recovered_at = at, fd_reliability = rel, fd_fragile = recovered_fragile degraded cur ex hist rel,
           fd_truth = truth\<rparr>)))))))"

definition canonical_fields :: "observation \<Rightarrow> findings \<Rightarrow> pydict" where
  "canonical_fields ob fd =
     (let og = fd_outage fd; cx = fd_context fd in
      [(''component'', PStr (component_name ob)), (''is_degraded'', PBool (ob_degraded ob)),
       (''degraded_since_ts_ms'', PInt (og_since og)), (''last_recovered_ts_ms'', PInt (og_recovered og)),
       (''degraded_count'', PInt (og_count og)), (''last_healthy_ts_ms'', PInt (og_healthy og)),
       (''updated_ts_ms'', PInt (ob_ts ob)), (''history_status'', PStr (history_status (ob_degraded ob) og)),
       (''last_reason_code'', PStr (cx_code cx)), (''last_stage'', PStr (cx_stage cx)),
       (''last_blocker_component'', PStr (cx_blocker cx)), (''last_next_action'', PStr (cx_next cx)),
       (''last_reason_codes'', strs (cx_codes cx))]
      @ fd_history fd
      @ [(''history_degraded_since_ts_ms'', PInt (fd_since fd)), (''history_recovered_at_ts_ms'', PInt (fd_recovered_at fd))]
      @ fd_reliability fd
      @ [(''component_recovered_fragile'', PBool (fd_fragile fd))]
      @ fd_truth fd)"

text \<open>The observer's extra fields are added, then the canonical ones are set again.\<close>

definition state_payload :: "observation \<Rightarrow> findings \<Rightarrow> pydict" where
  "state_payload ob fd = dupdate (dupdate (canonical_fields ob fd) (as_dict (ob_extras ob))) (canonical_fields ob fd)"

definition context_changed :: "context_now \<Rightarrow> pydict \<Rightarrow> bool res" where
  "context_changed cx cur =
     (if cx_code cx \<noteq> str_or_empty (dget cur ''last_reason_code'') \<or> cx_stage cx \<noteq> str_or_empty (dget cur ''last_stage'') \<or>
         cx_blocker cx \<noteq> str_or_empty (dget cur ''last_blocker_component'') \<or> cx_next cx \<noteq> str_or_empty (dget cur ''last_next_action'')
      then Inr True
      else rbind (string_list (dget cur ''last_reason_codes'')) (\<lambda>codes. Inr (cx_codes cx \<noteq> codes)))"

definition transition_kind :: "bool \<Rightarrow> bool \<Rightarrow> bool \<Rightarrow> string option" where
  "transition_kind degraded was changed =
     (if degraded \<and> \<not> was then Some ''blocked''
      else if \<not> degraded \<and> was then Some ''recovered''
      else if degraded \<and> was \<and> changed then Some ''blocked_update''
      else None)"

definition event_payload :: "observation \<Rightarrow> findings \<Rightarrow> string \<Rightarrow> pydict" where
  "event_payload ob fd kind =
     (let og = fd_outage fd; cx = fd_context fd; hist = fd_history fd in
      [(''component'', PStr (component_name ob)), (''degraded'', PBool (kind \<noteq> ''recovered'')),
       (''history_status'', PStr (if ob_degraded ob then ''blocked'' else ''recovered'')),
       (''stage'', PStr (cx_stage cx)), (''reason_code'', PStr (cx_code cx)), (''reason_codes'', strs (cx_codes cx)),
       (''history_reason_code'', dget hist ''history_reason_code''), (''history_reason_codes'', dget hist ''history_reason_codes''),
       (''history_next_action'', dget hist ''history_next_action''),
       (''history_degraded_since_ts_ms'', PInt (fd_since fd)), (''history_recovered_at_ts_ms'', PInt (fd_recovered_at fd)),
       (''blocker_component'', PStr (cx_blocker cx)), (''next_action'', PStr (cx_next cx)),
       (''degraded_count'', PInt (og_count og)),
       (''degraded_since_ts_ms'', PInt (if kind = ''recovered'' then fd_since fd else og_since og)),
       (''recovered_at_ts_ms'', PInt (if kind = ''recovered'' then fd_recovered_at fd else og_recovered og)),
       (''last_healthy_ts_ms'', PInt (og_healthy og)), (''updated_ts_ms'', PInt (ob_ts ob)),
       (''history_component'', dget hist ''history_component''), (''history_stage'', dget hist ''history_stage'')]
      @ fd_reliability fd
      @ [(''component_recovered_fragile'', PBool (fd_fragile fd))]
      @ fd_truth fd)"

definition sorted_dict :: "pydict \<Rightarrow> pydict" where
  "sorted_dict d = as_dict (json_sorted (PDict d))"

text \<open>\<open>observe\<close>: an exception leaves the tables as they were.\<close>

definition observe :: "string \<Rightarrow> observation \<Rightarrow> recovery_db \<Rightarrow> recovery_db \<times> pydict res" where
  "observe chain ob db =
     (let cur = load chain (component_name ob) db in
      case rbind (assess ob cur) (\<lambda>fd. rbind (context_changed (fd_context fd) cur) (\<lambda>changed.
           rbind (sql_int (og_since (fd_outage fd))) (\<lambda>since. rbind (sql_int (og_recovered (fd_outage fd))) (\<lambda>rec.
           rbind (sql_int (ob_ts ob)) (\<lambda>now. Inr (fd, changed, since, rec, now)))))) of
        Inl e \<Rightarrow> (db, Inl e)
      | Inr (fd, changed, since, rec, now) \<Rightarrow>
          let payload = state_payload ob fd; cx = fd_context fd;
              row = \<lparr>rs_chain = chain, rs_component = component_name ob, rs_is_degraded = (if ob_degraded ob then 1 else 0),
                     rs_degraded_since = since, rs_last_recovered = rec, rs_updated = now,
                     rs_reason_code = cx_code cx, rs_payload = sorted_dict payload\<rparr>;
              events = (case transition_kind (ob_degraded ob) (was_degraded cur) changed of
                  None \<Rightarrow> []
                | Some kind \<Rightarrow>
                    [\<lparr>re_chain = chain, re_component = component_name ob, re_ts = now, re_type = kind, re_stage = cx_stage cx,
                      re_reason_code = cx_code cx, re_blocker = cx_blocker cx, re_next_action = cx_next cx,
                      re_payload = sorted_dict (event_payload ob fd kind)\<rparr>]) in
          (\<lparr>rd_state = replace_row row (rd_state db), rd_events = rd_events db @ events\<rparr>, Inr payload))"

definition text_default :: "string \<Rightarrow> string \<Rightarrow> string" where
  "text_default s dflt = (if s = [] then dflt else s)"

definition append_recovery_event ::
    "string \<Rightarrow> string \<Rightarrow> int \<Rightarrow> string \<Rightarrow> string \<Rightarrow> string \<Rightarrow> string \<Rightarrow> string \<Rightarrow> pydict \<Rightarrow> recovery_db \<Rightarrow> recovery_db \<times> unit res" where
  "append_recovery_event chain component ts kind stage code blocker act payload db =
     (case sql_int ts of
        Inl e \<Rightarrow> (db, Inl e)
      | Inr t \<Rightarrow> (db\<lparr>rd_events := rd_events db @
            [\<lparr>re_chain = chain, re_component = component, re_ts = t, re_type = text_default kind ''state_changed'',
              re_stage = text_default stage ''ok'', re_reason_code = text_default code ''ok'', re_blocker = blocker,
              re_next_action = act, re_payload = sorted_dict payload\<rparr>]\<rparr>, Inr ()))"

section \<open>Reading the events\<close>

fun first_of :: "pyval list \<Rightarrow> string \<Rightarrow> string" where
  "first_of [] dflt = dflt"
| "first_of (v # vs) dflt = (if truthy v then py_str v else first_of vs dflt)"

fun first_truthy :: "pyval list \<Rightarrow> pyval" where
  "first_truthy [] = PList []"
| "first_truthy (v # vs) = (if truthy v then v else first_truthy vs)"

definition view_status :: "string \<Rightarrow> pydict \<Rightarrow> string" where
  "view_status kind p =
     (if kind = ''recovered'' then ''recovered''
      else if kind \<in> {''blocked'', ''blocked_update''} then ''blocked''
      else first_of [dget p ''history_status''] ''steady'')"

definition view_degraded :: "string \<Rightarrow> pydict \<Rightarrow> bool" where
  "view_degraded kind p =
     (if kind = ''recovered'' then False
      else if kind \<in> {''blocked'', ''blocked_update''} then True
      else truthy (dget_or p ''is_degraded'' (dget_or p ''degraded'' (PBool False))))"

definition view_since :: "string \<Rightarrow> recovery_event \<Rightarrow> pydict \<Rightarrow> int res" where
  "view_since status e p =
     rbind (int_like (if status = ''recovered'' then dget p ''history_degraded_since_ts_ms'' else dget p ''degraded_since_ts_ms'')) (\<lambda>n.
     Inr (if status = ''blocked'' \<and> n \<le> 0 then re_ts e else n))"

definition view_recovered_at :: "string \<Rightarrow> recovery_event \<Rightarrow> pydict \<Rightarrow> int res" where
  "view_recovered_at status e p =
     rbind (int_like (if status = ''recovered'' then dget p ''history_recovered_at_ts_ms''
         else por (dget p ''last_recovered_ts_ms'') (dget p ''recovered_at_ts_ms''))) (\<lambda>n.
     if status = ''recovered'' \<and> n \<le> 0 then pick_int [dget p ''last_recovered_ts_ms'', PInt (re_ts e)] else Inr n)"

definition view_fragile :: "string \<Rightarrow> pydict \<Rightarrow> bool" where
  "view_fragile status p =
     (let cls = first_of [dget p ''component_reliability_class'', dget p ''reliability_class''];
          component = first_of [dget p ''history_component'', dget p ''blocker_component''] [] in
      if status = ''recovered'' \<and> component \<noteq> [] \<and> cls ''stable'' = ''fragile'' then True
      else truthy (dget_or p ''component_recovered_fragile''
             (PBool (first_of [dget p ''history_status''] [] = ''recovered'' \<and> cls [] = ''fragile''))))"

definition event_view :: "recovery_event \<Rightarrow> pydict res" where
  "event_view e =
     (let p = re_payload e; kind = re_type e; status = view_status kind p; row = (\<lambda>s. PStr s) in
      rbind (string_list (dget p ''reason_codes'')) (\<lambda>codes.
      rbind (view_since status e p) (\<lambda>since.
      rbind (view_recovered_at status e p) (\<lambda>at.
      rbind (int_like (dget p ''degraded_count'')) (\<lambda>n.
      rbind (int_like (dget p ''last_healthy_ts_ms'')) (\<lambda>healthy.
      rbind (int_like (dget p ''updated_ts_ms'')) (\<lambda>updated.
      rbind (string_list (dget p ''history_reason_codes'')) (\<lambda>hcodes.
      rbind (string_list (dget p ''reliability_reason_codes'')) (\<lambda>rcodes.
      rbind (string_list (first_truthy [dget p ''component_reliability_reason_codes'', dget p ''reliability_reason_codes''])) (\<lambda>ccodes.
      rbind (string_list (dget p ''family_hardening_reason_codes'')) (\<lambda>fcodes.
      rbind (string_list (dget p ''receipt_outcome_truth_reason_codes'')) (\<lambda>tcodes.
      Inr [(''ts_ms'', PInt (re_ts e)), (''event_type'', PStr kind),
           (''stage'', PStr (first_of [row (re_stage e), dget p ''stage''] ''ok'')),
           (''reason_code'', PStr (first_of [row (re_reason_code e), dget p ''reason_code''] ''ok'')),
           (''reason_codes'', strs codes),
           (''blocker_component'', PStr (first_of ([row (re_blocker e), dget p ''blocker_component''] @
              (if kind = ''recovered'' then [] else [dget p ''history_component''])) [])),
           (''next_action'', PStr (first_of ([row (re_next_action e), dget p ''next_action''] @
              (if kind = ''recovered'' then [] else [dget p ''history_next_action'', dget p ''component_reliability_next_action'',
                 dget p ''reliability_next_action''])) [])),
           (''degraded'', PBool (view_degraded kind p)), (''history_status'', PStr status),
           (''degraded_count'', PInt n), (''degraded_since_ts_ms'', PInt since), (''recovered_at_ts_ms'', PInt at),
           (''last_healthy_ts_ms'', PInt healthy), (''updated_ts_ms'', PInt updated),
           (''history_component'', PStr (first_of [dget p ''history_component'', dget p ''blocker_component''] [])),
           (''history_stage'', PStr (first_of [dget p ''history_stage'', dget p ''stage''] ''ok'')),
           (''history_reason_code'', PStr (first_of [dget p ''history_reason_code''] [])),
           (''history_reason_codes'', strs hcodes),
           (''history_next_action'', PStr (first_of [dget p ''history_next_action''] [])),
           (''reliability_class'', PStr (first_of [dget p ''reliability_class''] ''stable'')),
           (''reliability_reason_code'', PStr (first_of [dget p ''reliability_reason_code''] ''ok'')),
           (''reliability_reason_codes'', strs rcodes),
           (''reliability_next_action'', PStr (first_of [dget p ''reliability_next_action'', dget p ''next_action''] [])),
           (''component_reliability_class'', PStr (first_of [dget p ''component_reliability_class'', dget p ''reliability_class''] ''stable'')),
           (''component_reliability_reason_code'',
              PStr (first_of [dget p ''component_reliability_reason_code'', dget p ''reliability_reason_code''] ''ok'')),
           (''component_reliability_reason_codes'', strs ccodes),
           (''component_reliability_next_action'', PStr (first_of [dget p ''component_reliability_next_action'',
              dget p ''reliability_next_action'', dget p ''next_action''] [])),
           (''component_recovered_fragile'', PBool (view_fragile status p)),
           (''family_hardening_reason_codes'', strs fcodes),
           (''receipt_outcome_truth_reason_codes'', strs tcodes)]))))))))))))"

definition events_of :: "string \<Rightarrow> string \<Rightarrow> recovery_db \<Rightarrow> recovery_event list" where
  "events_of chain component db = filter (\<lambda>e. re_chain e = chain \<and> re_component e = component) (rd_events db)"

definition event_limit :: "int \<Rightarrow> nat" where
  "event_limit limit = nat (max 1 (min 100 (if limit = 0 then 10 else limit)))"

definition recent_events :: "string \<Rightarrow> string \<Rightarrow> int \<Rightarrow> recovery_db \<Rightarrow> pydict list res" where
  "recent_events chain component limit db =
     mapr event_view (take (event_limit limit) (newest_first re_ts (events_of chain component db)))"

section \<open>What a row reads back as\<close>

lemma int_like_PInt [simp]: "int_like (PInt n) = Inr n" "int_like PNone = Inr 0"
  by (simp_all add: int_like_def por_def)

lemma json_sorted_strs [simp]: "json_sorted (strs xs) = strs xs"
  by (simp add: strs_def)

lemma history_keys:
  "history_fields d w cx cur ex = Inr h \<Longrightarrow>
   map fst h = [''history_component'', ''history_stage'', ''history_reason_code'', ''history_reason_codes'', ''history_next_action'']"
  by (auto simp: history_fields_def Let_def rbind_eq_Inr)

lemma reliability_keys:
  "reliability_fields cx cur ex = Inr r \<Longrightarrow>
   map fst r = [''reliability_class'', ''reliability_reason_code'', ''reliability_reason_codes'', ''reliability_next_action'',
     ''component_reliability_class'', ''component_reliability_reason_code'', ''component_reliability_reason_codes'',
     ''component_reliability_next_action'']"
  by (auto simp: reliability_fields_def Let_def rbind_eq_Inr)

lemma truth_keys:
  "truth_codes d w cur ex = Inr t \<Longrightarrow> map fst t = [''family_hardening_reason_codes'', ''receipt_outcome_truth_reason_codes'']"
  by (auto simp: truth_codes_def Let_def rbind_eq_Inr)

lemma assess_parts:
  assumes "assess ob cur = Inr fd"
  obtains og where "outage_of cur = Inr og"
    and "fd_outage fd = next_outage (ob_degraded ob) (was_degraded cur) (ob_ts ob) og"
    and "normalize_context ob cur = Inr (fd_context fd)"
    and "history_fields (ob_degraded ob) (was_degraded cur) (fd_context fd) cur (as_dict (ob_extras ob)) = Inr (fd_history fd)"
    and "history_times (ob_degraded ob) (was_degraded cur) (ob_ts ob) og cur (as_dict (ob_extras ob)) = Inr (fd_since fd, fd_recovered_at fd)"
    and "reliability_fields (fd_context fd) cur (as_dict (ob_extras ob)) = Inr (fd_reliability fd)"
    and "truth_codes (ob_degraded ob) (was_degraded cur) cur (as_dict (ob_extras ob)) = Inr (fd_truth fd)"
  using assms by (auto simp: assess_def Let_def rbind_eq_Inr)

lemma canonical_distinct:
  assumes "assess ob cur = Inr fd"
  shows "distinct (map fst (canonical_fields ob fd))"
  using assms
proof (rule assess_parts)
  fix og
  assume h: "history_fields (ob_degraded ob) (was_degraded cur) (fd_context fd) cur (as_dict (ob_extras ob)) = Inr (fd_history fd)"
    and r: "reliability_fields (fd_context fd) cur (as_dict (ob_extras ob)) = Inr (fd_reliability fd)"
    and t: "truth_codes (ob_degraded ob) (was_degraded cur) cur (as_dict (ob_extras ob)) = Inr (fd_truth fd)"
  show ?thesis
    by (simp only: canonical_fields_def Let_def map_append list.map fst_conv history_keys[OF h] reliability_keys[OF r] truth_keys[OF t]) simp
qed

lemma payload_lookup:
  assumes "assess ob cur = Inr fd" and "map_of (canonical_fields ob fd) k = Some v"
  shows "map_of (state_payload ob fd) k = Some v" and "dget (sorted_dict (state_payload ob fd)) k = json_sorted v"
proof -
  note d = canonical_distinct[OF assms(1)]
  show p: "map_of (state_payload ob fd) k = Some v"
    using assms(2) by (simp add: state_payload_def map_of_dupdate[OF d] map_add_def)
  have dist: "distinct (map fst (state_payload ob fd))"
    unfolding state_payload_def by (intro distinct_dupdate d)
  have "dget (state_payload ob fd) k = v" using p by (simp add: dget_def dget_or_def)
  with p show "dget (sorted_dict (state_payload ob fd)) k = json_sorted v"
    by (simp only: sorted_dict_def dget_json_sorted[OF dist] option.distinct if_False)
qed

lemma payload_outage:
  assumes "assess ob cur = Inr fd"
  shows "outage_of (sorted_dict (state_payload ob fd)) = Inr (fd_outage fd)"
    and "was_degraded (sorted_dict (state_payload ob fd)) = ob_degraded ob"
proof -
  have k: "map_of (canonical_fields ob fd) ''degraded_since_ts_ms'' = Some (PInt (og_since (fd_outage fd)))"
    "map_of (canonical_fields ob fd) ''last_recovered_ts_ms'' = Some (PInt (og_recovered (fd_outage fd)))"
    "map_of (canonical_fields ob fd) ''degraded_count'' = Some (PInt (og_count (fd_outage fd)))"
    "map_of (canonical_fields ob fd) ''last_healthy_ts_ms'' = Some (PInt (og_healthy (fd_outage fd)))"
    "map_of (canonical_fields ob fd) ''is_degraded'' = Some (PBool (ob_degraded ob))"
    by (simp_all add: canonical_fields_def Let_def)
  note p = k(1-5)[THEN payload_lookup(2)[OF assms]]
  show "outage_of (sorted_dict (state_payload ob fd)) = Inr (fd_outage fd)"
    using p(1-4) by (simp add: outage_of_def)
  have "dget_or (sorted_dict (state_payload ob fd)) ''is_degraded'' (PBool False) = PBool (ob_degraded ob)"
    using p(5) by (auto simp: dget_def dget_or_def split: option.splits)
  then show "was_degraded (sorted_dict (state_payload ob fd)) = ob_degraded ob"
    by (simp add: was_degraded_def)
qed

section \<open>What an observation writes\<close>

lemma find_appended: "List.find P (xs @ ys) = (case List.find P xs of None \<Rightarrow> List.find P ys | Some x \<Rightarrow> Some x)"
  by (induction xs) simp_all

lemma find_replaced:
  "List.find (same_row chain component) (replace_row row rows) =
     (if same_row chain component row then Some row else List.find (same_row chain component) rows)"
proof (cases "same_row chain component row")
  case True
  then have "List.find (same_row chain component) (filter (\<lambda>r. \<not> same_row (rs_chain row) (rs_component row) r) rows) = None"
    by (auto simp: find_None_iff same_row_def)
  with True show ?thesis by (simp add: replace_row_def find_appended split: option.split)
next
  case False
  then have "List.find (same_row chain component) (filter (\<lambda>r. \<not> same_row (rs_chain row) (rs_component row) r) rows) =
      List.find (same_row chain component) rows"
    by (induction rows) (auto simp: same_row_def)
  with False show ?thesis by (simp add: replace_row_def find_appended split: option.split)
qed

definition kinds_of :: "string option \<Rightarrow> string list" where
  "kinds_of k = (case k of None \<Rightarrow> [] | Some s \<Rightarrow> [s])"

lemma observe_raises: "observe chain ob db = (db', Inl e) \<Longrightarrow> db' = db"
  by (auto simp: observe_def Let_def split: sum.splits)

lemma observe_writes:
  assumes "observe chain ob db = (db', Inr p)"
  obtains fd changed evs where "assess ob (load chain (component_name ob) db) = Inr fd"
    and "p = state_payload ob fd"
    and "context_changed (fd_context fd) (load chain (component_name ob) db) = Inr changed"
    and "load chain (component_name ob) db' = sorted_dict p"
    and "\<And>c. c \<noteq> component_name ob \<Longrightarrow> load chain c db' = load chain c db"
    and "events_of chain (component_name ob) db' = events_of chain (component_name ob) db @ evs"
    and "\<And>c. c \<noteq> component_name ob \<Longrightarrow> events_of chain c db' = events_of chain c db"
    and "map re_type evs = kinds_of (transition_kind (ob_degraded ob) (was_degraded (load chain (component_name ob) db)) changed)"
    and "\<And>e. e \<in> set evs \<Longrightarrow> re_ts e = ob_ts ob \<and> re_payload e = sorted_dict (event_payload ob fd (re_type e))"
    and "sql_int (ob_ts ob) = Inr (ob_ts ob)"
proof -
  let ?cur = "load chain (component_name ob) db"
  from assms obtain fd changed where f: "assess ob ?cur = Inr fd" "context_changed (fd_context fd) ?cur = Inr changed"
      "sql_int (og_since (fd_outage fd)) = Inr (og_since (fd_outage fd))" "sql_int (og_recovered (fd_outage fd)) = Inr (og_recovered (fd_outage fd))"
      "sql_int (ob_ts ob) = Inr (ob_ts ob)"
    by (auto simp: observe_def Let_def sql_int_def rbind_eq_Inr split: sum.splits if_splits)
  define evs where "evs = (case transition_kind (ob_degraded ob) (was_degraded ?cur) changed of None \<Rightarrow> []
      | Some kind \<Rightarrow> [\<lparr>re_chain = chain, re_component = component_name ob, re_ts = ob_ts ob, re_type = kind, re_stage = cx_stage (fd_context fd),
          re_reason_code = cx_code (fd_context fd), re_blocker = cx_blocker (fd_context fd), re_next_action = cx_next (fd_context fd),
          re_payload = sorted_dict (event_payload ob fd kind)\<rparr>])"
  define row where "row = \<lparr>rs_chain = chain, rs_component = component_name ob, rs_is_degraded = (if ob_degraded ob then 1 else 0),
      rs_degraded_since = og_since (fd_outage fd), rs_last_recovered = og_recovered (fd_outage fd), rs_updated = ob_ts ob,
      rs_reason_code = cx_code (fd_context fd), rs_payload = sorted_dict (state_payload ob fd)\<rparr>"
  have r: "db' = \<lparr>rd_state = replace_row row (rd_state db), rd_events = rd_events db @ evs\<rparr>" "p = state_payload ob fd"
    using assms f by (auto simp: observe_def Let_def evs_def row_def)
  show thesis
  proof (rule that[of fd changed evs])
    show "load chain (component_name ob) db' = sorted_dict p"
      by (simp add: r load_def find_replaced same_row_def row_def)
    show "load chain c db' = load chain c db" if "c \<noteq> component_name ob" for c
      using that by (simp add: r load_def find_replaced same_row_def row_def)
    show "events_of chain (component_name ob) db' = events_of chain (component_name ob) db @ evs"
      by (simp add: r events_of_def evs_def split: option.split)
    show "events_of chain c db' = events_of chain c db" if "c \<noteq> component_name ob" for c
      using that by (simp add: r events_of_def evs_def split: option.split)
    show "map re_type evs = kinds_of (transition_kind (ob_degraded ob) (was_degraded ?cur) changed)"
      by (simp add: evs_def kinds_of_def split: option.split)
    show "re_ts e = ob_ts ob \<and> re_payload e = sorted_dict (event_payload ob fd (re_type e))" if "e \<in> set evs" for e
      using that by (auto simp: evs_def split: option.splits)
  qed (use f r in simp_all)
qed

section \<open>The log of outages\<close>

text \<open>The words of events that lead from one state (degraded or not) to another.\<close>

fun outage_word :: "bool \<Rightarrow> string list \<Rightarrow> bool \<Rightarrow> bool" where
  "outage_word d [] d' = (d = d')"
| "outage_word d (k # ks) d' =
     (if k = ''blocked'' then \<not> d \<and> outage_word True ks d'
      else if k = ''recovered'' then d \<and> outage_word False ks d'
      else if k = ''blocked_update'' then d \<and> outage_word True ks d'
      else False)"

lemma outage_word_snoc:
  "outage_word d ks m \<Longrightarrow> outage_word m [k] d' \<Longrightarrow> outage_word d (ks @ [k]) d'"
  by (induction ks arbitrary: d) (auto simp del: outage_word.simps(2) simp: outage_word.simps(2)[of _ _ "_ @ _"] outage_word.simps(2)[of _ _ _ m]
      split: if_splits)

definition last_of :: "string \<Rightarrow> recovery_event list \<Rightarrow> int" where
  "last_of k es = fold (\<lambda>e t. if re_type e = k then re_ts e else t) es 0"

lemma last_of_simps [simp]: "last_of k [] = 0" "last_of k (es @ [e]) = (if re_type e = k then re_ts e else last_of k es)"
  by (simp_all add: last_of_def)

definition outage_log :: "string \<Rightarrow> string \<Rightarrow> recovery_db \<Rightarrow> bool" where
  "outage_log chain component db \<longleftrightarrow>
     (let cur = load chain component db; es = events_of chain component db; was = was_degraded cur in
      outage_word False (map re_type es) was \<and>
      (\<exists>healthy. outage_of cur = Inr
         \<lparr>og_since = (if was then last_of ''blocked'' es else 0), og_recovered = last_of ''recovered'' es,
          og_count = int (count_list (map re_type es) ''blocked''), og_healthy = healthy\<rparr>) \<and>
      (was \<longrightarrow> 0 < last_of ''blocked'' es))"

lemma kinds_cases:
  assumes "map re_type evs = kinds_of k"
  obtains "k = None" "evs = []" | e s where "k = Some s" "evs = [e]" "re_type e = s"
  using assms by (cases k) (auto simp: kinds_of_def map_eq_Cons_conv)

lemma outage_log_step:
  assumes "outage_log chain c db" "0 < ob_ts ob"
  shows "outage_log chain c (fst (observe chain ob db))"
proof (cases "observe chain ob db")
  case (Pair db' res)
  show ?thesis
  proof (cases res)
    case (Inl e)
    with Pair observe_raises[of chain ob db db' e] assms(1) show ?thesis by simp
  next
    case (Inr p)
    with Pair have o: "observe chain ob db = (db', Inr p)" by simp
    show ?thesis
    proof (cases "c = component_name ob")
      case False
      with o assms(1) Pair show ?thesis
        by (elim observe_writes) (simp add: outage_log_def)
    next
      case True
      let ?cur = "load chain c db" and ?es = "events_of chain c db"
      define was where "was = was_degraded ?cur"
      from o obtain fd changed evs where w: "assess ob ?cur = Inr fd" "p = state_payload ob fd"
          "load chain c db' = sorted_dict p" "events_of chain c db' = ?es @ evs"
          "map re_type evs = kinds_of (transition_kind (ob_degraded ob) was changed)"
          "\<And>e. e \<in> set evs \<Longrightarrow> re_ts e = ob_ts ob"
        using True unfolding was_def by (elim observe_writes) blast
      have new: "outage_of (load chain c db') = Inr (fd_outage fd)" "was_degraded (load chain c db') = ob_degraded ob"
        using payload_outage[OF w(1)] w(2,3) by simp_all
      from assms(1) obtain healthy where old: "outage_word False (map re_type ?es) was"
          "outage_of ?cur = Inr \<lparr>og_since = (if was then last_of ''blocked'' ?es else 0), og_recovered = last_of ''recovered'' ?es,
             og_count = int (count_list (map re_type ?es) ''blocked''), og_healthy = healthy\<rparr>"
          "was \<longrightarrow> 0 < last_of ''blocked'' ?es"
        unfolding outage_log_def Let_def was_def by blast
      have fd: "fd_outage fd = next_outage (ob_degraded ob) was (ob_ts ob)
          \<lparr>og_since = (if was then last_of ''blocked'' ?es else 0), og_recovered = last_of ''recovered'' ?es,
             og_count = int (count_list (map re_type ?es) ''blocked''), og_healthy = healthy\<rparr>"
        using w(1) by (rule assess_parts) (use old(2) was_def in simp)
      have "outage_log chain c db'"
        using w(5)
      proof (cases rule: kinds_cases)
        case 1
        then have "ob_degraded ob = was" by (auto simp: transition_kind_def split: if_splits)
        with 1 old fd new w(4) show ?thesis by (auto simp: outage_log_def Let_def next_outage_def)
      next
        case (2 e s)
        then have ts: "re_ts e = ob_ts ob" using w(6) by simp
        from 2 old(1) have word: "outage_word False (map re_type ?es @ [s]) (ob_degraded ob)"
          by (intro outage_word_snoc[of _ _ was]) (auto simp: transition_kind_def split: if_splits)
        from 2(1) consider "s = ''blocked''" "ob_degraded ob" "\<not> was" | "s = ''recovered''" "\<not> ob_degraded ob" was
          | "s = ''blocked_update''" "ob_degraded ob" was
          by (auto simp: transition_kind_def split: if_splits)
        then show ?thesis
          using 2 old fd new w(4) word ts assms(2)
          by cases (simp_all add: outage_log_def Let_def next_outage_def)
      qed
      with Pair show ?thesis by simp
    qed
  qed
qed

inductive recovery_run :: "string \<Rightarrow> recovery_db \<Rightarrow> bool" for chain where
  started: "recovery_run chain \<lparr>rd_state = [], rd_events = []\<rparr>"
| observed: "recovery_run chain db \<Longrightarrow> 0 < ob_ts ob \<Longrightarrow> recovery_run chain (fst (observe chain ob db))"

lemma outage_log_run: "recovery_run chain db \<Longrightarrow> outage_log chain c db"
proof (induction rule: recovery_run.induct)
  case started
  show ?case by (simp add: outage_log_def load_def events_of_def was_degraded_def outage_of_def dget_or_def)
next
  case (observed db ob)
  then show ?case by (intro outage_log_step)
qed

text \<open>C31: the record of a component's outages is true to its events, over every run of observations of any
  components with positive times, whatever else the observers add and whether or not a call raises: the events
  alternate between blocked (with updates) and recovered and end in the recorded state, the count of outages is
  the number of blocked events, the start of the present outage is the time of the last one, and the last
  recovery is the time of the last recovered event.\<close>

theorem outage_record_true:
  assumes "recovery_run chain db"
  shows "outage_log chain component db"
  by (rule outage_log_run[OF assms])

section \<open>Observations that succeed\<close>

definition readable :: "pyval \<Rightarrow> bool" where
  "readable v \<longleftrightarrow> (\<exists>xs. string_list v = Inr xs)"

definition int_readable :: "pyval \<Rightarrow> bool" where
  "int_readable v \<longleftrightarrow> (\<exists>n. int_like v = Inr n)"

definition list_fields :: "string list" where
  "list_fields = [''reliability_reason_codes'', ''component_reliability_reason_codes'', ''family_hardening_reason_codes'',
     ''receipt_outcome_truth_reason_codes'']"

definition time_fields :: "string list" where
  "time_fields = [''history_degraded_since_ts_ms'', ''history_recovered_at_ts_ms'']"

definition fields_readable :: "pydict \<Rightarrow> bool" where
  "fields_readable d \<longleftrightarrow> (\<forall>k \<in> set list_fields. readable (dget d k)) \<and> (\<forall>k \<in> set time_fields. int_readable (dget d k))"

lemma readable_simps [simp]: "readable PNone" "readable (strs xs)" "readable (PList vs)" "int_readable PNone" "int_readable (PInt n)"
  by (auto simp: readable_def string_list_def int_readable_def strs_def)

lemma readable_por: "readable a \<Longrightarrow> readable b \<Longrightarrow> readable (por a b)"
  by (simp add: por_def)

lemma pick_strings_ok: "\<forall>v \<in> set vs. readable v \<Longrightarrow> \<exists>xs. pick_strings vs = Inr xs"
  by (induction vs) (auto simp: readable_def)

lemma pick_int_ok: "\<forall>v \<in> set vs. int_readable v \<Longrightarrow> \<exists>n. pick_int vs = Inr n"
  by (induction vs) (auto simp: int_readable_def)

text \<open>The observer's own lists and times can be read and its time fits the table.\<close>

definition sound_observer :: "observation \<Rightarrow> bool" where
  "sound_observer ob \<longleftrightarrow> readable (ob_reason_codes ob) \<and> fields_readable (as_dict (ob_extras ob)) \<and>
     readable (dget (as_dict (ob_extras ob)) ''history_reason_codes'') \<and> 0 < ob_ts ob \<and> ob_ts ob < 2 ^ 63"

definition sound_record :: "pydict \<Rightarrow> bool" where
  "sound_record cur \<longleftrightarrow> fields_readable cur \<and> readable (dget cur ''last_reason_codes'') \<and> int_readable (dget cur ''degraded_since_ts_ms'')"

lemma on_record_set [simp]: "set (on_record r a b) = {a, b}"
  by (auto simp: on_record_def)

lemma normalize_ok:
  assumes "readable (por (ob_reason_codes ob) (dget cur ''last_reason_codes''))"
  shows "\<exists>cx. normalize_context ob cur = Inr cx"
proof -
  obtain codes where c: "(if ob_degraded ob then string_list (por (ob_reason_codes ob) (dget cur ''last_reason_codes'')) else Inr []) = Inr codes"
    using assms by (cases "ob_degraded ob") (auto simp: readable_def)
  show ?thesis unfolding normalize_context_def c Let_def rbind_Inr by (rule exI) (rule refl)
qed

lemma history_times_ok:
  assumes "\<forall>d \<in> {cur, ex}. \<forall>k \<in> set time_fields. int_readable (dget d k)" "int_readable (dget cur ''degraded_since_ts_ms'')"
  shows "\<exists>st. history_times degraded was now og cur ex = Inr st"
proof -
  have t: "int_readable (dget cur ''history_degraded_since_ts_ms'')" "int_readable (dget cur ''history_recovered_at_ts_ms'')"
    "int_readable (dget ex ''history_degraded_since_ts_ms'')" "int_readable (dget ex ''history_recovered_at_ts_ms'')"
    using assms(1) by (simp_all add: time_fields_def)
  consider (r) "\<not> degraded \<and> was" | (d) degraded | (s) "\<not> degraded" "\<not> was" by blast
  then show ?thesis
  proof cases
    case r
    obtain a b where "pick_int [dget cur ''degraded_since_ts_ms'', dget ex ''history_degraded_since_ts_ms'', dget cur ''history_degraded_since_ts_ms''] = Inr a"
        "pick_int [PInt (og_recovered og), dget ex ''history_recovered_at_ts_ms'', dget cur ''history_recovered_at_ts_ms'', PInt now] = Inr b"
      using pick_int_ok[of "[dget cur ''degraded_since_ts_ms'', dget ex ''history_degraded_since_ts_ms'', dget cur ''history_degraded_since_ts_ms'']"]
        pick_int_ok[of "[PInt (og_recovered og), dget ex ''history_recovered_at_ts_ms'', dget cur ''history_recovered_at_ts_ms'', PInt now]"] t assms(2)
      by (auto simp del: pick_int.simps)
    with r show ?thesis by (simp del: pick_int.simps add: history_times_def)
  next
    case d
    obtain a where "pick_int [dget ex ''history_degraded_since_ts_ms'', dget cur ''history_degraded_since_ts_ms'', PInt (og_since og)] = Inr a"
      using pick_int_ok[of "[dget ex ''history_degraded_since_ts_ms'', dget cur ''history_degraded_since_ts_ms'', PInt (og_since og)]"] t
      by (auto simp del: pick_int.simps)
    with d show ?thesis by (simp del: pick_int.simps add: history_times_def)
  next
    case s
    obtain a b where "pick_int [dget ex ''history_degraded_since_ts_ms'', dget cur ''history_degraded_since_ts_ms''] = Inr a"
        "pick_int [dget ex ''history_recovered_at_ts_ms'', dget cur ''history_recovered_at_ts_ms'', PInt (og_recovered og)] = Inr b"
      using pick_int_ok[of "[dget ex ''history_degraded_since_ts_ms'', dget cur ''history_degraded_since_ts_ms'']"]
        pick_int_ok[of "[dget ex ''history_recovered_at_ts_ms'', dget cur ''history_recovered_at_ts_ms'', PInt (og_recovered og)]"] t
      by (auto simp del: pick_int.simps)
    with s show ?thesis by (simp del: pick_int.simps add: history_times_def)
  qed
qed

lemma assess_ok:
  assumes "sound_record cur" "sound_observer ob" "outage_of cur = Inr og"
  shows "\<exists>fd. assess ob cur = Inr fd"
proof -
  let ?ex = "as_dict (ob_extras ob)" and ?was = "was_degraded cur"
  have r: "readable (dget d k)" if "k \<in> set list_fields" "d = cur \<or> d = ?ex" for d k
    using assms(1,2) that by (auto simp: sound_record_def sound_observer_def fields_readable_def)
  have t: "int_readable (dget d k)" if "k \<in> set time_fields" "d = cur \<or> d = ?ex" for d k
    using assms(1,2) that by (auto simp: sound_record_def sound_observer_def fields_readable_def)
  have l: "readable (dget cur ''last_reason_codes'')" "readable (ob_reason_codes ob)" "readable (dget ?ex ''history_reason_codes'')"
    "int_readable (dget cur ''degraded_since_ts_ms'')"
    using assms(1,2) by (simp_all add: sound_record_def sound_observer_def)
  obtain cx where cx: "normalize_context ob cur = Inr cx"
    using normalize_ok[OF readable_por[OF l(2,1)]] by blast
  obtain hist where h: "history_fields (ob_degraded ob) ?was cx cur ?ex = Inr hist"
    using pick_strings_ok[of "on_record (\<not> ob_degraded ob \<and> ?was) (dget cur ''last_reason_codes'') (dget ?ex ''history_reason_codes'') @ [strs (cx_codes cx)]"] l
    by (auto simp: history_fields_def Let_def)
  obtain st where times: "history_times (ob_degraded ob) ?was (ob_ts ob) og cur ?ex = Inr st"
    using history_times_ok[of cur ?ex "ob_degraded ob" ?was "ob_ts ob" og] t l(4) by (auto simp: time_fields_def)
  obtain rel where rel: "reliability_fields cx cur ?ex = Inr rel"
  proof -
    obtain codes where c: "pick_strings [dget ?ex ''reliability_reason_codes'', dget cur ''reliability_reason_codes''] = Inr codes"
      using pick_strings_ok[of "[dget ?ex ''reliability_reason_codes'', dget cur ''reliability_reason_codes'']"] r by (auto simp: list_fields_def)
    obtain ccodes where cc: "pick_strings [dget ?ex ''component_reliability_reason_codes'', dget cur ''component_reliability_reason_codes'', strs codes] = Inr ccodes"
      using pick_strings_ok[of "[dget ?ex ''component_reliability_reason_codes'', dget cur ''component_reliability_reason_codes'', strs codes]"] r
      by (auto simp: list_fields_def)
    show thesis by (rule that) (simp only: reliability_fields_def Let_def c cc rbind_Inr)
  qed
  obtain truth where truth: "truth_codes (ob_degraded ob) ?was cur ?ex = Inr truth"
    using pick_strings_ok[of "on_record (\<not> ob_degraded ob \<and> ?was) (dget cur ''family_hardening_reason_codes'') (dget ?ex ''family_hardening_reason_codes'')"]
      pick_strings_ok[of "on_record (\<not> ob_degraded ob \<and> ?was) (dget cur ''receipt_outcome_truth_reason_codes'') (dget ?ex ''receipt_outcome_truth_reason_codes'')"] r
    by (auto simp: truth_codes_def Let_def list_fields_def)
  show ?thesis using cx h times rel truth assms(3) by (cases st) (simp add: assess_def Let_def)
qed

lemma canonical_member:
  "assess ob cur = Inr fd \<Longrightarrow> (k, v) \<in> set (canonical_fields ob fd) \<Longrightarrow> map_of (canonical_fields ob fd) k = Some v"
  using canonical_distinct by (simp add: map_of_eq_Some_iff)

lemma stored_field:
  assumes "assess ob cur = Inr fd" "(k, v) \<in> set (canonical_fields ob fd)"
  shows "dget (sorted_dict (state_payload ob fd)) k = json_sorted v"
  by (rule payload_lookup(2)[OF assms(1) canonical_member[OF assms]])

lemma strs_inject [simp]: "strs xs = strs ys \<longleftrightarrow> xs = ys"
  by (simp add: strs_def inj_map_eq_map inj_on_def)

lemma reliability_lists:
  "reliability_fields cx cur ex = Inr r \<Longrightarrow>
   \<exists>xs ys. (''reliability_reason_codes'', strs xs) \<in> set r \<and> (''component_reliability_reason_codes'', strs ys) \<in> set r"
  by (auto simp: reliability_fields_def Let_def rbind_eq_Inr simp del: pick_string.simps pick_strings.simps)

lemma truth_lists:
  "truth_codes d w cur ex = Inr t \<Longrightarrow>
   \<exists>xs ys. (''family_hardening_reason_codes'', strs xs) \<in> set t \<and> (''receipt_outcome_truth_reason_codes'', strs ys) \<in> set t"
  by (auto simp: truth_codes_def Let_def rbind_eq_Inr simp del: pick_strings.simps)

lemma assess_fields:
  "assess ob cur = Inr fd \<Longrightarrow> reliability_fields (fd_context fd) cur (as_dict (ob_extras ob)) = Inr (fd_reliability fd)"
  "assess ob cur = Inr fd \<Longrightarrow> truth_codes (ob_degraded ob) (was_degraded cur) cur (as_dict (ob_extras ob)) = Inr (fd_truth fd)"
  by (erule assess_parts, assumption)+

lemma stored_sound:
  assumes "assess ob cur = Inr fd"
  shows "sound_record (sorted_dict (state_payload ob fd))"
proof -
  from assms obtain xs ys where r: "(''reliability_reason_codes'', strs xs) \<in> set (fd_reliability fd)"
      "(''component_reliability_reason_codes'', strs ys) \<in> set (fd_reliability fd)"
    using reliability_lists[OF assess_fields(1)[OF assms]] by blast
  from assms obtain us vs where t: "(''family_hardening_reason_codes'', strs us) \<in> set (fd_truth fd)"
      "(''receipt_outcome_truth_reason_codes'', strs vs) \<in> set (fd_truth fd)"
    using truth_lists[OF assess_fields(2)[OF assms]] by blast
  have m: "(''reliability_reason_codes'', strs xs) \<in> set (canonical_fields ob fd)"
    "(''component_reliability_reason_codes'', strs ys) \<in> set (canonical_fields ob fd)"
    "(''family_hardening_reason_codes'', strs us) \<in> set (canonical_fields ob fd)"
    "(''receipt_outcome_truth_reason_codes'', strs vs) \<in> set (canonical_fields ob fd)"
    "(''history_degraded_since_ts_ms'', PInt (fd_since fd)) \<in> set (canonical_fields ob fd)"
    "(''history_recovered_at_ts_ms'', PInt (fd_recovered_at fd)) \<in> set (canonical_fields ob fd)"
    "(''last_reason_codes'', strs (cx_codes (fd_context fd))) \<in> set (canonical_fields ob fd)"
    "(''degraded_since_ts_ms'', PInt (og_since (fd_outage fd))) \<in> set (canonical_fields ob fd)"
    using r t by (simp_all add: canonical_fields_def Let_def)
  note f = m[THEN stored_field[OF assms]]
  show ?thesis
    using f by (simp add: sound_record_def fields_readable_def list_fields_def time_fields_def)
qed

definition times_fit :: "recovery_event list \<Rightarrow> bool" where
  "times_fit es \<longleftrightarrow> (\<forall>e \<in> set es. 0 < re_ts e \<and> re_ts e < 2 ^ 63)"

lemma last_of_cases: "last_of k es = 0 \<or> (\<exists>e \<in> set es. re_type e = k \<and> last_of k es = re_ts e)"
  by (induction es rule: rev_induct) auto

lemma last_of_fits: "times_fit es \<Longrightarrow> 0 \<le> last_of k es \<and> last_of k es < 2 ^ 63"
  using last_of_cases[of k es] by (force simp: times_fit_def)

lemma record_step:
  assumes "sound_record (load chain c db)" "times_fit (events_of chain c db)" "0 < ob_ts ob"
  shows "sound_record (load chain c (fst (observe chain ob db))) \<and> times_fit (events_of chain c (fst (observe chain ob db)))"
proof (cases "observe chain ob db")
  case (Pair db' res)
  show ?thesis
  proof (cases res)
    case (Inl e)
    with Pair observe_raises[of chain ob db db' e] assms show ?thesis by simp
  next
    case (Inr p)
    with Pair have o: "observe chain ob db = (db', Inr p)" by simp
    show ?thesis
    proof (cases "c = component_name ob")
      case False
      with o assms Pair show ?thesis by (elim observe_writes) simp
    next
      case True
      from o show ?thesis
      proof (rule observe_writes)
        fix fd changed evs
        assume w: "assess ob (load chain (component_name ob) db) = Inr fd" "p = state_payload ob fd"
          "load chain (component_name ob) db' = sorted_dict p"
          "events_of chain (component_name ob) db' = events_of chain (component_name ob) db @ evs"
          "\<And>e. e \<in> set evs \<Longrightarrow> re_ts e = ob_ts ob \<and> re_payload e = sorted_dict (event_payload ob fd (re_type e))"
          "sql_int (ob_ts ob) = Inr (ob_ts ob)"
        from w(6) have "ob_ts ob < 2 ^ 63" by (simp add: sql_int_def split: if_splits)
        with w(5) assms(3) have "times_fit evs" by (simp add: times_fit_def)
        with stored_sound[OF w(1)] assms(2) w(2-4) True Pair show ?thesis by (auto simp: times_fit_def)
      qed
    qed
  qed
qed

lemma record_run: "recovery_run chain db \<Longrightarrow> sound_record (load chain c db) \<and> times_fit (events_of chain c db)"
proof (induction rule: recovery_run.induct)
  case started
  show ?case by (simp add: load_def events_of_def sound_record_def fields_readable_def times_fit_def)
next
  case (observed db ob)
  then show ?case by (intro record_step) simp_all
qed

lemma context_changed_ok: "sound_record cur \<Longrightarrow> \<exists>b. context_changed cx cur = Inr b"
  by (auto simp: context_changed_def sound_record_def readable_def)

lemma sound_observation:
  assumes "recovery_run chain db" "sound_observer ob"
  shows "\<exists>db' p. observe chain ob db = (db', Inr p)"
proof -
  let ?c = "component_name ob"
  let ?cur = "load chain ?c db" and ?es = "events_of chain ?c db"
  have run: "sound_record ?cur" "times_fit ?es" using record_run[OF assms(1)] by simp_all
  obtain og where og: "outage_of ?cur = Inr og" "og_since og = 0 \<or> og_since og = last_of ''blocked'' ?es"
      "og_recovered og = last_of ''recovered'' ?es"
    using outage_log_run[OF assms(1), of ?c] by (auto simp: outage_log_def Let_def)
  obtain fd where fd: "assess ob ?cur = Inr fd" using assess_ok[OF run(1) assms(2) og(1)] by blast
  then have out: "fd_outage fd = next_outage (ob_degraded ob) (was_degraded ?cur) (ob_ts ob) og"
    by (rule assess_parts) (simp add: og(1))
  obtain changed where ch: "context_changed (fd_context fd) ?cur = Inr changed" using context_changed_ok[OF run(1)] by blast
  have ts: "0 < ob_ts ob" "ob_ts ob < 2 ^ 63" using assms(2) by (simp_all add: sound_observer_def)
  have "0 \<le> og_since og \<and> og_since og < 2 ^ 63" "0 \<le> og_recovered og \<and> og_recovered og < 2 ^ 63"
    using og(2,3) last_of_fits[OF run(2)] by auto
  with ts have "sql_int (og_since (fd_outage fd)) = Inr (og_since (fd_outage fd))"
    "sql_int (og_recovered (fd_outage fd)) = Inr (og_recovered (fd_outage fd))" "sql_int (ob_ts ob) = Inr (ob_ts ob)"
    unfolding out by (auto simp: sql_int_def next_outage_def)
  then show ?thesis using fd ch by (simp add: observe_def Let_def)
qed

text \<open>What a sound observation leaves, in one place.\<close>

lemma sound_step:
  assumes "recovery_run chain db" "sound_observer ob"
  obtains db' p fd evs changed where "observe chain ob db = (db', Inr p)"
    and "recovery_run chain db'"
    and "assess ob (load chain (component_name ob) db) = Inr fd" and "p = state_payload ob fd"
    and "load chain (component_name ob) db' = sorted_dict p"
    and "was_degraded (load chain (component_name ob) db') = ob_degraded ob"
    and "\<And>c. c \<noteq> component_name ob \<Longrightarrow> load chain c db' = load chain c db"
    and "events_of chain (component_name ob) db' = events_of chain (component_name ob) db @ evs"
    and "map re_type evs = kinds_of (transition_kind (ob_degraded ob) (was_degraded (load chain (component_name ob) db)) changed)"
    and "\<And>e. e \<in> set evs \<Longrightarrow> re_ts e = ob_ts ob \<and> re_payload e = sorted_dict (event_payload ob fd (re_type e))"
proof -
  obtain db' p where o: "observe chain ob db = (db', Inr p)" using sound_observation[OF assms] by blast
  have "0 < ob_ts ob" using assms(2) by (simp add: sound_observer_def)
  with recovery_run.observed[OF assms(1), of ob] o have run: "recovery_run chain db'" by simp
  from o show thesis
  proof (rule observe_writes)
    fix fd changed evs
    assume w: "assess ob (load chain (component_name ob) db) = Inr fd" "p = state_payload ob fd"
      "load chain (component_name ob) db' = sorted_dict p" "\<And>c. c \<noteq> component_name ob \<Longrightarrow> load chain c db' = load chain c db"
      "events_of chain (component_name ob) db' = events_of chain (component_name ob) db @ evs"
      "map re_type evs = kinds_of (transition_kind (ob_degraded ob) (was_degraded (load chain (component_name ob) db)) changed)"
      "\<And>e. e \<in> set evs \<Longrightarrow> re_ts e = ob_ts ob \<and> re_payload e = sorted_dict (event_payload ob fd (re_type e))"
    with payload_outage(2)[OF w(1)] have "was_degraded (load chain (component_name ob) db') = ob_degraded ob" by simp
    with that[OF o run w(1-3) _ w(4-7)] show thesis .
  qed
qed

text \<open>A sound observation is never refused, and what it answers is what is read back: in every state that
  observations lead to, an observer whose lists and times can be read gets a record, the record stored is that
  record, its state and time are the observer's and its outage counters those of the code's bookkeeping, whatever
  extra fields the observer sends under the same names; other components' records stay.\<close>

theorem observation_recorded:
  assumes "recovery_run chain db" "sound_observer ob"
  shows "\<exists>db' p og. observe chain ob db = (db', Inr p) \<and> load chain (component_name ob) db' = sorted_dict p \<and>
     outage_of (load chain (component_name ob) db) = Inr og \<and>
     outage_of (load chain (component_name ob) db') =
       Inr (next_outage (ob_degraded ob) (was_degraded (load chain (component_name ob) db)) (ob_ts ob) og) \<and>
     dget p ''is_degraded'' = PBool (ob_degraded ob) \<and> dget p ''updated_ts_ms'' = PInt (ob_ts ob) \<and>
     dget p ''component'' = PStr (component_name ob) \<and>
     (\<forall>c. c \<noteq> component_name ob \<longrightarrow> load chain c db' = load chain c db)"
  using assms
proof (rule sound_step)
  fix db' p fd
  assume w: "observe chain ob db = (db', Inr p)" "assess ob (load chain (component_name ob) db) = Inr fd" "p = state_payload ob fd"
    "load chain (component_name ob) db' = sorted_dict p" "\<And>c. c \<noteq> component_name ob \<Longrightarrow> load chain c db' = load chain c db"
  from w(2) obtain og where og: "outage_of (load chain (component_name ob) db) = Inr og"
      "fd_outage fd = next_outage (ob_degraded ob) (was_degraded (load chain (component_name ob) db)) (ob_ts ob) og"
    by (rule assess_parts)
  have m: "(''is_degraded'', PBool (ob_degraded ob)) \<in> set (canonical_fields ob fd)" "(''updated_ts_ms'', PInt (ob_ts ob)) \<in> set (canonical_fields ob fd)"
    "(''component'', PStr (component_name ob)) \<in> set (canonical_fields ob fd)"
    by (simp_all add: canonical_fields_def Let_def)
  note f = m[THEN canonical_member[OF w(2)], THEN payload_lookup(1)[OF w(2)]]
  have "dget p ''is_degraded'' = PBool (ob_degraded ob)" "dget p ''updated_ts_ms'' = PInt (ob_ts ob)" "dget p ''component'' = PStr (component_name ob)"
    using f w(3) by (simp_all add: dget_def dget_or_def)
  moreover have "outage_of (load chain (component_name ob) db') = Inr (fd_outage fd)" using payload_outage(1)[OF w(2)] w(3,4) by simp
  ultimately show ?thesis using w(1,4,5) og by (metis (no_types, lifting))
qed

section \<open>Where the record misleads\<close>

lemma event_fields_distinct:
  assumes "assess ob cur = Inr fd"
  shows "distinct (map fst (event_payload ob fd kind))"
  using assms
proof (rule assess_parts)
  assume r: "reliability_fields (fd_context fd) cur (as_dict (ob_extras ob)) = Inr (fd_reliability fd)"
    and t: "truth_codes (ob_degraded ob) (was_degraded cur) cur (as_dict (ob_extras ob)) = Inr (fd_truth fd)"
  show ?thesis
    by (simp only: event_payload_def Let_def map_append list.map fst_conv reliability_keys[OF r] truth_keys[OF t]) simp
qed

lemma event_field:
  assumes "assess ob cur = Inr fd" "(k, v) \<in> set (event_payload ob fd kind)"
  shows "dget (sorted_dict (event_payload ob fd kind)) k = json_sorted v"
proof -
  note d = event_fields_distinct[OF assms(1), of kind]
  from assms(2) d have m: "map_of (event_payload ob fd kind) k = Some v" by (simp add: map_of_eq_Some_iff)
  then have "dget (event_payload ob fd kind) k = v" by (simp add: dget_def dget_or_def)
  with m show ?thesis by (simp only: sorted_dict_def dget_json_sorted[OF d] option.distinct if_False)
qed

lemma last_recovered_positive:
  "''recovered'' \<in> re_type ` set es \<Longrightarrow> times_fit es \<Longrightarrow> 0 < last_of ''recovered'' es"
  by (induction es rule: rev_induct) (auto simp: times_fit_def)

text \<open>A later recovery carries an earlier date: when a component whose log already holds a recovery recovers again, seen
  by an observer whose reason codes, extra lists and extra times can be read and whose own time fits the table, the
  event and the record give the time of the last earlier recovery as the time of this one, because the field is chosen
  before the time of the last recovery is brought up to date. The event's own time stamp is right.\<close>

theorem later_recovery_misdated:
  assumes "recovery_run chain db" "sound_observer ob" "\<not> ob_degraded ob"
    and "was_degraded (load chain (component_name ob) db)"
    and "''recovered'' \<in> re_type ` set (events_of chain (component_name ob) db)"
  shows "\<exists>e. events_of chain (component_name ob) (fst (observe chain ob db)) = events_of chain (component_name ob) db @ [e] \<and>
     re_type e = ''recovered'' \<and> re_ts e = ob_ts ob \<and>
     dget (re_payload e) ''recovered_at_ts_ms'' = PInt (last_of ''recovered'' (events_of chain (component_name ob) db)) \<and>
     dget (load chain (component_name ob) (fst (observe chain ob db))) ''history_recovered_at_ts_ms'' =
       PInt (last_of ''recovered'' (events_of chain (component_name ob) db))"
  using assms(1,2)
proof (rule sound_step)
  let ?cur = "load chain (component_name ob) db" and ?es = "events_of chain (component_name ob) db"
  fix db' p fd evs changed
  assume w: "observe chain ob db = (db', Inr p)" "assess ob ?cur = Inr fd" "p = state_payload ob fd"
    "load chain (component_name ob) db' = sorted_dict p" "events_of chain (component_name ob) db' = ?es @ evs"
    "map re_type evs = kinds_of (transition_kind (ob_degraded ob) (was_degraded ?cur) changed)"
    "\<And>e. e \<in> set evs \<Longrightarrow> re_ts e = ob_ts ob \<and> re_payload e = sorted_dict (event_payload ob fd (re_type e))"
  from w(6) assms(3,4) obtain e where e: "evs = [e]" "re_type e = ''recovered''"
    by (auto simp: transition_kind_def kinds_of_def map_eq_Cons_conv)
  obtain og where og: "outage_of ?cur = Inr og" "og_recovered og = last_of ''recovered'' ?es"
    using outage_log_run[OF assms(1), of "component_name ob"] by (auto simp: outage_log_def Let_def)
  have pos: "0 < og_recovered og"
    using last_recovered_positive[OF assms(5)] record_run[OF assms(1), of "component_name ob"] og(2) by simp
  from w(2) have "history_times (ob_degraded ob) (was_degraded ?cur) (ob_ts ob) og ?cur (as_dict (ob_extras ob)) = Inr (fd_since fd, fd_recovered_at fd)"
    by (rule assess_parts) (simp add: og(1))
  with assms(3,4) pos have at: "fd_recovered_at fd = og_recovered og" by (auto simp: history_times_def rbind_eq_Inr)
  have "(''recovered_at_ts_ms'', PInt (fd_recovered_at fd)) \<in> set (event_payload ob fd ''recovered'')"
    by (simp add: event_payload_def Let_def)
  from event_field[OF w(2) this] have "dget (re_payload e) ''recovered_at_ts_ms'' = PInt (fd_recovered_at fd)"
    using w(7)[of e] e by simp
  moreover have "(''history_recovered_at_ts_ms'', PInt (fd_recovered_at fd)) \<in> set (canonical_fields ob fd)"
    by (simp add: canonical_fields_def Let_def)
  from stored_field[OF w(2) this] have "dget (load chain (component_name ob) db') ''history_recovered_at_ts_ms'' = PInt (fd_recovered_at fd)"
    using w(3,4) by simp
  ultimately show ?thesis using w(1,5,7) e at og(2) by simp
qed

section \<open>Concrete runs\<close>

definition demo_seen :: "bool \<Rightarrow> int \<Rightarrow> observation" where
  "demo_seen degraded t = \<lparr>ob_component = ''rpc'', ob_degraded = degraded, ob_ts = t, ob_reason_code = ''timeout'', ob_stage = [],
     ob_blocker = [], ob_next_action = [], ob_reason_codes = PNone, ob_extras = PNone\<rparr>"

definition empty_db :: recovery_db where
  "empty_db = \<lparr>rd_state = [], rd_events = []\<rparr>"

lemma demo_sound: "0 < t \<Longrightarrow> t < 2 ^ 63 \<Longrightarrow> sound_observer (demo_seen d t)"
  by (simp add: sound_observer_def demo_seen_def as_dict_def fields_readable_def)

lemma demo_component: "component_name (demo_seen d t) = ''rpc''" "ob_degraded (demo_seen d t) = d" "ob_ts (demo_seen d t) = t"
  by (simp_all add: component_name_def demo_seen_def)

lemma empty_run: "recovery_run chain empty_db"
  unfolding empty_db_def by (rule recovery_run.started)

theorem outage_record_true_witness:
  "outage_log ''c'' ''rpc'' (fst (observe ''c'' (demo_seen True 5) empty_db))"
  by (rule outage_record_true) (rule recovery_run.observed[OF empty_run], simp add: demo_component)

theorem observation_recorded_witness:
  "\<exists>db' p. observe ''c'' (demo_seen True 5) empty_db = (db', Inr p) \<and> dget p ''is_degraded'' = PBool True \<and>
     load ''c'' ''rpc'' db' = sorted_dict p"
  using observation_recorded[OF empty_run demo_sound[of 5 True], of "''c''"] by (auto simp: demo_component)

text \<open>A sound change of state adds exactly its event.\<close>

lemma sound_change:
  assumes "recovery_run chain db" "sound_observer ob" "was_degraded (load chain (component_name ob) db) \<noteq> ob_degraded ob"
  shows "recovery_run chain (fst (observe chain ob db)) \<and>
    was_degraded (load chain (component_name ob) (fst (observe chain ob db))) = ob_degraded ob \<and>
    (\<exists>e. events_of chain (component_name ob) (fst (observe chain ob db)) = events_of chain (component_name ob) db @ [e] \<and>
      re_type e = (if ob_degraded ob then ''blocked'' else ''recovered'') \<and> re_ts e = ob_ts ob)"
  using assms(1,2)
proof (rule sound_step)
  fix db' p fd evs changed
  assume w: "observe chain ob db = (db', Inr p)" "recovery_run chain db'"
    "was_degraded (load chain (component_name ob) db') = ob_degraded ob"
    "events_of chain (component_name ob) db' = events_of chain (component_name ob) db @ evs"
    "map re_type evs = kinds_of (transition_kind (ob_degraded ob) (was_degraded (load chain (component_name ob) db)) changed)"
    "\<And>e. e \<in> set evs \<Longrightarrow> re_ts e = ob_ts ob \<and> re_payload e = sorted_dict (event_payload ob fd (re_type e))"
  from w(5) assms(3) obtain e where "evs = [e]" "re_type e = (if ob_degraded ob then ''blocked'' else ''recovered'')"
    by (auto simp: transition_kind_def kinds_of_def map_eq_Cons_conv split: if_splits)
  with w show ?thesis by auto
qed

theorem later_recovery_misdated_witness:
  "\<exists>db e. recovery_run ''c'' db \<and> re_type e = ''recovered'' \<and> re_ts e = 4 \<and>
     events_of ''c'' ''rpc'' (fst (observe ''c'' (demo_seen False 4) db)) = events_of ''c'' ''rpc'' db @ [e] \<and>
     dget (re_payload e) ''recovered_at_ts_ms'' = PInt 2"
proof -
  define db1 where "db1 = fst (observe ''c'' (demo_seen True 1) empty_db)"
  define db2 where "db2 = fst (observe ''c'' (demo_seen False 2) db1)"
  define db3 where "db3 = fst (observe ''c'' (demo_seen True 3) db2)"
  have "\<not> was_degraded (load ''c'' ''rpc'' empty_db)" by (simp add: was_degraded_def load_def empty_db_def dget_or_def)
  from sound_change[OF empty_run demo_sound[of 1 True], of "''c''"] this obtain e1 where
    1: "recovery_run ''c'' db1" "was_degraded (load ''c'' ''rpc'' db1)" "events_of ''c'' ''rpc'' db1 = [e1]" "re_type e1 = ''blocked''" "re_ts e1 = 1"
    by (auto simp: demo_component db1_def empty_db_def events_of_def)
  from sound_change[OF 1(1) demo_sound[of 2 False]] 1 obtain e2 where
    2: "recovery_run ''c'' db2" "\<not> was_degraded (load ''c'' ''rpc'' db2)" "events_of ''c'' ''rpc'' db2 = [e1, e2]" "re_type e2 = ''recovered''" "re_ts e2 = 2"
    by (auto simp: demo_component db2_def)
  from sound_change[OF 2(1) demo_sound[of 3 True]] 2 obtain e3 where
    3: "recovery_run ''c'' db3" "was_degraded (load ''c'' ''rpc'' db3)" "events_of ''c'' ''rpc'' db3 = [e1, e2, e3]" "re_type e3 = ''blocked''"
    by (auto simp: demo_component db3_def)
  have "last_of ''recovered'' [e1, e2, e3] = 2" using 1 2 3 by (simp add: last_of_def)
  with later_recovery_misdated[OF 3(1) demo_sound[of 4 False]] 2(4) 3 show ?thesis
    by (auto simp: demo_component)
qed

section \<open>Recent events\<close>

text \<open>At most a hundred events, the newest first, of equal times the later written first.\<close>

lemma recent_events_newest:
  assumes "recent_events chain c limit db = Inr vs"
  shows "length vs \<le> 100" and "length vs = min (event_limit limit) (length (events_of chain c db))"
    and "sorted (map re_ts (rev (newest_first re_ts (events_of chain c db))))"
proof -
  show "length vs = min (event_limit limit) (length (events_of chain c db))"
    using mapr_length[OF assms[unfolded recent_events_def]] by (simp add: newest_first_def min.commute)
  then show "length vs \<le> 100" by (simp add: event_limit_def)
  show "sorted (map re_ts (rev (newest_first re_ts (events_of chain c db))))" by (simp add: newest_first_def)
qed

text \<open>The code a record is given when the observer names none: after a healthy record it is \<open>ok\<close>, not \<open>degraded\<close>, though
  the component is recorded as degraded.\<close>

lemma stored_code:
  "assess ob cur = Inr fd \<Longrightarrow> dget (sorted_dict (state_payload ob fd)) ''last_reason_code'' = PStr (cx_code (fd_context fd))"
  using stored_field[of ob cur fd "''last_reason_code''" "PStr (cx_code (fd_context fd))"] by (simp add: canonical_fields_def Let_def)

lemma context_code:
  "normalize_context ob cur = Inr cx \<Longrightarrow>
   cx_code cx = (if ob_degraded ob then context_text (ob_reason_code ob) (dget cur ''last_reason_code'') ''degraded'' else ''ok'')"
  by (auto simp: normalize_context_def rbind_eq_Inr Let_def)

lemma assess_context: "assess ob cur = Inr fd \<Longrightarrow> normalize_context ob cur = Inr (fd_context fd)"
  by (erule assess_parts)

theorem unnamed_outage_says_ok:
  assumes "recovery_run chain db" "sound_observer before" "\<not> ob_degraded before"
    and "sound_observer ob" "ob_degraded ob" "ob_reason_code ob = []" "component_name before = component_name ob"
  shows "dget (load chain (component_name ob) (fst (observe chain ob (fst (observe chain before db))))) ''last_reason_code'' = PStr ''ok'' \<and>
    was_degraded (load chain (component_name ob) (fst (observe chain ob (fst (observe chain before db)))))"
  using assms(1,2)
proof (rule sound_step)
  fix db' p fd
  assume 1: "observe chain before db = (db', Inr p)" "recovery_run chain db'"
    "assess before (load chain (component_name before) db) = Inr fd" "p = state_payload before fd"
    "load chain (component_name before) db' = sorted_dict p"
  have "dget (load chain (component_name ob) db') ''last_reason_code'' = PStr ''ok''"
    using stored_code[OF 1(3)] context_code[OF assess_context[OF 1(3)]] 1(4,5) assms(3,7) by simp
  note ok = this
  from 1(2) assms(4) show ?thesis
  proof (rule sound_step)
    fix db'' p' fd'
    assume 2: "observe chain ob db' = (db'', Inr p')" "assess ob (load chain (component_name ob) db') = Inr fd'" "p' = state_payload ob fd'"
      "load chain (component_name ob) db'' = sorted_dict p'" "was_degraded (load chain (component_name ob) db'') = ob_degraded ob"
    have "cx_code (fd_context fd') = ''ok''"
      using context_code[OF assess_context[OF 2(2)]] ok assms(5,6) by (simp add: context_text_def por_def)
    with stored_code[OF 2(2)] 1(1) 2 assms(5) show ?thesis by simp
  qed
qed

theorem unnamed_outage_says_ok_witness:
  "dget (load ''c'' ''rpc'' (fst (observe ''c'' (demo_seen True 2\<lparr>ob_reason_code := []\<rparr>) (fst (observe ''c'' (demo_seen False 1) empty_db)))))
     ''last_reason_code'' = PStr ''ok''"
proof -
  have "sound_observer (demo_seen True 2\<lparr>ob_reason_code := []\<rparr>)" "component_name (demo_seen True 2\<lparr>ob_reason_code := []\<rparr>) = ''rpc''"
    by (simp_all add: sound_observer_def demo_seen_def as_dict_def fields_readable_def component_name_def)
  with unnamed_outage_says_ok[OF empty_run demo_sound[of 1 False], of "demo_seen True 2\<lparr>ob_reason_code := []\<rparr>" "''c''"] show ?thesis
    by (simp add: demo_component)
qed

end
