(* ===== verification/Decision_Identity.thy ===== *)
theory Decision_Identity
  imports Withdraw_Progress
begin

text \<open>
  \<open>decision_identity.py\<close>: the identity one decision carries from the decision boundary through sizing and execution.
  Opportunities, decisions and results are records of what the code reads and writes of them; an attribute may
  refuse assignment, which the code tolerates. SHA-256, the clock and \<open>uuid4\<close> are arguments.
\<close>

section \<open>Objects\<close>

record opportunity =
  op_id :: pyval
  op_route_id :: pyval
  op_meta :: pyval
  op_meta_writable :: bool

record decision =
  de_metadata :: pyval
  de_writable :: bool

record exec_result =
  er_plan :: pyval
  er_writable :: bool

record decision_execution_identity =
  di_decision_id :: string
  di_correlation_id :: string

record execution_identity =
  ei_execution_id :: string
  ei_decision_id :: string
  ei_correlation_id :: string

definition text_of :: "pyval \<Rightarrow> string" where
  "text_of v = strip (str_or_empty v)"

definition dict_of :: "pyval \<Rightarrow> pydict" where
  "dict_of v = as_dict v"

definition stable_id :: "(bytes \<Rightarrow> bytes) \<Rightarrow> string \<Rightarrow> pyval list \<Rightarrow> string" where
  "stable_id sha prefix parts = prefix @ ''_'' @ take 24 (hex_of (sha (utf8 (join ''|'' (map text_of parts)))))"

text \<open>\<open>a or b or c\<close>\<close>

fun por_list :: "pyval list \<Rightarrow> pyval" where
  "por_list [] = PNone"
| "por_list [v] = v"
| "por_list (v # vs) = por v (por_list vs)"

text \<open>Assignments that an attribute may refuse.\<close>

definition set_metadata :: "pydict \<Rightarrow> decision \<Rightarrow> decision" where
  "set_metadata m d = (if de_writable d then d\<lparr>de_metadata := PDict m\<rparr> else d)"

definition decision_meta :: "decision option \<Rightarrow> pydict" where
  "decision_meta d = (case d of None \<Rightarrow> [] | Some d \<Rightarrow> dict_of (de_metadata d))"

section \<open>The identity of a decision\<close>

definition kept_decision_id :: "pydict \<Rightarrow> pydict \<Rightarrow> pydict \<Rightarrow> string" where
  "kept_decision_id brain lineage dm =
     text_of (por_list [dget brain ''canonical_decision_id'', dget lineage ''decision_id'', dget dm ''canonical_decision_id'', dget dm ''decision_id''])"

definition kept_correlation_id :: "pydict \<Rightarrow> pydict \<Rightarrow> pydict \<Rightarrow> string" where
  "kept_correlation_id brain lineage dm =
     text_of (por_list [dget brain ''correlation_id'', dget lineage ''correlation_id'', dget dm ''correlation_id''])"

definition intent_snapshot :: "pydict \<Rightarrow> pydict \<Rightarrow> pydict \<Rightarrow> pydict option \<Rightarrow> pydict" where
  "intent_snapshot brain lineage dm operator_intent =
     (let kept = dict_of (por_list [dget brain ''operator_intent'', dget lineage ''operator_intent'', dget dm ''operator_intent'']) in
      if kept = [] then (case operator_intent of None \<Rightarrow> [] | Some i \<Rightarrow> i) else kept)"

definition intent_fingerprint_of :: "pydict \<Rightarrow> pydict \<Rightarrow> pydict \<Rightarrow> pyval \<Rightarrow> string" where
  "intent_fingerprint_of brain lineage dm given =
     (let kept = text_of (por_list [dget brain ''intent_fingerprint'', dget lineage ''intent_fingerprint'', dget dm ''intent_fingerprint'']) in
      if kept \<noteq> [] then kept else text_of given)"

definition text_if :: "string \<Rightarrow> string \<Rightarrow> pydict \<Rightarrow> pydict" where
  "text_if k s d = (if s = [] then d else dset d k (PStr s))"

definition dict_if :: "string \<Rightarrow> pydict \<Rightarrow> pydict \<Rightarrow> pydict" where
  "dict_if k e d = (if e = [] then d else dset d k (PDict e))"

text \<open>The request: chain, block, and what the operator wants, if given.\<close>

record identity_request =
  ir_chain :: string
  ir_block :: int
  ir_intent :: "pydict option"
  ir_fingerprint :: pyval

definition decision_id_for :: "(bytes \<Rightarrow> bytes) \<Rightarrow> identity_request \<Rightarrow> opportunity \<Rightarrow> pydict \<Rightarrow> pydict \<Rightarrow> pydict \<Rightarrow> string" where
  "decision_id_for sha req opp brain lineage dm =
     (let k = kept_decision_id brain lineage dm in
      if k \<noteq> [] then k else stable_id sha ''decision'' [PStr (ir_chain req), PInt (ir_block req), op_id opp, op_route_id opp])"

definition correlation_id_for :: "(bytes \<Rightarrow> bytes) \<Rightarrow> identity_request \<Rightarrow> string \<Rightarrow> pydict \<Rightarrow> pydict \<Rightarrow> pydict \<Rightarrow> string" where
  "correlation_id_for sha req did brain lineage dm =
     (let k = kept_correlation_id brain lineage dm in
      if k \<noteq> [] then k else stable_id sha ''corr'' [PStr did, PStr (ir_chain req)])"

text \<open>The intent and its fingerprint are added where there are any.\<close>

definition with_intent :: "pydict \<Rightarrow> string \<Rightarrow> pydict \<Rightarrow> pydict" where
  "with_intent intent fp d = text_if ''intent_fingerprint'' fp (dict_if ''operator_intent'' intent d)"

definition identity_lineage :: "decision_execution_identity \<Rightarrow> int \<Rightarrow> pydict" where
  "identity_lineage i created =
     [(''decision_id'', PStr (di_decision_id i)), (''correlation_id'', PStr (di_correlation_id i)), (''created_at_ms'', PInt created)]"

definition with_ids :: "decision_execution_identity \<Rightarrow> pydict \<Rightarrow> pydict" where
  "with_ids i d = dset (dset d ''canonical_decision_id'' (PStr (di_decision_id i))) ''correlation_id'' (PStr (di_correlation_id i))"

definition decision_lineage :: "decision_execution_identity \<Rightarrow> pyval" where
  "decision_lineage i = PDict [(''decision_id'', PStr (di_decision_id i)), (''correlation_id'', PStr (di_correlation_id i))]"

text \<open>\<open>meta\<close> is changed in place when it is a dictionary, else assigned where the object lets it.\<close>

definition put_meta :: "pydict \<Rightarrow> opportunity \<Rightarrow> opportunity" where
  "put_meta m opp = (if is_mapping (op_meta opp) \<or> op_meta_writable opp then opp\<lparr>op_meta := PDict m\<rparr> else opp)"

definition ensure_decision_identity ::
    "(bytes \<Rightarrow> bytes) \<Rightarrow> int \<Rightarrow> identity_request \<Rightarrow> opportunity \<Rightarrow> decision option
     \<Rightarrow> (opportunity \<times> decision option \<times> decision_execution_identity) res" where
  "ensure_decision_identity sha now_ms req opp dec =
     (let meta = dict_of (op_meta opp); brain = dict_of (dget meta ''brain''); lineage = dict_of (dget meta ''canonical_lineage'');
          dm = decision_meta dec;
          did = decision_id_for sha req opp brain lineage dm;
          i = \<lparr>di_decision_id = did, di_correlation_id = correlation_id_for sha req did brain lineage dm\<rparr>;
          intent = intent_snapshot brain lineage dm (ir_intent req);
          fp = intent_fingerprint_of brain lineage dm (ir_fingerprint req) in
      rbind (py_int (por (dget lineage ''created_at_ms'') (PInt now_ms))) (\<lambda>created.
      Inr (put_meta (dset (dset meta ''brain'' (PDict (with_intent intent fp (with_ids i brain))))
             ''canonical_lineage'' (PDict (with_intent intent fp (identity_lineage i created)))) opp,
           map_option (set_metadata (dset (with_intent intent fp (with_ids i dm)) ''decision_lineage'' (decision_lineage i))) dec,
           i)))"

section \<open>Sizing\<close>

definition existing_sizing :: "pydict \<Rightarrow> pydict \<Rightarrow> pydict \<Rightarrow> string" where
  "existing_sizing brain lineage dm = text_of (por_list [dget brain ''sizing_id'', dget lineage ''sizing_id'', dget dm ''sizing_id''])"

definition attach_decision_sizing :: "string \<Rightarrow> decision \<Rightarrow> decision" where
  "attach_decision_sizing sid d =
     (let dm = dict_of (de_metadata d) in
      set_metadata (dset (dset dm ''sizing_id'' (PStr sid)) ''decision_lineage''
        (PDict (dset (dict_of (dget dm ''decision_lineage'')) ''sizing_id'' (PStr sid)))) d)"

text \<open>A \<open>ValueError\<close> may come after the opportunity was given an empty dictionary; the answer says what it is then.\<close>

definition attach_sizing_identity ::
    "pyval \<Rightarrow> pyfloat option \<Rightarrow> opportunity \<Rightarrow> decision option \<Rightarrow> opportunity \<times> decision option \<times> string res" where
  "attach_sizing_identity sizing_id approved opp dec =
     (let sid = text_of sizing_id in
      if sid = [] then (opp, dec, Inl ValueError)
      else if \<not> is_mapping (op_meta opp) \<and> \<not> op_meta_writable opp then (opp, dec, Inl ValueError)
      else
        let meta = dict_of (op_meta opp); brain = dict_of (dget meta ''brain''); lineage = dict_of (dget meta ''canonical_lineage'');
            existing = existing_sizing brain lineage (decision_meta dec) in
        if existing \<noteq> [] \<and> existing \<noteq> sid then (opp\<lparr>op_meta := PDict meta\<rparr>, dec, Inl ValueError)
        else
          let lineage1 = dset lineage ''sizing_id'' (PStr sid);
              lineage2 = (case approved of None \<Rightarrow> lineage1 | Some f \<Rightarrow> dset lineage1 ''approved_notional_usd'' (PFloat f));
              meta' = dset (dset (dset meta ''canonical_lineage'' (PDict lineage2)) ''brain'' (PDict (dset brain ''sizing_id'' (PStr sid))))
                ''sizing_id'' (PStr sid) in
          (opp\<lparr>op_meta := PDict meta'\<rparr>, map_option (attach_decision_sizing sid) dec, Inr sid))"

section \<open>Execution\<close>

definition create_execution_identity :: "string \<Rightarrow> decision \<Rightarrow> opportunity \<Rightarrow> execution_identity res" where
  "create_execution_identity uuid_hex dec opp =
     (let dm = dict_of (de_metadata dec); meta = dict_of (op_meta opp); brain = dict_of (dget meta ''brain'');
          lineage = dict_of (dget meta ''canonical_lineage'');
          did = text_of (por_list [dget dm ''canonical_decision_id'', dget dm ''decision_id'', dget brain ''canonical_decision_id'', dget lineage ''decision_id'']);
          cid = text_of (por_list [dget dm ''correlation_id'', dget brain ''correlation_id'', dget lineage ''correlation_id'']) in
      if did = [] \<or> cid = [] then Inl ValueError
      else Inr \<lparr>ei_execution_id = ''execution_'' @ uuid_hex, ei_decision_id = did, ei_correlation_id = cid\<rparr>)"

definition tag_ids :: "execution_identity \<Rightarrow> pydict \<Rightarrow> pydict" where
  "tag_ids i d = dset (dset (dset d ''execution_id'' (PStr (ei_execution_id i))) ''canonical_decision_id'' (PStr (ei_decision_id i)))
     ''correlation_id'' (PStr (ei_correlation_id i))"

definition lineage_ids :: "execution_identity \<Rightarrow> pydict \<Rightarrow> pydict" where
  "lineage_ids i d = dset (dset (dset d ''decision_id'' (PStr (ei_decision_id i))) ''correlation_id'' (PStr (ei_correlation_id i)))
     ''execution_id'' (PStr (ei_execution_id i))"

definition attach_to_decision :: "execution_identity \<Rightarrow> decision \<Rightarrow> decision" where
  "attach_to_decision i d =
     (let dm = tag_ids i (dict_of (de_metadata d));
          lin = text_if ''sizing_id'' (text_of (dget dm ''sizing_id'')) (lineage_ids i (dict_of (dget dm ''execution_lineage''))) in
      set_metadata (dset dm ''execution_lineage'' (PDict lin)) d)"

definition opportunity_sizing :: "pydict \<Rightarrow> pydict \<Rightarrow> pydict \<Rightarrow> string" where
  "opportunity_sizing brain lineage meta = text_of (por_list [dget brain ''sizing_id'', dget lineage ''sizing_id'', dget meta ''sizing_id''])"

definition attach_to_opportunity :: "execution_identity \<Rightarrow> opportunity \<Rightarrow> opportunity \<times> string" where
  "attach_to_opportunity i opp =
     (let meta = dict_of (op_meta opp); brain = tag_ids i (dict_of (dget meta ''brain''));
          lineage = lineage_ids i (dict_of (dget meta ''canonical_lineage''));
          sid = opportunity_sizing brain lineage meta;
          pending = dset (dict_of (dget meta ''pending_context'')) ''execution_lineage'' (PDict (text_if ''sizing_id'' sid (lineage_ids i [])));
          meta' = dset (dset (dset meta ''brain'' (PDict brain)) ''canonical_lineage'' (PDict (text_if ''sizing_id'' sid lineage)))
            ''pending_context'' (PDict pending) in
      (if op_meta_writable opp then opp\<lparr>op_meta := PDict meta'\<rparr> else opp, sid))"

definition attach_to_result :: "execution_identity \<Rightarrow> string \<Rightarrow> exec_result \<Rightarrow> exec_result" where
  "attach_to_result i sid r =
     (let plan = tag_ids i (dict_of (er_plan r));
          lin = text_if ''sizing_id'' sid (lineage_ids i (dict_of (dget plan ''execution_lineage''))) in
      if er_writable r then r\<lparr>er_plan := PDict (dset plan ''execution_lineage'' (PDict lin))\<rparr> else r)"

definition attach_execution_identity ::
    "execution_identity \<Rightarrow> decision \<Rightarrow> opportunity \<Rightarrow> exec_result option \<Rightarrow> decision \<times> opportunity \<times> exec_result option" where
  "attach_execution_identity i dec opp result =
     (case attach_to_opportunity i opp of (opp', sid) \<Rightarrow>
        (attach_to_decision i dec, opp', map_option (attach_to_result i sid) result))"

section \<open>Reading the lineage\<close>

definition lineage_from_opportunity :: "opportunity \<Rightarrow> (string \<times> string) list" where
  "lineage_from_opportunity opp =
     (let meta = dict_of (op_meta opp); brain = dict_of (dget meta ''brain''); lineage = dict_of (dget meta ''canonical_lineage'');
          sid = opportunity_sizing brain lineage meta;
          eid = text_of (por_list [dget brain ''execution_id'', dget lineage ''execution_id'']) in
      [(''decision_id'', text_of (por_list [dget brain ''canonical_decision_id'', dget lineage ''decision_id''])),
       (''correlation_id'', text_of (por_list [dget brain ''correlation_id'', dget lineage ''correlation_id'']))]
      @ (if sid = [] then [] else [(''sizing_id'', sid)]) @ (if eid = [] then [] else [(''execution_id'', eid)]))"

section \<open>Identities are texts without surrounding space\<close>

lemma text_of_PStr [simp]: "text_of (PStr s) = strip s"
  by (simp add: text_of_def)

lemma strip_text_of [simp]: "strip (text_of v) = text_of v"
  by (simp add: text_of_def)

lemma strip_stable_id:
  assumes "\<forall>c \<in> set prefix. \<not> is_space c"
  shows "strip (stable_id sha prefix parts) = stable_id sha prefix parts"
proof (rule strip_no_space, rule ballI)
  fix c assume "c \<in> set (stable_id sha prefix parts)"
  then consider "c \<in> set prefix" | "c = CHR ''_''" | "c \<in> set (hex_of (sha (utf8 (join ''|'' (map text_of parts)))))"
    by (auto simp: stable_id_def dest: in_set_takeD)
  then show "\<not> is_space c"
    by cases (use assms hex_of_plain(1) in \<open>auto simp: is_space_def\<close>)
qed

lemma stable_id_nonempty [simp]: "stable_id sha prefix parts \<noteq> []"
  by (simp add: stable_id_def)

lemma dget_text_if [simp]: "dget (text_if k s d) j = (if j = k \<and> s \<noteq> [] then PStr s else dget d j)"
  by (simp add: text_if_def)

lemma dget_dict_if [simp]: "dget (dict_if k e d) j = (if j = k \<and> e \<noteq> [] then PDict e else dget d j)"
  by (simp add: dict_if_def)

lemma dict_of_PDict [simp]: "dict_of (PDict d) = d" "dict_of PNone = []"
  by (simp_all add: dict_of_def as_dict_def)

definition brain_of :: "opportunity \<Rightarrow> pydict" where
  "brain_of opp = dict_of (dget (dict_of (op_meta opp)) ''brain'')"

definition canonical_lineage_of :: "opportunity \<Rightarrow> pydict" where
  "canonical_lineage_of opp = dict_of (dget (dict_of (op_meta opp)) ''canonical_lineage'')"

text \<open>The opportunity can hold an identity: its \<open>meta\<close> is a dictionary or may be assigned.\<close>

definition holds_meta :: "opportunity \<Rightarrow> bool" where
  "holds_meta opp \<longleftrightarrow> is_mapping (op_meta opp) \<or> op_meta_writable opp"

lemma id_texts:
  "decision_id_for sha req opp brain lineage dm \<noteq> []"
  "strip (decision_id_for sha req opp brain lineage dm) = decision_id_for sha req opp brain lineage dm"
  "correlation_id_for sha req did brain lineage dm \<noteq> []"
  "strip (correlation_id_for sha req did brain lineage dm) = correlation_id_for sha req did brain lineage dm"
  by (auto simp: decision_id_for_def correlation_id_for_def Let_def kept_decision_id_def kept_correlation_id_def strip_stable_id is_space_def)

lemma ensure_shape:
  assumes "ensure_decision_identity sha now req opp dec = Inr (opp', dec', i)" "holds_meta opp"
  obtains created intent fp where
        "di_decision_id i = decision_id_for sha req opp (brain_of opp) (canonical_lineage_of opp) (decision_meta dec)"
    and "di_correlation_id i = correlation_id_for sha req (di_decision_id i) (brain_of opp) (canonical_lineage_of opp) (decision_meta dec)"
    and "py_int (por (dget (canonical_lineage_of opp) ''created_at_ms'') (PInt now)) = Inr created"
    and "intent = intent_snapshot (brain_of opp) (canonical_lineage_of opp) (decision_meta dec) (ir_intent req)"
    and "fp = intent_fingerprint_of (brain_of opp) (canonical_lineage_of opp) (decision_meta dec) (ir_fingerprint req)"
    and "is_mapping (op_meta opp')" and "op_meta_writable opp' = op_meta_writable opp"
    and "brain_of opp' = with_intent intent fp (with_ids i (brain_of opp))"
    and "canonical_lineage_of opp' = with_intent intent fp (identity_lineage i created)"
    and "\<And>k. k \<noteq> ''brain'' \<Longrightarrow> k \<noteq> ''canonical_lineage'' \<Longrightarrow> dget (dict_of (op_meta opp')) k = dget (dict_of (op_meta opp)) k"
    and "dec' = map_option (set_metadata (dset (with_intent intent fp (with_ids i (decision_meta dec))) ''decision_lineage'' (decision_lineage i))) dec"
proof -
  note d = assms(1)[unfolded ensure_decision_identity_def Let_def, folded brain_of_def canonical_lineage_of_def]
  from d obtain created where c: "py_int (por (dget (canonical_lineage_of opp) ''created_at_ms'') (PInt now)) = Inr created"
    by (auto simp: rbind_eq_Inr)
  from assms(2) have put: "put_meta m opp = opp\<lparr>op_meta := PDict m\<rparr>" for m by (simp add: put_meta_def holds_meta_def)
  note d' = d[unfolded c rbind_Inr put]
  show thesis
    by (rule that[OF _ _ c refl refl]) (use d' in \<open>auto simp: brain_of_def canonical_lineage_of_def\<close>)
qed

definition intent_of :: "opportunity \<Rightarrow> pydict" where
  "intent_of opp = dict_of (dget (brain_of opp) ''operator_intent'')"

definition fingerprint_of :: "opportunity \<Rightarrow> string" where
  "fingerprint_of opp = text_of (dget (brain_of opp) ''intent_fingerprint'')"

text \<open>The identity an opportunity carries.\<close>

definition carries :: "opportunity \<Rightarrow> decision_execution_identity \<Rightarrow> bool" where
  "carries opp i \<longleftrightarrow> is_mapping (op_meta opp) \<and>
     dget (brain_of opp) ''canonical_decision_id'' = PStr (di_decision_id i) \<and> dget (brain_of opp) ''correlation_id'' = PStr (di_correlation_id i) \<and>
     di_decision_id i \<noteq> [] \<and> strip (di_decision_id i) = di_decision_id i \<and>
     di_correlation_id i \<noteq> [] \<and> strip (di_correlation_id i) = di_correlation_id i"

lemma dget_with [simp]:
  "dget (with_intent intent fp d) j = (if j = ''intent_fingerprint'' \<and> fp \<noteq> [] then PStr fp
     else if j = ''operator_intent'' \<and> intent \<noteq> [] then PDict intent else dget d j)"
  "dget (with_ids i d) j = (if j = ''correlation_id'' then PStr (di_correlation_id i)
     else if j = ''canonical_decision_id'' then PStr (di_decision_id i) else dget d j)"
  by (simp_all add: with_intent_def with_ids_def)

lemma ensure_carries:
  assumes "ensure_decision_identity sha now req opp dec = Inr (opp', dec', i)" "holds_meta opp"
  shows "carries opp' i"
  using assms
proof (rule ensure_shape)
  fix created intent fp
  assume s: "di_decision_id i = decision_id_for sha req opp (brain_of opp) (canonical_lineage_of opp) (decision_meta dec)"
    "di_correlation_id i = correlation_id_for sha req (di_decision_id i) (brain_of opp) (canonical_lineage_of opp) (decision_meta dec)"
    "is_mapping (op_meta opp')" "brain_of opp' = with_intent intent fp (with_ids i (brain_of opp))"
    "canonical_lineage_of opp' = with_intent intent fp (identity_lineage i created)"
  have "di_decision_id i \<noteq> []" "strip (di_decision_id i) = di_decision_id i"
    unfolding s(1) by (rule id_texts)+
  moreover have "di_correlation_id i \<noteq> []" "strip (di_correlation_id i) = di_correlation_id i"
    by (subst s(2), rule id_texts) (subst (1 2) s(2), rule id_texts)
  ultimately show ?thesis
    using s(3) unfolding carries_def s(4) by auto
qed

lemma kept_ids:
  assumes "carries opp i"
  shows "kept_decision_id (brain_of opp) l dm = di_decision_id i" "kept_correlation_id (brain_of opp) l dm = di_correlation_id i"
  using assms by (simp_all add: carries_def kept_decision_id_def kept_correlation_id_def por_def)

lemma kept_intent:
  "dict_of (dget brain ''operator_intent'') \<noteq> [] \<Longrightarrow> intent_snapshot brain l dm given = dict_of (dget brain ''operator_intent'')"
  by (cases "dget brain ''operator_intent''") (simp_all add: intent_snapshot_def por_def dict_of_def as_dict_def Let_def)

lemma kept_fingerprint:
  assumes "text_of (dget brain ''intent_fingerprint'') \<noteq> []"
  shows "intent_fingerprint_of brain l dm given = text_of (dget brain ''intent_fingerprint'')"
proof -
  have "truthy (dget brain ''intent_fingerprint'')"
    using assms by (rule contrapos_np) (simp add: text_of_def str_or_empty_def)
  then show ?thesis using assms by (simp add: intent_fingerprint_of_def por_def Let_def)
qed

text \<open>C30: an identity is written once: after a decision was identified, identifying it again - for another chain or
  block, with another intent or fingerprint, with any other decision object - gives the same decision and
  correlation ids, and keeps the operator's intent and its fingerprint where there were any; the lineage read from
  the opportunity begins with these ids.\<close>

theorem identity_write_once:
  assumes "ensure_decision_identity sha now req opp dec = Inr (opp1, dec1, i)" "holds_meta opp"
  shows "\<exists>opp2 dec2. ensure_decision_identity sha' now' req' opp1 dec' = Inr (opp2, dec2, i) \<and>
    (intent_of opp1 \<noteq> [] \<longrightarrow> intent_of opp2 = intent_of opp1) \<and>
    (fingerprint_of opp1 \<noteq> [] \<longrightarrow> fingerprint_of opp2 = fingerprint_of opp1) \<and>
    take 2 (lineage_from_opportunity opp2) = [(''decision_id'', di_decision_id i), (''correlation_id'', di_correlation_id i)]"
proof -
  have c1: "carries opp1 i" by (rule ensure_carries[OF assms])
  from assms obtain created where cr: "dget (canonical_lineage_of opp1) ''created_at_ms'' = PInt created"
    by (rule ensure_shape) (simp add: identity_lineage_def)
  have "\<exists>x. py_int (por (dget (canonical_lineage_of opp1) ''created_at_ms'') (PInt now')) = Inr x"
    by (simp add: cr por_def)
  then obtain opp2 dec2 i2 where e: "ensure_decision_identity sha' now' req' opp1 dec' = Inr (opp2, dec2, i2)"
    by (auto simp: ensure_decision_identity_def Let_def canonical_lineage_of_def)
  have h: "holds_meta opp1" using c1 by (simp add: carries_def holds_meta_def)
  from e h show ?thesis
  proof (rule ensure_shape)
    fix created2 intent fp
    assume s: "di_decision_id i2 = decision_id_for sha' req' opp1 (brain_of opp1) (canonical_lineage_of opp1) (decision_meta dec')"
      "di_correlation_id i2 = correlation_id_for sha' req' (di_decision_id i2) (brain_of opp1) (canonical_lineage_of opp1) (decision_meta dec')"
      "intent = intent_snapshot (brain_of opp1) (canonical_lineage_of opp1) (decision_meta dec') (ir_intent req')"
      "fp = intent_fingerprint_of (brain_of opp1) (canonical_lineage_of opp1) (decision_meta dec') (ir_fingerprint req')"
      "brain_of opp2 = with_intent intent fp (with_ids i2 (brain_of opp1))"
    from c1 have ne: "di_decision_id i \<noteq> []" "di_correlation_id i \<noteq> []" by (simp_all add: carries_def)
    have "i2 = i"
      using s(1,2) ne by (simp add: decision_id_for_def correlation_id_for_def kept_ids[OF c1])
    moreover have "intent_of opp2 = intent_of opp1" if "intent_of opp1 \<noteq> []"
      using that kept_intent[of "brain_of opp1" "canonical_lineage_of opp1" "decision_meta dec'" "ir_intent req'"] s(3,5)
      by (simp add: intent_of_def)
    moreover have "fingerprint_of opp2 = fingerprint_of opp1" if "fingerprint_of opp1 \<noteq> []"
      using that kept_fingerprint[of "brain_of opp1" "canonical_lineage_of opp1" "decision_meta dec'" "ir_fingerprint req'"] s(4,5)
      by (simp add: fingerprint_of_def)
    moreover have "carries opp2 i2" by (rule ensure_carries[OF e h])
    then have "take 2 (lineage_from_opportunity opp2) = [(''decision_id'', di_decision_id i2), (''correlation_id'', di_correlation_id i2)]"
      by (simp add: lineage_from_opportunity_def Let_def carries_def brain_of_def[symmetric] por_def)
    ultimately show ?thesis using e by blast
  qed
qed

section \<open>Sizing ids are written once\<close>

lemma attach_sizing_shape:
  assumes "attach_sizing_identity sizing approved opp dec = (opp', dec', Inr s)"
  shows "s = text_of sizing" "s \<noteq> []" "strip s = s" "is_mapping (op_meta opp')" "op_meta_writable opp' = op_meta_writable opp"
    "dget (brain_of opp') k = (if k = ''sizing_id'' then PStr s else dget (brain_of opp) k)"
    "dec' = map_option (attach_decision_sizing s) dec"
  using assms
  by (auto simp: attach_sizing_identity_def Let_def brain_of_def split: if_splits)

text \<open>A sizing is written once: an opportunity that was given a sizing id takes the same id again, from whatever
  decision object it comes, and refuses every other id without a change to opportunity or decision.\<close>

theorem sizing_written_once:
  assumes "attach_sizing_identity sizing approved opp dec = (opp1, dec1, Inr s)"
  shows "if text_of again = s then \<exists>opp2 dec2. attach_sizing_identity again approved' opp1 dec' = (opp2, dec2, Inr s)
    else attach_sizing_identity again approved' opp1 dec' = (opp1, dec', Inl ValueError)"
proof -
  note a = attach_sizing_shape[OF assms]
  have b: "dget (brain_of opp1) ''sizing_id'' = PStr s" using a(6)[of "''sizing_id''"] by simp
  have ex: "existing_sizing (brain_of opp1) l dm = s" for l dm
    using a(2,3) by (simp add: existing_sizing_def b por_def)
  from a(4) obtain m where m: "op_meta opp1 = PDict m" by (rule is_mappingE)
  have same: "opp1\<lparr>op_meta := PDict m\<rparr> = opp1" using m by simp
  show ?thesis
    using ex a(2) m same by (simp add: attach_sizing_identity_def Let_def brain_of_def)
qed

section \<open>The lineage from decision to execution\<close>

lemma decision_after_ensure:
  assumes "ensure_decision_identity sha now req opp (Some d) = Inr (opp1, Some d1, i)" "holds_meta opp" "de_writable d"
  shows "dget (dict_of (de_metadata d1)) ''canonical_decision_id'' = PStr (di_decision_id i)"
    "dget (dict_of (de_metadata d1)) ''correlation_id'' = PStr (di_correlation_id i)" "de_writable d1"
  using assms(1,2) by (rule ensure_shape, simp add: set_metadata_def assms(3))+

lemma decision_after_sizing:
  "de_writable d \<Longrightarrow> k \<noteq> ''sizing_id'' \<Longrightarrow> k \<noteq> ''decision_lineage'' \<Longrightarrow>
   dget (dict_of (de_metadata (attach_decision_sizing s d))) k = dget (dict_of (de_metadata d)) k"
  by (simp add: attach_decision_sizing_def set_metadata_def Let_def)

lemma lineage_after_execution:
  assumes "carries opp i" "op_meta_writable opp" "dget (brain_of opp) ''sizing_id'' = PStr s" "s \<noteq> []" "strip s = s"
    and "e = \<lparr>ei_execution_id = eid, ei_decision_id = di_decision_id i, ei_correlation_id = di_correlation_id i\<rparr>" "eid \<noteq> []" "strip eid = eid"
    and "attach_execution_identity e d opp r = (d', opp', r')"
  shows "lineage_from_opportunity opp' = [(''decision_id'', di_decision_id i), (''correlation_id'', di_correlation_id i),
    (''sizing_id'', s), (''execution_id'', eid)]"
proof -
  have "\<exists>m. op_meta opp' = PDict m \<and> dget m ''brain'' = PDict (tag_ids e (brain_of opp))"
    using assms(2,9) by (auto simp: attach_execution_identity_def attach_to_opportunity_def Let_def brain_of_def split: prod.splits)
  then obtain m where m: "dict_of (op_meta opp') = m" "dict_of (dget m ''brain'') = tag_ids e (brain_of opp)" by auto
  show ?thesis
    using assms(1,3-8) by (simp add: lineage_from_opportunity_def Let_def m tag_ids_def opportunity_sizing_def por_def carries_def)
qed

text \<open>C29: the lineage is complete: once a decision is identified, its sizing attached and an execution minted and attached,
  the opportunity answers with exactly the four ids - the decision and correlation ids given first, the sizing id and
  the new execution id - and the execution names the same decision.\<close>

theorem lineage_complete:
  assumes "ensure_decision_identity sha now req opp (Some d) = Inr (opp1, Some d1, i)" "holds_meta opp" "op_meta_writable opp" "de_writable d"
    and "text_of sizing \<noteq> []" "existing_sizing (brain_of opp1) (canonical_lineage_of opp1) (decision_meta (Some d1)) \<in> {[], text_of sizing}"
    and "\<forall>c \<in> set uuid_hex. \<not> is_space c"
  shows "\<exists>opp2 d2 e. attach_sizing_identity sizing approved opp1 (Some d1) = (opp2, Some d2, Inr (text_of sizing)) \<and>
    create_execution_identity uuid_hex d2 opp2 = Inr e \<and>
    ei_decision_id e = di_decision_id i \<and> ei_correlation_id e = di_correlation_id i \<and>
    (\<forall>result. lineage_from_opportunity (fst (snd (attach_execution_identity e d2 opp2 result))) =
      [(''decision_id'', di_decision_id i), (''correlation_id'', di_correlation_id i), (''sizing_id'', text_of sizing),
       (''execution_id'', ''execution_'' @ uuid_hex)])"
proof -
  have c1: "carries opp1 i" by (rule ensure_carries[OF assms(1,2)])
  have w1: "op_meta_writable opp1" using assms(1,2) by (rule ensure_shape) (simp add: assms(3))
  note d1 = decision_after_ensure[OF assms(1,2,4)]
  obtain opp2 where a: "attach_sizing_identity sizing approved opp1 (Some d1) = (opp2, Some (attach_decision_sizing (text_of sizing) d1), Inr (text_of sizing))"
    using assms(5,6) c1 by (auto simp: attach_sizing_identity_def Let_def brain_of_def canonical_lineage_of_def carries_def)
  note s = attach_sizing_shape[OF a]
  have c2: "carries opp2 i" using c1 s(4,6) by (simp add: carries_def)
  let ?d2 = "attach_decision_sizing (text_of sizing) d1"
  define e where "e = \<lparr>ei_execution_id = ''execution_'' @ uuid_hex, ei_decision_id = di_decision_id i, ei_correlation_id = di_correlation_id i\<rparr>"
  have "dget (dict_of (de_metadata ?d2)) ''canonical_decision_id'' = PStr (di_decision_id i)"
    "dget (dict_of (de_metadata ?d2)) ''correlation_id'' = PStr (di_correlation_id i)"
    using d1 by (simp_all add: decision_after_sizing)
  with c1 have cr: "create_execution_identity uuid_hex ?d2 opp2 = Inr e"
    by (simp add: create_execution_identity_def Let_def por_def carries_def e_def)
  have eid: "strip (''execution_'' @ uuid_hex) = ''execution_'' @ uuid_hex"
    by (rule strip_no_space) (use assms(7) in \<open>auto simp: is_space_def\<close>)
  have "lineage_from_opportunity (fst (snd (attach_execution_identity e ?d2 opp2 result))) =
      [(''decision_id'', di_decision_id i), (''correlation_id'', di_correlation_id i), (''sizing_id'', text_of sizing),
       (''execution_id'', ''execution_'' @ uuid_hex)]" for result
    by (rule lineage_after_execution[OF c2 _ _ assms(5) _ e_def _ eid, of ?d2 result "fst (attach_execution_identity e ?d2 opp2 result)" _
          "snd (snd (attach_execution_identity e ?d2 opp2 result))"])
       (use w1 s(5,6) in simp_all)
  with a cr show ?thesis by (auto simp: e_def)
qed

section \<open>A concrete decision\<close>

definition demo_opportunity :: opportunity where
  "demo_opportunity = \<lparr>op_id = PStr ''o'', op_route_id = PStr ''r'', op_meta = PDict [], op_meta_writable = True\<rparr>"

definition demo_decision :: decision where
  "demo_decision = \<lparr>de_metadata = PDict [], de_writable = True\<rparr>"

definition demo_identity_request :: identity_request where
  "demo_identity_request = \<lparr>ir_chain = ''base'', ir_block = 7, ir_intent = Some [(''goal'', PStr ''x'')], ir_fingerprint = PStr ''f''\<rparr>"

lemma demo_ensured:
  "\<exists>opp1 d1 i. ensure_decision_identity sha 5 demo_identity_request demo_opportunity (Some demo_decision) = Inr (opp1, Some d1, i) \<and>
     existing_sizing (brain_of opp1) (canonical_lineage_of opp1) (decision_meta (Some d1)) = [] \<and>
     intent_of opp1 = [(''goal'', PStr ''x'')]"
  by (simp add: ensure_decision_identity_def Let_def demo_opportunity_def demo_decision_def por_def put_meta_def set_metadata_def
      existing_sizing_def brain_of_def canonical_lineage_of_def decision_meta_def demo_identity_request_def identity_lineage_def
      intent_of_def intent_snapshot_def text_of_def str_or_empty_def strip_def decision_lineage_def)

lemma demo_holds: "holds_meta demo_opportunity" "op_meta_writable demo_opportunity" "de_writable demo_decision"
  by (simp_all add: holds_meta_def demo_opportunity_def demo_decision_def)

theorem identity_write_once_witness:
  "\<exists>opp1 d1 i opp2 d2. ensure_decision_identity (\<lambda>_. [0]) 5 demo_identity_request demo_opportunity (Some demo_decision) = Inr (opp1, Some d1, i) \<and>
     ensure_decision_identity (\<lambda>_. [1]) 9 (demo_identity_request\<lparr>ir_intent := None, ir_block := 8\<rparr>) opp1 None = Inr (opp2, d2, i) \<and>
     intent_of opp2 = [(''goal'', PStr ''x'')]"
proof -
  obtain opp1 d1 i where a: "ensure_decision_identity (\<lambda>_. [0]) 5 demo_identity_request demo_opportunity (Some demo_decision) = Inr (opp1, Some d1, i)"
    "intent_of opp1 = [(''goal'', PStr ''x'')]"
    using demo_ensured by blast
  then show ?thesis
    using identity_write_once[OF a(1) demo_holds(1), of "\<lambda>_. [1]" 9 "demo_identity_request\<lparr>ir_intent := None, ir_block := 8\<rparr>" None] by auto
qed

lemma demo_sized:
  "attach_sizing_identity (PStr ''s1'') None demo_opportunity None =
     (demo_opportunity\<lparr>op_meta := PDict [(''canonical_lineage'', PDict [(''sizing_id'', PStr ''s1'')]), (''brain'', PDict [(''sizing_id'', PStr ''s1'')]),
        (''sizing_id'', PStr ''s1'')]\<rparr>, None, Inr ''s1'')"
  by (simp add: attach_sizing_identity_def Let_def demo_opportunity_def existing_sizing_def decision_meta_def strip_def is_space_def por_def dset_def
      text_of_def str_or_empty_def)

theorem sizing_written_once_witness:
  "\<exists>opp1. attach_sizing_identity (PStr ''s1'') None demo_opportunity None = (opp1, None, Inr ''s1'') \<and>
     attach_sizing_identity (PStr ''s2'') None opp1 (Some demo_decision) = (opp1, Some demo_decision, Inl ValueError)"
  using demo_sized sizing_written_once[OF demo_sized, of "PStr ''s2''" None "Some demo_decision"] by (simp add: strip_def is_space_def)

theorem lineage_complete_witness:
  "\<exists>opp1 d1 i opp2 d2 e. ensure_decision_identity (\<lambda>_. [0]) 5 demo_identity_request demo_opportunity (Some demo_decision) = Inr (opp1, Some d1, i) \<and>
     attach_sizing_identity (PStr ''s1'') None opp1 (Some d1) = (opp2, Some d2, Inr ''s1'') \<and>
     create_execution_identity ''ab'' d2 opp2 = Inr e \<and>
     lineage_from_opportunity (fst (snd (attach_execution_identity e d2 opp2 None))) =
       [(''decision_id'', di_decision_id i), (''correlation_id'', di_correlation_id i), (''sizing_id'', ''s1''), (''execution_id'', ''execution_ab'')]"
proof -
  obtain opp1 d1 i where a: "ensure_decision_identity (\<lambda>_. [0]) 5 demo_identity_request demo_opportunity (Some demo_decision) = Inr (opp1, Some d1, i)"
    "existing_sizing (brain_of opp1) (canonical_lineage_of opp1) (decision_meta (Some d1)) = []"
    using demo_ensured by blast
  have t: "text_of (PStr ''s1'') = ''s1''" by (simp add: strip_def is_space_def)
  then have "text_of (PStr ''s1'') \<noteq> []" "existing_sizing (brain_of opp1) (canonical_lineage_of opp1) (decision_meta (Some d1)) \<in> {[], text_of (PStr ''s1'')}"
    "\<forall>c \<in> set ''ab''. \<not> is_space c"
    using a(2) by (simp_all add: is_space_def)
  from lineage_complete[OF a(1) demo_holds this, of None] a(1) t show ?thesis by force
qed

section \<open>What identifying again forgets\<close>

text \<open>C40: identifying a decision again rebuilds \<open>canonical_lineage\<close> from a fixed list of keys: whatever was recorded there
  since - the sizing id, the approved notional, the execution id - is gone from it, while the sizing and execution ids stay
  in \<open>brain\<close>.\<close>

theorem reidentified_lineage_forgets:
  assumes "ensure_decision_identity sha now req opp dec = Inr (opp1, dec1, i)" "holds_meta opp"
    and "k \<in> {''sizing_id'', ''approved_notional_usd'', ''execution_id''}"
  shows "dget (canonical_lineage_of opp1) k = PNone \<and> dget (brain_of opp1) k = dget (brain_of opp) k"
  using assms(1,2) by (rule ensure_shape) (use assms(3) in \<open>auto simp: identity_lineage_def\<close>)

theorem reidentified_lineage_forgets_witness:
  "\<exists>opp1 opp2 dec i. attach_sizing_identity (PStr ''s1'') (Some (FFin 25 1 ''12.5'')) demo_opportunity None = (opp1, None, Inr ''s1'') \<and>
     dget (canonical_lineage_of opp1) ''approved_notional_usd'' = PFloat (FFin 25 1 ''12.5'') \<and>
     ensure_decision_identity (\<lambda>_. [0]) 5 demo_identity_request opp1 None = Inr (opp2, dec, i) \<and>
     dget (canonical_lineage_of opp2) ''approved_notional_usd'' = PNone"
proof -
  define opp1 where "opp1 = fst (attach_sizing_identity (PStr ''s1'') (Some (FFin 25 1 ''12.5'')) demo_opportunity None)"
  have s: "attach_sizing_identity (PStr ''s1'') (Some (FFin 25 1 ''12.5'')) demo_opportunity None = (opp1, None, Inr ''s1'')"
    and n: "dget (canonical_lineage_of opp1) ''approved_notional_usd'' = PFloat (FFin 25 1 ''12.5'')" "dget (canonical_lineage_of opp1) ''created_at_ms'' = PNone"
    by (simp_all add: opp1_def attach_sizing_identity_def Let_def demo_opportunity_def existing_sizing_def decision_meta_def strip_def is_space_def
        por_def text_of_def str_or_empty_def canonical_lineage_of_def)
  have h: "holds_meta opp1" using attach_sizing_shape(4)[OF s] by (simp add: holds_meta_def)
  have "\<exists>opp2 dec i. ensure_decision_identity (\<lambda>_. [0]) 5 demo_identity_request opp1 None = Inr (opp2, dec, i)"
    using n(2) by (simp add: ensure_decision_identity_def Let_def canonical_lineage_of_def por_def)
  then obtain opp2 dec i where e: "ensure_decision_identity (\<lambda>_. [0]) 5 demo_identity_request opp1 None = Inr (opp2, dec, i)" by blast
  show ?thesis using s n e reidentified_lineage_forgets[OF e h, of "''approved_notional_usd''"] by auto
qed

end
