(* ===== verification/Py_Float.thy ===== *)
theory Py_Float
  imports Py_Prelude "HOL-Library.Log_Nat"
begin

text \<open>
  Floats and decimals as Python has them: IEEE double arithmetic with rounding to nearest, ties to even, the
  shortest \<open>repr\<close>, \<open>float\<close> of a text, \<open>round(x, 8)\<close>, and the arithmetic of \<open>decimal\<close> with 28 digits. Both
  roundings are one function of base, precision and least exponent, which is monotone and near its argument.
\<close>

section \<open>Rounding to a number of digits\<close>

definition half_even :: "rat \<Rightarrow> int" where
  "half_even x = (let f = \<lfloor>x\<rfloor>; d = x - of_int f in
     if d < 1 / 2 then f else if 1 / 2 < d then f + 1 else if even f then f else f + 1)"

text \<open>The exponent of the leading digit of a positive number.\<close>

definition elog :: "nat \<Rightarrow> rat \<Rightarrow> int" where
  "elog b x = (case quotient_of x of (n, d) \<Rightarrow>
     let k = int (floorlog b (nat n)) - int (floorlog b (nat d)) in
     if of_nat b powi k \<le> x then k else k - 1)"

definition grid :: "nat \<Rightarrow> nat \<Rightarrow> int \<Rightarrow> rat \<Rightarrow> int" where
  "grid b p emin x = max emin (elog b x - int p + 1)"

definition round_pos :: "nat \<Rightarrow> nat \<Rightarrow> int \<Rightarrow> rat \<Rightarrow> rat" where
  "round_pos b p emin x = (let e = grid b p emin x in of_int (half_even (x / of_nat b powi e)) * of_nat b powi e)"

definition round_digits :: "nat \<Rightarrow> nat \<Rightarrow> int \<Rightarrow> rat \<Rightarrow> rat" where
  "round_digits b p emin x =
     (if x = 0 then 0 else if x < 0 then - round_pos b p emin (- x) else round_pos b p emin x)"

lemma half_even_near: "\<bar>of_int (half_even x) - x\<bar> \<le> 1 / 2"
proof -
  have "of_int \<lfloor>x\<rfloor> \<le> x" "x < of_int \<lfloor>x\<rfloor> + 1" by linarith+
  then show ?thesis by (auto simp: half_even_def Let_def)
qed

lemma half_even_of_int [simp]: "half_even (of_int n) = n"
  by (simp add: half_even_def)

lemma half_evenI:
  assumes "of_int n - 1 / 2 < x" "x < of_int n + 1 / 2"
  shows "half_even x = n"
proof -
  have "\<bar>of_int (half_even x) - of_int n :: rat\<bar> < 1" using half_even_near[of x] assms by linarith
  then show ?thesis by linarith
qed

lemma half_even_mono:
  assumes "x \<le> y" shows "half_even x \<le> half_even y"
proof (cases "\<lfloor>x\<rfloor> = \<lfloor>y\<rfloor>")
  case True
  then show ?thesis using assms by (auto simp: half_even_def Let_def)
next
  case False
  then have "\<lfloor>x\<rfloor> + 1 \<le> \<lfloor>y\<rfloor>" using floor_mono[OF assms] by linarith
  moreover have "half_even x \<le> \<lfloor>x\<rfloor> + 1" "\<lfloor>y\<rfloor> \<le> half_even y" by (auto simp: half_even_def Let_def)
  ultimately show ?thesis by linarith
qed

lemma half_even_ge_int: "of_int n \<le> x \<Longrightarrow> n \<le> half_even x"
  using half_even_mono[of "of_int n" x] by simp

lemma half_even_le_int: "x \<le> of_int n \<Longrightarrow> half_even x \<le> n"
  using half_even_mono[of x "of_int n"] by simp

lemma quotient_of_pos:
  assumes "0 < x" "quotient_of x = (n, d)"
  shows "0 < n" "0 < d" "x = of_int n / of_int d"
proof -
  show d: "0 < d" using assms(2) by (rule quotient_of_denom_pos)
  show x: "x = of_int n / of_int d" using assms(2) by (rule quotient_of_div)
  show "0 < n" using assms(1) d x by (simp add: zero_less_divide_iff)
qed

lemma elog_bounds:
  assumes "2 \<le> b" "0 < x"
  shows "of_nat b powi (elog b x) \<le> x" "x < of_nat b powi (elog b x + 1)"
proof -
  obtain n d where q: "quotient_of x = (n, d)" by (cases "quotient_of x") auto
  note p = quotient_of_pos[OF assms(2) q]
  define i where "i = floorlog b (nat n)"
  define j where "j = floorlog b (nat d)"
  have B: "(0::rat) < of_nat b" "(1::rat) < of_nat b" using assms(1) by auto
  have i: "b ^ (i - 1) \<le> nat n" "nat n < b ^ i" "0 < i"
    using floorlog_bounds[of "nat n" b] p(1) assms(1) by (auto simp: i_def floorlog_def)
  have j: "b ^ (j - 1) \<le> nat d" "nat d < b ^ j" "0 < j"
    using floorlog_bounds[of "nat d" b] p(2) assms(1) by (auto simp: j_def floorlog_def)
  have n: "(of_nat b :: rat) ^ (i - 1) \<le> of_int n" "(of_int n :: rat) < of_nat b ^ i"
    using i p(1) by (metis of_nat_le_iff of_nat_power of_nat_nat order_less_imp_le, metis of_nat_less_iff of_nat_power of_nat_nat order_less_imp_le)
  have d: "(of_nat b :: rat) ^ (j - 1) \<le> of_int d" "(of_int d :: rat) < of_nat b ^ j"
    using j p(2) by (metis of_nat_le_iff of_nat_power of_nat_nat order_less_imp_le, metis of_nat_less_iff of_nat_power of_nat_nat order_less_imp_le)
  define k where "k = int i - int j"
  have "of_nat b powi (k - 1) = (of_nat b :: rat) ^ (i - 1) / of_nat b ^ j"
    using B i(3) by (simp add: k_def power_int_diff power_diff power_int_of_nat divide_simps mult.commute)
  also have "\<dots> < of_nat b ^ (i - 1) / of_int d"
    using d(2) p(2) B by (intro divide_strict_left_mono mult_pos_pos) auto
  also have "\<dots> \<le> x" using n(1) p(2,3) by (simp add: divide_right_mono)
  finally have lo: "of_nat b powi (k - 1) < x" .
  have "x < of_nat b ^ i / of_int d" using n(2) p(2,3) by (simp add: divide_strict_right_mono)
  also have "\<dots> \<le> of_nat b ^ i / of_nat b ^ (j - 1)"
    using d(1) B p(2) by (intro divide_left_mono mult_pos_pos) auto
  also have "\<dots> = of_nat b powi (k + 1)"
    using B j(3) by (simp add: k_def power_int_diff power_int_add power_diff power_int_of_nat divide_simps mult.commute)
  finally have hi: "x < of_nat b powi (k + 1)" .
  have e: "elog b x = (if of_nat b powi k \<le> x then k else k - 1)" by (simp add: elog_def q i_def j_def k_def)
  show "of_nat b powi (elog b x) \<le> x" using lo e by auto
  show "x < of_nat b powi (elog b x + 1)" using hi e by auto
qed

lemma elog_mono:
  assumes "2 \<le> b" "0 < x" "x \<le> y" shows "elog b x \<le> elog b y"
proof (rule ccontr)
  assume "\<not> ?thesis"
  then have "(of_nat b :: rat) powi (elog b y + 1) \<le> of_nat b powi (elog b x)"
    using assms(1) by (intro power_int_increasing) auto
  then show False using elog_bounds(1)[OF assms(1,2)] elog_bounds(2)[of b y] assms by linarith
qed

lemma grid_mono: "2 \<le> b \<Longrightarrow> 0 < x \<Longrightarrow> x \<le> y \<Longrightarrow> grid b p emin x \<le> grid b p emin y"
  using elog_mono[of b x y] by (simp add: grid_def)

lemma powi_pos: "2 \<le> b \<Longrightarrow> (0::rat) < of_nat b powi e"
  by simp

lemma elog_unique:
  assumes "2 \<le> b" "of_nat b powi k \<le> x" "x < of_nat b powi (k + 1)"
  shows "elog b x = k"
proof -
  have x: "0 < x" using assms(1,2) powi_pos[of b k] by linarith
  have "(of_nat b :: rat) powi (elog b x) < of_nat b powi (k + 1)" "(of_nat b :: rat) powi k < of_nat b powi (elog b x + 1)"
    using elog_bounds[OF assms(1) x] assms(2,3) by linarith+
  moreover have "i < j" if "(of_nat b :: rat) powi i < of_nat b powi j" for i j
  proof (rule ccontr)
    assume "\<not> i < j"
    then have "(of_nat b :: rat) powi j \<le> of_nat b powi i" using assms(1) by (intro power_int_increasing) auto
    then show False using that by simp
  qed
  ultimately have "elog b x < k + 1" "k < elog b x + 1" by blast+
  then show ?thesis by simp
qed

lemma power_ratio:
  assumes "2 \<le> b" "e \<le> k"
  shows "(of_nat b :: rat) powi k / of_nat b powi e = of_int (int b ^ nat (k - e))"
proof -
  have "(of_nat b :: rat) powi k / of_nat b powi e = of_nat b powi (k - e)" using assms(1) by (simp add: power_int_diff)
  also have "\<dots> = of_int (int b ^ nat (k - e))" using assms(2) by (simp add: power_int_def)
  finally show ?thesis .
qed

text \<open>Rounding stays below a power of the base that bounds its argument and above one that it bounds.\<close>

lemma round_pos_le_power:
  assumes "2 \<le> b" "x \<le> of_nat b powi k" "grid b p emin x \<le> k"
  shows "round_pos b p emin x \<le> of_nat b powi k"
proof -
  let ?e = "grid b p emin x"
  note i = power_ratio[OF assms(1,3)]
  have "x / of_nat b powi ?e \<le> of_nat b powi k / of_nat b powi ?e"
    using assms(1,2) by (intro divide_right_mono) auto
  then have "(of_int (half_even (x / of_nat b powi ?e)) :: rat) \<le> of_nat b powi k / of_nat b powi ?e"
    unfolding i of_int_le_iff by (rule half_even_le_int)
  then show ?thesis using powi_pos[OF assms(1), of ?e] by (simp add: round_pos_def Let_def pos_le_divide_eq)
qed

lemma round_pos_ge_power:
  assumes "2 \<le> b" "of_nat b powi k \<le> x" "grid b p emin x \<le> k"
  shows "of_nat b powi k \<le> round_pos b p emin x"
proof -
  let ?e = "grid b p emin x"
  note i = power_ratio[OF assms(1,3)]
  have "of_nat b powi k / of_nat b powi ?e \<le> x / of_nat b powi ?e"
    using assms(1,2) by (intro divide_right_mono) auto
  then have "of_nat b powi k / of_nat b powi ?e \<le> (of_int (half_even (x / of_nat b powi ?e)) :: rat)"
    unfolding i of_int_le_iff by (rule half_even_ge_int)
  then show ?thesis using powi_pos[OF assms(1), of ?e] by (simp add: round_pos_def Let_def pos_divide_le_eq)
qed

lemma round_pos_mono:
  assumes "2 \<le> b" "1 \<le> p" "0 < x" "x \<le> y"
  shows "round_pos b p emin x \<le> round_pos b p emin y"
proof (cases "grid b p emin x = grid b p emin y")
  case True
  have "half_even (x / of_nat b powi grid b p emin y) \<le> half_even (y / of_nat b powi grid b p emin y)"
    using assms by (intro half_even_mono divide_right_mono) auto
  then show ?thesis using True assms(1) by (simp add: round_pos_def Let_def mult_right_mono)
next
  case False
  then have g: "grid b p emin x < grid b p emin y" using grid_mono[OF assms(1,3,4), of p emin] by simp
  then have ey: "grid b p emin y = elog b y - int p + 1" and l: "elog b x + 1 \<le> elog b y"
    by (auto simp: grid_def max_def split: if_splits)
  have "x \<le> of_nat b powi (elog b y)"
  proof -
    have "x < of_nat b powi (elog b x + 1)" by (rule elog_bounds(2)[OF assms(1,3)])
    also have "\<dots> \<le> of_nat b powi (elog b y)" using l assms(1) by (intro power_int_increasing) auto
    finally show ?thesis by simp
  qed
  then have "round_pos b p emin x \<le> of_nat b powi (elog b y)"
    using g ey assms(2) by (intro round_pos_le_power[OF assms(1)]) auto
  also have "\<dots> \<le> round_pos b p emin y"
    using ey assms by (intro round_pos_ge_power[OF assms(1)] elog_bounds(1)) auto
  finally show ?thesis .
qed

lemma round_pos_nonneg: "2 \<le> b \<Longrightarrow> 0 \<le> x \<Longrightarrow> 0 \<le> round_pos b p emin x"
  using half_even_ge_int[of 0 "x / of_nat b powi grid b p emin x"]
  by (simp add: round_pos_def Let_def)

lemma round_digits_mono:
  assumes "2 \<le> b" "1 \<le> p" "x \<le> y"
  shows "round_digits b p emin x \<le> round_digits b p emin y"
  using assms round_pos_mono[OF assms(1,2), of x y emin] round_pos_mono[OF assms(1,2), of "- y" "- x" emin]
    round_pos_nonneg[OF assms(1), of "- x" p emin] round_pos_nonneg[OF assms(1), of y p emin]
  by (auto simp: round_digits_def)

text \<open>A rounding errs by at most half of the last digit kept.\<close>

lemma round_pos_near:
  assumes "2 \<le> b" "0 < x"
  shows "\<bar>round_pos b p emin x - x\<bar> \<le> of_nat b powi (grid b p emin x) / 2"
proof -
  let ?u = "of_nat b powi (grid b p emin x) :: rat"
  have u: "0 < ?u" using assms(1) by simp
  then have "x = x / ?u * ?u" by (metis nonzero_divide_eq_eq less_irrefl)
  then have "round_pos b p emin x - x = (of_int (half_even (x / ?u)) - x / ?u) * ?u"
    unfolding left_diff_distrib by (simp add: round_pos_def Let_def)
  then have "\<bar>round_pos b p emin x - x\<bar> = \<bar>of_int (half_even (x / ?u)) - x / ?u\<bar> * ?u"
    using u by (simp add: abs_mult)
  also have "\<dots> \<le> 1 / 2 * ?u" using half_even_near[of "x / ?u"] u by (intro mult_right_mono) auto
  finally show ?thesis by simp
qed

lemma round_pos_relative:
  assumes "2 \<le> b" "0 < x" "emin \<le> elog b x - int p + 1"
  shows "\<bar>round_pos b p emin x - x\<bar> \<le> x * of_nat b powi (1 - int p) / 2"
proof -
  have "of_nat b powi (grid b p emin x) = of_nat b powi (elog b x) * (of_nat b :: rat) powi (1 - int p)"
    using assms by (simp add: grid_def max_def flip: power_int_add) (simp add: algebra_simps)
  also have "\<dots> \<le> x * of_nat b powi (1 - int p)"
    using elog_bounds(1)[OF assms(1,2)] assms(1) by (intro mult_right_mono) auto
  finally show ?thesis using round_pos_near[OF assms(1,2), of p emin] by simp
qed

text \<open>Values on the grid are kept.\<close>

lemma round_pos_exact:
  assumes "2 \<le> b" "x = of_int m * of_nat b powi (grid b p emin x)"
  shows "round_pos b p emin x = x"
proof -
  have "x / of_nat b powi (grid b p emin x) = of_int m" using assms by (metis nonzero_mult_div_cancel_right powi_pos less_irrefl)
  then show ?thesis using assms(2) by (simp add: round_pos_def Let_def)
qed

section \<open>Doubles\<close>

text \<open>The value of a finite float, and whether it carries a minus sign (a zero may).\<close>

fun fval :: "pyfloat \<Rightarrow> rat" where
  "fval (FFin m k r) = of_int m / 2 ^ k"
| "fval (FInf neg) = 0"
| "fval FNan = 0"

fun finite_float :: "pyfloat \<Rightarrow> bool" where
  "finite_float (FFin m k r) = True"
| "finite_float (FInf neg) = False"
| "finite_float FNan = False"

fun negative_sign :: "pyfloat \<Rightarrow> bool" where
  "negative_sign (FFin m k r) = (m < 0 \<or> m = 0 \<and> starts_with ''-'' r)"
| "negative_sign (FInf neg) = neg"
| "negative_sign FNan = False"

definition double_digits :: "rat \<Rightarrow> rat" where
  "double_digits x = round_digits 2 53 (- 1074) x"

text \<open>\<open>repr\<close>: the shortest digits that read back as the same double, the nearest of them.\<close>

definition candidates :: "nat \<Rightarrow> rat \<Rightarrow> (nat \<times> int) list" where
  "candidates p v =
     (let e = elog 10 v - int p + 1; y = v / 10 powi e; lo = \<lfloor>y\<rfloor>; d = y - of_int lo;
          ns = (if d = 0 then [lo] else if half_even y = lo then [lo, lo + 1] else [lo + 1, lo]) in
      map (\<lambda>n. (nat n, e)) (filter (\<lambda>n. double_digits (of_int n * 10 powi e) = v) ns))"

fun first_candidate :: "(nat \<times> int) list \<Rightarrow> nat \<Rightarrow> nat \<Rightarrow> rat \<Rightarrow> nat \<times> int" where
  "first_candidate [] 0 p v = (0, 0)"
| "first_candidate [] (Suc more) p v = first_candidate (candidates (Suc p) v) more (Suc p) v"
| "first_candidate (c # cs) more p v = c"

definition shortest :: "rat \<Rightarrow> nat \<times> int" where
  "shortest v = first_candidate [] 17 0 v"

definition zeros :: "nat \<Rightarrow> string" where
  "zeros n = replicate n CHR ''0''"

text \<open>\<open>pt\<close> is where the point stands in the digits \<open>ds\<close>.\<close>

definition layout_digits :: "string \<Rightarrow> int \<Rightarrow> string" where
  "layout_digits ds pt =
     (if - 4 < pt \<and> pt \<le> 16 then
        if pt \<le> 0 then ''0.'' @ zeros (nat (- pt)) @ ds
        else if length ds \<le> nat pt then ds @ zeros (nat pt - length ds) @ ''.0''
        else take (nat pt) ds @ ''.'' @ drop (nat pt) ds
      else let x = show_nat (nat \<bar>pt - 1\<bar>) in
        take 1 ds @ (if length ds = 1 then [] else ''.'' @ drop 1 ds) @ ''e'' @ (if pt - 1 < 0 then ''-'' else ''+'')
          @ (if length x < 2 then ''0'' else []) @ x)"

definition repr_pos :: "rat \<Rightarrow> string" where
  "repr_pos v =
     (case shortest v of (n, e) \<Rightarrow>
        let ds = show_nat n in
        layout_digits (rev (dropWhile (\<lambda>c. c = CHR ''0'') (rev ds))) (int (length ds) + e))"

definition finite_double :: "rat \<Rightarrow> pyfloat" where
  "finite_double v =
     (case quotient_of v of (n, d) \<Rightarrow>
        FFin n (floorlog 2 (nat d) - 1) (if v = 0 then ''0.0'' else if v < 0 then ''-'' @ repr_pos (- v) else repr_pos v))"

definition signed_zero :: "bool \<Rightarrow> pyfloat" where
  "signed_zero neg = FFin 0 0 (if neg then ''-0.0'' else ''0.0'')"

text \<open>The double nearest to a number; a number too small for any becomes a zero of its sign.\<close>

definition to_double :: "rat \<Rightarrow> pyfloat" where
  "to_double x =
     (let v = double_digits x in
      if v = 0 then signed_zero (x < 0) else if 2 ^ 1024 \<le> \<bar>v\<bar> then FInf (x < 0) else finite_double v)"

section \<open>Arithmetic\<close>

text \<open>\<open>a + b\<close>, \<open>a - b\<close>, \<open>a * b\<close>, \<open>a / b\<close>; only a zero divisor raises.\<close>

definition fadd :: "pyfloat \<Rightarrow> pyfloat \<Rightarrow> pyfloat" where
  "fadd a b =
     (if a = FNan \<or> b = FNan then FNan
      else if \<not> finite_float a then (if \<not> finite_float b \<and> a \<noteq> b then FNan else a)
      else if \<not> finite_float b then b
      else if fval a + fval b = 0 then signed_zero (negative_sign a \<and> negative_sign b)
      else to_double (fval a + fval b))"

fun fneg :: "pyfloat \<Rightarrow> pyfloat" where
  "fneg (FFin m k r) = FFin (- m) k (if starts_with ''-'' r then drop 1 r else ''-'' @ r)"
| "fneg (FInf neg) = FInf (\<not> neg)"
| "fneg FNan = FNan"

definition fsub :: "pyfloat \<Rightarrow> pyfloat \<Rightarrow> pyfloat" where
  "fsub a b = fadd a (fneg b)"

definition is_zero :: "pyfloat \<Rightarrow> bool" where
  "is_zero a \<longleftrightarrow> finite_float a \<and> fval a = 0"

definition fmul :: "pyfloat \<Rightarrow> pyfloat \<Rightarrow> pyfloat" where
  "fmul a b =
     (let neg = (negative_sign a \<noteq> negative_sign b) in
      if a = FNan \<or> b = FNan then FNan
      else if \<not> finite_float a \<or> \<not> finite_float b then (if is_zero a \<or> is_zero b then FNan else FInf neg)
      else if fval a * fval b = 0 then signed_zero neg else to_double (fval a * fval b))"

definition fdiv :: "pyfloat \<Rightarrow> pyfloat \<Rightarrow> pyfloat res" where
  "fdiv a b =
     (let neg = (negative_sign a \<noteq> negative_sign b) in
      if is_zero b then Inl ZeroDivisionError
      else Inr (if a = FNan \<or> b = FNan then FNan
        else if \<not> finite_float a then (if finite_float b then FInf neg else FNan)
        else if \<not> finite_float b then signed_zero neg
        else if fval a = 0 then signed_zero neg else to_double (fval a / fval b)))"

text \<open>Comparisons; none holds of a NaN.\<close>

definition flt :: "pyfloat \<Rightarrow> pyfloat \<Rightarrow> bool" where
  "flt a b \<longleftrightarrow> a \<noteq> FNan \<and> b \<noteq> FNan \<and>
     (if finite_float a then if finite_float b then fval a < fval b else \<not> negative_sign b
      else if finite_float b then negative_sign a else negative_sign a \<and> \<not> negative_sign b)"

definition fle :: "pyfloat \<Rightarrow> pyfloat \<Rightarrow> bool" where
  "fle a b \<longleftrightarrow> a \<noteq> FNan \<and> b \<noteq> FNan \<and> \<not> flt b a"

text \<open>\<open>max(a, b)\<close>, \<open>min(...)\<close>: the first of equals, and a NaN stays where it stands first.\<close>

definition fmax :: "pyfloat \<Rightarrow> pyfloat \<Rightarrow> pyfloat" where
  "fmax a b = (if flt a b then b else a)"

fun fmin_from :: "pyfloat \<Rightarrow> pyfloat list \<Rightarrow> pyfloat" where
  "fmin_from a [] = a"
| "fmin_from a (b # bs) = fmin_from (if flt b a then b else a) bs"

text \<open>\<open>round(x, 8)\<close>: the exact value to eight places, ties to even, then the nearest double.\<close>

definition fround :: "nat \<Rightarrow> pyfloat \<Rightarrow> pyfloat" where
  "fround places x =
     (if \<not> finite_float x then x
      else let n = half_even (fval x * 10 ^ places) in
        if n = 0 then signed_zero (negative_sign x) else to_double (of_int n / 10 ^ places))"

section \<open>Conversions\<close>

definition float_of_int :: "int \<Rightarrow> pyfloat res" where
  "float_of_int n = (let f = to_double (of_int n) in if finite_float f then Inr f else Inl OverflowError)"

definition is_digit :: "char \<Rightarrow> bool" where
  "is_digit c = (let n = of_char c :: nat in 48 \<le> n \<and> n \<le> 57)"

definition digits_value :: "string \<Rightarrow> nat" where
  "digits_value ds = foldl (\<lambda>a c. 10 * a + (of_char c - 48)) 0 ds"

text \<open>Sign, digits before and after the point, exponent: the value is \<open>n * 10 ^ e\<close> with the sign.\<close>

definition exponent_of :: "string \<Rightarrow> int option" where
  "exponent_of r =
     (case r of [] \<Rightarrow> Some 0
      | c # t \<Rightarrow> if c \<noteq> CHR ''e'' \<and> c \<noteq> CHR ''E'' then None
          else case split_sign t of (sg, ds) \<Rightarrow>
            if ds \<noteq> [] \<and> list_all is_digit ds then Some (sg * int (digits_value ds)) else None)"

definition decimal_text :: "string \<Rightarrow> (bool \<times> nat \<times> int) option" where
  "decimal_text s =
     (case split_sign s of (sg, r) \<Rightarrow>
        let ip = takeWhile is_digit r; r1 = dropWhile is_digit r;
            fp = (case r1 of [] \<Rightarrow> [] | c # t \<Rightarrow> if c = CHR ''.'' then takeWhile is_digit t else []);
            r2 = (case r1 of [] \<Rightarrow> [] | c # t \<Rightarrow> if c = CHR ''.'' then dropWhile is_digit t else r1) in
        if ip = [] \<and> fp = [] then None
        else map_option (\<lambda>e. (sg < 0, digits_value (ip @ fp), e - int (length fp))) (exponent_of r2))"

definition decimal_value :: "bool \<times> nat \<times> int \<Rightarrow> rat" where
  "decimal_value d = (case d of (neg, n, e) \<Rightarrow> (if neg then - 1 else 1) * of_nat n * 10 powi e)"

text \<open>An underscore in the text of a float must stand between digits; \<open>Decimal\<close> takes it anywhere.\<close>

fun underscores_ok :: "char option \<Rightarrow> string \<Rightarrow> bool" where
  "underscores_ok prev [] = (prev \<noteq> Some CHR ''_'')"
| "underscores_ok prev (c # cs) =
     ((c = CHR ''_'' \<longrightarrow> (case prev of None \<Rightarrow> False | Some d \<Rightarrow> is_digit d)) \<and>
      (prev = Some CHR ''_'' \<longrightarrow> is_digit c) \<and> underscores_ok (Some c) cs)"

definition no_underscores :: "string \<Rightarrow> string" where
  "no_underscores s = filter (\<lambda>c. c \<noteq> CHR ''_'') s"

definition float_of_text :: "string \<Rightarrow> pyfloat res" where
  "float_of_text s =
     (let t = strip s; (sg, r) = split_sign t; w = lower r in
      if w \<in> {''inf'', ''infinity''} then Inr (FInf (sg < 0))
      else if w = ''nan'' then Inr FNan
      else if \<not> underscores_ok None t then Inl ValueError
      else (case decimal_text (no_underscores t) of None \<Rightarrow> Inl ValueError
        | Some (neg, n, e) \<Rightarrow> Inr (if n = 0 then signed_zero neg else to_double (decimal_value (neg, n, e)))))"

fun py_float :: "pyval \<Rightarrow> pyfloat res" where
  "py_float (PBool b) = float_of_int (if b then 1 else 0)"
| "py_float (PInt n) = float_of_int n"
| "py_float (PFloat f) = Inr f"
| "py_float (PStr s) = float_of_text s"
| "py_float PNone = Inl TypeError"
| "py_float (PList xs) = Inl TypeError"
| "py_float (PDict d) = Inl TypeError"

section \<open>Decimals\<close>

text \<open>\<open>Decimal(s)\<close>: a finite number, or one of the special values. A NaN may carry digits.\<close>

datatype decimal = DFin rat | DSpecial

definition special_decimal :: "string \<Rightarrow> bool" where
  "special_decimal w \<longleftrightarrow> w \<in> {''inf'', ''infinity''} \<or>
     starts_with ''nan'' w \<and> list_all is_digit (drop 3 w) \<or> starts_with ''snan'' w \<and> list_all is_digit (drop 4 w)"

definition decimal_of_text :: "string \<Rightarrow> decimal option" where
  "decimal_of_text s =
     (let t = no_underscores (strip s) in
      if special_decimal (lower (snd (split_sign t))) then Some DSpecial
      else map_option (\<lambda>d. DFin (decimal_value d)) (decimal_text t))"

text \<open>A result of decimal arithmetic in the context Python starts with: 28 digits, ties to even. An exponent
  beyond 999999 raises \<open>Overflow\<close>, here None.\<close>

definition least_exponent :: int where
  "least_exponent = - 1000026"

definition decimal_round :: "rat \<Rightarrow> rat option" where
  "decimal_round x =
     (let v = round_digits 10 28 least_exponent x in
      if v \<noteq> 0 \<and> 1000000 \<le> elog 10 \<bar>v\<bar> then None else Some v)"

text \<open>Rounding errs by at most one half in the 28th digit, of numbers that are not vanishingly small.\<close>

lemma powi_less_iff: "(10::rat) powi i < 10 powi j \<longleftrightarrow> i < j"
proof
  assume "(10::rat) powi i < 10 powi j"
  then have "\<not> (10::rat) powi j \<le> 10 powi i" by simp
  moreover have "(10::rat) powi j \<le> 10 powi i" if "j \<le> i" using that by (rule power_int_increasing) simp
  ultimately show "i < j" by linarith
next
  assume "i < j"
  then show "(10::rat) powi i < 10 powi j" by (rule power_int_strict_increasing) simp
qed

lemma decimal_round_near:
  assumes "decimal_round x = Some v" "10 powi k \<le> x" "- 999000 \<le> k"
  shows "\<bar>v - x\<bar> \<le> x / (2 * 10 ^ 27)"
proof -
  have "(0::rat) < 10 powi k" by simp
  then have x: "0 < x" using assms(2) by linarith
  have "(10::rat) powi k < 10 powi (elog 10 x + 1)" using elog_bounds(2)[of 10 x] x assms(2) by simp
  then have "least_exponent \<le> elog 10 x - int 28 + 1" using assms(3) by (simp add: powi_less_iff least_exponent_def)
  then have r: "\<bar>round_pos 10 28 least_exponent x - x\<bar> \<le> x * of_nat 10 powi (1 - int 28) / 2"
    using round_pos_relative[OF _ x, of 10 least_exponent 28] by simp
  have "(of_nat 10 :: rat) powi (1 - int 28) = 1 / 10 ^ 27" by (simp add: power_int_def power_one_over)
  with r assms(1) x show ?thesis
    by (simp add: decimal_round_def Let_def round_digits_def split: if_splits)
qed

lemma decimal_round_tiny:
  assumes "decimal_round x = Some v" "0 \<le> x" "x \<le> 10 powi k" "- 1000000 \<le> k"
  shows "0 \<le> v" "v \<le> 10 powi k"
proof -
  have "grid 10 28 least_exponent x \<le> k" if "0 < x"
  proof -
    have "(10::rat) powi elog 10 x \<le> 10 powi k" using elog_bounds(1)[of 10 x] that assms(3) by simp
    then have "elog 10 x \<le> k" using powi_less_iff[of k "elog 10 x"] by linarith
    then show ?thesis using assms(4) by (simp add: grid_def least_exponent_def)
  qed
  then show "0 \<le> v" "v \<le> 10 powi k"
    using assms(1-3) round_pos_le_power[of 10 x k 28 least_exponent] round_pos_nonneg[of 10 x 28 least_exponent]
    by (auto simp: decimal_round_def Let_def round_digits_def split: if_splits)
qed

section \<open>Values of doubles\<close>

lemma double_digits_mono: "x \<le> y \<Longrightarrow> double_digits x \<le> double_digits y"
  unfolding double_digits_def by (rule round_digits_mono) simp_all

lemma double_digits_0 [simp]: "double_digits 0 = 0"
  by (simp add: double_digits_def round_digits_def)

lemma double_digits_nonneg: "0 \<le> x \<Longrightarrow> 0 \<le> double_digits x"
  using double_digits_mono[of 0 x] by simp

lemma double_digits_sign: "0 < double_digits x \<Longrightarrow> 0 < x" "double_digits x < 0 \<Longrightarrow> x < 0"
  using double_digits_mono[of x 0] double_digits_mono[of 0 x] by (cases "0 < x"; cases "x < 0"; auto)+

definition dyadic :: "rat \<Rightarrow> bool" where
  "dyadic v \<longleftrightarrow> (\<exists>m k. v = of_int m / 2 ^ k)"

lemma dyadic_powi: "dyadic (of_int m * 2 powi e)"
proof (cases "0 \<le> e")
  case True
  then have "of_int m * 2 powi e = (of_int (m * 2 ^ nat e) :: rat) / 2 ^ 0" by (simp add: power_int_def)
  then show ?thesis unfolding dyadic_def by blast
next
  case False
  then have "(2::rat) powi e = inverse (2 ^ nat (- e))" by (simp only: power_int_def if_False power_inverse)
  then have "of_int m * 2 powi e = (of_int m :: rat) / 2 ^ nat (- e)" by (simp only: divide_inverse)
  then show ?thesis unfolding dyadic_def by blast
qed

lemma dyadic_uminus: "dyadic v \<Longrightarrow> dyadic (- v)"
proof -
  assume "dyadic v"
  then obtain m k where "- v = of_int (- m) / 2 ^ k" by (auto simp: dyadic_def)
  then show "dyadic (- v)" unfolding dyadic_def by blast
qed

lemma dyadic_double_digits: "dyadic (double_digits x)"
proof -
  have "dyadic (round_pos 2 53 (- 1074) y)" for y
    using dyadic_powi[of "half_even (y / 2 powi grid 2 53 (- 1074) y)" "grid 2 53 (- 1074) y"] by (simp add: round_pos_def Let_def)
  moreover have "dyadic 0" using dyadic_powi[of 0 0] by simp
  ultimately show ?thesis by (simp add: double_digits_def round_digits_def dyadic_uminus)
qed

lemma divisor_of_power2:
  assumes "(d::nat) dvd 2 ^ k" shows "\<exists>j. d = 2 ^ j"
  using assms
proof (induction k arbitrary: d)
  case 0
  then show ?case by (auto intro: exI[of _ 0])
next
  case (Suc k)
  show ?case
  proof (cases "even d")
    case True
    then obtain c where c: "d = 2 * c" by (auto elim: evenE)
    with Suc obtain j where "c = 2 ^ j" by auto
    then have "d = 2 ^ Suc j" using c by simp
    then show ?thesis by blast
  next
    case False
    then have "coprime d (2 ^ Suc k)" by (simp add: coprime_right_2_iff_odd)
    then have "d = 1" using Suc.prems by (metis coprime_absorb_left is_unit_gcd nat_dvd_1_iff_1)
    then show ?thesis by (auto intro: exI[of _ 0])
  qed
qed

lemma dyadic_denominator:
  assumes "dyadic v" "quotient_of v = (n, d)"
  shows "\<exists>j. d = 2 ^ j"
proof -
  obtain m k where v: "v = of_int m / 2 ^ k" using assms(1) by (auto simp: dyadic_def)
  have d: "0 < d" "coprime n d" "v = of_int n / of_int d"
    using assms(2) quotient_of_denom_pos quotient_of_coprime quotient_of_div by auto
  then have "(of_int n :: rat) * 2 ^ k = of_int m * of_int d" using v by (simp add: field_simps)
  then have "n * 2 ^ k = m * d" by (metis of_int_eq_iff of_int_mult of_int_numeral of_int_power)
  then have "d dvd n * 2 ^ k" by simp
  then have "d dvd 2 ^ k" using d(2) by (metis coprime_commute coprime_dvd_mult_right_iff)
  then have "nat d dvd 2 ^ k" using d(1) by (metis nat_dvd_iff int_dvd_int_iff int_nat_eq nat_0_le of_nat_numeral of_nat_power order_less_imp_le)
  then obtain j where "nat d = 2 ^ j" using divisor_of_power2 by blast
  then have "d = 2 ^ j" using d(1) by (metis int_nat_eq of_nat_numeral of_nat_power order_less_imp_le)
  then show ?thesis by blast
qed

lemma fval_finite_double:
  assumes "dyadic v" shows "fval (finite_double v) = v" "finite_float (finite_double v)"
proof -
  obtain n d where q: "quotient_of v = (n, d)" by (cases "quotient_of v") auto
  obtain j where j: "d = 2 ^ j" using dyadic_denominator[OF assms q] by blast
  have nd: "nat d = 1 * 2 ^ j" by (simp add: j nat_power_eq)
  have "floorlog 2 (nat d) - 1 = j" unfolding nd by (subst floorlog_power) (simp_all add: compute_floorlog)
  moreover have "fval (finite_double v) = of_int n / 2 ^ (floorlog 2 (nat d) - 1)" by (simp add: finite_double_def q)
  moreover have "v = of_int n / 2 ^ j" using quotient_of_div[OF q] by (simp add: j)
  ultimately show "fval (finite_double v) = v" by simp
  show "finite_float (finite_double v)" by (simp add: finite_double_def q)
qed

lemma fval_to_double:
  assumes "\<bar>double_digits x\<bar> < 2 ^ 1024"
  shows "fval (to_double x) = double_digits x" "finite_float (to_double x)"
  using assms fval_finite_double[OF dyadic_double_digits[of x]] by (auto simp: to_double_def Let_def signed_zero_def)

lemma finite_to_double: "finite_float (to_double x) \<longleftrightarrow> \<bar>double_digits x\<bar> < 2 ^ 1024"
  using fval_to_double(2)[of x] by (auto simp: to_double_def Let_def)

text \<open>Integers of at most 53 bits are doubles.\<close>

lemma double_digits_int:
  assumes "\<bar>n\<bar> < 2 ^ 53" shows "double_digits (of_int n) = of_int n"
proof -
  have pos: "round_pos 2 53 (- 1074) (of_int n) = of_int n" if n: "0 < n" "n < 2 ^ 53" for n :: int
  proof (rule round_pos_exact)
    have "(2::rat) powi elog 2 (of_int n) \<le> of_int n" using n elog_bounds(1)[of 2 "of_int n"] by simp
    also have "\<dots> < 2 powi 53" using n(2) by (metis of_int_less_iff of_int_numeral of_int_power power_int_numeral)
    finally have "elog 2 (of_int n :: rat) < 53" by (metis one_le_numeral not_le power_int_increasing)
    then have g: "grid 2 53 (- 1074) (of_int n) \<le> 0" by (simp add: grid_def)
    have "(of_int n :: rat) = of_int n * 2 powi (- grid 2 53 (- 1074) (of_int n)) * 2 powi grid 2 53 (- 1074) (of_int n)"
      by (simp add: power_int_minus)
    also have "\<dots> = of_int (n * 2 ^ nat (- grid 2 53 (- 1074) (of_int n))) * of_nat 2 powi grid 2 53 (- 1074) (of_int n)"
      using g by (simp add: power_int_def)
    finally show "(of_int n :: rat) = of_int (n * 2 ^ nat (- grid 2 53 (- 1074) (of_int n))) * of_nat 2 powi grid 2 53 (- 1074) (of_int n)" .
  qed simp
  show ?thesis using assms pos[of n] pos[of "- n"] by (auto simp: double_digits_def round_digits_def)
qed

lemma fval_int:
  assumes "\<bar>n\<bar> < 2 ^ 53"
  shows "fval (to_double (of_int n)) = of_int n" "finite_float (to_double (of_int n))" "float_of_int n = Inr (to_double (of_int n))"
proof -
  have "\<bar>of_int n :: rat\<bar> < 2 ^ 53" using assms by (metis of_int_abs of_int_less_iff of_int_numeral of_int_power)
  also have "\<dots> < 2 ^ 1024" by simp
  finally have "\<bar>double_digits (of_int n)\<bar> < 2 ^ 1024" using double_digits_int[OF assms] by simp
  from fval_to_double[OF this] double_digits_int[OF assms]
  show "fval (to_double (of_int n)) = of_int n" "finite_float (to_double (of_int n))" "float_of_int n = Inr (to_double (of_int n))"
    by (simp_all add: float_of_int_def Let_def)
qed

section \<open>Order\<close>

lemma fle_finite [simp]: "finite_float a \<Longrightarrow> finite_float b \<Longrightarrow> fle a b \<longleftrightarrow> fval a \<le> fval b"
  by (cases a; cases b) (auto simp: fle_def flt_def)

lemma flt_finite [simp]: "finite_float a \<Longrightarrow> finite_float b \<Longrightarrow> flt a b \<longleftrightarrow> fval a < fval b"
  by (cases a; cases b) (auto simp: flt_def)

lemma fmin_from_in: "fmin_from a bs \<in> insert a (set bs)"
  by (induction bs arbitrary: a) (auto split: if_splits)

lemma fmin_from_finite: "finite_float a \<Longrightarrow> \<forall>b \<in> set bs. finite_float b \<Longrightarrow> finite_float (fmin_from a bs)"
  by (induction bs arbitrary: a) auto

lemma fmin_from_least:
  "finite_float a \<Longrightarrow> \<forall>b \<in> set bs. finite_float b \<Longrightarrow> \<forall>b \<in> insert a (set bs). fval (fmin_from a bs) \<le> fval b"
proof (induction bs arbitrary: a)
  case (Cons b bs)
  define c where "c = (if flt b a then b else a)"
  have "finite_float c" "fval c \<le> fval a" "fval c \<le> fval b" using Cons.prems by (auto simp: c_def)
  then show ?case using Cons.IH[of c] Cons.prems(2) by (force simp flip: c_def)
qed simp

lemma finite_fmax: "finite_float a \<Longrightarrow> finite_float b \<Longrightarrow> finite_float (fmax a b) \<and> fval (fmax a b) = max (fval a) (fval b)"
  by (simp add: fmax_def max_def)

lemma signed_zero [simp]: "fval (signed_zero n) = 0" "finite_float (signed_zero n)"
  by (simp_all add: signed_zero_def)

lemma fneg_value [simp]: "fval (fneg a) = - fval a" "finite_float (fneg a) = finite_float a"
  by (cases a; simp)+

lemma finite_not_nan: "finite_float a \<Longrightarrow> a \<noteq> FNan"
  by auto

text \<open>Operations on small integers are exact.\<close>

lemma fadd_finite:
  assumes "finite_float a" "finite_float b" "fval a + fval b \<noteq> 0"
  shows "fadd a b = to_double (fval a + fval b)"
  using assms finite_not_nan[OF assms(1)] finite_not_nan[OF assms(2)] by (simp add: fadd_def)

lemma fsub_finite:
  assumes "finite_float a" "finite_float b" "fval a \<noteq> fval b"
  shows "fsub a b = to_double (fval a - fval b)"
  using assms by (simp add: fsub_def fadd_finite)

lemma fmul_finite:
  assumes "finite_float a" "finite_float b" "fval a * fval b \<noteq> 0"
  shows "fmul a b = to_double (fval a * fval b)"
  using assms finite_not_nan[OF assms(1)] finite_not_nan[OF assms(2)] by (simp add: fmul_def Let_def)

lemma fdiv_finite: "finite_float b \<Longrightarrow> fval b \<noteq> 0 \<Longrightarrow> \<exists>q. fdiv a b = Inr q"
  by (simp add: fdiv_def is_zero_def Let_def)

end
