(* ===== verification/Quote_Units.thy ===== *)
theory Quote_Units
  imports Py_Float
begin

text \<open>
  \<open>execution_capture/b4_quote_units.py\<close>: from a notional in USD to raw units of an asset and back, in decimal arithmetic,
  and the checks of a quote before it is used.
\<close>

datatype unit_error = QuoteUnitSizingError string | DecimalOverflow | OtherError pyerr

type_synonym 'a units = "unit_error + 'a"

definition ubind :: "'a units \<Rightarrow> ('a \<Rightarrow> 'b units) \<Rightarrow> 'b units" where
  "ubind m f = (case m of Inl e \<Rightarrow> Inl e | Inr x \<Rightarrow> f x)"

lemma ubind_simps [simp]: "ubind (Inl e) f = Inl e" "ubind (Inr x) f = f x"
  by (simp_all add: ubind_def)

lemma ubind_eq_Inr: "ubind m f = Inr y \<longleftrightarrow> (\<exists>x. m = Inr x \<and> f x = Inr y)"
  by (cases m) simp_all

section \<open>Values as decimals\<close>

definition decimal_arg :: "string \<Rightarrow> pyval \<Rightarrow> rat units" where
  "decimal_arg err v =
     (case decimal_of_text (py_str v) of
        None \<Rightarrow> Inl (QuoteUnitSizingError err)
      | Some DSpecial \<Rightarrow> Inl (QuoteUnitSizingError ''quote_value_non_finite'')
      | Some (DFin x) \<Rightarrow> Inr x)"

definition decimals_arg :: "pyval \<Rightarrow> nat units" where
  "decimals_arg v =
     ubind (decimal_arg ''asset_decimals_invalid'' v) (\<lambda>d.
       if d \<noteq> of_int \<lfloor>d\<rfloor> \<or> \<not> (0 \<le> d \<and> d \<le> 255) then Inl (QuoteUnitSizingError ''asset_decimals_invalid'')
       else Inr (nat \<lfloor>d\<rfloor>))"

definition positive_decimal :: "string \<Rightarrow> pyval \<Rightarrow> rat units" where
  "positive_decimal err v =
     ubind (decimal_arg ''quote_value_invalid'' v) (\<lambda>x. if x \<le> 0 then Inl (QuoteUnitSizingError err) else Inr x)"

definition nonnegative_decimal :: "string \<Rightarrow> pyval \<Rightarrow> rat units" where
  "nonnegative_decimal err v =
     ubind (decimal_arg ''quote_value_invalid'' v) (\<lambda>x. if x < 0 then Inl (QuoteUnitSizingError err) else Inr x)"

definition in_context :: "rat \<Rightarrow> rat units" where
  "in_context x = (case decimal_round x of None \<Rightarrow> Inl DecimalOverflow | Some v \<Rightarrow> Inr v)"

section \<open>Raw units\<close>

definition raw_units_of :: "rat \<Rightarrow> rat \<Rightarrow> nat \<Rightarrow> int units" where
  "raw_units_of notional price decimals =
     ubind (in_context (notional / price)) (\<lambda>q. ubind (in_context (q * 10 ^ decimals)) (\<lambda>u.
       if \<lfloor>u\<rfloor> < 0 then Inl (QuoteUnitSizingError ''raw_units_negative'') else Inr \<lfloor>u\<rfloor>))"

definition usd_notional_to_raw_units :: "pyval \<Rightarrow> pyval \<Rightarrow> pyval \<Rightarrow> int units" where
  "usd_notional_to_raw_units usd_notional asset_price_usd asset_decimals =
     ubind (decimals_arg asset_decimals) (\<lambda>decimals.
     ubind (nonnegative_decimal ''usd_notional_negative'' usd_notional) (\<lambda>notional.
     ubind (positive_decimal ''asset_price_usd_invalid'' asset_price_usd) (\<lambda>price.
       raw_units_of notional price decimals)))"

definition raw_units_to_usd_notional :: "pyval \<Rightarrow> pyval \<Rightarrow> pyval \<Rightarrow> pyfloat units" where
  "raw_units_to_usd_notional raw_units asset_price_usd asset_decimals =
     ubind (decimals_arg asset_decimals) (\<lambda>decimals.
       case py_int raw_units of
         Inl e \<Rightarrow> if e \<in> {TypeError, ValueError} then Inl (QuoteUnitSizingError ''raw_units_invalid'') else Inl (OtherError e)
       | Inr units \<Rightarrow>
           if units < 0 then Inl (QuoteUnitSizingError ''raw_units_negative'')
           else ubind (positive_decimal ''asset_price_usd_invalid'' asset_price_usd) (\<lambda>price.
             ubind (in_context (of_int units * price)) (\<lambda>p. ubind (in_context (p / 10 ^ decimals)) (\<lambda>value.
               if value < 0 then Inl (QuoteUnitSizingError ''quoted_usd_value_invalid'') else Inr (to_double value)))))"

section \<open>The quote as it is given\<close>

definition quote_context_from_mapping :: "pyval \<Rightarrow> pydict" where
  "quote_context_from_mapping quote =
     (case quote of
        PDict q \<Rightarrow>
          [(''quote_id'', PStr (py_str (por (dget q ''quote_id'') (por (dget q ''quoteId'') (PStr []))))),
           (''asset_price_usd'', dget_or q ''asset_price_usd'' (dget q ''assetPriceUsd'')),
           (''asset_decimals'', dget_or q ''asset_decimals'' (dget q ''assetDecimals'')),
           (''quoted_at_ms'', dget_or q ''quoted_at_ms'' (dget q ''quotedAtMs'')),
           (''block_number'', dget_or q ''block_number'' (dget q ''blockNumber''))]
      | _ \<Rightarrow> [])"

definition quote_price_error :: "pyval \<Rightarrow> string option res" where
  "quote_price_error price =
     (if price = PNone then Inr (Some ''asset_price_usd_missing'')
      else case py_float price of
        Inl e \<Rightarrow> if e \<in> {TypeError, ValueError} then Inr (Some ''asset_price_usd_invalid'') else Inl e
      | Inr number \<Rightarrow>
          Inr (if fle number (signed_zero False) \<or> \<not> finite_float number then Some ''asset_price_usd_invalid'' else None))"

definition quote_decimals_error :: "pyval \<Rightarrow> string option res" where
  "quote_decimals_error decimals =
     (if decimals = PNone then Inr (Some ''asset_decimals_missing'')
      else case py_int decimals of
        Inl e \<Rightarrow> if e \<in> {TypeError, ValueError} then Inr (Some ''asset_decimals_invalid'') else Inl e
      | Inr value \<Rightarrow> Inr (if 0 \<le> value \<and> value \<le> 255 then None else Some ''asset_decimals_invalid''))"

definition some_list :: "'a option \<Rightarrow> 'a list" where
  "some_list o1 = (case o1 of None \<Rightarrow> [] | Some x \<Rightarrow> [x])"

definition quote_validation_errors :: "pyval \<Rightarrow> string list res" where
  "quote_validation_errors quote =
     (let q = quote_context_from_mapping quote in
      rbind (quote_price_error (dget q ''asset_price_usd'')) (\<lambda>p.
      rbind (quote_decimals_error (dget q ''asset_decimals'')) (\<lambda>d. Inr (some_list p @ some_list d))))"

definition validate_quote_context :: "pyval \<Rightarrow> (bool \<times> string list) res" where
  "validate_quote_context quote = rbind (quote_validation_errors quote) (\<lambda>errors. Inr (errors = [], errors))"

section \<open>How many units a notional buys\<close>

text \<open>The decimals the arguments are read as.\<close>

definition reads_as :: "pyval \<Rightarrow> rat \<Rightarrow> bool" where
  "reads_as v x \<longleftrightarrow> decimal_of_text (py_str v) = Some (DFin x)"

lemma decimal_arg_reads: "decimal_arg err v = Inr x \<longleftrightarrow> reads_as v x"
  by (auto simp: decimal_arg_def reads_as_def split: option.splits decimal.splits)

lemma decimals_arg_reads: "decimals_arg v = Inr D \<longleftrightarrow> reads_as v (of_nat D) \<and> D \<le> 255"
proof
  assume "decimals_arg v = Inr D"
  then obtain x where x: "reads_as v x" "x = of_int \<lfloor>x\<rfloor>" "0 \<le> x" "x \<le> 255" "D = nat \<lfloor>x\<rfloor>"
    by (auto simp: decimals_arg_def ubind_eq_Inr decimal_arg_reads split: if_splits)
  then have "x = of_nat D" "\<lfloor>x\<rfloor> \<le> 255" by (simp_all add: floor_le_iff) 
  then show "reads_as v (of_nat D) \<and> D \<le> 255" using x by simp
next
  assume a: "reads_as v (of_nat D) \<and> D \<le> 255"
  then have "of_nat D \<le> (255::rat)" by (metis of_nat_le_iff of_nat_numeral)
  with a show "decimals_arg v = Inr D"
    using decimal_arg_reads[of _ v "of_nat D"] by (simp add: decimals_arg_def)
qed

lemma usd_notional_to_raw_units_parts:
  "usd_notional_to_raw_units n p d = Inr u \<longleftrightarrow>
     (\<exists>N P D. reads_as n N \<and> reads_as p P \<and> reads_as d (of_nat D) \<and> D \<le> 255 \<and> 0 \<le> N \<and> 0 < P \<and> raw_units_of N P D = Inr u)"
  by (auto simp: usd_notional_to_raw_units_def ubind_eq_Inr decimals_arg_reads nonnegative_decimal_def positive_decimal_def
      decimal_arg_reads not_le not_less split: if_splits)

lemma in_context_eq: "in_context x = Inr v \<longleftrightarrow> decimal_round x = Some v"
  by (simp add: in_context_def split: option.split)

text \<open>The units are the quotient's, up to the two roundings of the decimal context and the floor.\<close>

lemma raw_units_near:
  assumes "raw_units_of N P D = Inr u" "0 \<le> N" "0 < P" "D \<le> 255"
  shows "0 \<le> u" "of_int u \<le> N / P * 10 ^ D * (1 + 2 / 10 ^ 27)" "N / P * 10 ^ D * (1 - 2 / 10 ^ 27) < of_int u + 1"
proof -
  define k :: int where "k = - 500"
  then have k: "- 1000 \<le> k" "k + 255 \<le> - 1" by simp_all
  define x where "x = N / P"
  define t where "t = (10::rat) ^ D"
  have x: "0 \<le> x" using assms(2,3) by (simp add: x_def)
  have t: "1 \<le> t" "t \<le> 10 powi 255"
    using assms(4) power_increasing[of D 255 "10::rat"] by (simp_all add: t_def del: power_increasing_iff)
  from assms(1) obtain q v where r: "decimal_round x = Some q" "decimal_round (q * t) = Some v" "u = \<lfloor>v\<rfloor>" "0 \<le> \<lfloor>v\<rfloor>"
    by (auto simp: raw_units_of_def ubind_eq_Inr in_context_eq x_def t_def split: if_splits)
  show "0 \<le> u" using r by simp
  have "of_int u \<le> x * t * (1 + 2 / 10 ^ 27) \<and> x * t * (1 - 2 / 10 ^ 27) < of_int u + 1"
  proof (cases "10 powi k \<le> x")
    case True
    define e where "e = (1::rat) / (2 * 10 ^ 27)"
    have q: "\<bar>q - x\<bar> \<le> x * e" using decimal_round_near[OF r(1) True] k by (simp add: e_def)
    have e: "0 \<le> e" "e \<le> 1" "2 * e + e * e \<le> 2 / 10 ^ 27" "1 - 2 / 10 ^ 27 \<le> (1 - e) * (1 - e)" by (simp_all add: e_def)
    have "(10::rat) powi (k - 1) \<le> q"
    proof -
      have "(10::rat) powi (k - 1) = 10 powi k / 10" by (simp add: power_int_diff)
      also have "\<dots> \<le> x * (1 / 10)" using True by simp
      also have "\<dots> \<le> x * (1 - e)" using x by (intro mult_left_mono) (simp_all add: e_def)
      also have "\<dots> \<le> q" using q by (simp add: algebra_simps)
      finally show ?thesis .
    qed
    moreover have q0: "0 \<le> q" using calculation zero_le_power_int[of "10::rat" "k - 1"] by linarith
    ultimately have "(10::rat) powi (k - 1) \<le> q * t" using t(1) mult_left_mono[of 1 t q] by linarith
    from decimal_round_near[OF r(2) this] k have v: "\<bar>v - q * t\<bar> \<le> q * t * e" by (simp add: e_def)
    have xt: "0 \<le> x * t" using x t by simp
    have lo: "x * t * (1 - e) \<le> q * t" and hi: "q * t \<le> x * t * (1 + e)"
      using mult_right_mono[of "x * (1 - e)" q t] mult_right_mono[of q "x * (1 + e)" t] q t(1) by (auto simp: algebra_simps)
    have "v \<le> q * t * (1 + e)" using v by (simp add: algebra_simps)
    also have "\<dots> \<le> x * t * (1 + e) * (1 + e)" using hi e by (intro mult_right_mono) auto
    also have "\<dots> = x * t * (1 + (2 * e + e * e))" by (simp add: algebra_simps)
    also have "\<dots> \<le> x * t * (1 + 2 / 10 ^ 27)" using xt e(3) by (intro mult_left_mono) auto
    finally have A: "v \<le> x * t * (1 + 2 / 10 ^ 27)" .
    have "x * t * (1 - 2 / 10 ^ 27) \<le> x * t * ((1 - e) * (1 - e))"
      using xt e(4) by (rule mult_left_mono[rotated])
    also have "\<dots> = x * t * (1 - e) * (1 - e)" by (simp only: mult.assoc)
    also have "\<dots> \<le> q * t * (1 - e)" using lo e by (intro mult_right_mono) auto
    also have "\<dots> \<le> v" using v by (simp add: algebra_simps)
    finally have B: "x * t * (1 - 2 / 10 ^ 27) \<le> v" .
    show ?thesis using A B r(3) by linarith
  next
    case False
    then have "x \<le> 10 powi k" by simp
    from decimal_round_tiny[OF r(1) x this] k have q: "0 \<le> q" "q \<le> 10 powi k" by simp_all
    have "q * t \<le> 10 powi k * 10 powi 255" using q t by (intro mult_mono) auto
    also have "\<dots> = 10 powi (k + 255)" by (simp add: power_int_add)
    finally have "v \<le> 10 powi (k + 255)" using decimal_round_tiny[OF r(2), of "k + 255"] q t k by simp
    also have "(10::rat) powi (k + 255) < 1" using powi_less_iff[of "k + 255" 0] k by simp
    finally have "u = 0" using r(3,4) by linarith
    moreover have "x * t < 1"
    proof -
      have "x * t \<le> 10 powi k * 10 powi 255" using False x t by (intro mult_mono) auto
      also have "\<dots> = 10 powi (k + 255)" by (simp add: power_int_add)
      finally show ?thesis using powi_less_iff[of "k + 255" 0] k by simp
    qed
    moreover have "0 \<le> x * t" using x t by simp
    moreover have "x * t * (1 - 2 / 10 ^ 27) \<le> x * t * 1" using calculation(3) by (intro mult_left_mono) auto
    ultimately show ?thesis by simp
  qed
  then show "of_int u \<le> N / P * 10 ^ D * (1 + 2 / 10 ^ 27)" "N / P * 10 ^ D * (1 - 2 / 10 ^ 27) < of_int u + 1"
    by (simp_all add: x_def t_def)
qed

lemmas text_eval = decimal_of_text_def decimal_text_def decimal_value_def exponent_of_def special_decimal_def no_underscores_def
  is_digit_def digits_value_def strip_def is_space_def lower_def lower_char_def starts_with_def
  Let_def show_int_def

lemma shown: "show_nat 2000 = ''2000''" "show_nat 18 = ''18''"
  by code_simp+

lemma reads_example:
  "reads_as (PStr ''3e-08'') (3 / 10 ^ 8)" "reads_as (PInt 2000) 2000" "reads_as (PInt 18) (of_nat 18)"
  by (simp_all add: reads_as_def text_eval shown)

lemma decimal_roundI:
  assumes "10 powi k \<le> x" "x < 10 powi (k + 1)" "0 < x" "- 1000 \<le> k" "k \<le> 1000"
    and "v = of_int n * 10 powi (k - 27)" "of_int n - 1 / 2 < x / 10 powi (k - 27)" "x / 10 powi (k - 27) < of_int n + 1 / 2" "x / 2 \<le> v" "v \<le> 2 * x" "2 * x < 10 powi (k + 2)"
  shows "decimal_round x = Some v"
proof -
  have e: "elog 10 x = k" using assms(1,2) by (intro elog_unique) simp_all
  note h = half_evenI[OF assms(7,8)]
  have v: "round_digits 10 28 least_exponent x = v" "0 < v"
    using assms(3,4,6,9) e h by (simp_all add: round_digits_def round_pos_def grid_def least_exponent_def Let_def)
  have "(10::rat) powi elog 10 v < 10 powi (k + 2)" using elog_bounds(1)[of 10 v] v(2) assms(10,11) by simp
  then have "elog 10 v < k + 2" by (simp add: powi_less_iff)
  then show ?thesis using v assms(5) by (simp add: decimal_round_def Let_def)
qed

lemma units_example:
  "usd_notional_to_raw_units (PInt 2000) (PStr ''3e-08'') (PInt 18) = Inr 66666666666666666666666666670"
proof -
  have q: "decimal_round (2000 / (3 / 10 ^ 8)) = Some 66666666666.66666666666666667"
    by (rule decimal_roundI[of 10 _ _ 6666666666666666666666666667]) (simp_all add: power_int_def power_one_over)
  have u: "decimal_round (66666666666.66666666666666667 * 10 ^ 18) = Some 66666666666666666666666666670"
    by (rule decimal_roundI[of 28 _ _ 6666666666666666666666666667]) (simp_all add: power_int_def power_one_over)
  have "raw_units_of 2000 (3 / 10 ^ 8) 18 = Inr 66666666666666666666666666670"
    using q u by (simp add: raw_units_of_def in_context_def)
  then show ?thesis
    unfolding usd_notional_to_raw_units_parts using reads_example
    by (intro exI[of _ 2000] exI[of _ "3 / 10 ^ 8"] exI[of _ 18]) simp
qed

text \<open>The units are not conservative in the last places: for 2000 USD of an asset at 3e-08 USD with 18 decimals the
  decimal context rounds the quotient up at its 28th digit, and the floor taken afterwards is more units than the notional
  buys.\<close>

theorem units_exceed_notional:
  "usd_notional_to_raw_units (PInt 2000) (PStr ''3e-08'') (PInt 18) = Inr 66666666666666666666666666670 \<and>
   2000 < (66666666666666666666666666670 :: rat) * (3 / 10 ^ 8) / 10 ^ 18"
  using units_example by simp

text \<open>C28: the units a notional is turned into are the quotient by the price, scaled by the decimals, within two parts in
  10 to the 27 and the floor: never negative, never more than the notional buys by a larger factor, and at most one unit
  less.\<close>

theorem raw_units_bounds:
  assumes "usd_notional_to_raw_units n p d = Inr u"
  shows "\<exists>N P D. reads_as n N \<and> reads_as p P \<and> reads_as d (of_nat D) \<and> D \<le> 255 \<and> 0 \<le> u \<and>
    of_int u \<le> N / P * 10 ^ D * (1 + 2 / 10 ^ 27) \<and> N / P * 10 ^ D * (1 - 2 / 10 ^ 27) < of_int u + 1"
  using assms raw_units_near unfolding usd_notional_to_raw_units_parts by blast

theorem raw_units_bounds_witness:
  "\<exists>u N P D. usd_notional_to_raw_units (PInt 2000) (PStr ''3e-08'') (PInt 18) = Inr u \<and>
     reads_as (PInt 2000) N \<and> reads_as (PStr ''3e-08'') P \<and> reads_as (PInt 18) (of_nat D) \<and>
     of_int u \<le> N / P * 10 ^ D * (1 + 2 / 10 ^ 27)"
  using units_example raw_units_bounds[OF units_example] by blast

end
