(* ===== verification/Sizing_Contract.thy ===== *)
theory Sizing_Contract
  imports Quote_Units
begin

text \<open>
  \<open>execution_capture/institutional_sizing.py\<close>: the input boundary of institutional sizing. Each context is a record of the
  dataclass's fields, read from a dictionary with the fallbacks of the code; \<open>contract_errors\<close> are the messages of
  \<open>validate\<close>.
\<close>

section \<open>Contexts\<close>

record liquidity_context =
  lq_available :: "pyfloat option"
  lq_depth :: "pyfloat option"
  lq_pool_depth_cap :: "pyfloat option"
  lq_reserve_distortion :: pyfloat
  lq_fragility :: pyfloat
  lq_slippage_sensitivity :: pyfloat
  lq_provider_capacity :: "pyfloat option"
  lq_route_capacity :: "pyfloat option"

record execution_context =
  ex_pipeline_latency :: "pyfloat option"
  ex_half_life :: "pyfloat option"
  ex_latency_pressure :: pyfloat
  ex_endpoint_quality :: pyfloat
  ex_venue_reliability :: pyfloat
  ex_simulation_confidence :: pyfloat
  ex_freshness :: pyfloat
  ex_private_send :: bool

record economics_context =
  ec_gross_profit :: pyfloat
  ec_net_profit :: "pyfloat option"
  ec_gas_cost :: pyfloat
  ec_borrow_cost :: pyfloat
  ec_slippage_cost :: pyfloat
  ec_latency_cost :: pyfloat
  ec_failure_cost :: pyfloat
  ec_min_profit_usd :: pyfloat
  ec_min_profit_bps :: pyfloat
  ec_success_probability :: "pyfloat option"
  ec_margin_ratio :: "pyfloat option"

record capital_context =
  ca_source :: string
  ca_status :: string
  ca_freshness :: string
  ca_authority_id :: string
  ca_available :: "pyfloat option"
  ca_deployable :: "pyfloat option"
  ca_reserve :: "pyfloat option"
  ca_drawdown_buffer :: "pyfloat option"
  ca_borrowed :: pyfloat
  ca_prime_available :: bool
  ca_prime_capacity :: "pyfloat option"
  ca_prime_utilization :: pyfloat
  ca_prime_reserved :: pyfloat
  ca_prime_family_exposure :: pyfloat
  ca_family_cap :: "pyfloat option"

record wealth_goal_context =
  wg_target_return :: pyfloat
  wg_current_return :: pyfloat
  wg_commitment :: pyfloat
  wg_aggressiveness :: pyfloat
  wg_max_drawdown :: pyfloat
  wg_drawdown :: pyfloat
  wg_timeframe_days :: int
  wg_status :: string
  wg_pacing :: string
  wg_horizon :: pyfloat

record governance_context =
  gv_admitted :: bool
  gv_reason_code :: string
  gv_strategy_family :: string
  gv_capital_source :: string
  gv_live_authority :: bool
  gv_execution_allowed :: bool
  gv_hard_stop :: bool
  gv_kill_switch :: bool
  gv_sandbox_only :: bool
  gv_defensive_mode :: bool
  gv_max_deployable :: pyfloat
  gv_max_concentration :: pyfloat

record settlement_context =
  st_verified :: bool
  st_outcome_id :: string
  st_decision_id :: string
  st_execution_id :: string
  st_receipt_id :: string
  st_realized :: "pyfloat option"
  st_expectation_error :: "pyfloat option"

record sizing_contract =
  sc_version :: string
  sc_family :: string
  sc_source :: string
  sc_requested :: pyfloat
  sc_target :: "pyfloat option"
  sc_base_borrow :: int
  sc_max_borrow :: int
  sc_liquidity :: liquidity_context
  sc_execution :: execution_context
  sc_economics :: economics_context
  sc_capital :: capital_context
  sc_goal :: wealth_goal_context
  sc_governance :: governance_context
  sc_settlement :: settlement_context
  sc_metadata :: pydict

section \<open>Reading values\<close>

definition finite_or :: "pyfloat option \<Rightarrow> pyval \<Rightarrow> pyfloat option res" where
  "finite_or dflt v =
     (if v = PNone then Inr dflt
      else case py_float v of
        Inl e \<Rightarrow> if e \<in> {TypeError, ValueError} then Inr dflt else Inl e
      | Inr f \<Rightarrow> Inr (if finite_float f then Some f else dflt))"

text \<open>\<open>float(_finite_float(v, d) or d)\<close>: a zero gives way to the default as well.\<close>

definition number_or :: "pyfloat \<Rightarrow> pyval \<Rightarrow> pyfloat res" where
  "number_or d v = rbind (finite_or (Some d) v) (\<lambda>o1. Inr (case o1 of None \<Rightarrow> d | Some f \<Rightarrow> if truthy (PFloat f) then f else d))"

definition mapping_of :: "pyval \<Rightarrow> pydict" where
  "mapping_of v = as_dict v"

definition present :: "pydict \<Rightarrow> string \<Rightarrow> string \<Rightarrow> pyval" where
  "present m primary fallback = dget_or m primary (dget m fallback)"

abbreviation zero_float :: pyfloat where
  "zero_float \<equiv> signed_zero False"

definition text_first :: "pydict \<Rightarrow> string \<Rightarrow> string \<Rightarrow> string \<Rightarrow> string" where
  "text_first m a b dflt = py_str (por (dget m a) (por (dget m b) (PStr dflt)))"

definition flag :: "pydict \<Rightarrow> string \<Rightarrow> string \<Rightarrow> bool" where
  "flag m a b = truthy (dget_or m a (dget_or m b (PBool False)))"

definition get2 :: "pydict \<Rightarrow> string \<Rightarrow> string \<Rightarrow> pyval" where
  "get2 m a b = por (dget m a) (dget m b)"

section \<open>Building the contract\<close>

definition build_liquidity_context :: "pydict \<Rightarrow> liquidity_context res" where
  "build_liquidity_context capture =
     rbind (finite_or None (get2 capture ''available_usd'' ''liquidity_available_usd'')) (\<lambda>available.
     rbind (finite_or None (get2 capture ''depth_usd'' ''pool_depth_usd'')) (\<lambda>depth.
     rbind (finite_or None (dget capture ''pool_depth_cap_usd'')) (\<lambda>cap.
     rbind (number_or zero_float (dget capture ''reserve_distortion'')) (\<lambda>distortion.
     rbind (number_or zero_float (dget capture ''liquidity_fragility'')) (\<lambda>fragility.
     rbind (number_or zero_float (dget capture ''slippage_sensitivity'')) (\<lambda>sensitivity.
     rbind (finite_or None (dget capture ''provider_capacity_usd'')) (\<lambda>provider.
     rbind (finite_or None (dget capture ''route_capacity_usd'')) (\<lambda>route.
     Inr \<lparr>lq_available = available, lq_depth = depth, lq_pool_depth_cap = cap, lq_reserve_distortion = distortion,
       lq_fragility = fragility, lq_slippage_sensitivity = sensitivity, lq_provider_capacity = provider,
       lq_route_capacity = route\<rparr>))))))))"

definition build_execution_context :: "pydict \<Rightarrow> pydict \<Rightarrow> execution_context res" where
  "build_execution_context latency capture =
     rbind (finite_or None (por (dget latency ''pipeline_latency_ms'') (dget capture ''pipeline_latency_ms''))) (\<lambda>pipeline.
     rbind (finite_or None (dget capture ''latency_half_life_ms'')) (\<lambda>half_life.
     rbind (number_or zero_float (por (dget latency ''pressure'') (dget capture ''latency_pressure''))) (\<lambda>pressure.
     rbind (number_or zero_float (por (dget latency ''endpoint_quality'') (dget capture ''endpoint_quality''))) (\<lambda>quality.
     rbind (number_or zero_float (dget capture ''venue_reliability_score'')) (\<lambda>venue.
     rbind (number_or zero_float (dget capture ''simulation_confidence'')) (\<lambda>simulation.
     rbind (number_or zero_float (dget capture ''freshness_score'')) (\<lambda>freshness.
     Inr \<lparr>ex_pipeline_latency = pipeline, ex_half_life = half_life, ex_latency_pressure = pressure,
       ex_endpoint_quality = quality, ex_venue_reliability = venue, ex_simulation_confidence = simulation,
       ex_freshness = freshness,
       ex_private_send = truthy (dget_or capture ''private_send_preference'' (PBool False))\<rparr>)))))))"

definition build_economics_context :: "pydict \<Rightarrow> economics_context res" where
  "build_economics_context econ =
     rbind (number_or zero_float (dget econ ''expected_gross_profit_usd'')) (\<lambda>gross.
     rbind (finite_or None (present econ ''expected_net_profit_usd'' ''expected_realized_pnl'')) (\<lambda>net.
     rbind (number_or zero_float (dget econ ''gas_cost_usd'')) (\<lambda>gas.
     rbind (number_or zero_float (dget econ ''borrow_cost_usd'')) (\<lambda>borrow.
     rbind (number_or zero_float (dget econ ''slippage_cost_usd'')) (\<lambda>slippage.
     rbind (number_or zero_float (get2 econ ''latency_cost_usd'' ''latency_decay_cost_usd'')) (\<lambda>latency.
     rbind (number_or zero_float (dget econ ''failure_cost_usd'')) (\<lambda>failure.
     rbind (number_or zero_float (dget econ ''min_profit_usd'')) (\<lambda>min_usd.
     rbind (number_or zero_float (dget econ ''min_profit_bps'')) (\<lambda>min_bps.
     rbind (finite_or None (present econ ''success_probability'' ''p_success'')) (\<lambda>success.
     rbind (finite_or None (dget econ ''margin_ratio'')) (\<lambda>margin.
     Inr \<lparr>ec_gross_profit = gross, ec_net_profit = net, ec_gas_cost = gas, ec_borrow_cost = borrow,
       ec_slippage_cost = slippage, ec_latency_cost = latency, ec_failure_cost = failure, ec_min_profit_usd = min_usd,
       ec_min_profit_bps = min_bps, ec_success_probability = success, ec_margin_ratio = margin\<rparr>)))))))))))"

definition build_capital_context :: "pydict \<Rightarrow> pydict \<Rightarrow> string \<Rightarrow> capital_context res" where
  "build_capital_context cap prime strategy_family =
     (let family_exposure = mapping_of (dget prime ''familyExposure''); family_caps = mapping_of (dget cap ''family_caps_usd'') in
     rbind (finite_or None (get2 cap ''available_usd'' ''availableUsd'')) (\<lambda>available.
     rbind (finite_or None (get2 cap ''deployable_usd'' ''deployableUsd'')) (\<lambda>deployable.
     rbind (finite_or None (get2 cap ''reserve_usd'' ''reserveUsd'')) (\<lambda>reserve.
     rbind (finite_or None (get2 cap ''drawdown_buffer_usd'' ''drawdownBufferUsd'')) (\<lambda>buffer.
     rbind (number_or zero_float (dget prime ''borrowedUsd'')) (\<lambda>borrowed.
     rbind (finite_or None (por (dget prime ''capacityUsd'') (dget cap ''prime_capacity_usd''))) (\<lambda>capacity.
     rbind (number_or zero_float (dget prime ''utilization'')) (\<lambda>utilization.
     rbind (number_or zero_float (dget prime ''reservedCollateralUsd'')) (\<lambda>reserved.
     rbind (number_or zero_float (dget family_exposure strategy_family)) (\<lambda>exposure.
     rbind (finite_or None (dget family_caps strategy_family)) (\<lambda>family_cap.
     Inr \<lparr>ca_source = ''capital_engine_state'', ca_status = text_first cap ''status'' ''capital_status'' ''unavailable'',
       ca_freshness = text_first cap ''freshness_class'' ''freshness'' ''unavailable'',
       ca_authority_id = str_or_empty (dget cap ''authority_id''),
       ca_available = available, ca_deployable = deployable, ca_reserve = reserve, ca_drawdown_buffer = buffer,
       ca_borrowed = borrowed,
       ca_prime_available = flag cap ''internal_prime_available'' ''prime_available'' \<or>
         truthy (dget_or prime ''stateReady'' (PBool False)),
       ca_prime_capacity = capacity, ca_prime_utilization = utilization, ca_prime_reserved = reserved,
       ca_prime_family_exposure = exposure, ca_family_cap = family_cap\<rparr>)))))))))))"

definition build_wealth_goal_context :: "pydict \<Rightarrow> wealth_goal_context res" where
  "build_wealth_goal_context goal =
     rbind (number_or zero_float (get2 goal ''targetReturnPct'' ''target_return_percentage'')) (\<lambda>target.
     rbind (number_or zero_float (get2 goal ''currentReturnPct'' ''current_return_pct'')) (\<lambda>current.
     rbind (number_or (to_double 25) (get2 goal ''capitalCommitmentPct'' ''capital_commitment_pct'')) (\<lambda>commitment.
     rbind (number_or (to_double 1) (get2 goal ''aggressivenessCap'' ''aggressiveness_cap'')) (\<lambda>aggressiveness.
     rbind (number_or (to_double 10) (get2 goal ''maxDrawdownPct'' ''max_drawdown_pct'')) (\<lambda>max_drawdown.
     rbind (number_or zero_float (get2 goal ''drawdownPct'' ''drawdown_pct'')) (\<lambda>drawdown.
     rbind (py_int (por (dget goal ''timeframeDays'') (por (dget goal ''timeframe_days'') (PInt 30)))) (\<lambda>days.
     rbind (number_or (to_double 1) (get2 goal ''goalHorizonCompatibility'' ''goal_horizon_compatibility'')) (\<lambda>horizon.
     Inr \<lparr>wg_target_return = target, wg_current_return = current, wg_commitment = commitment,
       wg_aggressiveness = aggressiveness, wg_max_drawdown = max_drawdown, wg_drawdown = drawdown,
       wg_timeframe_days = max 1 days, wg_status = text_first goal ''goalStatus'' ''goal_status'' ''active'',
       wg_pacing = py_str (por (dget goal ''pacing'') (PStr ''steady'')), wg_horizon = horizon\<rparr>))))))))"

definition build_governance_context :: "pydict \<Rightarrow> string \<Rightarrow> string \<Rightarrow> governance_context res" where
  "build_governance_context gov strategy_family capital_source =
     rbind (number_or (to_double (35 / 100)) (dget gov ''max_deployable_pct'')) (\<lambda>deployable.
     rbind (number_or (to_double (45 / 100)) (dget gov ''max_family_concentration'')) (\<lambda>concentration.
     Inr \<lparr>gv_admitted = flag gov ''admitted'' ''allowed'', gv_reason_code = text_first gov ''reason_code'' ''reason'' ''unavailable'',
       gv_strategy_family = strategy_family, gv_capital_source = capital_source,
       gv_live_authority = flag gov ''live_authority'' ''liveAuthority'',
       gv_execution_allowed = flag gov ''execution_allowed'' ''executionAllowed'',
       gv_hard_stop = flag gov ''hard_stop'' ''hardStop'', gv_kill_switch = flag gov ''kill_switch'' ''killSwitch'',
       gv_sandbox_only = flag gov ''sandbox_only'' ''sandboxOnly'', gv_defensive_mode = flag gov ''defensive_mode'' ''defensiveMode'',
       gv_max_deployable = deployable, gv_max_concentration = concentration\<rparr>))"

definition build_settlement_context :: "pydict \<Rightarrow> settlement_context res" where
  "build_settlement_context settled =
     rbind (finite_or None (get2 settled ''realized_net_profit_usd'' ''realizedNetProfitUsd'')) (\<lambda>realized.
     rbind (finite_or None (get2 settled ''expectation_error_usd'' ''expectationErrorUsd'')) (\<lambda>expectation.
     Inr \<lparr>st_verified = flag settled ''verified'' ''settlement_verified'', st_outcome_id = text_first settled ''outcome_id'' ''outcomeId'' [],
       st_decision_id = text_first settled ''decision_id'' ''decisionId'' [],
       st_execution_id = text_first settled ''execution_id'' ''executionId'' [],
       st_receipt_id = text_first settled ''receipt_id'' ''receiptId'' [],
       st_realized = realized, st_expectation_error = expectation\<rparr>))"

definition tier :: "string \<Rightarrow> int \<Rightarrow> pyval" where
  "tier name usd = PDict [(''id'', PStr name), (''target_notional_usd'', PFloat (to_double (of_int usd))), (''enabled'', PBool False)]"

definition INSTITUTIONAL_V1_TIERS :: "pyval list" where
  "INSTITUTIONAL_V1_TIERS =
     [tier ''controlled_250k'' 250000, tier ''controlled_500k'' 500000, tier ''institutional_1m'' 1000000,
      tier ''institutional_2_5m'' 2500000, tier ''institutional_5m'' 5000000]"

text \<open>The arguments of the builder; a mapping argument that is none counts as empty.\<close>

record sizing_inputs =
  si_requested :: pyfloat
  si_family :: string
  si_source :: string
  si_capital :: pyval
  si_prime :: pyval
  si_goal :: pyval
  si_capture :: pyval
  si_latency :: pyval
  si_economics :: pyval
  si_governance :: pyval
  si_settlement :: pyval
  si_base_borrow :: int
  si_max_borrow :: int
  si_target :: pyval

definition contract_metadata :: pydict where
  "contract_metadata =
     [(''tier_candidates'', PList INSTITUTIONAL_V1_TIERS), (''treasury_state_source'', PStr ''capital_engine_state''),
      (''prime_state_source'', PStr ''internal_prime_state''), (''settlement_source'', PStr ''canonical_settlement''),
      (''behavior_change'', PStr ''none'')]"

definition goal_state :: "pyval \<Rightarrow> pydict" where
  "goal_state wealth_goal = (let root = mapping_of wealth_goal in mapping_of (por (dget root ''state'') (PDict root)))"

definition build_institutional_sizing_contract :: "sizing_inputs \<Rightarrow> sizing_contract res" where
  "build_institutional_sizing_contract a =
     rbind (finite_or None (si_target a)) (\<lambda>target.
     rbind (build_liquidity_context (mapping_of (si_capture a))) (\<lambda>liquidity.
     rbind (build_execution_context (mapping_of (si_latency a)) (mapping_of (si_capture a))) (\<lambda>execution.
     rbind (build_economics_context (mapping_of (si_economics a))) (\<lambda>economics.
     rbind (build_capital_context (mapping_of (si_capital a)) (mapping_of (si_prime a)) (si_family a)) (\<lambda>capital.
     rbind (build_wealth_goal_context (goal_state (si_goal a))) (\<lambda>goal.
     rbind (build_governance_context (mapping_of (si_governance a)) (si_family a) (si_source a)) (\<lambda>governance.
     rbind (build_settlement_context (mapping_of (si_settlement a))) (\<lambda>settlement.
     Inr \<lparr>sc_version = ''institutional_sizing_v1'', sc_family = si_family a, sc_source = si_source a,
       sc_requested = (if truthy (PFloat (si_requested a)) then si_requested a else zero_float), sc_target = target,
       sc_base_borrow = max 0 (si_base_borrow a), sc_max_borrow = max 0 (si_max_borrow a),
       sc_liquidity = liquidity, sc_execution = execution, sc_economics = economics, sc_capital = capital,
       sc_goal = goal, sc_governance = governance, sc_settlement = settlement, sc_metadata = contract_metadata\<rparr>))))))))"

section \<open>Validation\<close>

definition message_if :: "bool \<Rightarrow> string \<Rightarrow> string list" where
  "message_if b m = (if b then [m] else [])"

definition finite_opt :: "pyfloat option \<Rightarrow> bool" where
  "finite_opt o1 = (case o1 of None \<Rightarrow> False | Some f \<Rightarrow> finite_float f)"

definition below_zero :: "pyfloat \<Rightarrow> bool" where
  "below_zero f = flt f zero_float"

definition validate_identity_and_notional :: "sizing_contract \<Rightarrow> string list" where
  "validate_identity_and_notional c =
     message_if (sc_family c = []) ''strategy_family_missing'' @ message_if (sc_source c = []) ''capital_source_missing'' @
     message_if (below_zero (sc_requested c) \<or> \<not> finite_float (sc_requested c)) ''requested_notional_invalid'' @
     message_if (case sc_target c of None \<Rightarrow> False | Some t \<Rightarrow> below_zero t \<or> \<not> finite_float t) ''target_notional_invalid'' @
     message_if (sc_base_borrow c < 0 \<or> sc_max_borrow c < 0) ''borrow_amount_invalid'' @
     message_if (sc_max_borrow c \<noteq> 0 \<and> sc_max_borrow c < sc_base_borrow c) ''base_borrow_exceeds_hard_cap''"

definition validate_capital_authority :: "capital_context \<Rightarrow> string list" where
  "validate_capital_authority k =
     message_if (ca_source k \<noteq> ''capital_engine_state'') ''capital_authority_source_invalid'' @
     message_if (ca_status k \<noteq> ''ok'') ''capital_authority_unavailable'' @
     message_if (ca_freshness k \<in> {''stale'', ''unavailable''}) ''capital_authority_stale'' @
     message_if (\<not> finite_opt (ca_deployable k)) ''deployable_capital_missing''"

definition validate_governance :: "governance_context \<Rightarrow> string list" where
  "validate_governance g =
     message_if (\<not> gv_admitted g) ''governance_not_admitted'' @ message_if (gv_hard_stop g) ''drawdown_hard_stop'' @
     message_if (gv_kill_switch g) ''kill_switch_active'' @
     message_if (gv_sandbox_only g \<and> gv_live_authority g) ''sandbox_live_authority_conflict''"

definition ratio_errors :: "pyfloat option \<Rightarrow> string \<Rightarrow> (pyfloat \<Rightarrow> bool) \<Rightarrow> string \<Rightarrow> string list" where
  "ratio_errors o1 missing bad invalid =
     (case o1 of None \<Rightarrow> [missing] | Some f \<Rightarrow> if \<not> finite_float f then [missing] else message_if (bad f) invalid)"

definition validate_economics :: "economics_context \<Rightarrow> string list" where
  "validate_economics e =
     message_if (\<not> finite_opt (ec_net_profit e)) ''expected_net_profit_missing'' @
     ratio_errors (ec_success_probability e) ''success_probability_missing'' (\<lambda>f. below_zero f \<or> flt (to_double 1) f)
       ''success_probability_invalid'' @
     ratio_errors (ec_margin_ratio e) ''margin_ratio_missing'' below_zero ''margin_ratio_invalid''"

definition validate_wealth_goal :: "wealth_goal_context \<Rightarrow> string list" where
  "validate_wealth_goal g =
     message_if (fle (wg_aggressiveness g) zero_float \<or> \<not> finite_float (wg_aggressiveness g)) ''aggressiveness_cap_invalid'' @
     message_if (below_zero (wg_max_drawdown g) \<or> below_zero (wg_drawdown g)) ''drawdown_invalid''"

definition validate_prime_authority :: "sizing_contract \<Rightarrow> string list" where
  "validate_prime_authority c =
     message_if (sc_source c = ''internal_prime'' \<and> \<not> ca_prime_available (sc_capital c)) ''internal_prime_unavailable'' @
     message_if (sc_source c = ''internal_prime'' \<and> ca_prime_capacity (sc_capital c) = None) ''internal_prime_capacity_missing''"

definition contract_errors :: "sizing_contract \<Rightarrow> string list" where
  "contract_errors c =
     validate_identity_and_notional c @ validate_capital_authority (sc_capital c) @ validate_governance (sc_governance c) @
     validate_economics (sc_economics c) @ validate_wealth_goal (sc_goal c) @ validate_prime_authority c @
     message_if (st_verified (sc_settlement c) \<and> st_outcome_id (sc_settlement c) = []) ''settlement_outcome_id_missing''"

definition contract_validate :: "sizing_contract \<Rightarrow> bool \<times> string list" where
  "contract_validate c = (contract_errors c = [], contract_errors c)"

end
