(* ===== verification/Sizing_Kernel.thy ===== *)
theory Sizing_Kernel
  imports Sizing_Contract Withdraw_Reconcile
begin

text \<open>
  \<open>execution_capture/institutional_sizing_kernel.py\<close>: the size of a trade as the least of its caps, the fingerprint that
  names the sizing, and its conversion at a final quote. SHA-256 is an argument.
\<close>

section \<open>The contract as a dictionary, and its fingerprint\<close>

fun json_compact :: "pyval \<Rightarrow> string" where
  "json_compact PNone = ''null''"
| "json_compact (PBool b) = (if b then ''true'' else ''false'')"
| "json_compact (PInt n) = show_int n"
| "json_compact (PFloat f) = (case f of FFin m k r \<Rightarrow> r | FInf neg \<Rightarrow> if neg then ''-Infinity'' else ''Infinity'' | FNan \<Rightarrow> ''NaN'')"
| "json_compact (PStr s) = json_text s"
| "json_compact (PList xs) = ''['' @ join '','' (map json_compact xs) @ '']''"
| "json_compact (PDict d) = ''{'' @ join '','' (map (\<lambda>(k, v). json_text k @ '':'' @ json_compact v) d) @ ''}''"

definition opt_float :: "pyfloat option \<Rightarrow> pyval" where
  "opt_float o1 = (case o1 of None \<Rightarrow> PNone | Some f \<Rightarrow> PFloat f)"

definition liquidity_dict :: "liquidity_context \<Rightarrow> pydict" where
  "liquidity_dict l =
     [(''available_usd'', opt_float (lq_available l)), (''depth_usd'', opt_float (lq_depth l)),
      (''pool_depth_cap_usd'', opt_float (lq_pool_depth_cap l)), (''reserve_distortion'', PFloat (lq_reserve_distortion l)),
      (''liquidity_fragility'', PFloat (lq_fragility l)), (''slippage_sensitivity'', PFloat (lq_slippage_sensitivity l)),
      (''provider_capacity_usd'', opt_float (lq_provider_capacity l)), (''route_capacity_usd'', opt_float (lq_route_capacity l))]"

definition execution_dict :: "execution_context \<Rightarrow> pydict" where
  "execution_dict e =
     [(''expected_pipeline_latency_ms'', opt_float (ex_pipeline_latency e)), (''latency_half_life_ms'', opt_float (ex_half_life e)),
      (''latency_pressure'', PFloat (ex_latency_pressure e)), (''endpoint_quality'', PFloat (ex_endpoint_quality e)),
      (''venue_reliability'', PFloat (ex_venue_reliability e)), (''simulation_confidence'', PFloat (ex_simulation_confidence e)),
      (''freshness_score'', PFloat (ex_freshness e)), (''private_send_preference'', PBool (ex_private_send e))]"

definition economics_dict :: "economics_context \<Rightarrow> pydict" where
  "economics_dict e =
     [(''expected_gross_profit_usd'', PFloat (ec_gross_profit e)), (''expected_net_profit_usd'', opt_float (ec_net_profit e)),
      (''gas_cost_usd'', PFloat (ec_gas_cost e)), (''borrow_cost_usd'', PFloat (ec_borrow_cost e)),
      (''slippage_cost_usd'', PFloat (ec_slippage_cost e)), (''latency_cost_usd'', PFloat (ec_latency_cost e)),
      (''failure_cost_usd'', PFloat (ec_failure_cost e)), (''min_profit_usd'', PFloat (ec_min_profit_usd e)),
      (''min_profit_bps'', PFloat (ec_min_profit_bps e)), (''success_probability'', opt_float (ec_success_probability e)),
      (''margin_ratio'', opt_float (ec_margin_ratio e))]"

definition capital_dict :: "capital_context \<Rightarrow> pydict" where
  "capital_dict k =
     [(''source'', PStr (ca_source k)), (''status'', PStr (ca_status k)), (''freshness'', PStr (ca_freshness k)),
      (''authority_id'', PStr (ca_authority_id k)), (''available_usd'', opt_float (ca_available k)),
      (''deployable_usd'', opt_float (ca_deployable k)), (''reserve_usd'', opt_float (ca_reserve k)),
      (''drawdown_buffer_usd'', opt_float (ca_drawdown_buffer k)), (''borrowed_usd'', PFloat (ca_borrowed k)),
      (''prime_available'', PBool (ca_prime_available k)), (''prime_capacity_usd'', opt_float (ca_prime_capacity k)),
      (''prime_utilization'', PFloat (ca_prime_utilization k)), (''prime_reserved_usd'', PFloat (ca_prime_reserved k)),
      (''prime_family_exposure_usd'', PFloat (ca_prime_family_exposure k)), (''family_cap_usd'', opt_float (ca_family_cap k))]"

definition goal_dict :: "wealth_goal_context \<Rightarrow> pydict" where
  "goal_dict g =
     [(''target_return_pct'', PFloat (wg_target_return g)), (''current_return_pct'', PFloat (wg_current_return g)),
      (''capital_commitment_pct'', PFloat (wg_commitment g)), (''aggressiveness_cap'', PFloat (wg_aggressiveness g)),
      (''max_drawdown_pct'', PFloat (wg_max_drawdown g)), (''drawdown_pct'', PFloat (wg_drawdown g)),
      (''timeframe_days'', PInt (wg_timeframe_days g)), (''goal_status'', PStr (wg_status g)), (''pacing'', PStr (wg_pacing g)),
      (''goal_horizon_compatibility'', PFloat (wg_horizon g))]"

definition governance_dict :: "governance_context \<Rightarrow> pydict" where
  "governance_dict g =
     [(''admitted'', PBool (gv_admitted g)), (''reason_code'', PStr (gv_reason_code g)),
      (''strategy_family'', PStr (gv_strategy_family g)), (''capital_source'', PStr (gv_capital_source g)),
      (''live_authority'', PBool (gv_live_authority g)), (''execution_allowed'', PBool (gv_execution_allowed g)),
      (''hard_stop'', PBool (gv_hard_stop g)), (''kill_switch'', PBool (gv_kill_switch g)),
      (''sandbox_only'', PBool (gv_sandbox_only g)), (''defensive_mode'', PBool (gv_defensive_mode g)),
      (''max_deployable_pct'', PFloat (gv_max_deployable g)), (''max_family_concentration'', PFloat (gv_max_concentration g))]"

definition settlement_dict :: "settlement_context \<Rightarrow> pydict" where
  "settlement_dict s =
     [(''verified'', PBool (st_verified s)), (''outcome_id'', PStr (st_outcome_id s)), (''decision_id'', PStr (st_decision_id s)),
      (''execution_id'', PStr (st_execution_id s)), (''receipt_id'', PStr (st_receipt_id s)),
      (''realized_net_profit_usd'', opt_float (st_realized s)), (''expectation_error_usd'', opt_float (st_expectation_error s))]"

definition contract_dict :: "sizing_contract \<Rightarrow> pydict" where
  "contract_dict c =
     [(''contract_version'', PStr (sc_version c)), (''strategy_family'', PStr (sc_family c)), (''capital_source'', PStr (sc_source c)),
      (''requested_notional_usd'', PFloat (sc_requested c)), (''target_notional_usd'', opt_float (sc_target c)),
      (''base_borrow_amount_wei'', PInt (sc_base_borrow c)), (''max_borrow_amount_wei'', PInt (sc_max_borrow c)),
      (''liquidity'', PDict (liquidity_dict (sc_liquidity c))), (''execution'', PDict (execution_dict (sc_execution c))),
      (''economics'', PDict (economics_dict (sc_economics c))), (''capital'', PDict (capital_dict (sc_capital c))),
      (''wealth_goal'', PDict (goal_dict (sc_goal c))), (''governance'', PDict (governance_dict (sc_governance c))),
      (''settlement'', PDict (settlement_dict (sc_settlement c))), (''metadata'', PDict (sc_metadata c))]"

definition fingerprint :: "(bytes \<Rightarrow> bytes) \<Rightarrow> sizing_contract \<Rightarrow> pyfloat \<Rightarrow> string list \<Rightarrow> string" where
  "fingerprint sha c approved constraints =
     ''size-'' @ take 24 (hex_of (sha (utf8 (json_compact (json_sorted (PDict
       [(''contract'', PDict (contract_dict c)), (''approved_notional_usd'', PFloat (fround 8 approved)),
        (''constraints_applied'', PList (map PStr constraints))]))))))"

section \<open>Caps\<close>

definition add_cap :: "string \<Rightarrow> pyfloat option \<Rightarrow> (string \<times> pyfloat) list" where
  "add_cap label v =
     (case v of None \<Rightarrow> [] | Some f \<Rightarrow> if finite_float f \<and> fle zero_float f then [(label, f)] else [])"

definition wealth_cap :: "sizing_contract \<Rightarrow> pyfloat res" where
  "wealth_cap c =
     rbind (fdiv (wg_commitment (sc_goal c)) (to_double 30)) (\<lambda>share.
       Inr (fmul (fmul (sc_requested c) (fmax zero_float (wg_aggressiveness (sc_goal c)))) (fmax (to_double (7 / 10)) share)))"

definition deployable_caps :: "sizing_contract \<Rightarrow> (string \<times> pyfloat) list" where
  "deployable_caps c =
     (case ca_deployable (sc_capital c) of
        None \<Rightarrow> []
      | Some d \<Rightarrow>
          add_cap ''capital_engine_deployable_pct'' (Some (fmul d (fmax zero_float (gv_max_deployable (sc_governance c))))) @
          (case ca_drawdown_buffer (sc_capital c) of
             None \<Rightarrow> [] | Some b \<Rightarrow> add_cap ''capital_after_drawdown_buffer'' (Some (fmax zero_float (fsub d b)))))"

definition prime_remaining :: "capital_context \<Rightarrow> pyfloat option" where
  "prime_remaining k =
     map_option (\<lambda>cap. fsub (fmul cap (fmax zero_float (fsub (to_double 1) (ca_prime_utilization k)))) (ca_prime_reserved k))
       (ca_prime_capacity k)"

definition liquidity_caps :: "liquidity_context \<Rightarrow> (string \<times> pyfloat) list" where
  "liquidity_caps l =
     add_cap ''liquidity_available'' (lq_available l) @ add_cap ''pool_depth'' (lq_depth l) @
     add_cap ''pool_depth_cap'' (lq_pool_depth_cap l) @ add_cap ''provider_capacity'' (lq_provider_capacity l) @
     add_cap ''route_capacity'' (lq_route_capacity l)"

definition family_caps :: "capital_context \<Rightarrow> (string \<times> pyfloat) list" where
  "family_caps k =
     (case ca_family_cap k of None \<Rightarrow> []
      | Some cap \<Rightarrow> add_cap ''family_cap'' (Some (fmax zero_float (fsub cap (ca_prime_family_exposure k)))))"

definition economics_viable :: "sizing_contract \<Rightarrow> bool res" where
  "economics_viable c =
     (let e = sc_economics c in
      case ec_net_profit e of
        None \<Rightarrow> Inr False
      | Some net \<Rightarrow>
          let enough = \<not> flt net (ec_min_profit_usd e) in
          if flt zero_float (ec_min_profit_bps e) then
            rbind (fdiv net (sc_requested c)) (\<lambda>q. Inr (enough \<and> \<not> flt (fmul q (to_double 10000)) (ec_min_profit_bps e)))
          else Inr enough)"

definition evidence_caps :: "execution_context \<Rightarrow> (string \<times> pyfloat) list" where
  "evidence_caps e =
     (if fle (to_double 1) (ex_latency_pressure e) \<or> fle (ex_freshness e) zero_float then [(''execution_realism'', zero_float)] else []) @
     (if fle (ex_simulation_confidence e) zero_float \<or> fle (ex_endpoint_quality e) zero_float
      then [(''execution_evidence'', zero_float)] else [])"

text \<open>The caps after the requested notional itself, in the order of the code.\<close>

definition further_caps :: "sizing_contract \<Rightarrow> (string \<times> pyfloat) list res" where
  "further_caps c =
     rbind (wealth_cap c) (\<lambda>wealth. rbind (economics_viable c) (\<lambda>viable.
       Inr (add_cap ''wealth_goal_aggressiveness'' (Some wealth) @ deployable_caps c @
         add_cap ''internal_prime_remaining_capacity'' (prime_remaining (sc_capital c)) @
         liquidity_caps (sc_liquidity c) @ family_caps (sc_capital c) @
         (if viable then [] else [(''expected_economics_viability'', zero_float)]) @ evidence_caps (sc_execution c))))"

section \<open>The size\<close>

record sizing_decision =
  sd_id :: string
  sd_approved :: pyfloat
  sd_raw :: "int option"
  sd_constraints :: "string list"
  sd_downsize :: "string list"
  sd_utilization :: pyfloat
  sd_execution_notional :: "pyfloat option"
  sd_quote_id :: "string option"

definition unit_exception :: "unit_error \<Rightarrow> pyerr" where
  "unit_exception e = (case e of QuoteUnitSizingError m \<Rightarrow> ValueError | DecimalOverflow \<Rightarrow> ArithmeticError | OtherError p \<Rightarrow> p)"

definition from_units :: "'a units \<Rightarrow> 'a res" where
  "from_units m = (case m of Inl e \<Rightarrow> Inl (unit_exception e) | Inr x \<Rightarrow> Inr x)"

record quoted_size =
  qs_raw :: "int option"
  qs_notional :: "pyfloat option"
  qs_quote_id :: "string option"
  qs_capped :: bool

definition quoted_size_at :: "sizing_contract \<Rightarrow> pyfloat \<Rightarrow> pyval option \<Rightarrow> quoted_size res" where
  "quoted_size_at c approved final_quote =
     (case final_quote of
        None \<Rightarrow> Inr \<lparr>qs_raw = None, qs_notional = None, qs_quote_id = None, qs_capped = False\<rparr>
      | Some fq \<Rightarrow>
          let q = quote_context_from_mapping fq in
          rbind (validate_quote_context (PDict q)) (\<lambda>(valid, errors).
          if \<not> valid then Inl ValueError
          else rbind (py_int (dget q ''asset_decimals'')) (\<lambda>decimals.
            rbind (from_units (usd_notional_to_raw_units (PFloat approved) (dget q ''asset_price_usd'') (PInt decimals))) (\<lambda>units.
            let capped = (0 < sc_max_borrow c \<and> sc_max_borrow c < units); raw = (if capped then sc_max_borrow c else units) in
            rbind (float_of_int raw) (\<lambda>r. rbind (float_of_int (10 ^ nat decimals)) (\<lambda>scale. rbind (fdiv r scale) (\<lambda>amount.
            rbind (py_float (dget q ''asset_price_usd'')) (\<lambda>price.
            let qid = str_or_empty (dget (as_dict fq) ''quote_id'') in
            Inr \<lparr>qs_raw = Some raw, qs_notional = Some (fmul amount price), qs_quote_id = (if qid = [] then None else Some qid),
              qs_capped = capped\<rparr>))))))))"

definition utilization_of :: "sizing_contract \<Rightarrow> pyfloat \<Rightarrow> pyfloat res" where
  "utilization_of c approved =
     (case ca_deployable (sc_capital c) of
        None \<Rightarrow> Inr zero_float
      | Some d \<Rightarrow> if flt zero_float d then fdiv approved d else Inr zero_float)"

definition no_request :: "(bytes \<Rightarrow> bytes) \<Rightarrow> sizing_contract \<Rightarrow> sizing_decision" where
  "no_request sha c =
     \<lparr>sd_id = fingerprint sha c zero_float [''requested_notional''], sd_approved = zero_float, sd_raw = None,
      sd_constraints = [''requested_notional''], sd_downsize = [''requested_notional_non_positive''],
      sd_utilization = zero_float, sd_execution_notional = None, sd_quote_id = None\<rparr>"

definition approved_of :: "pyfloat \<Rightarrow> (string \<times> pyfloat) list \<Rightarrow> pyfloat" where
  "approved_of requested caps = fmax zero_float (fmin_from requested (map snd caps))"

definition calculate_institutional_size ::
    "(bytes \<Rightarrow> bytes) \<Rightarrow> sizing_contract \<Rightarrow> pyval option \<Rightarrow> sizing_decision res" where
  "calculate_institutional_size sha c final_quote =
     (if contract_errors c \<noteq> [] then Inl ValueError
      else if fle (sc_requested c) zero_float then Inr (no_request sha c)
      else rbind (further_caps c) (\<lambda>more.
        let caps = (''requested_notional'', sc_requested c) # more;
            approved = approved_of (sc_requested c) more;
            canonical = map fst caps @ [''p_success_validated'', ''margin_validated''];
            limit = fsub (sc_requested c) (to_double (1 / 10 ^ 9));
            downsized = map fst (filter (\<lambda>(l, v). flt v limit) caps) in
        rbind (quoted_size_at c approved final_quote) (\<lambda>q.
        rbind (utilization_of c approved) (\<lambda>u.
        let extra = message_if (qs_capped q) ''max_borrow_amount_raw'' in
        Inr \<lparr>sd_id = fingerprint sha c approved canonical, sd_approved = fround 8 approved, sd_raw = qs_raw q,
          sd_constraints = canonical @ extra, sd_downsize = downsized @ extra, sd_utilization = fround 8 u,
          sd_execution_notional = map_option (fround 8) (qs_notional q), sd_quote_id = qs_quote_id q\<rparr>))))"

section \<open>The size is the least of its caps\<close>

lemma add_cap_finite: "(l, f) \<in> set (add_cap label v) \<Longrightarrow> finite_float f \<and> 0 \<le> fval f"
  by (auto simp: add_cap_def split: option.splits if_splits)

lemma add_cap_some: "finite_float f \<Longrightarrow> 0 \<le> fval f \<Longrightarrow> (label, f) \<in> set (add_cap label (Some f))"
  by (simp add: add_cap_def)

definition sound_caps :: "(string \<times> pyfloat) list \<Rightarrow> bool" where
  "sound_caps caps \<longleftrightarrow> (\<forall>p \<in> set caps. finite_float (snd p) \<and> 0 \<le> fval (snd p))"

lemma sound_caps_simps [simp]:
  "sound_caps []" "sound_caps (xs @ ys) \<longleftrightarrow> sound_caps xs \<and> sound_caps ys" "sound_caps (add_cap label v)"
  "sound_caps [(l, zero_float)]"
  using add_cap_finite by (auto simp: sound_caps_def ball_Un)

lemma sound_parts [simp]:
  "sound_caps (deployable_caps c)" "sound_caps (liquidity_caps l)" "sound_caps (family_caps k)" "sound_caps (evidence_caps e)"
  by (simp_all add: deployable_caps_def liquidity_caps_def family_caps_def evidence_caps_def split: option.split)

lemma further_caps_sound:
  assumes "further_caps c = Inr caps" shows "sound_caps caps"
proof -
  obtain wealth viable where "caps = add_cap ''wealth_goal_aggressiveness'' (Some wealth) @ deployable_caps c @
         add_cap ''internal_prime_remaining_capacity'' (prime_remaining (sc_capital c)) @
         liquidity_caps (sc_liquidity c) @ family_caps (sc_capital c) @
         (if viable then [] else [(''expected_economics_viability'', zero_float)]) @ evidence_caps (sc_execution c)"
    using assms by (auto simp: further_caps_def rbind_eq_Inr)
  then show ?thesis by simp
qed

lemma liquidity_cap_in:
  assumes "o1 \<in> {lq_available l, lq_depth l, lq_pool_depth_cap l, lq_provider_capacity l, lq_route_capacity l}"
    "o1 = Some x" "finite_float x" "0 \<le> fval x"
  shows "\<exists>label. (label, x) \<in> set (liquidity_caps l)"
proof -
  have "\<exists>label. (label, x) \<in> set (add_cap ''liquidity_available'' (lq_available l)) \<or> (label, x) \<in> set (add_cap ''pool_depth'' (lq_depth l)) \<or>
      (label, x) \<in> set (add_cap ''pool_depth_cap'' (lq_pool_depth_cap l)) \<or>
      (label, x) \<in> set (add_cap ''provider_capacity'' (lq_provider_capacity l)) \<or> (label, x) \<in> set (add_cap ''route_capacity'' (lq_route_capacity l))"
    using assms(1,2) add_cap_some[OF assms(3,4)] by (metis empty_iff insert_iff)
  then show ?thesis by (simp add: liquidity_caps_def)
qed

lemma valid_requested:
  assumes "contract_errors c = []" shows "finite_float (sc_requested c)"
  using assms by (auto simp: contract_errors_def validate_identity_and_notional_def message_if_def split: if_splits)

lemma calculate_parts:
  assumes "calculate_institutional_size sha c fq = Inr s" "flt zero_float (sc_requested c)"
  obtains more where "contract_errors c = []" "finite_float (sc_requested c)" "further_caps c = Inr more"
    "sd_approved s = fround 8 (approved_of (sc_requested c) more)"
proof -
  from assms(2) have "\<not> fle (sc_requested c) zero_float" by (auto simp: fle_def flt_def)
  with assms(1) that valid_requested[of c] show thesis
    by (auto simp: calculate_institutional_size_def rbind_eq_Inr Let_def split: if_splits)
qed

lemma approved_least:
  assumes "finite_float r" "0 < fval r" "sound_caps caps"
  defines "v \<equiv> approved_of r caps"
  shows "finite_float v" "0 \<le> fval v" "fval v \<le> fval r" "\<forall>(l, f) \<in> set caps. fval v \<le> fval f"
proof -
  let ?m = "fmin_from r (map snd caps)"
  have fin: "\<forall>f \<in> set (map snd caps). finite_float f" using assms(3) by (auto simp: sound_caps_def)
  note m = fmin_from_finite[OF assms(1) fin] fmin_from_least[OF assms(1) fin]
  have "?m \<in> insert r (set (map snd caps))" by (rule fmin_from_in)
  then have "0 \<le> fval ?m" using assms(2,3) by (auto simp: sound_caps_def)
  then have v: "finite_float v \<and> fval v = fval ?m"
    using finite_fmax[of zero_float ?m] m(1) by (simp add: v_def approved_of_def)
  then show "finite_float v" "0 \<le> fval v" using \<open>0 \<le> fval ?m\<close> by simp_all
  show "fval v \<le> fval r" "\<forall>(l, f) \<in> set caps. fval v \<le> fval f" using v m(2) by force+
qed

lemma positive_request: "finite_float r \<Longrightarrow> flt zero_float r \<Longrightarrow> 0 < fval r"
  by simp

text \<open>A value a limit binds: the limit is a finite number, not below zero (any other is dropped by the code).\<close>

definition bound_by :: "pyfloat \<Rightarrow> pyfloat \<Rightarrow> bool" where
  "bound_by v x \<longleftrightarrow> (finite_float x \<and> 0 \<le> fval x \<longrightarrow> fval v \<le> fval x)"

lemma add_cap_bounds:
  "\<forall>(l, f) \<in> set caps. fval v \<le> fval f \<Longrightarrow> set (add_cap label (Some x)) \<subseteq> set caps \<Longrightarrow> bound_by v x"
  by (auto simp: bound_by_def add_cap_def split: if_splits)

lemma further_caps_parts:
  assumes "further_caps c = Inr caps"
  obtains wealth viable where "wealth_cap c = Inr wealth" "economics_viable c = Inr viable"
    and "set (add_cap ''wealth_goal_aggressiveness'' (Some wealth)) \<subseteq> set caps" and "set (deployable_caps c) \<subseteq> set caps"
    and "set (add_cap ''internal_prime_remaining_capacity'' (prime_remaining (sc_capital c))) \<subseteq> set caps"
    and "set (liquidity_caps (sc_liquidity c)) \<subseteq> set caps" and "set (family_caps (sc_capital c)) \<subseteq> set caps"
    and "set (if viable then [] else [(''expected_economics_viability'', zero_float)]) \<subseteq> set caps"
    and "set (evidence_caps (sc_execution c)) \<subseteq> set caps"
proof -
  from assms obtain wealth viable where p: "wealth_cap c = Inr wealth" "economics_viable c = Inr viable"
    "caps = add_cap ''wealth_goal_aggressiveness'' (Some wealth) @ deployable_caps c @
         add_cap ''internal_prime_remaining_capacity'' (prime_remaining (sc_capital c)) @
         liquidity_caps (sc_liquidity c) @ family_caps (sc_capital c) @
         (if viable then [] else [(''expected_economics_viability'', zero_float)]) @ evidence_caps (sc_execution c)"
    by (auto simp: further_caps_def rbind_eq_Inr)
  show thesis by (rule that[OF p(1,2)]) (unfold p(3) set_append, blast+)
qed

text \<open>C25: a size is never above any cap: what is approved is the rounding to eight places of a value between zero and
  the requested notional that is at most each of the limits which is a number not below zero: the wealth goal's
  share of the request, the deployable share of the capital, what the drawdown buffer leaves of it, what is left of
  the internal prime, what the prime's exposure leaves of the family cap, and each capacity the liquidity context knows.\<close>

theorem size_within_caps:
  assumes "calculate_institutional_size sha c fq = Inr s" "flt zero_float (sc_requested c)"
  defines "k \<equiv> sc_capital c" and "l \<equiv> sc_liquidity c" and "g \<equiv> sc_goal c"
  shows "\<exists>v share. sd_approved s = fround 8 v \<and> finite_float v \<and> 0 \<le> fval v \<and> fval v \<le> fval (sc_requested c) \<and>
    fdiv (wg_commitment g) (to_double 30) = Inr share \<and>
    bound_by v (fmul (fmul (sc_requested c) (fmax zero_float (wg_aggressiveness g))) (fmax (to_double (7 / 10)) share)) \<and>
    (\<forall>d. ca_deployable k = Some d \<longrightarrow> bound_by v (fmul d (fmax zero_float (gv_max_deployable (sc_governance c)))) \<and>
       (\<forall>b. ca_drawdown_buffer k = Some b \<longrightarrow> bound_by v (fmax zero_float (fsub d b)))) \<and>
    (\<forall>cap. ca_prime_capacity k = Some cap \<longrightarrow>
       bound_by v (fsub (fmul cap (fmax zero_float (fsub (to_double 1) (ca_prime_utilization k)))) (ca_prime_reserved k))) \<and>
    (\<forall>cap. ca_family_cap k = Some cap \<longrightarrow> bound_by v (fmax zero_float (fsub cap (ca_prime_family_exposure k)))) \<and>
    (\<forall>x. Some x \<in> {lq_available l, lq_depth l, lq_pool_depth_cap l, lq_provider_capacity l, lq_route_capacity l} \<longrightarrow> bound_by v x)"
  using assms(1,2)
proof (rule calculate_parts)
  fix caps
  assume c: "finite_float (sc_requested c)" "further_caps c = Inr caps" "sd_approved s = fround 8 (approved_of (sc_requested c) caps)"
  let ?v = "approved_of (sc_requested c) caps"
  note v = approved_least[OF c(1) positive_request[OF c(1) assms(2)] further_caps_sound[OF c(2)]]
  note bound = add_cap_bounds[OF v(4)]
  obtain wealth where p: "wealth_cap c = Inr wealth"
    "set (add_cap ''wealth_goal_aggressiveness'' (Some wealth)) \<subseteq> set caps" "set (deployable_caps c) \<subseteq> set caps"
    "set (add_cap ''internal_prime_remaining_capacity'' (prime_remaining k)) \<subseteq> set caps"
    "set (liquidity_caps l) \<subseteq> set caps" "set (family_caps k) \<subseteq> set caps"
    unfolding k_def l_def by (rule further_caps_parts[OF c(2)])
  from p(1) obtain share where sh: "fdiv (wg_commitment g) (to_double 30) = Inr share"
    "wealth = fmul (fmul (sc_requested c) (fmax zero_float (wg_aggressiveness g))) (fmax (to_double (7 / 10)) share)"
    by (auto simp: wealth_cap_def rbind_eq_Inr g_def)
  have d: "bound_by ?v (fmul d (fmax zero_float (gv_max_deployable (sc_governance c)))) \<and>
       (\<forall>b. ca_drawdown_buffer k = Some b \<longrightarrow> bound_by ?v (fmax zero_float (fsub d b)))" if "ca_deployable k = Some d" for d
    using p(3) that bound unfolding deployable_caps_def k_def by (auto simp only: option.case set_append Un_subset_iff)
  have pr: "bound_by ?v (fsub (fmul cap (fmax zero_float (fsub (to_double 1) (ca_prime_utilization k)))) (ca_prime_reserved k))"
    if "ca_prime_capacity k = Some cap" for cap
    using p(4) that bound unfolding prime_remaining_def by simp
  have f: "bound_by ?v (fmax zero_float (fsub cap (ca_prime_family_exposure k)))" if "ca_family_cap k = Some cap" for cap
    using p(6) that bound unfolding family_caps_def by simp
  have lq: "bound_by ?v x" if "Some x \<in> {lq_available l, lq_depth l, lq_pool_depth_cap l, lq_provider_capacity l, lq_route_capacity l}" for x
    using p(5) that bound unfolding liquidity_caps_def set_append Un_subset_iff by auto
  have w: "bound_by ?v (fmul (fmul (sc_requested c) (fmax zero_float (wg_aggressiveness g))) (fmax (to_double (7 / 10)) share))"
    using bound[OF p(2)] unfolding sh(2) .
  show ?thesis
    by (rule exI[of _ ?v], rule exI[of _ share], intro conjI)
      (rule c(3) v(1-3) sh(1) w | (intro allI impI, erule d) | (intro allI impI, erule pr) | (intro allI impI, erule f) |
       (intro allI impI, erule lq))+
qed

lemma zero_cap_zero_size:
  assumes "finite_float r" "0 < fval r" "sound_caps caps" "(l, zero_float) \<in> set caps"
  shows "approved_of r caps = zero_float"
proof -
  have "fval (fmin_from r (map snd caps)) \<le> 0" "finite_float (fmin_from r (map snd caps))"
    using fmin_from_least[OF assms(1), of "map snd caps"] fmin_from_finite[OF assms(1), of "map snd caps"] assms(3,4) by (force simp: sound_caps_def)+
  then show ?thesis by (simp add: approved_of_def fmax_def)
qed

lemma fround_zero: "fround 8 zero_float = zero_float"
proof -
  have "half_even 0 = 0" using half_even_of_int[of 0] by simp
  then show ?thesis by (simp add: fround_def Let_def) (simp add: signed_zero_def starts_with_def)
qed

text \<open>The ways a trade's expected profit can fail to clear its minimum.\<close>

definition profit_short :: "sizing_contract \<Rightarrow> bool" where
  "profit_short c \<longleftrightarrow>
     (case ec_net_profit (sc_economics c) of
        None \<Rightarrow> True
      | Some net \<Rightarrow> flt net (ec_min_profit_usd (sc_economics c)) \<or>
          flt zero_float (ec_min_profit_bps (sc_economics c)) \<and>
          (\<exists>q. fdiv net (sc_requested c) = Inr q \<and> flt (fmul q (to_double 10000)) (ec_min_profit_bps (sc_economics c))))"

lemma economics_viable_iff: "economics_viable c = Inr b \<Longrightarrow> b \<longleftrightarrow> \<not> profit_short c"
  by (auto simp: economics_viable_def profit_short_def Let_def rbind_eq_Inr split: option.splits if_splits)

text \<open>C26: nothing is sized without evidence: the size is zero where no net profit is known, or it is below the
  minimum in dollars, or, with a minimum in basis points above zero, ten thousand times its share of the request is
  below that; and where the latency pressure is full, the data are not fresh, nothing was simulated or the endpoint
  has no quality.\<close>

theorem no_size_without_evidence:
  assumes "calculate_institutional_size sha c fq = Inr s" "flt zero_float (sc_requested c)"
    and "ec_net_profit (sc_economics c) = None \<or>
      (\<exists>net. ec_net_profit (sc_economics c) = Some net \<and>
         (flt net (ec_min_profit_usd (sc_economics c)) \<or>
          flt zero_float (ec_min_profit_bps (sc_economics c)) \<and>
          (\<exists>q. fdiv net (sc_requested c) = Inr q \<and> flt (fmul q (to_double 10000)) (ec_min_profit_bps (sc_economics c))))) \<or>
      fle (to_double 1) (ex_latency_pressure (sc_execution c)) \<or>
      fle (ex_freshness (sc_execution c)) zero_float \<or> fle (ex_simulation_confidence (sc_execution c)) zero_float \<or>
      fle (ex_endpoint_quality (sc_execution c)) zero_float"
  shows "sd_approved s = zero_float"
  using assms(1,2)
proof (rule calculate_parts)
  fix caps
  assume c: "finite_float (sc_requested c)" "further_caps c = Inr caps" "sd_approved s = fround 8 (approved_of (sc_requested c) caps)"
  note fin = further_caps_sound[OF c(2)]
  obtain viable where vb: "economics_viable c = Inr viable"
    "set (if viable then [] else [(''expected_economics_viability'', zero_float)]) \<subseteq> set caps"
    "set (evidence_caps (sc_execution c)) \<subseteq> set caps" by (rule further_caps_parts[OF c(2)])
  have short: "profit_short c \<or> fle (to_double 1) (ex_latency_pressure (sc_execution c)) \<or>
      fle (ex_freshness (sc_execution c)) zero_float \<or> fle (ex_simulation_confidence (sc_execution c)) zero_float \<or>
      fle (ex_endpoint_quality (sc_execution c)) zero_float"
    using assms(3) by (auto simp: profit_short_def split: option.split)
  obtain l where "(l, zero_float) \<in> set caps"
    using short vb economics_viable_iff[OF vb(1)] by (fastforce simp: evidence_caps_def)
  with zero_cap_zero_size[OF c(1) positive_request[OF c(1) assms(2)] fin] c(3) show ?thesis by (simp add: fround_zero)
qed

section \<open>Quotes do not change the sizing\<close>

lemma calculate_shape:
  assumes "calculate_institutional_size sha c fq = Inr s"
  shows "contract_errors c = []"
    "\<not> fle (sc_requested c) zero_float \<Longrightarrow> \<exists>more u q. further_caps c = Inr more \<and> utilization_of c (approved_of (sc_requested c) more) = Inr u \<and>
       quoted_size_at c (approved_of (sc_requested c) more) fq = Inr q \<and> sd_raw s = qs_raw q \<and>
       sd_id s = fingerprint sha c (approved_of (sc_requested c) more)
         (map fst ((''requested_notional'', sc_requested c) # more) @ [''p_success_validated'', ''margin_validated'']) \<and>
       sd_approved s = fround 8 (approved_of (sc_requested c) more) \<and> sd_utilization s = fround 8 u"
    "fle (sc_requested c) zero_float \<Longrightarrow> s = no_request sha c"
  using assms by (auto simp: calculate_institutional_size_def rbind_eq_Inr Let_def split: if_splits)

text \<open>C27: a final quote changes neither the sizing id, nor the approved notional, nor the utilization; and where the contract
  has a borrow cap, the raw amount stays within it.\<close>

theorem requote_keeps_sizing:
  assumes "calculate_institutional_size sha c None = Inr s" "calculate_institutional_size sha c (Some q) = Inr s'"
  shows "sd_id s' = sd_id s \<and> sd_approved s' = sd_approved s \<and> sd_utilization s' = sd_utilization s \<and>
    (\<forall>raw. sd_raw s' = Some raw \<and> 0 < sc_max_borrow c \<longrightarrow> raw \<le> sc_max_borrow c)"
proof (cases "fle (sc_requested c) zero_float")
  case True
  then show ?thesis using calculate_shape(3)[OF assms(1)] calculate_shape(3)[OF assms(2)] by (simp add: no_request_def)
next
  case False
  have "raw \<le> sc_max_borrow c" if "quoted_size_at c a (Some q) = Inr r" "qs_raw r = Some raw" "0 < sc_max_borrow c" for a r raw
    using that by (auto simp: quoted_size_at_def rbind_eq_Inr Let_def split: if_splits)
  then show ?thesis using calculate_shape(2)[OF assms(1) False] calculate_shape(2)[OF assms(2) False] by auto
qed

section \<open>Limits that are lifted\<close>

text \<open>A value no less than the first leaves a minimum as it is.\<close>

lemma fmin_skip:
  "finite_float a \<Longrightarrow> \<forall>b \<in> set xs. finite_float b \<Longrightarrow> finite_float y \<Longrightarrow> fval a \<le> fval y \<Longrightarrow>
   fmin_from a (xs @ y # zs) = fmin_from a (xs @ zs)"
  by (induction xs arbitrary: a) auto

lemma flt_zero_no_cap: "flt f zero_float \<Longrightarrow> add_cap label (Some f) = []"
  by (auto simp: add_cap_def fle_def)

text \<open>An over-reserved internal prime sets no limit: when what is reserved exceeds what is left of the prime's capacity,
  the negative remainder is dropped from the caps instead of stopping the trade. The approved notional is that of the
  same contract with so large a capacity that what remains of it covers the whole request, whatever the capital source
  is, the internal prime included.\<close>

theorem over_reserved_prime_unlimited:
  assumes "prime_remaining (sc_capital c) = Some r" "flt r zero_float"
    and "prime_remaining ((sc_capital c)\<lparr>ca_prime_capacity := Some ample\<rparr>) = Some r'" "finite_float r'" "fval (sc_requested c) \<le> fval r'"
    and "calculate_institutional_size sha c None = Inr s"
    and "calculate_institutional_size sha (c\<lparr>sc_capital := (sc_capital c)\<lparr>ca_prime_capacity := Some ample\<rparr>\<rparr>) None = Inr s'"
    and "flt zero_float (sc_requested c)"
  shows "sd_approved s = sd_approved s' \<and> add_cap ''internal_prime_remaining_capacity'' (prime_remaining (sc_capital c)) = []"
proof -
  let ?k = "(sc_capital c)\<lparr>ca_prime_capacity := Some ample\<rparr>" let ?c = "c\<lparr>sc_capital := ?k\<rparr>"
  have same: "wealth_cap ?c = wealth_cap c" "economics_viable ?c = economics_viable c"
    "deployable_caps ?c = deployable_caps c" "family_caps ?k = family_caps (sc_capital c)"
    by (simp_all add: wealth_cap_def economics_viable_def deployable_caps_def family_caps_def Let_def split: option.split)
  have none: "add_cap l (prime_remaining (sc_capital c)) = []" for l unfolding assms(1) by (rule flt_zero_no_cap[OF assms(2)])
  have pos: "finite_float (sc_requested c)" "0 < fval (sc_requested c)"
    using calculate_shape(1)[OF assms(6)] valid_requested[of c] positive_request[OF _ assms(8)] by auto
  have some: "add_cap l (prime_remaining ?k) = [(l, r')]" for l
    unfolding assms(3) using pos assms(4,5) by (simp add: add_cap_def)
  from assms(6,8) obtain more where m: "further_caps c = Inr more" "sd_approved s = fround 8 (approved_of (sc_requested c) more)"
    by (rule calculate_parts)
  from assms(7) obtain more' where m': "further_caps ?c = Inr more'" "sd_approved s' = fround 8 (approved_of (sc_requested c) more')"
    by (rule calculate_parts) (use assms(8) in simp_all)
  obtain wealth viable where w: "wealth_cap c = Inr wealth" "economics_viable c = Inr viable"
    using m(1) by (auto simp: further_caps_def rbind_eq_Inr)
  define xs where "xs = add_cap ''wealth_goal_aggressiveness'' (Some wealth) @ deployable_caps c"
  define ys where "ys = liquidity_caps (sc_liquidity c) @ family_caps (sc_capital c) @
    (if viable then [] else [(''expected_economics_viability'', zero_float)]) @ evidence_caps (sc_execution c)"
  have split: "more = xs @ ys" "more' = xs @ (''internal_prime_remaining_capacity'', r') # ys"
    using m(1) m'(1) by (simp_all add: further_caps_def same w none some xs_def ys_def)
  have "fmin_from (sc_requested c) (map snd more') = fmin_from (sc_requested c) (map snd more)"
    using further_caps_sound[OF m(1)] pos(1) assms(4,5)
    by (simp add: split) (intro fmin_skip, auto simp: sound_caps_def)
  then show ?thesis using m(2) m'(2) none by (simp add: approved_of_def)
qed

lemma number_or_simps [simp]: "number_or d PNone = Inr d" "number_or d (PFloat zero_float) = Inr d"
  by (auto simp: number_or_def finite_or_def) (simp_all add: signed_zero_def)

lemma finite_or_simps [simp]: "finite_or d PNone = Inr d"
  by (simp add: finite_or_def)

lemma zero_float_falsy [simp]: "truthy (PFloat zero_float) = False"
  by (simp add: signed_zero_def)

text \<open>A limit of zero is read as no limit: an aggressiveness cap of zero becomes the full one, a deployable share of zero
  the default 35 percent, and an available liquidity of zero leaves the liquidity context without that cap.\<close>

theorem zero_limits_lifted:
  assumes "build_institutional_sizing_contract a = Inr c"
    and "dget (goal_state (si_goal a)) ''aggressivenessCap'' = PFloat zero_float" "dget (goal_state (si_goal a)) ''aggressiveness_cap'' = PNone"
    and "dget (mapping_of (si_governance a)) ''max_deployable_pct'' = PFloat zero_float"
    and "dget (mapping_of (si_capture a)) ''available_usd'' = PFloat zero_float"
      "dget (mapping_of (si_capture a)) ''liquidity_available_usd'' = PNone"
  shows "wg_aggressiveness (sc_goal c) = to_double 1 \<and> gv_max_deployable (sc_governance c) = to_double (35 / 100) \<and>
    lq_available (sc_liquidity c) = None \<and> ''liquidity_available'' \<notin> fst ` set (liquidity_caps (sc_liquidity c))"
proof -
  have "wg_aggressiveness (sc_goal c) = to_double 1"
    using assms(1-3) by (auto simp: build_institutional_sizing_contract_def build_wealth_goal_context_def rbind_eq_Inr get2_def por_def)
  moreover have "gv_max_deployable (sc_governance c) = to_double (35 / 100)"
    using assms(1,4) by (auto simp: build_institutional_sizing_contract_def build_governance_context_def rbind_eq_Inr)
  moreover have l: "lq_available (sc_liquidity c) = None"
    using assms(1,5,6) by (auto simp: build_institutional_sizing_contract_def build_liquidity_context_def rbind_eq_Inr get2_def por_def)
  moreover have "''liquidity_available'' \<notin> fst ` set (liquidity_caps (sc_liquidity c))"
    by (auto simp: liquidity_caps_def l add_cap_def split: option.splits if_splits)
  ultimately show ?thesis by blast
qed

section \<open>A concrete contract\<close>

definition demo_goal :: wealth_goal_context where
  "demo_goal = \<lparr>wg_target_return = zero_float, wg_current_return = zero_float, wg_commitment = to_double 30,
     wg_aggressiveness = to_double 1, wg_max_drawdown = to_double 10, wg_drawdown = zero_float, wg_timeframe_days = 30,
     wg_status = ''active'', wg_pacing = ''steady'', wg_horizon = to_double 1\<rparr>"

definition demo_governance :: governance_context where
  "demo_governance = \<lparr>gv_admitted = True, gv_reason_code = ''ok'', gv_strategy_family = ''f'', gv_capital_source = ''treasury'',
     gv_live_authority = False, gv_execution_allowed = True, gv_hard_stop = False, gv_kill_switch = False,
     gv_sandbox_only = False, gv_defensive_mode = False, gv_max_deployable = to_double 1, gv_max_concentration = to_double 1\<rparr>"

definition demo_capital :: "pyfloat option \<Rightarrow> capital_context" where
  "demo_capital prime = \<lparr>ca_source = ''capital_engine_state'', ca_status = ''ok'', ca_freshness = ''fresh'', ca_authority_id = [],
     ca_available = None, ca_deployable = Some (to_double 1000), ca_reserve = None, ca_drawdown_buffer = None,
     ca_borrowed = zero_float, ca_prime_available = True, ca_prime_capacity = prime, ca_prime_utilization = zero_float,
     ca_prime_reserved = to_double 200, ca_prime_family_exposure = zero_float, ca_family_cap = None\<rparr>"

definition demo_economics :: economics_context where
  "demo_economics = \<lparr>ec_gross_profit = to_double 10, ec_net_profit = Some (to_double 10), ec_gas_cost = zero_float,
     ec_borrow_cost = zero_float, ec_slippage_cost = zero_float, ec_latency_cost = zero_float, ec_failure_cost = zero_float,
     ec_min_profit_usd = to_double 1, ec_min_profit_bps = zero_float, ec_success_probability = Some (to_double 1),
     ec_margin_ratio = Some (to_double 1)\<rparr>"

definition demo_execution :: "pyfloat \<Rightarrow> execution_context" where
  "demo_execution fresh = \<lparr>ex_pipeline_latency = None, ex_half_life = None, ex_latency_pressure = zero_float,
     ex_endpoint_quality = to_double 1, ex_venue_reliability = to_double 1, ex_simulation_confidence = to_double 1,
     ex_freshness = fresh, ex_private_send = False\<rparr>"

definition demo_liquidity :: liquidity_context where
  "demo_liquidity = \<lparr>lq_available = Some (to_double 40), lq_depth = None, lq_pool_depth_cap = None, lq_reserve_distortion = zero_float,
     lq_fragility = zero_float, lq_slippage_sensitivity = zero_float, lq_provider_capacity = None, lq_route_capacity = None\<rparr>"

definition demo_settlement :: settlement_context where
  "demo_settlement = \<lparr>st_verified = False, st_outcome_id = [], st_decision_id = [], st_execution_id = [], st_receipt_id = [],
     st_realized = None, st_expectation_error = None\<rparr>"

definition demo_contract :: "pyfloat \<Rightarrow> pyfloat option \<Rightarrow> sizing_contract" where
  "demo_contract fresh prime = \<lparr>sc_version = ''institutional_sizing_v1'', sc_family = ''f'', sc_source = ''treasury'',
     sc_requested = to_double 50, sc_target = None, sc_base_borrow = 0, sc_max_borrow = 7, sc_liquidity = demo_liquidity,
     sc_execution = demo_execution fresh, sc_economics = demo_economics, sc_capital = demo_capital prime, sc_goal = demo_goal,
     sc_governance = demo_governance, sc_settlement = demo_settlement, sc_metadata = []\<rparr>"

lemma small_ints [simp]:
  "fval (to_double 1) = 1" "finite_float (to_double 1)" "fval (to_double 10) = 10" "finite_float (to_double 10)"
  "fval (to_double 30) = 30" "finite_float (to_double 30)" "fval (to_double 40) = 40" "finite_float (to_double 40)"
  "fval (to_double 50) = 50" "finite_float (to_double 50)" "fval (to_double 100) = 100" "finite_float (to_double 100)"
  "fval (to_double 200) = 200" "finite_float (to_double 200)" "fval (to_double 1000) = 1000" "finite_float (to_double 1000)"
  "fval (to_double (- 100)) = - 100" "finite_float (to_double (- 100))"
  using fval_int[of 1] fval_int[of 10] fval_int[of 30] fval_int[of 40] fval_int[of 50] fval_int[of 100] fval_int[of 200]
    fval_int[of 1000] fval_int[of "- 100"] by simp_all

lemma demo_valid: "contract_errors (demo_contract fresh prime) = []"
  by (simp add: contract_errors_def demo_contract_def validate_identity_and_notional_def validate_capital_authority_def
      validate_governance_def validate_economics_def validate_wealth_goal_def validate_prime_authority_def message_if_def
      below_zero_def finite_opt_def ratio_errors_def demo_goal_def demo_governance_def demo_capital_def demo_economics_def
      demo_settlement_def)

lemma demo_contract_sized:
  "flt zero_float (sc_requested (demo_contract fresh prime))"
  "\<exists>s. calculate_institutional_size sha (demo_contract fresh prime) None = Inr s"
proof -
  show "flt zero_float (sc_requested (demo_contract fresh prime))" by (simp add: demo_contract_def)
  obtain q where "wealth_cap (demo_contract fresh prime) = Inr q"
    using fdiv_finite[of "to_double 30" "to_double 30"] by (auto simp: wealth_cap_def demo_contract_def demo_goal_def)
  moreover obtain v where "economics_viable (demo_contract fresh prime) = Inr v"
    by (auto simp: economics_viable_def demo_contract_def demo_economics_def Let_def)
  moreover obtain u where "utilization_of (demo_contract fresh prime) x = Inr (u x)" for x
    using fdiv_finite[of "to_double 1000"] by (simp add: utilization_of_def demo_contract_def demo_capital_def) metis
  ultimately show "\<exists>s. calculate_institutional_size sha (demo_contract fresh prime) None = Inr s"
    using demo_valid[of fresh prime]
    by (simp add: calculate_institutional_size_def further_caps_def Let_def quoted_size_at_def)
qed

theorem size_within_caps_witness:
  "\<exists>s v. calculate_institutional_size (\<lambda>_. [0]) (demo_contract (to_double 1) None) None = Inr s \<and> sd_approved s = fround 8 v \<and> fval v \<le> 40"
proof -
  obtain s where s: "calculate_institutional_size (\<lambda>_. [0]) (demo_contract (to_double 1) None) None = Inr s"
    using demo_contract_sized(2) by blast
  have "lq_available (sc_liquidity (demo_contract (to_double 1) None)) = Some (to_double 40)"
    by (simp add: demo_contract_def demo_liquidity_def)
  with size_within_caps[OF s demo_contract_sized(1)]
  obtain v where "sd_approved s = fround 8 v" "bound_by v (to_double 40)" by (metis insertI1)
  with s show ?thesis by (auto simp: bound_by_def)
qed

theorem no_size_without_evidence_witness:
  "\<exists>s. calculate_institutional_size (\<lambda>_. [0]) (demo_contract zero_float None) None = Inr s \<and> sd_approved s = zero_float"
proof -
  obtain s where s: "calculate_institutional_size (\<lambda>_. [0]) (demo_contract zero_float None) None = Inr s"
    using demo_contract_sized(2) by blast
  have "fle (ex_freshness (sc_execution (demo_contract zero_float None))) zero_float" by (simp add: demo_contract_def demo_execution_def)
  with s no_size_without_evidence[OF s demo_contract_sized(1)] show ?thesis by blast
qed

definition prime_contract :: "pyfloat \<Rightarrow> sizing_contract" where
  "prime_contract capacity = (demo_contract (to_double 1) (Some capacity))\<lparr>sc_source := ''internal_prime''\<rparr>"

theorem over_reserved_prime_unlimited_witness:
  "\<exists>s s'. calculate_institutional_size (\<lambda>_. [0]) (prime_contract (to_double 100)) None = Inr s \<and>
     calculate_institutional_size (\<lambda>_. [0]) (prime_contract (to_double 1000)) None = Inr s' \<and> sd_approved s = sd_approved s'"
proof -
  let ?c = "prime_contract (to_double 100)"
  have valid: "contract_errors (prime_contract x) = []" for x
    by (simp add: prime_contract_def contract_errors_def demo_contract_def validate_identity_and_notional_def validate_capital_authority_def
      validate_governance_def validate_economics_def validate_wealth_goal_def validate_prime_authority_def message_if_def
      below_zero_def finite_opt_def ratio_errors_def demo_goal_def demo_governance_def demo_capital_def demo_economics_def
      demo_settlement_def)
  have sized: "\<exists>s. calculate_institutional_size (\<lambda>_. [0]) (prime_contract x) None = Inr s" for x
  proof -
    obtain q where "wealth_cap (prime_contract x) = Inr q"
      using fdiv_finite[of "to_double 30" "to_double 30"] by (auto simp: wealth_cap_def prime_contract_def demo_contract_def demo_goal_def)
    moreover obtain v where "economics_viable (prime_contract x) = Inr v"
      by (auto simp: economics_viable_def prime_contract_def demo_contract_def demo_economics_def Let_def)
    moreover obtain u where "utilization_of (prime_contract x) y = Inr (u y)" for y
      using fdiv_finite[of "to_double 1000"] by (simp add: utilization_of_def prime_contract_def demo_contract_def demo_capital_def) metis
    ultimately show ?thesis
      using valid[of x] by (simp add: calculate_institutional_size_def further_caps_def Let_def quoted_size_at_def)
  qed
  have n: "?c\<lparr>sc_capital := (sc_capital ?c)\<lparr>ca_prime_capacity := Some (to_double 1000)\<rparr>\<rparr> = prime_contract (to_double 1000)"
    by (simp add: prime_contract_def demo_contract_def demo_capital_def)
  have f: "fmax zero_float (to_double 1) = to_double 1" "fsub (to_double 1) zero_float = to_double 1"
    "fmul (to_double 100) (to_double 1) = to_double 100" "fsub (to_double 100) (to_double 200) = to_double (- 100)"
    "fmul (to_double 1000) (to_double 1) = to_double 1000" "fsub (to_double 1000) (to_double 200) = to_double 800"
    by (simp_all add: fmax_def fsub_finite fmul_finite)
  have r: "prime_remaining (sc_capital ?c) = Some (to_double (- 100))"
    "prime_remaining ((sc_capital ?c)\<lparr>ca_prime_capacity := Some (to_double 1000)\<rparr>) = Some (to_double 800)"
    by (simp_all add: prime_remaining_def prime_contract_def demo_contract_def demo_capital_def f)
  obtain s s' where s: "calculate_institutional_size (\<lambda>_. [0]) ?c None = Inr s"
    "calculate_institutional_size (\<lambda>_. [0]) (prime_contract (to_double 1000)) None = Inr s'" using sized by blast
  have e: "fval (to_double 800) = 800" "finite_float (to_double 800)" using fval_int[of 800] by simp_all
  have "sc_requested ?c = to_double 50" by (simp add: prime_contract_def demo_contract_def)
  then show ?thesis using s over_reserved_prime_unlimited[OF r(1) _ r(2) _ _ s(1)] n e by auto
qed

lemma zero_price_units: "usd_notional_to_raw_units (PFloat zero_float) (PInt 1) (PInt 6) = Inr 0"
proof -
  have "show_nat 1 = ''1''" "show_nat 6 = ''6''" by code_simp+
  then have "reads_as (PFloat zero_float) 0" "reads_as (PInt 1) 1" "reads_as (PInt 6) (of_nat 6)"
    by (simp_all add: reads_as_def text_eval signed_zero_def)
  moreover have "raw_units_of 0 1 6 = Inr 0"
    by (simp add: raw_units_of_def in_context_def decimal_round_def round_digits_def)
  ultimately show ?thesis unfolding usd_notional_to_raw_units_parts
    by (intro exI[of _ 0] exI[of _ 1] exI[of _ 6]) simp
qed

theorem requote_keeps_sizing_witness:
  "\<exists>s s'. calculate_institutional_size (\<lambda>_. [0]) (demo_contract zero_float None) None = Inr s \<and>
     calculate_institutional_size (\<lambda>_. [0]) (demo_contract zero_float None) (Some (PDict [(''asset_price_usd'', PInt 1), (''asset_decimals'', PInt 6)])) = Inr s' \<and>
     sd_id s' = sd_id s \<and> sd_raw s' = Some 0"
proof -
  let ?c = "demo_contract zero_float None" let ?q = "PDict [(''asset_price_usd'', PInt 1), (''asset_decimals'', PInt 6)]"
  obtain s where s: "calculate_institutional_size (\<lambda>_. [0]) ?c None = Inr s" using demo_contract_sized(2) by blast
  have nz: "\<not> fle (sc_requested ?c) zero_float" by (simp add: demo_contract_def)
  obtain more u where m: "further_caps ?c = Inr more" "utilization_of ?c (approved_of (sc_requested ?c) more) = Inr u"
    using calculate_shape(2)[OF s nz] by blast
  obtain l where "(l, zero_float) \<in> set more"
    using m(1) by (fastforce simp: further_caps_def rbind_eq_Inr evidence_caps_def demo_contract_def demo_execution_def)
  then have z: "approved_of (sc_requested ?c) more = zero_float"
    using zero_cap_zero_size[OF _ _ further_caps_sound[OF m(1)], of "sc_requested ?c"] by (simp add: demo_contract_def)
  have i: "float_of_int 0 = Inr (to_double 0)" "float_of_int 1 = Inr (to_double 1)" "float_of_int 1000000 = Inr (to_double 1000000)"
    "fval (to_double 1000000) = 1000000" "finite_float (to_double 1000000)"
    using fval_int[of 0] fval_int[of 1] fval_int[of 1000000] by simp_all
  obtain r where "quoted_size_at ?c zero_float (Some ?q) = Inr r" "qs_raw r = Some 0"
    using fdiv_finite[OF i(5), of "to_double 0"] i
    by (auto simp: quoted_size_at_def Let_def quote_context_from_mapping_def dget_or_def validate_quote_context_def
        quote_validation_errors_def quote_price_error_def quote_decimals_error_def some_list_def zero_price_units from_units_def demo_contract_def)
  then obtain s' where s': "calculate_institutional_size (\<lambda>_. [0]) ?c (Some ?q) = Inr s'" "sd_raw s' = Some 0"
    using m z nz demo_valid[of zero_float None] by (auto simp: calculate_institutional_size_def Let_def)
  show ?thesis using s s' requote_keeps_sizing[OF s s'(1)] by blast
qed

theorem zero_limits_lifted_witness:
  "\<exists>c. build_institutional_sizing_contract \<lparr>si_requested = to_double 50, si_family = ''f'', si_source = ''treasury'', si_capital = PNone,
       si_prime = PNone, si_goal = PDict [(''aggressivenessCap'', PFloat zero_float)], si_capture = PDict [(''available_usd'', PFloat zero_float)],
       si_latency = PNone, si_economics = PNone, si_governance = PDict [(''max_deployable_pct'', PFloat zero_float)],
       si_settlement = PNone, si_base_borrow = 0, si_max_borrow = 0, si_target = PNone\<rparr> = Inr c \<and>
     wg_aggressiveness (sc_goal c) = to_double 1 \<and> lq_available (sc_liquidity c) = None"
proof -
  let ?a = "\<lparr>si_requested = to_double 50, si_family = ''f'', si_source = ''treasury'', si_capital = PNone,
       si_prime = PNone, si_goal = PDict [(''aggressivenessCap'', PFloat zero_float)], si_capture = PDict [(''available_usd'', PFloat zero_float)],
       si_latency = PNone, si_economics = PNone, si_governance = PDict [(''max_deployable_pct'', PFloat zero_float)],
       si_settlement = PNone, si_base_borrow = 0, si_max_borrow = 0, si_target = PNone\<rparr>"
  have "\<exists>c. build_institutional_sizing_contract ?a = Inr c"
    by (simp add: build_institutional_sizing_contract_def build_liquidity_context_def build_execution_context_def
        build_economics_context_def build_capital_context_def build_wealth_goal_context_def build_governance_context_def
        build_settlement_context_def mapping_of_def as_dict_def goal_state_def get2_def por_def present_def dget_or_def Let_def)
  then obtain c where c: "build_institutional_sizing_contract ?a = Inr c" by blast
  have "wg_aggressiveness (sc_goal c) = to_double 1 \<and> gv_max_deployable (sc_governance c) = to_double (35 / 100) \<and>
    lq_available (sc_liquidity c) = None \<and> ''liquidity_available'' \<notin> fst ` set (liquidity_caps (sc_liquidity c))"
    by (rule zero_limits_lifted[OF c]) (simp_all add: mapping_of_def as_dict_def goal_state_def por_def Let_def)
  with c show ?thesis by blast
qed

end
