(* ===== verification/Spec2Isabelle.thy ===== *)
theory Spec2Isabelle
  imports Balancer_Quote Withdraw_Reconcile Split_Router Guards Trade_Safety Withdraw_Runs Gas_Policy Pool_Events Rpc_Batch Quote_Adapters Recovery_Store Decision_Identity Sizing_Kernel
begin

text \<open>
  Verification library for the trading backend under \<open>src/backend/victor_ai_bot\<close>.

  The program looks for atomic arbitrage routes, prices them, builds calldata for an on-chain executor
  financed by a flash loan, and keeps a journal of what the chain confirmed. The library models the
  parts where a mistake moves money or books it wrongly: what is sent to the chain, what is believed
  of the chain's answers, what is booked, and the gates that decide whether anything is sent at all.
  All paths below are relative to \<open>src/backend/victor_ai_bot\<close>.

  Foundations:
  \<^item> \<open>Py_Prelude\<close>: Python values (\<open>pyval\<close>), dictionaries as association lists in insertion order,
    texts of code points below 256, \<open>int(str)\<close>, \<open>repr\<close>, exceptions as the left summand of \<open>res\<close>.
  \<^item> \<open>Byte_Codec\<close>: \<open>int.to_bytes\<close>, \<open>int.from_bytes\<close>, \<open>bytes.hex\<close>, \<open>bytes.fromhex\<close>.

  What goes to the chain:
  \<^item> \<open>Keccak\<close> and \<open>Eth_Abi\<close> (\<open>ethabi.py\<close>): the hash on 64-bit words and the ABI words. The locale
    \<open>hash32\<close> is what the callers need of a hash, the locale \<open>abi_word\<close> what they need of a word
    encoder; both are interpreted on the code's own functions.
  \<^item> \<open>Route_Encoding\<close> (\<open>route_encoding.py\<close>): the byte string whose hash is the route id; it is injective.
  \<^item> \<open>Calldata\<close> (\<open>calldata_builder.py\<close>, \<open>withdraw_builder.py\<close>): the layout of the execute call, word by word.
  \<^item> \<open>Flashloan\<close> (\<open>flashloan_providers.py\<close>): provider labels and the observed premium.

  What is believed of the chain:
  \<^item> \<open>Abi_Utils\<close> (\<open>abi_utils.py\<close>, \<open>executor_events.py\<close>): reverts and the executor's profit event.
  \<^item> \<open>Balancer_Quote\<close> (\<open>quote_balancer.py\<close>, \<open>quote_diagnostics.py\<close>): the request, the strict decoders, quotes
    one by one and in batches, the failure counters.
  \<^item> \<open>Quote_Adapters\<close> (\<open>quote_constant_product.py\<close>, \<open>quote_camelot_v2.py\<close>, \<open>quote_aerodrome.py\<close>, \<open>quote_univ3.py\<close>,
    \<open>quote_slipstream.py\<close>, \<open>quote_camelot_algebra.py\<close>, \<open>quote_curve.py\<close>): the other quotes, single and in batches.
    The locale \<open>quote_answer\<close> is what the batches need of a loop body, interpreted on five of them.
  \<^item> \<open>Rpc_Batch\<close> (\<open>rpc.py\<close>): calls in batches, the matching of answers to requests, the recovery from rate limits.
  \<^item> \<open>Tx_Status\<close> (\<open>tx_confirmation.py\<close>, \<open>offramp_tx_status.py\<close>): what a receipt proves.

  What is booked:
  \<^item> \<open>Withdrawal_Settlement\<close> (\<open>external_withdrawal_settlement.py\<close>): recipient, effect, ledger transaction.
  \<^item> \<open>Ledger_Journal\<close> (\<open>persistence/repositories/ledger_repository.py\<close>, \<open>capital_event_repository.py\<close>): two
    tables as lists of rows. The locale \<open>idempotent_journal\<close> is the contract of a deduplicating
    posting, interpreted on \<open>append_receipt_idempotent\<close>.
  \<^item> \<open>Withdraw_Reconcile\<close> (\<open>withdraw_external.py\<close>): the endpoint that composes the three above.
  \<^item> \<open>Recovery_Store\<close> (\<open>persistence/repositories/auto_trade_recovery_repository.py\<close>): the outage record of a
    component, an automaton of blocked and recovered events with its counters.
  \<^item> \<open>Json_Safe\<close> (\<open>jsonsafe.py\<close>): what leaves through the API.

  The withdrawal of everything (\<open>runtime_services/withdraw_all_service.py\<close>):
  \<^item> \<open>Gas_Policy\<close> (\<open>gas.py\<close>) and \<open>Executor_Owner\<close> (\<open>executor_owner.py\<close>): the fees of a transaction, and the proof
    that the signing key owns the executor.
  \<^item> \<open>Withdraw_Progress\<close>: the service's state, its file, and the refresh of a submitted batch.
  \<^item> \<open>Withdraw_All\<close>: configuration, preview and execution; each operation as a function of the world (state
    file, journal, repository, controls, rollout, what was handed to the node) and an environment.
  \<^item> \<open>Withdraw_Runs\<close>: what holds over runs of the operations, and where the code falls short.

  What is looked at:
  \<^item> \<open>Pool_Events\<close> (\<open>runtime_services/pool_state_event_cache.py\<close>): pool states fed by logs, reconciliation of
    missed blocks, priorities and the fair choice of candidate edges.

  What decides:
  \<^item> \<open>Decision_Identity\<close> (\<open>decision_identity.py\<close>): the ids one decision carries from the decision boundary through
    sizing to execution.
  \<^item> \<open>Py_Float\<close>: IEEE doubles with their shortest texts and 28-digit decimals, as Python computes with them; the
    rounding is monotone and its error bounded.
  \<^item> \<open>Quote_Units\<close> (\<open>execution_capture/b4_quote_units.py\<close>): notionals in USD and raw units.
  \<^item> \<open>Sizing_Contract\<close> and \<open>Sizing_Kernel\<close> (\<open>execution_capture/institutional_sizing.py\<close>, \<open>institutional_sizing_kernel.py\<close>):
    what a sizing knows, its validation, its caps and the size that comes out.
  \<^item> \<open>Trade_Safety\<close> (\<open>safety.py\<close>): the profit and repayment gate.
  \<^item> \<open>Split_Identity\<close> and \<open>Split_Router\<close> (\<open>gas_adjusted_split_identity.py\<close>, \<open>gas_adjusted_split_router.py\<close>):
    candidate evidence, the bounded search for split plans and its optimality.
  \<^item> \<open>Family_Identity\<close> and \<open>Staged_Rollout\<close> (\<open>fund_os/family_identity.py\<close>, \<open>health_states.py\<close>,
    \<open>state_transitions.py\<close>, \<open>launch_modes.py\<close>, \<open>staged_rollout.py\<close>): the state machine of strategy families.
  \<^item> \<open>Guards\<close> (\<open>circuit_breaker.py\<close>, \<open>ratelimit.py\<close>, \<open>cache.py\<close>): breaker, rate limiter, per-block cache.

  Conventions. A function of the source is a definition of the same name, less a leading underscore. A
  mutable object is a record passed and returned; an operation that raises after a change returns the
  changed record with the exception. Loops over lists are recursion on the list. The only fuel is the
  code's own: the split search carries its budget of states, the error searches of \<open>Balancer_Quote\<close> their
  depth limit. \<open>absorb\<close>, \<open>squeeze\<close>, \<open>pad_zeros\<close>, \<open>py_eq\<close>, \<open>family_rounds\<close>, \<open>chunks_of\<close>
  and \<open>send_chunk\<close> terminate by a measure.

  Arguments. What is not in the repository is an argument of the definitions: the hash libraries, SHA-256,
  the RPC client, the clock, the rounding of float sums, the request's headers. The runtime
  configuration, the readiness verdict of a family and the summary contract of the operator interface
  come from parts of the repository that are not modelled and are arguments too, without hypotheses.

  Not modelled: the scanning engine, execution and the services around it (float economics and network
  input and output), the research platforms, treasury reports, HTTP routing other than the
  reconciliation endpoint, the mobile client, the contracts.
\<close>

end
